(* ===== verification/Prelude.thy ===== *)
theory Prelude
  imports Main "HOL-Library.Word"
begin

unbundle bit_operations_syntax

section \<open>Prelude: machine types, memories and shared lemmas\<close>

text \<open>
  The types that the C and C++ sources use, the two views of memory that several components
  share, and the generic lemmas on words, lists and counting loops that the component
  theories rest on. Fixed-width integers are words, so that every wrap-around of the code is
  a wrap-around of the model.
\<close>

subsection \<open>Machine types\<close>

type_synonym u8 = "8 word"
type_synonym u16 = "16 word"
type_synonym u32 = "32 word"
type_synonym u64 = "64 word"

text \<open>Byte-addressed memory; an address is a 64-bit pointer value.\<close>

type_synonym mem = "u64 \<Rightarrow> u8"

text \<open>
  \<open>Panic\<close> of \<open>kernel/src/utils/panic.cpp\<close> never returns. An operation that may panic returns
  \<open>Inl\<close> of the message, or \<open>Inr\<close> of its result.
\<close>

datatype kpanic = Panic string

type_synonym 'a may_panic = "kpanic + 'a"

abbreviation (input) NULL :: u64 where
  "NULL \<equiv> 0"

subsection \<open>Fact collections\<close>

named_theorems frame_simps \<open>what an operation leaves unchanged\<close>
named_theorems word_nat \<open>from words to natural numbers\<close>

declare unat_word_ariths [word_nat] word_less_nat_alt [word_nat] word_le_nat_alt [word_nat]

subsection \<open>Words\<close>

lemma unat_add_1_less:
  fixes x y :: "'a::len word"
  assumes "x < y"
  shows "unat (x + 1) = Suc (unat x)"
proof -
  have "unat x < unat y" using assms by (simp add: word_less_nat_alt)
  moreover have "unat y < 2 ^ LENGTH('a)" by (rule unsigned_less)
  ultimately have "Suc (unat x) < 2 ^ LENGTH('a)" by linarith
  then show ?thesis by (simp add: unat_word_ariths)
qed

lemma unat_of_nat_small: "n < 2 ^ LENGTH('a) \<Longrightarrow> unat (of_nat n :: 'a::len word) = n"
  by (simp add: unat_of_nat take_bit_nat_eq_self)

lemma unat_ucast_up:
  "LENGTH('a) \<le> LENGTH('b) \<Longrightarrow> unat (ucast (w :: 'a::len word) :: 'b::len word) = unat w"
proof -
  assume "LENGTH('a) \<le> LENGTH('b)"
  then have "(2::nat) ^ LENGTH('a) \<le> 2 ^ LENGTH('b)" by (rule power_increasing) simp
  then have "unat w < 2 ^ LENGTH('b)" using unsigned_less [of w, where ?'a = nat] by linarith
  then show ?thesis by (simp add: unsigned_ucast_eq take_bit_nat_eq_self)
qed

lemma unat_add_no_wrap:
  fixes x y :: "'a::len word"
  assumes "unat x + unat y < 2 ^ LENGTH('a)"
  shows "unat (x + y) = unat x + unat y"
  using assms by (simp add: unat_word_ariths)

lemma unat_mult_no_wrap:
  fixes x y :: "'a::len word"
  assumes "unat x * unat y < 2 ^ LENGTH('a)"
  shows "unat (x * y) = unat x * unat y"
  using assms by (simp add: unat_word_ariths)

lemma unat_sub_no_wrap:
  fixes x y :: "'a::len word"
  assumes "unat y \<le> unat x"
  shows "unat (x - y) = unat x - unat y"
  using assms by (simp add: unat_sub word_le_nat_alt)

lemma unat_sub_wrap:
  fixes x y :: "'a::len word"
  assumes "unat x < unat y"
  shows "unat (x - y) = 2 ^ LENGTH('a) + unat x - unat y"
  using assms by (simp add: unat_sub_if' )

lemma unat_div_word [word_nat]: "unat (x div y) = unat x div unat (y :: 'a::len word)"
  by (simp add: unat_div)

lemma unat_mod_word [word_nat]: "unat (x mod y) = unat x mod unat (y :: 'a::len word)"
  by (simp add: unat_mod)

lemma word_mult_div_cancel:
  fixes i k :: "'a::len word"
  assumes "unat i * unat k < 2 ^ LENGTH('a)" and "k \<noteq> 0"
  shows "i * k div k = i"
proof (unfold word_unat_eq_iff)
  have "0 < unat k" using assms(2) by (simp add: unat_gt_0)
  then show "unat (i * k div k) = unat i"
    by (simp add: unat_div unat_mult_no_wrap [OF assms(1)])
qed

lemma sint_nonneg_unat:
  fixes w :: "'a::len word"
  assumes "0 \<le> sint w"
  shows "int (unat w) = sint w"
proof -
  have "(2::int) ^ (LENGTH('a) - 1) \<le> 2 ^ LENGTH('a)" by (rule power_increasing) simp_all
  with sint_lt [of w] have "sint w < 2 ^ LENGTH('a)" by linarith
  with assms have "take_bit LENGTH('a) (sint w) = sint w" by (rule take_bit_int_eq_self)
  then show ?thesis by (simp add: uint_sint [of w, symmetric])
qed

lemma unat64_lt: "unat (x :: u64) < 18446744073709551616"
  using unsigned_less [of x, where ?'a = nat] by simp

lemma unat32_lt: "unat (x :: u32) < 4294967296"
  using unsigned_less [of x, where ?'a = nat] by simp

lemma unat16_lt: "unat (x :: u16) < 65536"
  using unsigned_less [of x, where ?'a = nat] by simp

lemma unat8_lt: "unat (x :: u8) < 256"
  using unsigned_less [of x, where ?'a = nat] by simp

subsection \<open>Counting loops\<close>

text \<open>
  \<open>for (t = 0; t < n; t++) body\<close> over a state is a fold over the counter values.
\<close>

definition for_upto :: "u64 \<Rightarrow> (u64 \<Rightarrow> 's \<Rightarrow> 's) \<Rightarrow> 's \<Rightarrow> 's" where
  "for_upto n body s = fold (\<lambda>t. body (of_nat t)) [0..<unat n] s"

lemma for_upto_0 [simp]: "for_upto 0 body s = s"
  by (simp add: for_upto_def)

lemma fold_invariant_upt:
  assumes "P s" and "\<And>t s. t \<in> set ts \<Longrightarrow> P s \<Longrightarrow> P (f t s)"
  shows "P (fold f ts s)"
  using assms by (induction ts arbitrary: s) auto

lemma for_upto_invariant:
  assumes "P s" and "\<And>t s. t < n \<Longrightarrow> P s \<Longrightarrow> P (body t s)"
  shows "P (for_upto n body s)"
  unfolding for_upto_def
proof (rule fold_invariant_upt [where P = P], rule assms(1))
  fix t s assume "t \<in> set [0..<unat n]" and "P s"
  then have "(of_nat t :: u64) < n"
    by (simp add: word_less_nat_alt unat_of_nat)
  then show "P (body (of_nat t) s)" using \<open>P s\<close> by (rule assms(2))
qed

text \<open>The same loop, with the invariant indexed by the number of rounds done.\<close>

lemma fold_upt_indexed:
  assumes "P 0 s" and "\<And>k s. k < n \<Longrightarrow> P k s \<Longrightarrow> P (Suc k) (f k s)"
  shows "P n (fold f [0..<n] s)"
  using assms
proof (induction n)
  case 0
  then show ?case by simp
next
  case (Suc n)
  then have "P n (fold f [0..<n] s)" by (metis less_SucI)
  with Suc.prems(2) show ?case by simp
qed

lemma for_upto_indexed:
  assumes "P 0 s" and "\<And>k s. k < unat n \<Longrightarrow> P k s \<Longrightarrow> P (Suc k) (body (of_nat k) s)"
  shows "P (unat n) (for_upto n body s)"
  unfolding for_upto_def by (rule fold_upt_indexed [where P = P]) (use assms in auto)

subsection \<open>Lists\<close>

lemma take_take_append: "take n (take n xs @ ys) = take n (xs @ ys)"
  by (cases "length xs \<le> n") simp_all

lemma sum_list_upd:
  "i < length xs \<Longrightarrow> sum_list (xs[i := v]) + xs ! i = sum_list xs + (v :: 'a::comm_monoid_add)"
proof (induction xs arbitrary: i)
  case Nil
  then show ?case by simp
next
  case (Cons x xs)
  show ?case
  proof (cases i)
    case 0
    then show ?thesis by (simp add: ac_simps)
  next
    case (Suc j)
    with Cons.prems have "sum_list (xs[j := v]) + xs ! j = sum_list xs + v"
      by (intro Cons.IH) simp
    with Suc show ?thesis by (simp add: add.assoc)
  qed
qed

end
