(* ===== verification/EfiStrings.thy ===== *)
theory EfiStrings
  imports Prelude
begin

section \<open>String and memory routines of the UEFI library\<close>

text \<open>
  \<open>gnu-efi/lib/runtime/rtstr.c\<close>, \<open>gnu-efi/lib/runtime/efirtlib.c\<close> and \<open>gnu-efi/lib/str.c\<close>. Memory
  is a store of cells of one width (CHAR16 or CHAR8) and a pointer is the number of a cell, so
  \<open>s1 += 1\<close> is \<open>s1 + 1\<close>; objects do not wrap around the address space. A walk along a string that
  meets no terminator does not return: those loops are partial functions with result \<open>None\<close> then.
  The memory routines count cells; for CHAR16 buffers the callers pass twice the number of cells
  in bytes, and a forward byte copy between buffers that are a whole number of cells apart
  is the same as a copy cell by cell.
\<close>

type_synonym 'c cells = "nat \<Rightarrow> 'c"
type_synonym cells16 = "u16 cells"
type_synonym cells8 = "u8 cells"

subsection \<open>Memory routines (efirtlib.c)\<close>

fun RtZeroMem :: "'c::zero cells \<Rightarrow> nat \<Rightarrow> nat \<Rightarrow> 'c cells" where
  "RtZeroMem m pt 0 = m"
| "RtZeroMem m pt (Suc n) = RtZeroMem (m(pt := 0)) (pt + 1) n"

fun RtSetMem :: "'c cells \<Rightarrow> nat \<Rightarrow> nat \<Rightarrow> 'c \<Rightarrow> 'c cells" where
  "RtSetMem m pt 0 v = m"
| "RtSetMem m pt (Suc n) v = RtSetMem (m(pt := v)) (pt + 1) n v"

fun RtCopyMem :: "'c cells \<Rightarrow> nat \<Rightarrow> nat \<Rightarrow> nat \<Rightarrow> 'c cells" where
  "RtCopyMem m d s 0 = m"
| "RtCopyMem m d s (Suc n) = RtCopyMem (m(d := m s)) (d + 1) (s + 1) n"

fun RtCompareMem :: "cells8 \<Rightarrow> nat \<Rightarrow> nat \<Rightarrow> nat \<Rightarrow> int" where
  "RtCompareMem m d s 0 = 0"
| "RtCompareMem m d s (Suc n) =
     (if m d \<noteq> m s then uint (m d) - uint (m s) else RtCompareMem m (d + 1) (s + 1) n)"

text \<open>A GUID seen as four 32-bit words; the INT32 differences wrap.\<close>

definition RtCompareGuid :: "u32 \<times> u32 \<times> u32 \<times> u32 \<Rightarrow> u32 \<times> u32 \<times> u32 \<times> u32 \<Rightarrow> int" where
  "RtCompareGuid g1 g2 =
     (case (g1, g2) of ((a0, a1, a2, a3), (b0, b1, b2, b3)) \<Rightarrow>
        let r = a0 - b0;
            r = or r (a1 - b1);
            r = or r (a2 - b2);
            r = or r (a3 - b3)
        in sint r)"

subsection \<open>Strings (rtstr.c)\<close>

partial_function (option) RtStrCmp :: "cells16 \<Rightarrow> nat \<Rightarrow> nat \<Rightarrow> int option" where
  "RtStrCmp m s1 s2 =
     (if m s1 \<noteq> 0 \<and> m s1 = m s2 then RtStrCmp m (s1 + 1) (s2 + 1)
      else Some (uint (m s1) - uint (m s2)))"

partial_function (option) RtStpCpy :: "cells16 \<Rightarrow> nat \<Rightarrow> nat \<Rightarrow> (cells16 \<times> nat) option" where
  "RtStpCpy m Dest Src =
     (if m Src \<noteq> 0 then RtStpCpy (m(Dest := m Src)) (Dest + 1) (Src + 1)
      else Some (m(Dest := 0), Dest))"

partial_function (option) RtStrCpy :: "cells16 \<Rightarrow> nat \<Rightarrow> nat \<Rightarrow> cells16 option" where
  "RtStrCpy m Dest Src =
     (if m Src \<noteq> 0 then RtStrCpy (m(Dest := m Src)) (Dest + 1) (Src + 1)
      else Some (m(Dest := 0)))"

partial_function (option) strlen_loop :: "cells16 \<Rightarrow> nat \<Rightarrow> u64 \<Rightarrow> u64 option" where
  "strlen_loop m s1 len = (if m s1 \<noteq> 0 then strlen_loop m (s1 + 1) (len + 1) else Some len)"

definition RtStrLen :: "cells16 \<Rightarrow> nat \<Rightarrow> u64 option" where
  "RtStrLen m s1 = strlen_loop m s1 0"

definition RtStrSize :: "cells16 \<Rightarrow> nat \<Rightarrow> u64 option" where
  "RtStrSize m s1 = map_option (\<lambda>len. (len + 1) * 2) (strlen_loop m s1 0)"

function strnlen_loop :: "cells16 \<Rightarrow> nat \<Rightarrow> u64 \<Rightarrow> u64 \<Rightarrow> u64" where
  "strnlen_loop m s1 Len i =
     (if m s1 \<noteq> 0 \<and> i < Len then strnlen_loop m (s1 + 1) Len (i + 1) else i)"
  by auto
termination
proof (relation "measure (\<lambda>(m, s1, Len, i). unat Len - unat i)")
  fix m :: cells16 and s1 :: nat and Len i :: u64
  assume "m s1 \<noteq> 0 \<and> i < Len"
  then have "unat (i + 1) = Suc (unat i)" "unat i < unat Len"
    using unat_add_1_less [of i Len] by (auto simp: word_less_nat_alt)
  then show "((m, s1 + 1, Len, i + 1), (m, s1, Len, i))
      \<in> measure (\<lambda>(m, s1, Len, i). unat Len - unat i)"
    by simp
qed simp

declare strnlen_loop.simps [simp del]

definition RtStrnLen :: "cells16 \<Rightarrow> nat \<Rightarrow> u64 \<Rightarrow> u64" where
  "RtStrnLen m s1 Len = strnlen_loop m s1 Len 0"

definition RtStpnCpy :: "cells16 \<Rightarrow> nat \<Rightarrow> nat \<Rightarrow> u64 \<Rightarrow> cells16 \<times> nat" where
  "RtStpnCpy m Dest Src Len =
     (let Sz = RtStrnLen m Src Len;
          m = (if Sz \<noteq> Len then RtSetMem m (Dest + unat Sz) (unat (Len - Sz)) 0 else m)
      in (RtCopyMem m Dest Src (unat Sz), Dest + unat Sz))"

definition RtStrnCpy :: "cells16 \<Rightarrow> nat \<Rightarrow> nat \<Rightarrow> u64 \<Rightarrow> cells16" where
  "RtStrnCpy m Dest Src Len =
     (let Sz = RtStrnLen m Src Len;
          m = (if Sz \<noteq> Len then RtSetMem m (Dest + unat Sz) (unat (Len - Sz)) 0 else m)
      in RtCopyMem m Dest Src (unat Sz))"

definition RtStrCat :: "cells16 \<Rightarrow> nat \<Rightarrow> nat \<Rightarrow> cells16 option" where
  "RtStrCat m Dest Src = Option.bind (RtStrLen m Dest) (\<lambda>n. RtStrCpy m (Dest + unat n) Src)"

definition RtStrnCat :: "cells16 \<Rightarrow> nat \<Rightarrow> nat \<Rightarrow> u64 \<Rightarrow> cells16 option" where
  "RtStrnCat m Dest Src Len = Option.bind (RtStrLen m Dest) (\<lambda>DestSize.
     let Sz = RtStrnLen m Src Len;
         m = RtCopyMem m (Dest + unat DestSize) Src (unat Sz)
     in Some (m(Dest + unat DestSize + unat Sz := 0)))"

definition RtBCDtoDecimal :: "u8 \<Rightarrow> u8" where
  "RtBCDtoDecimal BcdValue =
     (let High = drop_bit 4 (ucast BcdValue :: u64);
          Low = ucast BcdValue - push_bit 4 High
      in ucast (Low + High * 10))"

definition RtDecimaltoBCD :: "u8 \<Rightarrow> u8" where
  "RtDecimaltoBCD DecValue =
     (let High = (ucast DecValue :: u64) div 10;
          Low = ucast DecValue - High * 10
      in ucast (Low + push_bit 4 High))"


subsection \<open>String library (str.c)\<close>

definition StrCmp :: "cells16 \<Rightarrow> nat \<Rightarrow> nat \<Rightarrow> int option" where
  "StrCmp m s1 s2 = RtStrCmp m s1 s2"

partial_function (option) strncmp_loop :: "cells16 \<Rightarrow> nat \<Rightarrow> nat \<Rightarrow> u64 \<Rightarrow> (nat \<times> nat \<times> u64) option" where
  "strncmp_loop m s1 s2 len =
     (if m s1 \<noteq> 0 \<and> len \<noteq> 0 \<and> m s1 = m s2 then strncmp_loop m (s1 + 1) (s2 + 1) (len - 1)
      else Some (s1, s2, len))"

definition StrnCmp :: "cells16 \<Rightarrow> nat \<Rightarrow> nat \<Rightarrow> u64 \<Rightarrow> int option" where
  "StrnCmp m s1 s2 len = map_option
     (\<lambda>(s1, s2, len). if len \<noteq> 0 then uint (m s1) - uint (m s2) else 0) (strncmp_loop m s1 s2 len)"

definition LibStubStriCmp :: "cells16 \<Rightarrow> nat \<Rightarrow> nat \<Rightarrow> int option" where
  "LibStubStriCmp m s1 s2 = StrCmp m s1 s2"

definition LibStubStrLwrUpr :: "cells16 \<Rightarrow> nat \<Rightarrow> cells16" where
  "LibStubStrLwrUpr m Str = m"

definition StrCpy :: "cells16 \<Rightarrow> nat \<Rightarrow> nat \<Rightarrow> cells16 option" where
  "StrCpy m Dest Src = RtStrCpy m Dest Src"

definition StrnCpy :: "cells16 \<Rightarrow> nat \<Rightarrow> nat \<Rightarrow> u64 \<Rightarrow> cells16" where
  "StrnCpy m Dest Src Len = RtStrnCpy m Dest Src Len"

definition StpCpy :: "cells16 \<Rightarrow> nat \<Rightarrow> nat \<Rightarrow> (cells16 \<times> nat) option" where
  "StpCpy m Dest Src = RtStpCpy m Dest Src"

definition StpnCpy :: "cells16 \<Rightarrow> nat \<Rightarrow> nat \<Rightarrow> u64 \<Rightarrow> cells16 \<times> nat" where
  "StpnCpy m Dest Src Len = RtStpnCpy m Dest Src Len"

definition StrCat :: "cells16 \<Rightarrow> nat \<Rightarrow> nat \<Rightarrow> cells16 option" where
  "StrCat m Dest Src = RtStrCat m Dest Src"

definition StrnCat :: "cells16 \<Rightarrow> nat \<Rightarrow> nat \<Rightarrow> u64 \<Rightarrow> cells16 option" where
  "StrnCat m Dest Src Len = RtStrnCat m Dest Src Len"

definition StrnLen :: "cells16 \<Rightarrow> nat \<Rightarrow> u64 \<Rightarrow> u64" where
  "StrnLen m s1 Len = RtStrnLen m s1 Len"

definition StrLen :: "cells16 \<Rightarrow> nat \<Rightarrow> u64 option" where
  "StrLen m s1 = RtStrLen m s1"

definition StrSize :: "cells16 \<Rightarrow> nat \<Rightarrow> u64 option" where
  "StrSize m s1 = RtStrSize m s1"

text \<open>\<open>AllocatePool\<close> is firmware: it gives the cell number of a fresh buffer of so many bytes, or none.\<close>

definition StrDuplicate :: "(u64 \<Rightarrow> nat option) \<Rightarrow> cells16 \<Rightarrow> nat \<Rightarrow> (cells16 \<times> nat option) option" where
  "StrDuplicate AllocatePool m Src = map_option
     (\<lambda>sz. case AllocatePool sz of
        Some Dest \<Rightarrow> (RtCopyMem m Dest Src (unat (sz div 2)), Some Dest)
      | None \<Rightarrow> (m, None)) (StrSize m Src)"

partial_function (option) strlena_loop :: "cells8 \<Rightarrow> nat \<Rightarrow> u64 \<Rightarrow> u64 option" where
  "strlena_loop m s1 len = (if m s1 \<noteq> 0 then strlena_loop m (s1 + 1) (len + 1) else Some len)"

definition strlena :: "cells8 \<Rightarrow> nat \<Rightarrow> u64 option" where
  "strlena m s1 = strlena_loop m s1 0"

text \<open>The CHAR8 comparisons return UINTN: a negative difference wraps.\<close>

partial_function (option) strcmpa :: "cells8 \<Rightarrow> nat \<Rightarrow> nat \<Rightarrow> u64 option" where
  "strcmpa m s1 s2 =
     (if m s1 \<noteq> 0 \<and> m s1 = m s2 then strcmpa m (s1 + 1) (s2 + 1)
      else Some (ucast (m s1) - ucast (m s2)))"

partial_function (option) strncmpa :: "cells8 \<Rightarrow> nat \<Rightarrow> nat \<Rightarrow> u64 \<Rightarrow> u64 option" where
  "strncmpa m s1 s2 len =
     (if m s1 \<noteq> 0 \<and> len \<noteq> 0 \<and> m s1 = m s2 then strncmpa m (s1 + 1) (s2 + 1) (len - 1)
      else Some (if len \<noteq> 0 then ucast (m s1) - ucast (m s2) else 0))"

partial_function (option) skip_spaces :: "cells16 \<Rightarrow> nat \<Rightarrow> nat option" where
  "skip_spaces m str = (if m str \<noteq> 0 \<and> m str = 0x20 then skip_spaces m (str + 1) else Some str)"

definition upcase_hex :: "u16 \<Rightarrow> u16" where
  "upcase_hex c = (if 0x61 \<le> c \<and> c \<le> 0x66 then c - 0x20 else c)"

definition is_hex_digit :: "u16 \<Rightarrow> bool" where
  "is_hex_digit c \<longleftrightarrow> (0x30 \<le> c \<and> c \<le> 0x39) \<or> (0x41 \<le> c \<and> c \<le> 0x46)"

partial_function (option) xtoi_loop :: "cells16 \<Rightarrow> nat \<Rightarrow> u64 \<Rightarrow> u64 option" where
  "xtoi_loop m str u =
     (if m str = 0 then Some u
      else let c = upcase_hex (m str) in
        if is_hex_digit c
        then xtoi_loop m (str + 1) (or (push_bit 4 u) (ucast (c - (if c \<ge> 0x41 then 0x41 - 10 else 0x30))))
        else Some u)"

definition xtoi :: "cells16 \<Rightarrow> nat \<Rightarrow> u64 option" where
  "xtoi m str = Option.bind (skip_spaces m str) (\<lambda>str. xtoi_loop m str 0)"

partial_function (option) Atoi_loop :: "cells16 \<Rightarrow> nat \<Rightarrow> u64 \<Rightarrow> u64 option" where
  "Atoi_loop m str u =
     (if m str = 0 then Some u
      else if 0x30 \<le> m str \<and> m str \<le> 0x39
      then Atoi_loop m (str + 1) (u * 10 + ucast (m str) - 0x30)
      else Some u)"

definition Atoi :: "cells16 \<Rightarrow> nat \<Rightarrow> u64 option" where
  "Atoi m str = Option.bind (skip_spaces m str) (\<lambda>str. Atoi_loop m str 0)"

text \<open>
  The set of a pattern \<open>[...]\<close>: the first loop reads characters until one matches (the result is
  the last character read and the position behind it) or the match fails (\<open>None\<close>); the second
  one skips to the closing bracket.
\<close>

partial_function (option) set_loop :: "cells16 \<Rightarrow> u16 \<Rightarrow> u16 \<Rightarrow> nat \<Rightarrow> (u16 \<times> nat) option option" where
  "set_loop m c l Pattern =
     (let p = m Pattern; Pattern = Pattern + 1 in
      if p = 0 then Some (Some (p, Pattern))
      else if p = 0x5D then Some None
      else if p = 0x2D then
        (let p = m Pattern in
         if p = 0 \<or> p = 0x5D then Some None
         else if c \<ge> l \<and> c \<le> p then Some (Some (p, Pattern))
         else if c = p then Some (Some (p, Pattern))
         else set_loop m c p Pattern)
      else if c = p then Some (Some (p, Pattern))
      else set_loop m c p Pattern)"

partial_function (option) skip_set :: "cells16 \<Rightarrow> u16 \<Rightarrow> nat \<Rightarrow> nat option" where
  "skip_set m p Pattern =
     (if p \<noteq> 0 \<and> p \<noteq> 0x5D then skip_set m (m Pattern) (Pattern + 1) else Some Pattern)"

text \<open>\<open>star\<close>: inside the loop of the case \<open>*\<close>, which tries the rest of the pattern at each character.\<close>

partial_function (option) match_loop :: "cells16 \<Rightarrow> bool \<Rightarrow> nat \<Rightarrow> nat \<Rightarrow> bool option" where
  "match_loop m star String Pattern =
     (if star then
        (if m String \<noteq> 0 then
           Option.bind (match_loop m False String Pattern) (\<lambda>r.
             if r then Some True else match_loop m True (String + 1) Pattern)
         else match_loop m False String Pattern)
      else let p = m Pattern; Pattern = Pattern + 1 in
        if p = 0 then Some (m String = 0)
        else if p = 0x2A then match_loop m True String Pattern
        else if p = 0x3F then
          (if m String = 0 then Some False else match_loop m False (String + 1) Pattern)
        else if p = 0x5B then
          (let c = m String in
           if c = 0 then Some False
           else Option.bind (set_loop m c 0 Pattern) (\<lambda>r. case r of
               None \<Rightarrow> Some False
             | Some pp \<Rightarrow> Option.bind (skip_set m (fst pp) (snd pp)) (match_loop m False (String + 1))))
        else if m String \<noteq> p then Some False
        else match_loop m False (String + 1) Pattern)"

definition MetaMatch :: "cells16 \<Rightarrow> nat \<Rightarrow> nat \<Rightarrow> bool option" where
  "MetaMatch m String Pattern = match_loop m False String Pattern"

definition LibStubMetaiMatch :: "cells16 \<Rightarrow> nat \<Rightarrow> nat \<Rightarrow> bool option" where
  "LibStubMetaiMatch m String Pattern = MetaMatch m String Pattern"

text \<open>
  The current Unicode collation interface: the library's stub, or the firmware's protocol with
  its functions.
\<close>

record unicode_protocol =
  StriColl :: "cells16 \<Rightarrow> nat \<Rightarrow> nat \<Rightarrow> int option"
  MetaiMatch_fn :: "cells16 \<Rightarrow> nat \<Rightarrow> nat \<Rightarrow> bool option"
  StrLwr_fn :: "cells16 \<Rightarrow> nat \<Rightarrow> cells16"
  StrUpr_fn :: "cells16 \<Rightarrow> nat \<Rightarrow> cells16"

definition LibStubUnicodeInterface :: unicode_protocol where
  "LibStubUnicodeInterface = \<lparr>StriColl = LibStubStriCmp, MetaiMatch_fn = LibStubMetaiMatch,
     StrLwr_fn = LibStubStrLwrUpr, StrUpr_fn = LibStubStrLwrUpr\<rparr>"

definition StriCmp :: "unicode_protocol \<Rightarrow> cells16 \<Rightarrow> nat \<Rightarrow> nat \<Rightarrow> int option" where
  "StriCmp UnicodeInterface m s1 s2 = StriColl UnicodeInterface m s1 s2"

definition StrLwr :: "unicode_protocol \<Rightarrow> cells16 \<Rightarrow> nat \<Rightarrow> cells16" where
  "StrLwr UnicodeInterface m Str = StrLwr_fn UnicodeInterface m Str"

definition StrUpr :: "unicode_protocol \<Rightarrow> cells16 \<Rightarrow> nat \<Rightarrow> cells16" where
  "StrUpr UnicodeInterface m Str = StrUpr_fn UnicodeInterface m Str"

definition MetaiMatch :: "unicode_protocol \<Rightarrow> cells16 \<Rightarrow> nat \<Rightarrow> nat \<Rightarrow> bool option" where
  "MetaiMatch UnicodeInterface m String Pattern = MetaiMatch_fn UnicodeInterface m String Pattern"


subsection \<open>Strings in memory\<close>

text \<open>\<open>cstr m p xs\<close>: at \<open>p\<close> stand the non-zero characters \<open>xs\<close> and then the terminator.\<close>

fun cstr :: "'c::zero cells \<Rightarrow> nat \<Rightarrow> 'c list \<Rightarrow> bool" where
  "cstr m p [] \<longleftrightarrow> m p = 0"
| "cstr m p (x # xs) \<longleftrightarrow> x \<noteq> 0 \<and> m p = x \<and> cstr m (p + 1) xs"

lemma cstr_nth: "cstr m p xs \<Longrightarrow> i < length xs \<Longrightarrow> m (p + i) = xs ! i"
proof (induction xs arbitrary: p i)
  case (Cons x xs)
  then show ?case using Cons.IH [of "p + 1" "i - 1"] by (cases i) auto
qed simp

lemma cstr_end: "cstr m p xs \<Longrightarrow> m (p + length xs) = 0"
proof (induction xs arbitrary: p)
  case (Cons x xs)
  then show ?case using Cons.IH [of "p + 1"] by simp
qed simp

lemma cstr_nonzero: "cstr m p xs \<Longrightarrow> 0 \<notin> set xs"
  by (induction xs arbitrary: p) auto

lemma cstrI:
  assumes "\<And>i. i < length xs \<Longrightarrow> m (p + i) = xs ! i" "0 \<notin> set xs" "m (p + length xs) = 0"
  shows "cstr m p xs"
  using assms
proof (induction xs arbitrary: p)
  case (Cons x xs)
  have "cstr m (p + 1) xs"
  proof (rule Cons.IH)
    fix i assume "i < length xs"
    then show "m (p + 1 + i) = xs ! i" using Cons.prems(1) [of "Suc i"] by simp
  qed (use Cons.prems in auto)
  then show ?case using Cons.prems(1) [of 0] Cons.prems(2) by auto
qed simp

lemma cstr_cong: "(\<And>i. i \<le> length xs \<Longrightarrow> m' (p + i) = m (p + i)) \<Longrightarrow> cstr m' p xs = cstr m p xs"
proof (induction xs arbitrary: p)
  case Nil
  then show ?case using Nil.prems [of 0] by simp
next
  case (Cons x xs)
  have "cstr m' (p + 1) xs = cstr m (p + 1) xs"
    by (rule Cons.IH) (use Cons.prems [of "Suc i" for i] in auto)
  then show ?case using Cons.prems [of 0] by simp
qed

lemma cstr_unique: "cstr m p xs \<Longrightarrow> cstr m p ys \<Longrightarrow> xs = ys"
proof (induction xs arbitrary: p ys)
  case Nil
  then show ?case by (cases ys) auto
next
  case (Cons x xs)
  then show ?case by (cases ys) auto
qed

subsection \<open>Lengths and comparison\<close>

lemma strlen_loop_cstr: "cstr m s xs \<Longrightarrow> strlen_loop m s len = Some (len + of_nat (length xs))"
proof (induction xs arbitrary: s len)
  case Nil
  then show ?case by (subst strlen_loop.simps) simp
next
  case (Cons x xs)
  then show ?case by (subst strlen_loop.simps) (simp add: algebra_simps)
qed

lemma RtStrLen_cstr: "cstr m s xs \<Longrightarrow> RtStrLen m s = Some (of_nat (length xs))"
  by (simp add: RtStrLen_def strlen_loop_cstr)

lemma strnlen_loop_cstr:
  "cstr m s xs \<Longrightarrow> i \<le> Len \<Longrightarrow> unat (strnlen_loop m s Len i) = min (unat Len) (unat i + length xs)"
proof (induction xs arbitrary: s i)
  case Nil
  then show ?case by (subst strnlen_loop.simps) (simp add: word_le_nat_alt min_def)
next
  case (Cons x xs)
  show ?case
  proof (cases "i < Len")
    case True
    then have u: "unat (i + 1) = Suc (unat i)" by (rule unat_add_1_less)
    with True have "i + 1 \<le> Len" by (simp add: word_le_nat_alt word_less_nat_alt)
    from Cons.IH [OF _ this, of "s + 1"] Cons.prems u True show ?thesis
      by (subst strnlen_loop.simps) simp
  next
    case False
    then have "i = Len" using Cons.prems(2) by simp
    then show ?thesis by (subst strnlen_loop.simps) simp
  qed
qed

lemma RtStrnLen_cstr: "cstr m s xs \<Longrightarrow> unat (RtStrnLen m s Len) = min (unat Len) (length xs)"
  using strnlen_loop_cstr [of m s xs 0 Len] by (simp add: RtStrnLen_def)

text \<open>The difference of the first two characters that are not equal, the terminator included.\<close>

fun str_diff :: "u16 list \<Rightarrow> u16 list \<Rightarrow> int" where
  "str_diff [] [] = 0"
| "str_diff [] (y # ys) = - uint y"
| "str_diff (x # xs) [] = uint x"
| "str_diff (x # xs) (y # ys) = (if x = y then str_diff xs ys else uint x - uint y)"

lemma RtStrCmp_cstr: "cstr m s xs \<Longrightarrow> cstr m t ys \<Longrightarrow> RtStrCmp m s t = Some (str_diff xs ys)"
proof (induction xs ys arbitrary: s t rule: str_diff.induct)
  case 1
  then show ?case by (subst RtStrCmp.simps) simp
next
  case (2 y ys)
  then show ?case by (subst RtStrCmp.simps) simp
next
  case (3 x xs)
  then show ?case by (subst RtStrCmp.simps) simp
next
  case (4 x xs y ys)
  show ?case
  proof (cases "x = y")
    case True
    then show ?thesis
      using 4 by (subst RtStrCmp.simps) simp
  next
    case False
    have "m s = x" "m t = y" using 4(2,3) by simp_all
    with False show ?thesis by (subst RtStrCmp.simps) simp
  qed
qed

lemma str_diff_zero: "0 \<notin> set xs \<Longrightarrow> 0 \<notin> set ys \<Longrightarrow> str_diff xs ys = 0 \<longleftrightarrow> xs = ys"
  by (induction xs ys rule: str_diff.induct) (auto simp: uint_0_iff dest: iffD2 [OF word_uint_eq_iff])

lemma str_diff_antisym: "str_diff ys xs = - str_diff xs ys"
  by (induction xs ys rule: str_diff.induct) auto

lemma str_diff_lex:
  "0 \<notin> set xs \<Longrightarrow> 0 \<notin> set ys \<Longrightarrow>
     str_diff xs ys < 0 \<longleftrightarrow> (xs, ys) \<in> lexord {(x, y). x < y}"
proof (induction xs ys rule: str_diff.induct)
  case (2 y ys)
  then have "0 < uint y" by (simp add: word_neq_0_conv word_less_def)
  then show ?case by simp
next
  case (3 x xs)
  have "0 \<le> uint x" by simp
  then show ?case by simp
next
  case (4 x xs y ys)
  then show ?case by (auto simp: word_less_def)
qed simp


subsection \<open>Copying\<close>

lemma RtSetMem_at: "RtSetMem m d n v p = (if d \<le> p \<and> p < d + n then v else m p)"
  by (induction n arbitrary: m d) auto

lemma RtZeroMem_at: "RtZeroMem m d n p = (if d \<le> p \<and> p < d + n then 0 else m p)"
  by (induction n arbitrary: m d) auto

lemma RtCopyMem_at:
  assumes "d \<le> s \<or> s + n \<le> d"
  shows "RtCopyMem m d s n p = (if d \<le> p \<and> p < d + n then m (s + (p - d)) else m p)"
  using assms
proof (induction n arbitrary: m d s)
  case (Suc n)
  define m1 where "m1 = m(d := m s)"
  have m1: "m1 d = m s" "q \<noteq> d \<Longrightarrow> m1 q = m q" for q by (simp_all add: m1_def)
  have "d + 1 \<le> s + 1 \<or> s + 1 + n \<le> d + 1" using Suc.prems by auto
  note IH = Suc.IH [OF this, of m1]
  have "d \<noteq> s + (p - d) \<and> s + 1 + (p - (d + 1)) = s + (p - d)" if "d < p" "p < d + Suc n"
    using Suc.prems that by auto
  then show ?case
    using IH m1 by (cases "p = d"; cases "d < p \<and> p < d + Suc n") (auto simp: m1_def [symmetric])
qed auto

lemma RtStpCpy_cstr:
  assumes "cstr m s xs" "d \<le> s \<or> s + length xs < d"
  shows "\<exists>m'. RtStpCpy m d s = Some (m', d + length xs) \<and> RtStrCpy m d s = Some m' \<and>
    (\<forall>p. m' p = (if d \<le> p \<and> p \<le> d + length xs then (xs @ [0]) ! (p - d) else m p))"
  using assms
proof (induction xs arbitrary: m d s)
  case Nil
  then show ?case by (subst RtStpCpy.simps, subst RtStrCpy.simps) auto
next
  case (Cons x xs)
  have x: "m s = x" "x \<noteq> 0" using Cons.prems(1) by auto
  have "cstr (m(d := x)) (s + 1) xs"
    using Cons.prems by (subst cstr_cong [where m = m]) auto
  moreover have "d + 1 \<le> s + 1 \<or> s + 1 + length xs < d + 1" using Cons.prems(2) by auto
  ultimately obtain m' where m': "RtStpCpy (m(d := x)) (d + 1) (s + 1) = Some (m', d + 1 + length xs)"
    "RtStrCpy (m(d := x)) (d + 1) (s + 1) = Some m'"
    "\<And>p. m' p = (if d + 1 \<le> p \<and> p \<le> d + 1 + length xs then (xs @ [0]) ! (p - (d + 1))
        else (m(d := x)) p)"
    using Cons.IH [of "m(d := x)" "s + 1" "d + 1"] by blast
  have "m' p = (if d \<le> p \<and> p \<le> d + length (x # xs) then ((x # xs) @ [0]) ! (p - d) else m p)" for p
    by (cases "p = d") (auto simp: m'(3) nth_Cons' )
  then show ?case
    using m' x by (subst RtStpCpy.simps, subst RtStrCpy.simps) simp
qed

lemma RtStrCpy_cstr:
  assumes "cstr m s xs" "d \<le> s \<or> s + length xs < d"
  obtains m' where "RtStrCpy m d s = Some m'" "cstr m' d xs"
    "\<And>p. p < d \<or> d + length xs < p \<Longrightarrow> m' p = m p"
proof -
  obtain m' where m': "RtStrCpy m d s = Some m'"
    "\<forall>p. m' p = (if d \<le> p \<and> p \<le> d + length xs then (xs @ [0]) ! (p - d) else m p)"
    using RtStpCpy_cstr [OF assms] by auto
  have "cstr m' d xs"
    by (rule cstrI) (use m'(2) cstr_nonzero [OF assms(1)] in \<open>auto simp: nth_append\<close>)
  with m'(1) show thesis by (rule that) (use m'(2) in auto)
qed

lemma RtStrCpy_diverges:
  assumes "s < d" "\<And>i. s \<le> i \<Longrightarrow> i < d \<Longrightarrow> m i \<noteq> 0"
  shows "RtStrCpy m d s = None"
proof (rule ccontr)
  assume "RtStrCpy m d s \<noteq> None"
  then obtain m' where "RtStrCpy m d s = Some m'" by auto
  then show False
    using assms
  proof (induction rule: RtStrCpy.raw_induct [rotated 1, consumes 1])
    case (1 f m d s m')
    have "m s \<noteq> 0" using 1(3,4) by auto
    with 1(2) have "f (m(d := m s)) (d + 1) (s + 1) = Some m'" by simp
    then show ?case
      by (rule 1(1)) (use 1(3,4) \<open>m s \<noteq> 0\<close> in auto)
  qed
qed

lemma RtStpnCpy_cstr:
  assumes "cstr m s xs" "d + unat Len \<le> s \<or> s + length xs < d"
  shows "snd (RtStpnCpy m d s Len) = d + min (unat Len) (length xs)"
    and "i < unat Len \<Longrightarrow> fst (RtStpnCpy m d s Len) (d + i) = (if i < length xs then xs ! i else 0)"
    and "p < d \<or> d + unat Len \<le> p \<Longrightarrow> fst (RtStpnCpy m d s Len) p = m p"
proof -
  let ?n = "min (unat Len) (length xs)"
  have n: "unat (RtStrnLen m s Len) = ?n" by (rule RtStrnLen_cstr [OF assms(1)])
  have le: "unat (RtStrnLen m s Len) \<le> unat Len" using n by simp
  have d: "unat (Len - RtStrnLen m s Len) = unat Len - ?n"
    using le n by (simp add: unat_sub_no_wrap)
  define m1 where "m1 = (if RtStrnLen m s Len \<noteq> Len
      then RtSetMem m (d + ?n) (unat Len - ?n) 0 else m)"
  have m1: "m1 p = (if d + ?n \<le> p \<and> p < d + unat Len then 0 else m p)" for p
  proof (cases "RtStrnLen m s Len = Len")
    case True
    with n have "?n = unat Len" by simp
    then show ?thesis by (auto simp: m1_def True)
  next
    case False
    then show ?thesis by (auto simp: m1_def RtSetMem_at)
  qed
  have r: "RtStpnCpy m d s Len = (RtCopyMem m1 d s ?n, d + ?n)"
    by (simp add: RtStpnCpy_def Let_def n d m1_def)
  have ov: "d \<le> s \<or> s + ?n \<le> d" using assms(2) by auto
  show "snd (RtStpnCpy m d s Len) = d + ?n" by (simp add: r)
  show "fst (RtStpnCpy m d s Len) p = m p" if "p < d \<or> d + unat Len \<le> p"
    using that by (auto simp: r RtCopyMem_at [OF ov] m1)
  show "fst (RtStpnCpy m d s Len) (d + i) = (if i < length xs then xs ! i else 0)" if "i < unat Len"
  proof (cases "i < length xs")
    case True
    have "m1 (s + i) = m (s + i)" using assms(2) that True by (auto simp: m1)
    then show ?thesis
      using that True cstr_nth [OF assms(1) True] by (simp add: r RtCopyMem_at [OF ov])
  next
    case False
    then have "min (unat Len) (length xs) = length xs" using that by simp
    with False that RtCopyMem_at [OF ov, of m1 "d + i"] show ?thesis by (simp add: r m1)
  qed
qed

lemma RtStrnCpy_RtStpnCpy: "RtStrnCpy m d s Len = fst (RtStpnCpy m d s Len)"
  by (simp add: RtStrnCpy_def RtStpnCpy_def Let_def)

lemma RtStrCat_cstr:
  assumes "cstr m d ys" "cstr m s xs" and l: "length ys < 2 ^ 64"
    and "s + length xs < d + length ys \<or> d + length ys \<le> s"
    and sep: "s + length xs < d \<or> d + length ys < s"
  obtains m' where "RtStrCat m d s = Some m'" "cstr m' d (ys @ xs)"
    "\<And>p. p < d \<or> d + length ys + length xs < p \<Longrightarrow> m' p = m p"
proof -
  have u: "unat (of_nat (length ys) :: u64) = length ys"
    using l by (intro unat_of_nat_small) simp
  obtain m' where m': "RtStrCpy m (d + length ys) s = Some m'" "cstr m' (d + length ys) xs"
    "\<And>p. p < d + length ys \<or> d + length ys + length xs < p \<Longrightarrow> m' p = m p"
    by (rule RtStrCpy_cstr [OF assms(2), of "d + length ys"]) (use assms(4) in auto)
  have "cstr m' d (ys @ xs)"
  proof (rule cstrI)
    fix i assume i: "i < length (ys @ xs)"
    show "m' (d + i) = (ys @ xs) ! i"
    proof (cases "i < length ys")
      case True
      then show ?thesis using m'(3) cstr_nth [OF assms(1) True] by (simp add: nth_append)
    next
      case False
      then show ?thesis
        using cstr_nth [OF m'(2), of "i - length ys"] i by (simp add: nth_append)
    qed
  qed (use cstr_nonzero [OF assms(1)] cstr_nonzero [OF assms(2)] cstr_end [OF m'(2)] in
        \<open>auto simp: add.assoc\<close>)
  moreover have "RtStrCat m d s = Some m'"
    using RtStrLen_cstr [OF assms(1)] m'(1) u by (simp add: RtStrCat_def)
  ultimately show thesis using m'(3) by (intro that [of m']) auto
qed


subsection \<open>Pattern matching\<close>

text \<open>
  \<open>in_set c l cs\<close>: the character is in the set written \<open>[cs]\<close>, with \<open>l\<close> the character before
  \<open>cs\<close>: it stands there, or \<open>-\<close> stands between the ends of a range it lies in.
\<close>

fun in_set :: "u16 \<Rightarrow> u16 \<Rightarrow> u16 list \<Rightarrow> bool" where
  "in_set c l [] = False"
| "in_set c l [p] \<longleftrightarrow> p \<noteq> 0x2D \<and> c = p"
| "in_set c l (p # q # cs) \<longleftrightarrow>
     (if p = 0x2D then l \<le> c \<and> c \<le> q \<or> c = q \<or> in_set c q (q # cs)
      else c = p \<or> in_set c p (q # cs))"

inductive glob :: "u16 list \<Rightarrow> u16 list \<Rightarrow> bool" where
  glob_end: "glob [] []"
| glob_star: "glob xs ps \<Longrightarrow> glob (ys @ xs) (0x2A # ps)"
| glob_any: "glob xs ps \<Longrightarrow> glob (x # xs) (0x3F # ps)"
| glob_set: "glob xs ps \<Longrightarrow> 0x5D \<notin> set cs \<Longrightarrow> in_set x 0 cs \<Longrightarrow>
    glob (x # xs) (0x5B # cs @ 0x5D # ps)"
| glob_char: "glob xs ps \<Longrightarrow> c \<notin> {0x2A, 0x3F, 0x5B} \<Longrightarrow> glob (c # xs) (c # ps)"

text \<open>Patterns whose sets are closed.\<close>

inductive closed_pattern :: "u16 list \<Rightarrow> bool" where
  closed_Nil: "closed_pattern []"
| closed_Cons: "closed_pattern ps \<Longrightarrow> p \<noteq> 0x5B \<Longrightarrow> closed_pattern (p # ps)"
| closed_set: "closed_pattern ps \<Longrightarrow> 0x5D \<notin> set cs \<Longrightarrow> closed_pattern (0x5B # cs @ 0x5D # ps)"

inductive_simps glob_Nil_iff: "glob xs []"
inductive_simps glob_star_iff: "glob xs (0x2A # ps)"
inductive_simps glob_any_iff: "glob xs (0x3F # ps)"
inductive_simps glob_set_iff: "glob xs (0x5B # ps)"
inductive_simps glob_Cons_iff: "glob xs (p # ps)"

lemma split_at_unique:
  "x \<notin> set as \<Longrightarrow> x \<notin> set bs \<Longrightarrow> as @ x # ps = bs @ x # qs \<longleftrightarrow> as = bs \<and> ps = qs"
proof (induction as arbitrary: bs)
  case Nil
  then show ?case by (cases bs) auto
next
  case (Cons a as)
  then show ?case by (cases bs) auto
qed

lemma glob_set_unique:
  "0x5D \<notin> set cs \<Longrightarrow>
     glob xs (0x5B # cs @ 0x5D # ps) \<longleftrightarrow> (\<exists>x ys. xs = x # ys \<and> in_set x 0 cs \<and> glob ys ps)"
  by (subst glob_set_iff) (auto simp: split_at_unique)

lemma glob_char_iff:
  "p \<notin> {0x2A, 0x3F, 0x5B} \<Longrightarrow> glob xs (p # ps) \<longleftrightarrow> (\<exists>ys. xs = p # ys \<and> glob ys ps)"
  by (subst glob_Cons_iff) auto

lemma set_loop_cstr:
  assumes "cstr m pat (cs @ 0x5D # ps)" "0x5D \<notin> set cs"
  shows "(in_set c l cs \<and> (\<exists>p k. set_loop m c l pat = Some (Some (p, pat + k)) \<and> p \<noteq> 0 \<and> p \<noteq> 0x5D
            \<and> 0 < k \<and> k \<le> length cs))
         \<or> (\<not> in_set c l cs \<and> set_loop m c l pat = Some None)"
  using assms
proof (induction c l cs arbitrary: pat rule: in_set.induct)
  case (1 c l)
  then show ?case by (subst set_loop.simps, subst (2) set_loop.simps) (simp add: Let_def)
next
  case (2 c l p)
  have m: "m pat = p" "p \<noteq> 0" "p \<noteq> 0x5D" "m (Suc pat) = 0x5D" using 2 by auto
  have e: "set_loop m c' l' (Suc pat) = Some None" for c' l'
    by (subst set_loop.simps) (simp add: m Let_def)
  show ?case
    by (subst set_loop.simps, subst (2) set_loop.simps) (auto simp: m e Let_def)
next
  case (3 c l p q cs)
  have m: "m pat = p" "p \<noteq> 0" "p \<noteq> 0x5D" "m (Suc pat) = q" "q \<noteq> 0" "q \<noteq> 0x5D"
    and tl: "cstr m (pat + 1) ((q # cs) @ 0x5D # ps)" "0x5D \<notin> set (q # cs)"
    using 3(3,4) by auto
  have step: "set_loop m c l pat =
      (if p = 0x2D then
         (if l \<le> c \<and> c \<le> q then Some (Some (q, pat + 1))
          else if c = q then Some (Some (q, pat + 1)) else set_loop m c q (pat + 1))
       else if c = p then Some (Some (p, pat + 1)) else set_loop m c p (pat + 1))"
    by (subst set_loop.simps) (auto simp: m Let_def)
  have shift: "\<exists>p' k. r = Some (Some (p', pat + k)) \<and> p' \<noteq> 0 \<and> p' \<noteq> 0x5D \<and> 0 < k \<and> k \<le> length (p # q # cs)"
    if "\<exists>p' k. r = Some (Some (p', pat + 1 + k)) \<and> p' \<noteq> 0 \<and> p' \<noteq> 0x5D \<and> 0 < k \<and> k \<le> length (q # cs)"
    for r :: "(u16 \<times> nat) option option"
  proof -
    from that obtain p' k where "r = Some (Some (p', pat + 1 + k))" "p' \<noteq> 0" "p' \<noteq> 0x5D"
      "k \<le> length (q # cs)" by blast
    then show ?thesis by (intro exI [where x = p'] exI [where x = "1 + k"]) auto
  qed
  show ?case
  proof (cases "p = 0x2D")
    case True
    show ?thesis
    proof (cases "l \<le> c \<and> c \<le> q \<or> c = q")
      case found: True
      then have "set_loop m c l pat = Some (Some (q, pat + 1))" using step True by auto
      then show ?thesis using found True m by auto
    next
      case False
      have l: "set_loop m c l pat = set_loop m c q (pat + 1)" using step True False by auto
      have i: "in_set c l (p # q # cs) = in_set c q (q # cs)" using True False by auto
      show ?thesis
        unfolding l i using 3(1) [OF True tl] shift [of "set_loop m c q (pat + 1)"] by blast
    qed
  next
    case False
    show ?thesis
    proof (cases "c = p")
      case found: True
      then have "set_loop m c l pat = Some (Some (p, pat + 1))" using step False by auto
      then show ?thesis using found False m by auto
    next
      case ne: False
      have l: "set_loop m c l pat = set_loop m c p (pat + 1)" using step False ne by auto
      have i: "in_set c l (p # q # cs) = in_set c p (q # cs)" using False ne by auto
      show ?thesis
        unfolding l i using 3(2) [OF False tl] shift [of "set_loop m c p (pat + 1)"] by blast
    qed
  qed
qed


lemma skip_set_cstr:
  assumes "cstr m pat (cs @ 0x5D # ps)" "0x5D \<notin> set cs" "k \<le> length cs" "p \<noteq> 0" "p \<noteq> 0x5D"
  shows "skip_set m p (pat + k) = Some (pat + length cs + 1)"
  using assms(3-5)
proof (induction "length cs - k" arbitrary: k p)
  case 0
  then have k: "k = length cs" by simp
  have "m (pat + length cs) = 0x5D"
    using cstr_nth [OF assms(1), of "length cs"] by (simp add: nth_append)
  then have "skip_set m (m (pat + k)) (pat + k + 1) = Some (pat + length cs + 1)"
    by (subst skip_set.simps) (simp add: k)
  then show ?case using 0 by (subst skip_set.simps) simp
next
  case (Suc n)
  then have k: "k < length cs" by simp
  have "m (pat + k) = cs ! k"
    using cstr_nth [OF assms(1), of k] k by (simp add: nth_append)
  moreover have "cs ! k \<in> set cs" using k by simp
  ultimately have "m (pat + k) \<noteq> 0" "m (pat + k) \<noteq> 0x5D"
    using cstr_nonzero [OF assms(1)] assms(2) by auto
  then have "skip_set m (m (pat + k)) (pat + (k + 1)) = Some (pat + length cs + 1)"
    using Suc.hyps(2) k by (intro Suc.hyps(1)) auto
  then show ?case using Suc.prems by (subst skip_set.simps) simp
qed

lemma cstr_shift: "cstr m p (xs @ ys) \<Longrightarrow> cstr m (p + length xs) ys"
proof (induction xs arbitrary: p)
  case (Cons x xs)
  then show ?case using Cons.IH [of "p + 1"] by simp
qed simp

lemma cstr_hd: "cstr m p xs \<Longrightarrow> m p = (case xs of [] \<Rightarrow> 0 | x # _ \<Rightarrow> x)"
  by (cases xs) auto

lemma star_loop_cstr:
  assumes "\<And>s xs. cstr m s xs \<Longrightarrow> match_loop m False s pat = Some (glob xs ps)" "cstr m s xs"
  shows "match_loop m True s pat = Some (glob xs (0x2A # ps))"
  using assms(2)
proof (induction xs arbitrary: s)
  case Nil
  then show ?case
    using assms(1) [of s "[]"] by (subst match_loop.simps) (simp add: glob_star_iff)
next
  case (Cons x xs)
  have f: "match_loop m False s pat = Some (glob (x # xs) ps)" using assms(1) Cons.prems by blast
  have t: "match_loop m True (s + 1) pat = Some (glob xs (0x2A # ps))"
    by (rule Cons.IH) (use Cons.prems in simp)
  have g: "glob (x # xs) (0x2A # ps) \<longleftrightarrow> glob (x # xs) ps \<or> glob xs (0x2A # ps)"
    by (auto simp: glob_star_iff Cons_eq_append_conv)
  show ?case
    using f t Cons.prems by (subst match_loop.simps) (auto simp: g)
qed

lemma match_loop_glob:
  assumes "closed_pattern ps" "cstr m pat ps" "cstr m s xs"
  shows "match_loop m False s pat = Some (glob xs ps)"
  using assms
proof (induction ps arbitrary: pat s xs)
  case closed_Nil
  then show ?case
    using cstr_hd [of m s xs] cstr_nonzero [of m s xs]
    by (subst match_loop.simps) (auto simp: glob_Nil_iff Let_def split: list.splits)
next
  case (closed_Cons ps p)
  note IH = closed_Cons.IH
  have m: "m pat = p" "p \<noteq> 0" and tl: "cstr m (pat + 1) ps" using closed_Cons.prems by auto
  consider "p = 0x2A" | "p = 0x3F" | "p \<notin> {0x2A, 0x3F, 0x5B}" using closed_Cons.hyps by auto
  then show ?case
  proof cases
    case 1
    have "match_loop m True s (pat + 1) = Some (glob xs (0x2A # ps))"
      by (rule star_loop_cstr [OF _ closed_Cons.prems(2)]) (rule IH [OF tl])
    then show ?thesis using m 1 by (subst match_loop.simps) simp
  next
    case 2
    then show ?thesis
      using m tl IH [OF tl] closed_Cons.prems(2)
      by (cases xs; subst match_loop.simps) (simp_all add: glob_any_iff)
  next
    case 3
    then show ?thesis
      using m tl IH [OF tl] closed_Cons.prems(2)
      by (cases xs; subst match_loop.simps) (simp_all add: glob_char_iff)
  qed
next
  case (closed_set ps cs)
  have m: "m pat = 0x5B" and tl: "cstr m (pat + 1) (cs @ 0x5D # ps)"
    using closed_set.prems(1) by auto
  have rest: "cstr m (pat + 1 + length cs + 1) ps"
    using cstr_shift [OF tl] by simp
  show ?case
  proof (cases xs)
    case Nil
    then show ?thesis
      using m closed_set.prems(2)
      by (subst match_loop.simps) (simp add: glob_set_unique [OF closed_set.hyps(2)])
  next
    case (Cons x ys)
    then have s: "m s = x" "x \<noteq> 0" and ys: "cstr m (s + 1) ys" using closed_set.prems(2) by auto
    note L = set_loop_cstr [OF tl closed_set.hyps(2), of x 0]
    show ?thesis
    proof (cases "in_set x 0 cs")
      case True
      with L obtain p k where pk: "set_loop m x 0 (pat + 1) = Some (Some (p, pat + 1 + k))"
        "p \<noteq> 0" "p \<noteq> 0x5D" "k \<le> length cs" by blast
      have "skip_set m p (pat + 1 + k) = Some (pat + 1 + length cs + 1)"
        by (rule skip_set_cstr [OF tl closed_set.hyps(2) pk(4,2,3)])
      then show ?thesis
        using m s pk(1) closed_set.IH [OF rest ys] True Cons
        by (subst match_loop.simps) (simp add: glob_set_unique [OF closed_set.hyps(2)])
    next
      case False
      with L have "set_loop m x 0 (pat + 1) = Some None" by blast
      then show ?thesis
        using m s False Cons
        by (subst match_loop.simps) (simp add: glob_set_unique [OF closed_set.hyps(2)])
    qed
  qed
qed


text \<open>A set without its closing bracket: the terminator does not stop the matcher.\<close>

lemma set_loop_unclosed:
  assumes "cstr m pat cs" "0x5D \<notin> set cs" "0x2D \<notin> set cs"
  shows "\<exists>p k. set_loop m c l pat = Some (Some (p, pat + k))
    \<and> (p = 0 \<and> k = length cs + 1 \<or> p \<noteq> 0 \<and> p \<noteq> 0x5D \<and> k \<le> length cs)"
  using assms
proof (induction cs arbitrary: pat l)
  case Nil
  then show ?case by (subst set_loop.simps) (simp add: Let_def)
next
  case (Cons x cs)
  have m: "m pat = x" "x \<noteq> 0" "x \<noteq> 0x5D" "x \<noteq> 0x2D" using Cons.prems by auto
  show ?case
  proof (cases "c = x")
    case True
    then have "set_loop m c l pat = Some (Some (x, pat + 1))"
      by (subst set_loop.simps) (use m in \<open>simp add: Let_def\<close>)
    then show ?thesis using m by auto
  next
    case False
    then have "set_loop m c l pat = set_loop m c x (pat + 1)"
      by (subst set_loop.simps) (use m in \<open>simp add: Let_def\<close>)
    moreover obtain p k where "set_loop m c x (pat + 1) = Some (Some (p, pat + 1 + k))"
      "p = 0 \<and> k = length cs + 1 \<or> p \<noteq> 0 \<and> p \<noteq> 0x5D \<and> k \<le> length cs"
      using Cons.IH [of "pat + 1" x] Cons.prems by auto
    ultimately show ?thesis
      by (intro exI [where x = p] exI [where x = "1 + k"]) auto
  qed
qed

lemma skip_set_unclosed:
  assumes "cstr m pat cs" "0x5D \<notin> set cs" "k \<le> length cs" "p \<noteq> 0" "p \<noteq> 0x5D"
  shows "skip_set m p (pat + k) = Some (pat + length cs + 1)"
  using assms(3-5)
proof (induction "length cs - k" arbitrary: k p)
  case 0
  then have k: "k = length cs" by simp
  have "skip_set m (m (pat + k)) (pat + k + 1) = Some (pat + length cs + 1)"
    using cstr_end [OF assms(1)] by (subst skip_set.simps) (simp add: k)
  then show ?case using 0 by (subst skip_set.simps) simp
next
  case (Suc n)
  then have k: "k < length cs" by simp
  then have "m (pat + k) = cs ! k" "cs ! k \<in> set cs" using cstr_nth [OF assms(1)] by auto
  then have "m (pat + k) \<noteq> 0" "m (pat + k) \<noteq> 0x5D"
    using cstr_nonzero [OF assms(1)] assms(2) by auto
  then have "skip_set m (m (pat + k)) (pat + (k + 1)) = Some (pat + length cs + 1)"
    using Suc.hyps(2) k by (intro Suc.hyps(1)) auto
  then show ?case using Suc.prems by (subst skip_set.simps) simp
qed

subsection \<open>Numbers\<close>

text \<open>The hexadecimal digits and their values, as a table: 0 to 9, A to F, a to f.\<close>

definition hex_digits :: "(u16 \<times> nat) list" where
  "hex_digits =
    [(0x30, 0), (0x31, 1), (0x32, 2), (0x33, 3), (0x34, 4), (0x35, 5), (0x36, 6), (0x37, 7), (0x38, 8), (0x39, 9),
     (0x41, 10), (0x42, 11), (0x43, 12), (0x44, 13), (0x45, 14), (0x46, 15),
     (0x61, 10), (0x62, 11), (0x63, 12), (0x64, 13), (0x65, 14), (0x66, 15)]"

definition hex_value :: "u16 \<Rightarrow> nat" where
  "hex_value c = (case map_of hex_digits c of None \<Rightarrow> 0 | Some v \<Rightarrow> v)"

definition hex_digit :: "u16 \<Rightarrow> bool" where
  "hex_digit c \<longleftrightarrow> c \<in> set (map fst hex_digits)"

definition digits_value :: "nat \<Rightarrow> (u16 \<Rightarrow> nat) \<Rightarrow> nat \<Rightarrow> u16 list \<Rightarrow> nat" where
  "digits_value b val u ds = foldl (\<lambda>n d. b * n + val d) u ds"

lemma digits_value_simps [simp]:
  "digits_value b val u [] = u"
  "digits_value b val u (d # ds) = digits_value b val (b * u + val d) ds"
  by (simp_all add: digits_value_def)

lemma skip_spaces_cstr:
  "cstr m p (replicate k 0x20 @ xs) \<Longrightarrow> xs = [] \<or> hd xs \<noteq> 0x20 \<Longrightarrow> skip_spaces m p = Some (p + k)"
proof (induction k arbitrary: p)
  case 0
  then show ?case by (subst skip_spaces.simps) (use cstr_hd [of m p xs] 0 in \<open>cases xs; auto\<close>)
next
  case (Suc k)
  then show ?case using Suc.IH [of "p + 1"] by (subst skip_spaces.simps) simp
qed

lemma or_shift4:
  fixes u v :: u64
  assumes "unat v < 16"
  shows "or (push_bit 4 u) v = u * 16 + v"
proof -
  have "\<not> bit v n" if "4 \<le> n" for n
  proof -
    have "v = take_bit 4 v"
      using assms by (simp add: word_unat_eq_iff unsigned_take_bit_eq take_bit_nat_eq_self)
    then show ?thesis using that by (metis bit_take_bit_iff leD)
  qed
  then have "push_bit 4 u + v = or (push_bit 4 u) v"
    by (intro disjunctive_add) (auto simp: bit_push_bit_iff)
  then show ?thesis by (simp add: push_bit_eq_mult mult.commute)
qed

lemma hex_digit_iff: "hex_digit c \<longleftrightarrow> is_hex_digit (upcase_hex c)"
proof
  have "list_all (\<lambda>d. is_hex_digit (upcase_hex d)) (map fst hex_digits)" by code_simp
  then show "hex_digit c \<Longrightarrow> is_hex_digit (upcase_hex c)" by (simp only: hex_digit_def list_all_iff)
next
  assume "is_hex_digit (upcase_hex c)"
  then have "unat c \<in> set ([0x61..<0x67] @ [0x41..<0x47] @ [0x30..<0x3A])"
    by (auto simp: is_hex_digit_def upcase_hex_def word_le_nat_alt unat_sub_no_wrap
        simp del: upt_rec_numeral split: if_splits)
  moreover have "list_all (\<lambda>n. hex_digit (of_nat n)) ([0x61..<0x67] @ [0x41..<0x47] @ [0x30..<0x3A])" by code_simp
  ultimately have "hex_digit (of_nat (unat c))" by (simp only: list_all_iff)
  then show "hex_digit c" by simp
qed

lemma hex_step:
  assumes "hex_digit c"
  shows "(ucast (upcase_hex c - (if upcase_hex c \<ge> 0x41 then 0x41 - 10 else 0x30)) :: u64) = of_nat (hex_value c)"
    and "hex_value c < 16"
proof -
  have "list_all (\<lambda>c. (ucast (upcase_hex c - (if upcase_hex c \<ge> 0x41 then 0x41 - 10 else 0x30)) :: u64)
      = of_nat (hex_value c) \<and> hex_value c < 16) (map fst hex_digits)" by code_simp
  then show "(ucast (upcase_hex c - (if upcase_hex c \<ge> 0x41 then 0x41 - 10 else 0x30)) :: u64) = of_nat (hex_value c)"
    and "hex_value c < 16"
    using assms by (simp_all only: list_all_iff hex_digit_def)
qed

lemma xtoi_loop_cstr:
  assumes "cstr m p (ds @ rest)" "\<forall>d \<in> set ds. hex_digit d" "rest = [] \<or> \<not> hex_digit (hd rest)"
  shows "xtoi_loop m p (of_nat u) = Some (of_nat (digits_value 16 hex_value u ds))"
  using assms
proof (induction ds arbitrary: p u)
  case Nil
  then show ?case
    by (subst xtoi_loop.simps)
       (use cstr_hd [of m p rest] Nil in \<open>cases rest; auto simp: hex_digit_iff Let_def\<close>)
next
  case (Cons d ds)
  have d: "hex_digit d" and md: "m p = d" "d \<noteq> 0" using Cons.prems by auto
  note h = hex_step [OF d]
  have "or (push_bit 4 (of_nat u)) (of_nat (hex_value d) :: u64) = of_nat (16 * u + hex_value d)"
    using h(2) by (subst or_shift4) (simp_all add: unat_of_nat_small)
  then have "xtoi_loop m p (of_nat u) = xtoi_loop m (p + 1) (of_nat (16 * u + hex_value d))"
    using d md h(1) by (subst xtoi_loop.simps) (simp add: Let_def hex_digit_iff)
  then show ?case
    using Cons.IH [of "p + 1" "16 * u + hex_value d"] Cons.prems by simp
qed

lemma xtoi_cstr:
  assumes "cstr m p (replicate k 0x20 @ ds @ rest)" "\<forall>d \<in> set ds. hex_digit d"
    and "rest = [] \<or> \<not> hex_digit (hd rest)" "ds = [] \<longrightarrow> rest = [] \<or> hd rest \<noteq> 0x20"
  shows "xtoi m p = Some (of_nat (digits_value 16 hex_value 0 ds))"
proof -
  have "ds @ rest = [] \<or> hd (ds @ rest) \<noteq> 0x20"
  proof (cases ds)
    case (Cons d ds')
    then have "hex_digit d" using assms(2) by simp
    then show ?thesis
      using Cons by (auto simp: hex_digit_iff is_hex_digit_def upcase_hex_def split: if_splits)
  qed (use assms(4) in auto)
  then have "skip_spaces m p = Some (p + k)" using skip_spaces_cstr [OF assms(1)] by simp
  moreover have "cstr m (p + k) (ds @ rest)" using cstr_shift [OF assms(1)] by simp
  ultimately show ?thesis
    using xtoi_loop_cstr [of m "p + k" ds rest 0] assms(2,3) by (simp add: xtoi_def)
qed

definition dec_value :: "u16 \<Rightarrow> nat" where
  "dec_value c = unat c - 0x30"

definition dec_digit :: "u16 \<Rightarrow> bool" where
  "dec_digit c \<longleftrightarrow> 0x30 \<le> c \<and> c \<le> 0x39"

lemma Atoi_loop_cstr:
  assumes "cstr m p (ds @ rest)" "\<forall>d \<in> set ds. dec_digit d" "rest = [] \<or> \<not> dec_digit (hd rest)"
  shows "Atoi_loop m p (of_nat u) = Some (of_nat (digits_value 10 dec_value u ds))"
  using assms
proof (induction ds arbitrary: p u)
  case Nil
  then show ?case
    by (subst Atoi_loop.simps)
       (use cstr_hd [of m p rest] Nil in \<open>cases rest; auto simp: dec_digit_def\<close>)
next
  case (Cons d ds)
  have d: "dec_digit d" and md: "m p = d" "d \<noteq> 0" using Cons.prems by auto
  have "0x30 \<le> unat d" using d by (simp add: dec_digit_def word_le_nat_alt)
  then have v: "ucast d - 0x30 = (of_nat (dec_value d) :: u64)"
    by (simp add: dec_value_def of_nat_diff unsigned_of_nat)
  have "of_nat u * 10 + ucast d - 0x30 = of_nat u * 10 + (ucast d - 0x30 :: u64)" by simp
  also have "\<dots> = of_nat (10 * u + dec_value d)" unfolding v by (simp add: mult.commute)
  finally have s: "of_nat u * 10 + ucast d - 0x30 = (of_nat (10 * u + dec_value d) :: u64)" .
  have "Atoi_loop m p (of_nat u) = Atoi_loop m (p + 1) (of_nat u * 10 + ucast d - 0x30)"
    using d md by (subst Atoi_loop.simps) (simp add: dec_digit_def)
  note this [unfolded s]
  then show ?case
    using Cons.IH [of "p + 1" "10 * u + dec_value d"] Cons.prems by simp
qed

lemma Atoi_cstr:
  assumes "cstr m p (replicate k 0x20 @ ds @ rest)" "\<forall>d \<in> set ds. dec_digit d"
    and "rest = [] \<or> \<not> dec_digit (hd rest)" "ds = [] \<longrightarrow> rest = [] \<or> hd rest \<noteq> 0x20"
  shows "Atoi m p = Some (of_nat (digits_value 10 dec_value 0 ds))"
proof -
  have "ds @ rest = [] \<or> hd (ds @ rest) \<noteq> 0x20"
    using assms(2,4) by (cases ds) (auto simp: dec_digit_def)
  then have "skip_spaces m p = Some (p + k)" using skip_spaces_cstr [OF assms(1)] by simp
  moreover have "cstr m (p + k) (ds @ rest)" using cstr_shift [OF assms(1)] by simp
  ultimately show ?thesis
    using Atoi_loop_cstr [of m "p + k" ds rest 0] assms(2,3) by (simp add: Atoi_def)
qed

lemma BCD_round_trip:
  "list_all (\<lambda>d. RtBCDtoDecimal (RtDecimaltoBCD d) = d) (map of_nat [0..<100])"
  by code_simp


subsection \<open>Properties\<close>

text \<open>Memory that holds a list of cells from cell 0 on, and zeros behind it.\<close>

definition cells_of :: "u16 list \<Rightarrow> cells16" where
  "cells_of xs i = (if i < length xs then xs ! i else 0)"

text \<open>
  C9. For a pattern whose character sets are closed MetaMatch always returns, and answers TRUE exactly
  when the string matches in the declarative sense: a star stands for any characters, a question
  mark for one, a set for one of its characters or ranges, every other character for itself.
\<close>

theorem MetaMatch_glob:
  assumes "closed_pattern ps" "cstr m Pattern ps" "cstr m Str xs"
  shows "MetaMatch m Str Pattern = Some (glob xs ps)"
  using match_loop_glob [OF assms] by (simp add: MetaMatch_def)

theorem MetaMatch_glob_witness:
  "MetaMatch (cells_of [0x61, 0x37, 0x2E, 0x63, 0, 0x2A, 0x5B, 0x30, 0x2D, 0x39, 0x5D, 0x2E, 0x3F, 0]) 0 5
     = Some (glob [0x61, 0x37, 0x2E, 0x63] [0x2A, 0x5B, 0x30, 0x2D, 0x39, 0x5D, 0x2E, 0x3F])
   \<and> glob [0x61, 0x37, 0x2E, 0x63] [0x2A, 0x5B, 0x30, 0x2D, 0x39, 0x5D, 0x2E, 0x3F]"
proof
  have tail: "closed_pattern [0x2E, 0x3F]" by (simp add: closed_pattern.intros)
  have set: "closed_pattern [0x5B, 0x30, 0x2D, 0x39, 0x5D, 0x2E, 0x3F]"
    using closed_set [OF tail, of "[0x30, 0x2D, 0x39]"] by simp
  show "MetaMatch (cells_of [0x61, 0x37, 0x2E, 0x63, 0, 0x2A, 0x5B, 0x30, 0x2D, 0x39, 0x5D, 0x2E, 0x3F, 0]) 0 5
     = Some (glob [0x61, 0x37, 0x2E, 0x63] [0x2A, 0x5B, 0x30, 0x2D, 0x39, 0x5D, 0x2E, 0x3F])"
    by (rule MetaMatch_glob) (use set in \<open>simp_all add: closed_pattern.intros cells_of_def\<close>)
  have "glob [0x2E, 0x63] [0x2E, 0x3F]" by (simp add: glob_char_iff glob_any_iff glob_Nil_iff)
  from glob_set [OF this, of "[0x30, 0x2D, 0x39]" "0x37"]
  have "glob [0x37, 0x2E, 0x63] [0x5B, 0x30, 0x2D, 0x39, 0x5D, 0x2E, 0x3F]" by simp
  from glob_star [OF this, of "[0x61]"]
  show "glob [0x61, 0x37, 0x2E, 0x63] [0x2A, 0x5B, 0x30, 0x2D, 0x39, 0x5D, 0x2E, 0x3F]" by simp
qed

text \<open>
  When the bracket of a set is not closed, the terminator of the pattern does not end the match:
  whatever character the string has, it is accepted, and matching goes on with the cells behind
  the terminator.
\<close>

theorem MetaMatch_unclosed_overread:
  assumes "cstr m Pattern (0x5B # cs)" "0x5D \<notin> set cs" "0x2D \<notin> set cs" "m Str \<noteq> 0"
  shows "MetaMatch m Str Pattern = MetaMatch m (Str + 1) (Pattern + length cs + 2)"
proof -
  have m: "m Pattern = 0x5B" and cs: "cstr m (Pattern + 1) cs" using assms(1) by auto
  obtain p k where pk: "set_loop m (m Str) 0 (Pattern + 1) = Some (Some (p, Pattern + 1 + k))"
    "p = 0 \<and> k = length cs + 1 \<or> p \<noteq> 0 \<and> p \<noteq> 0x5D \<and> k \<le> length cs"
    using set_loop_unclosed [OF cs assms(2,3)] by blast
  from pk(2) have "skip_set m p (Pattern + 1 + k) = Some (Pattern + 1 + length cs + 1)"
  proof (elim disjE conjE)
    assume "p = 0" "k = length cs + 1"
    then show ?thesis by (subst skip_set.simps) simp
  next
    assume "p \<noteq> 0" "p \<noteq> 0x5D" "k \<le> length cs"
    then show ?thesis using skip_set_unclosed [OF cs assms(2)] by blast
  qed
  with pk(1) m assms(4) have "match_loop m False Str Pattern
      = match_loop m False (Str + 1) (Pattern + 1 + length cs + 1)"
    by (subst match_loop.simps) simp
  then show ?thesis by (simp add: MetaMatch_def numeral_2_eq_2)
qed

theorem MetaMatch_unclosed_overread_witness:
  "MetaMatch (cells_of [0x78, 0, 0x5B, 0x61, 0, 0x2A, 0]) 0 2
     = MetaMatch (cells_of [0x78, 0, 0x5B, 0x61, 0, 0x2A, 0]) 1 5"
  using MetaMatch_unclosed_overread
    [of "cells_of [0x78, 0, 0x5B, 0x61, 0, 0x2A, 0]" 2 "[0x61]" 0]
  by (simp add: cells_of_def)

text \<open>
  StrCmp on terminated strings returns; the result is zero exactly for equal strings and
  negative exactly when the first string comes first in lexicographic order.
\<close>

theorem StrCmp_order:
  assumes "cstr m s1 xs" "cstr m s2 ys"
  shows "\<exists>r. StrCmp m s1 s2 = Some r \<and> StrCmp m s2 s1 = Some (- r) \<and> (r = 0 \<longleftrightarrow> xs = ys)
    \<and> (r < 0 \<longleftrightarrow> (xs, ys) \<in> lexord {(x, y). x < y})"
  using RtStrCmp_cstr [OF assms] RtStrCmp_cstr [OF assms(2,1)]
    cstr_nonzero [OF assms(1)] cstr_nonzero [OF assms(2)]
  by (simp add: StrCmp_def str_diff_zero str_diff_lex str_diff_antisym [of ys xs])

theorem StrCmp_order_witness:
  "\<exists>r. StrCmp (cells_of [0x61, 0x62, 0, 0x61, 0x63]) 0 3 = Some r \<and> r < 0"
  using StrCmp_order [of "cells_of [0x61, 0x62, 0, 0x61, 0x63]" 0 "[0x61, 0x62]" 3 "[0x61, 0x63]"]
  by (auto simp: cells_of_def nth_Cons')

text \<open>
  StrCat of two strings that lie apart returns, leaves their concatenation at the destination
  and changes nothing else.
\<close>

theorem StrCat_concatenates:
  assumes "cstr m Dest ys" "cstr m Src xs" "length ys < 2 ^ 64"
    and "Src + length xs < Dest \<or> Dest + length ys + length xs < Src"
  shows "\<exists>m'. StrCat m Dest Src = Some m' \<and> cstr m' Dest (ys @ xs) \<and> cstr m' Src xs
    \<and> (\<forall>p. p < Dest \<or> Dest + length ys + length xs < p \<longrightarrow> m' p = m p)"
proof -
  obtain m' where m': "RtStrCat m Dest Src = Some m'" "cstr m' Dest (ys @ xs)"
    "\<And>p. p < Dest \<or> Dest + length ys + length xs < p \<Longrightarrow> m' p = m p"
    by (rule RtStrCat_cstr [OF assms(1-3)]) (use assms(4) in auto)
  have "cstr m' Src xs"
    by (subst cstr_cong [where m = m]) (use m'(3) assms(2,4) in auto)
  then show ?thesis using m' by (auto simp: StrCat_def)
qed

theorem StrCat_concatenates_witness:
  "\<exists>m'. StrCat (cells_of [0x61, 0, 0, 0, 0, 0x62, 0x63, 0]) 0 5 = Some m' \<and> cstr m' 0 [0x61, 0x62, 0x63]"
  using StrCat_concatenates [of "cells_of [0x61, 0, 0, 0, 0, 0x62, 0x63, 0]" 0 "[0x61]" 5 "[0x62, 0x63]"]
  by (auto simp: cells_of_def nth_Cons')

text \<open>
  Copying a string onto its own tail does not return: every character that is written destroys
  the terminator before it is read.
\<close>

theorem StrCpy_overlap_diverges:
  assumes "cstr m Src xs" "Src < Dest" "Dest \<le> Src + length xs"
  shows "StrCpy m Dest Src = None"
  unfolding StrCpy_def
proof (rule RtStrCpy_diverges [OF assms(2)])
  fix i assume i: "Src \<le> i" "i < Dest"
  then have "i - Src < length xs" using assms(3) by auto
  then have "m i = xs ! (i - Src)" "xs ! (i - Src) \<in> set xs"
    using cstr_nth [OF assms(1), of "i - Src"] i(1) by auto
  then show "m i \<noteq> 0" using cstr_nonzero [OF assms(1)] by auto
qed

theorem StrCpy_overlap_diverges_witness:
  "StrCpy (cells_of [0x61, 0x62, 0]) 1 0 = None"
  using StrCpy_overlap_diverges [of "cells_of [0x61, 0x62, 0]" 0 "[0x61, 0x62]" 1]
  by (simp add: cells_of_def)

text \<open>
  C38. xtoi skips leading spaces and reads hexadecimal digits of either case up to the first other
  character: the result is their value modulo 2 to the 64.
\<close>

theorem xtoi_value:
  assumes "cstr m p (replicate k 0x20 @ ds @ rest)" "\<forall>d \<in> set ds. hex_digit d"
    and "rest = [] \<or> \<not> hex_digit (hd rest)" "ds = [] \<longrightarrow> rest = [] \<or> hd rest \<noteq> 0x20"
  shows "\<exists>u. xtoi m p = Some u \<and> unat u = digits_value 16 hex_value 0 ds mod 2 ^ 64"
  using xtoi_cstr [OF assms] by (simp add: unat_of_nat take_bit_eq_mod)

theorem xtoi_value_witness:
  "\<exists>u. xtoi (cells_of [0x20, 0x31, 0x66, 0x41, 0x39, 0x78]) 0 = Some u \<and> unat u = 0x1FA9"
proof -
  have "cstr (cells_of [0x20, 0x31, 0x66, 0x41, 0x39, 0x78]) 0 (replicate 1 0x20 @ [0x31, 0x66, 0x41, 0x39] @ [0x78])"
    "\<forall>d \<in> set [0x31, 0x66, 0x41, 0x39]. hex_digit d" "\<not> hex_digit (hd [0x78])"
    "digits_value 16 hex_value 0 [0x31, 0x66, 0x41, 0x39] = 0x1FA9"
    by code_simp+
  with xtoi_value [of "cells_of [0x20, 0x31, 0x66, 0x41, 0x39, 0x78]" 0 1 "[0x31, 0x66, 0x41, 0x39]" "[0x78]"]
  show ?thesis by simp
qed

end
