(* ===== verification/EfiCrc.thy ===== *)
theory EfiCrc
  imports EfiStrings
begin

section \<open>Table checksums of the UEFI library (gnu-efi/lib/crc.c)\<close>

text \<open>
  A table in memory starts with an \<open>EFI_TABLE_HEADER\<close>: a 64-bit signature, then the 32-bit words
  revision, header size (at offset 12), CRC32 (at offset 16) and a reserved word. The fields are
  little-endian bytes of the same memory that the checksum runs over, so clearing and storing the
  CRC field changes what is summed.
\<close>

definition get32 :: "cells8 \<Rightarrow> nat \<Rightarrow> u32" where
  "get32 m p = or (ucast (m p)) (or (push_bit 8 (ucast (m (p + 1))))
     (or (push_bit 16 (ucast (m (p + 2)))) (push_bit 24 (ucast (m (p + 3))))))"

definition put32 :: "cells8 \<Rightarrow> nat \<Rightarrow> u32 \<Rightarrow> cells8" where
  "put32 m p v = m(p := ucast v, p + 1 := ucast (drop_bit 8 v), p + 2 := ucast (drop_bit 16 v),
     p + 3 := ucast (drop_bit 24 v))"

abbreviation Hdr_HeaderSize :: "cells8 \<Rightarrow> nat \<Rightarrow> u32" where
  "Hdr_HeaderSize m Hdr \<equiv> get32 m (Hdr + 12)"

abbreviation Hdr_CRC32 :: "cells8 \<Rightarrow> nat \<Rightarrow> u32" where
  "Hdr_CRC32 m Hdr \<equiv> get32 m (Hdr + 16)"

definition CRCTable :: "u32 list" where
  "CRCTable =
    [0x00000000, 0x77073096, 0xEE0E612C, 0x990951BA, 0x076DC419, 0x706AF48F,
     0xE963A535, 0x9E6495A3, 0x0EDB8832, 0x79DCB8A4, 0xE0D5E91E, 0x97D2D988,
     0x09B64C2B, 0x7EB17CBD, 0xE7B82D07, 0x90BF1D91, 0x1DB71064, 0x6AB020F2,
     0xF3B97148, 0x84BE41DE, 0x1ADAD47D, 0x6DDDE4EB, 0xF4D4B551, 0x83D385C7,
     0x136C9856, 0x646BA8C0, 0xFD62F97A, 0x8A65C9EC, 0x14015C4F, 0x63066CD9,
     0xFA0F3D63, 0x8D080DF5, 0x3B6E20C8, 0x4C69105E, 0xD56041E4, 0xA2677172,
     0x3C03E4D1, 0x4B04D447, 0xD20D85FD, 0xA50AB56B, 0x35B5A8FA, 0x42B2986C,
     0xDBBBC9D6, 0xACBCF940, 0x32D86CE3, 0x45DF5C75, 0xDCD60DCF, 0xABD13D59,
     0x26D930AC, 0x51DE003A, 0xC8D75180, 0xBFD06116, 0x21B4F4B5, 0x56B3C423,
     0xCFBA9599, 0xB8BDA50F, 0x2802B89E, 0x5F058808, 0xC60CD9B2, 0xB10BE924,
     0x2F6F7C87, 0x58684C11, 0xC1611DAB, 0xB6662D3D, 0x76DC4190, 0x01DB7106,
     0x98D220BC, 0xEFD5102A, 0x71B18589, 0x06B6B51F, 0x9FBFE4A5, 0xE8B8D433,
     0x7807C9A2, 0x0F00F934, 0x9609A88E, 0xE10E9818, 0x7F6A0DBB, 0x086D3D2D,
     0x91646C97, 0xE6635C01, 0x6B6B51F4, 0x1C6C6162, 0x856530D8, 0xF262004E,
     0x6C0695ED, 0x1B01A57B, 0x8208F4C1, 0xF50FC457, 0x65B0D9C6, 0x12B7E950,
     0x8BBEB8EA, 0xFCB9887C, 0x62DD1DDF, 0x15DA2D49, 0x8CD37CF3, 0xFBD44C65,
     0x4DB26158, 0x3AB551CE, 0xA3BC0074, 0xD4BB30E2, 0x4ADFA541, 0x3DD895D7,
     0xA4D1C46D, 0xD3D6F4FB, 0x4369E96A, 0x346ED9FC, 0xAD678846, 0xDA60B8D0,
     0x44042D73, 0x33031DE5, 0xAA0A4C5F, 0xDD0D7CC9, 0x5005713C, 0x270241AA,
     0xBE0B1010, 0xC90C2086, 0x5768B525, 0x206F85B3, 0xB966D409, 0xCE61E49F,
     0x5EDEF90E, 0x29D9C998, 0xB0D09822, 0xC7D7A8B4, 0x59B33D17, 0x2EB40D81,
     0xB7BD5C3B, 0xC0BA6CAD, 0xEDB88320, 0x9ABFB3B6, 0x03B6E20C, 0x74B1D29A,
     0xEAD54739, 0x9DD277AF, 0x04DB2615, 0x73DC1683, 0xE3630B12, 0x94643B84,
     0x0D6D6A3E, 0x7A6A5AA8, 0xE40ECF0B, 0x9309FF9D, 0x0A00AE27, 0x7D079EB1,
     0xF00F9344, 0x8708A3D2, 0x1E01F268, 0x6906C2FE, 0xF762575D, 0x806567CB,
     0x196C3671, 0x6E6B06E7, 0xFED41B76, 0x89D32BE0, 0x10DA7A5A, 0x67DD4ACC,
     0xF9B9DF6F, 0x8EBEEFF9, 0x17B7BE43, 0x60B08ED5, 0xD6D6A3E8, 0xA1D1937E,
     0x38D8C2C4, 0x4FDFF252, 0xD1BB67F1, 0xA6BC5767, 0x3FB506DD, 0x48B2364B,
     0xD80D2BDA, 0xAF0A1B4C, 0x36034AF6, 0x41047A60, 0xDF60EFC3, 0xA867DF55,
     0x316E8EEF, 0x4669BE79, 0xCB61B38C, 0xBC66831A, 0x256FD2A0, 0x5268E236,
     0xCC0C7795, 0xBB0B4703, 0x220216B9, 0x5505262F, 0xC5BA3BBE, 0xB2BD0B28,
     0x2BB45A92, 0x5CB36A04, 0xC2D7FFA7, 0xB5D0CF31, 0x2CD99E8B, 0x5BDEAE1D,
     0x9B64C2B0, 0xEC63F226, 0x756AA39C, 0x026D930A, 0x9C0906A9, 0xEB0E363F,
     0x72076785, 0x05005713, 0x95BF4A82, 0xE2B87A14, 0x7BB12BAE, 0x0CB61B38,
     0x92D28E9B, 0xE5D5BE0D, 0x7CDCEFB7, 0x0BDBDF21, 0x86D3D2D4, 0xF1D4E242,
     0x68DDB3F8, 0x1FDA836E, 0x81BE16CD, 0xF6B9265B, 0x6FB077E1, 0x18B74777,
     0x88085AE6, 0xFF0F6A70, 0x66063BCA, 0x11010B5C, 0x8F659EFF, 0xF862AE69,
     0x616BFFD3, 0x166CCF45, 0xA00AE278, 0xD70DD2EE, 0x4E048354, 0x3903B3C2,
     0xA7672661, 0xD06016F7, 0x4969474D, 0x3E6E77DB, 0xAED16A4A, 0xD9D65ADC,
     0x40DF0B66, 0x37D83BF0, 0xA9BCAE53, 0xDEBB9EC5, 0x47B2CF7F, 0x30B5FFE9,
     0xBDBDF21C, 0xCABAC28A, 0x53B39330, 0x24B4A3A6, 0xBAD03605, 0xCDD70693,
     0x54DE5729, 0x23D967BF, 0xB3667A2E, 0xC4614AB8, 0x5D681B02, 0x2A6F2B94,
     0xB40BBE37, 0xC30C8EA1, 0x5A05DF1B, 0x2D02EF8D]"

text \<open>The running value is a UINTN; the loop runs over \<open>Size\<close> bytes.\<close>

fun crc_loop :: "cells8 \<Rightarrow> nat \<Rightarrow> nat \<Rightarrow> u64 \<Rightarrow> u64" where
  "crc_loop m pt 0 Crc = Crc"
| "crc_loop m pt (Suc n) Crc =
     crc_loop m (pt + 1) n
       (xor (drop_bit 8 Crc) (ucast (CRCTable ! unat (xor (ucast Crc :: u8) (m pt)))))"

definition CalculateCrc :: "cells8 \<Rightarrow> nat \<Rightarrow> u64 \<Rightarrow> u32" where
  "CalculateCrc m pt Sz =
     (let Crc = crc_loop m pt (unat Sz) 0xffffffff; Crc = xor Crc 0xffffffff in ucast Crc)"

definition SetCrcAltSize :: "cells8 \<Rightarrow> u64 \<Rightarrow> nat \<Rightarrow> cells8" where
  "SetCrcAltSize m Sz Hdr =
     (let m = put32 m (Hdr + 16) 0 in put32 m (Hdr + 16) (CalculateCrc m Hdr Sz))"

definition SetCrc :: "cells8 \<Rightarrow> nat \<Rightarrow> cells8" where
  "SetCrc m Hdr = SetCrcAltSize m (ucast (Hdr_HeaderSize m Hdr)) Hdr"

definition CheckCrcAltSize :: "cells8 \<Rightarrow> u64 \<Rightarrow> u64 \<Rightarrow> nat \<Rightarrow> cells8 \<times> bool" where
  "CheckCrcAltSize m MaxSize Sz Hdr =
     (if Sz = 0 then (m, False)
      else if MaxSize \<noteq> 0 \<and> Sz > MaxSize then (m, False)
      else let OrgCrc = Hdr_CRC32 m Hdr;
               m = put32 m (Hdr + 16) 0;
               Crc = CalculateCrc m Hdr Sz;
               m = put32 m (Hdr + 16) OrgCrc
           in (m, OrgCrc = Crc))"

definition CheckCrc :: "cells8 \<Rightarrow> u64 \<Rightarrow> nat \<Rightarrow> cells8 \<times> bool" where
  "CheckCrc m MaxSize Hdr = CheckCrcAltSize m MaxSize (ucast (Hdr_HeaderSize m Hdr)) Hdr"

subsection \<open>The polynomial, bit by bit\<close>

text \<open>CRC-32: the reflected polynomial, one bit of the message at a time.\<close>

definition crc_bit :: "u32 \<Rightarrow> u32" where
  "crc_bit c = (if bit c 0 then xor (drop_bit 1 c) 0xEDB88320 else drop_bit 1 c)"

definition crc_byte :: "u32 \<Rightarrow> u8 \<Rightarrow> u32" where
  "crc_byte c b = (crc_bit ^^ 8) (xor c (ucast b))"

definition crc32 :: "u8 list \<Rightarrow> u32" where
  "crc32 bs = xor (foldl crc_byte 0xFFFFFFFF bs) 0xFFFFFFFF"

lemma crc_bit_xor: "crc_bit (xor x y) = xor (crc_bit x) (crc_bit y)"
  by (simp add: crc_bit_def bit_xor_iff drop_bit_xor xor.assoc xor.left_commute xor.commute)

lemma crc_bits_xor: "(crc_bit ^^ n) (xor x y) = xor ((crc_bit ^^ n) x) ((crc_bit ^^ n) y)"
  by (induction n) (simp_all add: crc_bit_xor)

text \<open>
  The table is linear: it is generated from its entries at the powers of two by doubling, which
  keeps the check of all 256 entries short.
\<close>

definition doubling :: "u32 list \<Rightarrow> u32 list \<Rightarrow> u32 list" where
  "doubling = foldl (\<lambda>T b. T @ map (xor b) T)"

lemma doubling_map: "map (crc_bit ^^ n) (doubling xs bs) = doubling (map (crc_bit ^^ n) xs) (map (crc_bit ^^ n) bs)"
  by (induction bs arbitrary: xs) (simp_all add: doubling_def crc_bits_xor comp_def)

lemma doubling_numbers: "map of_nat [0..<256] = doubling [0] [1, 2, 4, 8, 16, 32, 64, 128]"
  by code_simp

lemma crc_bits_basis:
  "map (crc_bit ^^ 8) [0] = [0]"
  "map (crc_bit ^^ 8) [1, 2, 4, 8, 16, 32, 64, 128] = [0x77073096, 0xEE0E612C, 0x076DC419, 0x0EDB8832,
     0x1DB71064, 0x3B6E20C8, 0x76DC4190, 0xEDB88320]"
  by code_simp+

lemma CRCTable_doubling:
  "doubling [0] [0x77073096, 0xEE0E612C, 0x076DC419, 0x0EDB8832,
     0x1DB71064, 0x3B6E20C8, 0x76DC4190, 0xEDB88320] = CRCTable"
  by code_simp

lemma CRCTable_bits: "map (crc_bit ^^ 8) (map of_nat [0..<256]) = CRCTable"
  by (simp only: doubling_numbers doubling_map crc_bits_basis CRCTable_doubling)

lemma CRCTable_nth: "i < 256 \<Longrightarrow> CRCTable ! i = (crc_bit ^^ 8) (of_nat i)"
  unfolding CRCTable_bits [symmetric] by (simp del: funpow.simps)

lemma crc_bits_shift: "take_bit n z = 0 \<Longrightarrow> (crc_bit ^^ n) z = drop_bit n z"
proof (induction n arbitrary: z)
  case (Suc n)
  have b: "\<not> bit z i" if "i < Suc n" for i
    using that arg_cong [OF Suc.prems, of "\<lambda>w. bit w i"] by (simp add: bit_take_bit_iff)
  then have "crc_bit z = drop_bit 1 z" by (simp add: crc_bit_def)
  moreover have "take_bit n (drop_bit 1 z) = 0"
    by (rule bit_eqI) (use b in \<open>auto simp: bit_take_bit_iff bit_drop_bit_eq\<close>)
  ultimately show ?case using Suc.IH by (simp add: funpow_swap1)
qed simp

lemma crc_byte_table:
  "crc_byte c b = xor (drop_bit 8 c) (CRCTable ! unat (xor (ucast c :: u8) b))"
proof -
  let ?x = "xor c (ucast b)"
  have split: "?x = xor (take_bit 8 ?x) (push_bit 8 (drop_bit 8 ?x))"
  proof (rule bit_eqI)
    fix n
    show "bit ?x n = bit (xor (take_bit 8 ?x) (push_bit 8 (drop_bit 8 ?x))) n"
      by (cases "n < 8")
         (auto simp: bit_xor_iff bit_take_bit_iff bit_push_bit_iff bit_drop_bit_eq dest: bit_imp_le_length)
  qed
  have hi: "(crc_bit ^^ 8) (push_bit 8 (drop_bit 8 ?x)) = drop_bit 8 c"
  proof -
    have "(crc_bit ^^ 8) (push_bit 8 z) = drop_bit 8 (push_bit 8 z)" for z
      by (rule crc_bits_shift, rule bit_eqI) (auto simp: bit_take_bit_iff bit_push_bit_iff)
    then have "(crc_bit ^^ 8) (push_bit 8 (drop_bit 8 ?x)) = drop_bit 8 (push_bit 8 (drop_bit 8 ?x))" .
    also have "\<dots> = drop_bit 8 c"
      by (rule bit_eqI)
         (auto simp: bit_drop_bit_eq bit_push_bit_iff bit_xor_iff bit_ucast_iff dest: bit_imp_le_length)
    finally show ?thesis .
  qed
  have lo: "take_bit 8 ?x = of_nat (unat (xor (ucast c :: u8) b))"
  proof -
    have "take_bit 8 ?x = ucast (xor (ucast c :: u8) b)"
      by (rule bit_eqI) (auto simp: bit_take_bit_iff bit_xor_iff bit_ucast_iff dest: bit_imp_le_length)
    also have "ucast w = (of_nat (unat w) :: u32)" for w :: u8 by (simp only: of_nat_unat)
    finally show ?thesis .
  qed
  have "(crc_bit ^^ 8) (take_bit 8 ?x) = CRCTable ! unat (xor (ucast c :: u8) b)"
    unfolding lo using unsigned_less [of "xor (ucast c :: u8) b", where ?'a = nat]
    by (subst CRCTable_nth) simp_all
  then show ?thesis
    unfolding crc_byte_def by (subst split) (simp only: crc_bits_xor hi xor.commute)
qed


lemma ucast_drop_xor_table:
  fixes c :: u32
  shows "xor (drop_bit 8 (ucast c :: u64)) (ucast t) = ucast (xor (drop_bit 8 c) t)"
  by (rule bit_eqI) (auto simp: bit_xor_iff bit_drop_bit_eq bit_ucast_iff dest: bit_imp_le_length)

lemma crc_loop_bytes:
  "crc_loop m pt n (ucast c) = ucast (foldl crc_byte c (map (\<lambda>i. m (pt + i)) [0..<n]))"
proof (induction n arbitrary: pt c)
  case (Suc n)
  have b: "ucast (ucast c :: u64) = (ucast c :: u8)"
    by (rule bit_eqI) (auto simp: bit_ucast_iff dest: bit_imp_le_length)
  have "map (\<lambda>i. m (pt + i)) [0..<Suc n] = m pt # map (\<lambda>i. m (pt + 1 + i)) [0..<n]"
    by (simp add: map_upt_Suc del: upt_Suc)
  then show ?case
    by (simp add: b ucast_drop_xor_table crc_byte_table [symmetric] Suc.IH del: upt_Suc)
qed simp

text \<open>The bytes a checksum over \<open>n\<close> bytes from \<open>p\<close> runs over.\<close>

definition bytes_at :: "cells8 \<Rightarrow> nat \<Rightarrow> nat \<Rightarrow> u8 list" where
  "bytes_at m p n = map (\<lambda>i. m (p + i)) [0..<n]"

lemma CalculateCrc_crc32: "CalculateCrc m pt Sz = crc32 (bytes_at m pt (unat Sz))"
proof -
  have "(0xffffffff :: u64) = ucast (0xffffffff :: u32)" by simp
  then have "crc_loop m pt (unat Sz) 0xffffffff
      = ucast (foldl crc_byte 0xffffffff (bytes_at m pt (unat Sz)))"
    by (simp only: crc_loop_bytes bytes_at_def)
  then show ?thesis
    unfolding CalculateCrc_def crc32_def Let_def
    by (simp only:) (rule bit_eqI, auto simp: bit_ucast_iff bit_xor_iff bit_mask_iff)
qed

subsection \<open>Detection of changed bytes\<close>

lemma crc_bit_inj: "crc_bit x = crc_bit y \<Longrightarrow> x = y"
proof -
  have z: "crc_bit z = 0 \<Longrightarrow> z = 0" for z
  proof -
    assume a: "crc_bit z = 0"
    have "\<not> bit (drop_bit 1 z) 31" by (auto simp: bit_drop_bit_eq dest: bit_imp_le_length)
    then have "bit (xor (drop_bit 1 z) 0xEDB88320) 31" by (simp add: bit_xor_iff)
    then have b0: "\<not> bit z 0" using a by (auto simp: crc_bit_def)
    then have d: "drop_bit 1 z = 0" using a by (simp add: crc_bit_def)
    have "\<not> bit z n" for n
    proof (cases n)
      case (Suc k)
      have "bit (drop_bit 1 z) k = bit z (1 + k)" by (simp add: bit_drop_bit_eq)
      then show ?thesis using d Suc by simp
    qed (use b0 in simp)
    then show "z = 0" by (intro bit_eqI) simp
  qed
  assume "crc_bit x = crc_bit y"
  then have "crc_bit (xor x y) = 0" by (simp add: crc_bit_xor)
  then have e: "xor x y = 0" by (rule z)
  have "y = xor x (xor x y)" by (simp add: xor.assoc [symmetric])
  then show "x = y" using e by simp
qed

lemma crc_bits_inj: "(crc_bit ^^ n) x = (crc_bit ^^ n) y \<Longrightarrow> x = y"
  by (induction n) (auto dest: crc_bit_inj)

lemma xor_cancel_right: "xor (x :: 'a::len word) z = xor y z \<longleftrightarrow> x = y"
proof
  assume "xor x z = xor y z"
  then have "xor (xor x z) z = xor (xor y z) z" by simp
  then show "x = y" by (simp add: xor.assoc)
qed simp

lemma xor_cancel_left: "xor z (x :: 'a::len word) = xor z y \<longleftrightarrow> x = y"
  using xor_cancel_right [of x z y] by (simp add: xor.commute)

lemma crc_byte_inj_state: "crc_byte c b = crc_byte d b \<Longrightarrow> c = d"
  by (auto simp: crc_byte_def xor_cancel_right dest: crc_bits_inj)

lemma crc_byte_inj_byte: "crc_byte c a = crc_byte c b \<Longrightarrow> a = b"
proof -
  assume "crc_byte c a = crc_byte c b"
  then have "(ucast a :: u32) = ucast b"
    by (auto simp: crc_byte_def xor_cancel_left dest: crc_bits_inj)
  then have e: "bit (ucast a :: u32) n = bit (ucast b :: u32) n" for n by simp
  show "a = b"
  proof (rule bit_word_eqI)
    fix n
    assume "n < LENGTH(8)"
    then show "bit a n = bit b n" using e [of n] by (simp add: bit_ucast_iff)
  qed
qed

lemma foldl_crc_inj: "foldl crc_byte c bs = foldl crc_byte d bs \<Longrightarrow> c = d"
  by (induction bs arbitrary: c d) (auto dest: crc_byte_inj_state)

lemma crc32_one_byte: "crc32 (xs @ a # ys) = crc32 (xs @ b # ys) \<Longrightarrow> a = b"
  by (auto simp: crc32_def xor_cancel_right dest!: foldl_crc_inj dest: crc_byte_inj_byte)

subsection \<open>Header fields\<close>

lemma get32_put32: "get32 (put32 m p v) p = v"
proof (rule bit_word_eqI)
  fix n
  assume "n < LENGTH(32)"
  then consider "n < 8" | k where "n = 8 + k" "k < 8" | k where "n = 16 + k" "k < 8"
    | k where "n = 24 + k" "k < 8"
    using le_Suc_ex [of 8 n] le_Suc_ex [of 16 n] le_Suc_ex [of 24 n] by fastforce
  then show "bit (get32 (put32 m p v) p) n = bit v n"
    by cases
       (simp_all add: get32_def put32_def bit_or_iff bit_push_bit_iff bit_ucast_iff bit_drop_bit_eq)
qed

lemma put32_other: "q < p \<or> p + 4 \<le> q \<Longrightarrow> put32 m p v q = m q"
  by (auto simp: put32_def)

lemma get32_put32_other: "q + 4 \<le> p \<or> p + 4 \<le> q \<Longrightarrow> get32 (put32 m p v) q = get32 m q"
proof -
  assume "q + 4 \<le> p \<or> p + 4 \<le> q"
  then have "put32 m p v (q + i) = m (q + i)" if "i < 4" for i
    using that by (intro put32_other) auto
  from this [of 0] this [of 1] this [of 2] this [of 3] show ?thesis by (simp add: get32_def)
qed

lemma put32_put32: "put32 (put32 m p v) p w = put32 m p w"
  by (auto simp: put32_def fun_eq_iff)

lemma put32_get32: "put32 m p (get32 m p) = m"
proof -
  have "ucast (get32 m p) = m p" "ucast (drop_bit 8 (get32 m p)) = m (p + 1)"
    "ucast (drop_bit 16 (get32 m p)) = m (p + 2)" "ucast (drop_bit 24 (get32 m p)) = m (p + 3)"
    by (rule bit_eqI; auto simp: get32_def bit_or_iff bit_push_bit_iff bit_ucast_iff bit_drop_bit_eq
        dest: bit_imp_le_length)+
  then show ?thesis by (auto simp: put32_def fun_eq_iff)
qed


subsection \<open>Properties\<close>

text \<open>
  C19. CalculateCrc is the CRC-32 of its bytes: the table-driven loop computes what the reflected
  polynomial gives bit by bit.
\<close>

theorem CalculateCrc_is_crc32:
  "CalculateCrc m pt Sz = crc32 (bytes_at m pt (unat Sz))"
  by (rule CalculateCrc_crc32)

lemma CheckCrc_after_SetCrc:
  assumes "Hdr_HeaderSize m Hdr \<noteq> 0" "MaxSize = 0 \<or> ucast (Hdr_HeaderSize m Hdr) \<le> MaxSize"
  shows "CheckCrc (SetCrc m Hdr) MaxSize Hdr = (SetCrc m Hdr, True)"
proof -
  let ?n = "ucast (Hdr_HeaderSize m Hdr) :: u64"
  have "(ucast w :: u64) \<noteq> 0" if "w \<noteq> 0" for w :: u32
    using that by (simp add: word_unat_eq_iff unat_ucast_up)
  then have n: "?n \<noteq> 0" using assms(1) by blast
  have h: "Hdr_HeaderSize (SetCrc m Hdr) Hdr = Hdr_HeaderSize m Hdr"
    by (simp add: SetCrc_def SetCrcAltSize_def Let_def get32_put32_other)
  show ?thesis
    using n assms(2)
    by (simp add: CheckCrc_def CheckCrcAltSize_def h)
       (simp add: SetCrc_def SetCrcAltSize_def Let_def get32_put32 put32_put32 not_less)
qed

text \<open>
  C23. A table whose checksum SetCrc has stored passes CheckCrc, which leaves the memory as it was:
  the CRC field counts as zero in both.
\<close>

theorem CheckCrc_SetCrc:
  assumes "Hdr_HeaderSize m Hdr \<noteq> 0" "MaxSize = 0 \<or> ucast (Hdr_HeaderSize m Hdr) \<le> MaxSize"
  shows "CheckCrc (SetCrc m Hdr) MaxSize Hdr = (SetCrc m Hdr, True)"
  by (rule CheckCrc_after_SetCrc [OF assms])

definition table_bytes :: cells8 where
  "table_bytes i = (if i = 12 then 24 else if i < 12 then of_nat (3 * i) else 0)"

theorem CheckCrc_SetCrc_witness:
  "CheckCrc (SetCrc table_bytes 0) 4096 0 = (SetCrc table_bytes 0, True)"
  by (rule CheckCrc_SetCrc) (simp_all add: get32_def table_bytes_def)

text \<open>
  C24. CheckCrcAltSize detects a change of a single byte: if a table passes, then with any one byte
  outside the CRC field and inside the checked size altered it fails.
\<close>

theorem CheckCrc_detects_byte:
  assumes "snd (CheckCrcAltSize m MaxSize Sz Hdr)" and "i < unat Sz" "i < 16 \<or> 20 \<le> i"
    and "b \<noteq> m (Hdr + i)"
  shows "\<not> snd (CheckCrcAltSize (m(Hdr + i := b)) MaxSize Sz Hdr)"
proof
  let ?m' = "m(Hdr + i := b)" and ?f = "Hdr + 16"
  assume A: "snd (CheckCrcAltSize ?m' MaxSize Sz Hdr)"
  have crc: "Hdr_CRC32 ?m' Hdr = Hdr_CRC32 m Hdr"
    using assms(3) by (auto simp: get32_def)
  have same: "crc32 (bytes_at (put32 m ?f 0) Hdr (unat Sz)) = crc32 (bytes_at (put32 ?m' ?f 0) Hdr (unat Sz))"
    using assms(1) A
    by (auto simp: CheckCrcAltSize_def CalculateCrc_crc32 crc Let_def split: if_splits)
  have upd: "put32 ?m' ?f 0 = (put32 m ?f 0)(Hdr + i := b)"
    using assms(3) by (auto simp: put32_def fun_eq_iff)
  have split: "bytes_at (M(Hdr + i := c)) Hdr (unat Sz)
      = bytes_at M Hdr i @ c # map (\<lambda>j. M (Hdr + j)) [Suc i..<unat Sz]" for M c
  proof -
    have "[0..<unat Sz] = [0..<i] @ i # [Suc i..<unat Sz]"
      using assms(2) upt_add_eq_append [of 0 i "unat Sz - i"] by (simp add: upt_conv_Cons)
    then show ?thesis by (simp add: bytes_at_def)
  qed
  have "put32 m ?f 0 = (put32 m ?f 0)(Hdr + i := m (Hdr + i))"
    using assms(3) by (auto simp: put32_def fun_eq_iff)
  then have "m (Hdr + i) = b"
    using same crc32_one_byte split [of "put32 m ?f 0"] unfolding upd by metis
  with assms(4) show False by simp
qed

theorem CheckCrc_detects_byte_witness:
  "\<not> snd (CheckCrcAltSize ((SetCrc table_bytes 0)(3 := 0xFF)) 0 24 0)"
proof -
  have h: "ucast (Hdr_HeaderSize (SetCrc table_bytes 0) 0) = (24 :: u64)"
    by (simp add: SetCrc_def SetCrcAltSize_def Let_def get32_put32_other)
       (simp add: get32_def table_bytes_def)
  have "CheckCrc (SetCrc table_bytes 0) 0 0 = (SetCrc table_bytes 0, True)"
    by (rule CheckCrc_after_SetCrc) (simp_all add: get32_def table_bytes_def)
  then have "snd (CheckCrcAltSize (SetCrc table_bytes 0) 0 24 0)"
    unfolding CheckCrc_def h by simp
  then show ?thesis
    using CheckCrc_detects_byte [of "SetCrc table_bytes 0" 0 24 0 3 "0xFF"]
    by (simp add: SetCrc_def SetCrcAltSize_def Let_def put32_other table_bytes_def)
qed

end
