(* ===== verification/EfiMath.thy ===== *)
theory EfiMath
  imports Prelude
begin

section \<open>64-bit arithmetic of the UEFI library (gnu-efi/lib/x86_64/math.c, gnu-efi/lib/ia32/math.c)\<close>

text \<open>
  The C bodies, and the assembly bodies that stand beside them: the shifts and the product with
  32-bit halves, and the division by a shift-and-subtract loop, which is what the 32-bit library
  uses. A shift by 64 or more and a division by zero have no result in C. \<open>UINTN\<close> is 64 bits wide
  on x86_64 and 32 bits wide on ia32.
\<close>

subsection \<open>C bodies\<close>

definition LShiftU64 :: "u64 \<Rightarrow> u64 \<Rightarrow> u64 option" where
  "LShiftU64 Operand Count = (if Count < 64 then Some (push_bit (unat Count) Operand) else None)"

definition RShiftU64 :: "u64 \<Rightarrow> u64 \<Rightarrow> u64 option" where
  "RShiftU64 Operand Count = (if Count < 64 then Some (drop_bit (unat Count) Operand) else None)"

definition MultU64x32 :: "u64 \<Rightarrow> u64 \<Rightarrow> u64" where
  "MultU64x32 Multiplicand Multiplier = Multiplicand * Multiplier"

text \<open>The remainder is stored when the caller passes a pointer for it.\<close>

definition DivU64x32 :: "u64 \<Rightarrow> u64 \<Rightarrow> bool \<Rightarrow> (u64 \<times> u64 option) option" where
  "DivU64x32 Dividend Divisor want =
     (if Divisor = 0 then None
      else Some (Dividend div Divisor, if want then Some (Dividend mod Divisor) else None))"

subsection \<open>Assembly bodies\<close>

text \<open>A 64-bit operand as \<open>(edx, eax)\<close>; shift counts of 32-bit instructions are taken modulo 32.\<close>

definition hi32 :: "u64 \<Rightarrow> u32" where
  "hi32 x = ucast (drop_bit 32 x)"

definition lo32 :: "u64 \<Rightarrow> u32" where
  "lo32 x = ucast x"

definition join32 :: "u32 \<Rightarrow> u32 \<Rightarrow> u64" where
  "join32 edx eax = or (push_bit 32 (ucast edx)) (ucast eax)"

definition shld :: "u32 \<Rightarrow> u32 \<Rightarrow> nat \<Rightarrow> u32" where
  "shld dst src cl = (let c = cl mod 32 in
     if c = 0 then dst else or (push_bit c dst) (drop_bit (32 - c) src))"

definition shrd :: "u32 \<Rightarrow> u32 \<Rightarrow> nat \<Rightarrow> u32" where
  "shrd dst src cl = (let c = cl mod 32 in
     if c = 0 then dst else or (drop_bit c dst) (push_bit (32 - c) src))"

definition LShiftU64_asm :: "u64 \<Rightarrow> u32 \<Rightarrow> u64" where
  "LShiftU64_asm Operand Count =
     (let eax = lo32 Operand; edx = hi32 Operand;
          ecx = unat (and Count 63);
          edx = shld edx eax ecx;
          eax = push_bit (ecx mod 32) eax
      in if ecx < 32 then join32 edx eax else join32 eax 0)"

definition RShiftU64_asm :: "u64 \<Rightarrow> u32 \<Rightarrow> u64" where
  "RShiftU64_asm Operand Count =
     (let eax = lo32 Operand; edx = hi32 Operand;
          ecx = unat (and Count 63);
          eax = shrd eax edx ecx;
          edx = drop_bit (ecx mod 32) edx
      in if ecx < 32 then join32 edx eax else join32 0 edx)"

definition MultU64x32_asm :: "u64 \<Rightarrow> u32 \<Rightarrow> u64" where
  "MultU64x32_asm Multiplicand Multiplier =
     (let p = ucast (lo32 Multiplicand) * (ucast Multiplier :: u64);
          q = ucast (hi32 Multiplicand) * (ucast Multiplier :: u64)
      in join32 (hi32 p + lo32 q) (lo32 p))"

text \<open>One round of the division: \<open>Rem:Dividend\<close> shifted left by one, the divisor taken off if it fits.\<close>

definition div_round :: "u32 \<Rightarrow> u64 \<times> u32 \<Rightarrow> u64 \<times> u32" where
  "div_round Divisor s =
     (case s of (Dividend, Rem) \<Rightarrow>
        let Rem = Rem * 2 + (if bit Dividend 63 then 1 else 0);
            Dividend = Dividend * 2;
            eax = (if Rem \<ge> Divisor then - 1 else 0);
            Dividend = join32 (hi32 Dividend) (lo32 Dividend - eax)
        in (Dividend, Rem - and eax Divisor))"

text \<open>The two assertions of the C body are checked in debug builds only.\<close>

definition DivU64x32_ia32 :: "u64 \<Rightarrow> u32 \<Rightarrow> bool \<Rightarrow> u64 \<times> u32 option" where
  "DivU64x32_ia32 Dividend Divisor want =
     (case (div_round Divisor ^^ 64) (Dividend, 0) of
        (Dividend, Rem) \<Rightarrow> (Dividend, if want then Some Rem else None))"

subsection \<open>Halves\<close>

lemma bit_join32: "bit (join32 h l) n \<longleftrightarrow> (if n < 32 then bit l n else bit h (n - 32) \<and> n < 64)"
  by (auto simp: join32_def bit_or_iff bit_push_bit_iff bit_ucast_iff dest: bit_imp_le_length)

lemma bit_lo32: "bit (lo32 x) n \<longleftrightarrow> bit x n \<and> n < 32"
  by (auto simp: lo32_def bit_ucast_iff)

lemma bit_hi32: "bit (hi32 x) n \<longleftrightarrow> bit x (n + 32) \<and> n < 32"
  by (auto simp: hi32_def bit_ucast_iff bit_drop_bit_eq add.commute)

lemma bit_shld:
  "n < 32 \<Longrightarrow> bit (shld d s cl) n \<longleftrightarrow>
     (if cl mod 32 \<le> n then bit d (n - cl mod 32) else bit s (32 - cl mod 32 + n))"
  by (auto simp: shld_def Let_def bit_or_iff bit_push_bit_iff bit_drop_bit_eq dest: bit_imp_le_length)

lemma bit_shrd:
  "n < 32 \<Longrightarrow> bit (shrd d s cl) n \<longleftrightarrow>
     (if cl mod 32 + n < 32 then bit d (cl mod 32 + n) else bit s (n - (32 - cl mod 32)))"
  by (auto simp: shrd_def Let_def bit_or_iff bit_push_bit_iff bit_drop_bit_eq dest: bit_imp_le_length)

lemma and_63: "unat (and (c :: u32) 63) = unat c mod 64"
proof -
  have "and c 63 = take_bit 6 c" by (simp add: take_bit_eq_mask mask_eq_exp_minus_1)
  then have "unat (and c 63) = take_bit 6 (unat c)" by (simp only: unsigned_take_bit_eq)
  then show ?thesis by (simp add: take_bit_eq_mod)
qed


subsection \<open>Shifts and product\<close>

lemma LShift_asm_push_bit: "unat c < 64 \<Longrightarrow> LShiftU64_asm x c = push_bit (unat c) x"
proof (rule bit_word_eqI)
  fix n
  assume c: "unat c < 64" and n: "n < LENGTH(64)"
  have m: "unat (and c 63) = unat c" using c by (simp add: and_63)
  show "bit (LShiftU64_asm x c) n = bit (push_bit (unat c) x) n"
  proof (cases "unat c < 32")
    case True
    then show ?thesis
      using n
      by (auto simp: LShiftU64_asm_def Let_def m bit_join32 bit_shld bit_lo32 bit_hi32 bit_push_bit_iff
          dest: bit_imp_le_length)
  next
    case False
    then obtain k where k: "unat c = 32 + k" "k < 32" using c le_Suc_ex [of 32 "unat c"] by auto
    then show ?thesis
      using n
      by (auto simp: LShiftU64_asm_def Let_def m bit_join32 bit_lo32 bit_hi32 bit_push_bit_iff
          dest: bit_imp_le_length)
  qed
qed

lemma RShift_asm_drop_bit: "unat c < 64 \<Longrightarrow> RShiftU64_asm x c = drop_bit (unat c) x"
proof (rule bit_word_eqI)
  fix n
  assume c: "unat c < 64" and n: "n < LENGTH(64)"
  have m: "unat (and c 63) = unat c" using c by (simp add: and_63)
  show "bit (RShiftU64_asm x c) n = bit (drop_bit (unat c) x) n"
  proof (cases "unat c < 32")
    case True
    then show ?thesis
      using n
      by (auto simp: RShiftU64_asm_def Let_def m bit_join32 bit_shrd bit_lo32 bit_hi32 bit_drop_bit_eq
          algebra_simps dest: bit_imp_le_length)
  next
    case False
    then obtain k where k: "unat c = 32 + k" "k < 32" using c le_Suc_ex [of 32 "unat c"] by auto
    then show ?thesis
      using n
      by (auto simp: RShiftU64_asm_def Let_def m bit_join32 bit_lo32 bit_hi32 bit_drop_bit_eq
          algebra_simps dest: bit_imp_le_length)
  qed
qed

lemma unat_lo32: "unat (lo32 x) = unat x mod 2 ^ 32"
  by (simp add: lo32_def unsigned_ucast_eq take_bit_eq_mod)

lemma unat_hi32: "unat (hi32 x) = unat x div 2 ^ 32"
proof -
  have "unat (drop_bit 32 x) < 2 ^ 32"
    using unat64_lt [of x] by (simp add: drop_bit_eq_div unat_div_word less_mult_imp_div_less)
  then show ?thesis
    by (simp add: hi32_def unsigned_ucast_eq take_bit_nat_eq_self drop_bit_eq_div unat_div_word)
qed

lemma unat_join32: "unat (join32 h l) = unat h * 2 ^ 32 + unat l"
proof -
  have "join32 h l = push_bit 32 (ucast h) + ucast l"
    unfolding join32_def
    by (rule disjunctive_add [symmetric])
       (auto simp: bit_push_bit_iff bit_ucast_iff dest: bit_imp_le_length)
  moreover have h: "unat h < 2 ^ 32" and l: "unat l < 2 ^ 32"
    using unsigned_less [of h, where ?'a = nat] unsigned_less [of l, where ?'a = nat] by simp_all
  have "unat (push_bit 32 (ucast h) :: u64) = unat h * 2 ^ 32"
    using h by (simp add: push_bit_eq_mult unat_mult_no_wrap unat_ucast_up mult.commute)
  ultimately show ?thesis
    using h l by (simp add: unat_add_no_wrap unat_ucast_up)
qed

lemma Mult_asm_mult: "MultU64x32_asm x k = x * ucast k"
proof -
  let ?l = "unat (lo32 x)" and ?h = "unat (hi32 x)" and ?k = "unat k"
  have b: "?l < 2 ^ 32" "?h < 2 ^ 32" "?k < 2 ^ 32"
    using unsigned_less [of "lo32 x", where ?'a = nat] unsigned_less [of "hi32 x", where ?'a = nat]
      unsigned_less [of k, where ?'a = nat] by simp_all
  have lk: "?l * ?k < 2 ^ 64" and hk: "?h * ?k < 2 ^ 64"
    using mult_strict_mono [OF b(1,3)] mult_strict_mono [OF b(2,3)] by simp_all
  define p where "p = ucast (lo32 x) * (ucast k :: u64)"
  define q where "q = ucast (hi32 x) * (ucast k :: u64)"
  have p: "unat p = ?l * ?k" using lk by (simp add: p_def unat_mult_no_wrap unat_ucast_up)
  have q: "unat q = ?h * ?k" using hk by (simp add: q_def unat_mult_no_wrap unat_ucast_up)
  have x: "unat x = ?h * 2 ^ 32 + ?l"
    by (simp add: unat_hi32 unat_lo32)
  have "unat (MultU64x32_asm x k)
      = (?l * ?k div 2 ^ 32 + ?h * ?k mod 2 ^ 32) mod 2 ^ 32 * 2 ^ 32 + ?l * ?k mod 2 ^ 32"
    by (simp add: MultU64x32_asm_def Let_def p_def [symmetric] q_def [symmetric] unat_join32
        unat_word_ariths unat_hi32 unat_lo32 p q)
  also have "\<dots> = ((?l * ?k div 2 ^ 32 + ?h * ?k) * 2 ^ 32 + ?l * ?k mod 2 ^ 32) mod 2 ^ 64"
  proof -
    have r: "(a mod 2 ^ 32 * 2 ^ 32 + c) = (a * 2 ^ 32 + c) mod 2 ^ 64" if "c < 2 ^ 32" for a c :: nat
    proof -
      have "(a * 2 ^ 32 + c) mod (2 ^ 32 * 2 ^ 32) = 2 ^ 32 * ((a * 2 ^ 32 + c) div 2 ^ 32 mod 2 ^ 32)
          + (a * 2 ^ 32 + c) mod 2 ^ 32"
        by (rule mod_mult2_eq)
      then show ?thesis using that by (simp add: mult.commute)
    qed
    have "(?l * ?k div 2 ^ 32 + ?h * ?k mod 2 ^ 32) mod 2 ^ 32 = (?l * ?k div 2 ^ 32 + ?h * ?k) mod 2 ^ 32"
      by (rule mod_add_right_eq)
    then show ?thesis using r [of "?l * ?k mod 2 ^ 32" "?l * ?k div 2 ^ 32 + ?h * ?k"] by simp
  qed
  also have "(?l * ?k div 2 ^ 32 + ?h * ?k) * 2 ^ 32 + ?l * ?k mod 2 ^ 32 = unat x * ?k"
    using div_mult_mod_eq [of "?l * ?k" "2 ^ 32"] unfolding x by (simp add: algebra_simps)
  also have "\<dots> mod 2 ^ 64 = unat (x * ucast k)"
    by (simp add: unat_word_ariths unat_ucast_up)
  finally show ?thesis by (simp add: word_unat_eq_iff)
qed


subsection \<open>The division loop\<close>

text \<open>
  After \<open>k\<close> rounds the dividend holds its lower \<open>64 - k\<close> bits at the top and the quotient of its
  upper \<open>k\<close> bits below, and \<open>Rem\<close> is the remainder of the upper \<open>k\<close> bits.
\<close>

definition div_inv :: "nat \<Rightarrow> nat \<Rightarrow> nat \<Rightarrow> u64 \<times> u32 \<Rightarrow> bool" where
  "div_inv N d k s \<longleftrightarrow> k \<le> 64 \<and>
     unat (fst s) = N mod 2 ^ (64 - k) * 2 ^ k + N div 2 ^ (64 - k) div d
     \<and> unat (snd s) = N div 2 ^ (64 - k) mod d"

lemma div_top_step:
  fixes N k :: nat
  assumes "k < 64"
  shows "N div 2 ^ (64 - Suc k) = 2 * (N div 2 ^ (64 - k)) + N mod 2 ^ (64 - k) div 2 ^ (63 - k)"
    and "N mod 2 ^ (64 - k) mod 2 ^ (63 - k) = N mod 2 ^ (64 - Suc k)"
proof -
  define m where "m = 63 - k"
  have m: "64 - k = Suc m" "64 - Suc k = m" "63 - k = m" using assms by (auto simp: m_def)
  have "N mod 2 ^ Suc m = 2 ^ m * (N div 2 ^ m mod 2) + N mod 2 ^ m"
    using mod_mult2_eq [of N "2 ^ m" 2] by (simp add: mult.commute)
  then have d: "N mod 2 ^ Suc m div 2 ^ m = N div 2 ^ m mod 2"
    by (simp add: div_add1_eq)
  have "N div 2 ^ Suc m = N div 2 ^ m div 2"
    by (simp add: div_mult2_eq mult.commute [of 2])
  then show "N div 2 ^ (64 - Suc k) = 2 * (N div 2 ^ (64 - k)) + N mod 2 ^ (64 - k) div 2 ^ (63 - k)"
    unfolding m d by simp
  show "N mod 2 ^ (64 - k) mod 2 ^ (63 - k) = N mod 2 ^ (64 - Suc k)"
    unfolding m by (simp add: mod_mod_cancel)
qed

lemma quotient_step:
  fixes t d b :: nat
  assumes "0 < d" "b < 2"
  shows "(2 * t + b) div d = 2 * (t div d) + (if d \<le> 2 * (t mod d) + b then 1 else 0)"
    and "(2 * t + b) mod d = 2 * (t mod d) + b - (if d \<le> 2 * (t mod d) + b then d else 0)"
proof -
  have t: "2 * t + b = 2 * (t mod d) + b + (2 * (t div d)) * d"
  proof -
    have "2 * (t div d) * d = 2 * (t div d * d)" by simp
    then show ?thesis using div_mult_mod_eq [of t d] by linarith
  qed
  define A where "A = 2 * (t mod d) + b"
  have "t mod d < d" using assms(1) by simp
  then have A: "A < 2 * d" unfolding A_def using assms(2) by simp
  have Ad: "A div d = (if d \<le> A then 1 else 0)" "A mod d = A - (if d \<le> A then d else 0)"
    using A assms(1) by (simp_all add: le_div_geq le_mod_geq)
  show "(2 * t + b) div d = 2 * (t div d) + (if d \<le> 2 * (t mod d) + b then 1 else 0)"
    unfolding t A_def [symmetric] using assms(1) by (simp add: Ad)
  show "(2 * t + b) mod d = 2 * (t mod d) + b - (if d \<le> 2 * (t mod d) + b then d else 0)"
    unfolding t A_def [symmetric] using assms(1) by (simp add: Ad)
qed

lemma bit_63_unat: "bit (x :: u64) 63 \<longleftrightarrow> unat x div 2 ^ 63 = 1"
proof -
  have "bit x 63 = odd (unat x div 2 ^ 63)"
  proof -
    have "bit x 63 = bit (unat x) 63" by (simp add: bit_unsigned_iff)
    then show ?thesis by (simp only: bit_iff_odd)
  qed
  moreover have "unat x div 2 ^ 63 < 2" using unat64_lt [of x] by simp
  ultimately show ?thesis by (auto simp: less_2_cases_iff)
qed

lemma div_round_step:
  assumes inv: "div_inv N d k s" and k: "k < 64" and N: "N < 2 ^ 64"
    and d: "unat D = d" "0 < d" "d < 2 ^ 31"
  shows "div_inv N d (Suc k) (div_round D s)"
proof -
  obtain X R where s: "s = (X, R)" by (cases s)
  define r t q b where "r = N mod 2 ^ (64 - k)" and "t = N div 2 ^ (64 - k)" and "q = t div d"
    and "b = r div 2 ^ (63 - k)"
  have X: "unat X = r * 2 ^ k + q" and R: "unat R = t mod d"
    using inv by (auto simp: div_inv_def s r_def t_def q_def)
  have pk: "(2::nat) ^ (64 - k) * 2 ^ k = 2 ^ 64" "(2::nat) ^ (63 - k) * 2 ^ k = 2 ^ 63"
    using k by (simp_all flip: power_add)
  have t_lt: "t < 2 ^ k"
    using N unfolding t_def pk(1) [symmetric] by (simp add: less_mult_imp_div_less mult.commute)
  then have q_lt: "q < 2 ^ k" unfolding q_def by (meson div_le_dividend le_less_trans)
  have b_eq: "unat X div 2 ^ 63 = b"
  proof -
    have "unat X div (2 ^ k * 2 ^ (63 - k)) = (r * 2 ^ k + q) div 2 ^ k div 2 ^ (63 - k)"
      unfolding X by (rule div_mult2_eq)
    also have "(r * 2 ^ k + q) div 2 ^ k = r" using q_lt by simp
    finally show ?thesis using pk(2) by (simp add: b_def mult.commute)
  qed
  have b2: "b < 2" using unat64_lt [of X] unfolding b_eq [symmetric] by simp
  have bit: "bit X 63 \<longleftrightarrow> b = 1" unfolding bit_63_unat b_eq ..
  have "t mod d < d" using d(2) by simp
  then have R2: "2 * unat R + b < 2 ^ 32" using R d(3) b2 by simp
  have uR: "unat (R * 2 + (if bit X 63 then 1 else 0)) = 2 * (t mod d) + b"
    using R2 b2 bit R by (auto simp: unat_word_ariths)
  let ?c = "d \<le> 2 * (t mod d) + b"
  have ge: "R * 2 + (if bit X 63 then 1 else 0) \<ge> D \<longleftrightarrow> ?c"
    unfolding word_le_nat_alt uR d(1) ..
  have r_split: "r = b * 2 ^ (63 - k) + r mod 2 ^ (63 - k)" unfolding b_def by (rule div_mult_mod_eq [symmetric])
  have X2: "unat (X * 2) = r mod 2 ^ (63 - k) * 2 ^ Suc k + 2 * q"
  proof -
    have "r * 2 ^ k = b * 2 ^ 63 + r mod 2 ^ (63 - k) * 2 ^ k"
      by (subst r_split) (simp only: add_mult_distrib mult.assoc pk(2))
    then have "2 * unat X = (r mod 2 ^ (63 - k) * 2 ^ Suc k + 2 * q) + b * 2 ^ 64"
      unfolding X by simp
    then have "unat (X * 2) = (r mod 2 ^ (63 - k) * 2 ^ Suc k + 2 * q) mod 2 ^ 64"
      by (simp add: unat_word_ariths mult.commute)
    moreover have "r mod 2 ^ (63 - k) * 2 ^ Suc k + 2 * q < 2 ^ 64"
    proof -
      have "r mod 2 ^ (63 - k) + 1 \<le> 2 ^ (63 - k)" by (simp add: Suc_leI)
      from mult_le_mono1 [OF this, of "2 ^ k"]
      have "(r mod 2 ^ (63 - k) + 1) * 2 ^ k \<le> 2 ^ 63" unfolding pk(2) .
      then show ?thesis using q_lt by simp
    qed
    ultimately show ?thesis by simp
  qed
  have even: "unat (X * 2) mod 2 = 0" unfolding X2 by simp
  define X3 where "X3 = join32 (hi32 (X * 2)) (lo32 (X * 2) - (if ?c then - 1 else 0))"
  have X3: "unat X3 = unat (X * 2) + (if ?c then 1 else 0)"
  proof (cases ?c)
    case True
    have "unat (X * 2) mod 2 ^ 32 mod 2 = unat (X * 2) mod 2" by (rule mod_mod_cancel) simp
    then have "unat (lo32 (X * 2)) mod 2 = 0" unfolding unat_lo32 using even by (simp only:)
    then have "unat (lo32 (X * 2)) \<noteq> 2 ^ 32 - 1" by auto
    then have "unat (lo32 (X * 2)) + 1 < 2 ^ 32"
      using unsigned_less [of "lo32 (X * 2)", where ?'a = nat] by simp
    then have "unat (lo32 (X * 2) - - 1) = unat (lo32 (X * 2)) + 1"
      by (simp add: unat_add_no_wrap)
    then show ?thesis
      using True by (simp add: X3_def unat_join32 unat_hi32 unat_lo32)
  qed (simp add: X3_def unat_join32 unat_hi32 unat_lo32)
  have R3: "unat (R * 2 + (if bit X 63 then 1 else 0) - and (if ?c then - 1 else 0) D)
      = 2 * (t mod d) + b - (if ?c then d else 0)"
    using uR d(1) by (auto simp: unat_sub_no_wrap)
  have res: "div_round D s = (X3, R * 2 + (if bit X 63 then 1 else 0) - and (if ?c then - 1 else 0) D)"
    unfolding div_round_def s X3_def prod.case Let_def ge ..
  note T = div_top_step [OF k, of N, folded r_def t_def b_def]
  note Q = quotient_step [OF d(2) b2, of t, folded q_def]
  show ?thesis
    unfolding div_inv_def res fst_conv snd_conv X3 X2 R3 T(1) Q
    using k T(2) by simp
qed

lemma div_rounds:
  assumes "0 < unat D" "unat D < 2 ^ 31" "k \<le> 64"
  shows "div_inv (unat X) (unat D) k ((div_round D ^^ k) (X, 0))"
  using assms(3)
proof (induction k)
  case 0
  then show ?case using unat64_lt [of X] by (simp add: div_inv_def)
next
  case (Suc k)
  then show ?case
    using div_round_step [of "unat X" "unat D" k "(div_round D ^^ k) (X, 0)" D] assms unat64_lt [of X]
    by simp
qed


subsection \<open>Properties\<close>

text \<open>
  C21. The shift-and-subtract division of the 32-bit library gives the quotient and, on request, the
  remainder of the 64-bit dividend, for every divisor between 1 and 2 to the 31 minus 1.
\<close>

theorem DivU64x32_ia32_correct:
  assumes "0 < unat Divisor" "unat Divisor < 2 ^ 31"
  shows "unat (fst (DivU64x32_ia32 Dividend Divisor want)) = unat Dividend div unat Divisor
    \<and> snd (DivU64x32_ia32 Dividend Divisor want)
       = (if want then Some (of_nat (unat Dividend mod unat Divisor)) else None)"
proof -
  obtain Q R where QR: "(div_round Divisor ^^ 64) (Dividend, 0) = (Q, R)" by fastforce
  have "unat Q = unat Dividend div unat Divisor" "unat R = unat Dividend mod unat Divisor"
    using div_rounds [OF assms order_refl, of Dividend] by (simp_all add: div_inv_def QR)
  moreover from this(2) have "R = of_nat (unat Dividend mod unat Divisor)"
    by (metis of_nat_unat ucast_id)
  ultimately show ?thesis by (simp add: DivU64x32_ia32_def QR)
qed

theorem DivU64x32_ia32_correct_witness:
  "unat (fst (DivU64x32_ia32 0xFFFFFFFFFFFFFFFF 10 True)) = 1844674407370955161
   \<and> snd (DivU64x32_ia32 0xFFFFFFFFFFFFFFFF 10 True) = Some 5"
  using DivU64x32_ia32_correct [of 10 "0xFFFFFFFFFFFFFFFF" True] by simp

text \<open>
  The 32-bit instruction sequences agree with the C operators on 64-bit values: both shifts for
  every count below 64, the product for every 32-bit multiplier.
\<close>

theorem math_asm_agrees:
  assumes "Count < 64"
  shows "LShiftU64 x (ucast Count) = Some (LShiftU64_asm x Count)
    \<and> RShiftU64 x (ucast Count) = Some (RShiftU64_asm x Count)
    \<and> MultU64x32 x (ucast k) = MultU64x32_asm x k"
  using assms
  by (simp add: LShiftU64_def RShiftU64_def MultU64x32_def LShift_asm_push_bit
      RShift_asm_drop_bit Mult_asm_mult word_less_nat_alt unat_ucast_up)

theorem math_asm_agrees_witness:
  "LShiftU64 0x123456789ABCDEF0 36 = Some (LShiftU64_asm 0x123456789ABCDEF0 36)
   \<and> RShiftU64 0x123456789ABCDEF0 36 = Some (RShiftU64_asm 0x123456789ABCDEF0 36)
   \<and> MultU64x32 0x123456789ABCDEF0 1000 = MultU64x32_asm 0x123456789ABCDEF0 1000"
  using math_asm_agrees [of 36 "0x123456789ABCDEF0" 1000] by simp

end
