(* ===== verification/ByteMem.thy ===== *)
theory ByteMem
  imports Prelude
begin

section \<open>Byte memory: little-endian fields and blocks\<close>

text \<open>
  Structures that firmware or devices lay out in memory are read and written through the bytes
  they occupy. \<open>get_bytes\<close> and \<open>put_bytes\<close> move blocks (addresses wrap around as 64-bit pointers
  do); \<open>le_word\<close> and \<open>le_bytes\<close> convert between little-endian bytes and words.
\<close>

definition get_bytes :: "mem \<Rightarrow> u64 \<Rightarrow> nat \<Rightarrow> u8 list" where
  "get_bytes m a n = map (\<lambda>i. m (a + of_nat i)) [0..<n]"

definition put_bytes :: "mem \<Rightarrow> u64 \<Rightarrow> u8 list \<Rightarrow> mem" where
  "put_bytes m a bs x = (let i = unat (x - a) in if i < length bs then bs ! i else m x)"

fun le_word :: "u8 list \<Rightarrow> 'a::len word" where
  "le_word [] = 0"
| "le_word (b # bs) = or (ucast b) (push_bit 8 (le_word bs))"

definition le_bytes :: "nat \<Rightarrow> 'a::len word \<Rightarrow> u8 list" where
  "le_bytes n w = map (\<lambda>i. ucast (drop_bit (8 * i) w)) [0..<n]"

definition get8 :: "mem \<Rightarrow> u64 \<Rightarrow> u8" where "get8 m a = m a"
definition get16 :: "mem \<Rightarrow> u64 \<Rightarrow> u16" where "get16 m a = le_word (get_bytes m a 2)"
definition get32 :: "mem \<Rightarrow> u64 \<Rightarrow> u32" where "get32 m a = le_word (get_bytes m a 4)"
definition get64 :: "mem \<Rightarrow> u64 \<Rightarrow> u64" where "get64 m a = le_word (get_bytes m a 8)"
definition put16 :: "mem \<Rightarrow> u64 \<Rightarrow> u16 \<Rightarrow> mem" where "put16 m a v = put_bytes m a (le_bytes 2 v)"
definition put32 :: "mem \<Rightarrow> u64 \<Rightarrow> u32 \<Rightarrow> mem" where "put32 m a v = put_bytes m a (le_bytes 4 v)"
definition put64 :: "mem \<Rightarrow> u64 \<Rightarrow> u64 \<Rightarrow> mem" where "put64 m a v = put_bytes m a (le_bytes 8 v)"

text \<open>\<open>n\<close> bytes at \<open>b\<close> lie outside of the \<open>k\<close> bytes at \<open>a\<close>.\<close>

definition apart :: "u64 \<Rightarrow> nat \<Rightarrow> u64 \<Rightarrow> nat \<Rightarrow> bool" where
  "apart a k b n \<longleftrightarrow> k \<le> unat (b - a) \<and> unat (b - a) + n \<le> 2 ^ 64"

lemma length_get_bytes [simp]: "length (get_bytes m a n) = n"
  by (simp add: get_bytes_def)

lemma length_le_bytes [simp]: "length (le_bytes n w) = n"
  by (simp add: le_bytes_def)

lemma get_bytes_nth: "i < n \<Longrightarrow> get_bytes m a n ! i = m (a + of_nat i)"
  by (simp add: get_bytes_def)

lemma bit_le_word:
  "bit (le_word bs :: 'a::len word) n \<longleftrightarrow> n < LENGTH('a) \<and> n div 8 < length bs \<and> bit (bs ! (n div 8)) (n mod 8)"
proof (induction bs arbitrary: n)
  case (Cons b bs)
  show ?case
  proof (cases "n < 8")
    case True
    then show ?thesis by (auto simp: bit_or_iff bit_push_bit_iff bit_ucast_iff)
  next
    case False
    then obtain k where k: "n = 8 + k" using le_Suc_ex [of 8 n] by auto
    have "\<not> bit b (8 + k)" by (auto dest: bit_imp_le_length)
    moreover have "(8 + k) div 8 = Suc (k div 8)" by simp
    ultimately show ?thesis
      unfolding k using Cons.IH [of k]
      by (auto simp: bit_or_iff bit_push_bit_iff bit_ucast_iff)
  qed
qed simp

lemma le_word_le_bytes: "LENGTH('a) \<le> 8 * n \<Longrightarrow> le_word (le_bytes n w) = (w :: 'a::len word)"
proof (rule bit_word_eqI)
  fix i
  assume n: "LENGTH('a) \<le> 8 * n" and i: "i < LENGTH('a)"
  then have "i div 8 < n" by (simp add: less_mult_imp_div_less mult.commute)
  moreover have "8 * (i div 8) + i mod 8 = i" by simp
  ultimately show "bit (le_word (le_bytes n w) :: 'a word) i = bit w i"
    using i by (simp add: bit_le_word le_bytes_def bit_ucast_iff bit_drop_bit_eq)
qed

lemma le_word_le_bytes_take:
  assumes "8 * n \<le> LENGTH('a)"
  shows "le_word (le_bytes n w) = (take_bit (8 * n) w :: 'a::len word)"
proof (rule bit_word_eqI)
  fix i assume i: "i < LENGTH('a)"
  have "i div 8 < n \<longleftrightarrow> i < 8 * n" by (simp add: div_less_iff_less_mult mult.commute)
  moreover have "8 * (i div 8) + i mod 8 = i" by simp
  ultimately show "bit (le_word (le_bytes n w) :: 'a word) i = bit (take_bit (8 * n) w) i"
    using i by (auto simp: bit_le_word le_bytes_def bit_ucast_iff bit_drop_bit_eq bit_take_bit_iff)
qed

lemma le_word_append: "le_word (bs @ cs) = (le_word bs OR push_bit (8 * length bs) (le_word cs) :: 'a::len word)"
proof (induction bs)
  case (Cons b bs)
  then show ?case by (simp add: push_bit_or push_bit_push_bit or.assoc)
qed simp

lemma le_bytes_le_word: "length bs = n \<Longrightarrow> 8 * n \<le> LENGTH('a) \<Longrightarrow> le_bytes n (le_word bs :: 'a::len word) = bs"
proof (rule nth_equalityI)
  fix i
  assume n: "length bs = n" "8 * n \<le> LENGTH('a)" and "i < length (le_bytes n (le_word bs :: 'a word))"
  then have i: "i < n" by simp
  show "le_bytes n (le_word bs :: 'a word) ! i = bs ! i"
  proof (rule bit_word_eqI)
    fix j
    assume "j < LENGTH(8)"
    then have j: "j < 8" by simp
    have l: "8 * i + j < LENGTH('a)" using n(2) i j by linarith
    have "(8 * i + j) div 8 = i" "(8 * i + j) mod 8 = j" using j by simp_all
    then show "bit (le_bytes n (le_word bs :: 'a word) ! i) j = bit (bs ! i) j"
      using i j n(1) l by (simp add: le_bytes_def bit_ucast_iff bit_drop_bit_eq bit_le_word)
  qed
qed simp

lemma get_put_bytes:
  assumes "length bs \<le> 2 ^ 64"
  shows "get_bytes (put_bytes m a bs) a (length bs) = bs"
proof (rule nth_equalityI)
  fix i
  assume "i < length (get_bytes (put_bytes m a bs) a (length bs))"
  then have i: "i < length bs" by simp
  then have "unat (of_nat i :: u64) = i" using assms by (intro unat_of_nat_small) simp
  then show "get_bytes (put_bytes m a bs) a (length bs) ! i = bs ! i"
    using i by (simp add: get_bytes_nth put_bytes_def)
qed simp

lemma put_bytes_other: "length bs \<le> unat (x - a) \<Longrightarrow> put_bytes m a bs x = m x"
  by (simp add: put_bytes_def)

lemma apart_nth:
  assumes "apart a k b n" "i < n"
  shows "k \<le> unat (b + of_nat i - a)"
proof -
  have "unat (of_nat i :: u64) \<le> i" by (simp add: unat_of_nat)
  moreover have "unat (of_nat i :: u64) = i"
    using assms by (intro unat_of_nat_small) (auto simp: apart_def)
  moreover have "b + of_nat i - a = (b - a) + of_nat i" by simp
  moreover have "unat ((b - a) + of_nat i) = unat (b - a) + unat (of_nat i :: u64)"
    using assms calculation(2) by (intro unat_add_no_wrap) (auto simp: apart_def)
  ultimately have "unat (b + of_nat i - a) = unat (b - a) + i" by (simp only:)
  then show ?thesis using assms(1) by (simp add: apart_def)
qed

lemma get_put_apart:
  assumes "apart a (length bs) b n"
  shows "get_bytes (put_bytes m a bs) b n = get_bytes m b n"
  using apart_nth [OF assms] by (auto simp: get_bytes_def put_bytes_other)

lemma apart_sym:
  assumes "apart a k b n" "0 < k" "0 < n"
  shows "apart b n a k"
proof -
  have ne: "b - a \<noteq> 0" using assms by (auto simp: apart_def)
  have "unat (0 - (b - a)) = 2 ^ 64 + unat (0 :: u64) - unat (b - a)"
    using ne unat_sub_wrap [of "0 :: u64" "b - a"] by (simp add: unat_gt_0)
  then have "unat (a - b) = 2 ^ 64 - unat (b - a)" by simp
  then show ?thesis using assms by (auto simp: apart_def)
qed

lemma get64_put64: "get64 (put64 m a v) a = v"
  using get_put_bytes [of "le_bytes 8 v" m a] by (simp add: get64_def put64_def le_word_le_bytes)

lemma get64_put64_apart: "apart a 8 b 8 \<Longrightarrow> get64 (put64 m a v) b = get64 m b"
  using get_put_apart [of a "le_bytes 8 v" b 8 m] by (simp add: get64_def put64_def)

lemma get32_put32_mem: "get32 (put32 m a v) a = v"
  using get_put_bytes [of "le_bytes 4 v" m a] by (simp add: get32_def put32_def le_word_le_bytes)

lemma get32_put64_apart: "apart a 8 b 4 \<Longrightarrow> get32 (put64 m a v) b = get32 m b"
  using get_put_apart [of a "le_bytes 8 v" b 4 m] by (simp add: get32_def put64_def)

lemma put64_other: "8 \<le> unat (x - a) \<Longrightarrow> put64 m a v x = m x"
  by (simp add: put64_def put_bytes_other)


text \<open>Writing several blocks in turn.\<close>

definition put_blocks :: "(u64 \<times> u8 list) list \<Rightarrow> mem \<Rightarrow> mem" where
  "put_blocks bss m = fold (\<lambda>(a, bs) m. put_bytes m a bs) bss m"

lemma put_blocks_simps [simp]:
  "put_blocks [] m = m" "put_blocks ((a, bs) # bss) m = put_blocks bss (put_bytes m a bs)"
  by (simp_all add: put_blocks_def)

lemma put_blocks_append: "put_blocks (xs @ ys) m = put_blocks ys (put_blocks xs m)"
  by (simp add: put_blocks_def)

lemma put_blocks_apart:
  "(\<And>a bs. (a, bs) \<in> set bss \<Longrightarrow> apart a (length bs) b n) \<Longrightarrow>
     get_bytes (put_blocks bss m) b n = get_bytes m b n"
proof (induction bss arbitrary: m)
  case (Cons x bss)
  then show ?case by (cases x) (simp add: get_put_apart)
qed simp

definition blocks_apart :: "(u64 \<times> u8 list) list \<Rightarrow> bool" where
  "blocks_apart = sorted_wrt (\<lambda>(a, as) (b, bs). apart b (length bs) a (length as))"

lemma put_blocks_get:
  "blocks_apart bss \<Longrightarrow> (a, bs) \<in> set bss \<Longrightarrow> length bs \<le> 2 ^ 64 \<Longrightarrow>
     get_bytes (put_blocks bss m) a (length bs) = bs"
proof (induction bss arbitrary: m)
  case (Cons x bss)
  obtain c cs where x: "x = (c, cs)" by (cases x)
  show ?case
  proof (cases "(a, bs) = (c, cs)")
    case True
    then have "get_bytes (put_blocks bss (put_bytes m c cs)) a (length bs)
        = get_bytes (put_bytes m c cs) a (length bs)"
      using Cons.prems(1) x by (intro put_blocks_apart) (auto simp: blocks_apart_def)
    with True Cons.prems(3) x show ?thesis by (simp add: get_put_bytes)
  next
    case False
    with Cons.prems x have "(a, bs) \<in> set bss" "blocks_apart bss" by (auto simp: blocks_apart_def)
    with Cons.IH Cons.prems(3) x show ?thesis by simp
  qed
qed simp

text \<open>The same, byte by byte: example memories are written this way.\<close>

fun poke :: "u64 \<Rightarrow> u8 list \<Rightarrow> mem \<Rightarrow> mem" where
  "poke a [] m = m"
| "poke a (b # bs) m = poke (a + 1) bs (m(a := b))"

end
