(* ===== verification/EfiReloc.thy ===== *)
theory EfiReloc
  imports ByteMem
begin

section \<open>Self-relocation of UEFI images (gnu-efi/gnuefi/reloc_x86_64.c, reloc_aarch64.c)\<close>

text \<open>
  The image's start code applies the relative relocations of its own dynamic section. The dynamic
  section is given as the list of its (tag, value) entries; the relocation table and the words
  to relocate are bytes of memory. The loop over the table returns only when the entry size is
  positive, so it is a partial function.
\<close>

type_synonym efi_status = u64

definition EFI_SUCCESS :: efi_status where "EFI_SUCCESS = 0"
definition EFIERR :: "u64 \<Rightarrow> efi_status" where "EFIERR a = or 0x8000000000000000 a"
definition EFI_ERROR :: "efi_status \<Rightarrow> bool" where "EFI_ERROR s \<longleftrightarrow> bit s 63"
definition EFI_LOAD_ERROR :: efi_status where "EFI_LOAD_ERROR = EFIERR 1"

record reloc_table =
  r_rel :: u64
  r_relsz :: int
  r_relent :: int

subsection \<open>The dynamic section\<close>

definition dyn_entry :: "u64 \<Rightarrow> u64 \<times> u64 \<Rightarrow> reloc_table \<Rightarrow> reloc_table" where
  "dyn_entry ldbase d t =
     (if fst d = 7 then t\<lparr>r_rel := snd d + ldbase\<rparr>
      else if fst d = 8 then t\<lparr>r_relsz := sint (snd d)\<rparr>
      else if fst d = 9 then t\<lparr>r_relent := sint (snd d)\<rparr>
      else t)"

fun scan_dyn :: "u64 \<Rightarrow> (u64 \<times> u64) list \<Rightarrow> reloc_table \<Rightarrow> reloc_table" where
  "scan_dyn ldbase [] t = t"
| "scan_dyn ldbase (d # ds) t =
     (if fst d = 0 then t else scan_dyn ldbase ds (dyn_entry ldbase d t))"

subsection \<open>Applying the relocations\<close>

definition ELF64_R_TYPE :: "u64 \<Rightarrow> u64" where
  "ELF64_R_TYPE i = and i 0xffffffff"

definition apply_x86_64 :: "u64 \<Rightarrow> mem \<Rightarrow> u64 \<Rightarrow> mem" where
  "apply_x86_64 ldbase m rel =
     (if ELF64_R_TYPE (get64 m (rel + 8)) = 8
      then let addr = ldbase + get64 m rel in put64 m addr (get64 m addr + ldbase)
      else m)"

definition apply_aarch64 :: "u64 \<Rightarrow> mem \<Rightarrow> u64 \<Rightarrow> mem" where
  "apply_aarch64 ldbase m rel =
     (if ELF64_R_TYPE (get64 m (rel + 8)) = 1027
      then let addr = ldbase + get64 m rel in put64 m addr (ldbase + get64 m (rel + 16))
      else m)"

partial_function (option) reloc_loop ::
    "(mem \<Rightarrow> u64 \<Rightarrow> mem) \<Rightarrow> mem \<Rightarrow> u64 \<Rightarrow> int \<Rightarrow> int \<Rightarrow> mem option" where
  "reloc_loop apply_rel m rel relsz relent =
     (if relsz > 0 then reloc_loop apply_rel (apply_rel m rel) (rel + of_int relent) (relsz - relent) relent
      else Some m)"

definition relocate_with ::
    "(mem \<Rightarrow> u64 \<Rightarrow> mem) \<Rightarrow> u64 \<Rightarrow> (u64 \<times> u64) list \<Rightarrow> mem \<Rightarrow> (mem \<times> efi_status) option" where
  "relocate_with apply_rel ldbase dyn m =
     (let t = scan_dyn ldbase dyn \<lparr>r_rel = 0, r_relsz = 0, r_relent = 0\<rparr> in
      if r_rel t = 0 \<and> r_relent t = 0 then Some (m, EFI_SUCCESS)
      else if r_rel t = 0 \<or> r_relent t = 0 then Some (m, EFI_LOAD_ERROR)
      else map_option (\<lambda>m. (m, EFI_SUCCESS)) (reloc_loop apply_rel m (r_rel t) (r_relsz t) (r_relent t)))"

definition relocate_x86_64 :: "u64 \<Rightarrow> (u64 \<times> u64) list \<Rightarrow> mem \<Rightarrow> (mem \<times> efi_status) option" where
  "relocate_x86_64 ldbase dyn m = relocate_with (apply_x86_64 ldbase) ldbase dyn m"

definition relocate_aarch64 :: "u64 \<Rightarrow> (u64 \<times> u64) list \<Rightarrow> mem \<Rightarrow> (mem \<times> efi_status) option" where
  "relocate_aarch64 ldbase dyn m = relocate_with (apply_aarch64 ldbase) ldbase dyn m"

subsection \<open>The loop over a table of relocations\<close>

text \<open>
  What both targets share: an entry names at most one word, which gets a value that depends on the
  24 bytes of the entry and on the word itself.
\<close>

locale relocation =
  fixes apply_rel :: "mem \<Rightarrow> u64 \<Rightarrow> mem"
    and target :: "mem \<Rightarrow> u64 \<Rightarrow> u64 option"
    and value_at :: "mem \<Rightarrow> u64 \<Rightarrow> u64 \<Rightarrow> u64"
  assumes apply_target: "apply_rel m rel =
      (case target m rel of None \<Rightarrow> m | Some t \<Rightarrow> put64 m t (value_at m rel t))"
    and target_cong: "get_bytes m' rel 24 = get_bytes m rel 24 \<Longrightarrow> target m' rel = target m rel"
    and value_cong: "get_bytes m' rel 24 = get_bytes m rel 24 \<Longrightarrow> get64 m' t = get64 m t \<Longrightarrow>
      value_at m' rel t = value_at m rel t"
begin

definition ent :: "u64 \<Rightarrow> nat \<Rightarrow> u64" where
  "ent rel i = rel + of_nat (24 * i)"

definition run :: "mem \<Rightarrow> u64 \<Rightarrow> nat \<Rightarrow> mem" where
  "run m rel n = fold (\<lambda>i m. apply_rel m (ent rel i)) [0..<n] m"

lemma run_Suc: "run m rel (Suc n) = apply_rel (run m rel n) (ent rel n)"
  by (simp add: run_def)

lemma run_first: "run m rel (Suc n) = run (apply_rel m rel) (rel + 24) n"
proof (induction n)
  case 0
  show ?case by (simp add: run_def ent_def)
next
  case (Suc n)
  have "ent rel (Suc n) = ent (rel + 24) n" by (simp add: ent_def algebra_simps)
  with Suc show ?case by (simp only: run_Suc)
qed

lemma reloc_loop_run: "reloc_loop apply_rel m rel (24 * int n) 24 = Some (run m rel n)"
proof (induction n arbitrary: m rel)
  case 0
  show ?case by (subst reloc_loop.simps) (simp add: run_def)
next
  case (Suc n)
  have "24 * int (Suc n) - 24 = 24 * int n" by simp
  then show ?case
    by (subst reloc_loop.simps) (simp add: Suc.IH run_first del: of_nat_Suc)
qed

text \<open>The words to relocate are apart from each other and from the table.\<close>

definition sane :: "mem \<Rightarrow> u64 \<Rightarrow> nat \<Rightarrow> bool" where
  "sane m rel n \<longleftrightarrow> (\<forall>i < n. \<forall>t. target m (ent rel i) = Some t \<longrightarrow>
      (\<forall>j < n. apart t 8 (ent rel j) 24) \<and>
      (\<forall>j < n. \<forall>u. j \<noteq> i \<longrightarrow> target m (ent rel j) = Some u \<longrightarrow> apart t 8 u 8))"

lemma run_effect:
  assumes "sane m rel n" "k \<le> n"
  shows "(\<forall>i < k. \<forall>t. target m (ent rel i) = Some t \<longrightarrow>
            get64 (run m rel k) t = value_at m (ent rel i) t)
    \<and> (\<forall>x. (\<forall>i < k. \<forall>t. target m (ent rel i) = Some t \<longrightarrow> 8 \<le> unat (x - t)) \<longrightarrow> run m rel k x = m x)
    \<and> (\<forall>b s. (\<forall>i < k. \<forall>t. target m (ent rel i) = Some t \<longrightarrow> apart t 8 b s) \<longrightarrow>
          get_bytes (run m rel k) b s = get_bytes m b s)"
  using assms(2)
proof (induction k)
  case 0
  show ?case by (simp add: run_def)
next
  case (Suc k)
  let ?m = "run m rel k"
  from Suc have IH: "\<And>i t. i < k \<Longrightarrow> target m (ent rel i) = Some t \<Longrightarrow>
        get64 ?m t = value_at m (ent rel i) t"
    "\<And>x. (\<forall>i < k. \<forall>t. target m (ent rel i) = Some t \<longrightarrow> 8 \<le> unat (x - t)) \<Longrightarrow> ?m x = m x"
    "\<And>b s. (\<forall>i < k. \<forall>t. target m (ent rel i) = Some t \<longrightarrow> apart t 8 b s) \<Longrightarrow>
        get_bytes ?m b s = get_bytes m b s"
    by auto
  have kn: "k < n" using Suc.prems by simp
  have entry: "get_bytes ?m (ent rel k) 24 = get_bytes m (ent rel k) 24"
  proof (rule IH(3), intro allI impI)
    fix i t
    assume "i < k" "target m (ent rel i) = Some t"
    then show "apart t 8 (ent rel k) 24"
      using assms(1) kn unfolding sane_def by (meson less_trans)
  qed
  have tk: "target ?m (ent rel k) = target m (ent rel k)" by (rule target_cong [OF entry])
  show ?case
  proof (cases "target m (ent rel k)")
    case None
    then have "run m rel (Suc k) = ?m" using apply_target [of ?m "ent rel k"] tk by (simp add: run_Suc)
    with IH None show ?thesis by (auto simp: less_Suc_eq)
  next
    case (Some t)
    have ap: "\<And>i u. i < k \<Longrightarrow> target m (ent rel i) = Some u \<Longrightarrow> apart u 8 t 8 \<and> apart t 8 u 8"
      using assms(1) kn Some unfolding sane_def by (metis less_trans nat_neq_iff)
    have "get_bytes ?m t 8 = get_bytes m t 8" by (rule IH(3)) (use ap in auto)
    then have v: "value_at ?m (ent rel k) t = value_at m (ent rel k) t"
      by (intro value_cong [OF entry]) (simp add: get64_def)
    have step: "run m rel (Suc k) = put64 ?m t (value_at m (ent rel k) t)"
      using apply_target [of ?m "ent rel k"] tk Some v by (simp add: run_Suc)
    have "get64 (run m rel (Suc k)) u = value_at m (ent rel i) u"
      if "i < Suc k" "target m (ent rel i) = Some u" for i u
    proof (cases "i = k")
      case True
      then show ?thesis using that Some by (simp add: step get64_put64)
    next
      case False
      then have "i < k" using that(1) by simp
      with that(2) ap IH(1) show ?thesis by (simp add: step get64_put64_apart)
    qed
    moreover have "run m rel (Suc k) x = m x"
      if far: "\<forall>i < Suc k. \<forall>t. target m (ent rel i) = Some t \<longrightarrow> 8 \<le> unat (x - t)" for x
    proof -
      have "8 \<le> unat (x - t)" using far Some by blast
      moreover have "?m x = m x" using far by (intro IH(2)) (meson less_SucI)
      ultimately show ?thesis by (simp add: step put64_other)
    qed
    moreover have "get_bytes (run m rel (Suc k)) b s = get_bytes m b s"
      if far: "\<forall>i < Suc k. \<forall>t. target m (ent rel i) = Some t \<longrightarrow> apart t 8 b s" for b s
    proof -
      have "apart t 8 b s" using far Some by blast
      moreover have "get_bytes ?m b s = get_bytes m b s" using far by (intro IH(3)) (meson less_SucI)
      ultimately show ?thesis
        using get_put_apart [of t "le_bytes 8 (value_at m (ent rel k) t)" b s] by (simp add: step put64_def)
    qed
    ultimately show ?thesis by blast
  qed
qed

end


subsection \<open>The two targets\<close>

definition target_x86_64 :: "u64 \<Rightarrow> mem \<Rightarrow> u64 \<Rightarrow> u64 option" where
  "target_x86_64 ldbase m rel =
     (if ELF64_R_TYPE (get64 m (rel + 8)) = 8 then Some (ldbase + get64 m rel) else None)"

definition target_aarch64 :: "u64 \<Rightarrow> mem \<Rightarrow> u64 \<Rightarrow> u64 option" where
  "target_aarch64 ldbase m rel =
     (if ELF64_R_TYPE (get64 m (rel + 8)) = 1027 then Some (ldbase + get64 m rel) else None)"

lemma entry_fields:
  assumes "get_bytes m' rel 24 = get_bytes m rel 24"
  shows "get64 m' rel = get64 m rel" "get64 m' (rel + 8) = get64 m (rel + 8)"
    "get64 m' (rel + 16) = get64 m (rel + 16)"
proof -
  have b: "m' (rel + of_nat i) = m (rel + of_nat i)" if "i < 24" for i
    using that get_bytes_nth [of i 24 m' rel] get_bytes_nth [of i 24 m rel] assms by simp
  have "get_bytes m' (rel + of_nat k) 8 = get_bytes m (rel + of_nat k) 8" if "k \<le> 16" for k
    using b [of "k + _"] that by (auto simp: get_bytes_def add.assoc)
  from this [of 0] this [of 8] this [of 16]
  show "get64 m' rel = get64 m rel" "get64 m' (rel + 8) = get64 m (rel + 8)"
    "get64 m' (rel + 16) = get64 m (rel + 16)"
    by (simp_all add: get64_def)
qed

interpretation x86: relocation "apply_x86_64 ldbase" "target_x86_64 ldbase"
    "\<lambda>m rel t. get64 m t + ldbase" for ldbase
  by unfold_locales
     (auto simp: apply_x86_64_def target_x86_64_def Let_def dest: entry_fields)

interpretation a64: relocation "apply_aarch64 ldbase" "target_aarch64 ldbase"
    "\<lambda>m rel t. ldbase + get64 m (rel + 16)" for ldbase
  by unfold_locales
     (auto simp: apply_aarch64_def target_aarch64_def Let_def dest: entry_fields)

subsection \<open>Properties\<close>

text \<open>
  The dynamic section as the object format describes it: the entries in front of the first one with the
  tag 0, and the only value of a tag among them.
\<close>

definition dyn_value :: "(u64 \<times> u64) list \<Rightarrow> u64 \<Rightarrow> u64 \<Rightarrow> bool" where
  "dyn_value dyn tag v \<longleftrightarrow> [d \<leftarrow> takeWhile (\<lambda>d. fst d \<noteq> 0) dyn. fst d = tag] = [(tag, v)]"

lemma scan_dyn_takeWhile:
  "scan_dyn ldbase dyn t = scan_dyn ldbase (takeWhile (\<lambda>d. fst d \<noteq> 0) dyn) t"
  by (induction ldbase dyn t rule: scan_dyn.induct) auto

lemma scan_dyn_last:
  "\<forall>d \<in> set ds. fst d \<noteq> 0 \<Longrightarrow>
   r_rel (scan_dyn ldbase ds t) = (if [d \<leftarrow> ds. fst d = 7] = [] then r_rel t else snd (last [d \<leftarrow> ds. fst d = 7]) + ldbase) \<and>
   r_relsz (scan_dyn ldbase ds t) = (if [d \<leftarrow> ds. fst d = 8] = [] then r_relsz t else sint (snd (last [d \<leftarrow> ds. fst d = 8]))) \<and>
   r_relent (scan_dyn ldbase ds t) = (if [d \<leftarrow> ds. fst d = 9] = [] then r_relent t else sint (snd (last [d \<leftarrow> ds. fst d = 9])))"
  by (induction ldbase ds t rule: scan_dyn.induct) (auto simp: dyn_entry_def)

lemma scan_dyn_values:
  assumes "dyn_value dyn 7 ptr" "dyn_value dyn 8 sz" "dyn_value dyn 9 ent"
  shows "scan_dyn ldbase dyn t = \<lparr>r_rel = ptr + ldbase, r_relsz = sint sz, r_relent = sint ent\<rparr>"
proof -
  let ?ds = "takeWhile (\<lambda>d. fst d \<noteq> 0) dyn"
  have "\<forall>d \<in> set ?ds. fst d \<noteq> 0" by (auto dest: set_takeWhileD)
  from scan_dyn_last [OF this, of ldbase t] assms show ?thesis
    unfolding scan_dyn_takeWhile [of ldbase dyn] dyn_value_def by (intro reloc_table.equality) simp_all
qed

text \<open>
  C32. With a table of \<open>n\<close> entries of 24 bytes, where the dynamic section places it relative to the load
  address, whose targets lie apart from each other and from the table, the x86_64 relocator returns success,
  has added the load address once to every word that a relative relocation names, and has changed no other byte.
\<close>

theorem relocate_x86_64_relative:
  assumes "dyn_value dyn 7 ptr" "dyn_value dyn 8 (of_nat (24 * n))" "dyn_value dyn 9 24"
    and "24 * n < 2 ^ 63" "rel = ldbase + ptr" "rel \<noteq> 0" and "x86.sane ldbase m rel n"
  shows "\<exists>m'. relocate_x86_64 ldbase dyn m = Some (m', EFI_SUCCESS)
    \<and> (\<forall>i < n. \<forall>t. target_x86_64 ldbase m (rel + of_nat (24 * i)) = Some t \<longrightarrow>
         get64 m' t = get64 m t + ldbase)
    \<and> (\<forall>x. (\<forall>i < n. \<forall>t. target_x86_64 ldbase m (rel + of_nat (24 * i)) = Some t \<longrightarrow> 8 \<le> unat (x - t))
         \<longrightarrow> m' x = m x)"
proof -
  have "unat (of_nat (24 * n) :: u64) = 24 * n" using assms(4) by (intro unat_of_nat_small) simp
  then have u: "uint (of_nat (24 * n) :: u64) = int (24 * n)" by (simp only: uint_nat)
  have "int k < 2 ^ (LENGTH(64) - Suc 0) \<and> - (2 ^ (LENGTH(64) - Suc 0)) \<le> int k" if "k < 2 ^ 63" for k :: nat
    using that by simp
  with assms(4) have "sint (of_nat (24 * n) :: u64) = int (24 * n)"
    unfolding sint_uint u by (intro signed_take_bit_int_eq_self) blast+
  moreover have "sint (24 :: u64) = 24" by code_simp
  ultimately have "scan_dyn ldbase dyn \<lparr>r_rel = 0, r_relsz = 0, r_relent = 0\<rparr> =
      \<lparr>r_rel = rel, r_relsz = 24 * int n, r_relent = 24\<rparr>"
    using scan_dyn_values [OF assms(1-3), of ldbase] assms(5) by (simp add: add.commute)
  then show ?thesis
    using x86.run_effect [OF assms(7) order_refl] assms(6)
    by (simp add: relocate_x86_64_def relocate_with_def x86.reloc_loop_run x86.ent_def)
qed

text \<open>An image at 0x100000: a table of one entry at offset 0x1000 that names the word at offset 0x2000.\<close>

definition reloc_image :: mem where
  "reloc_image = put64 (put64 (put64 (\<lambda>_. 0) 0x101000 0x2000) 0x101008 8) 0x102000 0x30"

lemma reloc_image_fields:
  "get64 reloc_image 0x101000 = 0x2000" "get64 reloc_image 0x101008 = 8" "get64 reloc_image 0x102000 = 0x30"
  by (simp_all add: reloc_image_def get64_put64 get64_put64_apart apart_def)

theorem relocate_x86_64_relative_witness:
  "\<exists>m'. relocate_x86_64 0x100000 [(5, 1), (7, 0x1000), (8, 24), (9, 24), (0, 0), (7, 3)] reloc_image =
     Some (m', EFI_SUCCESS) \<and> get64 m' 0x102000 = 0x100030"
proof -
  let ?dyn = "[(5, 1), (7, 0x1000), (8, 24), (9, 24), (0, 0), (7, 3)]"
  have d: "dyn_value ?dyn 7 0x1000" "dyn_value ?dyn 8 (of_nat (24 * 1))" "dyn_value ?dyn 9 24"
    by (simp_all add: dyn_value_def)
  have "x86.sane 0x100000 reloc_image 0x101000 1"
    by (simp add: x86.sane_def x86.ent_def target_x86_64_def reloc_image_fields ELF64_R_TYPE_def apart_def)
  then show ?thesis
    using relocate_x86_64_relative [OF d, of "0x101000" "0x100000" reloc_image]
    by (auto simp: target_x86_64_def reloc_image_fields ELF64_R_TYPE_def)
qed

text \<open>
  The x86_64 relocator reads a table of entries with addends but never uses the addend: two
  images that differ in nothing but the addend of an entry get the same word, where the relocator
  of aarch64 stores load address plus addend.
\<close>

theorem relocate_addend_ignored:
  assumes "ELF64_R_TYPE (get64 m (rel + 8)) = 8" "ELF64_R_TYPE (get64 m' (rel' + 8)) = 1027"
    and "get64 m rel = off" "get64 m' rel' = off"
  shows "get64 (apply_x86_64 ldbase m rel) (ldbase + off) = get64 m (ldbase + off) + ldbase
    \<and> get64 (apply_aarch64 ldbase m' rel') (ldbase + off) = ldbase + get64 m' (rel' + 16)"
  using assms by (simp add: apply_x86_64_def apply_aarch64_def Let_def get64_put64)

end
