(* ===== verification/Bootloader.thy ===== *)
theory Bootloader
  imports EfiReloc
begin

section \<open>The bootloader (gnu-efi/bootloader/main.c)\<close>

text \<open>
  The firmware is a parameter: a record of the boot services the code calls, over a firmware state
  of any type. Memory is the model's own, since the bootloader reads and writes it directly. What
  the code ignores (the status of most calls) the model ignores; local variables it passes to the
  firmware uninitialised are the \<open>garbage\<close> arguments.
\<close>

abbreviation EFI_COMPROMISED_DATA :: efi_status where
  "EFI_COMPROMISED_DATA \<equiv> EFIERR 33"

record FrameBuffer =
  BaseAddress :: u64
  BufferSize :: u64
  FbWidth :: u32
  FbHeight :: u32
  PixelsPerScanline :: u32

record PSF1_HEADER =
  magic0 :: u8
  magic1 :: u8
  psf_mode :: u8
  charsize :: u8

record PSF1_FONT =
  psf1_header :: u64
  glyphBuffer :: u64

record gop_mode =
  FrameBufferBase :: u64
  FrameBufferSize :: u64
  HorizontalResolution :: u32
  VerticalResolution :: u32
  PixelsPerScanLine :: u32

record BootInfo =
  bi_frameBuffer :: FrameBuffer
  bi_psf1Font :: PSF1_FONT
  bi_mMap :: u64
  bi_mMapSize :: u64
  bi_mMapDescriptorSize :: u64
  bi_rsdp :: u64

text \<open>A configuration table entry: its GUID (as 32-bit words) and the address of the table.\<close>

type_synonym guid = "u32 \<times> u32 \<times> u32 \<times> u32"

record config_entry =
  VendorGuid :: guid
  VendorTable :: u64

text \<open>Boot services and file operations; a file handle is a number, 0 is NULL.\<close>

record 'w firmware =
  LocateGOP :: "'w \<Rightarrow> 'w \<times> gop_mode option"
  OpenVolume :: "'w \<Rightarrow> 'w \<times> nat"
  fOpen :: "nat \<Rightarrow> string \<Rightarrow> 'w \<Rightarrow> 'w \<times> nat \<times> efi_status"
  fRead :: "nat \<Rightarrow> u64 \<Rightarrow> 'w \<Rightarrow> 'w \<times> u8 list"
  fSetPosition :: "nat \<Rightarrow> u64 \<Rightarrow> 'w \<Rightarrow> 'w"
  fGetInfo :: "nat \<Rightarrow> u64 \<Rightarrow> 'w \<Rightarrow> 'w \<times> u64"
  AllocatePool :: "u64 \<Rightarrow> 'w \<Rightarrow> 'w \<times> u64"
  AllocatePages :: "int \<Rightarrow> u64 \<Rightarrow> 'w \<Rightarrow> 'w \<times> u64"
  GetMemoryMap :: "u64 \<Rightarrow> u64 \<Rightarrow> 'w \<Rightarrow> 'w \<times> u64 \<times> u64 \<times> u64"
  ExitBootServices :: "u64 \<Rightarrow> 'w \<Rightarrow> 'w"

record 'w boot =
  memory :: mem
  fw_state :: 'w

definition set_world :: "'w \<Rightarrow> 'w boot \<Rightarrow> 'w boot" where
  "set_world w b = b\<lparr>fw_state := w\<rparr>"

text \<open>\<open>Read\<close> stores the bytes it delivers at the buffer's address.\<close>

definition read_to :: "'w firmware \<Rightarrow> nat \<Rightarrow> u64 \<Rightarrow> u64 \<Rightarrow> 'w boot \<Rightarrow> 'w boot" where
  "read_to fw f sz buf b =
     (case fRead fw f sz (fw_state b) of (w, bs) \<Rightarrow>
        b\<lparr>memory := put_bytes (memory b) buf bs, fw_state := w\<rparr>)"

subsection \<open>Graphics, files, font\<close>

definition InitializeGOP :: "'w firmware \<Rightarrow> 'w boot \<Rightarrow> 'w boot \<times> FrameBuffer option" where
  "InitializeGOP fw b =
     (case LocateGOP fw (fw_state b) of
        (w, None) \<Rightarrow> (set_world w b, None)
      | (w, Some gop) \<Rightarrow> (set_world w b, Some
          \<lparr>BaseAddress = FrameBufferBase gop, BufferSize = FrameBufferSize gop,
           FbWidth = HorizontalResolution gop, FbHeight = VerticalResolution gop,
           PixelsPerScanline = PixelsPerScanLine gop\<rparr>))"

definition LoadFile :: "'w firmware \<Rightarrow> nat \<Rightarrow> string \<Rightarrow> 'w boot \<Rightarrow> 'w boot \<times> nat" where
  "LoadFile fw directory path b =
     (let (w, dir) = (if directory = 0 then OpenVolume fw (fw_state b) else (fw_state b, directory));
          (w, loaded_file, s) = fOpen fw dir path w
      in (set_world w b, if s \<noteq> EFI_SUCCESS then 0 else loaded_file))"

definition psf1_at :: "mem \<Rightarrow> u64 \<Rightarrow> PSF1_HEADER" where
  "psf1_at m a = \<lparr>magic0 = m a, magic1 = m (a + 1), psf_mode = m (a + 2), charsize = m (a + 3)\<rparr>"

definition glyph_buffer_size :: "PSF1_HEADER \<Rightarrow> u64" where
  "glyph_buffer_size h = (if psf_mode h = 1 then ucast (charsize h) * 512 else ucast (charsize h) * 256)"

definition LoadPSF1Font :: "'w firmware \<Rightarrow> nat \<Rightarrow> string \<Rightarrow> 'w boot \<Rightarrow> 'w boot \<times> PSF1_FONT option" where
  "LoadPSF1Font fw directory path b =
     (let (b, font) = LoadFile fw directory path b in
      if font = 0 then (b, None)
      else let (w, fontHeader) = AllocatePool fw 4 (fw_state b);
               b = read_to fw font 4 fontHeader (set_world w b);
               hdr = psf1_at (memory b) fontHeader
           in if magic0 hdr \<noteq> 0x36 \<or> magic1 hdr \<noteq> 0x04 then (b, None)
              else let glyphBufferSize = glyph_buffer_size hdr;
                       w = fSetPosition fw font 4 (fw_state b);
                       (w, glyphs) = AllocatePool fw glyphBufferSize w;
                       b = read_to fw font glyphBufferSize glyphs (set_world w b);
                       (w, _) = AllocatePool fw 16 (fw_state b)
                   in (set_world w b, Some \<lparr>psf1_header = fontHeader, glyphBuffer = glyphs\<rparr>))"

subsection \<open>Comparisons\<close>

fun memcmp :: "u8 list \<Rightarrow> u8 list \<Rightarrow> nat \<Rightarrow> int" where
  "memcmp a b 0 = 0"
| "memcmp (x # xs) (y # ys) (Suc n) = (if x < y then - 1 else if x > y then 1 else memcmp xs ys n)"
| "memcmp _ _ (Suc n) = 0"

text \<open>The loop of \<open>strcmp\<close> compares \<open>*a\<close> with \<open>*b\<close> in every round: the pointers are not moved.\<close>

fun strcmp_loop :: "mem \<Rightarrow> u64 \<Rightarrow> u64 \<Rightarrow> nat \<Rightarrow> bool" where
  "strcmp_loop m a b 0 = True"
| "strcmp_loop m a b (Suc n) = (if m a \<noteq> m b then False else strcmp_loop m a b n)"

definition strcmp :: "mem \<Rightarrow> u64 \<Rightarrow> u64 \<Rightarrow> u64 \<Rightarrow> u64" where
  "strcmp m a b n = (if strcmp_loop m a b (unat n) then 1 else 0)"

subsection \<open>The kernel image\<close>

record Elf64_Ehdr =
  e_ident :: "u8 list"
  e_type :: u16
  e_machine :: u16
  e_version :: u32
  e_entry :: u64
  e_phoff :: u64
  e_phentsize :: u16
  e_phnum :: u16

definition ehdr_of :: "u8 list \<Rightarrow> Elf64_Ehdr" where
  "ehdr_of bs = \<lparr>e_ident = take 16 bs, e_type = le_word (take 2 (drop 16 bs)),
     e_machine = le_word (take 2 (drop 18 bs)), e_version = le_word (take 4 (drop 20 bs)),
     e_entry = le_word (take 8 (drop 24 bs)), e_phoff = le_word (take 8 (drop 32 bs)),
     e_phentsize = le_word (take 2 (drop 54 bs)), e_phnum = le_word (take 2 (drop 56 bs))\<rparr>"

text \<open>A 64-byte header on the stack, overwritten by what \<open>Read\<close> delivers.\<close>

definition overlay :: "u8 list \<Rightarrow> u8 list \<Rightarrow> u8 list" where
  "overlay bs garbage = bs @ drop (length bs) garbage"

definition valid_ehdr :: "Elf64_Ehdr \<Rightarrow> bool" where
  "valid_ehdr h \<longleftrightarrow> \<not> (memcmp (e_ident h) [0x7F, 0x45, 0x4C, 0x46] 4 \<noteq> 0 \<or> e_ident h ! 4 \<noteq> 2
     \<or> e_ident h ! 5 \<noteq> 1 \<or> e_type h \<noteq> 2 \<or> e_machine h \<noteq> 62 \<or> e_version h \<noteq> 1)"

record Elf64_Phdr =
  p_type :: u32
  p_offset :: u64
  p_paddr :: u64
  p_filesz :: u64
  p_memsz :: u64

definition phdr_at :: "mem \<Rightarrow> u64 \<Rightarrow> Elf64_Phdr" where
  "phdr_at m a = \<lparr>p_type = get32 m a, p_offset = get64 m (a + 8), p_paddr = get64 m (a + 24),
     p_filesz = get64 m (a + 32), p_memsz = get64 m (a + 40)\<rparr>"

text \<open>\<open>int pages\<close>: the page count is cut to 32 bits and read as a signed number.\<close>

definition segment_pages :: "u64 \<Rightarrow> int" where
  "segment_pages memsz = sint (ucast ((memsz + 0x1000 - 1) div 0x1000) :: u32)"

definition load_segment :: "'w firmware \<Rightarrow> nat \<Rightarrow> Elf64_Phdr \<Rightarrow> 'w boot \<Rightarrow> 'w boot" where
  "load_segment fw Kernel phdr b =
     (if p_type phdr = 1 then
        let (w, segment) = AllocatePages fw (segment_pages (p_memsz phdr)) (p_paddr phdr) (fw_state b);
            w = fSetPosition fw Kernel (p_offset phdr) w
        in read_to fw Kernel (p_filesz phdr) segment (set_world w b)
      else b)"

text \<open>
  The loop over the program headers: \<open>phdr < phdrs + e_phnum * e_phentsize\<close> with an \<open>int\<close> product,
  the pointer advanced by \<open>e_phentsize\<close>. An entry size of 0 makes the bound empty too.
\<close>

partial_function (option) load_segments ::
    "'w firmware \<Rightarrow> nat \<Rightarrow> u64 \<Rightarrow> u64 \<Rightarrow> u64 \<Rightarrow> 'w boot \<Rightarrow> 'w boot option" where
  "load_segments fw Kernel phdr limit entsize b =
     (if phdr < limit
      then load_segments fw Kernel (phdr + entsize) limit entsize
             (load_segment fw Kernel (phdr_at (memory b) phdr) b)
      else Some b)"

subsection \<open>The search for the RSDP\<close>

definition guid_diff :: "guid \<Rightarrow> guid \<Rightarrow> int" where
  "guid_diff g1 g2 = (case (g1, g2) of ((a0, a1, a2, a3), (b0, b1, b2, b3)) \<Rightarrow>
     sint (or (or (or (a0 - b0) (a1 - b1)) (a2 - b2)) (a3 - b3)))"

definition ACPI_20_TABLE_GUID :: guid where
  "ACPI_20_TABLE_GUID = (0x8868e871, 0x11d3e4f1, 0x800022bc, 0x81883cc7)"

text \<open>
  \<open>tab\<close> is the memory behind \<open>SystemTable->ConfigurationTable\<close> as entries, \<open>pos\<close> the entry that
  \<open>configTable\<close> points at: the loop indexes from it and moves it too. \<open>sig\<close> is the address of the
  literal the code compares with.
\<close>

fun rsdp_loop :: "mem \<Rightarrow> (nat \<Rightarrow> config_entry) \<Rightarrow> u64 \<Rightarrow> nat \<Rightarrow> nat \<Rightarrow> nat \<Rightarrow> u64 \<Rightarrow> u64" where
  "rsdp_loop m tab sig 0 index pos rsdp = rsdp"
| "rsdp_loop m tab sig (Suc n) index pos rsdp =
     (let rsdp = (if guid_diff (VendorGuid (tab (pos + index))) ACPI_20_TABLE_GUID \<noteq> 0
                  then if strcmp m sig (VendorTable (tab pos)) 8 \<noteq> 0 then VendorTable (tab pos) else rsdp
                  else rsdp)
      in rsdp_loop m tab sig n (index + 1) (pos + 1) rsdp)"

definition find_rsdp :: "mem \<Rightarrow> (nat \<Rightarrow> config_entry) \<Rightarrow> u64 \<Rightarrow> nat \<Rightarrow> u64" where
  "find_rsdp m tab sig NumberOfTableEntries = rsdp_loop m tab sig NumberOfTableEntries 0 0 0"

subsection \<open>The entry point\<close>

datatype boot_result = Returned efi_status | Started u64 BootInfo

record boot_inputs =
  conf_table :: "nat \<Rightarrow> config_entry"
  conf_entries :: nat
  sig_literal :: u64
  stack_header :: "u8 list"
  stack_info_size :: u64
  stack_map_size :: u64

definition load_kernel :: "'w firmware \<Rightarrow> boot_inputs \<Rightarrow> 'w boot \<Rightarrow> ('w boot \<times> (efi_status + u64)) option" where
  "load_kernel fw inp b =
     (let (b, Kernel) = LoadFile fw 0 ''kernel.elf'' b in
      if Kernel = 0 then Some (b, Inl EFI_LOAD_ERROR)
      else let (w, FileInfoSize) = fGetInfo fw Kernel (stack_info_size inp) (fw_state b);
               (w, FileInfo) = AllocatePool fw FileInfoSize w;
               (w, FileInfoSize) = fGetInfo fw Kernel FileInfoSize w;
               (w, bs) = fRead fw Kernel 64 w;
               header = ehdr_of (overlay bs (stack_header inp));
               b = set_world w b
           in if \<not> valid_ehdr header then Some (b, Inl EFI_COMPROMISED_DATA)
              else let w = fSetPosition fw Kernel (e_phoff header) (fw_state b);
                       sz = ucast (e_phnum header) * ucast (e_phentsize header);
                       (w, phdrs) = AllocatePool fw sz w;
                       b = read_to fw Kernel sz phdrs (set_world w b)
                   in map_option (\<lambda>b. (b, Inr (e_entry header)))
                        (load_segments fw Kernel phdrs (phdrs + sz) (ucast (e_phentsize header)) b))"

definition font_path :: string where
  "font_path = CHR 0x5C # ''STATIC_SOURCES'' @ CHR 0x5C # ''FONTS'' @ CHR 0x5C # ''zap-light16.psf''"

definition efi_main :: "'w firmware \<Rightarrow> boot_inputs \<Rightarrow> 'w boot \<Rightarrow> ('w boot \<times> boot_result) option" where
  "efi_main fw inp b =
     Option.bind (load_kernel fw inp b) (\<lambda>(b, r). case r of
       Inl status \<Rightarrow> Some (b, Returned status)
     | Inr entry \<Rightarrow>
         (case LoadPSF1Font fw 0 font_path b of
            (b, None) \<Rightarrow> Some (b, Returned EFI_LOAD_ERROR)
          | (b, Some newFont) \<Rightarrow>
         (case InitializeGOP fw b of
            (b, None) \<Rightarrow> Some (b, Returned EFI_LOAD_ERROR)
          | (b, Some newBuffer) \<Rightarrow>
            let (w, MapSize, MapKey, DescriptorSize) = GetMemoryMap fw (stack_map_size inp) 0 (fw_state b);
                (w, Map) = AllocatePool fw MapSize w;
                (w, MapSize, MapKey, DescriptorSize) = GetMemoryMap fw MapSize Map w;
                b = set_world w b
            in if Map = 0 \<or> MapSize = 0 \<or> DescriptorSize = 0 \<or> DescriptorSize > MapSize
               then Some (b, Returned EFI_LOAD_ERROR)
               else let rsdp = find_rsdp (memory b) (conf_table inp) (sig_literal inp) (conf_entries inp);
                        bootInfo = \<lparr>bi_frameBuffer = newBuffer, bi_psf1Font = newFont, bi_mMap = Map,
                          bi_mMapSize = MapSize, bi_mMapDescriptorSize = DescriptorSize, bi_rsdp = rsdp\<rparr>;
                        w = ExitBootServices fw MapKey (fw_state b)
                    in Some (set_world w b, Started entry bootInfo))))"


subsection \<open>The comparison and the search\<close>

lemma strcmp_loop_first: "strcmp_loop m a b n \<longleftrightarrow> n = 0 \<or> m a = m b"
  by (induction n) auto

lemma strcmp_first: "strcmp m a b n \<noteq> 0 \<longleftrightarrow> n = 0 \<or> m a = m b"
  by (simp add: strcmp_def strcmp_loop_first unat_eq_zero)

lemma or_eq_0: "or (x :: 'a::len word) y = 0 \<longleftrightarrow> x = 0 \<and> y = 0"
  by (metis or.left_neutral or_eq_0_iff)

lemma guid_diff_eq: "guid_diff g h = 0 \<longleftrightarrow> g = h"
  by (cases g, cases h) (auto simp: guid_diff_def or_eq_0 signed_eq_0_iff)

definition rsdp_candidate :: "mem \<Rightarrow> (nat \<Rightarrow> config_entry) \<Rightarrow> u64 \<Rightarrow> nat \<Rightarrow> bool" where
  "rsdp_candidate m tab sig i \<longleftrightarrow> VendorGuid (tab (i + i)) \<noteq> ACPI_20_TABLE_GUID
     \<and> m sig = m (VendorTable (tab i))"

definition last_candidate :: "mem \<Rightarrow> (nat \<Rightarrow> config_entry) \<Rightarrow> u64 \<Rightarrow> nat list \<Rightarrow> u64 \<Rightarrow> u64" where
  "last_candidate m tab sig is r =
     (case filter (rsdp_candidate m tab sig) is of [] \<Rightarrow> r | j # js \<Rightarrow> VendorTable (tab (last (j # js))))"

lemma last_candidate_Cons:
  "last_candidate m tab sig (i # is) r =
     last_candidate m tab sig is (if rsdp_candidate m tab sig i then VendorTable (tab i) else r)"
  by (auto simp: last_candidate_def split: list.splits)

lemma rsdp_loop_last:
  "rsdp_loop m tab sig n i i r = last_candidate m tab sig [i..<i + n] r"
proof (induction n arbitrary: i r)
  case 0
  show ?case by (simp add: last_candidate_def)
next
  case (Suc n)
  have "[i..<i + Suc n] = i # [Suc i..<Suc i + n]" by (simp add: upt_conv_Cons)
  then show ?case
    using Suc.IH [of "Suc i"]
    by (simp add: last_candidate_Cons rsdp_candidate_def guid_diff_eq strcmp_first Let_def
        del: upt_Suc)
qed

subsection \<open>Loading the segments\<close>

text \<open>
  Documented behaviour of the firmware: a read after setting the position delivers that part of the
  file, and pages requested at an address are allocated there.
\<close>

definition delivers :: "'w firmware \<Rightarrow> nat \<Rightarrow> u8 list \<Rightarrow> bool" where
  "delivers fw K content \<longleftrightarrow>
     (\<forall>p n w. snd (fRead fw K n (fSetPosition fw K p w)) = take (unat n) (drop (unat p) content))
     \<and> (\<forall>n a w. snd (AllocatePages fw n a w) = a)"

definition segment_block :: "u8 list \<Rightarrow> Elf64_Phdr \<Rightarrow> (u64 \<times> u8 list) list" where
  "segment_block content ph = (if p_type ph = 1
     then [(p_paddr ph, take (unat (p_filesz ph)) (drop (unat (p_offset ph)) content))] else [])"

lemma load_segment_memory:
  assumes "delivers fw K content"
  shows "memory (load_segment fw K ph b) = put_blocks (segment_block content ph) (memory b)"
proof (cases "p_type ph = 1")
  case True
  let ?A = "AllocatePages fw (segment_pages (p_memsz ph)) (p_paddr ph) (fw_state b)"
  have "snd ?A = p_paddr ph"
    "snd (fRead fw K (p_filesz ph) (fSetPosition fw K (p_offset ph) (fst ?A)))
       = take (unat (p_filesz ph)) (drop (unat (p_offset ph)) content)"
    using assms by (simp_all add: delivers_def)
  with True show ?thesis
    by (simp add: load_segment_def segment_block_def read_to_def set_world_def case_prod_beta Let_def)
qed (simp add: load_segment_def segment_block_def)

lemma phdr_at_cong:
  assumes "get_bytes m' a 48 = get_bytes m a 48"
  shows "phdr_at m' a = phdr_at m a"
proof -
  have b: "m' (a + of_nat i) = m (a + of_nat i)" if "i < 48" for i
    using that get_bytes_nth [of i 48 m' a] get_bytes_nth [of i 48 m a] assms by simp
  have f: "get_bytes m' (a + of_nat k) n = get_bytes m (a + of_nat k) n" if "k + n \<le> 48" for k n
    using b [of "k + _"] that by (auto simp: get_bytes_def add.assoc)
  show ?thesis
    using f [of 0 4] f [of 8 8] f [of 24 8] f [of 32 8] f [of 40 8]
    by (simp add: phdr_at_def get32_def get64_def)
qed

text \<open>The blocks that the first \<open>n\<close> program headers at \<open>T\<close>, \<open>e\<close> bytes apart, load.\<close>

definition image_blocks :: "u8 list \<Rightarrow> mem \<Rightarrow> u64 \<Rightarrow> u64 \<Rightarrow> nat \<Rightarrow> (u64 \<times> u8 list) list" where
  "image_blocks content m T e n =
     concat (map (\<lambda>i. segment_block content (phdr_at m (T + of_nat i * e))) [0..<n])"

lemma image_blocks_Cons:
  "image_blocks content m T e (Suc n) =
     segment_block content (phdr_at m T) @ image_blocks content m (T + e) e n"
proof -
  have "[0..<Suc n] = 0 # map Suc [0..<n]" by (simp add: map_Suc_upt upt_conv_Cons del: upt_Suc)
  then show ?thesis by (simp add: image_blocks_def comp_def algebra_simps del: upt_Suc)
qed

lemma load_segments_blocks:
  assumes "delivers fw K content"
    and "unat T + n * unat e < 2 ^ 64" "0 < unat e" "lim = T + of_nat n * e"
    and "\<And>i a bs. i < n \<Longrightarrow> (a, bs) \<in> set (image_blocks content m T e n) \<Longrightarrow>
       apart a (length bs) (T + of_nat i * e) 48"
    and "memory b = put_blocks pre m"
    and "\<And>i a bs. i < n \<Longrightarrow> (a, bs) \<in> set pre \<Longrightarrow> apart a (length bs) (T + of_nat i * e) 48"
  shows "\<exists>b'. load_segments fw K T lim e b = Some b'
    \<and> memory b' = put_blocks (pre @ image_blocks content m T e n) m"
  using assms(2-)
proof (induction n arbitrary: T b pre)
  case 0
  then show ?case by (subst load_segments.simps) (simp add: image_blocks_def)
next
  case (Suc n)
  let ?ph = "phdr_at (memory b) T" and ?b = "load_segment fw K (phdr_at (memory b) T) b"
  have ph: "?ph = phdr_at m T"
    unfolding Suc.prems(5)
    by (rule phdr_at_cong, rule put_blocks_apart) (use Suc.prems(6) [of 0] in simp)
  have ne: "unat (of_nat (Suc n) * e) = Suc n * unat e"
  proof -
    have "of_nat (Suc n) * e = of_nat (Suc n * unat e)" by (simp add: distrib_right)
    moreover have "unat (of_nat (Suc n * unat e) :: u64) = Suc n * unat e"
      using Suc.prems(1) by (intro unat_of_nat_small) simp
    ultimately show ?thesis by (simp only:)
  qed
  have "unat lim = unat T + Suc n * unat e"
    unfolding Suc.prems(3) using Suc.prems(1) ne by (subst unat_add_no_wrap) simp_all
  then have lt: "T < lim" using Suc.prems(2) by (simp add: word_less_nat_alt)
  have Te: "unat (T + e) = unat T + unat e"
    using Suc.prems(1) by (intro unat_add_no_wrap) simp
  have "\<exists>b'. load_segments fw K (T + e) lim e ?b = Some b'
    \<and> memory b' = put_blocks ((pre @ segment_block content (phdr_at m T))
          @ image_blocks content m (T + e) e n) m"
  proof (rule Suc.IH)
    show "unat (T + e) + n * unat e < 2 ^ 64" using Suc.prems(1) Te by simp
    show "lim = T + e + of_nat n * e" using Suc.prems(3) by (simp add: distrib_right)
    show "memory ?b = put_blocks (pre @ segment_block content (phdr_at m T)) m"
      unfolding load_segment_memory [OF assms(1)] ph unfolding Suc.prems(5) put_blocks_append ..
    fix i a bs
    assume i: "i < n"
    have sh: "T + e + of_nat i * e = T + of_nat (Suc i) * e" by (simp add: distrib_right)
    show "apart a (length bs) (T + e + of_nat i * e) 48"
      if "(a, bs) \<in> set (image_blocks content m (T + e) e n)"
      unfolding sh using that i by (intro Suc.prems(4)) (simp_all add: image_blocks_Cons)
    show "apart a (length bs) (T + e + of_nat i * e) 48"
      if "(a, bs) \<in> set (pre @ segment_block content (phdr_at m T))"
      unfolding sh using that i Suc.prems(4) [of "Suc i" a bs] Suc.prems(6) [of "Suc i" a bs]
      by (auto simp: image_blocks_Cons)
  qed (use Suc.prems(2) in simp)
  then show ?case
    using lt by (subst load_segments.simps) (simp add: image_blocks_Cons)
qed


subsection \<open>Properties\<close>

text \<open>
  C13. With a file whose reads deliver its content, and segments that overlap neither each other nor
  the program headers, the loader returns and every loadable segment stands at its physical
  address; all memory apart from the segments is as before.
\<close>

theorem load_segments_image:
  assumes "delivers fw K content"
    and "unat T + n * unat e < 2 ^ 64" "0 < unat e"
    and "\<And>i a bs. i < n \<Longrightarrow> (a, bs) \<in> set (image_blocks content (memory b) T e n) \<Longrightarrow>
       apart a (length bs) (T + of_nat i * e) 48"
    and "blocks_apart (image_blocks content (memory b) T e n)"
  shows "\<exists>b'. load_segments fw K T (T + of_nat n * e) e b = Some b'
    \<and> (\<forall>(a, bs) \<in> set (image_blocks content (memory b) T e n). length bs \<le> 2 ^ 64 \<longrightarrow>
         get_bytes (memory b') a (length bs) = bs)
    \<and> (\<forall>a k. (\<forall>(c, bs) \<in> set (image_blocks content (memory b) T e n). apart c (length bs) a k)
         \<longrightarrow> get_bytes (memory b') a k = get_bytes (memory b) a k)"
proof -
  obtain b' where b': "load_segments fw K T (T + of_nat n * e) e b = Some b'"
    "memory b' = put_blocks (image_blocks content (memory b) T e n) (memory b)"
    using load_segments_blocks [OF assms(1-3) refl assms(4), where b = b and pre = "[]"] by auto
  show ?thesis
    unfolding b'(1)
    by (intro exI [where x = b'] conjI refl)
       (auto simp: b'(2) intro: put_blocks_get [OF assms(5)] put_blocks_apart)
qed

text \<open>One loadable segment of four bytes for address 0x100000, its header at 0x5000.\<close>

definition demo_fw :: "u64 firmware" where
  "demo_fw = \<lparr>LocateGOP = (\<lambda>w. (w, None)), OpenVolume = (\<lambda>w. (w, 1)), fOpen = (\<lambda>d p w. (w, 2, EFI_SUCCESS)),
     fRead = (\<lambda>f n w. (w + n, take (unat n) (drop (unat w) [1, 2, 3, 4, 5, 6]))),
     fSetPosition = (\<lambda>f p w. p), fGetInfo = (\<lambda>f n w. (w, n)), AllocatePool = (\<lambda>n w. (w, 0x8000)),
     AllocatePages = (\<lambda>n a w. (w, a)), GetMemoryMap = (\<lambda>n a w. (w, 0, 0, 0)), ExitBootServices = (\<lambda>k w. w)\<rparr>"

definition demo_boot :: "u64 boot" where
  "demo_boot = \<lparr>memory = put64 (put64 (put64 (put64 (put32 (\<lambda>_. 0) 0x5000 1) 0x5008 2) 0x5018 0x100000)
     0x5020 4) 0x5028 8, fw_state = 0\<rparr>"

lemma demo_phdr: "phdr_at (memory demo_boot) 0x5000
    = \<lparr>p_type = 1, p_offset = 2, p_paddr = 0x100000, p_filesz = 4, p_memsz = 8\<rparr>"
  by (simp add: phdr_at_def demo_boot_def get64_put64 get64_put64_apart get32_put32_mem
      get32_put64_apart apart_def)

theorem load_segments_image_witness:
  "\<exists>b'. load_segments demo_fw 2 0x5000 0x5038 0x38 demo_boot = Some b'
     \<and> get_bytes (memory b') 0x100000 4 = [3, 4, 5, 6]"
proof -
  have blocks: "image_blocks [1, 2, 3, 4, 5, 6] (memory demo_boot) 0x5000 0x38 1 = [(0x100000, [3, 4, 5, 6])]"
    by (simp add: image_blocks_def demo_phdr segment_block_def)
  have D: "delivers demo_fw 2 [1, 2, 3, 4, 5, 6]"
    by (simp add: delivers_def demo_fw_def)
  have four: "(4 :: nat) = Suc (Suc (Suc (Suc 0)))" by simp
  from load_segments_image [OF D, of "0x5000" 1 "0x38" demo_boot, unfolded blocks]
  show ?thesis unfolding four by (auto simp: blocks_apart_def apart_def)
qed

text \<open>
  The RSDP that the bootloader reports is the vendor table of the last entry i such that the
  entry at twice that index does not have the ACPI 2.0 GUID and the table starts with the first
  letter of the signature; if there is none, it is NULL.
\<close>

theorem find_rsdp_last:
  "find_rsdp m tab sig n =
     (let cs = filter (\<lambda>i. VendorGuid (tab (i + i)) \<noteq> ACPI_20_TABLE_GUID
                 \<and> m sig = m (VendorTable (tab i))) [0..<n]
      in if cs = [] then NULL else VendorTable (tab (last cs)))"
  using rsdp_loop_last [of m tab sig n 0 0]
  by (auto simp: find_rsdp_def last_candidate_def rsdp_candidate_def [abs_def] Let_def
      split: list.split)

text \<open>
  The ACPI 2.0 entry itself is never taken when it is the only entry: a system table whose one
  entry carries the ACPI 2.0 GUID and a valid signature is reported as having no RSDP.
\<close>

theorem find_rsdp_misses_acpi:
  assumes "VendorGuid (tab 0) = ACPI_20_TABLE_GUID"
  shows "find_rsdp m tab sig 1 = NULL"
  using assms by (simp add: find_rsdp_def guid_diff_eq Let_def)

theorem find_rsdp_misses_acpi_witness:
  "find_rsdp (\<lambda>_. 0x52) (\<lambda>_. \<lparr>VendorGuid = ACPI_20_TABLE_GUID, VendorTable = 0xE0000\<rparr>) 0x7000 1 = NULL"
  by (rule find_rsdp_misses_acpi) simp

text \<open>
  The bootloader's strcmp compares the first characters only: for a positive length it reports
  equality exactly when these agree.
\<close>

theorem strcmp_first_character:
  "strcmp m a b n \<noteq> 0 \<longleftrightarrow> n = 0 \<or> m a = m b"
  by (rule strcmp_first)

text \<open>
  A kernel file whose header is not that of a 64-bit little-endian x86_64 executable is refused
  with EFI_COMPROMISED_DATA, and memory is unchanged.
\<close>

theorem efi_main_bad_kernel:
  assumes "snd (LoadFile fw 0 ''kernel.elf'' b) = K" "K \<noteq> 0"
    and "\<forall>n w. \<not> valid_ehdr (ehdr_of (overlay (snd (fRead fw K 64 (fst (fGetInfo fw K n w)))) (stack_header inp)))"
  shows "\<exists>b'. efi_main fw inp b = Some (b', Returned EFI_COMPROMISED_DATA) \<and> memory b' = memory b"
proof -
  obtain b1 where b1: "LoadFile fw 0 ''kernel.elf'' b = (b1, K)" using assms(1) by (metis prod.collapse)
  then have m1: "memory b1 = memory b"
    by (auto simp: LoadFile_def Let_def set_world_def split: prod.splits)
  show ?thesis
    using b1 assms(2,3) m1
    by (auto simp: efi_main_def load_kernel_def Let_def case_prod_beta set_world_def)
qed

definition demo_inputs :: boot_inputs where
  "demo_inputs = \<lparr>conf_table = (\<lambda>_. \<lparr>VendorGuid = ACPI_20_TABLE_GUID, VendorTable = 0xE0000\<rparr>),
     conf_entries = 1, sig_literal = 0x7000, stack_header = replicate 64 0, stack_info_size = 0,
     stack_map_size = 0\<rparr>"

theorem efi_main_bad_kernel_witness:
  "\<exists>b'. efi_main (demo_fw\<lparr>fRead := \<lambda>f n w. (w, [])\<rparr>) demo_inputs demo_boot
     = Some (b', Returned EFI_COMPROMISED_DATA) \<and> memory b' = memory demo_boot"
proof (rule efi_main_bad_kernel)
  show "snd (LoadFile (demo_fw\<lparr>fRead := \<lambda>f n w. (w, [])\<rparr>) 0 ''kernel.elf'' demo_boot) = 2"
    by (simp add: LoadFile_def demo_fw_def EFI_SUCCESS_def)
  have "\<not> valid_ehdr (ehdr_of (overlay [] (replicate 64 0)))"
    by (simp add: valid_ehdr_def ehdr_of_def overlay_def)
  then show "\<forall>n w. \<not> valid_ehdr (ehdr_of (overlay (snd (fRead (demo_fw\<lparr>fRead := \<lambda>f n w. (w, [])\<rparr>) 2 64
      (fst (fGetInfo (demo_fw\<lparr>fRead := \<lambda>f n w. (w, [])\<rparr>) 2 n w)))) (stack_header demo_inputs)))"
    by (simp add: demo_inputs_def)
qed simp

end
