(* ===== verification/Bitmap.thy ===== *)
theory Bitmap
  imports Prelude
begin

section \<open>The page bitmap (kernel/src/utils/Bitmap.cpp)\<close>

text \<open>
  A bitmap is a byte count and the address of its first byte; its bits live in byte memory,
  most significant bit first. The index test of both operations is \<open>index > Size * 8\<close>, so the
  index \<open>Size * 8\<close> itself passes it and reaches the byte behind the buffer.
\<close>

record bitmap =
  Size :: u64
  Buffer :: u64

definition bitIndexer :: "u64 \<Rightarrow> u8" where
  "bitIndexer index = drop_bit (unat (index mod 8)) 0b10000000"

definition Bitmap_Get :: "bitmap \<Rightarrow> mem \<Rightarrow> u64 \<Rightarrow> bool" where
  "Bitmap_Get b m index =
     (if index > Size b * 8 then False
      else let byteIndex = index div 8
           in m (Buffer b + byteIndex) AND bitIndexer index > 0)"

definition Bitmap_index :: "bitmap \<Rightarrow> mem \<Rightarrow> u64 \<Rightarrow> bool" where
  "Bitmap_index b m index = Bitmap_Get b m index"

definition Bitmap_Set :: "bitmap \<Rightarrow> mem \<Rightarrow> u64 \<Rightarrow> bool \<Rightarrow> bool \<times> mem" where
  "Bitmap_Set b m index val =
     (if index > Size b * 8 then (False, m)
      else let a = Buffer b + index div 8;
               cleared = m a AND NOT (bitIndexer index);
               byte = (if val then cleared OR bitIndexer index else cleared)
           in (True, m(a := byte)))"

subsection \<open>Masks\<close>

lemma bitIndexer_push: "bitIndexer index = 2 ^ (7 - unat (index mod 8))"
proof -
  have lt: "unat (index mod 8) < 8" by (simp add: unat_mod)
  have "bit (bitIndexer index) n \<longleftrightarrow> n = 7 - unat (index mod 8)" for n
  proof -
    have "bit (bitIndexer index) n \<longleftrightarrow> bit ((2::u8) ^ 7) (unat (index mod 8) + n)"
      by (simp add: bitIndexer_def bit_simps)
    also have "\<dots> \<longleftrightarrow> n = 7 - unat (index mod 8)"
      using lt by (simp only: bit_exp_iff) auto
    finally show ?thesis .
  qed
  with lt show ?thesis by (intro bit_eqI) (auto simp: bit_exp_iff)
qed

lemma bit_bitIndexer: "bit (bitIndexer index) n \<longleftrightarrow> n = 7 - unat (index mod 8)"
  by (auto simp: bitIndexer_push bit_simps)

lemma Bitmap_Get_bit:
  "Bitmap_Get b m index \<longleftrightarrow>
     index \<le> Size b * 8 \<and> bit (m (Buffer b + index div 8)) (7 - unat (index mod 8))"
  by (auto simp: Bitmap_Get_def Let_def bitIndexer_push word_gt_0 and_exp_eq_0_iff_not_bit)

lemma Bitmap_Get_out [simp]: "\<not> index \<le> Size b * 8 \<Longrightarrow> \<not> Bitmap_Get b m index"
  by (simp add: Bitmap_Get_bit)

lemma index_split_inj:
  assumes "i div 8 = j div (8::u64)" and "unat (i mod 8) = unat (j mod 8)"
  shows "i = j"
proof -
  have "i mod 8 = j mod 8" using assms(2) by (simp add: word_unat_eq_iff)
  then show ?thesis using assms(1) by (metis div_mult_mod_eq)
qed

lemma index_split_inj7:
  assumes "i div 8 = j div (8::u64)" and "7 - unat (i mod 8) = 7 - unat (j mod 8)"
  shows "i = j"
proof (rule index_split_inj [OF assms(1)])
  have "unat (i mod 8) < 8" "unat (j mod 8) < 8" by (simp_all add: unat_mod)
  with assms(2) show "unat (i mod 8) = unat (j mod 8)" by linarith
qed

subsection \<open>Set and Get\<close>

lemma Bitmap_Set_ok [simp]: "fst (Bitmap_Set b m index v) \<longleftrightarrow> index \<le> Size b * 8"
  by (auto simp: Bitmap_Set_def Let_def)

lemma Bitmap_Set_out [simp]: "Size b * 8 < index \<Longrightarrow> Bitmap_Set b m index v = (False, m)"
  by (simp add: Bitmap_Set_def)

lemma Bitmap_Get_Set_same:
  "index \<le> Size b * 8 \<Longrightarrow> Bitmap_Get b (snd (Bitmap_Set b m index v)) index = v"
  by (auto simp: Bitmap_Get_bit Bitmap_Set_def Let_def bit_simps bit_bitIndexer)

lemma Bitmap_Get_Set_other:
  assumes "i \<noteq> j"
  shows "Bitmap_Get b (snd (Bitmap_Set b m i v)) j = Bitmap_Get b m j"
proof (cases "i div 8 = j div 8")
  case True
  then have "7 - unat (j mod 8) \<noteq> 7 - unat (i mod 8)"
    using assms index_split_inj7 [of i j] by auto
  with True show ?thesis
    by (auto simp: Bitmap_Get_bit Bitmap_Set_def Let_def bit_simps bit_bitIndexer)
next
  case False
  then show ?thesis by (auto simp: Bitmap_Get_bit Bitmap_Set_def Let_def)
qed

lemma Bitmap_Get_Set:
  "Bitmap_Get b (snd (Bitmap_Set b m i v)) j =
     (if j = i \<and> i \<le> Size b * 8 then v else Bitmap_Get b m j)"
proof (cases "j = i")
  case True
  show ?thesis
  proof (cases "i \<le> Size b * 8")
    case True
    with \<open>j = i\<close> show ?thesis by (simp add: Bitmap_Get_Set_same)
  next
    case False
    with \<open>j = i\<close> show ?thesis by (simp add: Bitmap_Get_bit)
  qed
next
  case False
  then show ?thesis by (simp add: Bitmap_Get_Set_other)
qed

text \<open>A successful \<open>Set\<close> writes one byte, the one that holds the bit.\<close>

lemma Bitmap_Set_frame:
  "a \<noteq> Buffer b + index div 8 \<Longrightarrow> snd (Bitmap_Set b m index v) a = m a"
  by (simp add: Bitmap_Set_def Let_def)

text \<open>Inside the bitmap proper the byte written is one of its \<open>Size\<close> bytes.\<close>

lemma Bitmap_byte_in_range:
  assumes "unat (Size b) * 8 < 2 ^ 64" and "index < Size b * 8"
  shows "unat (index div 8) < unat (Size b)"
proof -
  have "unat (Size b * 8) = unat (Size b) * 8"
    using assms(1) by (subst unat_mult_no_wrap) simp_all
  with assms(2) have "unat index < unat (Size b) * 8" by (simp add: word_less_nat_alt)
  then show ?thesis by (simp add: unat_div less_mult_imp_div_less)
qed

end
