(* ===== verification/PageFrames.thy ===== *)
theory PageFrames
  imports Bitmap
begin

section \<open>The page frame allocator (kernel/src/memory_management/PageFrameAllocator.cpp)\<close>

text \<open>
  The allocator object with its file-level variables, the firmware memory map it is built
  from (kernel/src/utils/efiMemory.cpp) and its operations. The bitmap bytes live in
  \<open>pmem\<close>; memory-map descriptors are read from a typed store indexed by their address.
  Console output is left out. The lemmas describe each operation by the set of locked pages.
\<close>

subsection \<open>The firmware memory map\<close>

datatype EfiMemoryType =
  EfiReservedMemoryType | EfiLoaderCode | EfiLoaderData | EfiBootServicesCode
| EfiBootServicesData | EfiRuntimeServicesCode | EfiRuntimeServicesData
| EfiConventionalMemory | EfiUnusableMemory | EfiACPIReclaimMemory | EfiACPIMemoryNVS
| EfiMemoryMappedIO | EfiMemoryMappedIOPortSpace | EfiPalCode

fun EfiMemoryType_value :: "EfiMemoryType \<Rightarrow> u32" where
  "EfiMemoryType_value EfiReservedMemoryType = 0"
| "EfiMemoryType_value EfiLoaderCode = 1"
| "EfiMemoryType_value EfiLoaderData = 2"
| "EfiMemoryType_value EfiBootServicesCode = 3"
| "EfiMemoryType_value EfiBootServicesData = 4"
| "EfiMemoryType_value EfiRuntimeServicesCode = 5"
| "EfiMemoryType_value EfiRuntimeServicesData = 6"
| "EfiMemoryType_value EfiConventionalMemory = 7"
| "EfiMemoryType_value EfiUnusableMemory = 8"
| "EfiMemoryType_value EfiACPIReclaimMemory = 9"
| "EfiMemoryType_value EfiACPIMemoryNVS = 10"
| "EfiMemoryType_value EfiMemoryMappedIO = 11"
| "EfiMemoryType_value EfiMemoryMappedIOPortSpace = 12"
| "EfiMemoryType_value EfiPalCode = 13"

definition EFI_MEMORY_TYPE_STRINGS :: "string list" where
  "EFI_MEMORY_TYPE_STRINGS =
     [''EfiReservedMemoryType'', ''EfiLoaderCode'', ''EfiLoaderData'', ''EfiBootServicesCode'',
      ''EfiBootServicesData'', ''EfiRuntimeServicesCode'', ''EfiRuntimeServicesData'',
      ''EfiConventionalMemory'', ''EfiUnusableMemory'', ''EfiACPIReclaimMemory'',
      ''EfiACPIMemoryNVS'', ''EfiMemoryMappedIO'', ''EfiMemoryMappedIOPortSpace'',
      ''EfiPalCode'']"

record EFI_MEMORY_DESCRIPTOR =
  md_type :: u32
  physAddr :: u64
  virtAddr :: u64
  numPages :: u64
  attribs :: u64

type_synonym desc_store = "u64 \<Rightarrow> EFI_MEMORY_DESCRIPTOR"

text \<open>
  The function-static \<open>memorySizeBytes\<close> is an argument and the second result.
\<close>

definition GetMemorySize :: "desc_store \<Rightarrow> u64 \<Rightarrow> u64 \<Rightarrow> u64 \<Rightarrow> u64 \<Rightarrow> u64 \<times> u64" where
  "GetMemorySize ds memorySizeBytes mMap mMapEntries mMapDescSize =
     (if memorySizeBytes > 0 then (memorySizeBytes, memorySizeBytes)
      else let sz = for_upto mMapEntries
                      (\<lambda>i acc. acc + numPages (ds (mMap + i * mMapDescSize)) * 4096)
                      memorySizeBytes
           in (sz, sz))"

subsection \<open>State and operations\<close>

record PageFrameAllocator =
  PageBitmap :: bitmap
  totalMemory :: u64
  freeMemory :: u64
  reservedMemory :: u64
  usedMemory :: u64
  pageBitmapIndex :: u64
  Initialized :: bool
  memorySizeBytes :: u64
  pmem :: mem

definition page_locked :: "PageFrameAllocator \<Rightarrow> u64 \<Rightarrow> bool" where
  "page_locked s i = Bitmap_index (PageBitmap s) (pmem s) i"

definition LockPage :: "PageFrameAllocator \<Rightarrow> u64 \<Rightarrow> PageFrameAllocator" where
  "LockPage s address =
     (let index = address div 4096 in
      if Bitmap_index (PageBitmap s) (pmem s) index = True then s
      else let (ok, m) = Bitmap_Set (PageBitmap s) (pmem s) index True in
        if ok then s\<lparr>pmem := m, freeMemory := freeMemory s - 4096,
                     usedMemory := usedMemory s + 4096\<rparr>
        else s\<lparr>pmem := m\<rparr>)"

definition LockPages :: "PageFrameAllocator \<Rightarrow> u64 \<Rightarrow> u64 \<Rightarrow> PageFrameAllocator" where
  "LockPages s address pageCount =
     for_upto pageCount (\<lambda>t s. LockPage s (address + t * 4096)) s"

definition FreePage :: "PageFrameAllocator \<Rightarrow> u64 \<Rightarrow> PageFrameAllocator" where
  "FreePage s address =
     (let index = address div 4096 in
      if Bitmap_index (PageBitmap s) (pmem s) index = False then s
      else let (ok, m) = Bitmap_Set (PageBitmap s) (pmem s) index False in
        if ok then s\<lparr>pmem := m, freeMemory := freeMemory s + 4096,
                     usedMemory := usedMemory s - 4096,
                     pageBitmapIndex := (if pageBitmapIndex s > index then index
                                         else pageBitmapIndex s)\<rparr>
        else s\<lparr>pmem := m\<rparr>)"

definition FreePages :: "PageFrameAllocator \<Rightarrow> u64 \<Rightarrow> u64 \<Rightarrow> PageFrameAllocator" where
  "FreePages s address pageCount =
     for_upto pageCount (\<lambda>t s. FreePage s (address + t * 4096)) s"

definition UnreservePage :: "PageFrameAllocator \<Rightarrow> u64 \<Rightarrow> PageFrameAllocator" where
  "UnreservePage s address =
     (let index = address div 4096 in
      if Bitmap_index (PageBitmap s) (pmem s) index = False then s
      else let (ok, m) = Bitmap_Set (PageBitmap s) (pmem s) index False in
        if ok then s\<lparr>pmem := m, freeMemory := freeMemory s + 4096,
                     reservedMemory := reservedMemory s - 4096,
                     pageBitmapIndex := (if pageBitmapIndex s > index then index
                                         else pageBitmapIndex s)\<rparr>
        else s\<lparr>pmem := m\<rparr>)"

definition UnreservePages :: "PageFrameAllocator \<Rightarrow> u64 \<Rightarrow> u64 \<Rightarrow> PageFrameAllocator" where
  "UnreservePages s address pageCount =
     for_upto pageCount (\<lambda>t s. UnreservePage s (address + t * 4096)) s"

definition ReservePage :: "PageFrameAllocator \<Rightarrow> u64 \<Rightarrow> PageFrameAllocator" where
  "ReservePage s address =
     (let index = address div 4096 in
      if Bitmap_index (PageBitmap s) (pmem s) index = True then s
      else let (ok, m) = Bitmap_Set (PageBitmap s) (pmem s) index True in
        if ok then s\<lparr>pmem := m, freeMemory := freeMemory s - 4096,
                     reservedMemory := reservedMemory s + 4096\<rparr>
        else s\<lparr>pmem := m\<rparr>)"

definition ReservePages :: "PageFrameAllocator \<Rightarrow> u64 \<Rightarrow> u64 \<Rightarrow> PageFrameAllocator" where
  "ReservePages s address pageCount =
     for_upto pageCount (\<lambda>t s. ReservePage s (address + t * 4096)) s"

text \<open>
  The search loop of \<open>RequestPage\<close>: the value of \<open>pageBitmapIndex\<close> when the loop is left.
\<close>

function scan_bitmap :: "bitmap \<Rightarrow> mem \<Rightarrow> u64 \<Rightarrow> u64" where
  "scan_bitmap b m i =
     (if i < Size b * 8 then
        if Bitmap_index b m i = True then scan_bitmap b m (i + 1) else i
      else i)"
  by pat_completeness auto
termination
  by (relation "measure (\<lambda>(b, m, i). unat (Size b * 8) - unat i)")
     (auto simp: unat_add_1_less word_less_nat_alt)

declare scan_bitmap.simps [simp del]

definition RequestPage :: "PageFrameAllocator \<Rightarrow> PageFrameAllocator \<times> u64" where
  "RequestPage s =
     (let i = scan_bitmap (PageBitmap s) (pmem s) (pageBitmapIndex s);
          s' = s\<lparr>pageBitmapIndex := i\<rparr>
      in if i < Size (PageBitmap s) * 8 then (LockPage s' (i * 4096), i * 4096)
         else (s', NULL))"

definition InitBitmap :: "PageFrameAllocator \<Rightarrow> u64 \<Rightarrow> u64 \<Rightarrow> PageFrameAllocator" where
  "InitBitmap s bitmapSize bufferAddress =
     (let s' = s\<lparr>PageBitmap := \<lparr>Size = bitmapSize, Buffer = bufferAddress\<rparr>\<rparr>
      in for_upto bitmapSize
           (\<lambda>i s. s\<lparr>pmem := (pmem s)(Buffer (PageBitmap s) + i := 0)\<rparr>) s')"

definition largest_free_segment :: "desc_store \<Rightarrow> u64 \<Rightarrow> u64 \<Rightarrow> u64 \<Rightarrow> u64 \<times> u64" where
  "largest_free_segment ds mMap mMapEntries mMapDescSize =
     for_upto mMapEntries
       (\<lambda>i (seg, size).
          let desc = ds (mMap + i * mMapDescSize) in
          if md_type desc = EfiMemoryType_value EfiConventionalMemory
             \<and> numPages desc * 4096 > size
          then (physAddr desc, numPages desc * 4096) else (seg, size))
       (NULL, 0)"

definition unreserve_conventional ::
  "desc_store \<Rightarrow> u64 \<Rightarrow> u64 \<Rightarrow> u64 \<Rightarrow> PageFrameAllocator \<Rightarrow> PageFrameAllocator" where
  "unreserve_conventional ds mMap mMapEntries mMapDescSize s =
     for_upto mMapEntries
       (\<lambda>i s. let desc = ds (mMap + i * mMapDescSize) in
          if md_type desc = EfiMemoryType_value EfiConventionalMemory
          then UnreservePages s (physAddr desc) (numPages desc) else s) s"

definition ReadEFIMemoryMap ::
  "desc_store \<Rightarrow> PageFrameAllocator \<Rightarrow> u64 \<Rightarrow> u64 \<Rightarrow> u64 \<Rightarrow> PageFrameAllocator may_panic" where
  "ReadEFIMemoryMap ds s0 mMap mMapSize mMapDescSize =
     (if Initialized s0 then Inr s0
      else let s = s0\<lparr>Initialized := True\<rparr> in
      if mMap = NULL \<or> mMapSize = 0 \<or> mMapDescSize = 0 \<or> mMapDescSize > mMapSize
      then Inl (Panic ''PageFrameAllocator get invalid EFI_MEMORY_DESCRIPTOR'')
      else let mMapEntries = mMapSize div mMapDescSize;
               seg = fst (largest_free_segment ds mMap mMapEntries mMapDescSize) in
      if seg = NULL
      then Inl (Panic ''Failed to get free memory segment from EFI memory descriptor'')
      else let (total, cache) =
                 GetMemorySize ds (memorySizeBytes s) mMap mMapEntries mMapDescSize;
               s1 = s\<lparr>memorySizeBytes := cache, totalMemory := total, freeMemory := total\<rparr>;
               bitmapSize = total div 4096 div 8 + 1;
               s2 = InitBitmap s1 bitmapSize seg;
               totalPages = total div 4096 + 1;
               s3 = ReservePages s2 0 totalPages;
               s4 = unreserve_conventional ds mMap mMapEntries mMapDescSize s3;
               s5 = ReservePages s4 0 0x100
           in Inr (LockPages s5 (Buffer (PageBitmap s5)) (Size (PageBitmap s5) div 4096 + 1)))"

subsection \<open>Locked pages and accounting\<close>

definition capacity :: "PageFrameAllocator \<Rightarrow> u64" where
  "capacity s = Size (PageBitmap s) * 8"

text \<open>All pages below the search position are locked.\<close>

definition low_locked :: "PageFrameAllocator \<Rightarrow> bool" where
  "low_locked s \<longleftrightarrow> (\<forall>i < pageBitmapIndex s. i < capacity s \<longrightarrow> page_locked s i)"

definition locked_pages :: "PageFrameAllocator \<Rightarrow> u64 set" where
  "locked_pages s = {i. page_locked s i}"

text \<open>Free memory plus the size of all locked pages: constant under every operation.\<close>

definition free_plus_locked :: "PageFrameAllocator \<Rightarrow> u64" where
  "free_plus_locked s = freeMemory s + 4096 * of_nat (card (locked_pages s))"

text \<open>Memory is free, used or reserved.\<close>

definition accounted :: "PageFrameAllocator \<Rightarrow> u64" where
  "accounted s = freeMemory s + usedMemory s + reservedMemory s"

definition page_of :: "u64 \<Rightarrow> u64" where
  "page_of address = address div 4096"

lemma finite_locked [simp]: "finite (locked_pages s)"
  by simp

lemma page_locked_le: "page_locked s i \<Longrightarrow> i \<le> Size (PageBitmap s) * 8"
  by (simp add: page_locked_def Bitmap_index_def Bitmap_Get_bit)

lemma page_locked_cong:
  "PageBitmap s = PageBitmap t \<Longrightarrow> pmem s = pmem t \<Longrightarrow> page_locked s i = page_locked t i"
  by (simp add: page_locked_def)

lemmas page_op_simps =
  page_locked_def Let_def page_of_def Bitmap_index_def Bitmap_Get_Set case_prod_beta

text \<open>
  Two contracts cover the eight page operations: locking and reserving claim pages, freeing
  and unreserving release them.
\<close>

locale page_claim =
  fixes claim :: "PageFrameAllocator \<Rightarrow> u64 \<Rightarrow> PageFrameAllocator"
  assumes claim_locked:
      "page_locked (claim s a) i \<longleftrightarrow>
         page_locked s i \<or> (i = page_of a \<and> i \<le> Size (PageBitmap s) * 8)"
    and claim_bitmap: "PageBitmap (claim s a) = PageBitmap s"
    and claim_index: "pageBitmapIndex (claim s a) = pageBitmapIndex s"
    and claim_free: "freeMemory (claim s a) =
         (if page_locked s (page_of a) \<or> Size (PageBitmap s) * 8 < page_of a
          then freeMemory s else freeMemory s - 4096)"
    and claim_accounted: "accounted (claim s a) = accounted s"
begin

definition claims :: "PageFrameAllocator \<Rightarrow> u64 \<Rightarrow> u64 \<Rightarrow> PageFrameAllocator" where
  "claims s a n = for_upto n (\<lambda>t s. claim s (a + t * 4096)) s"

lemma claim_free_plus_locked: "free_plus_locked (claim s a) = free_plus_locked s"
proof (cases "page_locked s (page_of a) \<or> Size (PageBitmap s) * 8 < page_of a")
  case True
  then have "locked_pages (claim s a) = locked_pages s"
    by (auto simp: locked_pages_def claim_locked)
  with True show ?thesis by (simp add: free_plus_locked_def claim_free)
next
  case False
  then have "locked_pages (claim s a) = insert (page_of a) (locked_pages s)"
    and "page_of a \<notin> locked_pages s"
    by (auto simp: locked_pages_def claim_locked)
  with False show ?thesis
    by (simp add: free_plus_locked_def claim_free algebra_simps)
qed

lemma claim_low_locked: "low_locked s \<Longrightarrow> low_locked (claim s a)"
  by (simp add: low_locked_def capacity_def claim_locked claim_bitmap claim_index)

lemma claims_invariant:
  assumes "P s" and "\<And>s a. P s \<Longrightarrow> P (claim s a)"
  shows "P (claims s a n)"
  unfolding claims_def by (rule for_upto_invariant [where P = P]) (use assms in auto)

lemma claims_bitmap: "PageBitmap (claims s a n) = PageBitmap s"
  by (rule claims_invariant [where P = "\<lambda>t. PageBitmap t = PageBitmap s"])
     (simp_all add: claim_bitmap)

lemma claims_index: "pageBitmapIndex (claims s a n) = pageBitmapIndex s"
  by (rule claims_invariant [where P = "\<lambda>t. pageBitmapIndex t = pageBitmapIndex s"])
     (simp_all add: claim_index)

lemma claims_free_plus_locked: "free_plus_locked (claims s a n) = free_plus_locked s"
  by (rule claims_invariant [where P = "\<lambda>t. free_plus_locked t = free_plus_locked s"])
     (simp_all add: claim_free_plus_locked)

lemma claims_accounted: "accounted (claims s a n) = accounted s"
  by (rule claims_invariant [where P = "\<lambda>t. accounted t = accounted s"])
     (simp_all add: claim_accounted)

lemma claims_low_locked: "low_locked s \<Longrightarrow> low_locked (claims s a n)"
  by (rule claims_invariant [where P = low_locked]) (simp_all add: claim_low_locked)

lemma claims_locked:
  "page_locked (claims s a n) i \<longleftrightarrow>
     page_locked s i \<or>
     (i \<le> Size (PageBitmap s) * 8 \<and> (\<exists>k < unat n. i = page_of (a + of_nat k * 4096)))"
proof -
  have "PageBitmap (claims s a n) = PageBitmap s \<and>
    (page_locked (claims s a n) i \<longleftrightarrow> page_locked s i \<or>
     (i \<le> Size (PageBitmap s) * 8 \<and> (\<exists>k < unat n. i = page_of (a + of_nat k * 4096))))"
    unfolding claims_def
    by (rule for_upto_indexed [where P = "\<lambda>m t. PageBitmap t = PageBitmap s \<and>
          (page_locked t i \<longleftrightarrow> page_locked s i \<or> (i \<le> Size (PageBitmap s) * 8 \<and>
             (\<exists>k < m. i = page_of (a + of_nat k * 4096))))"])
       (auto simp: claim_locked claim_bitmap less_Suc_eq)
  then show ?thesis by blast
qed

end

locale page_release =
  fixes release :: "PageFrameAllocator \<Rightarrow> u64 \<Rightarrow> PageFrameAllocator"
  assumes release_locked:
      "page_locked (release s a) i \<longleftrightarrow> page_locked s i \<and> i \<noteq> page_of a"
    and release_bitmap: "PageBitmap (release s a) = PageBitmap s"
    and release_index: "pageBitmapIndex (release s a) =
         (if page_locked s (page_of a) then min (pageBitmapIndex s) (page_of a)
          else pageBitmapIndex s)"
    and release_free: "freeMemory (release s a) =
         (if page_locked s (page_of a) then freeMemory s + 4096 else freeMemory s)"
    and release_accounted: "accounted (release s a) = accounted s"
begin

definition releases :: "PageFrameAllocator \<Rightarrow> u64 \<Rightarrow> u64 \<Rightarrow> PageFrameAllocator" where
  "releases s a n = for_upto n (\<lambda>t s. release s (a + t * 4096)) s"

lemma release_free_plus_locked: "free_plus_locked (release s a) = free_plus_locked s"
proof (cases "page_locked s (page_of a)")
  case True
  let ?L = "locked_pages s"
  have L: "locked_pages (release s a) = ?L - {page_of a}" and mem: "page_of a \<in> ?L"
    using True by (auto simp: locked_pages_def release_locked)
  have "card ?L = Suc (card (locked_pages (release s a)))"
    unfolding L by (rule card.remove [OF _ mem]) simp
  with True show ?thesis
    by (simp add: free_plus_locked_def release_free algebra_simps)
next
  case False
  then have "locked_pages (release s a) = locked_pages s"
    by (auto simp: locked_pages_def release_locked)
  with False show ?thesis by (simp add: free_plus_locked_def release_free)
qed

lemma release_low_locked: "low_locked s \<Longrightarrow> low_locked (release s a)"
  by (auto simp: low_locked_def capacity_def release_locked release_bitmap release_index
      split: if_splits)

lemma releases_invariant:
  assumes "P s" and "\<And>s a. P s \<Longrightarrow> P (release s a)"
  shows "P (releases s a n)"
  unfolding releases_def by (rule for_upto_invariant [where P = P]) (use assms in auto)

lemma releases_bitmap: "PageBitmap (releases s a n) = PageBitmap s"
  by (rule releases_invariant [where P = "\<lambda>t. PageBitmap t = PageBitmap s"])
     (simp_all add: release_bitmap)

lemma releases_free_plus_locked: "free_plus_locked (releases s a n) = free_plus_locked s"
  by (rule releases_invariant [where P = "\<lambda>t. free_plus_locked t = free_plus_locked s"])
     (simp_all add: release_free_plus_locked)

lemma releases_accounted: "accounted (releases s a n) = accounted s"
  by (rule releases_invariant [where P = "\<lambda>t. accounted t = accounted s"])
     (simp_all add: release_accounted)

lemma releases_low_locked: "low_locked s \<Longrightarrow> low_locked (releases s a n)"
  by (rule releases_invariant [where P = low_locked]) (simp_all add: release_low_locked)

lemma releases_locked:
  "page_locked (releases s a n) i \<longleftrightarrow>
     page_locked s i \<and> (\<forall>k < unat n. i \<noteq> page_of (a + of_nat k * 4096))"
  unfolding releases_def
  by (rule for_upto_indexed [where P = "\<lambda>m t. page_locked t i \<longleftrightarrow>
        page_locked s i \<and> (\<forall>k < m. i \<noteq> page_of (a + of_nat k * 4096))"])
     (auto simp: release_locked less_Suc_eq)

end

interpretation lock: page_claim LockPage
proof
  show "page_locked (LockPage s a) i \<longleftrightarrow>
      page_locked s i \<or> (i = page_of a \<and> i \<le> Size (PageBitmap s) * 8)" for s a i
    by (auto simp: LockPage_def page_op_simps dest: Bitmap_Get_bit [THEN iffD1])
qed (auto simp: LockPage_def page_op_simps accounted_def)

interpretation reserve: page_claim ReservePage
proof
  show "page_locked (ReservePage s a) i \<longleftrightarrow>
      page_locked s i \<or> (i = page_of a \<and> i \<le> Size (PageBitmap s) * 8)" for s a i
    by (auto simp: ReservePage_def page_op_simps dest: Bitmap_Get_bit [THEN iffD1])
qed (auto simp: ReservePage_def page_op_simps accounted_def)

interpretation free: page_release FreePage
proof
  show "page_locked (FreePage s a) i \<longleftrightarrow> page_locked s i \<and> i \<noteq> page_of a" for s a i
    by (auto simp: FreePage_def page_op_simps)
qed (auto simp: FreePage_def page_op_simps accounted_def min_def dest: Bitmap_Get_bit [THEN iffD1])

interpretation unreserve: page_release UnreservePage
proof
  show "page_locked (UnreservePage s a) i \<longleftrightarrow> page_locked s i \<and> i \<noteq> page_of a" for s a i
    by (auto simp: UnreservePage_def page_op_simps)
qed (auto simp: UnreservePage_def page_op_simps accounted_def min_def
      dest: Bitmap_Get_bit [THEN iffD1])

lemma LockPages_claims: "LockPages s a n = lock.claims s a n"
  by (simp add: LockPages_def lock.claims_def)

lemma ReservePages_claims: "ReservePages s a n = reserve.claims s a n"
  by (simp add: ReservePages_def reserve.claims_def)

lemma FreePages_releases: "FreePages s a n = free.releases s a n"
  by (simp add: FreePages_def free.releases_def)

lemma UnreservePages_releases: "UnreservePages s a n = unreserve.releases s a n"
  by (simp add: UnreservePages_def unreserve.releases_def)

lemmas pages_ops = LockPages_claims ReservePages_claims FreePages_releases UnreservePages_releases

subsection \<open>The search for a free page\<close>

lemma scan_bitmap_locked:
  "i \<le> j \<Longrightarrow> j < scan_bitmap b m i \<Longrightarrow> j < Size b * 8 \<and> Bitmap_index b m j"
proof (induction b m i rule: scan_bitmap.induct)
  case (1 b m i)
  show ?case
  proof (cases "i < Size b * 8 \<and> Bitmap_index b m i")
    case False
    with "1.prems" show ?thesis by (auto simp: scan_bitmap.simps [of b m i] split: if_splits)
  next
    case True
    show ?thesis
    proof (cases "i = j")
      case True
      with \<open>i < Size b * 8 \<and> Bitmap_index b m i\<close> show ?thesis by simp
    next
      case False
      with "1.prems"(1) have "i + 1 \<le> j" by (simp add: inc_le order_less_le)
      with True "1.prems" show ?thesis
        by (intro "1.IH") (auto simp: scan_bitmap.simps [of b m i])
    qed
  qed
qed

lemma scan_bitmap_stop:
  "scan_bitmap b m i < Size b * 8 \<Longrightarrow> \<not> Bitmap_index b m (scan_bitmap b m i)"
proof (induction b m i rule: scan_bitmap.induct)
  case (1 b m i)
  then show ?case by (auto simp: scan_bitmap.simps [of b m i] split: if_splits)
qed

lemma scan_bitmap_ge: "i \<le> scan_bitmap b m i \<or> \<not> i < Size b * 8"
proof (induction b m i rule: scan_bitmap.induct)
  case (1 b m i)
  show ?case
  proof (cases "i < Size b * 8 \<and> Bitmap_index b m i")
    case False
    then show ?thesis by (auto simp: scan_bitmap.simps [of b m i])
  next
    case True
    then have step: "scan_bitmap b m i = scan_bitmap b m (i + 1)"
      by (simp add: scan_bitmap.simps [of b m i])
    have le: "i \<le> i + 1" using True by (auto simp: word_le_nat_alt unat_add_1_less)
    from True "1.IH" have "i + 1 \<le> scan_bitmap b m (i + 1) \<or> \<not> i + 1 < Size b * 8" by auto
    then show ?thesis
    proof
      assume "i + 1 \<le> scan_bitmap b m (i + 1)"
      with le step show ?thesis by auto
    next
      assume "\<not> i + 1 < Size b * 8"
      then have "scan_bitmap b m (i + 1) = i + 1" by (simp add: scan_bitmap.simps [of b m "i + 1"])
      with le step show ?thesis by simp
    qed
  qed
qed

lemma scan_bitmap_full:
  assumes "\<forall>j. i \<le> j \<and> j < Size b * 8 \<longrightarrow> Bitmap_index b m j"
  shows "\<not> scan_bitmap b m i < Size b * 8"
proof
  assume lt: "scan_bitmap b m i < Size b * 8"
  then have "\<not> Bitmap_index b m (scan_bitmap b m i)" by (rule scan_bitmap_stop)
  moreover have "i \<le> scan_bitmap b m i"
    using scan_bitmap_ge [of i b m] lt by (auto simp: scan_bitmap.simps [of b m i])
  ultimately show False using assms lt by blast
qed

lemma RequestPage_none:
  assumes "\<not> scan_bitmap (PageBitmap s) (pmem s) (pageBitmapIndex s) < capacity s"
  shows "RequestPage s =
    (s\<lparr>pageBitmapIndex := scan_bitmap (PageBitmap s) (pmem s) (pageBitmapIndex s)\<rparr>, NULL)"
  using assms by (simp add: RequestPage_def Let_def capacity_def)

lemma page_of_index:
  "unat (capacity s) * 4096 \<le> 2 ^ 64 \<Longrightarrow> i < capacity s \<Longrightarrow> page_of (i * 4096) = i"
  unfolding page_of_def
  by (rule word_mult_div_cancel) (simp_all add: word_less_nat_alt)

lemma RequestPage_some:
  assumes "unat (capacity s) * 4096 \<le> 2 ^ 64" and "low_locked s"
    and "scan_bitmap (PageBitmap s) (pmem s) (pageBitmapIndex s) = i" and "i < capacity s"
  shows "\<not> page_locked s i" "\<forall>j < i. page_locked s j"
    "snd (RequestPage s) = i * 4096" "page_of (i * 4096) = i"
    "fst (RequestPage s) = LockPage (s\<lparr>pageBitmapIndex := i\<rparr>) (i * 4096)"
proof -
  show "\<not> page_locked s i"
    using assms(3,4) scan_bitmap_stop [of "PageBitmap s" "pmem s" "pageBitmapIndex s"]
    by (simp add: page_locked_def capacity_def)
  show "\<forall>j < i. page_locked s j"
  proof (intro allI impI)
    fix j assume "j < i"
    show "page_locked s j"
    proof (cases "j < pageBitmapIndex s")
      case True
      with assms(2,4) \<open>j < i\<close> show ?thesis by (auto simp: low_locked_def)
    next
      case False
      with \<open>j < i\<close> assms(3) show ?thesis
        using scan_bitmap_locked [of "pageBitmapIndex s" j "PageBitmap s" "pmem s"]
        by (simp add: page_locked_def not_less)
    qed
  qed
  show "page_of (i * 4096) = i" using assms(1,4) by (rule page_of_index)
qed (use assms(3,4) in \<open>simp_all add: RequestPage_def Let_def capacity_def\<close>)

lemma RequestPage_cases:
  obtains (none) i where "RequestPage s = (s\<lparr>pageBitmapIndex := i\<rparr>, NULL)" "\<not> i < capacity s"
      "\<forall>j. pageBitmapIndex s \<le> j \<and> j < capacity s \<and> j < i \<longrightarrow> page_locked s j"
  | (some) i where "RequestPage s = (LockPage (s\<lparr>pageBitmapIndex := i\<rparr>) (i * 4096), i * 4096)"
      "i < capacity s"
      "\<forall>j. pageBitmapIndex s \<le> j \<and> j < capacity s \<and> j < i \<longrightarrow> page_locked s j"
proof -
  let ?i = "scan_bitmap (PageBitmap s) (pmem s) (pageBitmapIndex s)"
  have below: "\<forall>j. pageBitmapIndex s \<le> j \<and> j < capacity s \<and> j < ?i \<longrightarrow> page_locked s j"
    using scan_bitmap_locked [of "pageBitmapIndex s" _ "PageBitmap s" "pmem s"]
    by (auto simp: page_locked_def)
  show thesis
  proof (cases "?i < capacity s")
    case True
    with below show thesis
      by (intro some) (auto simp: RequestPage_def Let_def capacity_def)
  next
    case False
    with below show thesis by (intro none) (auto simp: RequestPage_none)
  qed
qed

lemma locked_pages_index_upd [simp]:
  "page_locked (s\<lparr>pageBitmapIndex := i\<rparr>) j = page_locked s j"
  "locked_pages (s\<lparr>pageBitmapIndex := i\<rparr>) = locked_pages s"
  "free_plus_locked (s\<lparr>pageBitmapIndex := i\<rparr>) = free_plus_locked s"
  "accounted (s\<lparr>pageBitmapIndex := i\<rparr>) = accounted s"
  "capacity (s\<lparr>pageBitmapIndex := i\<rparr>) = capacity s"
  by (simp_all add: locked_pages_def page_locked_def free_plus_locked_def accounted_def
      capacity_def)

lemma low_locked_index_upd:
  assumes "low_locked s"
    and "\<forall>j. pageBitmapIndex s \<le> j \<and> j < capacity s \<and> j < i \<longrightarrow> page_locked s j"
  shows "low_locked (s\<lparr>pageBitmapIndex := i\<rparr>)"
proof -
  have "page_locked s j" if "j < i" "j < capacity s" for j
    using assms that by (cases "j < pageBitmapIndex s") (auto simp: low_locked_def not_less)
  then show ?thesis by (simp add: low_locked_def)
qed

lemma RequestPage_frame:
  "free_plus_locked (fst (RequestPage s)) = free_plus_locked s"
  "accounted (fst (RequestPage s)) = accounted s"
  "PageBitmap (fst (RequestPage s)) = PageBitmap s"
  by (cases s rule: RequestPage_cases;
      simp add: lock.claim_free_plus_locked lock.claim_accounted lock.claim_bitmap)+

lemma RequestPage_low_locked: "low_locked s \<Longrightarrow> low_locked (fst (RequestPage s))"
  by (cases s rule: RequestPage_cases)
     (simp_all add: low_locked_index_upd lock.claim_low_locked)

subsection \<open>Every use of the allocator\<close>

inductive pfa_step :: "PageFrameAllocator \<Rightarrow> PageFrameAllocator \<Rightarrow> bool" where
  lock: "pfa_step s (LockPages s a n)"
| reserve: "pfa_step s (ReservePages s a n)"
| free: "pfa_step s (FreePages s a n)"
| unreserve: "pfa_step s (UnreservePages s a n)"
| request: "RequestPage s = (s', p) \<Longrightarrow> pfa_step s s'"

definition pfa_inv :: "PageFrameAllocator \<Rightarrow> PageFrameAllocator \<Rightarrow> bool" where
  "pfa_inv s0 s \<longleftrightarrow> PageBitmap s = PageBitmap s0 \<and> accounted s = accounted s0
     \<and> free_plus_locked s = free_plus_locked s0 \<and> (low_locked s0 \<longrightarrow> low_locked s)"

lemmas pages_invariants =
  lock.claims_bitmap lock.claims_accounted lock.claims_free_plus_locked lock.claims_low_locked
  reserve.claims_bitmap reserve.claims_accounted reserve.claims_free_plus_locked
  reserve.claims_low_locked
  free.releases_bitmap free.releases_accounted free.releases_free_plus_locked
  free.releases_low_locked
  unreserve.releases_bitmap unreserve.releases_accounted unreserve.releases_free_plus_locked
  unreserve.releases_low_locked

lemma pfa_step_inv: "pfa_step s t \<Longrightarrow> pfa_inv s0 s \<Longrightarrow> pfa_inv s0 t"
proof (induction rule: pfa_step.induct)
  case (request s s' p)
  then show ?case
    using RequestPage_frame [of s] RequestPage_low_locked [of s] by (simp add: pfa_inv_def)
qed (simp_all add: pfa_inv_def pages_ops pages_invariants)

text \<open>
  C15. However the kernel interleaves locking, freeing, reserving, unreserving and requesting
  pages, the allocator's accounts stay exact: free, used and reserved memory add up to the
  same amount, free memory plus 4096 bytes for every locked page is constant, and no free
  page is ever skipped by the search position.
\<close>

theorem page_accounting:
  assumes "pfa_step\<^sup>*\<^sup>* s t"
  shows "accounted t = accounted s \<and> free_plus_locked t = free_plus_locked s
    \<and> PageBitmap t = PageBitmap s \<and> (low_locked s \<longrightarrow> low_locked t)"
proof -
  have "pfa_inv s t" using assms
  proof (induction rule: rtranclp_induct)
    case base
    show ?case by (simp add: pfa_inv_def)
  next
    case (step t u)
    then show ?case by (blast intro: pfa_step_inv)
  qed
  then show ?thesis by (simp add: pfa_inv_def)
qed

lemma RequestPage_least:
  assumes cap: "unat (capacity s) * 4096 \<le> 2 ^ 64" and low: "low_locked s"
    and ex: "\<exists>i < capacity s. \<not> page_locked s i"
  shows "\<exists>i < capacity s. \<not> page_locked s i \<and> (\<forall>j < i. page_locked s j)
     \<and> snd (RequestPage s) = i * 4096 \<and> page_of (i * 4096) = i
     \<and> locked_pages (fst (RequestPage s)) = insert i (locked_pages s)
     \<and> usedMemory (fst (RequestPage s)) = usedMemory s + 4096
     \<and> freeMemory (fst (RequestPage s)) = freeMemory s - 4096"
proof -
  define i where "i = scan_bitmap (PageBitmap s) (pmem s) (pageBitmapIndex s)"
  have lt: "i < capacity s"
  proof (rule ccontr)
    assume "\<not> i < capacity s"
    with ex obtain k where k: "k < capacity s" "\<not> page_locked s k" "k < i"
      by (meson le_less_trans not_le)
    then have "k \<ge> pageBitmapIndex s" using low by (auto simp: low_locked_def not_less)
    with k show False
      using scan_bitmap_locked [of "pageBitmapIndex s" k "PageBitmap s" "pmem s"]
      by (simp add: i_def page_locked_def)
  qed
  note R = RequestPage_some [OF cap low i_def [symmetric] lt]
  from R(1,4) lt have
    "locked_pages (fst (RequestPage s)) = insert i (locked_pages s)"
    "usedMemory (fst (RequestPage s)) = usedMemory s + 4096"
    "freeMemory (fst (RequestPage s)) = freeMemory s - 4096"
    unfolding R(5)
    by (auto simp: locked_pages_def lock.claim_locked capacity_def lock.claim_free
        LockPage_def page_op_simps)
  with R(1-4) lt show ?thesis by blast
qed

text \<open>
  C4. While some page below the bitmap's capacity is free, \<open>RequestPage\<close> hands out the lowest
  free one, locks it and no other page, and charges its 4096 bytes to used memory.
\<close>

theorem RequestPage_least_free:
  assumes cap: "unat (capacity s) * 4096 \<le> 2 ^ 64" and low: "low_locked s"
    and ex: "\<exists>i < capacity s. \<not> page_locked s i"
  shows "\<exists>i < capacity s. \<not> page_locked s i \<and> (\<forall>j < i. page_locked s j)
     \<and> snd (RequestPage s) = i * 4096 \<and> page_of (i * 4096) = i
     \<and> locked_pages (fst (RequestPage s)) = insert i (locked_pages s)
     \<and> usedMemory (fst (RequestPage s)) = usedMemory s + 4096
     \<and> freeMemory (fst (RequestPage s)) = freeMemory s - 4096"
  by (rule RequestPage_least [OF assms])

text \<open>
  When every page below the capacity is locked, \<open>RequestPage\<close> returns NULL and changes
  nothing but the search position.
\<close>

theorem RequestPage_exhausted:
  assumes "\<forall>i < capacity s. page_locked s i"
  shows "snd (RequestPage s) = NULL
    \<and> (\<exists>i. fst (RequestPage s) = s\<lparr>pageBitmapIndex := i\<rparr>)"
proof -
  have "\<not> scan_bitmap (PageBitmap s) (pmem s) (pageBitmapIndex s) < capacity s"
    using assms scan_bitmap_full [of "pageBitmapIndex s" "PageBitmap s" "pmem s"]
    by (auto simp: capacity_def page_locked_def)
  then show ?thesis by (auto simp: RequestPage_none)
qed

text \<open>
  C29. Freeing the page that \<open>RequestPage\<close> returned undoes the request: the same pages are
  locked as before, free and used memory are back, and the page is found first next time.
\<close>

theorem FreePage_RequestPage:
  assumes cap: "unat (capacity s) * 4096 \<le> 2 ^ 64" and low: "low_locked s"
    and ex: "\<exists>i < capacity s. \<not> page_locked s i"
    and eq: "RequestPage s = (s', p)"
  shows "locked_pages (FreePage s' p) = locked_pages s
    \<and> freeMemory (FreePage s' p) = freeMemory s \<and> usedMemory (FreePage s' p) = usedMemory s
    \<and> snd (RequestPage (FreePage s' p)) = p"
proof -
  from RequestPage_least [OF cap low ex] eq
  obtain i where i: "i < capacity s" "\<not> page_locked s i" "\<forall>j < i. page_locked s j" "p = i * 4096"
      "page_of p = i" "locked_pages s' = insert i (locked_pages s)"
      "usedMemory s' = usedMemory s + 4096" "freeMemory s' = freeMemory s - 4096"
    by auto
  have L: "locked_pages (FreePage s' p) = locked_pages s"
    using i(2,5,6) by (auto simp: locked_pages_def free.release_locked)
  have lck: "page_locked s' i" using i(6) by (auto simp: locked_pages_def)
  have bm: "PageBitmap (FreePage s' p) = PageBitmap s"
    using RequestPage_frame(3) [of s] eq by (simp add: free.release_bitmap)
  then have cap': "capacity (FreePage s' p) = capacity s" by (simp add: capacity_def)
  have low': "low_locked (FreePage s' p)"
    using RequestPage_low_locked [OF low] eq by (simp add: free.release_low_locked)
  have pl: "page_locked (FreePage s' p) j = page_locked s j" for j
    using L by (auto simp: locked_pages_def)
  obtain k where k: "k < capacity s" "\<not> page_locked s k" "\<forall>j < k. page_locked s j"
      "snd (RequestPage (FreePage s' p)) = k * 4096"
    using RequestPage_least [of "FreePage s' p"] cap cap' low' i(1,2) pl by auto
  have "k = i" using i(1-3) k(1-3) by (meson linorder_neqE)
  moreover have "freeMemory (FreePage s' p) = freeMemory s"
    using i lck by (simp add: free.release_free)
  moreover have "usedMemory (FreePage s' p) = usedMemory s"
    using i lck page_locked_le [OF lck] by (simp add: FreePage_def page_op_simps)
  ultimately show ?thesis using L i(4) k(4) by simp
qed

subsection \<open>Building the allocator from the firmware map\<close>

definition conventional :: "desc_store \<Rightarrow> u64 \<Rightarrow> bool" where
  "conventional ds a \<longleftrightarrow> md_type (ds a) = EfiMemoryType_value EfiConventionalMemory"

text \<open>Page \<open>i\<close> belongs to one of the conventional-memory descriptors of the map.\<close>

definition conventional_page :: "desc_store \<Rightarrow> u64 \<Rightarrow> u64 \<Rightarrow> u64 \<Rightarrow> u64 \<Rightarrow> bool" where
  "conventional_page ds mMap n sz i \<longleftrightarrow>
     (\<exists>e < unat n. let a = mMap + of_nat e * sz in conventional ds a
        \<and> (\<exists>k < unat (numPages (ds a)). i = page_of (physAddr (ds a) + of_nat k * 4096)))"

lemma InitBitmap_frame:
  "PageBitmap (InitBitmap s n b) = \<lparr>Size = n, Buffer = b\<rparr>"
  "pageBitmapIndex (InitBitmap s n b) = pageBitmapIndex s"
  unfolding InitBitmap_def Let_def
  by (rule for_upto_invariant [where P = "\<lambda>t. PageBitmap t = \<lparr>Size = n, Buffer = b\<rparr>"];
      simp)
     (rule for_upto_invariant [where P = "\<lambda>t. pageBitmapIndex t = pageBitmapIndex s"]; simp)

lemma InitBitmap_zero:
  assumes "k < unat n"
  shows "pmem (InitBitmap s n b) (b + of_nat k) = 0"
proof -
  let ?P = "\<lambda>m t. Buffer (PageBitmap t) = b \<and> (\<forall>j < m. pmem t (b + of_nat j) = 0)"
  have "?P (unat n) (InitBitmap s n b)"
    unfolding InitBitmap_def Let_def
    by (rule for_upto_indexed [where P = ?P]) (auto simp: less_Suc_eq)
  with assms show ?thesis by blast
qed

lemma InitBitmap_unlocked:
  assumes "unat n * 8 < 2 ^ 64" and "i < n * 8"
  shows "\<not> page_locked (InitBitmap s n b) i"
proof -
  have "unat (i div 8) < unat n"
    using Bitmap_byte_in_range [of "\<lparr>Size = n, Buffer = b\<rparr>" i] assms by simp
  then have "pmem (InitBitmap s n b) (b + of_nat (unat (i div 8))) = 0"
    by (rule InitBitmap_zero)
  then show ?thesis
    by (simp add: page_locked_def Bitmap_index_def Bitmap_Get_bit InitBitmap_frame)
qed

lemma bitmap_bound:
  fixes total :: u64
  defines "n \<equiv> total div 4096 div 8 + 1"
  shows "unat n = unat total div 32768 + 1" "unat n * 8 < 2 ^ 64" "unat (n * 8) = unat n * 8"
    "unat (total div 4096 + 1) = unat total div 4096 + 1" "total div 4096 + 1 \<le> n * 8"
proof -
  have t: "unat total < 18446744073709551616" by (rule unat64_lt)
  show n: "unat n = unat total div 32768 + 1"
    unfolding n_def using t
    by (subst unat_add_no_wrap) (simp_all add: unat_div div_mult2_eq [symmetric])
  with t show b: "unat n * 8 < 2 ^ 64" by simp
  then show n8: "unat (n * 8) = unat n * 8" by (subst unat_mult_no_wrap) simp_all
  show p: "unat (total div 4096 + 1) = unat total div 4096 + 1"
    using t by (subst unat_add_no_wrap) (simp_all add: unat_div)
  show "total div 4096 + 1 \<le> n * 8" by (simp add: word_le_nat_alt n8 p n)
qed

lemma page_of_small:
  assumes "k \<le> 2 ^ 52 - (1::nat)"
  shows "page_of (of_nat k * 4096) = (of_nat k :: u64)"
  unfolding page_of_def
  by (rule word_mult_div_cancel) (use assms in \<open>simp_all add: unat_of_nat\<close>)

lemma reserve_from_0:
  assumes "unat n \<le> 2 ^ 52" and "i \<le> Size (PageBitmap s) * 8"
  shows "page_locked (ReservePages s 0 n) i \<longleftrightarrow> page_locked s i \<or> i < n"
proof -
  have ex: "(\<exists>k < unat n. i = page_of (of_nat k * 4096)) \<longleftrightarrow> i < n"
  proof
    assume "\<exists>k < unat n. i = page_of (of_nat k * 4096)"
    then obtain k where "k < unat n" "i = of_nat k"
      using assms(1) by (auto simp: page_of_small)
    then show "i < n" by (simp add: word_less_nat_alt unat_of_nat)
  next
    assume "i < n"
    then have lt: "unat i < unat n" by (simp add: word_less_nat_alt)
    then have "i = page_of (of_nat (unat i) * 4096)"
      using assms(1) by (subst page_of_small) simp_all
    with lt show "\<exists>k < unat n. i = page_of (of_nat k * 4096)" by blast
  qed
  show ?thesis
    using ex assms(2) by (auto simp: pages_ops reserve.claims_locked)
qed

lemma unreserve_map_locked:
  "page_locked (unreserve_conventional ds mMap n sz s) i
   \<longleftrightarrow> page_locked s i \<and> \<not> conventional_page ds mMap n sz i"
  unfolding conventional_page_def unreserve_conventional_def
  by (rule for_upto_indexed [where P = "\<lambda>m t. page_locked t i \<longleftrightarrow> page_locked s i \<and>
        \<not> (\<exists>e < m. let a = mMap + of_nat e * sz in conventional ds a
          \<and> (\<exists>k < unat (numPages (ds a)). i = page_of (physAddr (ds a) + of_nat k * 4096)))"])
     (auto simp: less_Suc_eq Let_def conventional_def pages_ops unreserve.releases_locked)

lemma unreserve_map_bitmap:
  "PageBitmap (unreserve_conventional ds mMap n sz s) = PageBitmap s"
  unfolding unreserve_conventional_def
  by (rule for_upto_invariant [where P = "\<lambda>t. PageBitmap t = PageBitmap s"])
     (simp_all add: Let_def pages_ops unreserve.releases_bitmap)

text \<open>The locked pages of the finished allocator, page by page.\<close>

lemma ReadEFIMemoryMap_locked:
  assumes R: "ReadEFIMemoryMap ds s0 mMap mapSize descSize = Inr s" and "\<not> Initialized s0"
    and tot: "fst (GetMemorySize ds (memorySizeBytes s0) mMap (mapSize div descSize) descSize)
      = tot"
    and seg: "fst (largest_free_segment ds mMap (mapSize div descSize) descSize) = seg"
  shows "PageBitmap s = \<lparr>Size = tot div 4096 div 8 + 1, Buffer = seg\<rparr>"
    "i < capacity s \<Longrightarrow> page_locked s i \<longleftrightarrow>
       (i \<le> tot div 4096 \<and> \<not> conventional_page ds mMap (mapSize div descSize) descSize i)
       \<or> i < 0x100
       \<or> (\<exists>k < unat (Size (PageBitmap s) div 4096 + 1). i = page_of (seg + of_nat k * 4096))"
proof -
  let ?n = "tot div 4096 div 8 + 1"
  obtain s1 where s: "s = (let s2 = InitBitmap s1 ?n seg;
      s3 = ReservePages s2 0 (tot div 4096 + 1);
      s4 = unreserve_conventional ds mMap (mapSize div descSize) descSize s3;
      s5 = ReservePages s4 0 0x100
      in LockPages s5 (Buffer (PageBitmap s5)) (Size (PageBitmap s5) div 4096 + 1))"
    using R assms(2) tot seg
    by (auto simp: ReadEFIMemoryMap_def Let_def case_prod_beta split: if_splits)
  have bms [simp]: "PageBitmap (LockPages s a n) = PageBitmap s"
      "PageBitmap (ReservePages s a n) = PageBitmap s"
      "PageBitmap (unreserve_conventional ds mMap n sz s) = PageBitmap s"
      "PageBitmap (InitBitmap s n b) = \<lparr>Size = n, Buffer = b\<rparr>" for s a n b sz
    by (simp_all add: pages_ops lock.claims_bitmap reserve.claims_bitmap unreserve_map_bitmap
        InitBitmap_frame)
  show bm: "PageBitmap s = \<lparr>Size = ?n, Buffer = seg\<rparr>" by (simp add: s Let_def)
  assume i: "i < capacity s"
  then have i': "i < ?n * 8" by (simp add: capacity_def bm)
  note bd = bitmap_bound [of tot]
  have small: "unat (tot div 4096 + 1) \<le> 2 ^ 52" using unat64_lt [of tot] by (simp add: bd)
  have res: "page_locked (ReservePages s 0 (tot div 4096 + 1)) i \<longleftrightarrow>
      page_locked s i \<or> i < tot div 4096 + 1"
      "page_locked (ReservePages s 0 0x100) i \<longleftrightarrow> page_locked s i \<or> i < 0x100"
    if "PageBitmap s = \<lparr>Size = ?n, Buffer = seg\<rparr>" for s
    using that i' small by (auto intro!: reserve_from_0)
  have lck: "page_locked (LockPages s a n) i \<longleftrightarrow> page_locked s i \<or>
      (i \<le> Size (PageBitmap s) * 8 \<and> (\<exists>k < unat n. i = page_of (a + of_nat k * 4096)))" for s a n
    by (simp add: LockPages_claims lock.claims_locked)
  have zero: "\<not> page_locked (InitBitmap s1 ?n seg) i"
    using bd(2) i' by (rule InitBitmap_unlocked)
  have le: "i < tot div 4096 + 1 \<longleftrightarrow> i \<le> tot div 4096"
    by (auto simp: word_less_nat_alt word_le_nat_alt bd unat_div)
  have i8: "i \<le> ?n * 8" using i' by simp
  show "page_locked s i \<longleftrightarrow>
       (i \<le> tot div 4096 \<and> \<not> conventional_page ds mMap (mapSize div descSize) descSize i)
       \<or> i < 0x100
       \<or> (\<exists>k < unat (Size (PageBitmap s) div 4096 + 1). i = page_of (seg + of_nat k * 4096))"
    using i8 unfolding bm
    by (auto simp: s Let_def lck res unreserve_map_locked zero le)
qed

text \<open>
  C11. After the firmware map has been read, the allocator only ever has pages to give away
  that are safe to use: a free page within the memory size lies in a conventional-memory
  descriptor, above the first megabyte, and outside the bitmap's own storage.
\<close>

theorem ReadEFIMemoryMap_free_pages_safe:
  assumes R: "ReadEFIMemoryMap ds s0 mMap mapSize descSize = Inr s" and "\<not> Initialized s0"
    and "i < capacity s" and "\<not> page_locked s i"
    and "i \<le> fst (GetMemorySize ds (memorySizeBytes s0) mMap (mapSize div descSize) descSize)
              div 4096"
  shows "conventional_page ds mMap (mapSize div descSize) descSize i \<and> 0x100 \<le> i
    \<and> (\<forall>k < unat (Size (PageBitmap s) div 4096 + 1).
          i \<noteq> page_of (Buffer (PageBitmap s) + of_nat k * 4096))"
proof -
  note L = ReadEFIMemoryMap_locked [OF R assms(2) refl refl]
  from L(1) have "Buffer (PageBitmap s) =
      fst (largest_free_segment ds mMap (mapSize div descSize) descSize)" by simp
  moreover from L(2) [OF assms(3)] assms(4,5)
  have "conventional_page ds mMap (mapSize div descSize) descSize i" and "\<not> i < 0x100"
    and "\<forall>k < unat (Size (PageBitmap s) div 4096 + 1). i \<noteq> page_of
           (fst (largest_free_segment ds mMap (mapSize div descSize) descSize) + of_nat k * 4096)"
    by blast+
  ultimately show ?thesis by (simp add: not_less)
qed

definition example_map :: desc_store where
  "example_map a =
     (if a = 0x1000 then \<lparr>md_type = 7, physAddr = 0, virtAddr = 0, numPages = 160, attribs = 0\<rparr>
      else if a = 0x1030
      then \<lparr>md_type = 7, physAddr = 0x100000, virtAddr = 0, numPages = 352, attribs = 0\<rparr>
      else \<lparr>md_type = 0, physAddr = 0xA0000, virtAddr = 0, numPages = 96, attribs = 0\<rparr>)"

definition boot_allocator :: PageFrameAllocator where
  "boot_allocator = \<lparr>PageBitmap = \<lparr>Size = 0, Buffer = 0\<rparr>, totalMemory = 0, freeMemory = 0,
     reservedMemory = 0, usedMemory = 0, pageBitmapIndex = 0, Initialized = False,
     memorySizeBytes = 0, pmem = (\<lambda>_. 0)\<rparr>"

lemma example_map_size:
  "GetMemorySize example_map 0 0x1000 3 0x30 = (2490368, 2490368)"
  by code_simp

lemma example_map_segment:
  "largest_free_segment example_map 0x1000 3 0x30 = (0x100000, 1441792)"
  by code_simp

text \<open>
  A machine with 2.4 MB: the map's three descriptors are read, and the witnesses run on the
  allocator that results.
\<close>

definition example_allocator :: PageFrameAllocator where
  "example_allocator = projr (ReadEFIMemoryMap example_map boot_allocator 0x1000 0x90 0x30)"

lemma example_reads:
  "ReadEFIMemoryMap example_map boot_allocator 0x1000 0x90 0x30 = Inr example_allocator"
  by (simp add: example_allocator_def ReadEFIMemoryMap_def boot_allocator_def Let_def
      example_map_size example_map_segment)

lemma example_bitmap: "PageBitmap example_allocator = \<lparr>Size = 77, Buffer = 0x100000\<rparr>"
  using ReadEFIMemoryMap_locked(1) [OF example_reads _ refl refl]
  by (simp add: boot_allocator_def example_map_size example_map_segment)

lemma example_page_0x101:
  "conventional_page example_map 0x1000 3 0x30 0x101"
  unfolding conventional_page_def Let_def
  by (intro exI [where x = 1] conjI)
     (simp_all add: conventional_def example_map_def page_of_def exI [where x = 1])

lemma example_locked:
  assumes "i < 616"
  shows "page_locked example_allocator i \<longleftrightarrow>
     (i \<le> 608 \<and> \<not> conventional_page example_map 0x1000 3 0x30 i) \<or> i < 0x100 \<or> i = 0x100"
  using ReadEFIMemoryMap_locked(2) [OF example_reads _ refl refl, where i = i] assms
  by (simp add: boot_allocator_def example_map_size example_map_segment capacity_def
      example_bitmap page_of_def)

theorem ReadEFIMemoryMap_free_pages_safe_witness:
  "\<not> page_locked example_allocator 0x101 \<and> conventional_page example_map 0x1000 3 0x30 0x101"
proof
  show free: "\<not> page_locked example_allocator 0x101"
    using example_locked [of "0x101"] example_page_0x101 by simp
  show "conventional_page example_map 0x1000 3 0x30 0x101"
    using ReadEFIMemoryMap_free_pages_safe [OF example_reads _ _ free]
    by (simp add: boot_allocator_def example_map_size capacity_def example_bitmap)
qed

text \<open>
  The bitmap is rounded up to whole bytes but only the pages up to the memory size are
  reserved, so the up to seven page numbers behind the end of memory are left free: the
  allocator can hand out page frames that do not exist.
\<close>

theorem ReadEFIMemoryMap_tail_free:
  assumes R: "ReadEFIMemoryMap ds s0 mMap mapSize descSize = Inr s" and "\<not> Initialized s0"
    and "i < capacity s" and "0x100 \<le> i"
    and "fst (GetMemorySize ds (memorySizeBytes s0) mMap (mapSize div descSize) descSize)
              div 4096 < i"
    and "\<forall>k < unat (Size (PageBitmap s) div 4096 + 1).
           i \<noteq> page_of (Buffer (PageBitmap s) + of_nat k * 4096)"
  shows "\<not> page_locked s i"
proof -
  note L = ReadEFIMemoryMap_locked [OF R assms(2) refl refl]
  have "\<not> i < 0x100" "\<not> i \<le> fst (GetMemorySize ds (memorySizeBytes s0) mMap
      (mapSize div descSize) descSize) div 4096"
    using assms(4,5) by (simp_all add: not_less not_le)
  with L(2) [OF assms(3)] L(1) assms(6) show ?thesis by auto
qed

theorem ReadEFIMemoryMap_tail_free_witness:
  "fst (GetMemorySize example_map 0 0x1000 3 0x30) div 4096 = 608
   \<and> \<not> page_locked example_allocator 609"
  using ReadEFIMemoryMap_tail_free [OF example_reads, where i = "609"]
  by (simp add: boot_allocator_def example_map_size capacity_def example_bitmap page_of_def)

text \<open>A bitmap of one byte: pages 0 to 3 are locked, 4 to 7 are free.\<close>

definition small_allocator :: PageFrameAllocator where
  "small_allocator = boot_allocator\<lparr>PageBitmap := \<lparr>Size = 1, Buffer = 0x3000\<rparr>,
     freeMemory := 0x4000, usedMemory := 0x4000, pmem := (\<lambda>_. 0b11110000)\<rparr>"

lemma small_free_4: "\<exists>i < capacity small_allocator. \<not> page_locked small_allocator i"
  by (rule exI [where x = 4])
     (simp add: small_allocator_def capacity_def page_locked_def Bitmap_index_def Bitmap_Get_def
       bitIndexer_def)

lemma small_setup:
  "unat (capacity small_allocator) * 4096 \<le> 2 ^ 64" "low_locked small_allocator"
  by (simp_all add: small_allocator_def boot_allocator_def capacity_def low_locked_def)

theorem page_accounting_witness:
  "accounted (LockPages small_allocator 0x4000 2) = 0x8000"
proof -
  have "pfa_step\<^sup>*\<^sup>* small_allocator (LockPages small_allocator 0x4000 2)"
    by (rule r_into_rtranclp) (rule pfa_step.lock)
  from page_accounting [OF this] show ?thesis
    by (simp add: accounted_def small_allocator_def boot_allocator_def)
qed

theorem RequestPage_least_free_witness:
  "\<exists>i < capacity small_allocator. snd (RequestPage small_allocator) = i * 4096
     \<and> \<not> page_locked small_allocator i"
  using RequestPage_least_free [OF small_setup small_free_4] by blast

theorem FreePage_RequestPage_witness:
  "locked_pages (FreePage (fst (RequestPage small_allocator)) (snd (RequestPage small_allocator)))
     = locked_pages small_allocator"
  using FreePage_RequestPage [OF small_setup small_free_4 prod.collapse [symmetric]] by blast

definition full_allocator :: PageFrameAllocator where
  "full_allocator = boot_allocator\<lparr>PageBitmap := \<lparr>Size = 1, Buffer = 0x3000\<rparr>,
     pmem := (\<lambda>_. 0b11111111)\<rparr>"

lemma full_locked: "\<forall>i < capacity full_allocator. page_locked full_allocator i"
proof (intro allI impI)
  fix i assume "i < capacity full_allocator"
  then have "unat i < 8" by (simp add: full_allocator_def capacity_def word_less_nat_alt)
  then have "i \<in> {0,1,2,3,4,5,6,7}"
    by (simp add: word_unat_eq_iff) linarith
  then show "page_locked full_allocator i"
    by (auto simp: full_allocator_def page_locked_def Bitmap_index_def Bitmap_Get_def
        bitIndexer_def)
qed

theorem RequestPage_exhausted_witness: "snd (RequestPage full_allocator) = NULL"
  using RequestPage_exhausted [OF full_locked] by blast

end
