(* ===== verification/KernelLib.thy ===== *)
theory KernelLib
  imports ByteMem
begin

section \<open>The kernel library: memory blocks and strings (kernel/src/library)\<close>

text \<open>
  The freestanding routines the kernel links instead of a C library. Strings and blocks are
  read and written through the byte memory; \<open>char\<close> is signed, as on the x86-64 target. A scan
  for the terminating NUL that finds none does not return and has the value \<open>None\<close>.
\<close>

subsection \<open>Memory blocks\<close>

definition k_memset :: "mem \<Rightarrow> u64 \<Rightarrow> u8 \<Rightarrow> u64 \<Rightarrow> mem" where
  "k_memset m start value num = for_upto num (\<lambda>i m. m(start + i := value)) m"

fun memcpy_loop :: "nat \<Rightarrow> mem \<Rightarrow> u64 \<Rightarrow> u64 \<Rightarrow> mem \<times> u64" where
  "memcpy_loop 0 m cdest csrc = (m, cdest)"
| "memcpy_loop (Suc n) m cdest csrc = memcpy_loop n (m(cdest := m csrc)) (cdest + 1) (csrc + 1)"

definition k_memcpy :: "mem \<Rightarrow> u64 \<Rightarrow> u64 \<Rightarrow> u64 \<Rightarrow> mem \<times> u64" where
  "k_memcpy m dest src n = memcpy_loop (unat n) m dest src"

text \<open>\<open>temp\<close> is the buffer that \<open>new char[n]\<close> returned.\<close>

definition k_memmove :: "u64 \<Rightarrow> mem \<Rightarrow> u64 \<Rightarrow> u64 \<Rightarrow> u64 \<Rightarrow> mem \<times> u64" where
  "k_memmove temp m dest src n =
     (let m1 = for_upto n (\<lambda>i m. m(temp + i := m (src + i))) m;
          m2 = for_upto n (\<lambda>i m. m(dest + i := m (temp + i))) m1
      in (m2, dest))"

fun memcmp_loop :: "nat \<Rightarrow> mem \<Rightarrow> u64 \<Rightarrow> u64 \<Rightarrow> int" where
  "memcmp_loop 0 m s1 s2 = 0"
| "memcmp_loop (Suc count) m s1 s2 =
     (if m s1 \<noteq> m s2 then (if sint (m s1) < sint (m s2) then -1 else 1)
      else memcmp_loop count m (s1 + 1) (s2 + 1))"

definition k_memcmp :: "mem \<Rightarrow> u64 \<Rightarrow> u64 \<Rightarrow> u64 \<Rightarrow> int" where
  "k_memcmp m str1 str2 count = memcmp_loop (unat count) m str1 str2"

text \<open>The checksum of \<open>kernel/src/utils/helpers.cpp\<close>: the 8-bit sum of a block.\<close>

fun checksum_loop :: "nat \<Rightarrow> mem \<Rightarrow> u64 \<Rightarrow> u8 \<Rightarrow> u8" where
  "checksum_loop 0 m addr acc = acc"
| "checksum_loop (Suc n) m addr acc = checksum_loop n m (addr + 1) (acc + m addr)"

text \<open>The loop runs while \<open>addr < addr + size\<close>, so not at all when the end wraps around.\<close>

definition k_checksum :: "mem \<Rightarrow> u64 \<Rightarrow> u64 \<Rightarrow> u8" where
  "k_checksum m addr len =
     (if addr < addr + len then checksum_loop (unat len) m addr 0 else 0)"

subsection \<open>Strings in memory\<close>

partial_function (option) k_strlen_loop :: "mem \<Rightarrow> u64 \<Rightarrow> u64 \<Rightarrow> u64 option" where
  "k_strlen_loop m s n = (if m s \<noteq> 0 then k_strlen_loop m (s + 1) (n + 1) else Some n)"

definition k_strlen :: "mem \<Rightarrow> u64 \<Rightarrow> u64 option" where
  "k_strlen m s = k_strlen_loop m s 0"

partial_function (option) k_strcmp :: "mem \<Rightarrow> u64 \<Rightarrow> u64 \<Rightarrow> int option" where
  "k_strcmp m l r =
     (if m l = m r \<and> m l \<noteq> 0 then k_strcmp m (l + 1) (r + 1)
      else Some (uint (m l) - uint (m r)))"

fun k_strncmp_loop :: "nat \<Rightarrow> mem \<Rightarrow> u64 \<Rightarrow> u64 \<Rightarrow> int" where
  "k_strncmp_loop 0 m l r = 0"
| "k_strncmp_loop (Suc len) m l r =
     (if m l \<noteq> 0 \<and> m r \<noteq> 0 then
        (if m l \<noteq> m r then sint (m l) - sint (m r) else k_strncmp_loop len m (l + 1) (r + 1))
      else 0)"

definition k_strncmp :: "mem \<Rightarrow> u64 \<Rightarrow> u64 \<Rightarrow> u64 \<Rightarrow> int" where
  "k_strncmp m l r len = k_strncmp_loop (unat len) m l r"

subsection \<open>Numbers as text\<close>

text \<open>
  Each conversion writes into its own static buffer of 128 characters and returns it. A buffer
  is the list of its bytes; \<open>c_str\<close> is the string a caller sees in it.
\<close>

type_synonym out_buffer = "u8 list"

definition c_str :: "out_buffer \<Rightarrow> u8 list" where
  "c_str buf = takeWhile (\<lambda>c. c \<noteq> 0) buf"

definition hex_char :: "u8 \<Rightarrow> u8" where
  "hex_char tmp = tmp + (if tmp > 9 then 55 else 0x30)"

text \<open>
  One round of the loop of \<open>to_hstring\<close>, for the byte \<open>ptr\<close> of the value; \<open>sz\<close> is the index of
  the last digit. The four overloads differ in the width of the value only.
\<close>

definition hex_round :: "nat \<Rightarrow> nat \<Rightarrow> u8 \<Rightarrow> out_buffer \<Rightarrow> out_buffer" where
  "hex_round sz i ptr buf =
     (let buf1 = buf[sz - (i * 2 + 1) := hex_char (drop_bit 4 (ptr AND 0xF0))]
      in buf1[sz - i * 2 := hex_char (ptr AND 0x0F)])"

definition to_hstring_bytes :: "nat \<Rightarrow> u8 list \<Rightarrow> out_buffer \<Rightarrow> out_buffer" where
  "to_hstring_bytes w bs buf =
     (let sz = w * 2 - 1;
          buf1 = fold (\<lambda>i. hex_round sz i (bs ! i)) [0..<sz div 2 + 1] buf
      in buf1[sz + 1 := 0])"

definition to_hstring64 :: "u64 \<Rightarrow> out_buffer \<Rightarrow> out_buffer" where
  "to_hstring64 value buf = to_hstring_bytes 8 (le_bytes 8 value) buf"

definition to_hstring32 :: "u32 \<Rightarrow> out_buffer \<Rightarrow> out_buffer" where
  "to_hstring32 value buf = to_hstring_bytes 4 (le_bytes 4 value) buf"

definition to_hstring16 :: "u16 \<Rightarrow> out_buffer \<Rightarrow> out_buffer" where
  "to_hstring16 value buf = to_hstring_bytes 2 (le_bytes 2 value) buf"

definition to_hstring8 :: "u8 \<Rightarrow> out_buffer \<Rightarrow> out_buffer" where
  "to_hstring8 value buf = to_hstring_bytes 1 (le_bytes 1 value) buf"

text \<open>The number of divisions by ten until the value is a digit.\<close>

function digit_index :: "u64 \<Rightarrow> u8 \<Rightarrow> u8" where
  "digit_index sizeTest sz =
     (if sizeTest div 10 > 0 then digit_index (sizeTest div 10) (sz + 1) else sz)"
  by pat_completeness auto
termination
  by (relation "measure (\<lambda>(v, s). unat v)")
     (auto simp: word_less_nat_alt unat_div intro: div_less_dividend)

declare digit_index.simps [simp del]

function utoa_loop :: "u64 \<Rightarrow> u8 \<Rightarrow> u8 \<Rightarrow> out_buffer \<Rightarrow> u64 \<times> u8 \<times> out_buffer" where
  "utoa_loop value sz index buf =
     (if value div 10 > 0
      then utoa_loop (value div 10) sz (index + 1)
             (buf[unat sz - unat index := ucast (value mod 10) + 0x30])
      else (value, index, buf))"
  by pat_completeness auto
termination
  by (relation "measure (\<lambda>(v, s, i, b). unat v)")
     (auto simp: word_less_nat_alt unat_div intro: div_less_dividend)

declare utoa_loop.simps [simp del]

definition to_string_u64 :: "u64 \<Rightarrow> out_buffer \<Rightarrow> out_buffer" where
  "to_string_u64 value buf =
     (let sz = digit_index value 0;
          (v, index, buf1) = utoa_loop value sz 0 buf;
          buf2 = buf1[unat sz - unat index := ucast (v mod 10) + 0x30]
      in buf2[unat sz + 1 := 0])"

text \<open>
  \<open>to_string\<close> of a signed value: \<open>value\<close> stays signed while it is divided, \<open>neg\<close> is 0 or 1.
  \<open>value *= -1\<close> is the wrapping negation.
\<close>

function itoa_loop :: "u64 \<Rightarrow> nat \<Rightarrow> u8 \<Rightarrow> u8 \<Rightarrow> out_buffer \<Rightarrow> u64 \<times> u8 \<times> out_buffer" where
  "itoa_loop value neg sz index buf =
     (if sint value div 10 > 0
      then itoa_loop (value div 10) neg sz (index + 1)
             (buf[neg + unat sz - unat index := ucast (value mod 10) + 0x30])
      else (value, index, buf))"
  by pat_completeness auto
termination
proof (relation "measure (\<lambda>(v, n, s, i, b). unat v)")
  fix x :: u64 and neg sz index and buf :: out_buffer
  assume "sint x div 10 > 0"
  then have "0 < sint x" by simp
  then have "0 < unat x" by (auto simp: unat_gt_0)
  then have "unat (x div 10) < unat x" by (simp add: unat_div)
  then show "((x div 10, neg, sz, index + 1,
        buf[neg + unat sz - unat index := ucast (x mod 10) + 0x30]),
      x, neg, sz, index, buf) \<in> measure (\<lambda>(v, n, s, i, b). unat v)"
    by simp
qed simp

declare itoa_loop.simps [simp del]

text \<open>
  C's remainder of a signed value, cut to 8 bits: only the most negative value is still
  negative here.
\<close>

definition digit_of_signed :: "u64 \<Rightarrow> u8" where
  "digit_of_signed v =
     (if sint v < 0 then - ucast ((- v) mod 10) else ucast (v mod 10)) + 0x30"

definition to_string_i64 :: "u64 \<Rightarrow> out_buffer \<Rightarrow> out_buffer" where
  "to_string_i64 value buf =
     (let isNegative = (if sint value < 0 then 1 else 0 :: nat);
          value1 = (if sint value < 0 then - value else value);
          buf0 = (if sint value < 0 then buf[0 := 0x2D] else buf);
          sz = digit_index value1 0;
          (v, index, buf1) = itoa_loop value1 isNegative sz 0 buf0;
          buf2 = buf1[isNegative + unat sz - unat index := digit_of_signed v]
      in buf2[isNegative + unat sz + 1 := 0])"

definition Digits :: "u8 list" where
  "Digits = map (\<lambda>c. of_char c) ''0123456789abcdefghijklmnopqrstuvwxyz''"

text \<open>
  The digit loop of \<open>to_string_convert\<close>: \<open>acc\<close> is the part of \<open>buffer\<close> from \<open>p\<close> to its end.
\<close>

function convert_digits :: "u64 \<Rightarrow> u64 \<Rightarrow> u8 list \<Rightarrow> u8 list" where
  "convert_digits value base acc =
     (if value \<noteq> 0 \<and> base \<ge> 2
      then convert_digits (value div base) base (Digits ! unat (value mod base) # acc)
      else acc)"
  by pat_completeness auto
termination
proof (relation "measure (\<lambda>(v, b, a). unat v)")
  fix x base :: u64 and acc :: "u8 list"
  assume "x \<noteq> 0 \<and> base \<ge> 2"
  then have "0 < unat x" "1 < unat base" by (auto simp: unat_gt_0 word_le_nat_alt)
  then show "((x div base, base, Digits ! unat (x mod base) # acc), x, base, acc)
      \<in> measure (\<lambda>(v, b, a). unat v)"
    by (simp add: unat_div)
qed simp

declare convert_digits.simps [simp del]

definition to_string_convert :: "u64 \<Rightarrow> u64 \<Rightarrow> out_buffer \<Rightarrow> out_buffer" where
  "to_string_convert value base buf =
     (if base < 2 \<or> base > of_nat (length Digits) then buf[0 := 0]
      else let ds = convert_digits value base [] in ds @ drop (length ds) buf)"

subsection \<open>Blocks\<close>

lemma offset_eq_iff:
  fixes x a :: u64
  assumes "k < 2 ^ 64"
  shows "unat (x - a) = k \<longleftrightarrow> x = a + of_nat k"
proof
  assume "unat (x - a) = k"
  then have "x - a = of_nat k" by (metis of_nat_unat ucast_id)
  then show "x = a + of_nat k" by (simp add: algebra_simps)
next
  assume "x = a + of_nat k"
  then show "unat (x - a) = k" using assms by (simp add: unat_of_nat_small)
qed

lemma k_memset_nth: "k_memset m a v n x = (if unat (x - a) < unat n then v else m x)"
  unfolding k_memset_def
proof (rule for_upto_indexed [where P = "\<lambda>k m'. m' x = (if unat (x - a) < k then v else m x)"])
  fix k and m' :: mem
  assume k: "k < unat n" and IH: "m' x = (if unat (x - a) < k then v else m x)"
  then have "unat (x - a) = k \<longleftrightarrow> x = a + of_nat k"
    using unat64_lt [of n] by (intro offset_eq_iff) simp
  with IH show "(m'(a + of_nat k := v)) x = (if unat (x - a) < Suc k then v else m x)"
    by (auto simp: less_Suc_eq)
qed simp

text \<open>The memory after a copy of \<open>n\<close> bytes from \<open>s\<close> to \<open>d\<close>.\<close>

definition copied :: "mem \<Rightarrow> u64 \<Rightarrow> u64 \<Rightarrow> nat \<Rightarrow> mem" where
  "copied m d s n x = (if unat (x - d) < n then m (s + (x - d)) else m x)"

lemma copied_step:
  assumes "k < n" "apart d n s n" "n \<le> 2 ^ 64"
  shows "(copied m d s k)(d + of_nat k := copied m d s k (s + of_nat k)) = copied m d s (Suc k)"
proof
  fix x
  have "n \<le> unat (s + of_nat k - d)" using assms by (intro apart_nth)
  then have "copied m d s k (s + of_nat k) = m (s + of_nat k)"
    using assms(1) by (simp add: copied_def)
  moreover have "unat (x - d) = k \<longleftrightarrow> x = d + of_nat k"
    using assms by (intro offset_eq_iff) simp
  ultimately show "((copied m d s k)(d + of_nat k := copied m d s k (s + of_nat k))) x
      = copied m d s (Suc k) x"
    by (auto simp: copied_def less_Suc_eq)
qed

lemma copy_loop:
  assumes "apart d (unat n) s (unat n)"
  shows "for_upto n (\<lambda>i m. m(d + i := m (s + i))) m = copied m d s (unat n)"
proof (rule for_upto_indexed [where P = "\<lambda>k m'. m' = copied m d s k"])
  fix k m' assume "k < unat n" "m' = copied m d s k"
  then show "m'(d + of_nat k := m' (s + of_nat k)) = copied m d s (Suc k)"
    using assms unat64_lt [of n] by (simp add: copied_step)
qed (simp add: copied_def fun_eq_iff)

lemma memcpy_loop_copied:
  "apart d n s n \<Longrightarrow> n < 2 ^ 64 \<Longrightarrow> memcpy_loop n m d s = (copied m d s n, d + of_nat n)"
proof (induction n arbitrary: m d s)
  case 0
  then show ?case by (simp add: copied_def fun_eq_iff)
next
  case (Suc n)
  have "memcpy_loop n (m(d := m s)) (d + 1) (s + 1) = (copied (m(d := m s)) (d + 1) (s + 1) n, d + 1 + of_nat n)"
    using Suc.prems by (intro Suc.IH) (auto simp: apart_def)
  moreover have "copied (m(d := m s)) (d + 1) (s + 1) n x = copied m d s (Suc n) x" for x
  proof (cases "x = d")
    case True
    moreover have "unat (d - (d + 1)) = 2 ^ 64 - 1" by (simp add: unsigned_minus_1_eq_mask mask_eq_exp_minus_1)
    ultimately show ?thesis using Suc.prems by (simp add: copied_def)
  next
    case False
    then have "x - d \<noteq> 0" by simp
    then have u: "unat (x - (d + 1)) = unat (x - d) - 1"
      using unat_minus_one [of "x - d"] by (simp add: algebra_simps)
    have p: "0 < unat (x - d)" using \<open>x - d \<noteq> 0\<close> unat_gt_0 by blast
    have "s + (x - d) \<noteq> d \<or> \<not> unat (x - d) < Suc n"
    proof (rule ccontr)
      assume "\<not> ?thesis"
      then have e: "s + (x - d) = d" and l: "unat (x - d) < Suc n" by auto
      have "s + of_nat (unat (x - d)) - d = 0" using e by simp
      moreover have "Suc n \<le> unat (s + of_nat (unat (x - d)) - d)"
        using Suc.prems(1) l by (intro apart_nth)
      ultimately show False by simp
    qed
    moreover have "s + 1 + (x - (d + 1)) = s + (x - d)" by simp
    ultimately show ?thesis using False u p by (auto simp: copied_def)
  qed
  ultimately show ?case by (simp add: fun_eq_iff algebra_simps)
qed

lemma k_memcpy_copied:
  assumes "apart dest (unat n) src (unat n)"
  shows "k_memcpy m dest src n = (copied m dest src (unat n), dest + n)"
  using memcpy_loop_copied [OF assms] unat64_lt [of n] by (simp add: k_memcpy_def)

text \<open>
  \<open>memmove\<close> moves a block correctly even when source and destination overlap: with its
  temporary buffer apart from both, the destination ends up holding the old source bytes, and
  only the destination and the temporary buffer change.
\<close>

theorem k_memmove_correct:
  assumes "apart temp (unat n) src (unat n)" and "apart dest (unat n) temp (unat n)"
  shows "snd (k_memmove temp m dest src n) = dest
    \<and> get_bytes (fst (k_memmove temp m dest src n)) dest (unat n) = get_bytes m src (unat n)
    \<and> (\<forall>x. unat n \<le> unat (x - dest) \<longrightarrow> unat n \<le> unat (x - temp) \<longrightarrow>
         fst (k_memmove temp m dest src n) x = m x)"
proof -
  let ?m1 = "copied m temp src (unat n)"
  have r: "k_memmove temp m dest src n = (copied ?m1 dest temp (unat n), dest)"
    using assms by (simp add: k_memmove_def copy_loop)
  have "copied ?m1 dest temp (unat n) (dest + of_nat i) = m (src + of_nat i)" if "i < unat n" for i
  proof -
    have "unat (of_nat i :: u64) = i" using that unat64_lt [of n] by (simp add: unat_of_nat_small)
    with that show ?thesis by (simp add: copied_def)
  qed
  then have "get_bytes (copied ?m1 dest temp (unat n)) dest (unat n) = get_bytes m src (unat n)"
    by (simp add: get_bytes_def)
  moreover have "copied ?m1 dest temp (unat n) x = m x"
    if "unat n \<le> unat (x - dest)" "unat n \<le> unat (x - temp)" for x
    using that by (simp add: copied_def)
  ultimately show ?thesis by (simp add: r)
qed

theorem k_memmove_correct_witness:
  "get_bytes (fst (k_memmove 0x100 (\<lambda>a. ucast a) 0x13 0x10 5)) 0x13 5 = [0x10, 0x11, 0x12, 0x13, 0x14]"
proof -
  have "apart 0x100 (unat (5 :: u64)) 0x10 (unat (5 :: u64))" "apart 0x13 (unat (5 :: u64)) 0x100 (unat (5 :: u64))"
    by (simp_all add: apart_def)
  from k_memmove_correct [OF this, of "\<lambda>a. ucast a"]
  have "get_bytes (fst (k_memmove 0x100 (\<lambda>a. ucast a) 0x13 0x10 5)) 0x13 5 = get_bytes (\<lambda>a. ucast a) 0x10 5"
    by simp
  also have "\<dots> = [0x10, 0x11, 0x12, 0x13, 0x14]" by code_simp
  finally show ?thesis .
qed

lemma get_bytes_Suc: "get_bytes m a (Suc n) = m a # get_bytes m (a + 1) n"
proof -
  have "[0..<Suc n] = 0 # map Suc [0..<n]" by (simp add: upt_conv_Cons map_Suc_upt del: upt_Suc)
  then show ?thesis by (simp add: get_bytes_def o_def algebra_simps del: upt_Suc)
qed

lemma get_bytes_0 [simp]: "get_bytes m a 0 = []"
  by (simp add: get_bytes_def)

lemma memcmp_loop_eq_0:
  "memcmp_loop n m a b = 0 \<longleftrightarrow> get_bytes m a n = get_bytes m b n"
  by (induction n arbitrary: a b) (auto simp: get_bytes_Suc)

theorem k_memcmp_eq_0:
  "k_memcmp m a b n = 0 \<longleftrightarrow> get_bytes m a (unat n) = get_bytes m b (unat n)"
  by (simp add: k_memcmp_def memcmp_loop_eq_0)

text \<open>The bytes are compared as signed values: 0x80 sorts below 0x7F.\<close>

lemma k_memcmp_signed:
  "m a = 0x80 \<Longrightarrow> m b = 0x7F \<Longrightarrow> k_memcmp m a b 1 = -1"
  by (simp add: k_memcmp_def)

lemma checksum_loop_sum: "checksum_loop n m a acc = acc + sum_list (get_bytes m a n)"
  by (induction n arbitrary: a acc) (simp_all add: get_bytes_Suc add.assoc)

lemma k_checksum_sum:
  assumes "unat a + unat n < 2 ^ 64"
  shows "k_checksum m a n = sum_list (get_bytes m a (unat n))"
proof (cases "n = 0")
  case True
  then show ?thesis by (simp add: k_checksum_def get_bytes_def)
next
  case False
  then have "a < a + n"
    using assms by (simp add: word_less_nat_alt unat_add_no_wrap unat_gt_0)
  then show ?thesis by (simp add: k_checksum_def checksum_loop_sum)
qed

subsection \<open>Strings\<close>

text \<open>The NUL-terminated string at an address.\<close>

definition c_string :: "mem \<Rightarrow> u64 \<Rightarrow> u8 list \<Rightarrow> bool" where
  "c_string m a xs \<longleftrightarrow> get_bytes m a (length xs) = xs \<and> 0 \<notin> set xs \<and> m (a + of_nat (length xs)) = 0"

lemma c_string_Nil [simp]: "c_string m a [] \<longleftrightarrow> m a = 0"
  by (simp add: c_string_def)

lemma c_string_Cons [simp]:
  "c_string m a (x # xs) \<longleftrightarrow> m a = x \<and> x \<noteq> 0 \<and> c_string m (a + 1) xs"
  by (auto simp: c_string_def get_bytes_Suc add.assoc)

lemma k_strlen_loop_length: "c_string m a xs \<Longrightarrow> k_strlen_loop m a n = Some (n + of_nat (length xs))"
proof (induction xs arbitrary: a n)
  case Nil
  then show ?case by (simp add: k_strlen_loop.simps)
next
  case (Cons x xs)
  then show ?case by (subst k_strlen_loop.simps) (simp add: add.assoc)
qed

lemma k_strlen_length: "c_string m a xs \<Longrightarrow> k_strlen m a = Some (of_nat (length xs))"
  by (simp add: k_strlen_def k_strlen_loop_length)

lemma uint_diff_sign:
  "uint (x :: u8) - uint y = 0 \<longleftrightarrow> x = y" "uint (x :: u8) - uint y < 0 \<longleftrightarrow> x < y"
  by (auto simp: word_uint_eq_iff word_less_def)

lemma k_strcmp_order:
  "c_string m l xs \<Longrightarrow> c_string m r ys \<Longrightarrow>
     \<exists>d. k_strcmp m l r = Some d \<and> (d = 0 \<longleftrightarrow> xs = ys) \<and> (d < 0 \<longleftrightarrow> (xs, ys) \<in> lexord {(x, y). x < y})"
proof (induction xs arbitrary: l r ys)
  case Nil
  then show ?case
    using uint_diff_sign [of 0 "m r"]
    by (cases ys) (auto simp: k_strcmp.simps [of m l r] word_gt_0)
next
  case (Cons x xs)
  show ?case
  proof (cases ys)
    case Nil
    with Cons.prems show ?thesis
      using uint_diff_sign [of "m l" 0]
      by (auto simp: k_strcmp.simps [of m l r])
  next
    case (Cons y zs)
    show ?thesis
    proof (cases "x = y")
      case True
      with Cons Cons.prems have "k_strcmp m l r = k_strcmp m (l + 1) (r + 1)"
        by (simp add: k_strcmp.simps [of m l r])
      with Cons.IH [of "l + 1" "r + 1" zs] Cons Cons.prems True show ?thesis by auto
    next
      case False
      with Cons Cons.prems show ?thesis
        using uint_diff_sign [of "m l" "m r"]
        by (auto simp: k_strcmp.simps [of m l r])
    qed
  qed
qed

text \<open>
  The bounded comparison gives 0 exactly if the two strings agree up to \<open>len\<close> characters
  or up to the end of the shorter one: a string compares equal to each of its prefixes.
\<close>

theorem k_strncmp_prefix:
  assumes "c_string m l xs" and "c_string m r ys"
  shows "k_strncmp m l r len = 0 \<longleftrightarrow>
    (let n = min (unat len) (min (length xs) (length ys)) in take n xs = take n ys)"
proof -
  have "k_strncmp_loop n m l r = 0 \<longleftrightarrow>
      (let k = min n (min (length xs) (length ys)) in take k xs = take k ys)" for n
    using assms
  proof (induction n arbitrary: l r xs ys)
    case (Suc n)
    show ?case
    proof (cases "xs = [] \<or> ys = []")
      case True
      with Suc.prems show ?thesis by auto
    next
      case False
      then obtain x xs' y ys' where "xs = x # xs'" "ys = y # ys'" by (meson neq_Nil_conv)
      with Suc.prems Suc.IH [of "l + 1" xs' "r + 1" ys'] show ?thesis
        by (auto simp: Let_def signed_word_eqI)
    qed
  qed simp
  then show ?thesis by (simp add: k_strncmp_def)
qed

theorem k_strncmp_prefix_witness:
  "k_strncmp (\<lambda>a. if a = 0x10 \<or> a = 0x20 then 0x41 else if a = 0x21 then 0x42 else 0) 0x10 0x20 9 = 0"
  using k_strncmp_prefix [of "\<lambda>a. if a = 0x10 \<or> a = 0x20 then 0x41 else if a = 0x21 then 0x42 else 0"
      "0x10" "[0x41]" "0x20" "[0x41, 0x42]" 9] by simp

subsection \<open>Decimal text\<close>

text \<open>The canonical decimal notation, as characters.\<close>

fun decimal :: "nat \<Rightarrow> u8 list" where
  "decimal n = (if n < 10 then [of_nat n + 0x30] else decimal (n div 10) @ [of_nat (n mod 10) + 0x30])"

declare decimal.simps [simp del]

definition parse_decimal :: "u8 list \<Rightarrow> nat" where
  "parse_decimal cs = foldl (\<lambda>v c. v * 10 + unat (c - 0x30)) 0 cs"

lemma digit_char: "n < 10 \<Longrightarrow> unat (of_nat n :: u8) = n"
  by (simp add: unat_of_nat_small)

lemma digit_char_nonzero: "n < 10 \<Longrightarrow> (of_nat n :: u8) + 0x30 \<noteq> 0"
proof
  assume "n < 10" "(of_nat n :: u8) + 0x30 = 0"
  then have "unat ((of_nat n :: u8) + 0x30) = 0" by simp
  moreover have "unat ((of_nat n :: u8) + 0x30) = n + 48"
    using \<open>n < 10\<close> by (subst unat_add_no_wrap) (simp_all add: digit_char)
  ultimately show False by simp
qed

lemma parse_decimal_decimal: "parse_decimal (decimal n) = n"
proof (induction n rule: decimal.induct)
  case (1 n)
  show ?case
  proof (cases "n < 10")
    case True
    then show ?thesis by (simp add: decimal.simps [of n] parse_decimal_def digit_char)
  next
    case False
    have "parse_decimal (decimal n) = parse_decimal (decimal (n div 10)) * 10 + n mod 10"
      using False by (simp add: decimal.simps [of n] parse_decimal_def digit_char)
    with 1 False show ?thesis by simp
  qed
qed

lemma decimal_nonzero: "0 \<notin> set (decimal n)"
proof (induction n rule: decimal.induct)
  case (1 n)
  have "(of_nat (n mod 10) :: u8) + 0x30 \<noteq> 0" by (rule digit_char_nonzero) simp
  moreover have "n < 10 \<Longrightarrow> (of_nat n :: u8) + 0x30 \<noteq> 0" by (rule digit_char_nonzero)
  ultimately show ?case using 1 by (auto simp: decimal.simps [of n])
qed

lemma c_str_append: "0 \<notin> set xs \<Longrightarrow> c_str (xs @ 0 # ys) = xs"
  by (induction xs) (auto simp: c_str_def)

lemma decimal_length_pos: "0 < length (decimal n)"
  by (simp add: decimal.simps [of n])

lemma decimal_length_step: "10 \<le> n \<Longrightarrow> length (decimal n) = Suc (length (decimal (n div 10)))"
  by (simp add: decimal.simps [of n])

lemma decimal_length_bound: "n < 10 ^ k \<Longrightarrow> 0 < k \<Longrightarrow> length (decimal n) \<le> k"
proof (induction k arbitrary: n)
  case (Suc k)
  show ?case
  proof (cases "n < 10")
    case True
    then show ?thesis by (simp add: decimal.simps [of n])
  next
    case False
    with Suc.prems have "n div 10 < 10 ^ k" "0 < k"
      by (simp add: less_mult_imp_div_less mult.commute, cases k) auto
    with Suc.IH [of "n div 10"] False show ?thesis by (simp add: decimal_length_step)
  qed
qed simp

lemma decimal_length_64: "length (decimal (unat (v :: u64))) \<le> 20"
  using unat64_lt [of v] by (intro decimal_length_bound) simp_all

lemma ten_div_pos: "0 < v div (10 :: u64) \<longleftrightarrow> 10 \<le> unat v"
  by (simp add: word_less_nat_alt unat_div div_greater_zero_iff)

lemma digit_of_word: "ucast (v mod 10 :: u64) = (of_nat (unat v mod 10) :: u8)"
proof -
  have "(of_nat (unat (v mod 10)) :: u8) = ucast (v mod 10)" by (rule of_nat_unat)
  then show ?thesis by (simp add: unat_mod)
qed

lemma digit_index_length:
  "digit_index v s = s + of_nat (length (decimal (unat v)) - 1)"
proof (induction v s rule: digit_index.induct)
  case (1 v s)
  show ?case
  proof (cases "10 \<le> unat v")
    case True
    then have "length (decimal (unat v)) - 1 = Suc (length (decimal (unat (v div 10))) - 1)"
      using decimal_length_pos [of "unat v div 10"] by (simp add: decimal_length_step unat_div)
    with 1 True show ?thesis by (simp add: digit_index.simps [of v s] ten_div_pos)
  next
    case False
    then show ?thesis
      by (simp add: digit_index.simps [of v s] ten_div_pos decimal.simps [of "unat v"])
  qed
qed

lemma unat_digit_index: "unat (digit_index v 0) = length (decimal (unat v)) - 1"
  using decimal_length_64 [of v] by (simp add: digit_index_length unat_of_nat_small)

text \<open>The digits in front of a position of the buffer, written from the back.\<close>

definition write_digits :: "nat \<Rightarrow> nat \<Rightarrow> out_buffer \<Rightarrow> out_buffer" where
  "write_digits neg n buf = take neg buf @ decimal n @ drop (neg + length (decimal n)) buf"

lemma write_digits_last:
  assumes "n < 10" "neg < length buf"
  shows "write_digits neg n buf = buf[neg := of_nat n + 0x30]"
  using assms by (simp add: write_digits_def decimal.simps [of n] upd_conv_take_nth_drop)

lemma write_digits_step:
  assumes "10 \<le> n" "neg + length (decimal n) \<le> length buf"
  shows "write_digits neg (n div 10) (buf[neg + length (decimal (n div 10)) := of_nat (n mod 10) + 0x30])
    = write_digits neg n buf"
proof -
  let ?d = "length (decimal (n div 10))"
  have l: "length (decimal n) = Suc ?d" using assms(1) by (rule decimal_length_step)
  have dn: "decimal n = decimal (n div 10) @ [of_nat (n mod 10) + 0x30]"
    using assms(1) by (simp add: decimal.simps [of n])
  have "drop (neg + ?d) (buf[neg + ?d := c]) = c # drop (neg + Suc ?d) buf" for c
    using assms(2) l by (simp add: upd_conv_take_nth_drop)
  then show ?thesis using l by (simp add: write_digits_def dn)
qed

lemma utoa_loop_write:
  assumes "utoa_loop v sz index buf = (v', i', b)"
    and "unat sz = unat index + (length (decimal (unat v)) - 1)"
    and "length (decimal (unat v)) \<le> length buf"
  shows "b[unat sz - unat i' := ucast (v' mod 10) + 0x30] = write_digits 0 (unat v) buf"
  using assms
proof (induction v sz index buf rule: utoa_loop.induct)
  case (1 v sz index buf)
  let ?d = "length (decimal (unat v div 10))"
  show ?case
  proof (cases "10 \<le> unat v")
    case True
    have l: "length (decimal (unat v)) = Suc ?d" using True by (rule decimal_length_step)
    have "0 < ?d" by (rule decimal_length_pos)
    then have "unat index < unat sz" using "1.prems"(2) l by simp
    then have i: "unat (index + 1) = Suc (unat index)"
      by (intro unat_add_1_less) (simp add: word_less_nat_alt)
    have s: "unat sz - unat index = 0 + ?d" using "1.prems"(2) l by simp
    let ?buf = "buf[unat sz - unat index := ucast (v mod 10) + 0x30]"
    have "b[unat sz - unat i' := ucast (v' mod 10) + 0x30] = write_digits 0 (unat (v div 10)) ?buf"
      using True "1.prems" l i \<open>0 < ?d\<close>
      by (intro "1.IH") (simp_all add: ten_div_pos utoa_loop.simps [of v sz index buf] unat_div)
    also have "\<dots> = write_digits 0 (unat v) buf"
      using write_digits_step [OF True, of 0 buf] "1.prems"(3) s by (simp add: unat_div digit_of_word)
    finally show ?thesis .
  next
    case False
    with "1.prems" have "v' = v" "i' = index" "b = buf"
      by (auto simp: ten_div_pos utoa_loop.simps [of v sz index buf])
    moreover have "length (decimal (unat v)) = 1" using False by (simp add: decimal.simps [of "unat v"])
    ultimately show ?thesis
      using "1.prems" False write_digits_last [of "unat v" 0 buf]
      by (cases buf) (simp_all add: digit_of_word)
  qed
qed

lemma to_string_u64_text:
  assumes "length buf = 128"
  shows "c_str (to_string_u64 v buf) = decimal (unat v)
    \<and> parse_decimal (c_str (to_string_u64 v buf)) = unat v \<and> length (to_string_u64 v buf) = 128"
proof -
  obtain v' i' b where u: "utoa_loop v (digit_index v 0) 0 buf = (v', i', b)" by (metis prod_cases3)
  let ?n = "unat v" let ?d = "length (decimal (unat v))"
  have d: "?d \<le> 20" "0 < ?d" by (rule decimal_length_64) (rule decimal_length_pos)
  have "b[unat (digit_index v 0) - unat i' := ucast (v' mod 10) + 0x30] = write_digits 0 ?n buf"
    using d assms by (intro utoa_loop_write [OF u]) (simp_all add: unat_digit_index)
  then have t: "to_string_u64 v buf = (write_digits 0 ?n buf)[?d := 0]"
    using d by (simp add: to_string_u64_def u unat_digit_index)
  moreover have "(write_digits 0 ?n buf)[?d := 0] = decimal ?n @ 0 # drop (Suc ?d) buf"
    using d assms by (simp add: write_digits_def list_update_append upd_conv_take_nth_drop)
  ultimately have r: "to_string_u64 v buf = decimal ?n @ 0 # drop (Suc ?d) buf" by simp
  have "c_str (to_string_u64 v buf) = decimal ?n"
    unfolding r by (rule c_str_append) (rule decimal_nonzero)
  with d assms show ?thesis by (simp add: r parse_decimal_decimal)
qed

text \<open>
  \<open>to_string\<close> of an unsigned value leaves its canonical decimal notation in the buffer,
  whatever the buffer held before, and reading the text back gives the value.
\<close>

theorem to_string_u64_decimal:
  assumes "length buf = 128"
  shows "c_str (to_string_u64 v buf) = decimal (unat v)
    \<and> parse_decimal (c_str (to_string_u64 v buf)) = unat v \<and> length (to_string_u64 v buf) = 128"
  by (rule to_string_u64_text [OF assms])

theorem to_string_u64_decimal_witness:
  "c_str (to_string_u64 1024 (replicate 128 0)) = [0x31, 0x30, 0x32, 0x34]"
proof -
  have "c_str (to_string_u64 1024 (replicate 128 0)) = decimal 1024"
    using to_string_u64_decimal [of "replicate 128 0" 1024] by simp
  also have "\<dots> = [0x31, 0x30, 0x32, 0x34]" by (simp add: decimal.simps)
  finally show ?thesis .
qed

lemma signed_ten_div_pos: "0 \<le> sint v \<Longrightarrow> 0 < sint v div 10 \<longleftrightarrow> 10 \<le> unat (v :: u64)"
  using sint_nonneg_unat [of v] by linarith

lemma sint_small:
  fixes w :: "'a::len word"
  assumes "unat w < 2 ^ (LENGTH('a) - 1)"
  shows "sint w = int (unat w)"
proof -
  have "int (unat w) < int (2 ^ (LENGTH('a) - 1))" using assms by (simp only: of_nat_less_iff)
  then have u: "uint w < 2 ^ (LENGTH('a) - 1)" by simp
  have "- (2 ^ (LENGTH('a) - 1)) \<le> (0 :: int)" by simp
  also have "0 \<le> uint w" by simp
  finally have "signed_take_bit (LENGTH('a) - 1) (uint w) = uint w" using u
    by (rule signed_take_bit_int_eq_self)
  then show ?thesis by (simp only: sint_uint) simp
qed

lemma sint_div_10: "0 \<le> sint v \<Longrightarrow> 0 \<le> sint (v div 10 :: u64)"
proof -
  assume "0 \<le> sint v"
  moreover from this have "unat v = nat (sint v)" using sint_nonneg_unat [of v] by linarith
  ultimately have "unat v < 2 ^ 63" using sint_lt [of v] by (simp add: nat_less_iff)
  then have "unat (v div 10) < 2 ^ 63" by (simp add: unat_div)
  then show ?thesis by (simp add: sint_small)
qed

lemma itoa_loop_write:
  assumes "itoa_loop v neg sz index buf = (v', i', b)" and "0 \<le> sint v"
    and "unat sz = unat index + (length (decimal (unat v)) - 1)"
    and "neg + length (decimal (unat v)) \<le> length buf"
  shows "0 \<le> sint v' \<and>
    b[neg + unat sz - unat i' := ucast (v' mod 10) + 0x30] = write_digits neg (unat v) buf"
  using assms
proof (induction v neg sz index buf rule: itoa_loop.induct)
  case (1 v neg sz index buf)
  let ?d = "length (decimal (unat v div 10))"
  show ?case
  proof (cases "10 \<le> unat v")
    case True
    have l: "length (decimal (unat v)) = Suc ?d" using True by (rule decimal_length_step)
    have "0 < ?d" by (rule decimal_length_pos)
    then have "unat index < unat sz" using "1.prems"(3) l by simp
    then have i: "unat (index + 1) = Suc (unat index)"
      by (intro unat_add_1_less) (simp add: word_less_nat_alt)
    have s: "neg + unat sz - unat index = neg + ?d" using "1.prems"(3) l by simp
    let ?buf = "buf[neg + unat sz - unat index := ucast (v mod 10) + 0x30]"
    have "0 \<le> sint v' \<and> b[neg + unat sz - unat i' := ucast (v' mod 10) + 0x30]
        = write_digits neg (unat (v div 10)) ?buf"
      using True "1.prems" l i \<open>0 < ?d\<close>
      by (intro "1.IH")
         (simp_all add: signed_ten_div_pos itoa_loop.simps [of v neg sz index buf] unat_div sint_div_10)
    moreover have "write_digits neg (unat (v div 10)) ?buf = write_digits neg (unat v) buf"
      using write_digits_step [OF True, of neg buf] "1.prems"(4) s by (simp add: unat_div digit_of_word)
    ultimately show ?thesis by simp
  next
    case False
    with "1.prems" have "v' = v" "i' = index" "b = buf"
      by (auto simp: signed_ten_div_pos itoa_loop.simps [of v neg sz index buf])
    moreover have "length (decimal (unat v)) = 1" using False by (simp add: decimal.simps [of "unat v"])
    moreover have "neg < length buf" using calculation(4) "1.prems"(4) by simp
    ultimately show ?thesis
      using "1.prems" False write_digits_last [of "unat v" neg buf] by (simp add: digit_of_word)
  qed
qed

definition decimal_int :: "int \<Rightarrow> u8 list" where
  "decimal_int i = (if i < 0 then 0x2D # decimal (nat (- i)) else decimal (nat i))"

lemma sint_uminus: "sint (v :: u64) \<noteq> - (2 ^ 63) \<Longrightarrow> sint v < 0 \<Longrightarrow> sint (- v) = - sint v"
proof -
  assume "sint v \<noteq> - (2 ^ 63)" "sint v < 0"
  then have "- (2 ^ 63) \<le> - sint v" "- sint v < 2 ^ 63" using sint_ge [of v] by auto
  then have "signed_take_bit 63 (- sint v) = - sint v" by (intro signed_take_bit_int_eq_self)
  then show ?thesis by (simp add: sint_word_ariths)
qed

lemma to_string_i64_text:
  assumes "length buf = 128" and "sint v \<noteq> - (2 ^ 63)"
  shows "c_str (to_string_i64 v buf) = decimal_int (sint v)"
proof -
  define neg where "neg = (if sint v < 0 then 1 else 0 :: nat)"
  define w where "w = (if sint v < 0 then - v else v)"
  define buf0 where "buf0 = (if sint v < 0 then buf[0 := 0x2D] else buf)"
  have w: "sint w = \<bar>sint v\<bar>" using assms(2) by (simp add: w_def sint_uminus)
  then have nw: "0 \<le> sint w" "int (unat w) = \<bar>sint v\<bar>" using sint_nonneg_unat [of w] by simp_all
  obtain v' i' b where u: "itoa_loop w neg (digit_index w 0) 0 buf0 = (v', i', b)" by (metis prod_cases3)
  let ?n = "unat w" let ?d = "length (decimal (unat w))"
  have d: "?d \<le> 20" "0 < ?d" by (rule decimal_length_64) (rule decimal_length_pos)
  have l: "length buf0 = 128" and n1: "neg \<le> 1" using assms(1) by (simp_all add: buf0_def neg_def)
  have r: "0 \<le> sint v' \<and> b[neg + unat (digit_index w 0) - unat i' := ucast (v' mod 10) + 0x30]
      = write_digits neg ?n buf0"
    using d l nw n1 by (intro itoa_loop_write [OF u]) (simp_all add: unat_digit_index)
  obtain k where k: "?d = Suc k" using d(2) gr0_implies_Suc by blast
  have "to_string_i64 v buf = (write_digits neg ?n buf0)[neg + ?d := 0]"
    using r u k unfolding to_string_i64_def neg_def [symmetric] w_def [symmetric] buf0_def [symmetric]
    by (simp add: Let_def digit_of_signed_def unat_digit_index)
  also have "\<dots> = take neg buf0 @ decimal ?n @ 0 # drop (neg + Suc ?d) buf0"
    using d l n1 by (simp add: write_digits_def list_update_append upd_conv_take_nth_drop)
  also have "c_str \<dots> = decimal_int (sint v)"
  proof (cases "sint v < 0")
    case True
    then have "take neg buf0 = [0x2D]" using assms(1) by (cases buf) (simp_all add: neg_def buf0_def)
    moreover have "nat (- sint v) = ?n" using nw True by linarith
    ultimately show ?thesis
      using True decimal_nonzero [of ?n] c_str_append [of "0x2D # decimal ?n"]
      by (simp add: decimal_int_def)
  next
    case False
    then have "neg = 0" "nat (sint v) = ?n" using nw(2) by (simp add: neg_def, linarith)
    then show ?thesis
      using False decimal_nonzero [of ?n] by (simp add: decimal_int_def c_str_append)
  qed
  finally show ?thesis .
qed

text \<open>
  \<open>to_string\<close> of a signed value writes its decimal notation, with a minus sign in front
  when it is negative, for every value but the most negative one.
\<close>

theorem to_string_i64_decimal:
  assumes "length buf = 128" and "sint v \<noteq> - (2 ^ 63)"
  shows "c_str (to_string_i64 v buf) = decimal_int (sint v)"
  by (rule to_string_i64_text [OF assms])

theorem to_string_i64_decimal_witness:
  "c_str (to_string_i64 (- 42) (replicate 128 0)) = [0x2D, 0x34, 0x32]"
proof -
  have s: "sint (- 42 :: u64) = - 42" by simp
  have "c_str (to_string_i64 (- 42) (replicate 128 0)) = decimal_int (- 42)"
    using to_string_i64_decimal [of "replicate 128 0" "- 42"] s by simp
  also have "\<dots> = [0x2D, 0x34, 0x32]" by (simp add: decimal_int_def decimal.simps)
  finally show ?thesis .
qed

text \<open>
  The most negative value comes out as a minus sign, 18 characters the buffer held before, and
  a character that is no digit.
\<close>

lemma to_string_i64_most_negative:
  "c_str (to_string_i64 0x8000000000000000 (replicate 128 0x58)) = 0x2D # replicate 18 0x58 @ [0x28]"
  by code_simp

subsection \<open>Hexadecimal text\<close>

text \<open>Digit \<open>j\<close> of a little-endian byte list, digit 0 being the lowest.\<close>

definition nibble :: "u8 list \<Rightarrow> nat \<Rightarrow> u8" where
  "nibble bs j = (if even j then bs ! (j div 2) AND 0x0F else drop_bit 4 (bs ! (j div 2) AND 0xF0))"

lemma hex_rounds:
  assumes "n \<le> w" "2 * w < length buf"
  shows "length (fold (\<lambda>i. hex_round (w * 2 - 1) i (bs ! i)) [0..<n] buf) = length buf \<and>
    (\<forall>j < 2 * n. fold (\<lambda>i. hex_round (w * 2 - 1) i (bs ! i)) [0..<n] buf ! (w * 2 - 1 - j)
       = hex_char (nibble bs j))"
  using assms(1)
proof (induction n)
  case (Suc n)
  let ?f = "fold (\<lambda>i. hex_round (w * 2 - 1) i (bs ! i)) [0..<n] buf"
  from Suc have IH: "length ?f = length buf"
    "\<And>j. j < 2 * n \<Longrightarrow> ?f ! (w * 2 - 1 - j) = hex_char (nibble bs j)" by simp_all
  have "hex_round (w * 2 - 1) n (bs ! n) ?f ! (w * 2 - 1 - j) = hex_char (nibble bs j)"
    if j: "j < 2 * Suc n" for j
  proof -
    have "j = 2 * n \<or> j = Suc (2 * n) \<or> j < 2 * n" using j by auto
    then consider "j = 2 * n" | "j = Suc (2 * n)" | "j < 2 * n" by blast
    then show ?thesis
    proof cases
      case 1
      then show ?thesis using IH(1) assms(2) Suc.prems
        by (auto simp: hex_round_def Let_def nibble_def mult.commute)
    next
      case 2
      then show ?thesis using IH(1) assms(2) Suc.prems
        by (simp add: hex_round_def Let_def nibble_def mult.commute)
    next
      case 3
      then show ?thesis using IH assms(2) Suc.prems by (simp add: hex_round_def Let_def)
    qed
  qed
  moreover have "length (hex_round (w * 2 - 1) n (bs ! n) ?f) = length buf"
    using IH(1) by (simp add: hex_round_def Let_def)
  moreover have "fold (\<lambda>i. hex_round (w * 2 - 1) i (bs ! i)) [0..<Suc n] buf
      = hex_round (w * 2 - 1) n (bs ! n) ?f" by simp
  ultimately show ?case by (simp only:) blast
qed simp

lemma hex_char_nonzero: "c < 16 \<Longrightarrow> hex_char c \<noteq> 0"
proof
  assume "c < 16" "hex_char c = 0"
  then have u: "unat c < 16" by (simp add: word_less_nat_alt)
  have "unat (hex_char c) = unat c + (if c > 9 then 55 else 48)"
    unfolding hex_char_def by (subst unat_add_no_wrap) (use u in auto)
  with \<open>hex_char c = 0\<close> show False by (auto split: if_splits)
qed

lemma nibble_less: "nibble bs j < 16"
proof -
  have "x AND 0x0F < 16" for x :: u8
    using word_and_le1 [of x "0x0F"] by (simp add: word_le_nat_alt word_less_nat_alt)
  moreover have "drop_bit 4 x < 16" for x :: u8
  proof -
    have "unat (drop_bit 4 x) = unat x div 16"
      by (simp only: unsigned_drop_bit_eq drop_bit_eq_div) (simp add: unat_div)
    with unat8_lt [of x] have "unat (drop_bit 4 x) < 16" by linarith
    then show ?thesis by (simp add: word_less_nat_alt)
  qed
  ultimately show ?thesis by (simp add: nibble_def)
qed

lemma to_hstring_bytes_text:
  assumes "0 < w" "2 * w < length buf"
  shows "c_str (to_hstring_bytes w bs buf) = map (\<lambda>j. hex_char (nibble bs j)) (rev [0..<2 * w])"
proof -
  let ?f = "fold (\<lambda>i. hex_round (w * 2 - 1) i (bs ! i)) [0..<w] buf"
  let ?t = "map (\<lambda>j. hex_char (nibble bs j)) (rev [0..<2 * w])"
  have e: "(w * 2 - 1) div 2 + 1 = w" "w * 2 - 1 + 1 = 2 * w" using assms(1) by (cases w; simp)+
  have f: "length ?f = length buf" "\<And>j. j < 2 * w \<Longrightarrow> ?f ! (w * 2 - 1 - j) = hex_char (nibble bs j)"
    using hex_rounds [of w w buf bs] assms(2) by simp_all
  have "to_hstring_bytes w bs buf = ?f[2 * w := 0]"
    unfolding to_hstring_bytes_def Let_def e by simp
  also have "\<dots> = take (2 * w) ?f @ 0 # drop (Suc (2 * w)) ?f"
    using assms(2) f(1) by (simp add: upd_conv_take_nth_drop)
  also have "take (2 * w) ?f = ?t"
  proof (rule nth_equalityI)
    fix i assume "i < length (take (2 * w) ?f)"
    then have i: "i < 2 * w" using f(1) assms(2) by simp
    then have "?f ! (w * 2 - 1 - (2 * w - 1 - i)) = hex_char (nibble bs (2 * w - 1 - i))"
      by (intro f(2)) simp
    moreover have "w * 2 - 1 - (2 * w - 1 - i) = i" using i by simp
    ultimately show "take (2 * w) ?f ! i = ?t ! i" using i by (simp add: rev_nth)
  qed (use f(1) assms(2) in simp)
  finally show ?thesis
    using nibble_less hex_char_nonzero by (auto intro!: c_str_append simp: image_iff)
qed

definition hex_digit_value :: "u8 \<Rightarrow> nat" where
  "hex_digit_value c = (if c \<ge> 0x41 then unat (c - 55) else unat (c - 0x30))"

definition parse_hex :: "u8 list \<Rightarrow> nat" where
  "parse_hex cs = foldl (\<lambda>v c. v * 16 + hex_digit_value c) 0 cs"

lemma hex_digit_value_char: "c < 16 \<Longrightarrow> hex_digit_value (hex_char c) = unat c"
proof -
  assume "c < 16"
  then have u: "unat c < 16" by (simp add: word_less_nat_alt)
  have "unat (hex_char c) = unat c + (if c > 9 then 55 else 48)"
    unfolding hex_char_def by (subst unat_add_no_wrap) (use u in auto)
  then have "hex_char c \<ge> 0x41 \<longleftrightarrow> c > 9"
    using u by (auto simp: word_le_nat_alt word_less_nat_alt split: if_splits)
  then show ?thesis by (auto simp: hex_digit_value_def hex_char_def)
qed

lemma foldl_positional:
  "foldl (\<lambda>v c. v * B + f c) a (rev [0..<n]) = a * B ^ n + (\<Sum>j<n. f j * B ^ j)" for B :: nat
  by (induction n arbitrary: a) (simp_all add: algebra_simps)

lemma sum_positional: "(\<Sum>j<n. x div B ^ j mod B * B ^ j) = x mod B ^ n" for B :: nat
proof (induction n)
  case (Suc n)
  have "x mod B ^ Suc n = x div B ^ n mod B * B ^ n + x mod B ^ n"
    by (simp only: power_Suc2 mod_mult2_eq) (simp add: mult.commute)
  with Suc show ?case by simp
qed simp

lemma bit_low_nibble: "bit (x AND 0x0F :: u8) i \<longleftrightarrow> i < 4 \<and> bit x i"
proof -
  have "(0x0F :: u8) = mask 4" by (simp add: mask_eq_exp_minus_1)
  then show ?thesis by (simp only: bit_and_iff bit_mask_iff) auto
qed

lemma bit_high_nibble: "bit (drop_bit 4 (x AND 0xF0) :: u8) i \<longleftrightarrow> bit x (4 + i)"
proof -
  have "(0xF0 :: u8) = push_bit 4 (mask 4)" by (simp add: mask_eq_exp_minus_1 push_bit_eq_mult)
  then show ?thesis
    by (simp only: bit_drop_bit_eq bit_and_iff o_apply bit_push_bit_iff bit_mask_iff)
       (auto dest: bit_imp_le_length)
qed

lemma nibble_value:
  fixes v :: "'a::len word"
  assumes "j < 2 * n" "8 * n = LENGTH('a)"
  shows "unat (nibble (le_bytes n v) j) = unat v div 16 ^ j mod 16"
proof -
  have "nibble (le_bytes n v) j = take_bit 4 (ucast (drop_bit (4 * j) v))"
  proof (rule bit_word_eqI)
    fix i assume "i < LENGTH(8)"
    then have i: "i < 8" by simp
    have j2: "j div 2 < n" using assms(1) by simp
    show "bit (nibble (le_bytes n v) j) i = bit (take_bit 4 (ucast (drop_bit (4 * j) v)) :: u8) i"
    proof (cases "even j")
      case True
      then obtain k where "j = 2 * k" by (rule evenE)
      with i j2 show ?thesis
        by (auto simp: nibble_def bit_low_nibble le_bytes_def bit_take_bit_iff bit_ucast_iff
            bit_drop_bit_eq)
    next
      case False
      then obtain k where k: "j = 2 * k + 1" by (rule oddE)
      then have "nibble (le_bytes n v) j = drop_bit 4 (ucast (drop_bit (8 * k) v) AND 0xF0)"
        using j2 by (simp add: nibble_def le_bytes_def)
      then have "bit (nibble (le_bytes n v) j) i = bit (ucast (drop_bit (8 * k) v) :: u8) (4 + i)"
        by (simp only: bit_high_nibble)
      then show ?thesis
        using i by (auto simp: k bit_take_bit_iff bit_ucast_iff bit_drop_bit_eq algebra_simps)
    qed
  qed
  then have "unat (nibble (le_bytes n v) j) = unat (take_bit 4 (drop_bit (4 * j) v))"
    using assms by (simp add: unsigned_take_bit_eq unsigned_ucast_eq)
  also have "\<dots> = unat v div 16 ^ j mod 16"
    using unsigned_less [of v, where ?'a = nat]
    by (simp only: unsigned_take_bit_eq unsigned_drop_bit_eq take_bit_nat_eq_self)
       (simp add: drop_bit_eq_div take_bit_eq_mod power_mult)
  finally show ?thesis .
qed

lemma to_hstring_bytes_parse:
  fixes v :: "'a::len word"
  assumes "0 < n" "2 * n < length buf" "8 * n = LENGTH('a)"
  shows "parse_hex (c_str (to_hstring_bytes n (le_bytes n v) buf)) = unat v"
proof -
  have "parse_hex (c_str (to_hstring_bytes n (le_bytes n v) buf))
      = (\<Sum>j<2 * n. hex_digit_value (hex_char (nibble (le_bytes n v) j)) * 16 ^ j)"
    using assms by (simp add: to_hstring_bytes_text parse_hex_def foldl_map foldl_positional)
  also have "\<dots> = (\<Sum>j<2 * n. unat v div 16 ^ j mod 16 * 16 ^ j)"
    using assms(3) by (intro sum.cong) (simp_all add: hex_digit_value_char nibble_less nibble_value)
  also have "\<dots> = unat v mod 16 ^ (2 * n)" by (rule sum_positional)
  also have "(16 :: nat) ^ (2 * n) = 2 ^ LENGTH('a)"
    unfolding assms(3) [symmetric] by (simp add: power_mult)
  finally show ?thesis using unsigned_less [of v, where ?'a = nat] by simp
qed

text \<open>
  The 64-bit \<open>to_hstring\<close> writes exactly 16 hexadecimal digits, most significant first,
  that read back as the value; the 32-, 16- and 8-bit overloads write 8, 4 and 2.
\<close>

theorem to_hstring_roundtrip:
  assumes "length buf = 128"
  shows "parse_hex (c_str (to_hstring64 v64 buf)) = unat v64 \<and> length (c_str (to_hstring64 v64 buf)) = 16
    \<and> parse_hex (c_str (to_hstring32 v32 buf)) = unat v32 \<and> length (c_str (to_hstring32 v32 buf)) = 8
    \<and> parse_hex (c_str (to_hstring16 v16 buf)) = unat v16 \<and> length (c_str (to_hstring16 v16 buf)) = 4
    \<and> parse_hex (c_str (to_hstring8 v8 buf)) = unat v8 \<and> length (c_str (to_hstring8 v8 buf)) = 2"
  unfolding to_hstring64_def to_hstring32_def to_hstring16_def to_hstring8_def
  by (intro conjI; (rule to_hstring_bytes_parse | subst to_hstring_bytes_text))
     (use assms in simp_all)

theorem to_hstring_roundtrip_witness:
  "parse_hex (c_str (to_hstring64 0xCAFE (replicate 128 0))) = 0xCAFE"
  using to_hstring_roundtrip [of "replicate 128 0" "0xCAFE"] by simp

subsection \<open>Text in any base\<close>

text \<open>The digits of a number in a base, most significant first; nothing for zero.\<close>

definition digit_value :: "u8 \<Rightarrow> nat" where
  "digit_value c = length (takeWhile (\<lambda>d. d \<noteq> c) Digits)"

lemma length_Digits [simp]: "length Digits = 36"
  by (simp add: Digits_def)

lemma digit_value_Digits: "i < 36 \<Longrightarrow> digit_value (Digits ! i) = i"
proof -
  have "\<forall>i \<in> set [0..<36]. digit_value (Digits ! i) = i" by code_simp
  then show "i < 36 \<Longrightarrow> digit_value (Digits ! i) = i" by simp
qed

lemma convert_digits_value:
  assumes "2 \<le> base" "base \<le> 36" "unat v < 2 ^ k"
  shows "\<exists>ds. convert_digits v base acc = ds @ acc \<and> length ds \<le> k \<and> set ds \<subseteq> set Digits
    \<and> foldl (\<lambda>a c. a * unat base + digit_value c) 0 ds = unat v \<and> (v = 0 \<longrightarrow> ds = [])"
  using assms(3)
proof (induction k arbitrary: v acc)
  case 0
  then have "v = 0" by (simp add: unsigned_eq_0_iff)
  then show ?case by (simp add: convert_digits.simps)
next
  case (Suc k)
  have b: "2 \<le> unat base" "unat base \<le> 36" using assms(1,2) by (simp_all add: word_le_nat_alt)
  show ?case
  proof (cases "v = 0")
    case True
    then show ?thesis by (simp add: convert_digits.simps [of 0])
  next
    case False
    have "unat v div unat base \<le> unat v div 2" using b(1) by (rule div_le_mono2 [rotated]) simp
    then have "unat (v div base) < 2 ^ k" using Suc.prems by (simp add: unat_div)
    from Suc.IH [OF this, of "Digits ! unat (v mod base) # acc"] obtain ds where
      ds: "convert_digits (v div base) base (Digits ! unat (v mod base) # acc)
          = ds @ Digits ! unat (v mod base) # acc"
        "length ds \<le> k" "set ds \<subseteq> set Digits"
        "foldl (\<lambda>a c. a * unat base + digit_value c) 0 ds = unat (v div base)" by blast
    have m: "unat (v mod base) < 36"
      using b by (simp add: unat_mod) (meson less_le_trans mod_less_divisor zero_less_numeral order_less_le_trans)
    have "convert_digits v base acc = (ds @ [Digits ! unat (v mod base)]) @ acc"
      using False assms(1) ds(1) by (simp add: convert_digits.simps [of v])
    moreover have "foldl (\<lambda>a c. a * unat base + digit_value c) 0 (ds @ [Digits ! unat (v mod base)]) = unat v"
      using m ds(4) by (simp add: digit_value_Digits unat_div unat_mod)
    moreover have "set (ds @ [Digits ! unat (v mod base)]) \<subseteq> set Digits" using ds(3) m by simp
    ultimately show ?thesis using ds(2) False by (intro exI [of _ "ds @ [Digits ! unat (v mod base)]"]) simp
  qed
qed

text \<open>
  In every base from 2 to 36 the converted value takes at most 64 of the 128 characters,
  all of them digits that read back as the value, and the rest of the buffer is left as it was:
  no NUL is written behind the digits.
\<close>

theorem to_string_convert_bounds:
  assumes "length buf = 128" "2 \<le> base" "base \<le> 36"
  shows "\<exists>ds. to_string_convert v base buf = ds @ drop (length ds) buf \<and> length ds \<le> 64
    \<and> set ds \<subseteq> set Digits \<and> foldl (\<lambda>a c. a * unat base + digit_value c) 0 ds = unat v
    \<and> (v = 0 \<longrightarrow> ds = [])"
proof -
  have "unat v < 2 ^ 64" using unat64_lt [of v] by simp
  from convert_digits_value [OF assms(2,3) this, of "[]"] assms(2,3) show ?thesis
    by (auto simp: to_string_convert_def Let_def not_less not_le [symmetric])
qed

theorem to_string_convert_bounds_witness:
  "\<exists>ds. to_string_convert 0x1F 16 (replicate 128 0) = ds @ drop (length ds) (replicate 128 0)
     \<and> foldl (\<lambda>a c. a * 16 + digit_value c) 0 ds = 31"
  using to_string_convert_bounds [of "replicate 128 0" 16 "0x1F"] by auto

text \<open>The shorter of two results in a row is followed by the rest of the longer one.\<close>

lemma to_string_convert_stale:
  "c_str (to_string_convert 1 16 (to_string_convert 0xFF 16 (replicate 128 0))) = [0x31, 0x66]"
  by code_simp

end
