(* ===== verification/PageTables.thy ===== *)
theory PageTables
  imports PageFrames KernelLib
begin

section \<open>Page tables (kernel/src/memory_management/PageTableManager.cpp, paging.cpp)\<close>

text \<open>
  The four-level x86-64 page tables, read and written in the byte memory \<open>pmem\<close> that they share
  with the page frame allocator; tables are reached through the kernel's identity mapping. The
  abstract view of a set of tables is \<open>frame_map\<close>, a map from the four table indices of an
  address to the physical frame behind it, and every operation is shown to implement its
  update of that map.
\<close>

subsection \<open>Page table entries\<close>

datatype PT_Flag =
  Present | ReadWrite | UserSuper | WriteThrough | CacheDisabled | Accessed | LargerPages
| Custom0 | Custom1 | Custom2 | NX

fun PT_Flag_value :: "PT_Flag \<Rightarrow> nat" where
  "PT_Flag_value Present = 0"
| "PT_Flag_value ReadWrite = 1"
| "PT_Flag_value UserSuper = 2"
| "PT_Flag_value WriteThrough = 3"
| "PT_Flag_value CacheDisabled = 4"
| "PT_Flag_value Accessed = 5"
| "PT_Flag_value LargerPages = 7"
| "PT_Flag_value Custom0 = 9"
| "PT_Flag_value Custom1 = 10"
| "PT_Flag_value Custom2 = 11"
| "PT_Flag_value NX = 63"

record PageDirectoryEntry =
  Value :: u64

definition SetFlag :: "PageDirectoryEntry \<Rightarrow> PT_Flag \<Rightarrow> bool \<Rightarrow> PageDirectoryEntry" where
  "SetFlag pde flag enabled =
     (let bitSelector = push_bit (PT_Flag_value flag) 1;
          cleared = Value pde AND NOT bitSelector
      in \<lparr>Value = (if enabled then cleared OR bitSelector else cleared)\<rparr>)"

definition PDE_Clear :: "PageDirectoryEntry \<Rightarrow> PageDirectoryEntry" where
  "PDE_Clear pde = \<lparr>Value = 0\<rparr>"

definition GetFlag :: "PageDirectoryEntry \<Rightarrow> PT_Flag \<Rightarrow> bool" where
  "GetFlag pde flag =
     (let bitSelector = push_bit (PT_Flag_value flag) 1 in Value pde AND bitSelector > 0)"

definition SetFlags :: "PageDirectoryEntry \<Rightarrow> u64 \<Rightarrow> PageDirectoryEntry" where
  "SetFlags pde flags = \<lparr>Value = Value pde OR (flags AND 0xfff0000000000fff)\<rparr>"

definition GetFlags :: "PageDirectoryEntry \<Rightarrow> u64" where
  "GetFlags pde = Value pde AND 0xfff0000000000fff"

definition GetAddress :: "PageDirectoryEntry \<Rightarrow> u64" where
  "GetAddress pde = drop_bit 12 (Value pde AND 0x000ffffffffff000)"

definition SetAddress :: "PageDirectoryEntry \<Rightarrow> u64 \<Rightarrow> PageDirectoryEntry" where
  "SetAddress pde address =
     (let a = address AND 0x000000ffffffffff
      in \<lparr>Value = (Value pde AND 0xfff0000000000fff) OR push_bit 12 a\<rparr>)"

record PageMapIndexer =
  PDP_i :: u64
  PD_i :: u64
  PT_i :: u64
  P_i :: u64

definition PageMapIndexer_new :: "u64 \<Rightarrow> PageMapIndexer" where
  "PageMapIndexer_new virtualAddress =
     (let v1 = drop_bit 12 virtualAddress; v2 = drop_bit 9 v1; v3 = drop_bit 9 v2; v4 = drop_bit 9 v3
      in \<lparr>PDP_i = v4 AND 0x1ff, PD_i = v3 AND 0x1ff, PT_i = v2 AND 0x1ff, P_i = v1 AND 0x1ff\<rparr>)"

text \<open>\<open>table->entries[i]\<close>\<close>

definition entry :: "mem \<Rightarrow> u64 \<Rightarrow> u64 \<Rightarrow> PageDirectoryEntry" where
  "entry m table i = \<lparr>Value = get64 m (table + 8 * i)\<rparr>"

definition set_entry :: "mem \<Rightarrow> u64 \<Rightarrow> u64 \<Rightarrow> PageDirectoryEntry \<Rightarrow> mem" where
  "set_entry m table i pde = put64 m (table + 8 * i) (Value pde)"

subsection \<open>Mapping and unmapping\<close>

text \<open>
  The step that \<open>MapMemory\<close> makes on each of the three upper levels: the next table, from a
  fresh zeroed page if the entry is not present. A failed request is not checked for.
\<close>

definition next_table ::
  "PageFrameAllocator \<Rightarrow> u64 \<Rightarrow> u64 \<Rightarrow> PageFrameAllocator \<times> u64" where
  "next_table s table i =
     (let pde = entry (pmem s) table i in
      if \<not> GetFlag pde Present then
        let (s1, page) = RequestPage s;
            m2 = k_memset (pmem s1) page 0 0x1000;
            pde1 = SetFlag (SetFlag (SetAddress pde (drop_bit 12 page)) Present True) ReadWrite True
        in (s1\<lparr>pmem := set_entry m2 table i pde1\<rparr>, page)
      else (s, push_bit 12 (GetAddress pde)))"

definition MapMemory ::
  "PageFrameAllocator \<Rightarrow> u64 \<Rightarrow> u64 \<Rightarrow> u64 \<Rightarrow> PageFrameAllocator \<times> u64" where
  "MapMemory s PML4 virtualMemory physicalMemory =
     (let indexer = PageMapIndexer_new virtualMemory;
          (s1, PDP) = next_table s PML4 (PDP_i indexer);
          (s2, PD) = next_table s1 PDP (PD_i indexer);
          (s3, PT) = next_table s2 PD (PT_i indexer);
          pde = entry (pmem s3) PT (P_i indexer);
          pde1 = SetFlag (SetFlag (SetAddress pde (drop_bit 12 physicalMemory)) Present True)
                   ReadWrite True
      in (s3\<lparr>pmem := set_entry (pmem s3) PT (P_i indexer) pde1\<rparr>, virtualMemory))"

definition IndentityMapMemory :: "PageFrameAllocator \<Rightarrow> u64 \<Rightarrow> u64 \<Rightarrow> PageFrameAllocator \<times> u64" where
  "IndentityMapMemory s PML4 address = MapMemory s PML4 address address"

definition ROUND_UP :: "u64 \<Rightarrow> u64 \<Rightarrow> u64" where
  "ROUND_UP n multiple = (if n mod multiple = 0 then n else n - n mod multiple + multiple)"

text \<open>
  The loop over a range does not end when its end is in the last page of the address space:
  the pointer wraps around. Then the value is \<open>None\<close>.
\<close>

partial_function (option) identity_map_loop ::
  "u64 \<Rightarrow> u64 \<Rightarrow> u64 \<Rightarrow> PageFrameAllocator \<Rightarrow> PageFrameAllocator option" where
  "identity_map_loop PML4 end ptr s =
     (if ptr < end then identity_map_loop PML4 end (ptr + 0x1000) (fst (MapMemory s PML4 ptr ptr))
      else Some s)"

definition IndentityMapMemory_range ::
  "PageFrameAllocator \<Rightarrow> u64 \<Rightarrow> u64 \<Rightarrow> u64 \<Rightarrow> PageFrameAllocator option" where
  "IndentityMapMemory_range s PML4 address sz =
     identity_map_loop PML4 (address + ROUND_UP sz 0x1000) address s"

definition WalkMemory :: "mem \<Rightarrow> u64 \<Rightarrow> u64 \<Rightarrow> u64" where
  "WalkMemory m PML4 virtualMemory =
     (let indexer = PageMapIndexer_new virtualMemory;
          pde = entry m PML4 (PDP_i indexer) in
      if \<not> GetFlag pde Present then NULL
      else let PDP = push_bit 12 (GetAddress pde);
               pde = entry m PDP (PD_i indexer) in
      if \<not> GetFlag pde Present then NULL
      else let PD = push_bit 12 (GetAddress pde);
               pde = entry m PD (PT_i indexer) in
      if \<not> GetFlag pde Present then NULL
      else let PT = push_bit 12 (GetAddress pde);
               pde = entry m PT (P_i indexer)
      in push_bit 12 (GetAddress pde))"

definition UnmapMemory :: "mem \<Rightarrow> u64 \<Rightarrow> u64 \<Rightarrow> mem" where
  "UnmapMemory m PML4 virtualMemory =
     (let indexer = PageMapIndexer_new virtualMemory;
          pde = entry m PML4 (PDP_i indexer) in
      if \<not> GetFlag pde Present then m
      else let PDP = push_bit 12 (GetAddress pde);
               pde = entry m PDP (PD_i indexer) in
      if \<not> GetFlag pde Present then m
      else let PD = push_bit 12 (GetAddress pde);
               pde = entry m PD (PT_i indexer) in
      if \<not> GetFlag pde Present then m
      else let PT = push_bit 12 (GetAddress pde);
               pde = entry m PT (P_i indexer)
      in set_entry m PT (P_i indexer) (PDE_Clear pde))"

definition RemapMemory ::
  "PageFrameAllocator \<Rightarrow> u64 \<Rightarrow> u64 \<Rightarrow> u64 \<Rightarrow> PageFrameAllocator \<times> u64" where
  "RemapMemory s PML4 oldMemory newMemory =
     (let physAddr = WalkMemory (pmem s) PML4 oldMemory in
      if physAddr = NULL then (s, NULL)
      else MapMemory (s\<lparr>pmem := UnmapMemory (pmem s) PML4 oldMemory\<rparr>) PML4 newMemory physAddr)"

subsection \<open>Fields of an entry\<close>

lemma address_mask: "(0x000ffffffffff000 :: u64) = push_bit 12 (mask 40)"
  by (simp add: mask_eq_exp_minus_1 push_bit_eq_mult)

lemma flags_mask: "(0xfff0000000000fff :: u64) = NOT (push_bit 12 (mask 40))"
  by (simp only: address_mask [symmetric]) code_simp

lemma frame_mask: "(0x000000ffffffffff :: u64) = mask 40"
  by (simp add: mask_eq_exp_minus_1)

lemma index_mask: "(0x1ff :: u64) = mask 9"
  by (simp add: mask_eq_exp_minus_1)

lemma PT_Flag_value_less: "PT_Flag_value f < 12 \<or> PT_Flag_value f = 63"
  by (cases f) simp_all

lemma GetFlag_bit: "GetFlag pde f \<longleftrightarrow> bit (Value pde) (PT_Flag_value f)"
  by (auto simp: GetFlag_def Let_def word_gt_0 push_bit_eq_mult and_exp_eq_0_iff_not_bit)

lemma bit_SetFlag:
  "bit (Value (SetFlag pde f b)) n \<longleftrightarrow> (if n = PT_Flag_value f then b else bit (Value pde) n)"
  using PT_Flag_value_less [of f]
  by (auto simp: SetFlag_def Let_def bit_simps dest: bit_imp_le_length)

lemma bit_GetAddress: "bit (GetAddress pde) n \<longleftrightarrow> n < 40 \<and> bit (Value pde) (12 + n)"
  unfolding GetAddress_def address_mask by (auto simp: bit_simps)

lemma bit_SetAddress:
  "bit (Value (SetAddress pde a)) n \<longleftrightarrow>
     (if 12 \<le> n \<and> n < 52 then bit a (n - 12) else bit (Value pde) n)"
  unfolding SetAddress_def Let_def flags_mask frame_mask
  by (auto simp: bit_simps dest: bit_imp_le_length)

lemma GetFlags_bit: "bit (GetFlags pde) n \<longleftrightarrow> bit (Value pde) n \<and> \<not> (12 \<le> n \<and> n < 52)"
  unfolding GetFlags_def flags_mask by (auto simp: bit_simps dest: bit_imp_le_length)

text \<open>The flags and the address of an entry are independent of each other.\<close>

lemma GetFlag_SetFlag: "GetFlag (SetFlag pde f b) g = (if g = f then b else GetFlag pde g)"
proof -
  have "PT_Flag_value g = PT_Flag_value f \<longleftrightarrow> g = f" by (cases f; cases g) simp_all
  then show ?thesis by (simp add: GetFlag_bit bit_SetFlag)
qed

lemma GetFlag_SetAddress: "GetFlag (SetAddress pde a) f = GetFlag pde f"
  using PT_Flag_value_less [of f] by (auto simp: GetFlag_bit bit_SetAddress)

lemma GetAddress_SetFlag: "GetAddress (SetFlag pde f b) = GetAddress pde"
  using PT_Flag_value_less [of f]
  by (intro bit_word_eqI) (auto simp: bit_GetAddress bit_SetFlag)

lemma GetAddress_SetAddress: "GetAddress (SetAddress pde a) = take_bit 40 a"
  by (intro bit_word_eqI) (auto simp: bit_GetAddress bit_SetAddress bit_take_bit_iff)

lemma not_Present_zero [simp]: "\<not> GetFlag \<lparr>Value = 0\<rparr> f"
  by (simp add: GetFlag_bit)

text \<open>The frame of an address: bits 12 to 51.\<close>

definition frame_of :: "u64 \<Rightarrow> u64" where
  "frame_of a = push_bit 12 (take_bit 40 (drop_bit 12 a))"

definition link_to :: "PageDirectoryEntry \<Rightarrow> u64 \<Rightarrow> PageDirectoryEntry" where
  "link_to pde page =
     SetFlag (SetFlag (SetAddress pde (drop_bit 12 page)) Present True) ReadWrite True"

lemma link_to_Present [simp]: "GetFlag (link_to pde page) Present"
  by (simp add: link_to_def GetFlag_SetFlag)

lemma link_to_address [simp]: "push_bit 12 (GetAddress (link_to pde page)) = frame_of page"
  by (simp add: link_to_def GetAddress_SetFlag GetAddress_SetAddress frame_of_def)

definition page_aligned :: "u64 \<Rightarrow> bool" where
  "page_aligned t \<longleftrightarrow> t mod 4096 = 0"

lemma page_aligned_unat: "page_aligned t \<longleftrightarrow> unat t mod 4096 = 0"
  unfolding page_aligned_def by (simp add: word_unat_eq_iff unat_mod)

lemma frame_of_bits: "bit (frame_of a) n \<longleftrightarrow> 12 \<le> n \<and> n < 52 \<and> bit a n"
  by (auto simp: frame_of_def bit_simps dest: bit_imp_le_length)

lemma frame_of_aligned: "page_aligned (frame_of a)"
proof -
  have "take_bit 12 (frame_of a) = 0" by (rule bit_word_eqI) (simp add: bit_take_bit_iff frame_of_bits)
  then show ?thesis by (simp add: page_aligned_def take_bit_eq_mod)
qed

lemma frame_of_page:
  assumes "page_aligned p" "unat p < 2 ^ 52"
  shows "frame_of p = p"
proof (rule bit_word_eqI)
  fix n
  have "take_bit 12 p = 0" using assms(1) by (simp add: page_aligned_def take_bit_eq_mod)
  then have "\<not> bit p n" if "n < 12"
    using that by (metis bit_0_eq bit_take_bit_iff bot_apply bot_bool_def)
  moreover have "\<not> bit p n" if "52 \<le> n"
  proof -
    have "take_bit 52 p = p"
      using assms(2) by (simp add: word_unat_eq_iff unsigned_take_bit_eq take_bit_nat_eq_self)
    then show ?thesis using that by (metis bit_take_bit_iff linorder_not_less)
  qed
  ultimately show "bit (frame_of p) n = bit p n"
    by (metis frame_of_bits linorder_not_less)
qed

subsection \<open>Entries in memory\<close>

lemma page_of_offset:
  assumes "page_aligned t" "unat k < 4096"
  shows "page_of (t + k) = page_of t"
proof -
  obtain q where q: "unat t = 4096 * q" using assms(1) by (auto simp: page_aligned_unat mod_eq_0_iff_dvd)
  have "unat t + unat k < 2 ^ 64" using unat64_lt [of t] q assms(2) by simp
  then have "unat (t + k) = 4096 * q + unat k" using q by (subst unat_add_no_wrap) simp_all
  then have "unat (t + k) div 4096 = unat t div 4096" using q assms(2) by simp
  then show ?thesis by (simp add: page_of_def word_unat_eq_iff unat_div)
qed

lemma aligned_page_eq: "page_aligned t \<Longrightarrow> page_aligned u \<Longrightarrow> page_of t = page_of u \<Longrightarrow> t = u"
  unfolding page_aligned_def page_of_def by (metis div_mult_mod_eq)

lemma page_of_iff_near: "page_aligned t \<Longrightarrow> page_of x = page_of t \<longleftrightarrow> unat (x - t) < 4096"
proof
  assume t: "page_aligned t" and eq: "page_of x = page_of t"
  obtain q where q: "unat t = 4096 * q" using t by (auto simp: page_aligned_unat mod_eq_0_iff_dvd)
  have "unat x div 4096 = q"
    using eq q by (simp add: page_of_def word_unat_eq_iff unat_div)
  then have "4096 * q \<le> unat x" "unat x < 4096 * q + 4096" by linarith+
  with q show "unat (x - t) < 4096" by (subst unat_sub_no_wrap) simp_all
next
  assume t: "page_aligned t" and "unat (x - t) < 4096"
  then have "page_of (t + (x - t)) = page_of t" by (rule page_of_offset)
  then show "page_of x = page_of t" by simp
qed

lemma entry_offset: "i < (512 :: u64) \<Longrightarrow> k < 8 \<Longrightarrow> unat (8 * i + of_nat k) < 4096"
proof -
  assume i: "i < 512" and k: "k < 8"
  have u: "unat i < 512" using i by (simp add: word_less_nat_alt)
  have "unat (8 * i) = 8 * unat i" using u by (subst unat_mult_no_wrap) simp_all
  then have "unat (8 * i + of_nat k) = 8 * unat i + k"
    using u k by (subst unat_add_no_wrap) (simp_all add: unat_of_nat_small)
  with u k show ?thesis by simp
qed

lemma page_of_entry:
  assumes "page_aligned t" "i < 512" "k < 8"
  shows "page_of (t + 8 * i + of_nat k) = page_of t"
  using page_of_offset [OF assms(1) entry_offset [OF assms(2,3)]] by (simp add: add.assoc)

lemma entry_cong:
  assumes "page_aligned t" "i < 512" "\<And>x. page_of x = page_of t \<Longrightarrow> m x = m' x"
  shows "entry m t i = entry m' t i"
proof -
  have "m (t + 8 * i + of_nat k) = m' (t + 8 * i + of_nat k)" if "k < 8" for k
    by (rule assms(3)) (rule page_of_entry [OF assms(1,2) that])
  then have "get_bytes m (t + 8 * i) 8 = get_bytes m' (t + 8 * i) 8"
    by (simp add: get_bytes_def del: upt_rec_numeral)
  then show ?thesis by (simp add: entry_def get64_def)
qed

lemma entry_set_entry: "entry (set_entry m t i pde) t i = pde"
  by (simp add: entry_def set_entry_def get64_put64)

lemma apart_8:
  assumes "unat a mod 8 = 0" "unat b mod 8 = 0" "a \<noteq> (b :: u64)"
  shows "apart a 8 b 8"
proof -
  have "unat (b - a) mod 8 = 0"
  proof (cases "unat a \<le> unat b")
    case True
    moreover have "8 dvd unat b - unat a"
      using assms(1,2) by (intro dvd_diff_nat) (simp_all add: mod_eq_0_iff_dvd)
    ultimately show ?thesis by (simp add: unat_sub_no_wrap mod_eq_0_iff_dvd)
  next
    case False
    then have "unat (b - a) = 2 ^ 64 + unat b - unat a" using unat_sub_wrap [of b a] by simp
    moreover have "8 dvd (2 ^ 64 + unat b) - unat a"
      using assms(1,2) by (intro dvd_diff_nat dvd_add) (simp_all add: mod_eq_0_iff_dvd)
    ultimately show ?thesis by (simp only: mod_eq_0_iff_dvd)
  qed
  then obtain k where k: "unat (b - a) = 8 * k" by (auto simp: mod_eq_0_iff_dvd)
  have "b - a \<noteq> 0" using assms(3) by simp
  then have "0 < unat (b - a)" using unat_gt_0 by blast
  moreover have "unat (b - a) < 18446744073709551616" by (rule unat64_lt)
  ultimately have "0 < k" "k < 2305843009213693952" unfolding k by linarith+
  then have "8 \<le> 8 * k" "8 * k + 8 \<le> 18446744073709551616" by linarith+
  then show ?thesis by (simp add: apart_def k)
qed

lemma entry_address_mod_8: "page_aligned t \<Longrightarrow> i < 512 \<Longrightarrow> unat (t + 8 * i) mod 8 = 0"
proof -
  assume t: "page_aligned t" and i: "i < 512"
  obtain q where q: "unat t = 4096 * q" using t by (auto simp: page_aligned_unat mod_eq_0_iff_dvd)
  have u: "unat i < 512" using i by (simp add: word_less_nat_alt)
  have e: "unat (8 * i) = 8 * unat i" using u by (subst unat_mult_no_wrap) simp_all
  have "unat t + unat (8 * i) < 2 ^ 64" using unat64_lt [of t] q u e by simp
  then have "unat (t + 8 * i) = 8 * (512 * q + unat i)" using q e by (subst unat_add_no_wrap) simp_all
  then show ?thesis by simp
qed

lemma entry_address_inj:
  assumes "page_aligned t" "page_aligned u" "i < 512" "j < 512" "t + 8 * i = u + 8 * j"
  shows "t = u \<and> i = j"
proof -
  have "page_of (t + 8 * i) = page_of t" using page_of_entry [OF assms(1,3), of 0] by simp
  moreover have "page_of (u + 8 * j) = page_of u" using page_of_entry [OF assms(2,4), of 0] by simp
  ultimately have "page_of t = page_of u" using assms(5) by metis
  then have "t = u" using assms(1,2) by (simp add: aligned_page_eq)
  then have "t + 8 * i = t + 8 * j" using assms(5) by (simp only:)
  then have e: "8 * i = 8 * j" by (rule add_left_imp_eq)
  have "unat (8 * k) = 8 * unat k" if "k < 512" for k :: u64
  proof -
    have "unat k < 512" using that by (simp add: word_less_nat_alt)
    then show ?thesis by (subst unat_mult_no_wrap) simp_all
  qed
  then have "unat (8 * i) = 8 * unat i" "unat (8 * j) = 8 * unat j" using assms(3,4) by simp_all
  with e have "unat i = unat j" by simp
  with \<open>t = u\<close> show ?thesis by (simp add: word_unat_eq_iff)
qed

lemma entry_set_entry_other:
  assumes "page_aligned t" "page_aligned u" "i < 512" "j < 512" "(u, j) \<noteq> (t, i)"
  shows "entry (set_entry m t i pde) u j = entry m u j"
proof -
  have "t + 8 * i \<noteq> u + 8 * j" using entry_address_inj [OF assms(1-4)] assms(5) by auto
  then have "apart (t + 8 * i) 8 (u + 8 * j) 8"
    using assms by (intro apart_8 entry_address_mod_8)
  then show ?thesis by (simp add: entry_def set_entry_def get64_put64_apart)
qed

lemma set_entry_frame:
  assumes "page_aligned t" "i < 512" "page_of x \<noteq> page_of t"
  shows "set_entry m t i pde x = m x"
proof (rule ccontr)
  assume "\<not> ?thesis"
  then have "\<not> 8 \<le> unat (x - (t + 8 * i))"
    using put64_other [of x "t + 8 * i" m "Value pde"] by (auto simp: set_entry_def)
  then have "unat (x - (t + 8 * i)) < 8" by simp
  then obtain k where "k < 8" "x - (t + 8 * i) = of_nat k" by (metis of_nat_unat ucast_id)
  then have "x = t + 8 * i + of_nat k" by (simp add: algebra_simps)
  with page_of_entry [OF assms(1,2) \<open>k < 8\<close>] assms(3) show False by simp
qed

lemma zeroed_page:
  assumes "page_aligned p"
  shows "page_of x \<noteq> page_of p \<Longrightarrow> k_memset m p 0 0x1000 x = m x"
    and "i < 512 \<Longrightarrow> entry (k_memset m p 0 0x1000) p i = \<lparr>Value = 0\<rparr>"
proof -
  show "page_of x \<noteq> page_of p \<Longrightarrow> k_memset m p 0 0x1000 x = m x"
    using page_of_iff_near [OF assms, of x] by (simp add: k_memset_nth)
  assume i: "i < 512"
  have "entry (k_memset m p 0 0x1000) p i = entry (\<lambda>_. 0) p i"
    using page_of_iff_near [OF assms] by (intro entry_cong assms i) (simp add: k_memset_nth)
  also have "\<dots> = \<lparr>Value = 0\<rparr>" unfolding entry_def get64_def get_bytes_def by code_simp
  finally show "entry (k_memset m p 0 0x1000) p i = \<lparr>Value = 0\<rparr>" .
qed

subsection \<open>The tree of tables\<close>

text \<open>The table, or behind four levels the frame, that a list of indices leads to.\<close>

fun table_at :: "mem \<Rightarrow> u64 \<Rightarrow> u64 list \<Rightarrow> u64 option" where
  "table_at m t [] = Some t"
| "table_at m t (i # is) =
     (if GetFlag (entry m t i) Present then table_at m (push_bit 12 (GetAddress (entry m t i))) is
      else None)"

lemma table_at_append:
  "table_at m t (p @ q) = (case table_at m t p of None \<Rightarrow> None | Some u \<Rightarrow> table_at m u q)"
  by (induction p arbitrary: t) auto

lemma table_at_snoc:
  "table_at m t (p @ [i]) = (case table_at m t p of None \<Rightarrow> None | Some u \<Rightarrow>
     if GetFlag (entry m u i) Present then Some (push_bit 12 (GetAddress (entry m u i))) else None)"
  by (simp add: table_at_append split: option.split)

definition indices_ok :: "u64 list \<Rightarrow> bool" where
  "indices_ok p \<longleftrightarrow> (\<forall>i \<in> set p. i < 512)"

lemma indices_ok_append [simp]: "indices_ok (p @ q) \<longleftrightarrow> indices_ok p \<and> indices_ok q"
  by (auto simp: indices_ok_def)

lemma indices_ok_Cons [simp]: "indices_ok (i # p) \<longleftrightarrow> i < 512 \<and> indices_ok p"
  by (auto simp: indices_ok_def)

lemma indices_ok_Nil [simp]: "indices_ok []"
  by (simp add: indices_ok_def)

definition is_table :: "mem \<Rightarrow> u64 \<Rightarrow> u64 list \<Rightarrow> u64 \<Rightarrow> bool" where
  "is_table m root p t \<longleftrightarrow> indices_ok p \<and> length p \<le> 3 \<and> table_at m root p = Some t"

text \<open>Tables are aligned pages and no table has two places in the tree.\<close>

definition table_tree :: "mem \<Rightarrow> u64 \<Rightarrow> bool" where
  "table_tree m root \<longleftrightarrow>
     (\<forall>p t. is_table m root p t \<longrightarrow> page_aligned t) \<and>
     (\<forall>p q t. is_table m root p t \<longrightarrow> is_table m root q t \<longrightarrow> p = q)"

lemma table_tree_aligned: "table_tree m root \<Longrightarrow> is_table m root p t \<Longrightarrow> page_aligned t"
  unfolding table_tree_def by blast

lemma table_tree_unique:
  "table_tree m root \<Longrightarrow> is_table m root p t \<Longrightarrow> is_table m root q t \<Longrightarrow> p = q"
  unfolding table_tree_def by blast

lemma is_table_prefix:
  assumes "is_table m root (p @ [i]) u"
  obtains t where "is_table m root p t" "i < 512" "GetFlag (entry m t i) Present"
    "u = push_bit 12 (GetAddress (entry m t i))"
  using assms by (auto simp: is_table_def table_at_snoc split: option.splits if_splits)

text \<open>
  A memory that differs in one entry of one table only: paths that do not use the entry lead
  to the same place.
\<close>

lemma table_at_other_entry:
  assumes tree: "table_tree m root" and t: "is_table m root p t"
    and same: "\<And>q u j. is_table m root q u \<Longrightarrow> j < 512 \<Longrightarrow> (u, j) \<noteq> (t, i) \<Longrightarrow> entry m' u j = entry m u j"
    and q: "indices_ok q" "length q \<le> 4" "\<nexists>r. q = p @ i # r"
  shows "table_at m' root q = table_at m root q"
  using q
proof (induction q rule: rev_induct)
  case Nil
  then show ?case by simp
next
  case (snoc j q)
  have "\<nexists>r. q = p @ i # r"
  proof
    assume "\<exists>r. q = p @ i # r"
    then obtain r where "q @ [j] = p @ i # (r @ [j])" by auto
    with snoc.prems(3) show False by blast
  qed
  with snoc have IH: "table_at m' root q = table_at m root q" by simp
  show ?case
  proof (cases "table_at m root q")
    case None
    with IH show ?thesis by (simp add: table_at_snoc)
  next
    case (Some u)
    then have u: "is_table m root q u" using snoc.prems by (simp add: is_table_def)
    have "(u, j) \<noteq> (t, i)"
    proof
      assume "(u, j) = (t, i)"
      then have "q = p" using table_tree_unique [OF tree] t u by auto
      with \<open>(u, j) = (t, i)\<close> snoc.prems(3) show False by simp
    qed
    then have "entry m' u j = entry m u j" using same [OF u] snoc.prems(1) by simp
    with IH Some show ?thesis by (simp add: table_at_snoc)
  qed
qed

text \<open>A new, empty table is linked into the tree.\<close>

lemma table_at_link:
  assumes tree: "table_tree m root" and t: "is_table m root p t" and p: "length p \<le> 2" "i < 512"
    and absent: "\<not> GetFlag (entry m t i) Present"
    and same: "\<And>q u j. is_table m root q u \<Longrightarrow> j < 512 \<Longrightarrow> (u, j) \<noteq> (t, i) \<Longrightarrow> entry m' u j = entry m u j"
    and link: "entry m' t i = link_to pde f" "frame_of f = f"
    and empty: "\<And>j. j < 512 \<Longrightarrow> entry m' f j = \<lparr>Value = 0\<rparr>"
    and q: "indices_ok q" "length q \<le> 4"
  shows "table_at m' root q =
    (if q = p @ [i] then Some f else table_at m root q)"
proof (cases "\<exists>r. q = p @ i # r")
  case False
  then have "table_at m' root q = table_at m root q"
    by (intro table_at_other_entry [OF tree t same q(1,2)]) simp
  with False show ?thesis by auto
next
  case True
  then obtain r where r: "q = p @ i # r" by blast
  have "table_at m' root p = table_at m root p"
    using t p(1) by (intro table_at_other_entry [OF tree t same]) (auto simp: is_table_def)
  then have m'p: "table_at m' root p = Some t" using t by (simp add: is_table_def)
  have old: "table_at m root q = None"
    using t absent by (simp add: r table_at_append is_table_def)
  show ?thesis
  proof (cases r)
    case Nil
    with m'p link show ?thesis by (simp add: r table_at_append)
  next
    case (Cons j r')
    with q(1) have "j < 512" by (simp add: r)
    with empty Cons m'p link old show ?thesis by (simp add: r table_at_append)
  qed
qed

lemma table_tree_link:
  assumes tree: "table_tree m root"
    and new: "\<And>q. indices_ok q \<Longrightarrow> length q \<le> 4 \<Longrightarrow>
        table_at m' root q = (if q = p0 then Some f else table_at m root q)"
    and f: "page_aligned f" "\<And>q. \<not> is_table m root q f"
  shows "table_tree m' root"
proof -
  have iff: "is_table m' root q u \<longleftrightarrow>
      (if q = p0 then indices_ok q \<and> length q \<le> 3 \<and> u = f else is_table m root q u)" for q u
    unfolding is_table_def using new [of q] by auto
  show ?thesis
    unfolding table_tree_def iff
    using f table_tree_aligned [OF tree] table_tree_unique [OF tree] by (metis (full_types))
qed

subsection \<open>Tables and the allocator in one memory\<close>

definition bitmap_page :: "PageFrameAllocator \<Rightarrow> u64 \<Rightarrow> bool" where
  "bitmap_page s i \<longleftrightarrow>
     (\<exists>k \<le> Size (PageBitmap s). i = page_of (Buffer (PageBitmap s) + k))"

definition free_pages :: "PageFrameAllocator \<Rightarrow> u64 set" where
  "free_pages s = {i. i < capacity s \<and> \<not> page_locked s i}"

text \<open>
  What the kernel relies on: the search position skips no free page, page 0, the pages of the
  bitmap and of all tables are locked, tables are no bitmap pages, and the frames the bitmap
  covers fit into the 40 bits of an entry.
\<close>

definition paging_ok :: "PageFrameAllocator \<Rightarrow> u64 \<Rightarrow> bool" where
  "paging_ok s root \<longleftrightarrow>
     low_locked s \<and> page_locked s 0 \<and> unat (capacity s) \<le> 2 ^ 40
     \<and> (\<forall>i. bitmap_page s i \<longrightarrow> page_locked s i)
     \<and> table_tree (pmem s) root
     \<and> (\<forall>p t. is_table (pmem s) root p t \<longrightarrow> page_locked s (page_of t) \<and> \<not> bitmap_page s (page_of t))"

lemma paging_okD:
  assumes "paging_ok s root"
  shows "low_locked s" "page_locked s 0" "unat (capacity s) \<le> 2 ^ 40"
    "bitmap_page s i \<Longrightarrow> page_locked s i" "table_tree (pmem s) root"
    "is_table (pmem s) root p t \<Longrightarrow> page_locked s (page_of t)"
    "is_table (pmem s) root p t \<Longrightarrow> \<not> bitmap_page s (page_of t)"
  using assms unfolding paging_ok_def by blast+

lemma bitmap_byte_index: "i \<le> sz * 8 \<Longrightarrow> i div 8 \<le> (sz :: u64)"
proof -
  assume "i \<le> sz * 8"
  then have "unat i \<le> unat (sz * 8)" by (simp add: word_le_nat_alt)
  also have "\<dots> \<le> unat sz * 8" by (simp add: unat_word_ariths mod_less_eq_dividend)
  finally show ?thesis by (simp add: word_le_nat_alt unat_div)
qed

lemma bitmap_page_byte: "i \<le> Size (PageBitmap s) * 8 \<Longrightarrow> bitmap_page s (page_of (Buffer (PageBitmap s) + i div 8))"
  using bitmap_byte_index unfolding bitmap_page_def by blast

lemma page_locked_mem_upd:
  assumes "\<And>x. bitmap_page s (page_of x) \<Longrightarrow> m x = pmem s x"
  shows "page_locked (s\<lparr>pmem := m\<rparr>) i = page_locked s i"
proof -
  have "m (Buffer (PageBitmap s) + i div 8) = pmem s (Buffer (PageBitmap s) + i div 8)"
    if "i \<le> Size (PageBitmap s) * 8"
    by (rule assms) (rule bitmap_page_byte [OF that])
  then show ?thesis by (auto simp: page_locked_def Bitmap_index_def Bitmap_Get_bit)
qed

lemma bitmap_page_cong: "PageBitmap s = PageBitmap s' \<Longrightarrow> bitmap_page s = bitmap_page s'"
  by (simp add: bitmap_page_def fun_eq_iff)

lemma bitmap_page_mem_upd [simp]: "bitmap_page (s\<lparr>pmem := m\<rparr>) = bitmap_page s"
  by (rule bitmap_page_cong) simp

lemma paging_ok_mem_upd:
  assumes ok: "paging_ok s root"
    and same: "\<And>x. bitmap_page s (page_of x) \<Longrightarrow> m x = pmem s x"
    and tree: "table_tree m root"
    and tables: "\<And>p t. is_table m root p t \<Longrightarrow> page_locked s (page_of t) \<and> \<not> bitmap_page s (page_of t)"
  shows "paging_ok (s\<lparr>pmem := m\<rparr>) root"
proof -
  have lck: "page_locked (s\<lparr>pmem := m\<rparr>) i = page_locked s i" for i
    by (rule page_locked_mem_upd) (rule same)
  show ?thesis
    using paging_okD [OF ok] tree tables
    by (simp add: paging_ok_def lck low_locked_def capacity_def)
qed

lemma free_pages_mem_upd:
  assumes "\<And>x. bitmap_page s (page_of x) \<Longrightarrow> m x = pmem s x"
  shows "free_pages (s\<lparr>pmem := m\<rparr>) = free_pages s"
proof -
  have "page_locked (s\<lparr>pmem := m\<rparr>) i = page_locked s i" for i
    by (rule page_locked_mem_upd) (rule assms)
  then show ?thesis by (simp add: free_pages_def capacity_def)
qed

lemma LockPage_frame:
  assumes "\<not> bitmap_page s (page_of x)"
  shows "pmem (LockPage s a) x = pmem s x"
proof (cases "a div 4096 \<le> Size (PageBitmap s) * 8")
  case True
  then have "x \<noteq> Buffer (PageBitmap s) + a div 4096 div 8"
    using bitmap_page_byte [OF True] assms by blast
  then show ?thesis by (simp add: LockPage_def Let_def case_prod_beta Bitmap_Set_frame)
next
  case False
  then show ?thesis by (simp add: LockPage_def Let_def case_prod_beta)
qed

lemma RequestPage_mem_frame:
  assumes "\<not> bitmap_page s (page_of x)"
  shows "pmem (fst (RequestPage s)) x = pmem s x"
proof (cases s rule: RequestPage_cases)
  case (some i)
  have "\<not> bitmap_page (s\<lparr>pageBitmapIndex := i\<rparr>) (page_of x)"
    using assms by (simp add: bitmap_page_def)
  with some show ?thesis by (simp add: LockPage_frame)
qed simp

text \<open>The part of the invariant that concerns the allocator alone.\<close>

definition allocator_ok :: "PageFrameAllocator \<Rightarrow> bool" where
  "allocator_ok s \<longleftrightarrow> low_locked s \<and> page_locked s 0 \<and> unat (capacity s) \<le> 2 ^ 40
     \<and> (\<forall>i. bitmap_page s i \<longrightarrow> page_locked s i)"

lemma paging_ok_split:
  "paging_ok s root \<longleftrightarrow> allocator_ok s \<and> table_tree (pmem s) root
     \<and> (\<forall>p t. is_table (pmem s) root p t \<longrightarrow> page_locked s (page_of t) \<and> \<not> bitmap_page s (page_of t))"
  by (auto simp: paging_ok_def allocator_ok_def)

text \<open>A page that \<open>RequestPage\<close> hands out is an aligned frame that nothing uses yet.\<close>

lemma RequestPage_fresh:
  assumes ok: "allocator_ok s" and ex: "free_pages s \<noteq> {}"
    and req: "RequestPage s = (s1, f)"
  shows "page_of f \<in> free_pages s" "page_aligned f" "frame_of f = f" "f \<noteq> NULL"
    "\<And>i. page_locked s1 i \<longleftrightarrow> page_locked s i \<or> i = page_of f"
    "PageBitmap s1 = PageBitmap s" "low_locked s1"
proof -
  have D: "low_locked s" "page_locked s 0" "unat (capacity s) \<le> 2 ^ 40"
    using ok by (simp_all add: allocator_ok_def)
  have cap: "unat (capacity s) * 4096 \<le> 2 ^ 64" using D(3) by simp
  have "\<exists>i < capacity s. \<not> page_locked s i" using ex by (auto simp: free_pages_def)
  from RequestPage_least [OF cap D(1) this] req obtain i where
    i: "i < capacity s" "\<not> page_locked s i" "f = i * 4096" "page_of f = i"
       "locked_pages s1 = insert i (locked_pages s)" by auto
  show "page_of f \<in> free_pages s" using i by (simp add: free_pages_def)
  have u: "unat i < 2 ^ 40" using i(1) D(3) by (simp add: word_less_nat_alt)
  then have uf: "unat f = unat i * 4096" unfolding i(3) by (subst unat_mult_no_wrap) simp_all
  then show al: "page_aligned f" by (simp add: page_aligned_unat)
  show "frame_of f = f" using u uf by (intro frame_of_page al) simp
  show "f \<noteq> NULL" using i(2,4) D(2) by (auto simp: page_of_def)
  show "page_locked s1 j \<longleftrightarrow> page_locked s j \<or> j = page_of f" for j
    using i(4,5) by (auto simp: locked_pages_def)
  show "PageBitmap s1 = PageBitmap s" using RequestPage_frame(3) [of s] req by simp
  show "low_locked s1" using RequestPage_low_locked [OF D(1)] req by simp
qed

text \<open>The level step of \<open>MapMemory\<close>: the next table is in the tree, and no translation changes.\<close>

lemma next_table_present:
  assumes "GetFlag (entry (pmem s) t i) Present"
  shows "next_table s t i = (s, push_bit 12 (GetAddress (entry (pmem s) t i)))"
  using assms by (simp add: next_table_def)

lemma next_table_absent:
  assumes "\<not> GetFlag (entry (pmem s) t i) Present" and "RequestPage s = (s1, f)"
  shows "next_table s t i =
    (s1\<lparr>pmem := set_entry (k_memset (pmem s1) f 0 0x1000) t i (link_to (entry (pmem s) t i) f)\<rparr>, f)"
  using assms by (simp add: next_table_def link_to_def)

lemma next_table_fresh:
  assumes ok: "paging_ok s root" and t: "is_table (pmem s) root p t" and p: "length p \<le> 2" "i < 512"
    and ex: "free_pages s \<noteq> {}" and absent: "\<not> GetFlag (entry (pmem s) t i) Present"
    and n: "next_table s t i = (s', t')"
  shows "paging_ok s' root \<and> PageBitmap s' = PageBitmap s
    \<and> (\<forall>q. indices_ok q \<longrightarrow> length q \<le> 4 \<longrightarrow>
         table_at (pmem s') root q = (if q = p @ [i] then Some t' else table_at (pmem s) root q))
    \<and> free_pages s' = free_pages s - {page_of t'} \<and> page_of t' \<in> free_pages s
    \<and> (\<forall>x. page_of x \<noteq> page_of t' \<and> page_of x \<noteq> page_of t \<and> \<not> bitmap_page s (page_of x) \<longrightarrow>
         pmem s' x = pmem s x)"
proof -
  obtain s1 f where req: "RequestPage s = (s1, f)" by (cases "RequestPage s")
  note D = paging_okD [OF ok]
  have "allocator_ok s" using ok by (simp add: paging_ok_split)
  note F = RequestPage_fresh [OF this ex req]
  let ?m2 = "k_memset (pmem s1) f 0 0x1000"
  let ?m3 = "set_entry ?m2 t i (link_to (entry (pmem s) t i) f)"
  have n: "s' = s1\<lparr>pmem := ?m3\<rparr>" "t' = f" using n next_table_absent [OF absent req] by auto
  have tal: "page_aligned t" using t by (rule table_tree_aligned [OF D(5)])
  have bp: "bitmap_page s1 = bitmap_page s" using F(6) by (rule bitmap_page_cong)
  have nl: "\<not> page_locked s (page_of f)" using F(1) by (simp add: free_pages_def)
  have f_new: "\<not> bitmap_page s (page_of f)" "\<And>q u. is_table (pmem s) root q u \<Longrightarrow> page_of u \<noteq> page_of f"
    using nl D(4,6) by (metis (full_types))+
  have keep: "?m3 x = pmem s x" if "page_of x \<noteq> page_of f" "page_of x \<noteq> page_of t" "\<not> bitmap_page s (page_of x)" for x
    using that req RequestPage_mem_frame [of s x] by (simp add: set_entry_frame [OF tal p(2)] zeroed_page [OF F(2)])
  have m2: "entry ?m2 u j = entry (pmem s) u j" if "is_table (pmem s) root q u" "j < 512" for q u j
  proof (rule entry_cong [OF table_tree_aligned [OF D(5) that(1)] that(2)])
    fix x assume "page_of x = page_of u"
    with that(1) f_new(2) D(7) [OF that(1)] show "?m2 x = pmem s x"
      using req RequestPage_mem_frame [of s x] by (simp add: zeroed_page [OF F(2)])
  qed
  have same: "entry ?m3 u j = entry (pmem s) u j"
    if "is_table (pmem s) root q u" "j < 512" "(u, j) \<noteq> (t, i)" for q u j
    using m2 [OF that(1,2)] entry_set_entry_other [OF tal table_tree_aligned [OF D(5) that(1)] p(2) that(2,3)]
    by simp
  have tf: "t \<noteq> f" using f_new(2) [OF t] by auto
  have new: "table_at ?m3 root q = (if q = p @ [i] then Some f else table_at (pmem s) root q)"
    if "indices_ok q" "length q \<le> 4" for q
  proof (rule table_at_link [OF D(5) t p absent same entry_set_entry F(3) _ that])
    fix j :: u64 assume "j < 512"
    then show "entry ?m3 f j = \<lparr>Value = 0\<rparr>"
      using tf by (simp add: entry_set_entry_other [OF tal F(2) p(2)] zeroed_page [OF F(2)])
  qed
  have old_table: "\<not> is_table (pmem s) root q f" for q using f_new(2) by blast
  have tree: "table_tree ?m3 root" by (rule table_tree_link [OF D(5) new F(2) old_table])
  have s1_mem: "?m3 x = pmem s1 x" if "bitmap_page s (page_of x)" for x
  proof -
    have "page_of x \<noteq> page_of f" "page_of x \<noteq> page_of t" using that f_new(1) D(7) [OF t] by auto
    then show ?thesis by (simp add: set_entry_frame [OF tal p(2)] zeroed_page [OF F(2)])
  qed
  then have "page_locked (s1\<lparr>pmem := ?m3\<rparr>) j = page_locked s1 j" for j
    by (intro page_locked_mem_upd) (simp add: bp)
  then have lck: "page_locked s' j \<longleftrightarrow> page_locked s j \<or> j = page_of f" for j
    unfolding n using F(5) by simp
  have bp': "bitmap_page s' = bitmap_page s" using F(6) n by (intro bitmap_page_cong) simp
  have cap: "capacity s' = capacity s" using F(6) n by (simp add: capacity_def)
  have "page_locked s' (page_of u) \<and> \<not> bitmap_page s' (page_of u)" if "is_table ?m3 root q u" for q u
  proof (cases "q = p @ [i]")
    case True
    with that new [of q] have "u = f" by (simp add: is_table_def)
    with f_new(1) show ?thesis by (simp add: lck bp')
  next
    case False
    with that new [of q] have "is_table (pmem s) root q u" by (simp add: is_table_def)
    with D(6,7) show ?thesis by (simp add: lck bp')
  qed
  moreover have "low_locked s'" unfolding low_locked_def
    using F(5,7) lck cap n by (auto simp: low_locked_def F(6) capacity_def)
  moreover have pm: "pmem s' = ?m3" using n by simp
  ultimately have "paging_ok s' root"
    unfolding paging_ok_def cap pm bp' using D(2-4) tree lck bp' by blast
  moreover have "free_pages s' = free_pages s - {page_of f}"
    by (auto simp: free_pages_def lck cap)
  moreover have "\<forall>x. page_of x \<noteq> page_of f \<and> page_of x \<noteq> page_of t \<and> \<not> bitmap_page s (page_of x) \<longrightarrow>
      pmem s' x = pmem s x"
    unfolding pm using keep by blast
  ultimately show ?thesis using new F(1,6) n by simp
qed

lemma finite_free_pages [simp]: "finite (free_pages s)"
  by simp

lemma next_table_correct:
  assumes ok: "paging_ok s root" and t: "is_table (pmem s) root p t" and p: "length p \<le> 2" "i < 512"
    and ex: "free_pages s \<noteq> {}" and n: "next_table s t i = (s', t')"
  shows "paging_ok s' root" "is_table (pmem s') root (p @ [i]) t'"
    "\<And>q. indices_ok q \<Longrightarrow> length q = 4 \<Longrightarrow> table_at (pmem s') root q = table_at (pmem s) root q"
    "card (free_pages s) \<le> Suc (card (free_pages s'))" "PageBitmap s' = PageBitmap s"
proof -
  have pi: "indices_ok (p @ [i])" "length (p @ [i]) \<le> 3" using t p by (auto simp: is_table_def)
  have "paging_ok s' root \<and> is_table (pmem s') root (p @ [i]) t'
    \<and> (\<forall>q. indices_ok q \<longrightarrow> length q = 4 \<longrightarrow> table_at (pmem s') root q = table_at (pmem s) root q)
    \<and> card (free_pages s) \<le> Suc (card (free_pages s')) \<and> PageBitmap s' = PageBitmap s"
  proof (cases "GetFlag (entry (pmem s) t i) Present")
    case True
    with n have "s' = s" "t' = push_bit 12 (GetAddress (entry (pmem s) t i))"
      by (auto simp: next_table_present)
    with True t pi ok show ?thesis by (simp add: is_table_def table_at_snoc)
  next
    case False
    note N = next_table_fresh [OF ok t p ex False n]
    then have "free_pages s' = free_pages s - {page_of t'}" "page_of t' \<in> free_pages s" by blast+
    then have "card (free_pages s) = Suc (card (free_pages s'))"
      by (simp only: card.remove [OF finite_free_pages])
    with N pi p show ?thesis by (auto simp: is_table_def)
  qed
  then show "paging_ok s' root" "is_table (pmem s') root (p @ [i]) t'"
    "\<And>q. indices_ok q \<Longrightarrow> length q = 4 \<Longrightarrow> table_at (pmem s') root q = table_at (pmem s) root q"
    "card (free_pages s) \<le> Suc (card (free_pages s'))" "PageBitmap s' = PageBitmap s" by blast+
qed

subsection \<open>What the tables translate\<close>

text \<open>
  The abstract view: a map from the four indices of an address to a physical frame.
\<close>

definition frame_map :: "mem \<Rightarrow> u64 \<Rightarrow> u64 list \<Rightarrow> u64 option" where
  "frame_map m root q = (if indices_ok q \<and> length q = 4 then table_at m root q else None)"

definition va_path :: "u64 \<Rightarrow> u64 list" where
  "va_path va = (let x = PageMapIndexer_new va in [PDP_i x, PD_i x, PT_i x, P_i x])"

lemma index_less [simp]:
  "PDP_i (PageMapIndexer_new va) < 512" "PD_i (PageMapIndexer_new va) < 512"
  "PT_i (PageMapIndexer_new va) < 512" "P_i (PageMapIndexer_new va) < 512"
proof -
  have "(v :: u64) AND 0x1ff < 512" for v
    using word_and_le1 [of v "0x1ff"] by (simp add: word_le_nat_alt word_less_nat_alt)
  then show "PDP_i (PageMapIndexer_new va) < 512" "PD_i (PageMapIndexer_new va) < 512"
    "PT_i (PageMapIndexer_new va) < 512" "P_i (PageMapIndexer_new va) < 512"
    by (simp_all add: PageMapIndexer_new_def Let_def)
qed

lemma va_path_ok [simp]: "indices_ok (va_path va)" "length (va_path va) = 4"
  by (simp_all add: va_path_def Let_def)

lemma bit_index:
  "bit (P_i (PageMapIndexer_new va)) n \<longleftrightarrow> n < 9 \<and> bit va (12 + n)"
  "bit (PT_i (PageMapIndexer_new va)) n \<longleftrightarrow> n < 9 \<and> bit va (21 + n)"
  "bit (PD_i (PageMapIndexer_new va)) n \<longleftrightarrow> n < 9 \<and> bit va (30 + n)"
  "bit (PDP_i (PageMapIndexer_new va)) n \<longleftrightarrow> n < 9 \<and> bit va (39 + n)"
  unfolding PageMapIndexer_new_def Let_def index_mask
  by (auto simp: bit_and_iff bit_mask_iff bit_drop_bit_eq add.assoc [symmetric])

lemma bits_12_to_47: "12 \<le> n \<Longrightarrow> n < 48 \<Longrightarrow>
  \<exists>k < 9. n = 12 + k \<or> n = 21 + k \<or> n = 30 + k \<or> n = 39 + k" for n :: nat
  by presburger

text \<open>Two addresses share their indices exactly if they agree in bits 12 to 47.\<close>

lemma va_path_eq_iff: "va_path va = va_path vb \<longleftrightarrow> (\<forall>n. 12 \<le> n \<longrightarrow> n < 48 \<longrightarrow> bit va n = bit vb n)"
proof
  assume "va_path va = va_path vb"
  then have "P_i (PageMapIndexer_new va) = P_i (PageMapIndexer_new vb)"
    "PT_i (PageMapIndexer_new va) = PT_i (PageMapIndexer_new vb)"
    "PD_i (PageMapIndexer_new va) = PD_i (PageMapIndexer_new vb)"
    "PDP_i (PageMapIndexer_new va) = PDP_i (PageMapIndexer_new vb)" by (simp_all add: va_path_def Let_def)
  then have "\<forall>k < 9. bit va (12 + k) = bit vb (12 + k) \<and> bit va (21 + k) = bit vb (21 + k)
      \<and> bit va (30 + k) = bit vb (30 + k) \<and> bit va (39 + k) = bit vb (39 + k)"
    using bit_index by metis
  then show "\<forall>n. 12 \<le> n \<longrightarrow> n < 48 \<longrightarrow> bit va n = bit vb n"
    using bits_12_to_47 by metis
next
  assume a: "\<forall>n. 12 \<le> n \<longrightarrow> n < 48 \<longrightarrow> bit va n = bit vb n"
  have "P_i (PageMapIndexer_new va) = P_i (PageMapIndexer_new vb)"
    "PT_i (PageMapIndexer_new va) = PT_i (PageMapIndexer_new vb)"
    "PD_i (PageMapIndexer_new va) = PD_i (PageMapIndexer_new vb)"
    "PDP_i (PageMapIndexer_new va) = PDP_i (PageMapIndexer_new vb)"
    by (rule bit_word_eqI; use a in \<open>auto simp: bit_index\<close>)+
  then show "va_path va = va_path vb" by (simp add: va_path_def Let_def)
qed

text \<open>A leaf entry of a table of the lowest level is rewritten.\<close>

lemma leaf_write:
  fixes pde :: PageDirectoryEntry
  assumes ok: "paging_ok s root" and t: "is_table (pmem s) root p t" and p: "length p = 3" "i < 512"
  defines "m \<equiv> set_entry (pmem s) t i pde"
  shows "paging_ok (s\<lparr>pmem := m\<rparr>) root \<and> free_pages (s\<lparr>pmem := m\<rparr>) = free_pages s
    \<and> frame_map m root = (frame_map (pmem s) root)(p @ [i] :=
        (if GetFlag pde Present then Some (push_bit 12 (GetAddress pde)) else None))"
proof -
  note D = paging_okD [OF ok]
  have tal: "page_aligned t" using t by (rule table_tree_aligned [OF D(5)])
  have same: "entry m u j = entry (pmem s) u j"
    if "is_table (pmem s) root q u" "j < 512" "(u, j) \<noteq> (t, i)" for q u j
    unfolding m_def
    by (rule entry_set_entry_other [OF tal table_tree_aligned [OF D(5) that(1)] p(2) that(2,3)])
  have other: "table_at m root q = table_at (pmem s) root q"
    if "indices_ok q" "length q \<le> 4" "\<nexists>r. q = p @ i # r" for q
    by (rule table_at_other_entry [OF D(5) t same that])
  then have up: "table_at m root q = table_at (pmem s) root q" if "indices_ok q" "length q \<le> 3" for q
    using that p(1) by (intro other) auto
  have tab: "is_table m root q u = is_table (pmem s) root q u" for q u
    using up [of q] by (auto simp: is_table_def)
  have bm: "m x = pmem s x" if "bitmap_page s (page_of x)" for x
    unfolding m_def using that D(7) [OF t] by (intro set_entry_frame [OF tal p(2)]) auto
  have "table_tree m root" using D(5) by (simp add: table_tree_def tab)
  then have "paging_ok (s\<lparr>pmem := m\<rparr>) root"
    using D(6,7) by (intro paging_ok_mem_upd [OF ok bm]) (simp_all add: tab)
  moreover have "free_pages (s\<lparr>pmem := m\<rparr>) = free_pages s" by (rule free_pages_mem_upd) (rule bm)
  moreover have "frame_map m root q = ((frame_map (pmem s) root)(p @ [i] :=
      (if GetFlag pde Present then Some (push_bit 12 (GetAddress pde)) else None))) q" for q
  proof (cases "q = p @ [i]")
    case True
    have "table_at m root p = Some t" using t up [of p] p(1) by (simp add: is_table_def)
    moreover have "entry m t i = pde" by (simp add: m_def entry_set_entry)
    moreover have "indices_ok (p @ [i])" using t p by (simp add: is_table_def)
    ultimately show ?thesis using True p by (simp add: frame_map_def table_at_snoc)
  next
    case False
    have "table_at m root q = table_at (pmem s) root q" if "indices_ok q" "length q = 4"
    proof (rule other)
      show "\<nexists>r. q = p @ i # r"
      proof
        assume "\<exists>r. q = p @ i # r"
        then obtain r where "q = p @ i # r" by blast
        with that(2) p(1) False show False by simp
      qed
    qed (use that in simp_all)
    with False show ?thesis by (simp add: frame_map_def)
  qed
  ultimately show ?thesis by blast
qed

subsection \<open>The operations implement updates of the map\<close>

lemma root_is_table: "is_table m root [] root"
  by (simp add: is_table_def)

lemma frame_map_va:
  "frame_map m root (va_path va) =
     (case table_at m root [PDP_i (PageMapIndexer_new va), PD_i (PageMapIndexer_new va),
        PT_i (PageMapIndexer_new va)] of None \<Rightarrow> None
      | Some t \<Rightarrow> table_at m t [P_i (PageMapIndexer_new va)])"
  using table_at_append [of m root "[PDP_i (PageMapIndexer_new va), PD_i (PageMapIndexer_new va),
      PT_i (PageMapIndexer_new va)]" "[P_i (PageMapIndexer_new va)]"]
  unfolding frame_map_def by (simp only: va_path_ok) (simp add: va_path_def Let_def)

lemma WalkMemory_cases:
  "WalkMemory m root va =
     (case table_at m root [PDP_i (PageMapIndexer_new va), PD_i (PageMapIndexer_new va),
        PT_i (PageMapIndexer_new va)] of None \<Rightarrow> NULL
      | Some t \<Rightarrow> push_bit 12 (GetAddress (entry m t (P_i (PageMapIndexer_new va)))))"
  by (simp add: WalkMemory_def Let_def)

lemma UnmapMemory_cases:
  "UnmapMemory m root va =
     (case table_at m root [PDP_i (PageMapIndexer_new va), PD_i (PageMapIndexer_new va),
        PT_i (PageMapIndexer_new va)] of None \<Rightarrow> m
      | Some t \<Rightarrow> set_entry m t (P_i (PageMapIndexer_new va)) \<lparr>Value = 0\<rparr>)"
  by (simp add: UnmapMemory_def Let_def PDE_Clear_def)

lemma WalkMemory_frame_map:
  "frame_map m root (va_path va) = Some f \<Longrightarrow> WalkMemory m root va = f"
  by (auto simp: frame_map_va WalkMemory_cases split: option.splits if_splits)

lemma MapMemory_step:
  assumes ok: "paging_ok s root" and ex: "3 \<le> card (free_pages s)"
    and map: "MapMemory s root va pa = (s', r)"
  shows "r = va \<and> paging_ok s' root \<and> card (free_pages s) \<le> card (free_pages s') + 3
    \<and> frame_map (pmem s') root = (frame_map (pmem s) root)(va_path va := Some (frame_of pa))
    \<and> WalkMemory (pmem s') root va = frame_of pa"
proof -
  let ?x = "PageMapIndexer_new va"
  obtain s1 t1 where n1: "next_table s root (PDP_i ?x) = (s1, t1)" by fastforce
  obtain s2 t2 where n2: "next_table s1 t1 (PD_i ?x) = (s2, t2)" by fastforce
  obtain s3 t3 where n3: "next_table s2 t2 (PT_i ?x) = (s3, t3)" by fastforce
  have ne: "1 \<le> card (free_pages u) \<Longrightarrow> free_pages u \<noteq> {}" for u by auto
  have c1: "free_pages s \<noteq> {}" using ex by auto
  note N1 = next_table_correct [OF ok root_is_table _ index_less(1) c1 n1, simplified]
  have c2: "free_pages s1 \<noteq> {}" using ex N1(4) by (intro ne) simp
  note N2 = next_table_correct [OF N1(1,2) _ index_less(2) c2 n2, simplified]
  have c3: "free_pages s2 \<noteq> {}" using ex N1(4) N2(4) by (intro ne) simp
  note N3 = next_table_correct [OF N2(1,2) _ index_less(3) c3 n3, simplified]
  let ?pde = "link_to (entry (pmem s3) t3 (P_i ?x)) pa"
  have s': "s' = s3\<lparr>pmem := set_entry (pmem s3) t3 (P_i ?x) ?pde\<rparr>" "r = va"
    using map n1 n2 n3 by (auto simp: MapMemory_def Let_def link_to_def)
  have fm: "frame_map (pmem s3) root = frame_map (pmem s) root"
    using N1(3) N2(3) N3(3) by (auto simp: frame_map_def fun_eq_iff)
  have path: "[PDP_i ?x, PD_i ?x, PT_i ?x] @ [P_i ?x] = va_path va" by (simp add: va_path_def Let_def)
  from leaf_write [OF N3(1,2) _ index_less(4), of va ?pde]
  have "paging_ok s' root \<and> free_pages s' = free_pages s3
    \<and> frame_map (pmem s') root = (frame_map (pmem s3) root)(va_path va := Some (frame_of pa))"
    unfolding s' path [symmetric] by simp
  with fm s'(2) N1(4) N2(4) N3(4) show ?thesis by (simp add: WalkMemory_frame_map)
qed

text \<open>
  C3. \<open>MapMemory\<close> implements the update of the abstract map at one address: with three free
  pages left, the address translates to the frame of the physical address afterwards and a walk
  finds it, every other address translates as before, at most three pages are used up, and
  tables, bitmap and allocator stay consistent.
\<close>

theorem MapMemory_refines:
  assumes ok: "paging_ok s root" and ex: "3 \<le> card (free_pages s)"
    and map: "MapMemory s root va pa = (s', r)"
  shows "r = va \<and> paging_ok s' root \<and> card (free_pages s) \<le> card (free_pages s') + 3
    \<and> frame_map (pmem s') root = (frame_map (pmem s) root)(va_path va := Some (frame_of pa))
    \<and> WalkMemory (pmem s') root va = frame_of pa"
  by (rule MapMemory_step [OF assms])

lemma UnmapMemory_step:
  assumes ok: "paging_ok s root"
  shows "paging_ok (s\<lparr>pmem := UnmapMemory (pmem s) root va\<rparr>) root
    \<and> free_pages (s\<lparr>pmem := UnmapMemory (pmem s) root va\<rparr>) = free_pages s
    \<and> frame_map (UnmapMemory (pmem s) root va) root = (frame_map (pmem s) root)(va_path va := None)
    \<and> WalkMemory (UnmapMemory (pmem s) root va) root va = NULL"
proof (cases "table_at (pmem s) root [PDP_i (PageMapIndexer_new va), PD_i (PageMapIndexer_new va),
        PT_i (PageMapIndexer_new va)]")
  case None
  then have "frame_map (pmem s) root (va_path va) = None" by (simp add: frame_map_va)
  moreover have "UnmapMemory (pmem s) root va = pmem s" "WalkMemory (pmem s) root va = NULL"
    unfolding UnmapMemory_cases WalkMemory_cases using None by simp_all
  ultimately show ?thesis using ok by (simp add: fun_upd_idem)
next
  case (Some t)
  let ?x = "PageMapIndexer_new va" let ?m = "set_entry (pmem s) t (P_i ?x) \<lparr>Value = 0\<rparr>"
  have t: "is_table (pmem s) root [PDP_i ?x, PD_i ?x, PT_i ?x] t" using Some by (simp add: is_table_def)
  have u: "UnmapMemory (pmem s) root va = ?m" using Some by (simp add: UnmapMemory_cases)
  have path: "[PDP_i ?x, PD_i ?x, PT_i ?x] @ [P_i ?x] = va_path va" by (simp add: va_path_def Let_def)
  from leaf_write [OF ok t _ index_less(4), of va "\<lparr>Value = 0\<rparr>"]
  have L: "paging_ok (s\<lparr>pmem := ?m\<rparr>) root \<and> free_pages (s\<lparr>pmem := ?m\<rparr>) = free_pages s
      \<and> frame_map ?m root = (frame_map (pmem s) root)(va_path va := None)"
    unfolding path [symmetric] by simp
  have tal: "page_aligned t" by (rule table_tree_aligned [OF paging_okD(5) [OF ok] t])
  have "table_at ?m root [PDP_i ?x, PD_i ?x, PT_i ?x] = Some t"
  proof -
    have "table_at ?m root [PDP_i ?x, PD_i ?x, PT_i ?x] = table_at (pmem s) root [PDP_i ?x, PD_i ?x, PT_i ?x]"
    proof (rule table_at_other_entry [OF paging_okD(5) [OF ok] t])
      fix q u j
      assume a: "is_table (pmem s) root q u" "j < 512" "(u, j) \<noteq> (t, P_i ?x)"
      show "entry ?m u j = entry (pmem s) u j"
        by (rule entry_set_entry_other [OF tal table_tree_aligned [OF paging_okD(5) [OF ok] a(1)]
              index_less(4) a(2,3)])
    qed simp_all
    with Some show ?thesis by simp
  qed
  then have "WalkMemory ?m root va = push_bit 12 (GetAddress \<lparr>Value = 0\<rparr>)"
    by (simp add: WalkMemory_cases entry_set_entry)
  then have "WalkMemory ?m root va = NULL" by (simp add: GetAddress_def)
  with L u show ?thesis by simp
qed

text \<open>
  C18. \<open>UnmapMemory\<close> removes the address from the map and leaves every other translation alone;
  a walk to the address then finds nothing.
\<close>

theorem UnmapMemory_refines:
  assumes ok: "paging_ok s root"
  shows "paging_ok (s\<lparr>pmem := UnmapMemory (pmem s) root va\<rparr>) root
    \<and> free_pages (s\<lparr>pmem := UnmapMemory (pmem s) root va\<rparr>) = free_pages s
    \<and> frame_map (UnmapMemory (pmem s) root va) root = (frame_map (pmem s) root)(va_path va := None)
    \<and> WalkMemory (UnmapMemory (pmem s) root va) root va = NULL"
  by (rule UnmapMemory_step [OF assms])

lemma frame_of_GetAddress [simp]: "frame_of (push_bit 12 (GetAddress pde)) = push_bit 12 (GetAddress pde)"
  by (rule bit_word_eqI) (auto simp: frame_of_bits bit_push_bit_iff bit_GetAddress)

lemma frame_map_frame:
  assumes "frame_map m root q = Some f"
  shows "frame_of f = f"
proof -
  have q: "length q = 4" "table_at m root q = Some f"
    using assms by (auto simp: frame_map_def split: if_splits)
  then obtain p i where "q = p @ [i]" by (cases q rule: rev_cases) simp_all
  with q show ?thesis by (auto simp: table_at_snoc split: option.splits if_splits)
qed

text \<open>
  C36. \<open>RemapMemory\<close> of a mapped address moves its frame: the old address no longer translates,
  the new one translates to the frame the old one had, and nothing else changes.
\<close>

theorem RemapMemory_refines:
  assumes ok: "paging_ok s root" and ex: "3 \<le> card (free_pages s)"
    and old: "frame_map (pmem s) root (va_path va) = Some f" "f \<noteq> NULL"
    and remap: "RemapMemory s root va vb = (s', r)"
  shows "r = vb \<and> paging_ok s' root
    \<and> frame_map (pmem s') root = (frame_map (pmem s) root)(va_path va := None, va_path vb := Some f)"
proof -
  let ?s1 = "s\<lparr>pmem := UnmapMemory (pmem s) root va\<rparr>"
  note U = UnmapMemory_step [OF ok, of va]
  have m: "MapMemory ?s1 root vb f = (s', r)"
    using remap old WalkMemory_frame_map [OF old(1)] by (simp add: RemapMemory_def)
  have "3 \<le> card (free_pages ?s1)" using ex U by simp
  from MapMemory_step [OF _ this m] U frame_map_frame [OF old(1)] show ?thesis by simp
qed

text \<open>An address that is not mapped is refused, and nothing changes.\<close>

lemma RemapMemory_unmapped:
  "WalkMemory (pmem s) root va = NULL \<Longrightarrow> RemapMemory s root va vb = (s, NULL)"
  by (simp add: RemapMemory_def)

text \<open>
  Out of memory, \<open>MapMemory\<close> does not notice: the level step takes page 0 as the new table,
  erases it, links it into the tree as present and reports success.
\<close>

theorem next_table_out_of_memory:
  assumes ok: "paging_ok s root" and none: "free_pages s = {}"
    and root: "page_of root \<noteq> 0" and bm: "\<not> bitmap_page s 0"
    and absent: "\<not> GetFlag (entry (pmem s) root i) Present" and i: "i < 512"
    and n: "next_table s root i = (s', t')"
  shows "t' = NULL \<and> (\<forall>x. page_of x = 0 \<longrightarrow> pmem s' x = 0)
    \<and> GetFlag (entry (pmem s') root i) Present \<and> GetAddress (entry (pmem s') root i) = 0"
proof -
  obtain s1 f where req: "RequestPage s = (s1, f)" by (cases "RequestPage s")
  have "\<forall>j < capacity s. page_locked s j" using none by (auto simp: free_pages_def)
  from RequestPage_exhausted [OF this] req have f: "f = 0" by simp
  let ?pde = "link_to (entry (pmem s) root i) 0"
  let ?m = "set_entry (k_memset (pmem s1) 0 0 0x1000) root i ?pde"
  have s': "s' = s1\<lparr>pmem := ?m\<rparr>" "t' = 0" using n next_table_absent [OF absent req] f by auto
  have ral: "page_aligned root" by (rule table_tree_aligned [OF paging_okD(5) [OF ok] root_is_table])
  have "?m x = 0" if x: "page_of x = 0" for x
  proof -
    have "page_of (0 :: u64) = 0" by (simp add: page_of_def)
    then have "unat (x - 0) < 4096"
      using page_of_iff_near [of 0 x] x by (simp add: page_aligned_def)
    then have "k_memset (pmem s1) 0 0 0x1000 x = 0" by (simp add: k_memset_nth)
    with root x show ?thesis by (simp add: set_entry_frame [OF ral i])
  qed
  moreover have "entry ?m root i = ?pde" by (rule entry_set_entry)
  moreover have "GetAddress ?pde = 0" by (simp add: link_to_def GetAddress_SetFlag GetAddress_SetAddress)
  ultimately show ?thesis using s' by simp
qed

subsection \<open>Memory that mapping does not touch\<close>

text \<open>A page that is neither free nor part of the bitmap nor a table.\<close>

definition stable_page :: "PageFrameAllocator \<Rightarrow> u64 \<Rightarrow> u64 \<Rightarrow> bool" where
  "stable_page s root i \<longleftrightarrow> i \<notin> free_pages s \<and> \<not> bitmap_page s i
     \<and> (\<forall>p t. is_table (pmem s) root p t \<longrightarrow> page_of t \<noteq> i)"

definition keeps_stable :: "u64 \<Rightarrow> PageFrameAllocator \<Rightarrow> PageFrameAllocator \<Rightarrow> bool" where
  "keeps_stable root s s' \<longleftrightarrow> (\<forall>x. stable_page s root (page_of x) \<longrightarrow>
     stable_page s' root (page_of x) \<and> pmem s' x = pmem s x)"

lemma keeps_stable_refl [simp]: "keeps_stable root s s"
  by (simp add: keeps_stable_def)

lemma keeps_stable_trans: "keeps_stable root s s1 \<Longrightarrow> keeps_stable root s1 s2 \<Longrightarrow> keeps_stable root s s2"
  by (simp add: keeps_stable_def)

lemma next_table_stable:
  assumes ok: "paging_ok s root" and t: "is_table (pmem s) root p t" and p: "length p \<le> 2" "i < 512"
    and ex: "free_pages s \<noteq> {}" and n: "next_table s t i = (s', t')"
  shows "keeps_stable root s s'"
proof (cases "GetFlag (entry (pmem s) t i) Present")
  case True
  with n show ?thesis by (simp add: next_table_present)
next
  case False
  note N = next_table_fresh [OF ok t p ex False n]
  have bp: "bitmap_page s' = bitmap_page s" using N by (intro bitmap_page_cong) blast
  show ?thesis
    unfolding keeps_stable_def
  proof (intro allI impI)
    fix x assume st: "stable_page s root (page_of x)"
    then have x: "page_of x \<notin> free_pages s" "\<not> bitmap_page s (page_of x)"
      "\<And>q u. is_table (pmem s) root q u \<Longrightarrow> page_of u \<noteq> page_of x" by (auto simp: stable_page_def)
    have "page_of t \<noteq> page_of x" by (rule x(3) [OF t])
    with x N have ne: "page_of x \<noteq> page_of t'" "page_of x \<noteq> page_of t" by auto
    have "page_of u \<noteq> page_of x" if "is_table (pmem s') root q u" for q u
    proof (cases "q = p @ [i]")
      case True
      with that N ne(1) show ?thesis by (auto simp: is_table_def)
    next
      case False
      with that N have "is_table (pmem s) root q u" by (auto simp: is_table_def)
      with x(3) show ?thesis by blast
    qed
    then show "stable_page s' root (page_of x) \<and> pmem s' x = pmem s x"
      using N x(1,2) ne bp by (simp add: stable_page_def)
  qed
qed

lemma leaf_tables:
  fixes pde :: PageDirectoryEntry
  assumes ok: "paging_ok s root" and t: "is_table (pmem s) root p t" and p: "length p = 3" "i < 512"
  shows "is_table (set_entry (pmem s) t i pde) root q u = is_table (pmem s) root q u"
proof -
  let ?m = "set_entry (pmem s) t i pde"
  note D = paging_okD [OF ok]
  have tal: "page_aligned t" using t by (rule table_tree_aligned [OF D(5)])
  have same: "entry ?m u j = entry (pmem s) u j"
    if "is_table (pmem s) root q u" "j < 512" "(u, j) \<noteq> (t, i)" for q u j
    by (rule entry_set_entry_other [OF tal table_tree_aligned [OF D(5) that(1)] p(2) that(2,3)])
  have "table_at ?m root q = table_at (pmem s) root q" if "indices_ok q" "length q \<le> 3"
    using that p(1) by (intro table_at_other_entry [OF D(5) t same]) auto
  then show ?thesis by (auto simp: is_table_def)
qed

lemma leaf_stable:
  fixes pde :: PageDirectoryEntry
  assumes ok: "paging_ok s root" and t: "is_table (pmem s) root p t" and p: "length p = 3" "i < 512"
  shows "keeps_stable root s (s\<lparr>pmem := set_entry (pmem s) t i pde\<rparr>)"
  unfolding keeps_stable_def
proof (intro allI impI)
  fix x assume st: "stable_page s root (page_of x)"
  let ?m = "set_entry (pmem s) t i pde"
  note D = paging_okD [OF ok]
  have tal: "page_aligned t" using t by (rule table_tree_aligned [OF D(5)])
  note tab = leaf_tables [OF ok t p, where pde = pde]
  have "page_of t \<noteq> page_of x" using st t unfolding stable_page_def by blast
  then have "?m x = pmem s x" by (intro set_entry_frame [OF tal p(2)]) simp
  moreover have "free_pages (s\<lparr>pmem := ?m\<rparr>) = free_pages s" using leaf_write [OF ok t p] by blast
  ultimately show "stable_page (s\<lparr>pmem := ?m\<rparr>) root (page_of x) \<and> pmem (s\<lparr>pmem := ?m\<rparr>) x = pmem s x"
    using st by (simp add: stable_page_def tab)
qed

lemma MapMemory_stable:
  assumes ok: "paging_ok s root" and ex: "3 \<le> card (free_pages s)"
    and map: "MapMemory s root va pa = (s', r)"
  shows "keeps_stable root s s'"
proof -
  let ?x = "PageMapIndexer_new va"
  obtain s1 t1 where n1: "next_table s root (PDP_i ?x) = (s1, t1)" by fastforce
  obtain s2 t2 where n2: "next_table s1 t1 (PD_i ?x) = (s2, t2)" by fastforce
  obtain s3 t3 where n3: "next_table s2 t2 (PT_i ?x) = (s3, t3)" by fastforce
  have ne: "1 \<le> card (free_pages u) \<Longrightarrow> free_pages u \<noteq> {}" for u by auto
  have c1: "free_pages s \<noteq> {}" using ex by auto
  note N1 = next_table_correct [OF ok root_is_table _ index_less(1) c1 n1, simplified]
  have c2: "free_pages s1 \<noteq> {}" using ex N1(4) by (intro ne) simp
  note N2 = next_table_correct [OF N1(1,2) _ index_less(2) c2 n2, simplified]
  have c3: "free_pages s2 \<noteq> {}" using ex N1(4) N2(4) by (intro ne) simp
  note N3 = next_table_correct [OF N2(1,2) _ index_less(3) c3 n3, simplified]
  have k1: "keeps_stable root s s1"
    by (rule next_table_stable [OF ok root_is_table _ index_less(1) c1 n1]) simp
  have k2: "keeps_stable root s1 s2"
    by (rule next_table_stable [OF N1(1,2) _ index_less(2) c2 n2]) simp
  have k3: "keeps_stable root s2 s3"
    by (rule next_table_stable [OF N2(1,2) _ index_less(3) c3 n3]) simp
  let ?pde = "link_to (entry (pmem s3) t3 (P_i ?x)) pa"
  have s': "s' = s3\<lparr>pmem := set_entry (pmem s3) t3 (P_i ?x) ?pde\<rparr>"
    using map n1 n2 n3 by (auto simp: MapMemory_def Let_def link_to_def)
  have "keeps_stable root s3 s'" unfolding s' by (rule leaf_stable [OF N3(1,2) _ index_less(4)]) simp
  with k1 k2 k3 show ?thesis by (blast intro: keeps_stable_trans)
qed

subsection \<open>Mapping a range\<close>

definition identity_maps :: "u64 \<Rightarrow> nat \<Rightarrow> (u64 list \<Rightarrow> u64 option) \<Rightarrow> u64 list \<Rightarrow> u64 option" where
  "identity_maps ptr n f = fold (\<lambda>k f. f(va_path (ptr + of_nat k * 0x1000) :=
     Some (frame_of (ptr + of_nat k * 0x1000)))) [0..<n] f"

lemma identity_maps_0 [simp]: "identity_maps ptr 0 f = f"
  by (simp add: identity_maps_def)

lemma identity_maps_Suc:
  "identity_maps ptr (Suc n) f = identity_maps (ptr + 0x1000) n (f(va_path ptr := Some (frame_of ptr)))"
proof -
  have "[0..<Suc n] = 0 # map Suc [0..<n]" by (simp add: upt_conv_Cons map_Suc_upt del: upt_Suc)
  then show ?thesis by (simp add: identity_maps_def fold_map o_def algebra_simps del: upt_Suc)
qed

lemma identity_map_loop_maps:
  assumes "paging_ok s root" and "unat ptr + 4096 * n < 2 ^ 64" and "3 * n \<le> card (free_pages s)"
  shows "\<exists>s'. identity_map_loop root (ptr + of_nat n * 0x1000) ptr s = Some s' \<and> paging_ok s' root
    \<and> frame_map (pmem s') root = identity_maps ptr n (frame_map (pmem s) root)
    \<and> keeps_stable root s s' \<and> card (free_pages s) \<le> card (free_pages s') + 3 * n"
  using assms
proof (induction n arbitrary: s ptr)
  case 0
  then show ?case by (simp add: identity_map_loop.simps)
next
  case (Suc n)
  obtain s1 r where m: "MapMemory s root ptr ptr = (s1, r)" by fastforce
  have "3 \<le> card (free_pages s)" using Suc.prems(3) by simp
  note M = MapMemory_step [OF Suc.prems(1) this m] and K = MapMemory_stable [OF Suc.prems(1) this m]
  have u1: "unat (ptr + 0x1000) = unat ptr + 4096"
    using Suc.prems(2) by (subst unat_add_no_wrap) simp_all
  have "3 * n \<le> card (free_pages s1)" using M Suc.prems(3) by simp
  then have "\<exists>s'. identity_map_loop root (ptr + 0x1000 + of_nat n * 0x1000) (ptr + 0x1000) s1 = Some s'
      \<and> paging_ok s' root
      \<and> frame_map (pmem s') root = identity_maps (ptr + 0x1000) n (frame_map (pmem s1) root)
      \<and> keeps_stable root s1 s' \<and> card (free_pages s1) \<le> card (free_pages s') + 3 * n"
    using M u1 Suc.prems(2) by (intro Suc.IH) simp_all
  then obtain s' where
    s': "identity_map_loop root (ptr + 0x1000 + of_nat n * 0x1000) (ptr + 0x1000) s1 = Some s'"
      "paging_ok s' root"
      "frame_map (pmem s') root = identity_maps (ptr + 0x1000) n (frame_map (pmem s1) root)"
      "keeps_stable root s1 s'" "card (free_pages s1) \<le> card (free_pages s') + 3 * n"
    by blast
  have un: "unat (of_nat (Suc n) * 0x1000 :: u64) = 4096 * Suc n"
  proof -
    have "(of_nat (Suc n) * 0x1000 :: u64) = of_nat (4096 * Suc n)" by (simp only: of_nat_mult) simp
    moreover have "unat (of_nat (4096 * Suc n) :: u64) = 4096 * Suc n"
      using Suc.prems(2) by (intro unat_of_nat_small) simp
    ultimately show ?thesis by (simp only:)
  qed
  have "unat (ptr + of_nat (Suc n) * 0x1000) = unat ptr + 4096 * Suc n"
    using Suc.prems(2) un by (subst unat_add_no_wrap) simp_all
  then have lt: "ptr < ptr + of_nat (Suc n) * 0x1000" by (simp add: word_less_nat_alt)
  have e: "ptr + 0x1000 + of_nat n * 0x1000 = ptr + of_nat (Suc n) * 0x1000"
    by (simp add: algebra_simps)
  have "identity_map_loop root (ptr + of_nat (Suc n) * 0x1000) ptr s = Some s'"
    using lt s'(1) m unfolding e by (simp add: identity_map_loop.simps [of _ _ ptr s])
  moreover have "keeps_stable root s s'" using K s'(4) by (rule keeps_stable_trans)
  moreover have "card (free_pages s) \<le> card (free_pages s') + 3 * Suc n" using M s'(5) by simp
  ultimately show ?case using s'(2,3) M by (simp add: identity_maps_Suc)
qed

lemma ROUND_UP_page:
  assumes "unat sz \<le> 2 ^ 64 - 4096"
  shows "unat (ROUND_UP sz 0x1000) = (unat sz + 4095) div 4096 * 4096"
proof (cases "sz mod 0x1000 = 0")
  case True
  then have "unat sz mod 4096 = 0" by (simp add: word_unat_eq_iff unat_mod)
  then obtain q where "unat sz = 4096 * q" by (auto simp: mod_eq_0_iff_dvd)
  with True show ?thesis by (simp add: ROUND_UP_def)
next
  case False
  let ?r = "unat sz mod 4096" let ?q = "unat sz div 4096"
  have r: "0 < ?r" "?r < 4096" using False by (auto simp: word_unat_eq_iff unat_mod)
  have d: "unat sz = 4096 * ?q + ?r" by simp
  have m: "unat (sz - sz mod 0x1000) = 4096 * ?q"
    by (subst unat_sub_no_wrap) (simp_all add: unat_mod minus_mod_eq_mult_div)
  have "4096 * ?q + 4096 < 2 ^ 64"
    using assms d r(1) by linarith
  then have "unat (sz - sz mod 0x1000 + 0x1000) = 4096 * ?q + 4096"
    using m by (subst unat_add_no_wrap) simp_all
  moreover have "(unat sz + 4095) div 4096 = ?q + 1" using d r by linarith
  ultimately show ?thesis using False by (simp add: ROUND_UP_def)
qed

lemma ROUND_UP_range:
  assumes n: "n = (unat sz + 4095) div 4096" and wrap: "unat (address :: u64) + 4096 * n < 2 ^ 64"
  shows "ROUND_UP sz 0x1000 = of_nat n * 0x1000"
proof -
  have "unat sz \<le> 4096 * n" unfolding n by linarith
  then have "unat sz \<le> 2 ^ 64 - 4096"
  proof (cases "4096 * n \<le> 2 ^ 64 - 4096")
    case False
    have "(4096 :: nat) * n < 4096 * 2 ^ 52" using wrap by simp
    then have "n < 2 ^ 52" by simp
    with False show ?thesis by simp
  qed simp
  then have "unat (ROUND_UP sz 0x1000) = 4096 * n" unfolding n by (simp add: ROUND_UP_page)
  then have "of_nat (unat (ROUND_UP sz 0x1000)) = (of_nat (4096 * n) :: u64)" by (rule arg_cong)
  then show ?thesis by (simp add: mult.commute)
qed

lemma identity_map_range:
  assumes ok: "paging_ok s root" and n: "n = (unat sz + 4095) div 4096"
    and wrap: "unat address + 4096 * n < 2 ^ 64" and ex: "3 * n \<le> card (free_pages s)"
  shows "\<exists>s'. IndentityMapMemory_range s root address sz = Some s' \<and> paging_ok s' root
    \<and> frame_map (pmem s') root = identity_maps address n (frame_map (pmem s) root)
    \<and> keeps_stable root s s' \<and> card (free_pages s) \<le> card (free_pages s') + 3 * n"
  unfolding IndentityMapMemory_range_def ROUND_UP_range [OF n wrap]
  by (rule identity_map_loop_maps [OF ok wrap ex])

lemma range_end:
  assumes "unat (ptr :: u64) + 4096 * n < 2 ^ 64"
  shows "unat (ptr + of_nat n * 0x1000) = unat ptr + 4096 * n"
proof -
  have "(of_nat n * 0x1000 :: u64) = of_nat (4096 * n)" by (simp only: of_nat_mult) simp
  moreover have "unat (of_nat (4096 * n) :: u64) = 4096 * n" using assms by (intro unat_of_nat_small) simp
  ultimately have "unat (of_nat n * 0x1000 :: u64) = 4096 * n" by (simp only:)
  then show ?thesis using assms by (subst unat_add_no_wrap) simp_all
qed

lemma page_of_bits: "page_of a = drop_bit 12 a"
  by (simp add: page_of_def drop_bit_eq_div)

lemma high_bits: "unat (a :: u64) < 2 ^ 48 \<Longrightarrow> 48 \<le> n \<Longrightarrow> \<not> bit a n"
proof -
  assume a: "unat a < 2 ^ 48" "48 \<le> n"
  have "take_bit 48 a = a" using a(1) by (simp add: word_unat_eq_iff unsigned_take_bit_eq take_bit_nat_eq_self_iff)
  then have "bit a n = bit (take_bit 48 a) n" by simp
  also have "\<dots> \<longleftrightarrow> n < 48 \<and> bit a n" by (rule bit_take_bit_iff)
  finally show ?thesis using a(2) by simp
qed

lemma va_path_page:
  assumes "unat a < 2 ^ 48" "unat b < 2 ^ 48"
  shows "va_path a = va_path b \<longleftrightarrow> page_of a = page_of b"
proof
  assume e: "va_path a = va_path b"
  show "page_of a = page_of b"
    unfolding page_of_bits
  proof (rule bit_word_eqI)
    fix n
    from e have "12 \<le> 12 + n \<and> 12 + n < 48 \<Longrightarrow> bit a (12 + n) = bit b (12 + n)" by (simp add: va_path_eq_iff)
    then show "bit (drop_bit 12 a) n = bit (drop_bit 12 b) n"
      using high_bits [OF assms(1), of "12 + n"] high_bits [OF assms(2), of "12 + n"]
      by (cases "12 + n < 48") (auto simp: bit_drop_bit_eq)
  qed
next
  assume e: "page_of a = page_of b"
  show "va_path a = va_path b"
    unfolding va_path_eq_iff
  proof (intro allI impI)
    fix n :: nat assume "12 \<le> n" "n < 48"
    have "bit (drop_bit 12 a) (n - 12) = bit (drop_bit 12 b) (n - 12)" using e by (simp add: page_of_bits)
    with \<open>12 \<le> n\<close> show "bit a n = bit b n" by (simp add: bit_drop_bit_eq)
  qed
qed

lemma frame_of_same_page: "page_of a = page_of b \<Longrightarrow> frame_of a = frame_of b"
  by (simp add: frame_of_def page_of_bits)

text \<open>
  A set of addresses that is mapped to itself: each of them translates to its own frame, and every
  translation of another page is as before.
\<close>

definition self_mapped :: "u64 set \<Rightarrow> (u64 list \<Rightarrow> u64 option) \<Rightarrow> (u64 list \<Rightarrow> u64 option) \<Rightarrow> bool" where
  "self_mapped A f g \<longleftrightarrow> (\<forall>x \<in> A. g (va_path x) = Some (frame_of x)) \<and> (\<forall>p. p \<notin> va_path ` A \<longrightarrow> g p = f p)"

definition low48 :: "u64 set" where "low48 = {x. unat x < 2 ^ 48}"

definition bytes_from :: "u64 \<Rightarrow> nat \<Rightarrow> u64 set" where
  "bytes_from a n = {x. unat a \<le> unat x \<and> unat x < unat a + n}"

lemma self_mapped_empty: "self_mapped {} f f"
  by (simp add: self_mapped_def)

lemma self_mapped_Un:
  assumes "self_mapped A f g" "self_mapped B g h" "A \<subseteq> low48" "B \<subseteq> low48"
  shows "self_mapped (A \<union> B) f h"
proof -
  have "h (va_path x) = Some (frame_of x)" if "x \<in> A" for x
  proof (cases "va_path x \<in> va_path ` B")
    case True
    then obtain y where y: "y \<in> B" "va_path x = va_path y" by blast
    then have "page_of x = page_of y" using assms(3,4) that va_path_page [of x y] by (auto simp: low48_def)
    with y assms(2) show ?thesis using frame_of_same_page [of x y] by (simp add: self_mapped_def)
  qed (use assms(1,2) that in \<open>simp add: self_mapped_def\<close>)
  moreover have "h p = f p" if "p \<notin> va_path ` (A \<union> B)" for p
    using that assms(1,2) by (simp add: self_mapped_def image_Un)
  moreover have "\<forall>x \<in> B. h (va_path x) = Some (frame_of x)" using assms(2) by (simp add: self_mapped_def)
  ultimately show ?thesis unfolding self_mapped_def by blast
qed

lemma self_mapped_single: "self_mapped {x} f (f(va_path x := Some (frame_of x)))"
  by (simp add: self_mapped_def)

lemma self_mapped_pages:
  assumes "self_mapped A f g" "A \<subseteq> low48" "B \<subseteq> low48" "page_of ` A = page_of ` B"
  shows "self_mapped B f g"
proof -
  have same: "va_path y = va_path x \<and> frame_of y = frame_of x" if "page_of y = page_of x" "x \<in> A" "y \<in> B" for x y
    using that assms(2,3) va_path_page [of y x] frame_of_same_page [of y x] by (auto simp: low48_def)
  have "g (va_path y) = Some (frame_of y)" if "y \<in> B" for y
  proof -
    have "page_of y \<in> page_of ` A" using imageI [OF that, of page_of] assms(4) by simp
    then obtain x where "x \<in> A" "page_of y = page_of x" by (rule imageE)
    with same [OF this(2,1) that] assms(1) show ?thesis by (simp add: self_mapped_def)
  qed
  moreover have "va_path ` A = va_path ` B"
  proof (intro set_eqI iffI)
    fix p assume "p \<in> va_path ` A"
    then obtain x where x: "x \<in> A" "p = va_path x" by blast
    have "page_of x \<in> page_of ` B" using imageI [OF x(1), of page_of] assms(4) by simp
    then obtain y where "page_of x = page_of y" "y \<in> B" by (rule imageE)
    with same [OF this(1) [symmetric] x(1) this(2)] x(2) show "p \<in> va_path ` B" by (intro image_eqI [of _ _ y]) simp_all
  next
    fix p assume "p \<in> va_path ` B"
    then obtain y where y: "y \<in> B" "p = va_path y" by blast
    have "page_of y \<in> page_of ` A" using imageI [OF y(1), of page_of] assms(4) by simp
    then obtain x where "page_of y = page_of x" "x \<in> A" by (rule imageE)
    with same [OF this y(1)] y(2) show "p \<in> va_path ` A" by (intro image_eqI [of _ _ x]) simp_all
  qed
  ultimately show ?thesis using assms(1) by (simp add: self_mapped_def)
qed

lemma identity_maps_self:
  assumes "unat ptr + 4096 * n \<le> 2 ^ 48"
  shows "self_mapped ((\<lambda>k. ptr + of_nat k * 0x1000) ` {..<n}) f (identity_maps ptr n f)"
  using assms
proof (induction n)
  case 0
  then show ?case by (simp add: self_mapped_empty)
next
  case (Suc n)
  let ?p = "\<lambda>k. ptr + of_nat k * 0x1000 :: u64"
  have low: "?p k \<in> low48" if "k < Suc n" for k
    using that Suc.prems by (simp only: low48_def mem_Collect_eq) (subst range_end, simp_all)
  have "self_mapped (?p ` {..<n} \<union> {?p n}) f ((identity_maps ptr n f)(va_path (?p n) := Some (frame_of (?p n))))"
    using Suc low by (intro self_mapped_Un [OF Suc.IH self_mapped_single]) auto
  moreover have "?p ` {..<Suc n} = ?p ` {..<n} \<union> {?p n}" by (auto simp: lessThan_Suc)
  moreover have "identity_maps ptr (Suc n) f = (identity_maps ptr n f)(va_path (?p n) := Some (frame_of (?p n)))"
    by (simp add: identity_maps_def)
  ultimately show ?case by (simp only:)
qed

text \<open>The pages that the loop visits are those of the range, when the range needs no page more than its size does.\<close>

lemma range_visited:
  assumes n: "n = (sz + 4095) div 4096" and lim: "unat ptr + 4096 * n \<le> 2 ^ 48"
    and fits: "unat ptr mod 4096 + sz \<le> 4096 * n"
  shows "page_of ` ((\<lambda>k. ptr + of_nat k * 0x1000) ` {..<n}) = page_of ` bytes_from ptr sz"
proof -
  have u: "unat (ptr + of_nat k * 0x1000) = unat ptr + 4096 * k" if "k < n" for k
    using that lim by (intro range_end) simp
  have pg: "page_of x = page_of y \<longleftrightarrow> unat x div 4096 = unat y div 4096" for x y
    by (simp add: page_of_def word_unat_eq_iff unat_div)
  have "\<exists>y \<in> bytes_from ptr sz. page_of (ptr + of_nat k * 0x1000) = page_of y" if "k < n" for k
  proof -
    have "k \<le> (sz + 4095) div 4096 - 1" "0 < (sz + 4095) div 4096" using that n by simp_all
    then have "4096 * k < sz" by linarith
    then have "ptr + of_nat k * 0x1000 \<in> bytes_from ptr sz" using u [OF that] by (simp add: bytes_from_def)
    then show ?thesis by blast
  qed
  moreover have "\<exists>k < n. page_of x = page_of (ptr + of_nat k * 0x1000)" if "x \<in> bytes_from ptr sz" for x
  proof -
    define k where "k = unat x div 4096 - unat ptr div 4096"
    have x: "unat ptr \<le> unat x" "unat x < unat ptr + sz" using that by (simp_all add: bytes_from_def)
    have p: "unat ptr = 4096 * (unat ptr div 4096) + unat ptr mod 4096" by simp
    have d: "unat ptr div 4096 \<le> unat x div 4096" using x(1) by (rule div_le_mono)
    have "b < 4096 * (q + n)" if "b < a + sz" "m + sz \<le> 4096 * n" "a = 4096 * q + m" for a b m q :: nat
      using that by (simp add: algebra_simps)
    from this [OF x(2) fits p] have "unat x < 4096 * (unat ptr div 4096 + n)" .
    then have "unat x div 4096 < unat ptr div 4096 + n" by (simp add: less_mult_imp_div_less mult.commute)
    then have k: "k < n" using d by (simp add: k_def)
    have "unat (ptr + of_nat k * 0x1000) div 4096 = unat ptr div 4096 + k" using u [OF k] by simp
    then have "page_of x = page_of (ptr + of_nat k * 0x1000)" using d by (simp only: pg k_def) simp
    with k show ?thesis by blast
  qed
  ultimately show ?thesis by (intro subset_antisym image_subsetI) blast+
qed

lemma identity_maps_range:
  assumes n: "n = (sz + 4095) div 4096" and lim: "unat ptr + 4096 * n \<le> 2 ^ 48"
    and fits: "unat ptr mod 4096 + sz \<le> 4096 * n"
  shows "self_mapped (bytes_from ptr sz) f (identity_maps ptr n f)" "bytes_from ptr sz \<subseteq> low48"
proof -
  have "sz \<le> 4096 * n" unfolding n by linarith
  then show b: "bytes_from ptr sz \<subseteq> low48" using lim by (auto simp: bytes_from_def low48_def)
  have "(\<lambda>k. ptr + of_nat k * 0x1000) ` {..<n} \<subseteq> low48"
  proof -
    have "unat (ptr + of_nat k * 0x1000) < 2 ^ 48" if "k < n" for k
      using that lim by (subst range_end) simp_all
    then show ?thesis by (auto simp: low48_def)
  qed
  from self_mapped_pages [OF identity_maps_self [OF lim] this b range_visited [OF assms]]
  show "self_mapped (bytes_from ptr sz) f (identity_maps ptr n f)" .
qed

text \<open>
  C39. Identity mapping a range below 2 to the 48 that needs no page more than its size does, as a range at the
  start of a page, returns with every address of the range mapped to itself and every other page translated as
  before; it takes at most three pages for each page it maps and leaves all memory alone that is neither free nor
  a table nor the page bitmap.
\<close>

theorem IndentityMapMemory_range_maps:
  assumes ok: "paging_ok s root" and n: "n = (unat sz + 4095) div 4096"
    and fits: "unat address mod 4096 + unat sz \<le> 4096 * n"
    and lim: "unat address + 4096 * n \<le> 2 ^ 48" and ex: "3 * n \<le> card (free_pages s)"
  shows "\<exists>s'. IndentityMapMemory_range s root address sz = Some s' \<and> paging_ok s' root
    \<and> self_mapped (bytes_from address (unat sz)) (frame_map (pmem s) root) (frame_map (pmem s') root)
    \<and> keeps_stable root s s' \<and> card (free_pages s) \<le> card (free_pages s') + 3 * n"
proof -
  have wrap: "unat address + 4096 * n < 2 ^ 64" using lim by simp
  from identity_map_range [OF ok n wrap ex] identity_maps_range(1) [OF n lim fits] show ?thesis by metis
qed

subsection \<open>Examples\<close>

text \<open>
  An allocator of 16 pages with its bitmap in page 3 and an empty root table in page 1. In
  \<open>small_paging\<close> pages 0, 1 and 3 are locked, in \<open>full_paging\<close> all of them.
\<close>

definition bitmap_memory :: "u8 \<Rightarrow> u8 \<Rightarrow> mem" where
  "bitmap_memory b c = (\<lambda>_. 0)(0x3000 := b, 0x3001 := c)"

definition example_paging :: "u8 \<Rightarrow> u8 \<Rightarrow> PageFrameAllocator" where
  "example_paging b c = \<lparr>PageBitmap = \<lparr>Size = 2, Buffer = 0x3000\<rparr>, totalMemory = 0x10000,
     freeMemory = 0, reservedMemory = 0, usedMemory = 0x10000, pageBitmapIndex = 0,
     Initialized = True, memorySizeBytes = 0x10000, pmem = bitmap_memory b c\<rparr>"

definition small_paging :: PageFrameAllocator where
  "small_paging = example_paging 0xD0 0"

definition full_paging :: PageFrameAllocator where
  "full_paging = example_paging 0xFF 0xFF"

lemma example_paging_sel [simp]:
  "pmem (example_paging b c) = bitmap_memory b c"
  "PageBitmap (example_paging b c) = \<lparr>Size = 2, Buffer = 0x3000\<rparr>"
  "pageBitmapIndex (example_paging b c) = 0" "capacity (example_paging b c) = 16"
  by (simp_all add: example_paging_def capacity_def)

lemma small_locked: "page_locked small_paging 0" "page_locked small_paging 1" "page_locked small_paging 3"
  by code_simp+

lemma full_paging_locked: "page_locked full_paging 0" "page_locked full_paging 1" "page_locked full_paging 3"
  by code_simp+

lemma example_bitmap_page: "bitmap_page (example_paging b c) i \<longleftrightarrow> i = 3"
proof -
  have k: "k = 0 \<or> k = 1 \<or> k = 2" if "k \<le> 2" for k :: u64
  proof -
    have "k \<in> set (map of_nat [0..<3])"
      using that by (auto simp: word_le_nat_alt simp del: upt_rec_numeral intro!: image_eqI [of _ _ "unat k"])
    moreover have "map of_nat [0..<3] = [0, 1, 2 :: u64]" by code_simp
    ultimately show ?thesis by simp
  qed
  have p: "page_of (0x3000 + k) = 3" if "k \<le> 2" for k
    using k [OF that] by (elim disjE) (simp_all add: page_of_def)
  show ?thesis
  proof
    assume "i = 3"
    then have "i = page_of (0x3000 + 0)" by (simp add: page_of_def)
    then show "bitmap_page (example_paging b c) i"
      unfolding bitmap_page_def by (intro exI [of _ 0]) simp
  qed (use p in \<open>auto simp: bitmap_page_def\<close>)
qed

lemma example_entry: "i < 512 \<Longrightarrow> entry (bitmap_memory b c) 0x1000 i = \<lparr>Value = 0\<rparr>"
proof -
  assume i: "i < 512"
  have "entry (bitmap_memory b c) 0x1000 i = entry (\<lambda>_. 0) 0x1000 i"
  proof (rule entry_cong [OF _ i])
    fix x assume "page_of x = page_of 0x1000"
    then have "x \<noteq> 0x3000" "x \<noteq> 0x3001" by (auto simp: page_of_def)
    then show "bitmap_memory b c x = 0" by (simp add: bitmap_memory_def)
  qed (simp add: page_aligned_def)
  also have "\<dots> = \<lparr>Value = 0\<rparr>" unfolding entry_def get64_def get_bytes_def by code_simp
  finally show ?thesis .
qed

lemma example_table: "is_table (bitmap_memory b c) 0x1000 p t \<longleftrightarrow> p = [] \<and> t = 0x1000"
  by (cases p) (auto simp: is_table_def example_entry)

lemma example_paging_ok:
  assumes "page_locked (example_paging b c) 0" "page_locked (example_paging b c) 1"
    "page_locked (example_paging b c) 3"
  shows "paging_ok (example_paging b c) 0x1000"
  using assms
  by (auto simp: paging_ok_def low_locked_def example_bitmap_page example_table table_tree_def
      page_aligned_def page_of_def)

lemma small_paging_ok: "paging_ok small_paging 0x1000"
  using small_locked unfolding small_paging_def by (rule example_paging_ok)

lemma full_paging_ok: "paging_ok full_paging 0x1000"
  using full_paging_locked unfolding full_paging_def by (rule example_paging_ok)

lemma small_free: "6 \<le> card (free_pages small_paging)"
proof -
  have "\<not> page_locked small_paging 2" "\<not> page_locked small_paging 4" "\<not> page_locked small_paging 5"
    "\<not> page_locked small_paging 6" "\<not> page_locked small_paging 7" "\<not> page_locked small_paging 8"
    by code_simp+
  then have "{2, 4, 5, 6, 7, 8} \<subseteq> free_pages small_paging" by (simp add: free_pages_def small_paging_def)
  from card_mono [OF _ this] show ?thesis by simp
qed

lemma full_free: "free_pages full_paging = {}"
proof -
  have "\<forall>i \<in> set (map of_nat [0..<16]). page_locked full_paging i" by code_simp
  moreover have "i \<in> set (map of_nat [0..<16])" if "i < 16" for i :: u64
    using that by (auto simp: word_less_nat_alt intro!: image_eqI [of _ _ "unat i"])
  ultimately show ?thesis by (auto simp: free_pages_def full_paging_def)
qed

lemma example_frame_map: "frame_map (bitmap_memory b c) 0x1000 = (\<lambda>_. None)"
proof
  fix q
  show "frame_map (bitmap_memory b c) 0x1000 q = None"
    by (cases q) (auto simp: frame_map_def example_entry)
qed

theorem MapMemory_refines_witness:
  "WalkMemory (pmem (fst (MapMemory small_paging 0x1000 0xFFFF800000001234 0xABC00))) 0x1000
     0xFFFF800000001234 = 0xAB000"
proof -
  have "frame_of 0xABC00 = 0xAB000" by code_simp
  moreover have "3 \<le> card (free_pages small_paging)" using small_free by simp
  ultimately show ?thesis using MapMemory_refines [OF small_paging_ok _ prod.collapse [symmetric]] by auto
qed

theorem UnmapMemory_refines_witness:
  "frame_map (UnmapMemory (pmem small_paging) 0x1000 0x2000) 0x1000 = (\<lambda>_. None)"
  using UnmapMemory_refines [OF small_paging_ok, of "0x2000"] example_frame_map [of "0xD0" 0]
  by (simp add: fun_upd_idem small_paging_def)

text \<open>A state with one mapping, made by the code itself.\<close>

lemma mapped_paging:
  "paging_ok (fst (MapMemory small_paging 0x1000 0x2000 0x5000)) 0x1000
    \<and> 3 \<le> card (free_pages (fst (MapMemory small_paging 0x1000 0x2000 0x5000)))
    \<and> frame_map (pmem (fst (MapMemory small_paging 0x1000 0x2000 0x5000))) 0x1000 = [va_path 0x2000 \<mapsto> 0x5000]"
proof -
  have "frame_of 0x5000 = 0x5000" by code_simp
  moreover have "3 \<le> card (free_pages small_paging)" using small_free by simp
  moreover have "frame_map (pmem small_paging) 0x1000 = (\<lambda>_. None)"
    by (simp add: small_paging_def example_frame_map)
  ultimately show ?thesis
    using MapMemory_step [OF small_paging_ok _ prod.collapse [symmetric], of "0x2000" "0x5000"] small_free
    by simp
qed

theorem RemapMemory_refines_witness:
  "\<exists>s. frame_map (pmem s) 0x1000 (va_path 0x2000) = Some 0x5000
    \<and> frame_map (pmem (fst (RemapMemory s 0x1000 0x2000 0x9000))) 0x1000 = [va_path 0x9000 \<mapsto> 0x5000]"
proof -
  let ?s = "fst (MapMemory small_paging 0x1000 0x2000 0x5000)"
  have "frame_map (pmem ?s) 0x1000 (va_path 0x2000) = Some 0x5000" using mapped_paging by simp
  moreover from this have "frame_map (pmem (fst (RemapMemory ?s 0x1000 0x2000 0x9000))) 0x1000 = [va_path 0x9000 \<mapsto> 0x5000]"
    using RemapMemory_refines [OF _ _ _ _ prod.collapse [symmetric], of ?s "0x1000" "0x2000" "0x5000" "0x9000"]
      mapped_paging by (simp add: fun_upd_twist)
  ultimately show ?thesis by blast
qed

theorem next_table_out_of_memory_witness:
  "snd (next_table full_paging 0x1000 0) = NULL"
  using next_table_out_of_memory [OF full_paging_ok full_free _ _ _ _ prod.collapse [symmetric], of 0]
    example_entry [of 0] by (simp add: page_of_def full_paging_def example_bitmap_page)

theorem IndentityMapMemory_range_maps_witness:
  "\<exists>s'. IndentityMapMemory_range small_paging 0x1000 0x8000 0x1001 = Some s'
    \<and> frame_map (pmem s') 0x1000 (va_path 0x9000) = Some 0x9000
    \<and> frame_map (pmem s') 0x1000 (va_path 0xA000) = None"
proof -
  have *: "frame_of 0x9000 = 0x9000" by code_simp
  have in9: "0x9000 \<in> bytes_from 0x8000 0x1001" by (simp add: bytes_from_def)
  have outA: "va_path 0xA000 \<notin> va_path ` bytes_from 0x8000 0x1001"
  proof
    assume "va_path 0xA000 \<in> va_path ` bytes_from 0x8000 0x1001"
    then obtain x where x: "x \<in> bytes_from 0x8000 0x1001" "va_path 0xA000 = va_path x" by blast
    then have l: "unat x < 0x9001" by (simp add: bytes_from_def)
    with x(2) have "page_of 0xA000 = page_of x" using va_path_page [of "0xA000" x] by simp
    with l show False by (simp add: page_of_def word_unat_eq_iff unat_div)
  qed
  have e: "frame_map (pmem small_paging) 0x1000 = (\<lambda>_. None)"
    by (simp add: small_paging_def example_frame_map)
  obtain s' where "IndentityMapMemory_range small_paging 0x1000 0x8000 0x1001 = Some s'"
    "self_mapped (bytes_from 0x8000 (unat (0x1001 :: u64))) (frame_map (pmem small_paging) 0x1000) (frame_map (pmem s') 0x1000)"
    using IndentityMapMemory_range_maps [OF small_paging_ok refl, where sz = "0x1001" and address = "0x8000"]
      small_free by auto
  then show ?thesis using * in9 outA e unfolding self_mapped_def by auto
qed

end
