(* ===== verification/StableMem.thy ===== *)
theory StableMem
  imports PageTables
begin

section \<open>Memory that mapping leaves alone\<close>

text \<open>
  Tables and devices are read in between calls of the page table code, which changes the same
  memory. This theory says which bytes keep their values over such calls, and how many calls the
  free pages allow; the components that read firmware tables share it.
\<close>

subsection \<open>Room for mappings\<close>

text \<open>
  Room for a number of mappings, each of which may use three pages. The bytes of a set keep
  their values: they lie in pages that are neither free nor tables.
\<close>

definition stable_mem :: "u64 \<Rightarrow> mem \<Rightarrow> u64 set \<Rightarrow> PageFrameAllocator \<Rightarrow> bool" where
  "stable_mem root m cfg s \<longleftrightarrow> (\<forall>x \<in> cfg. stable_page s root (page_of x) \<and> pmem s x = m x)"

definition pages_ready :: "u64 \<Rightarrow> mem \<Rightarrow> u64 set \<Rightarrow> nat \<Rightarrow> PageFrameAllocator \<Rightarrow> bool" where
  "pages_ready root m cfg n s \<longleftrightarrow> paging_ok s root \<and> 3 * n \<le> card (free_pages s) \<and> stable_mem root m cfg s"

lemma pages_ready_less: "pages_ready root m cfg n s \<Longrightarrow> k \<le> n \<Longrightarrow> pages_ready root m cfg k s"
  by (simp add: pages_ready_def)

lemma pages_ready_map:
  assumes "pages_ready root m cfg (Suc n) s"
  shows "pages_ready root m cfg n (fst (MapMemory s root va pa))"
proof -
  obtain s' r where map: "MapMemory s root va pa = (s', r)" by fastforce
  have ok: "paging_ok s root" "3 \<le> card (free_pages s)" using assms by (simp_all add: pages_ready_def)
  from MapMemory_step [OF ok map] MapMemory_stable [OF ok map] assms show ?thesis
    by (auto simp: pages_ready_def stable_mem_def keeps_stable_def map)
qed

lemma pages_ready_frames:
  assumes "pages_ready root m cfg (Suc n) s"
  shows "frame_map (pmem (fst (MapMemory s root va pa))) root
    = (frame_map (pmem s) root)(va_path va := Some (frame_of pa))"
proof -
  obtain s' r where map: "MapMemory s root va pa = (s', r)" by fastforce
  have ok: "paging_ok s root" "3 \<le> card (free_pages s)" using assms by (simp_all add: pages_ready_def)
  from MapMemory_step [OF ok map] show ?thesis by (simp add: map)
qed

lemma pages_ready_mem: "pages_ready root m cfg n s \<Longrightarrow> x \<in> cfg \<Longrightarrow> pmem s x = m x"
  by (simp add: pages_ready_def stable_mem_def)

lemma pages_ready_map_range:
  assumes "pages_ready root m cfg (k + (unat sz + 4095) div 4096) s"
    and "unat address + 4096 * ((unat sz + 4095) div 4096) < 2 ^ 64"
  shows "\<exists>s'. IndentityMapMemory_range s root address sz = Some s' \<and> pages_ready root m cfg k s'
    \<and> frame_map (pmem s') root = identity_maps address ((unat sz + 4095) div 4096) (frame_map (pmem s) root)"
proof -
  let ?n = "(unat sz + 4095) div 4096"
  have ok: "paging_ok s root" "3 * ?n \<le> card (free_pages s)"
    using assms(1) by (simp_all add: pages_ready_def distrib_left)
  from identity_map_range [OF ok(1) refl assms(2) ok(2)] obtain s' where
    s': "IndentityMapMemory_range s root address sz = Some s'" "paging_ok s' root"
      "frame_map (pmem s') root = identity_maps address ?n (frame_map (pmem s) root)" "keeps_stable root s s'" "card (free_pages s) \<le> card (free_pages s') + 3 * ?n" by blast
  have "3 * k \<le> card (free_pages s')" using s'(5) assms(1) by (simp add: pages_ready_def distrib_left)
  with s' assms(1) show ?thesis by (auto simp: pages_ready_def stable_mem_def keeps_stable_def)
qed

lemma pages_ready_subset: "pages_ready root m cfg n s \<Longrightarrow> cfg' \<subseteq> cfg \<Longrightarrow> pages_ready root m cfg' n s"
  by (auto simp: pages_ready_def stable_mem_def)

subsection \<open>Reading the bytes that keep their values\<close>

definition bytes_in :: "u64 set \<Rightarrow> u64 \<Rightarrow> nat \<Rightarrow> bool" where
  "bytes_in cfg a N \<longleftrightarrow> (\<forall>k < N. a + of_nat k \<in> cfg)"

lemma get_bytes_in:
  assumes "\<And>x. x \<in> cfg \<Longrightarrow> m' x = m x" "bytes_in cfg a N" "k + n \<le> N"
  shows "get_bytes m' (a + of_nat k) n = get_bytes m (a + of_nat k) n"
proof (rule nth_equalityI)
  fix i assume "i < length (get_bytes m' (a + of_nat k) n)"
  then have i: "i < n" by simp
  have "k + i < N" using i assms(3) by linarith
  then have "a + of_nat (k + i) \<in> cfg" using assms(2) unfolding bytes_in_def by blast
  then have "a + of_nat k + of_nat i \<in> cfg" by (simp add: add.assoc)
  with i assms(1) show "get_bytes m' (a + of_nat k) n ! i = get_bytes m (a + of_nat k) n ! i"
    by (simp add: get_bytes_nth)
qed simp

subsection \<open>An example machine\<close>

text \<open>
  4096 frames whose first eight are taken, an empty root table in page 1 and the page bitmap in
  page 3; page 2 and everything behind the frames is free for tables and devices.
\<close>

definition machine_memory :: "mem \<Rightarrow> bool" where
  "machine_memory m \<longleftrightarrow> (\<forall>x. page_of x = 1 \<longrightarrow> m x = 0) \<and> (\<forall>x. page_of x = 3 \<and> x \<noteq> 0x3000 \<longrightarrow> m x = 0)
     \<and> m 0x3000 = 0xFF"

definition machine :: "mem \<Rightarrow> PageFrameAllocator" where
  "machine m = (example_paging 0 0)\<lparr>PageBitmap := \<lparr>Size = 512, Buffer = 0x3000\<rparr>, pmem := m\<rparr>"

definition machine_stable :: "u64 set" where
  "machine_stable = {x. page_of x = 2 \<or> 0x1000 \<le> page_of x}"

lemma machine_sel [simp]:
  "pmem (machine m) = m" "PageBitmap (machine m) = \<lparr>Size = 512, Buffer = 0x3000\<rparr>"
  "pageBitmapIndex (machine m) = 0" "capacity (machine m) = 4096"
  by (simp_all add: machine_def example_paging_def capacity_def)

lemma machine_bitmap_byte: "k \<le> 512 \<Longrightarrow> page_of (0x3000 + k) = 3"
proof -
  assume "k \<le> 512"
  then have "page_of (0x3000 + k) = page_of 0x3000"
    by (intro page_of_offset) (simp_all add: page_aligned_unat word_le_nat_alt)
  then show ?thesis by (simp add: page_of_def)
qed

lemma machine_bitmap_page: "bitmap_page (machine m) i \<longleftrightarrow> i = 3"
  using machine_bitmap_byte [of 0] unfolding bitmap_page_def
  by (auto simp: machine_bitmap_byte intro: exI [of _ "0 :: u64"])

lemma machine_free:
  assumes "machine_memory m" "8 \<le> i" "i < 4096"
  shows "\<not> page_locked (machine m) i"
proof -
  have b: "i div 8 \<le> 512" "i div 8 \<noteq> 0"
    using assms(2,3)
    by (auto simp: word_le_nat_alt word_less_nat_alt unat_div word_unat_eq_iff div_eq_0_iff)
  have "m (0x3000 + i div 8) = 0"
    using assms(1) machine_bitmap_byte [OF b(1)] b(2) by (auto simp: machine_memory_def)
  then show ?thesis by (simp add: page_locked_def Bitmap_index_def Bitmap_Get_bit)
qed

lemma machine_locked:
  assumes "machine_memory m"
  shows "page_locked (machine m) 0" "page_locked (machine m) 1" "page_locked (machine m) 2"
    "page_locked (machine m) 3"
  using assms by (simp_all add: machine_memory_def page_locked_def Bitmap_index_def Bitmap_Get_bit)

lemma machine_free_pages:
  assumes "machine_memory m"
  shows "4088 \<le> card (free_pages (machine m))"
proof -
  let ?F = "(\<lambda>k. of_nat k :: u64) ` {8..<4096}"
  have u: "unat (of_nat k :: u64) = k" if "k < 4096" for k using that by (simp add: unat_of_nat_small)
  have inj: "inj_on (\<lambda>k. of_nat k :: u64) {8..<4096}"
    by (rule inj_on_inverseI [where g = unat]) (simp add: u)
  have "?F \<subseteq> free_pages (machine m)"
  proof
    fix x assume "x \<in> ?F"
    then obtain k where k: "x = of_nat k" "8 \<le> k" "k < 4096" by auto
    have "8 \<le> x" "x < 4096" using k u [OF k(3)] by (simp_all add: word_le_nat_alt word_less_nat_alt)
    with machine_free [OF assms this] show "x \<in> free_pages (machine m)" by (simp add: free_pages_def)
  qed
  from card_mono [OF finite_free_pages this] inj show ?thesis by (simp add: card_image)
qed

lemma machine_entry:
  assumes "machine_memory m" "i < 512"
  shows "entry m 0x1000 i = \<lparr>Value = 0\<rparr>"
proof -
  have "entry m 0x1000 i = entry (\<lambda>_. 0) 0x1000 i"
  proof (rule entry_cong [OF _ assms(2)])
    fix x assume "page_of x = page_of 0x1000"
    then show "m x = 0" using assms(1) by (simp add: machine_memory_def page_of_def)
  qed (simp add: page_aligned_def)
  also have "\<dots> = \<lparr>Value = 0\<rparr>" unfolding entry_def get64_def get_bytes_def by code_simp
  finally show ?thesis .
qed

lemma machine_table: "machine_memory m \<Longrightarrow> is_table m 0x1000 p t \<longleftrightarrow> p = [] \<and> t = 0x1000"
  by (cases p) (auto simp: is_table_def machine_entry)

lemma machine_paging_ok: "machine_memory m \<Longrightarrow> paging_ok (machine m) 0x1000"
  using machine_locked [of m]
  by (auto simp: paging_ok_def low_locked_def machine_bitmap_page machine_table table_tree_def
      page_aligned_def page_of_def)

lemma machine_ready:
  assumes "machine_memory m" "n \<le> 1000"
  shows "pages_ready 0x1000 m machine_stable n (machine m)"
proof -
  have "\<not> (0x1000 :: u64) \<le> 3" "\<not> (0x1000 :: u64) \<le> 1" by (simp_all add: word_le_nat_alt)
  moreover have "\<not> i < 4096" if "0x1000 \<le> i" for i :: u64
    using that by (simp add: word_le_nat_alt word_less_nat_alt)
  ultimately have "stable_mem 0x1000 m machine_stable (machine m)"
    using machine_locked(3) [OF assms(1)]
    by (auto simp: stable_mem_def stable_page_def machine_stable_def free_pages_def machine_bitmap_page
        machine_table [OF assms(1)] page_of_def)
  then show ?thesis
    using machine_paging_ok [OF assms(1)] machine_free_pages [OF assms(1)] assms(2) by (simp add: pages_ready_def)
qed

end
