(* ===== verification/Ahci.thy ===== *)
theory Ahci
  imports PageTables
begin

section \<open>The AHCI disk driver (kernel/src/ahci)\<close>

text \<open>
  The registers of the host bus adapter are memory-mapped and change on their own, so accesses
  to them are events of a trace, and a device says what a read returns given everything that
  happened before. The command list, the command tables and the receive area are ordinary memory,
  in the memory of the page frame allocator. Endless polling loops are partial functions: not
  returning is the value \<open>None\<close>.
\<close>

subsection \<open>Registers\<close>

datatype mmio_event = MRead u64 u32 | MWrite u64 u32

type_synonym mmio_trace = "mmio_event list"
type_synonym hba_device = "mmio_trace \<Rightarrow> u64 \<Rightarrow> u32"

text \<open>The registers of a port with their offsets, and those of the adapter that are used.\<close>

datatype HBAPort =
  commandListBase | commandListBaseUpper | fisBaseAddress | fisBaseAddressUpper
  | interruptStatus | interruptEnable | cmdSts | rsv0 | taskFileData | signature
  | sataStatus | sataControl | sataError | sataActive | commandIssue | sataNotification
  | fisSwitchControl

fun HBAPort_offset :: "HBAPort \<Rightarrow> u64" where
  "HBAPort_offset commandListBase = 0"
| "HBAPort_offset commandListBaseUpper = 4"
| "HBAPort_offset fisBaseAddress = 8"
| "HBAPort_offset fisBaseAddressUpper = 12"
| "HBAPort_offset interruptStatus = 16"
| "HBAPort_offset interruptEnable = 20"
| "HBAPort_offset cmdSts = 24"
| "HBAPort_offset rsv0 = 28"
| "HBAPort_offset taskFileData = 32"
| "HBAPort_offset signature = 36"
| "HBAPort_offset sataStatus = 40"
| "HBAPort_offset sataControl = 44"
| "HBAPort_offset sataError = 48"
| "HBAPort_offset sataActive = 52"
| "HBAPort_offset commandIssue = 56"
| "HBAPort_offset sataNotification = 60"
| "HBAPort_offset fisSwitchControl = 64"

definition sizeof_HBAPort :: u64 where "sizeof_HBAPort = 128"
definition portsImplemented_offset :: u64 where "portsImplemented_offset = 12"
definition ports_offset :: u64 where "ports_offset = 256"

definition hba_read :: "hba_device \<Rightarrow> u64 \<Rightarrow> HBAPort \<Rightarrow> mmio_trace \<Rightarrow> u32 \<times> mmio_trace" where
  "hba_read dev port r tr =
     (let a = port + HBAPort_offset r; v = dev tr a in (v, tr @ [MRead a v]))"

definition hba_write :: "u64 \<Rightarrow> HBAPort \<Rightarrow> u32 \<Rightarrow> mmio_trace \<Rightarrow> mmio_trace" where
  "hba_write port r v tr = tr @ [MWrite (port + HBAPort_offset r) v]"

definition HBA_PxCMD_CR :: u32 where "HBA_PxCMD_CR = 0x8000"
definition HBA_PxCMD_FRE :: u32 where "HBA_PxCMD_FRE = 0x0010"
definition HBA_PxCMD_ST :: u32 where "HBA_PxCMD_ST = 0x0001"
definition HBA_PxCMD_FR :: u32 where "HBA_PxCMD_FR = 0x4000"
definition HBA_PxIS_TFES :: u32 where "HBA_PxIS_TFES = push_bit 30 1"
definition ATA_DEV_BUSY :: u32 where "ATA_DEV_BUSY = 0x80"
definition ATA_DEV_DRQ :: u32 where "ATA_DEV_DRQ = 0x08"

subsection \<open>Ports and the driver object\<close>

datatype PortType = None_port | SATA | SEMB | PM | SATAPI

record Port =
  hbaPort :: u64
  portType :: PortType
  buffer :: u64
  portNumber :: u8
  configured :: bool

text \<open>The first \<open>portCount\<close> elements of the array \<open>ports\<close> are a list.\<close>

record AHCIDriver =
  PCIBaseAddress :: u64
  ABAR :: u64
  ports :: "Port list"

definition CheckPortType :: "hba_device \<Rightarrow> u64 \<Rightarrow> mmio_trace \<Rightarrow> PortType \<times> mmio_trace" where
  "CheckPortType dev port tr =
     (let (sata_status, tr) = hba_read dev port sataStatus tr;
          interfacePowerManagement = ucast (drop_bit 8 sata_status mod 0b111) :: u8;
          deviceDetection = ucast (sata_status AND 0b111) :: u8 in
      if deviceDetection \<noteq> 0x3 then (None_port, tr)
      else if interfacePowerManagement \<noteq> 0x1 then (None_port, tr)
      else let (sig, tr) = hba_read dev port signature tr in
        (if sig = 0xEB140101 then SATAPI
         else if sig = 0x00000101 then SATA
         else if sig = 0x96690101 then PM
         else if sig = 0xC33C0101 then SEMB
         else None_port, tr))"

text \<open>\<open>new Port()\<close> clears the object: its buffer is NULL and it is not configured.\<close>

definition AddPort :: "PortType \<Rightarrow> u64 \<Rightarrow> AHCIDriver \<Rightarrow> AHCIDriver" where
  "AddPort t port d =
     d\<lparr>ports := ports d @ [\<lparr>hbaPort = port, portType = t, buffer = NULL,
        portNumber = of_nat (length (ports d)), configured = False\<rparr>]\<rparr>"

definition probe_port :: "hba_device \<Rightarrow> u32 \<Rightarrow> nat \<Rightarrow> AHCIDriver \<times> mmio_trace \<Rightarrow> AHCIDriver \<times> mmio_trace" where
  "probe_port dev portsImplemented i s =
     (case s of (d, tr) \<Rightarrow>
      if bit portsImplemented i then
        let port = ABAR d + ports_offset + of_nat i * sizeof_HBAPort;
            (t, tr) = CheckPortType dev port tr in
        if t = SATA \<or> t = SATAPI then (AddPort t port d, tr) else (d, tr)
      else (d, tr))"

definition ProbePorts :: "hba_device \<Rightarrow> AHCIDriver \<Rightarrow> mmio_trace \<Rightarrow> AHCIDriver \<times> mmio_trace" where
  "ProbePorts dev d tr =
     (let a = ABAR d + portsImplemented_offset; portsImplemented = dev tr a in
      fold (probe_port dev portsImplemented) [0..<32] (d, tr @ [MRead a portsImplemented]))"

subsection \<open>Starting and stopping a port\<close>

partial_function (option) stop_wait :: "hba_device \<Rightarrow> u64 \<Rightarrow> mmio_trace \<Rightarrow> mmio_trace option" where
  "stop_wait dev port tr =
     (let (c1, tr1) = hba_read dev port cmdSts tr in
      if c1 AND HBA_PxCMD_FR \<noteq> 0 then stop_wait dev port tr1
      else let (c2, tr2) = hba_read dev port cmdSts tr1 in
        if c2 AND HBA_PxCMD_CR \<noteq> 0 then stop_wait dev port tr2 else Some tr2)"

definition modify_cmdSts :: "hba_device \<Rightarrow> u64 \<Rightarrow> (u32 \<Rightarrow> u32) \<Rightarrow> mmio_trace \<Rightarrow> mmio_trace" where
  "modify_cmdSts dev port f tr =
     (let (c, tr) = hba_read dev port cmdSts tr in hba_write port cmdSts (f c) tr)"

definition StopCMD :: "hba_device \<Rightarrow> u64 \<Rightarrow> mmio_trace \<Rightarrow> mmio_trace option" where
  "StopCMD dev port tr =
     stop_wait dev port
       (modify_cmdSts dev port (\<lambda>c. c AND NOT HBA_PxCMD_FRE)
         (modify_cmdSts dev port (\<lambda>c. c AND NOT HBA_PxCMD_ST) tr))"

partial_function (option) start_wait :: "hba_device \<Rightarrow> u64 \<Rightarrow> mmio_trace \<Rightarrow> mmio_trace option" where
  "start_wait dev port tr =
     (let (c, tr1) = hba_read dev port cmdSts tr in
      if c AND HBA_PxCMD_CR \<noteq> 0 then start_wait dev port tr1 else Some tr1)"

definition StartCMD :: "hba_device \<Rightarrow> u64 \<Rightarrow> mmio_trace \<Rightarrow> mmio_trace option" where
  "StartCMD dev port tr =
     (case start_wait dev port tr of None \<Rightarrow> None
      | Some tr1 \<Rightarrow> Some (modify_cmdSts dev port (\<lambda>c. c OR HBA_PxCMD_ST)
          (modify_cmdSts dev port (\<lambda>c. c OR HBA_PxCMD_FRE) tr1)))"

subsection \<open>Configuring a port\<close>

text \<open>Offsets in a command header of 32 bytes.\<close>

definition sizeof_HBACommandHeader :: u64 where "sizeof_HBACommandHeader = 32"
definition prdtLength_offset :: u64 where "prdtLength_offset = 2"
definition commandTableBaseAddress_offset :: u64 where "commandTableBaseAddress_offset = 8"
definition commandTableBaseAddressUpper_offset :: u64 where "commandTableBaseAddressUpper_offset = 12"

text \<open>
  The loop over the 32 command headers, with the number of rounds left; the result is false when
  a page is missing.
\<close>

definition put_table :: "u64 \<Rightarrow> nat \<Rightarrow> u64 \<Rightarrow> mem \<Rightarrow> mem" where
  "put_table cmdHeader i cmdTableAddress m =
     (let h = cmdHeader + of_nat i * sizeof_HBACommandHeader;
          address = cmdTableAddress + push_bit 8 (of_nat i);
          m = put32 m (h + commandTableBaseAddress_offset) (ucast address);
          m = put32 m (h + commandTableBaseAddressUpper_offset) (ucast (drop_bit 32 address))
      in k_memset m cmdTableAddress 0 256)"

fun configure_tables :: "u64 \<Rightarrow> nat \<Rightarrow> nat \<Rightarrow> PageFrameAllocator \<Rightarrow> bool \<times> PageFrameAllocator" where
  "configure_tables cmdHeader 0 i s = (True, s)"
| "configure_tables cmdHeader (Suc n) i s =
     (let h = cmdHeader + of_nat i * sizeof_HBACommandHeader;
          s1 = s\<lparr>pmem := put16 (pmem s) (h + prdtLength_offset) 8\<rparr>;
          (s2, cmdTableAddress) = RequestPage s1 in
      if cmdTableAddress = NULL then (False, s2)
      else configure_tables cmdHeader n (i + 1) (s2\<lparr>pmem := put_table cmdHeader i cmdTableAddress (pmem s2)\<rparr>))"

definition Configure ::
  "hba_device \<Rightarrow> Port \<Rightarrow> PageFrameAllocator \<Rightarrow> mmio_trace \<Rightarrow> (bool \<times> Port \<times> PageFrameAllocator \<times> mmio_trace) option" where
  "Configure dev p s tr =
     (let port = hbaPort p in
      case StopCMD dev port tr of None \<Rightarrow> None
      | Some tr \<Rightarrow>
        let (s, newBase) = RequestPage s in
        if newBase = NULL then Some (False, p, s, tr)
        else
          let tr = hba_write port commandListBase (ucast newBase) tr;
              tr = hba_write port commandListBaseUpper (ucast (drop_bit 32 newBase)) tr;
              (clb, tr) = hba_read dev port commandListBase tr;
              s = s\<lparr>pmem := k_memset (pmem s) (ucast clb) 0 1024\<rparr>;
              (s, fisBase) = RequestPage s in
          if fisBase = NULL then Some (False, p, s, tr)
          else
            let tr = hba_write port fisBaseAddress (ucast fisBase) tr;
                tr = hba_write port fisBaseAddressUpper (ucast (drop_bit 32 fisBase)) tr;
                s = s\<lparr>pmem := k_memset (pmem s) fisBase 0 256\<rparr>;
                (lo, tr) = hba_read dev port commandListBase tr;
                (hi, tr) = hba_read dev port commandListBaseUpper tr;
                cmdHeader = ucast lo + push_bit 32 (ucast hi);
                (ok, s) = configure_tables cmdHeader 32 0 s in
            if \<not> ok then Some (False, p, s, tr)
            else case StartCMD dev port tr of None \<Rightarrow> None
                 | Some tr \<Rightarrow> Some (True, p\<lparr>configured := True\<rparr>, s, tr))"

subsection \<open>Reading sectors\<close>

definition FIS_TYPE_REG_H2D :: u8 where "FIS_TYPE_REG_H2D = 0x27"
definition ATA_CMD_READ_DMA_EX :: u8 where "ATA_CMD_READ_DMA_EX = 0x25"
definition sizeof_FIS_REG_H2D :: nat where "sizeof_FIS_REG_H2D = 20"
definition sizeof_HBACommandTable :: u64 where "sizeof_HBACommandTable = 128"
definition sizeof_HBAPRDTEntry :: u64 where "sizeof_HBAPRDTEntry = 16"

text \<open>The first command header: five bits of length, the write bit 6, one descriptor.\<close>

definition prepare_header :: "u64 \<Rightarrow> mem \<Rightarrow> mem" where
  "prepare_header cmdHeader m =
     (let m = m(cmdHeader := (m cmdHeader AND 0xE0) OR of_nat (sizeof_FIS_REG_H2D div 4));
          m = m(cmdHeader := m cmdHeader AND NOT 0x40)
      in put16 m (cmdHeader + prdtLength_offset) 1)"

text \<open>The descriptor: address, 22 bits of byte count and the interrupt bit 31.\<close>

definition prepare_prdt :: "u64 \<Rightarrow> u64 \<Rightarrow> u32 \<Rightarrow> mem \<Rightarrow> mem" where
  "prepare_prdt entry_address buf sectorCount m =
     (let m = put32 m entry_address (ucast buf);
          m = put32 m (entry_address + 4) (ucast (drop_bit 32 buf));
          w = get32 m (entry_address + 12);
          w = (w AND NOT (mask 22)) OR take_bit 22 (push_bit 9 sectorCount - 1);
          m = put32 m (entry_address + 12) w
      in put32 m (entry_address + 12) (get32 m (entry_address + 12) OR push_bit 31 1))"

text \<open>The fields of the register FIS, in the order the code sets them.\<close>

definition prepare_FIS :: "u64 \<Rightarrow> u64 \<Rightarrow> u32 \<Rightarrow> mem \<Rightarrow> mem" where
  "prepare_FIS fis sector sectorCount m =
     (let sectorL = ucast sector :: u32; sectorH = ucast (drop_bit 32 sector) :: u32;
          m = m(fis := FIS_TYPE_REG_H2D);
          m = m(fis + 1 := (m (fis + 1) AND 0x7F) OR push_bit 7 1);
          m = m(fis + 2 := ATA_CMD_READ_DMA_EX);
          m = m(fis + 4 := ucast sectorL);
          m = m(fis + 5 := ucast (drop_bit 8 sectorL));
          m = m(fis + 6 := ucast (drop_bit 16 sectorL));
          m = m(fis + 8 := ucast sectorH);
          m = m(fis + 9 := ucast (drop_bit 8 sectorH));
          m = m(fis + 10 := ucast (drop_bit 16 sectorH));
          m = m(fis + 7 := push_bit 6 1);
          m = m(fis + 12 := ucast (sectorCount AND 0xFF))
      in m(fis + 13 := ucast (drop_bit 8 sectorCount AND 0xFF)))"

text \<open>The wait for the drive: the counter when the loop is left.\<close>

function busy_loop :: "hba_device \<Rightarrow> u64 \<Rightarrow> u64 \<Rightarrow> mmio_trace \<Rightarrow> u64 \<times> mmio_trace" where
  "busy_loop dev port spin tr =
     (let (t, tr1) = hba_read dev port taskFileData tr in
      if t AND (ATA_DEV_BUSY OR ATA_DEV_DRQ) \<noteq> 0 \<and> spin < 1000000
      then busy_loop dev port (spin + 1) tr1 else (spin, tr1))"
  by pat_completeness auto
termination
  by (relation "measure (\<lambda>(d, p, spin, t). 1000000 - unat spin)")
     (auto simp: word_less_nat_alt unat_word_ariths)

declare busy_loop.simps [simp del]

partial_function (option) issue_wait :: "hba_device \<Rightarrow> u64 \<Rightarrow> mmio_trace \<Rightarrow> (bool \<times> mmio_trace) option" where
  "issue_wait dev port tr =
     (let (ci, tr1) = hba_read dev port commandIssue tr in
      if ci = 0 then Some (True, tr1)
      else let (st, tr2) = hba_read dev port interruptStatus tr1 in
        if st AND HBA_PxIS_TFES \<noteq> 0 then Some (False, tr2) else issue_wait dev port tr2)"

text \<open>Command list and command table are addressed by the lower halves of their addresses only.\<close>

definition Read ::
  "hba_device \<Rightarrow> Port \<Rightarrow> u64 \<Rightarrow> u32 \<Rightarrow> mem \<Rightarrow> mmio_trace \<Rightarrow> (bool \<times> mem \<times> mmio_trace) option" where
  "Read dev p sector sectorCount m tr =
     (if buffer p = NULL then Some (False, m, tr)
      else
        let port = hbaPort p;
            tr = hba_write port interruptStatus (- 1) tr;
            (clb, tr) = hba_read dev port commandListBase tr;
            cmdHeader = ucast clb;
            m = prepare_header cmdHeader m;
            commandTable = ucast (get32 m (cmdHeader + commandTableBaseAddress_offset));
            prdtLength = get16 m (cmdHeader + prdtLength_offset);
            m = k_memset m commandTable 0
                  (sizeof_HBACommandTable + word_of_int (sint (ucast prdtLength - 1 :: u32)) * sizeof_HBAPRDTEntry);
            m = prepare_prdt (commandTable + sizeof_HBACommandTable) (buffer p) sectorCount m;
            m = prepare_FIS commandTable sector sectorCount m;
            (spin, tr) = busy_loop dev port 0 tr in
        if spin = 1000000 then Some (False, m, tr)
        else case issue_wait dev port (hba_write port commandIssue 1 tr) of None \<Rightarrow> None
             | Some (ok, tr) \<Rightarrow> Some (ok, m, tr))"

subsection \<open>Loading the driver\<close>

definition BAR5_offset :: u64 where "BAR5_offset = 36"

definition AHCIDriver_new :: "u64 \<Rightarrow> u64 \<Rightarrow> PageFrameAllocator \<Rightarrow> AHCIDriver \<times> PageFrameAllocator" where
  "AHCIDriver_new PML4 pciBaseAddress s =
     (let abar = ucast (get32 (pmem s) (pciBaseAddress + BAR5_offset)) in
      (\<lparr>PCIBaseAddress = pciBaseAddress, ABAR = abar, ports = []\<rparr>, fst (MapMemory s PML4 abar abar)))"

fun configure_ports ::
  "hba_device \<Rightarrow> Port list \<Rightarrow> PageFrameAllocator \<Rightarrow> mmio_trace \<Rightarrow> (Port list \<times> PageFrameAllocator \<times> mmio_trace) option" where
  "configure_ports dev [] s tr = Some ([], s, tr)"
| "configure_ports dev (p # ps) s tr =
     (case Configure dev p s tr of None \<Rightarrow> None
      | Some (ok, p', s, tr) \<Rightarrow>
        (case configure_ports dev ps s tr of None \<Rightarrow> None
         | Some (ps', s, tr) \<Rightarrow> Some (p' # ps', s, tr)))"

definition activate ::
  "hba_device \<Rightarrow> AHCIDriver \<Rightarrow> PageFrameAllocator \<Rightarrow> mmio_trace \<Rightarrow> (bool \<times> AHCIDriver \<times> PageFrameAllocator \<times> mmio_trace) option" where
  "activate dev d s tr =
     (let (d, tr) = ProbePorts dev d tr in
      case configure_ports dev (ports d) s tr of None \<Rightarrow> None
      | Some (ps, s, tr) \<Rightarrow> Some (True, d\<lparr>ports := ps\<rparr>, s, tr))"

subsection \<open>The command a read builds\<close>

text \<open>What the drive reads out of the register FIS: the 48-bit sector number and the count.\<close>

definition fis_lba :: "mem \<Rightarrow> u64 \<Rightarrow> u64" where
  "fis_lba m fis = le_word [m (fis + 4), m (fis + 5), m (fis + 6), m (fis + 8), m (fis + 9), m (fis + 10)]"

definition fis_count :: "mem \<Rightarrow> u64 \<Rightarrow> u16" where
  "fis_count m fis = le_word [m (fis + 12), m (fis + 13)]"

lemma byte_of_halves:
  "k + 8 \<le> 32 \<Longrightarrow> (ucast (drop_bit k (ucast w :: u32)) :: u8) = ucast (drop_bit k (w :: u64))"
  "k + 8 \<le> 32 \<Longrightarrow> (ucast (drop_bit k (ucast (drop_bit 32 w) :: u32)) :: u8) = ucast (drop_bit (32 + k) (w :: u64))"
  by (rule bit_word_eqI; simp add: bit_ucast_iff bit_drop_bit_eq add.assoc)+

lemma low_byte: "(ucast (ucast (w :: u64) :: u32) :: u8) = ucast w"
  by (rule bit_word_eqI) (simp add: bit_ucast_iff)

lemma prepare_FIS_lba:
  "fis_lba (prepare_FIS fis sector n m) fis =
     take_bit 24 sector OR push_bit 24 (take_bit 24 (drop_bit 32 sector))"
proof -
  have "fis_lba (prepare_FIS fis sector n m) fis
      = le_word (le_bytes 3 sector @ le_bytes 3 (drop_bit 32 sector))"
    using byte_of_halves [of 8 sector] byte_of_halves [of 16 sector] low_byte [of sector]
      low_byte [of "drop_bit 32 sector"]
    by (simp add: fis_lba_def prepare_FIS_def Let_def le_bytes_def upt_rec)
  also have "\<dots> = take_bit (8 * 3) sector OR push_bit (8 * 3) (take_bit (8 * 3) (drop_bit 32 sector))"
    by (simp add: le_word_append le_word_le_bytes_take)
  finally show ?thesis by simp
qed

lemma take_bit_24_eq: "take_bit 24 w = w \<longleftrightarrow> (w :: u64) < 2 ^ 24"
  by (simp add: word_unat_eq_iff unsigned_take_bit_eq take_bit_nat_eq_self_iff word_less_nat_alt)

lemma shifted_lba_eq:
  "take_bit 24 w OR push_bit 24 (take_bit 24 (drop_bit 32 w)) = w \<longleftrightarrow> (w :: u64) < 2 ^ 24"
proof
  assume e: "take_bit 24 w OR push_bit 24 (take_bit 24 (drop_bit 32 w)) = w"
  have b: "bit w i \<longleftrightarrow> i < 24 \<and> bit w i \<or> 24 \<le> i \<and> i < 48 \<and> bit w (8 + i)" if "i < 64" for i
    using that by (subst e [symmetric]) (auto simp: bit_simps)
  have hi: "\<not> bit w i" if "24 \<le> i" "i < 64" for i
    using that b [of i] b [of "i + 8"] b [of "i + 16"] b [of "i + 24"] by (auto simp: add.commute)
  have "take_bit 24 w = w"
  proof (rule bit_word_eqI)
    fix i assume "i < LENGTH(64)"
    with hi [of i] show "bit (take_bit 24 w) i = bit w i" by (cases "i < 24") (auto simp: bit_take_bit_iff)
  qed
  then show "w < 2 ^ 24" by (simp only: take_bit_24_eq)
next
  assume "w < 2 ^ 24"
  then have t: "take_bit 24 w = w" by (simp only: take_bit_24_eq)
  then have "\<not> bit w (32 + i)" for i using bit_take_bit_iff [of 24 w "32 + i"] by simp
  then have "take_bit 24 (drop_bit 32 w) = 0" by (intro bit_word_eqI) (simp add: bit_simps)
  with t show "take_bit 24 w OR push_bit 24 (take_bit 24 (drop_bit 32 w)) = w" by simp
qed

lemma prepare_FIS_count: "fis_count (prepare_FIS fis sector n m) fis = ucast n"
proof -
  have m: "(0xFF :: u32) = mask 8" by (simp add: mask_eq_exp_minus_1)
  have b: "(ucast (n AND 0xFF) :: u8) = ucast (ucast n :: u16)"
    "(ucast (drop_bit 8 n AND 0xFF) :: u8) = ucast (drop_bit 8 (ucast n :: u16))"
    unfolding m by (rule bit_word_eqI; simp add: bit_simps)+
  have "fis_count (prepare_FIS fis sector n m) fis = le_word (le_bytes 2 (ucast n :: u16))"
    using b by (simp add: fis_count_def prepare_FIS_def Let_def le_bytes_def upt_rec)
  then show ?thesis by (simp add: le_word_le_bytes)
qed

lemma get32_put32_apart: "apart a 4 b 4 \<Longrightarrow> get32 (put32 m a v) b = get32 m b"
  using get_put_apart [of a "le_bytes 4 v" b 4 m] by (simp add: get32_def put32_def)

lemma get32_upd_other: "4 \<le> unat (x - a) \<Longrightarrow> get32 (m(x := v)) a = get32 m a"
proof -
  assume far: "4 \<le> unat (x - a)"
  have "a + of_nat i \<noteq> x" if "i < 4" for i
  proof
    assume "a + of_nat i = x"
    then have "x - a = of_nat i" by (simp add: algebra_simps)
    then have "unat (x - a) = i" using that by (simp add: unat_of_nat_small)
    with far that show False by simp
  qed
  then have "get_bytes (m(x := v)) a 4 = get_bytes m a 4" by (simp add: get_bytes_def)
  then show ?thesis by (simp add: get32_def)
qed

lemma prepare_FIS_frame:
  "get32 (prepare_FIS fis sector n m) (fis + 128) = get32 m (fis + 128)"
  "get32 (prepare_FIS fis sector n m) (fis + 132) = get32 m (fis + 132)"
  "get32 (prepare_FIS fis sector n m) (fis + 140) = get32 m (fis + 140)"
  by (simp_all add: prepare_FIS_def Let_def get32_upd_other)

lemma prepare_FIS_fixed:
  "prepare_FIS fis sector n m fis = 0x27" "prepare_FIS fis sector n m (fis + 2) = 0x25"
  "bit (prepare_FIS fis sector n m (fis + 1)) 7" "prepare_FIS fis sector n m (fis + 7) = 0x40"
  by (simp_all add: prepare_FIS_def Let_def FIS_TYPE_REG_H2D_def ATA_CMD_READ_DMA_EX_def
      push_bit_eq_mult bit_or_iff)

lemma prepare_prdt_fields:
  "get32 (prepare_prdt e buf n m) e = ucast buf"
  "get32 (prepare_prdt e buf n m) (e + 4) = ucast (drop_bit 32 buf)"
  "take_bit 22 (get32 (prepare_prdt e buf n m) (e + 12)) = take_bit 22 (push_bit 9 n - 1)"
  "bit (get32 (prepare_prdt e buf n m) (e + 12)) 31"
proof -
  have a: "apart (e + 12) 4 e 4" "apart (e + 12) 4 (e + 4) 4" "apart (e + 4) 4 e 4"
    by (simp_all add: apart_def)
  show "get32 (prepare_prdt e buf n m) e = ucast buf"
    "get32 (prepare_prdt e buf n m) (e + 4) = ucast (drop_bit 32 buf)"
    using a by (simp_all add: prepare_prdt_def Let_def get32_put32_apart get32_put32_mem)
  show "take_bit 22 (get32 (prepare_prdt e buf n m) (e + 12)) = take_bit 22 (push_bit 9 n - 1)"
    by (rule bit_word_eqI) (auto simp: prepare_prdt_def Let_def get32_put32_mem bit_simps)
  show "bit (get32 (prepare_prdt e buf n m) (e + 12)) 31"
    by (simp add: prepare_prdt_def Let_def get32_put32_mem bit_simps)
qed

text \<open>The bytes of the command table: the register FIS, and zeros behind it.\<close>

definition read_dma_fis :: "u64 \<Rightarrow> u32 \<Rightarrow> u8 list" where
  "read_dma_fis sector n = [0x27, 0x80, 0x25, 0] @ le_bytes 3 sector @ [0x40] @ le_bytes 3 (drop_bit 32 sector) @
     [0] @ le_bytes 2 (ucast n :: u16)"

lemma count_bytes:
  "(ucast (n AND 0xFF) :: u8) = ucast (ucast n :: u16)"
  "(ucast (drop_bit 8 n AND 0xFF) :: u8) = ucast (drop_bit 8 (ucast n :: u16))" for n :: u32
proof -
  have m: "(0xFF :: u32) = mask 8" by (simp add: mask_eq_exp_minus_1)
  show "(ucast (n AND 0xFF) :: u8) = ucast (ucast n :: u16)"
    "(ucast (drop_bit 8 n AND 0xFF) :: u8) = ucast (drop_bit 8 (ucast n :: u16))"
    unfolding m by (rule bit_word_eqI; simp add: bit_simps)+
qed

lemma prepare_FIS_bytes:
  assumes "m (fis + 1) = 0" "m (fis + 3) = 0" "m (fis + 11) = 0"
  shows "get_bytes (prepare_FIS fis sector n m) fis 14 = read_dma_fis sector n"
  using assms byte_of_halves [of 8 sector] byte_of_halves [of 16 sector] low_byte [of sector]
    low_byte [of "drop_bit 32 sector"] count_bytes [of n]
  by (simp add: get_bytes_def prepare_FIS_def Let_def le_bytes_def upt_rec read_dma_fis_def FIS_TYPE_REG_H2D_def
      ATA_CMD_READ_DMA_EX_def push_bit_eq_mult)

lemma prepare_FIS_other: "14 \<le> unat (x - fis) \<Longrightarrow> prepare_FIS fis sector n m x = m x"
proof -
  assume far: "14 \<le> unat (x - fis)"
  have "x \<noteq> fis + of_nat k" if "k < 14" for k
  proof
    assume "x = fis + of_nat k"
    then have "unat (x - fis) = k" using that by (simp add: unat_of_nat_small)
    with far that show False by simp
  qed
  from this [of 0] this [of 1] this [of 2] this [of 4] this [of 5] this [of 6] this [of 7] this [of 8] this [of 9]
    this [of 10] this [of 12] this [of 13]
  show ?thesis by (simp add: prepare_FIS_def Let_def)
qed

lemma prepare_prdt_other: "16 \<le> unat (x - e) \<Longrightarrow> prepare_prdt e buf n m x = m x"
proof -
  assume far: "16 \<le> unat (x - e)"
  have "4 \<le> unat (x - (e + of_nat k))" if "k \<le> 12" for k
  proof -
    have "unat (x - e - of_nat k) = unat (x - e) - k"
      using far that by (subst unat_sub_no_wrap) (simp_all add: unat_of_nat_small)
    then show ?thesis using far that by (simp add: diff_diff_eq)
  qed
  from this [of 0] this [of 4] this [of 12] show ?thesis
    by (simp add: prepare_prdt_def Let_def put32_def put_bytes_other)
qed

text \<open>Where a read writes: the header, and the command table with its descriptor.\<close>

definition command_memory :: "u64 \<Rightarrow> u64 \<Rightarrow> u64 \<Rightarrow> u64 \<Rightarrow> u32 \<Rightarrow> mem \<Rightarrow> mem" where
  "command_memory ch ct buf sector n m =
     prepare_FIS ct sector n (prepare_prdt (ct + 128) buf n (k_memset (prepare_header ch m) ct 0 128))"

lemma command_memory_other:
  assumes "144 \<le> unat (x - ct)"
  shows "command_memory ch ct buf sector n m x = prepare_header ch m x"
proof -
  have "unat (x - ct - 128) = unat (x - ct) - 128" using assms by (subst unat_sub_no_wrap) simp_all
  then have "16 \<le> unat (x - (ct + 128))" using assms by (simp add: diff_diff_eq)
  with assms show ?thesis
    by (simp add: command_memory_def prepare_FIS_other prepare_prdt_other k_memset_nth)
qed

lemma command_memory_table:
  "get_bytes (command_memory ch ct buf sector n m) ct 128 = read_dma_fis sector n @ replicate 114 0"
proof -
  let ?m = "prepare_prdt (ct + 128) buf n (k_memset (prepare_header ch m) ct 0 128)"
  have z: "?m (ct + of_nat k) = 0" if "k < 128" for k
  proof -
    have "unat (of_nat k - 128 :: u64) = 2 ^ 64 + k - 128"
      using that by (subst unat_sub_wrap) (simp_all add: unat_of_nat_small)
    then have "16 \<le> unat (ct + of_nat k - (ct + 128))" using that by simp
    then show ?thesis using that by (simp add: prepare_prdt_other k_memset_nth unat_of_nat_small)
  qed
  have "get_bytes (command_memory ch ct buf sector n m) ct 14 = read_dma_fis sector n"
    unfolding command_memory_def using z [of 1] z [of 3] z [of 11] by (intro prepare_FIS_bytes) simp_all
  moreover have "command_memory ch ct buf sector n m (ct + of_nat (14 + k)) = 0" if "k < 114" for k
    using z [of "14 + k"] that by (simp add: command_memory_def prepare_FIS_other unat_of_nat_small del: of_nat_add)
  then have "get_bytes (command_memory ch ct buf sector n m) (ct + of_nat 14) 114 = replicate 114 0"
    by (intro nth_equalityI) (simp_all add: get_bytes_def add.assoc)
  moreover have "get_bytes m' ct (14 + 114) = get_bytes m' ct 14 @ get_bytes m' (ct + of_nat 14) 114" for m' :: mem
    by (rule nth_equalityI) (auto simp: get_bytes_def nth_append add.assoc simp flip: of_nat_add)
  from this [of "command_memory ch ct buf sector n m"] calculation show ?thesis by simp
qed

lemma prepare_header_fields:
  "prepare_header ch m ch AND 0x1F = 5" "\<not> bit (prepare_header ch m ch) 6"
  "get16 (prepare_header ch m) (ch + 2) = 1" "get32 (prepare_header ch m) (ch + 8) = get32 m (ch + 8)"
proof -
  let ?b = "(m ch AND 0xE0) OR 5 :: u8"
  let ?m = "m(ch := ?b AND NOT 0x40)"
  have h: "prepare_header ch m = put16 ?m (ch + 2) 1"
    by (simp add: prepare_header_def Let_def sizeof_FIS_REG_H2D_def prdtLength_offset_def)
  have c: "prepare_header ch m ch = ?b AND NOT 0x40"
    unfolding h put16_def by (subst put_bytes_other) simp_all
  have "(((w AND 0xE0) OR 5) AND NOT 0x40) AND 0x1F = 5" for w :: u8
    by (rule bit_word_eqI) (auto simp: bit_simps less_Suc_eq numeral_eq_Suc)
  then show "prepare_header ch m ch AND 0x1F = 5" unfolding c .
  show "\<not> bit (prepare_header ch m ch) 6" unfolding c by (simp add: bit_simps)
  show "get16 (prepare_header ch m) (ch + 2) = 1" unfolding h using get_put_bytes [of "le_bytes 2 (1 :: u16)" ?m "ch + 2"] by (simp add: get16_def put16_def le_word_le_bytes)
  have "apart (ch + 2) 2 (ch + 8) 4" by (simp add: apart_def)
  from get_put_apart [of "ch + 2" "le_bytes 2 (1 :: u16)" "ch + 8" 4 ?m] this
  have "get32 (put16 ?m (ch + 2) 1) (ch + 8) = get32 ?m (ch + 8)" by (simp add: get32_def put16_def)
  then show "get32 (prepare_header ch m) (ch + 8) = get32 m (ch + 8)"
    unfolding h by (simp add: get32_upd_other)
qed

text \<open>The wait for the drive reads the task file until it is neither busy nor asks for data; the wait for the command
  reads the issue register until it is clear, and the interrupt status in between.\<close>

definition busy_reads :: "u64 \<Rightarrow> mmio_trace \<Rightarrow> bool" where
  "busy_reads port evs \<longleftrightarrow> (\<exists>vs v. evs = map (MRead (port + 32)) (vs @ [v]) \<and> (\<forall>w \<in> set vs. w AND 0x88 \<noteq> 0) \<and>
     v AND 0x88 = 0 \<and> length vs < 1000000)"

definition completion_reads :: "u64 \<Rightarrow> mmio_trace \<Rightarrow> bool" where
  "completion_reads port evs \<longleftrightarrow> (\<exists>cs. evs = concat (map (\<lambda>(c, s). [MRead (port + 56) c, MRead (port + 16) s]) cs) @
     [MRead (port + 56) 0] \<and> (\<forall>(c, s) \<in> set cs. c \<noteq> 0 \<and> \<not> bit s 30))"

lemma busy_loop_reads:
  assumes "busy_loop dev port spin tr = (spin', tr')" "unat spin \<le> 1000000" "spin' \<noteq> 1000000"
  shows "\<exists>vs v. tr' = tr @ map (MRead (port + 32)) (vs @ [v]) \<and> (\<forall>w \<in> set vs. w AND 0x88 \<noteq> 0) \<and> v AND 0x88 = 0 \<and>
    length vs + unat spin < 1000000"
  using assms
proof (induction dev port spin tr rule: busy_loop.induct)
  case (1 dev port spin tr)
  let ?v = "dev tr (port + 32)" let ?tr = "tr @ [MRead (port + 32) ?v]"
  have mask: "ATA_DEV_BUSY OR ATA_DEV_DRQ = 0x88" by (simp add: ATA_DEV_BUSY_def ATA_DEV_DRQ_def)
  have unfold: "busy_loop dev port spin tr =
      (if ?v AND 0x88 \<noteq> 0 \<and> spin < 1000000 then busy_loop dev port (spin + 1) ?tr else (spin, ?tr))"
    by (subst busy_loop.simps) (simp add: hba_read_def Let_def mask)
  have h: "hba_read dev port taskFileData tr = (?v, ?tr)" by (simp add: hba_read_def Let_def)
  show ?case
  proof (cases "?v AND 0x88 \<noteq> 0 \<and> spin < 1000000")
    case True
    then have s: "unat (spin + 1) = Suc (unat spin)" using unat_add_1_less [of spin 1000000] by blast
    have "unat spin < 1000000" using True by (simp add: word_less_nat_alt)
    then have "\<exists>vs v. tr' = ?tr @ map (MRead (port + 32)) (vs @ [v]) \<and> (\<forall>w \<in> set vs. w AND 0x88 \<noteq> 0) \<and> v AND 0x88 = 0 \<and>
        length vs + unat (spin + 1) < 1000000"
      using "1.IH" [OF refl h [symmetric]] "1.prems" True s unfold by (simp add: mask)
    then obtain vs v where "tr' = ?tr @ map (MRead (port + 32)) (vs @ [v])" "\<forall>w \<in> set vs. w AND 0x88 \<noteq> 0" "v AND 0x88 = 0"
        "length vs + unat (spin + 1) < 1000000" by blast
    then show ?thesis using True s by (intro exI [of _ "?v # vs"] exI [of _ v]) simp
  next
    case False
    then have e: "spin' = spin" "tr' = ?tr" using "1.prems"(1) unfolding unfold if_not_P [OF False] by simp_all
    have "unat spin \<noteq> 1000000" using "1.prems"(3) e(1) by (auto simp: word_unat_eq_iff)
    then have lt: "unat spin < 1000000" using "1.prems"(2) by simp
    then have "?v AND 0x88 = 0" using False by (simp add: word_less_nat_alt)
    then show ?thesis using e(2) lt by (intro exI [of _ "[]"] exI [of _ ?v]) simp
  qed
qed

lemma issue_wait_reads:
  "issue_wait dev port tr = Some r \<Longrightarrow> fst r \<longrightarrow> (\<exists>evs. snd r = tr @ evs \<and> completion_reads port evs)"
proof (induction rule: issue_wait.raw_induct [rotated 1, consumes 1])
  case (1 issue_wait dev port tr r)
  let ?c = "dev tr (port + 56)" let ?tr1 = "tr @ [MRead (port + 56) ?c]"
  let ?s = "dev ?tr1 (port + 16)" let ?tr2 = "?tr1 @ [MRead (port + 16) ?s]"
  have r: "(if ?c = 0 then Some (True, ?tr1) else if ?s AND HBA_PxIS_TFES \<noteq> 0 then Some (False, ?tr2)
      else issue_wait dev port ?tr2) = Some r"
    using 1(2) by (simp add: hba_read_def Let_def cong: if_cong)
  show ?case
  proof
    assume t: "fst r"
    show "\<exists>evs. snd r = tr @ evs \<and> completion_reads port evs"
    proof (cases "?c = 0")
      case True
      moreover have "completion_reads port [MRead (port + 56) 0]"
        unfolding completion_reads_def by (intro exI [of _ "[]"]) simp
      ultimately show ?thesis using r by auto
    next
      case False
      with r t have i: "issue_wait dev port ?tr2 = Some r" and s: "?s AND HBA_PxIS_TFES = 0" by (auto split: if_splits)
      from 1(1) [OF i] t obtain evs cs where e: "snd r = ?tr2 @ evs"
        "evs = concat (map (\<lambda>(c, s). [MRead (port + 56) c, MRead (port + 16) s]) cs) @ [MRead (port + 56) 0]"
        "\<forall>(c, s) \<in> set cs. c \<noteq> 0 \<and> \<not> bit s 30"
        by (auto simp: completion_reads_def)
      have "\<not> bit ?s 30"
      proof
        assume "bit ?s 30"
        then have "bit (?s AND HBA_PxIS_TFES) 30" by (simp add: HBA_PxIS_TFES_def bit_simps)
        with s show False by simp
      qed
      with e False show ?thesis
        unfolding completion_reads_def
        by (intro exI [of _ "[MRead (port + 56) ?c, MRead (port + 16) ?s] @ evs"] conjI exI [of _ "(?c, ?s) # cs"]) auto
    qed
  qed
qed

lemma prdt_count:
  "unat (take_bit 22 (push_bit 9 n - 1)) + 1 = 512 * unat n \<longleftrightarrow> 1 \<le> unat n \<and> unat n \<le> 8192" for n :: u32
proof -
  let ?c = "unat (take_bit 22 (push_bit 9 n - 1) :: u32)"
  have lt: "?c < 2 ^ 22" unfolding unsigned_take_bit_eq by (rule take_bit_nat_less_exp)
  show ?thesis
  proof
    assume "?c + 1 = 512 * unat n"
    with lt show "1 \<le> unat n \<and> unat n \<le> 8192" by simp
  next
    assume n: "1 \<le> unat n \<and> unat n \<le> 8192"
    have "push_bit 9 n = 512 * n" by (simp add: push_bit_eq_mult mult.commute)
    moreover have "unat (512 * n) = 512 * unat n" using n by (subst unat_mult_no_wrap) simp_all
    ultimately have u: "unat (push_bit 9 n) = 512 * unat n" by simp
    then have "unat (push_bit 9 n - 1) = 512 * unat n - 1" using n by (subst unat_sub_no_wrap) simp_all
    moreover have "take_bit 22 (512 * unat n - 1) = 512 * unat n - 1"
    proof (rule take_bit_nat_eq_self)
      have "512 * unat n \<le> 4194304" "0 < 512 * unat n" using n by simp_all
      then show "512 * unat n - 1 < 2 ^ 22" by simp
    qed
    ultimately have "?c = 512 * unat n - 1" by (simp add: unsigned_take_bit_eq)
    then show "?c + 1 = 512 * unat n" using n by simp
  qed
qed

lemma fis_count_exact: "unat (ucast n :: u16) = unat n \<longleftrightarrow> unat n < 2 ^ 16" for n :: u32
  by (simp add: unsigned_ucast_eq take_bit_nat_eq_self_iff)

text \<open>A successful read has gone through all steps.\<close>

lemma Read_steps:
  assumes "Read dev p sector n m tr = Some (True, m', tr')"
    and "clb = dev (tr @ [MWrite (hbaPort p + 16) (- 1)]) (hbaPort p)" "ch = ucast clb" "ct = ucast (get32 m (ch + 8))"
  shows "buffer p \<noteq> NULL" "m' = command_memory ch ct (buffer p) sector n m"
    "\<exists>busy done. tr' = tr @ [MWrite (hbaPort p + 16) (- 1), MRead (hbaPort p) clb] @ busy @
       [MWrite (hbaPort p + 56) 1] @ done \<and> busy_reads (hbaPort p) busy \<and> completion_reads (hbaPort p) done"
proof -
  let ?tr1 = "tr @ [MWrite (hbaPort p + 16) (- 1), MRead (hbaPort p) clb]"
  obtain spin tr2 where b: "busy_loop dev (hbaPort p) 0 ?tr1 = (spin, tr2)" by fastforce
  have size: "word_of_int (sint (ucast (1 :: u16) - 1 :: u32)) = (0 :: u64)" by simp
  have g: "get32 (prepare_header ch m) (ch + 8) = get32 m (ch + 8)" "get16 (prepare_header ch m) (ch + 2) = 1"
    using prepare_header_fields by blast+
  have R: "Read dev p sector n m tr = (if buffer p = NULL then Some (False, m, tr)
      else if spin = 1000000 then Some (False, command_memory ch ct (buffer p) sector n m, tr2)
      else case issue_wait dev (hbaPort p) (tr2 @ [MWrite (hbaPort p + 56) 1]) of None \<Rightarrow> None
        | Some (ok, tr) \<Rightarrow> Some (ok, command_memory ch ct (buffer p) sector n m, tr))"
    using assms(2-4) b g
    by (simp add: Read_def Let_def hba_read_def hba_write_def command_memory_def prdtLength_offset_def
        commandTableBaseAddress_offset_def sizeof_HBACommandTable_def size cong: if_cong option.case_cong)
  show n: "buffer p \<noteq> NULL" using assms(1) unfolding R by (auto split: if_splits)
  from assms(1) n obtain ok tr3 where i: "issue_wait dev (hbaPort p) (tr2 @ [MWrite (hbaPort p + 56) 1]) = Some (ok, tr3)"
    "ok" "tr' = tr3" "m' = command_memory ch ct (buffer p) sector n m" and spin: "spin \<noteq> 1000000"
    unfolding R by (auto split: if_splits option.splits)
  from i(4) show "m' = command_memory ch ct (buffer p) sector n m" .
  from busy_loop_reads [OF b _ spin] obtain busy where "tr2 = ?tr1 @ busy" "busy_reads (hbaPort p) busy"
    by (auto simp: busy_reads_def)
  with issue_wait_reads [OF i(1)] i(2,3)
  show "\<exists>busy done. tr' = tr @ [MWrite (hbaPort p + 16) (- 1), MRead (hbaPort p) clb] @ busy @
       [MWrite (hbaPort p + 56) 1] @ done \<and> busy_reads (hbaPort p) busy \<and> completion_reads (hbaPort p) done"
    by auto
qed

text \<open>
  C37. A read that reports success has cleared the interrupt status, read the command list's address, waited for
  the drive, issued the command and waited for it, in this order. The first header of that list then is a read with a
  register FIS of five words and one descriptor, and the command table it names, when that does not overlap the
  header, is a READ DMA EXT command for the port's buffer. Its sector number is the one asked for exactly below 2 to the
  24 (bits 24 to 31 are left out and those from 32 on put in their place), its count exactly below 2 to the 16, and
  the size of its descriptor exactly for 1 to 8192 sectors.
\<close>

theorem Read_command:
  assumes read: "Read dev p sector n m tr = Some (True, m', tr')"
    and at: "clb = dev (tr @ [MWrite (hbaPort p + 16) (- 1)]) (hbaPort p)" "ch = ucast clb" "ct = ucast (get32 m (ch + 8))"
    and apart: "apart ct 144 ch 32"
  shows "(\<exists>busy done. tr' = tr @ [MWrite (hbaPort p + 16) (- 1), MRead (hbaPort p) clb] @ busy @
       [MWrite (hbaPort p + 56) 1] @ done \<and> busy_reads (hbaPort p) busy \<and> completion_reads (hbaPort p) done)
    \<and> m' ch AND 0x1F = 5 \<and> \<not> bit (m' ch) 6 \<and> get16 m' (ch + 2) = 1 \<and> ucast (get32 m' (ch + 8)) = ct
    \<and> get_bytes m' ct 128 = read_dma_fis sector n @ replicate 114 0
    \<and> (fis_lba m' ct = sector \<longleftrightarrow> sector < 2 ^ 24) \<and> (unat (fis_count m' ct) = unat n \<longleftrightarrow> unat n < 2 ^ 16)
    \<and> get32 m' (ct + 128) = ucast (buffer p) \<and> get32 m' (ct + 132) = ucast (drop_bit 32 (buffer p))
    \<and> (unat (take_bit 22 (get32 m' (ct + 140))) + 1 = 512 * unat n \<longleftrightarrow> 1 \<le> unat n \<and> unat n \<le> 8192)
    \<and> bit (get32 m' (ct + 140)) 31"
proof -
  note S = Read_steps [OF read at]
  have same: "m' (ch + of_nat k) = prepare_header ch m (ch + of_nat k)" if "k < 32" for k
    unfolding S(2) using apart_nth [OF apart that] by (rule command_memory_other)
  have "get_bytes m' (ch + of_nat i) j = get_bytes (prepare_header ch m) (ch + of_nat i) j" if "i + j \<le> 32" for i j
    unfolding get_bytes_def using same [of "i + k" for k] that by (intro map_cong) (simp_all add: add.assoc)
  from this [of 2 2] this [of 8 4]
  have h: "get16 m' (ch + 2) = 1" "get32 m' (ch + 8) = get32 m (ch + 8)"
    using prepare_header_fields(3,4) [of ch m] by (simp_all add: get16_def get32_def)
  have c: "m' ch AND 0x1F = 5" "\<not> bit (m' ch) 6"
    using same [of 0] prepare_header_fields(1,2) [of ch m] by simp_all
  let ?m1 = "k_memset (prepare_header ch m) ct 0 128"
  have m': "m' = prepare_FIS ct sector n (prepare_prdt (ct + 128) (buffer p) n ?m1)"
    unfolding S(2) command_memory_def ..
  note D = prepare_prdt_fields [of "ct + 128" "buffer p" n ?m1, unfolded add.assoc]
  have d: "get32 m' (ct + 128) = ucast (buffer p)" "get32 m' (ct + 132) = ucast (drop_bit 32 (buffer p))"
    "take_bit 22 (get32 m' (ct + 140)) = take_bit 22 (push_bit 9 n - 1)" "bit (get32 m' (ct + 140)) 31"
    using D unfolding m' by (simp_all add: prepare_FIS_frame)
  have f: "fis_lba m' ct = sector \<longleftrightarrow> sector < 2 ^ 24" "fis_count m' ct = ucast n"
    unfolding m' by (simp_all only: prepare_FIS_lba shifted_lba_eq prepare_FIS_count)
  have t: "get_bytes m' ct 128 = read_dma_fis sector n @ replicate 114 0"
    unfolding S(2) by (rule command_memory_table)
  have "ucast (get32 m' (ch + 8)) = ct" unfolding h(2) at(3) ..
  with S(3) h(1) c t f(1) d(1,2,4) fis_count_exact [of n] prdt_count [of n] show ?thesis
    unfolding f(2) d(3) by blast
qed

text \<open>The witness has its command list at 0x1000, with the command table of the first header at 0x2000.\<close>

definition command_list :: mem where "command_list = (\<lambda>_. 0)(0x1009 := 0x20)"

theorem Read_command_witness:
  "\<exists>m' tr'. Read (\<lambda>_ a. if a = 0x80000100 then 0x1000 else 0)
       \<lparr>hbaPort = 0x80000100, portType = SATA, buffer = 0x9000, portNumber = 0, configured = True\<rparr> 5 1 command_list [] = Some (True, m', tr')
     \<and> get16 m' 0x1002 = 1 \<and> get_bytes m' 0x2000 8 = [0x27, 0x80, 0x25, 0, 5, 0, 0, 0x40] \<and> get32 m' 0x2080 = 0x9000"
proof -
  let ?p = "\<lparr>hbaPort = 0x80000100, portType = SATA, buffer = 0x9000, portNumber = 0, configured = True\<rparr>"
  let ?dev = "\<lambda>_ a. if a = 0x80000100 then 0x1000 else 0"
  have b: "busy_loop ?dev 0x80000100 0 tr = (0, tr @ [MRead 0x80000120 0])" for tr
    by (simp add: busy_loop.simps [of _ _ 0] hba_read_def)
  have w: "issue_wait ?dev 0x80000100 tr = Some (True, tr @ [MRead 0x80000138 0])" for tr
    by (simp add: issue_wait.simps hba_read_def)
  obtain m' tr' where r: "Read ?dev ?p 5 1 command_list [] = Some (True, m', tr')"
    by (simp add: Read_def Let_def case_prod_beta b w)
  have a: "0x1000 = ?dev ([] @ [MWrite (hbaPort ?p + 16) (- 1)]) (hbaPort ?p)" "0x1000 = (ucast (0x1000 :: u32) :: u64)" by simp_all
  have ct: "0x2000 = (ucast (get32 command_list (0x1000 + 8)) :: u64)" by code_simp
  have ap: "apart 0x2000 144 0x1000 32" by (simp add: apart_def)
  have t: "get_bytes m' 0x2000 128 = read_dma_fis 5 1 @ replicate 114 0" "get16 m' (0x1000 + 2) = 1"
    "get32 m' (0x2000 + 128) = ucast (buffer ?p)"
    using Read_command [OF r a ct ap] by blast+
  have "take 8 (read_dma_fis 5 1 @ replicate 114 0) = [0x27, 0x80, 0x25, 0, 5, 0, 0, 0x40]" by code_simp
  moreover have "get_bytes m' 0x2000 8 = take 8 (get_bytes m' 0x2000 128)"
    by (rule nth_equalityI) (simp_all add: get_bytes_def)
  ultimately have "get_bytes m' 0x2000 8 = [0x27, 0x80, 0x25, 0, 5, 0, 0, 0x40]" by (simp only: t(1))
  with r t(2,3) show ?thesis by auto
qed

subsection \<open>Stopping a port\<close>

text \<open>The adapter stops the engines of a port some time after it was asked to.\<close>

definition settles :: "hba_device \<Rightarrow> u64 \<Rightarrow> nat \<Rightarrow> bool" where
  "settles dev port n \<longleftrightarrow>
     (\<forall>tr. n \<le> length tr \<longrightarrow> dev tr (port + 24) AND (HBA_PxCMD_FR OR HBA_PxCMD_CR) = 0)"

lemma settled_bits:
  assumes "settles dev port n" "n \<le> length tr"
  shows "dev tr (port + 24) AND HBA_PxCMD_FR = 0" "dev tr (port + 24) AND HBA_PxCMD_CR = 0"
proof -
  have "dev tr (port + 24) AND (HBA_PxCMD_FR OR HBA_PxCMD_CR) = 0"
    using assms by (simp add: settles_def)
  then have "(dev tr (port + 24) AND HBA_PxCMD_FR) OR (dev tr (port + 24) AND HBA_PxCMD_CR) = 0"
    by (simp add: bit.conj_disj_distrib)
  then show "dev tr (port + 24) AND HBA_PxCMD_FR = 0" "dev tr (port + 24) AND HBA_PxCMD_CR = 0"
    by (simp_all add: or_eq_0_iff)
qed

lemma stop_wait_returns:
  assumes "settles dev port n"
  shows "\<exists>tr'. stop_wait dev port tr = Some (tr @ tr') \<and> length tr' \<le> 2 * (n - length tr) + 2"
proof (induction "n - length tr" arbitrary: tr rule: less_induct)
  case less
  let ?c1 = "dev tr (port + 24)" let ?tr1 = "tr @ [MRead (port + 24) ?c1]"
  let ?c2 = "dev ?tr1 (port + 24)" let ?tr2 = "?tr1 @ [MRead (port + 24) ?c2]"
  have unfold: "stop_wait dev port tr =
    (if ?c1 AND HBA_PxCMD_FR \<noteq> 0 then stop_wait dev port ?tr1
     else if ?c2 AND HBA_PxCMD_CR \<noteq> 0 then stop_wait dev port ?tr2 else Some ?tr2)"
    by (subst stop_wait.simps) (simp add: hba_read_def Let_def)
  show ?case
  proof (cases "n \<le> length tr")
    case True
    then have "stop_wait dev port tr = Some ?tr2"
      using settled_bits(1) [OF assms True] settled_bits(2) [OF assms, of ?tr1] by (simp add: unfold)
    then show ?thesis by simp
  next
    case False
    then have d: "n - length ?tr1 < n - length tr" "n - length ?tr2 < n - length tr" by simp_all
    from less(1) [OF d(1)] obtain t1 where t1: "stop_wait dev port ?tr1 = Some (?tr1 @ t1)"
      "length t1 \<le> 2 * (n - length ?tr1) + 2" by blast
    from less(1) [OF d(2)] obtain t2 where t2: "stop_wait dev port ?tr2 = Some (?tr2 @ t2)"
      "length t2 \<le> 2 * (n - length ?tr2) + 2" by blast
    show ?thesis using t1 t2 False by (auto simp: unfold)
  qed
qed

lemma stop_wait_stuck:
  assumes "\<And>tr. dev tr (port + 24) AND HBA_PxCMD_FR \<noteq> 0"
  shows "stop_wait dev port tr = None"
proof (cases "stop_wait dev port tr")
  case (Some r)
  then have "\<exists>tr. dev tr (port + 24) AND HBA_PxCMD_FR = 0"
  proof (induction rule: stop_wait.raw_induct [rotated 1, consumes 1])
    case (1 stop_wait dev port tr y)
    then show ?case by (cases "dev tr (port + 24) AND HBA_PxCMD_FR = 0") (auto simp: hba_read_def Let_def)
  qed
  with assms show ?thesis by blast
qed

text \<open>
  Stopping a port returns whenever the adapter at some time reports both engines stopped for
  good, after at most two reads for each event up to that time and two more; it first clears the
  start bit and then the receive bit, each by a read and a write. On an adapter that never stops
  its receive engine it does not return.
\<close>

theorem StopCMD_returns:
  "(settles dev port n \<longrightarrow> (\<exists>c1 c2 tr'. StopCMD dev port tr = Some (tr @
      [MRead (port + 24) c1, MWrite (port + 24) (c1 AND NOT 1),
       MRead (port + 24) c2, MWrite (port + 24) (c2 AND NOT 0x10)] @ tr')
      \<and> length tr' \<le> 2 * n + 2))
   \<and> ((\<forall>t. dev t (port + 24) AND HBA_PxCMD_FR \<noteq> 0) \<longrightarrow> StopCMD dev port tr = None)"
proof (intro conjI impI)
  obtain c1 c2 where m: "modify_cmdSts dev port (\<lambda>c. c AND NOT HBA_PxCMD_FRE)
      (modify_cmdSts dev port (\<lambda>c. c AND NOT HBA_PxCMD_ST) tr) = tr @
      [MRead (port + 24) c1, MWrite (port + 24) (c1 AND NOT 1),
       MRead (port + 24) c2, MWrite (port + 24) (c2 AND NOT 0x10)]" (is "?m = ?t")
    by (simp add: modify_cmdSts_def hba_read_def hba_write_def Let_def HBA_PxCMD_FRE_def HBA_PxCMD_ST_def)
  assume "settles dev port n"
  from stop_wait_returns [OF this, of ?t] obtain tr' where
    w: "stop_wait dev port ?t = Some (?t @ tr')" "length tr' \<le> 2 * (n - length ?t) + 2" by blast
  have "StopCMD dev port tr = Some (?t @ tr')" unfolding StopCMD_def m by (rule w(1))
  moreover have "length tr' \<le> 2 * n + 2" using w(2) by simp
  ultimately show "\<exists>c1 c2 tr'. StopCMD dev port tr = Some (tr @
      [MRead (port + 24) c1, MWrite (port + 24) (c1 AND NOT 1),
       MRead (port + 24) c2, MWrite (port + 24) (c2 AND NOT 0x10)] @ tr') \<and> length tr' \<le> 2 * n + 2"
    by (metis append.assoc)
next
  assume "\<forall>t. dev t (port + 24) AND HBA_PxCMD_FR \<noteq> 0"
  then show "StopCMD dev port tr = None" unfolding StopCMD_def by (intro stop_wait_stuck) blast
qed

theorem StopCMD_returns_witness:
  "\<exists>tr'. StopCMD (\<lambda>_ _. 0) 0x80000100 [] = Some tr' \<and> length tr' \<le> 6"
proof -
  have "settles (\<lambda>_ _. 0) 0x80000100 0" by (simp add: settles_def)
  with StopCMD_returns [of "\<lambda>_ _. 0" "0x80000100" 0 "[]"] show ?thesis by auto
qed

subsection \<open>Finding the disks\<close>

text \<open>The disks a port can have, from its registers when they do not change.\<close>

definition port_address :: "u64 \<Rightarrow> nat \<Rightarrow> u64" where
  "port_address abar i = abar + 0x100 + of_nat i * 0x80"

definition link_active :: "u32 \<Rightarrow> bool" where
  "link_active ssts \<longleftrightarrow> ssts AND 7 = 3 \<and> drop_bit 8 ssts mod 7 = 1"

definition has_disk :: "(u64 \<Rightarrow> u32) \<Rightarrow> u64 \<Rightarrow> bool" where
  "has_disk regs port \<longleftrightarrow> link_active (regs (port + 40)) \<and> regs (port + 36) \<in> {0x101, 0xEB140101}"

lemma small_byte: "(v :: u32) < 256 \<Longrightarrow> (ucast v :: u8) = c \<longleftrightarrow> v = ucast c"
proof -
  assume "v < 256"
  then have "unat v < 256" by (simp add: word_less_nat_alt)
  then have "unat (ucast v :: u8) = unat v" by (simp add: unsigned_ucast_eq take_bit_nat_eq_self)
  moreover have "unat (ucast c :: u32) = unat c" by (rule unat_ucast_up) simp
  ultimately show ?thesis by (simp only: word_unat_eq_iff)
qed

lemma CheckPortType_disk:
  "fst (CheckPortType (\<lambda>_. regs) port tr) \<in> {SATA, SATAPI} \<longleftrightarrow> has_disk regs port"
proof -
  have "ssts AND 7 < 256" for ssts :: u32
  proof -
    have "ssts AND 7 \<le> 7" by (rule word_and_le1)
    then show ?thesis by (rule le_less_trans) simp
  qed
  moreover have "drop_bit 8 ssts mod 7 < (256 :: u32)" for ssts :: u32
  proof -
    have "drop_bit 8 ssts mod 7 < 7" by (rule word_mod_less_divisor) simp
    then show ?thesis by (rule less_trans) simp
  qed
  ultimately show ?thesis
    by (auto simp: CheckPortType_def hba_read_def Let_def has_disk_def link_active_def small_byte)
qed

lemma probe_port_step:
  "fst (probe_port (\<lambda>_. regs) impl i (d, tr)) =
     (if bit impl i \<and> has_disk regs (port_address (ABAR d) i)
      then AddPort (fst (CheckPortType (\<lambda>_. regs) (port_address (ABAR d) i) tr)) (port_address (ABAR d) i) d else d)"
  using CheckPortType_disk [of regs "port_address (ABAR d) i" tr]
  by (auto simp: probe_port_def port_address_def ports_offset_def sizeof_HBAPort_def Let_def case_prod_beta)

lemma probe_ports_fold:
  assumes "ports d = []"
  shows "case fold (probe_port (\<lambda>_. regs) impl) is (d, tr) of (d', tr') \<Rightarrow>
     ABAR d' = ABAR d \<and> map hbaPort (ports d') =
       map (port_address (ABAR d)) (filter (\<lambda>i. bit impl i \<and> has_disk regs (port_address (ABAR d) i)) is)
     \<and> map portNumber (ports d') = map of_nat [0..<length (ports d')]
     \<and> (\<forall>p \<in> set (ports d'). portType p \<in> {SATA, SATAPI} \<and> \<not> configured p \<and> buffer p = NULL)"
proof (induction "is" rule: rev_induct)
  case Nil
  then show ?case using assms by simp
next
  case (snoc i "is")
  obtain d1 tr1 where f: "fold (probe_port (\<lambda>_. regs) impl) is (d, tr) = (d1, tr1)" by fastforce
  obtain d2 tr2 where s: "probe_port (\<lambda>_. regs) impl i (d1, tr1) = (d2, tr2)" by fastforce
  have IH: "ABAR d1 = ABAR d" "map hbaPort (ports d1) =
      map (port_address (ABAR d)) (filter (\<lambda>i. bit impl i \<and> has_disk regs (port_address (ABAR d) i)) is)"
    "map portNumber (ports d1) = map of_nat [0..<length (ports d1)]"
    "\<forall>p \<in> set (ports d1). portType p \<in> {SATA, SATAPI} \<and> \<not> configured p \<and> buffer p = NULL"
    using snoc.IH by (simp_all add: f)
  have "d2 = (if bit impl i \<and> has_disk regs (port_address (ABAR d) i)
      then AddPort (fst (CheckPortType (\<lambda>_. regs) (port_address (ABAR d) i) tr1)) (port_address (ABAR d) i) d1 else d1)"
    using probe_port_step [of regs impl i d1 tr1] s IH(1) by simp
  then show ?case
    using IH CheckPortType_disk [of regs "port_address (ABAR d) i" tr1] f s
    by (auto simp: AddPort_def)
qed

text \<open>
  Probing finds exactly the disks: the new ports are those that are implemented, whose link
  is up and active and whose signature is that of a SATA or SATAPI device, in increasing order and
  numbered from 0, at most 32 of them.
\<close>

theorem ProbePorts_finds_disks:
  assumes "ports d = []"
  shows "let d' = fst (ProbePorts (\<lambda>_. regs) d tr); impl = regs (ABAR d + 12) in
    map hbaPort (ports d') = map (port_address (ABAR d))
      (filter (\<lambda>i. bit impl i \<and> has_disk regs (port_address (ABAR d) i)) [0..<32])
    \<and> map portNumber (ports d') = map of_nat [0..<length (ports d')] \<and> length (ports d') \<le> 32"
proof -
  let ?impl = "regs (ABAR d + 12)"
  obtain d' tr' where f: "fold (probe_port (\<lambda>_. regs) ?impl) [0..<32] (d, tr @ [MRead (ABAR d + 12) ?impl]) = (d', tr')"
    by fastforce
  have p: "fst (ProbePorts (\<lambda>_. regs) d tr) = d'"
    using f by (simp add: ProbePorts_def Let_def portsImplemented_offset_def)
  from probe_ports_fold [OF assms, where regs = regs and impl = ?impl and ?is = "[0..<32]" and tr = "tr @ [MRead (ABAR d + 12) ?impl]"]
  have h: "map hbaPort (ports d') = map (port_address (ABAR d))
      (filter (\<lambda>i. bit ?impl i \<and> has_disk regs (port_address (ABAR d) i)) [0..<32])"
    "map portNumber (ports d') = map of_nat [0..<length (ports d')]" by (simp_all only: f prod.case)
  from arg_cong [OF h(1), of length]
  have "length (ports d') = length (filter (\<lambda>i. bit ?impl i \<and> has_disk regs (port_address (ABAR d) i)) [0..<32])"
    by simp
  also have "\<dots> \<le> length [0..<32 :: nat]" by (rule length_filter_le)
  finally have "length (ports d') \<le> 32" by simp
  with h show ?thesis by (simp only: p Let_def)
qed

theorem ProbePorts_finds_disks_witness:
  "length (ports (fst (ProbePorts (\<lambda>_ a. if a = 0x8000000C then 6 else if a = 0x800001A8 then 0x123 else 0x101)
     \<lparr>PCIBaseAddress = 0, ABAR = 0x80000000, ports = []\<rparr> []))) = 1"
proof -
  let ?regs = "\<lambda>a :: u64. if a = 0x8000000C then 6 else if a = 0x800001A8 then 0x123 else (0x101 :: u32)"
  let ?d = "\<lparr>PCIBaseAddress = 0, ABAR = 0x80000000, ports = []\<rparr>"
  have "filter (\<lambda>i. bit (6 :: u32) i \<and> has_disk ?regs (port_address 0x80000000 i)) [0..<32] = [1]"
    by code_simp
  moreover have "map hbaPort (ports (fst (ProbePorts (\<lambda>_. ?regs) ?d []))) = map (port_address 0x80000000)
      (filter (\<lambda>i. bit (6 :: u32) i \<and> has_disk ?regs (port_address 0x80000000 i)) [0..<32])"
    using ProbePorts_finds_disks [of ?d ?regs "[]"] by (simp add: Let_def)
  ultimately have "map hbaPort (ports (fst (ProbePorts (\<lambda>_. ?regs) ?d []))) = map (port_address 0x80000000) [1]"
    by (simp only:)
  from arg_cong [OF this, of length] show ?thesis by simp
qed

subsection \<open>The command tables\<close>

text \<open>Power state 8, sleep, counts as an active link: the code takes the state modulo 7.\<close>

lemma link_active_sleep: "link_active 0x803"
  by (simp add: link_active_def)

definition table_of :: "mem \<Rightarrow> u64 \<Rightarrow> nat \<Rightarrow> u64" where
  "table_of m cmdHeader i =
     (let h = cmdHeader + of_nat i * 32 in
      ucast (get32 m (h + 8)) OR push_bit 32 (ucast (get32 m (h + 12))))"

lemma halves: "(ucast (ucast w :: u32) OR push_bit 32 (ucast (ucast (drop_bit 32 w) :: u32)) :: u64) = w"
  by (rule bit_word_eqI) (auto simp: bit_simps)

lemma get32_memset_apart:
  assumes "apart a (unat n) b 4"
  shows "get32 (k_memset m a v n) b = get32 m b"
proof -
  have "k_memset m a v n (b + of_nat i) = m (b + of_nat i)" if "i < 4" for i
    using apart_nth [OF assms that] by (simp add: k_memset_nth word_less_nat_alt not_less)
  then have "get_bytes (k_memset m a v n) b 4 = get_bytes m b 4" by (simp add: get_bytes_def)
  then show ?thesis by (simp add: get32_def)
qed

text \<open>
  Every command header gets the table address page + 256 * i. Only the first 16 of the 32
  addresses lie in the page that was requested for the table; the others point into memory that
  belongs to somebody else.
\<close>

theorem put_table_bounds:
  assumes page: "page_aligned a" "unat a + 0x2000 \<le> 2 ^ 64" and i: "i < 32"
    and list: "apart a 256 (cmdHeader + of_nat i * 32 + 8) 4" "apart a 256 (cmdHeader + of_nat i * 32 + 12) 4"
  shows "table_of (put_table cmdHeader i a m) cmdHeader i = a + 256 * of_nat i
    \<and> (page_of (table_of (put_table cmdHeader i a m) cmdHeader i) = page_of a \<longleftrightarrow> i < 16)"
proof -
  let ?h = "cmdHeader + of_nat i * 32" let ?a = "a + 256 * of_nat i"
  have "apart (?h + 12) 4 (?h + 8) 4" by (simp add: apart_def)
  moreover have "push_bit 8 (of_nat i :: u64) = 256 * of_nat i" by (simp add: push_bit_eq_mult mult.commute)
  ultimately have t: "table_of (put_table cmdHeader i a m) cmdHeader i = ?a"
    using list
    by (simp add: table_of_def put_table_def Let_def sizeof_HBACommandHeader_def commandTableBaseAddress_offset_def
        commandTableBaseAddressUpper_offset_def get32_memset_apart get32_put32_apart get32_put32_mem halves)
  have u: "unat (256 * of_nat i :: u64) = 256 * i"
    using i by (subst unat_mult_no_wrap) (simp_all add: unat_of_nat_small)
  have ua: "unat ?a = unat a + 256 * i"
    using page(2) i u by (subst unat_add_no_wrap) simp_all
  obtain q where q: "unat a = 4096 * q" using page(1) unfolding page_aligned_unat by (auto simp: mod_eq_0_iff_dvd)
  have "unat (page_of ?a) = q + 256 * i div 4096" "unat (page_of a) = q"
    by (simp_all add: page_of_def unat_div ua q)
  then have "page_of ?a = page_of a \<longleftrightarrow> 256 * i div 4096 = 0" by (simp add: word_unat_eq_iff)
  also have "\<dots> \<longleftrightarrow> i < 16" using i by (simp add: div_eq_0_iff)
  finally show ?thesis by (simp only: t)
qed

theorem put_table_bounds_witness:
  "page_of (table_of (put_table 0x1000 16 0x5000 (\<lambda>_. 0)) 0x1000 16) \<noteq> page_of 0x5000"
proof -
  have h: "page_aligned 0x5000" "unat (0x5000 :: u64) + 0x2000 \<le> 2 ^ 64" "(16 :: nat) < 32"
    "apart 0x5000 256 (0x1000 + of_nat 16 * 32 + 8) 4" "apart 0x5000 256 (0x1000 + of_nat 16 * 32 + 12) 4"
    by (simp_all add: page_aligned_unat apart_def)
  from conjunct2 [OF put_table_bounds [OF h, of "\<lambda>_. 0"]] show ?thesis by (simp only: less_irrefl) simp
qed

end
