(* ===== verification/Interrupts.thy ===== *)
theory Interrupts
  imports Prelude
begin

section \<open>Port I/O, interrupt controller, timer and descriptor table\<close>

text \<open>
  Port accesses of kernel/src/IO/IO.cpp as a trace of events. What a device answers to a read
  may depend on everything that happened before, so a device is a function of the trace. On top
  of it: the interrupt controller (kernel/src/interrupts/interrupts.cpp), the timer
  (kernel/src/scheduling/pit/pit.cpp, integer part) and the interrupt descriptor table
  (kernel/src/interrupts/IDT.cpp, kernel/src/utils/kernelUtil.cpp).
\<close>

subsection \<open>Ports\<close>

datatype io_event =
  Out8 u16 u8 | In8 u16 u8 | Out16 u16 u16 | In16 u16 u16 | Out32 u16 u32 | In32 u16 u32

type_synonym trace = "io_event list"
type_synonym device = "trace \<Rightarrow> u16 \<Rightarrow> u32"

definition outb :: "u16 \<Rightarrow> u8 \<Rightarrow> trace \<Rightarrow> trace" where
  "outb port val tr = tr @ [Out8 port val]"

definition inb :: "device \<Rightarrow> u16 \<Rightarrow> trace \<Rightarrow> u8 \<times> trace" where
  "inb dev port tr = (let v = ucast (dev tr port) in (v, tr @ [In8 port v]))"

definition outw :: "u16 \<Rightarrow> u16 \<Rightarrow> trace \<Rightarrow> trace" where
  "outw port val tr = tr @ [Out16 port val]"

definition inw :: "device \<Rightarrow> u16 \<Rightarrow> trace \<Rightarrow> u16 \<times> trace" where
  "inw dev port tr = (let v = ucast (dev tr port) in (v, tr @ [In16 port v]))"

definition outl :: "u16 \<Rightarrow> u32 \<Rightarrow> trace \<Rightarrow> trace" where
  "outl port val tr = tr @ [Out32 port val]"

definition inl :: "device \<Rightarrow> u16 \<Rightarrow> trace \<Rightarrow> u32 \<times> trace" where
  "inl dev port tr = (let v = dev tr port in (v, tr @ [In32 port v]))"

definition waitb :: "trace \<Rightarrow> trace" where
  "waitb tr = tr @ [Out8 0x80 0]"

abbreviation (input) PIC1_COMMAND :: u16 where "PIC1_COMMAND \<equiv> 0x20"
abbreviation (input) PIC1_DATA :: u16 where "PIC1_DATA \<equiv> 0x21"
abbreviation (input) PIC2_COMMAND :: u16 where "PIC2_COMMAND \<equiv> 0xA0"
abbreviation (input) PIC2_DATA :: u16 where "PIC2_DATA \<equiv> 0xA1"
abbreviation (input) PIC_EOI :: u8 where "PIC_EOI \<equiv> 0x20"
abbreviation (input) ICW1_INIT :: u8 where "ICW1_INIT \<equiv> 0x10"
abbreviation (input) ICW1_ICW4 :: u8 where "ICW1_ICW4 \<equiv> 0x01"
abbreviation (input) ICW4_8086 :: u8 where "ICW4_8086 \<equiv> 0x01"

text \<open>\<open>io_wait\<close> writes the low byte of a register; its value \<open>al\<close> is an argument.\<close>

definition io_pic_disable :: "u8 \<Rightarrow> trace \<Rightarrow> trace" where
  "io_pic_disable al tr =
     (let tr1 = outb 0x22 0x70 tr; tr2 = outb 0x80 al tr1;
          tr3 = outb 0x23 0x01 tr2; tr4 = outb 0x80 al tr3;
          tr5 = outb PIC1_DATA 0xff tr4; tr6 = outb 0x80 al tr5
      in outb PIC2_DATA 0xff tr6)"

subsection \<open>The interrupt controllers\<close>

definition RemapPIC :: "device \<Rightarrow> trace \<Rightarrow> trace" where
  "RemapPIC dev tr =
     (let (a1, tr) = inb dev PIC1_DATA tr; tr = waitb tr;
          (a2, tr) = inb dev PIC2_DATA tr; tr = waitb tr;
          tr = outb PIC1_COMMAND (ICW1_INIT OR ICW1_ICW4) tr; tr = waitb tr;
          tr = outb PIC2_COMMAND (ICW1_INIT OR ICW1_ICW4) tr; tr = waitb tr;
          tr = outb PIC1_DATA 0x20 tr; tr = waitb tr;
          tr = outb PIC2_DATA 0x28 tr; tr = waitb tr;
          tr = outb PIC1_DATA 4 tr; tr = waitb tr;
          tr = outb PIC2_DATA 2 tr; tr = waitb tr;
          tr = outb PIC1_DATA ICW4_8086 tr; tr = waitb tr;
          tr = outb PIC2_DATA ICW4_8086 tr; tr = waitb tr;
          tr = outb PIC1_DATA a1 tr; tr = waitb tr
      in outb PIC2_DATA a2 tr)"

definition PIC_EndMaster :: "trace \<Rightarrow> trace" where
  "PIC_EndMaster tr = outb PIC1_COMMAND PIC_EOI tr"

definition PIC_EndSlave :: "trace \<Rightarrow> trace" where
  "PIC_EndSlave tr = outb PIC1_COMMAND PIC_EOI (outb PIC2_COMMAND PIC_EOI tr)"

subsection \<open>The timer\<close>

definition BaseFrequency :: u64 where
  "BaseFrequency = 1193182"

text \<open>\<open>Divisor\<close> is the state; the result is its new value and the trace.\<close>

definition SetDivisor :: "u16 \<Rightarrow> trace \<Rightarrow> u16 \<times> trace" where
  "SetDivisor divisor tr =
     (let d1 = (if divisor > 100 then 100 else divisor);
          d2 = (if d1 < 1 then 1 else d1);
          tr1 = outb 0x40 (ucast (d2 AND 0x00ff)) tr;
          tr2 = waitb tr1
      in (d2, outb 0x40 (ucast (drop_bit 8 (d2 AND 0xff00))) tr2))"

definition GetFrequency :: "u16 \<Rightarrow> u64" where
  "GetFrequency Divisor = BaseFrequency div ucast Divisor"

text \<open>\<open>None\<close>: the division by a frequency of zero traps.\<close>

definition SetFrequency :: "u64 \<Rightarrow> trace \<Rightarrow> (u16 \<times> trace) option" where
  "SetFrequency frequency tr =
     (let f = (if frequency > BaseFrequency then BaseFrequency else frequency) in
      if f = 0 then None else Some (SetDivisor (ucast (BaseFrequency div f)) tr))"

subsection \<open>The interrupt descriptor table\<close>

record IDTDescEntry =
  Offset0 :: u16
  Selector :: u16
  Ist :: u8
  Type_Attr :: u8
  Offset1 :: u16
  Offset2 :: u32
  Ignore :: u32

definition SetOffset :: "IDTDescEntry \<Rightarrow> u64 \<Rightarrow> IDTDescEntry" where
  "SetOffset e offset = e\<lparr>Offset0 := ucast (offset AND 0x000000000000ffff),
     Offset1 := ucast (drop_bit 16 (offset AND 0x00000000ffff0000)),
     Offset2 := ucast (drop_bit 32 (offset AND 0xffffffff00000000))\<rparr>"

definition GetOffset :: "IDTDescEntry \<Rightarrow> u64" where
  "GetOffset e = ucast (Offset0 e) OR push_bit 16 (ucast (Offset1 e)) OR push_bit 32 (ucast (Offset2 e))"

type_synonym idt = "u8 \<Rightarrow> IDTDescEntry"

definition SetIDTGate :: "idt \<Rightarrow> u64 \<Rightarrow> u8 \<Rightarrow> u8 \<Rightarrow> u8 \<Rightarrow> idt" where
  "SetIDTGate t handler entryOffset type_attr selector =
     t(entryOffset := (SetOffset (t entryOffset) handler)\<lparr>Type_Attr := type_attr, Selector := ucast selector\<rparr>)"

definition IDT_TA_InterruptGate :: u8 where
  "IDT_TA_InterruptGate = 0b10001110"

text \<open>The addresses of the handlers are given by the linker.\<close>

record handlers =
  PageFault_Handler :: u64
  DoubleFault_Handler :: u64
  GPFault_Handler :: u64
  KeyboardInt_Handler :: u64
  MouseInt_Handler :: u64
  PITInt_Handler :: u64

definition PrepareInterrupts :: "handlers \<Rightarrow> device \<Rightarrow> idt \<Rightarrow> trace \<Rightarrow> idt \<times> trace" where
  "PrepareInterrupts h dev t0 tr =
     (let t1 = SetIDTGate t0 (PageFault_Handler h) 0xE IDT_TA_InterruptGate 0x08;
          t2 = SetIDTGate t1 (DoubleFault_Handler h) 0x8 IDT_TA_InterruptGate 0x08;
          t3 = SetIDTGate t2 (GPFault_Handler h) 0xD IDT_TA_InterruptGate 0x08;
          t4 = SetIDTGate t3 (KeyboardInt_Handler h) 0x21 IDT_TA_InterruptGate 0x08;
          t5 = SetIDTGate t4 (MouseInt_Handler h) 0x2C IDT_TA_InterruptGate 0x08;
          t6 = SetIDTGate t5 (PITInt_Handler h) 0x20 IDT_TA_InterruptGate 0x08
      in (t6, RemapPIC dev tr))"

subsection \<open>What is set up\<close>

lemma SetOffset_GetOffset: "GetOffset (SetOffset e a) = a"
proof (rule bit_word_eqI)
  fix n assume "n < LENGTH(64)"
  then have n: "n < 64" by simp
  have m: "(0xffff :: u64) = mask 16" "(0xffff0000 :: u64) = push_bit 16 (mask 16)"
    "(0xffffffff00000000 :: u64) = push_bit 32 (mask 32)"
    by (simp_all add: mask_eq_exp_minus_1 push_bit_eq_mult)
  show "bit (GetOffset (SetOffset e a)) n = bit a n"
    unfolding GetOffset_def SetOffset_def m using n
    by (cases "n < 16"; cases "n < 32") (auto simp: bit_simps)
qed

text \<open>A gate is an interrupt gate of the kernel code segment that leads to a handler.\<close>

definition gate_to :: "IDTDescEntry \<Rightarrow> u64 \<Rightarrow> bool" where
  "gate_to e handler \<longleftrightarrow> GetOffset e = handler \<and> Type_Attr e = IDT_TA_InterruptGate \<and> Selector e = 0x08"

lemma SetIDTGate_same: "gate_to (SetIDTGate t h i IDT_TA_InterruptGate 0x08 i) h"
proof -
  have "GetOffset (e\<lparr>Type_Attr := x, Selector := y\<rparr>) = GetOffset e" for e x y
    by (simp add: GetOffset_def)
  then show ?thesis by (simp add: gate_to_def SetIDTGate_def SetOffset_GetOffset)
qed

lemma SetIDTGate_other: "j \<noteq> i \<Longrightarrow> SetIDTGate t h i a s j = t j"
  by (simp add: SetIDTGate_def)

text \<open>
  C30. After \<open>PrepareInterrupts\<close> each of the six vectors the kernel handles leads to its handler
  through an interrupt gate of the kernel code segment, all other vectors are untouched, and
  the interrupt controllers have got their vector bases 0x20 and 0x28 and their old masks back.
\<close>

theorem PrepareInterrupts_gates:
  "let (t', tr') = PrepareInterrupts h dev t tr in
     gate_to (t' 0xE) (PageFault_Handler h) \<and> gate_to (t' 0x8) (DoubleFault_Handler h)
     \<and> gate_to (t' 0xD) (GPFault_Handler h) \<and> gate_to (t' 0x21) (KeyboardInt_Handler h)
     \<and> gate_to (t' 0x2C) (MouseInt_Handler h) \<and> gate_to (t' 0x20) (PITInt_Handler h)
     \<and> {i. t' i \<noteq> t i} \<subseteq> {0xE, 0x8, 0xD, 0x21, 0x2C, 0x20}
     \<and> (\<exists>a1 a2 mid. tr' = tr @ [In8 PIC1_DATA a1, Out8 0x80 0, In8 PIC2_DATA a2, Out8 0x80 0] @ mid
         @ [Out8 PIC1_DATA a1, Out8 0x80 0, Out8 PIC2_DATA a2]
         \<and> filter (\<lambda>e. e \<noteq> Out8 0x80 0) mid =
           [Out8 PIC1_COMMAND 0x11, Out8 PIC2_COMMAND 0x11, Out8 PIC1_DATA 0x20, Out8 PIC2_DATA 0x28,
            Out8 PIC1_DATA 4, Out8 PIC2_DATA 2, Out8 PIC1_DATA 1, Out8 PIC2_DATA 1])"
  by (simp add: PrepareInterrupts_def RemapPIC_def inb_def outb_def waitb_def Let_def
      SetIDTGate_same SetIDTGate_other) (auto simp: SetIDTGate_def split: if_splits)

lemma SetDivisor_fst: "unat (fst (SetDivisor d tr)) = max 1 (min (unat d) 100)"
  by (simp add: SetDivisor_def Let_def word_less_nat_alt)

lemma GetFrequency_unat: "unat (GetFrequency d) = 1193182 div unat d"
  by (simp add: GetFrequency_def BaseFrequency_def unat_div unat_ucast_up)

lemma SetFrequency_divisor:
  assumes "SetFrequency f tr = Some (d, tr')" and "f \<le> BaseFrequency"
  shows "0 < unat f" "unat d = max 1 (min (1193182 div unat f mod 65536) 100)"
proof -
  have f0: "f \<noteq> 0" and d: "unat d = max 1 (min (unat (ucast (BaseFrequency div f) :: u16)) 100)"
    using assms SetDivisor_fst [of "ucast (BaseFrequency div f)" tr]
    by (auto simp: SetFrequency_def Let_def not_less split: if_splits)
  show "0 < unat f" using f0 unat_gt_0 by blast
  have "unat (ucast (BaseFrequency div f) :: u16) = 1193182 div unat f mod 65536"
    by (simp add: unsigned_ucast_eq take_bit_eq_mod BaseFrequency_def unat_div)
  then show "unat d = max 1 (min (1193182 div unat f mod 65536) 100)"
    by (simp add: d)
qed

lemma small_quotients:
  assumes "0 < n" "n \<le> 18"
  shows "100 < 1193182 div n mod (65536 :: nat)"
proof -
  have "\<forall>k \<in> set [2..<19]. 100 < 1193182 div k mod (65536 :: nat)" by simp
  moreover have "n = 1 \<or> n \<in> set [2..<19]" using assms by (auto simp del: upt_rec_numeral)
  ultimately show ?thesis by (auto simp del: upt_rec_numeral set_upt)
qed

text \<open>
  The timer cannot run slowly: whatever frequency above zero is asked for, the divisor is
  between 1 and 100 and the timer runs at 11931 Hz or more; every request up to 11931 Hz gives
  exactly 11931 Hz, and every faster one that the base frequency allows is met or exceeded.
\<close>

theorem SetFrequency_bounds:
  assumes "SetFrequency f tr = Some (d, tr')" and "f \<le> BaseFrequency"
  shows "1 \<le> d \<and> d \<le> 100 \<and> f \<le> GetFrequency d
    \<and> (f \<le> 11931 \<longrightarrow> GetFrequency d = 11931)"
proof -
  note D = SetFrequency_divisor [OF assms]
  let ?n = "unat f" let ?q = "1193182 div unat f"
  have le: "1 \<le> unat d" "unat d \<le> 100" using D(2) by simp_all
  have slow: "unat d = 100" if "?n \<le> 11931"
  proof (cases "?n \<le> 18")
    case True
    from small_quotients [OF D(1) this] D(2) show ?thesis by simp
  next
    case False
    have "1193182 div 11931 \<le> ?q" using that D(1) by (intro div_le_mono2) simp_all
    moreover have "?q \<le> 1193182 div 19" using False by (intro div_le_mono2) simp_all
    ultimately show ?thesis using D(2) by simp
  qed
  have "?n \<le> 1193182 div unat d"
  proof (cases "?n \<le> 11931")
    case True
    with slow show ?thesis by simp
  next
    case False
    then have "?q \<le> 1193182 div 11931" by (intro div_le_mono2) simp_all
    moreover have "1 \<le> ?q"
    proof -
      have "?n \<le> 1193182" using assms(2) by (simp add: BaseFrequency_def word_le_nat_alt)
      then show ?thesis using D(1) by (simp add: div_greater_zero_iff Suc_leI)
    qed
    ultimately have d: "unat d = ?q" using D(2) by simp
    have "?n * ?q \<le> 1193182" by simp
    then show ?thesis
      unfolding d using \<open>1 \<le> ?q\<close> by (subst less_eq_div_iff_mult_less_eq) simp_all
  qed
  then have "f \<le> GetFrequency d" by (simp add: word_le_nat_alt GetFrequency_unat)
  moreover have "GetFrequency d = 11931" if "f \<le> 11931"
  proof -
    have "unat (GetFrequency d) = 11931"
      using slow that by (simp add: GetFrequency_unat word_le_nat_alt)
    then have "unat (GetFrequency d) = unat (11931 :: u64)" by simp
    then show ?thesis by (simp only: word_unat_eq_iff)
  qed
  ultimately show ?thesis using le by (simp add: word_le_nat_alt)
qed

theorem SetFrequency_bounds_witness:
  "\<exists>d tr. SetFrequency 1000 [] = Some (d, tr) \<and> GetFrequency d = 11931"
proof -
  obtain d tr where s: "SetFrequency 1000 [] = Some (d, tr)"
    by (auto simp: SetFrequency_def BaseFrequency_def prod_eq_iff)
  have "(1000 :: u64) \<le> BaseFrequency" "(1000 :: u64) \<le> 11931" by (simp_all add: BaseFrequency_def)
  with SetFrequency_bounds [OF s] s show ?thesis by blast
qed

end
