(* ===== verification/Acpi.thy ===== *)
theory Acpi
  imports KernelLib Interrupts
begin

section \<open>ACPI tables, shutdown and reset (kernel/src/acpi, kernel/src/facp)\<close>

text \<open>
  The firmware's system description tables as the kernel reads them from memory: the headers
  with their packed layout, the search and the check of the root tables, and the fixed
  description table with the sleep package that \<open>Shutdown\<close> needs. Console output is left out.
\<close>

subsection \<open>Table layout\<close>

datatype AddressSpaceEnum = MMIO | IO | PCI

fun AddressSpaceEnum_value :: "AddressSpaceEnum \<Rightarrow> u8" where
  "AddressSpaceEnum_value MMIO = 0"
| "AddressSpaceEnum_value IO = 1"
| "AddressSpaceEnum_value PCI = 2"

record AddressStructure =
  AddressSpace :: u8
  BitWidth :: u8
  BitOffset :: u8
  AccessSize :: u8
  Address :: u64

definition AddressStructure_at :: "mem \<Rightarrow> u64 \<Rightarrow> AddressStructure" where
  "AddressStructure_at m a = \<lparr>AddressSpace = get8 m a, BitWidth = get8 m (a + 1),
     BitOffset = get8 m (a + 2), AccessSize = get8 m (a + 3), Address = get64 m (a + 4)\<rparr>"

record RSDP2 =
  rsdp_Signature :: "u8 list"
  rsdp_Checksum :: u8
  rsdp_OEMId :: "u8 list"
  rsdp_Revision :: u8
  rsdp_RSDTAddress :: u32
  rsdp_Length :: u32
  rsdp_XSDTAddress :: u64
  rsdp_ExtendedChecksum :: u8
  rsdp_Reserved :: "u8 list"

definition RSDP2_at :: "mem \<Rightarrow> u64 \<Rightarrow> RSDP2" where
  "RSDP2_at m a = \<lparr>rsdp_Signature = get_bytes m a 8, rsdp_Checksum = get8 m (a + 8),
     rsdp_OEMId = get_bytes m (a + 9) 6, rsdp_Revision = get8 m (a + 15),
     rsdp_RSDTAddress = get32 m (a + 16), rsdp_Length = get32 m (a + 20),
     rsdp_XSDTAddress = get64 m (a + 24), rsdp_ExtendedChecksum = get8 m (a + 32),
     rsdp_Reserved = get_bytes m (a + 33) 3\<rparr>"

text \<open>The signature is used through its address, which is the address of the header.\<close>

record SDTHeader =
  sdt_Signature :: u64
  sdt_Length :: u32
  sdt_Revision :: u8
  sdt_Checksum :: u8
  sdt_OEMId :: "u8 list"
  sdt_OEMTableID :: "u8 list"
  sdt_OEMRevision :: u32
  sdt_CreatorID :: u32
  sdt_CreatorRevision :: u32

definition SDTHeader_at :: "mem \<Rightarrow> u64 \<Rightarrow> SDTHeader" where
  "SDTHeader_at m a = \<lparr>sdt_Signature = a, sdt_Length = get32 m (a + 4), sdt_Revision = get8 m (a + 8),
     sdt_Checksum = get8 m (a + 9), sdt_OEMId = get_bytes m (a + 10) 6,
     sdt_OEMTableID = get_bytes m (a + 16) 8, sdt_OEMRevision = get32 m (a + 24),
     sdt_CreatorID = get32 m (a + 28), sdt_CreatorRevision = get32 m (a + 32)\<rparr>"

abbreviation (input) sizeof_SDTHeader :: u64 where "sizeof_SDTHeader \<equiv> 36"

record FACPHeader =
  facp_SDT :: SDTHeader
  facp_FIRMWARE_CTRL :: u32
  facp_DSDT :: u32
  facp_reserved1 :: u8
  facp_Preferred_PM_Profile :: u8
  facp_SCI_INT :: u16
  facp_SMI_CMD :: u32
  facp_ACPI_ENABLE :: u8
  facp_ACPI_DISABLE :: u8
  facp_S4BIOS_REQ :: u8
  facp_PSTATE_CNT :: u8
  facp_PM1a_EVT_BLK :: u32
  facp_PM1b_EVT_BLK :: u32
  facp_PM1a_CNT_BLK :: u32
  facp_PM1b_CNT_BLK :: u32
  facp_PM2_CNT_BLK :: u32
  facp_PM_TMR_BLK :: u32
  facp_GPE0_BLK :: u32
  facp_GPE1_BLK :: u32
  facp_PM1_EVT_LEN :: u8
  facp_PM1_CNT_LEN :: u8
  facp_PM2_CNT_LEN :: u8
  facp_PM_TMR_LEN :: u8
  facp_GPE0_BLK_LEN :: u8
  facp_GPE1_BLK_LEN :: u8
  facp_GPE1_BASE :: u8
  facp_CST_CNT :: u8
  facp_P_LVL2_LAT :: u16
  facp_P_LVL3_LAT :: u16
  facp_FLUSH_SIZE :: u16
  facp_FLUSH_STRIDE :: u16
  facp_DUTY_OFFSET :: u8
  facp_DUTY_WIDTH :: u8
  facp_DAY_ALRM :: u8
  facp_MON_ALRM :: u8
  facp_CENTURY :: u8
  facp_IAPC_BOOT_ARCH :: u16
  facp_reserved2 :: u8
  facp_Flags :: u32
  facp_RESET_REG :: AddressStructure
  facp_RESET_VALUE :: u8

definition FACPHeader_at :: "mem \<Rightarrow> u64 \<Rightarrow> FACPHeader" where
  "FACPHeader_at m a = \<lparr>
    facp_SDT = SDTHeader_at m a, facp_FIRMWARE_CTRL = get32 m (a + 36),
    facp_DSDT = get32 m (a + 40), facp_reserved1 = get8 m (a + 44),
    facp_Preferred_PM_Profile = get8 m (a + 45), facp_SCI_INT = get16 m (a + 46),
    facp_SMI_CMD = get32 m (a + 48), facp_ACPI_ENABLE = get8 m (a + 52),
    facp_ACPI_DISABLE = get8 m (a + 53), facp_S4BIOS_REQ = get8 m (a + 54),
    facp_PSTATE_CNT = get8 m (a + 55), facp_PM1a_EVT_BLK = get32 m (a + 56),
    facp_PM1b_EVT_BLK = get32 m (a + 60), facp_PM1a_CNT_BLK = get32 m (a + 64),
    facp_PM1b_CNT_BLK = get32 m (a + 68), facp_PM2_CNT_BLK = get32 m (a + 72),
    facp_PM_TMR_BLK = get32 m (a + 76), facp_GPE0_BLK = get32 m (a + 80),
    facp_GPE1_BLK = get32 m (a + 84), facp_PM1_EVT_LEN = get8 m (a + 88),
    facp_PM1_CNT_LEN = get8 m (a + 89), facp_PM2_CNT_LEN = get8 m (a + 90),
    facp_PM_TMR_LEN = get8 m (a + 91), facp_GPE0_BLK_LEN = get8 m (a + 92),
    facp_GPE1_BLK_LEN = get8 m (a + 93), facp_GPE1_BASE = get8 m (a + 94),
    facp_CST_CNT = get8 m (a + 95), facp_P_LVL2_LAT = get16 m (a + 96),
    facp_P_LVL3_LAT = get16 m (a + 98), facp_FLUSH_SIZE = get16 m (a + 100),
    facp_FLUSH_STRIDE = get16 m (a + 102), facp_DUTY_OFFSET = get8 m (a + 104),
    facp_DUTY_WIDTH = get8 m (a + 105), facp_DAY_ALRM = get8 m (a + 106),
    facp_MON_ALRM = get8 m (a + 107), facp_CENTURY = get8 m (a + 108),
    facp_IAPC_BOOT_ARCH = get16 m (a + 109), facp_reserved2 = get8 m (a + 111),
    facp_Flags = get32 m (a + 112), facp_RESET_REG = AddressStructure_at m (a + 116),
    facp_RESET_VALUE = get8 m (a + 128)\<rparr>"

subsection \<open>Searching and checking the root tables\<close>

text \<open>
  \<open>int entries\<close>: the 64-bit quotient is cut to 32 bits and read as a signed number.
\<close>

definition xsdt_entries :: "mem \<Rightarrow> u64 \<Rightarrow> int" where
  "xsdt_entries m h =
     sint (ucast ((ucast (sdt_Length (SDTHeader_at m h)) - sizeof_SDTHeader) div 8 :: u64) :: u32)"

definition rsdt_entries :: "mem \<Rightarrow> u64 \<Rightarrow> int" where
  "rsdt_entries m h =
     sint (ucast ((ucast (sdt_Length (SDTHeader_at m h)) - sizeof_SDTHeader) div 4 :: u64) :: u32)"

definition xsdt_entry :: "mem \<Rightarrow> u64 \<Rightarrow> nat \<Rightarrow> u64" where
  "xsdt_entry m h t = get64 m (h + sizeof_SDTHeader + of_nat t * 8)"

definition rsdt_entry :: "mem \<Rightarrow> u64 \<Rightarrow> nat \<Rightarrow> u64" where
  "rsdt_entry m h t = ucast (get32 m (h + sizeof_SDTHeader + of_nat t * 4))"

text \<open>The search loop, with the number of rounds left and the counter.\<close>

fun find_table :: "(nat \<Rightarrow> u64) \<Rightarrow> mem \<Rightarrow> u64 \<Rightarrow> nat \<Rightarrow> nat \<Rightarrow> u64" where
  "find_table tab m signature 0 t = NULL"
| "find_table tab m signature (Suc n) t =
     (let newSDTHeader = tab t in
      if k_strncmp m signature (sdt_Signature (SDTHeader_at m newSDTHeader)) 4 \<noteq> 0
      then find_table tab m signature n (t + 1)
      else newSDTHeader)"

definition FindXSDTTable :: "mem \<Rightarrow> u64 \<Rightarrow> u64 \<Rightarrow> u64" where
  "FindXSDTTable m sdtHeader signature =
     find_table (xsdt_entry m sdtHeader) m signature (nat (xsdt_entries m sdtHeader)) 0"

definition FindRSDTTable :: "mem \<Rightarrow> u64 \<Rightarrow> u64 \<Rightarrow> u64" where
  "FindRSDTTable m sdtHeader signature =
     find_table (rsdt_entry m sdtHeader) m signature (nat (rsdt_entries m sdtHeader)) 0"

text \<open>The two checks of a table header.\<close>

definition check_sdt :: "mem \<Rightarrow> u64 \<Rightarrow> string \<Rightarrow> unit may_panic" where
  "check_sdt m h suffix =
     (if k_checksum m h (ucast (sdt_Length (SDTHeader_at m h))) \<noteq> 0
      then Inl (Panic (''Failed SDT header checksum'' @ suffix))
      else if ucast (sdt_Length (SDTHeader_at m h)) < sizeof_SDTHeader
      then Inl (Panic (''Impossible size of SDT header'' @ suffix))
      else Inr ())"

fun enum_tables :: "(nat \<Rightarrow> u64) \<Rightarrow> mem \<Rightarrow> nat \<Rightarrow> nat \<Rightarrow> unit may_panic" where
  "enum_tables tab m 0 t = Inr ()"
| "enum_tables tab m (Suc n) t =
     (case check_sdt m (tab t) [] of Inl p \<Rightarrow> Inl p | Inr _ \<Rightarrow> enum_tables tab m n (t + 1))"

definition EnumXSDT :: "mem \<Rightarrow> u64 \<Rightarrow> int may_panic" where
  "EnumXSDT m sdtHeader =
     (case check_sdt m sdtHeader '' (XSDT)'' of Inl p \<Rightarrow> Inl p
      | Inr _ \<Rightarrow> (let entries = xsdt_entries m sdtHeader in
          case enum_tables (xsdt_entry m sdtHeader) m (nat entries) 0 of
            Inl p \<Rightarrow> Inl p | Inr _ \<Rightarrow> Inr entries))"

definition EnumRSDT :: "mem \<Rightarrow> u64 \<Rightarrow> int may_panic" where
  "EnumRSDT m sdtHeader =
     (case check_sdt m sdtHeader '' (RSDT)'' of Inl p \<Rightarrow> Inl p
      | Inr _ \<Rightarrow> (let entries = rsdt_entries m sdtHeader in
          case enum_tables (rsdt_entry m sdtHeader) m (nat entries) 0 of
            Inl p \<Rightarrow> Inl p | Inr _ \<Rightarrow> Inr entries))"

subsection \<open>The fixed description table\<close>

record facp_state =
  SMI_CMD :: u64
  ACPI_ENABLE :: u8
  ACPI_DISABLE :: u8
  PM1a_CNT :: u32
  PM1b_CNT :: u32
  SLP_TYPa :: u16
  SLP_TYPb :: u16
  PM1_CNT_LEN :: u8
  SLP_EN :: u16
  SCI_EN :: u16
  reset_flag :: u32
  g_FACPHeader :: u64

definition bake :: "u8 \<Rightarrow> u8 \<Rightarrow> u8 \<Rightarrow> u8 \<Rightarrow> u32" where
  "bake a b c d = ucast a OR push_bit 8 (ucast b) OR push_bit 16 (ucast c) OR push_bit 24 (ucast d)"

definition S5_name :: "u8 list" where
  "S5_name = [0x5F, 0x53, 0x35, 0x5F]"

text \<open>
  The search for \<open>_S5_\<close>: \<open>while (dsdtLength-- > 0)\<close> with the comparison of four bytes; the
  result is the address and the counter when the loop is left. \<open>memcmp\<close> with a literal is
  equality of the bytes (lemma \<open>k_memcmp_eq_0\<close>).
\<close>

function scan_S5 :: "mem \<Rightarrow> u64 \<Rightarrow> int \<Rightarrow> u64 \<times> int" where
  "scan_S5 m S5Addr dsdtLength =
     (if dsdtLength > 0 then
        (if get_bytes m S5Addr 4 = S5_name then (S5Addr, dsdtLength - 1)
         else scan_S5 m (S5Addr + 1) (dsdtLength - 1))
      else (S5Addr, dsdtLength - 1))"
  by pat_completeness auto
termination by (relation "measure (\<lambda>(m, a, n). nat n)") auto

declare scan_S5.simps [simp del]

text \<open>The package behind the name: its two sleep types.\<close>

definition parse_S5 :: "mem \<Rightarrow> u64 \<Rightarrow> u16 \<times> u16" where
  "parse_S5 m S5Addr =
     (let a1 = S5Addr + 5;
          a2 = a1 + (ucast (drop_bit 6 (m a1 AND 0xC0)) + 2);
          a3 = (if m a2 = 0x0A then a2 + 1 else a2);
          typa = push_bit 10 (ucast (m a3)) :: u16;
          a4 = a3 + 1;
          a5 = (if m a4 = 0x0A then a4 + 1 else a4)
      in (typa, push_bit 10 (ucast (m a5))))"

definition valid_S5 :: "mem \<Rightarrow> u64 \<Rightarrow> bool" where
  "valid_S5 m S5Addr \<longleftrightarrow>
     (m (S5Addr - 1) = 0x08 \<or> (m (S5Addr - 2) = 0x08 \<and> m (S5Addr - 1) = 0x5C))
     \<and> m (S5Addr + 4) = 0x12"

definition InitFACP :: "mem \<Rightarrow> u64 \<Rightarrow> facp_state \<Rightarrow> facp_state" where
  "InitFACP m facp st0 =
     (let st = st0\<lparr>g_FACPHeader := facp\<rparr>; f = FACPHeader_at m facp;
          dsdt_addr = ucast (facp_DSDT f) :: u64 in
      if get32 m dsdt_addr \<noteq> bake 0x44 0x53 0x44 0x54 then st
      else let (S5Addr, dsdtLength) =
                 scan_S5 m (dsdt_addr + 36) (sint (sdt_Length (SDTHeader_at m dsdt_addr) * 2)) in
      if dsdtLength \<le> 0 then st
      else let st1 =
             (if valid_S5 m S5Addr then
                (let (typa, typb) = parse_S5 m S5Addr in
                 st\<lparr>SLP_TYPa := typa, SLP_TYPb := typb, SMI_CMD := ucast (facp_SMI_CMD f),
                    ACPI_ENABLE := facp_ACPI_ENABLE f, ACPI_DISABLE := facp_ACPI_DISABLE f,
                    PM1a_CNT := facp_PM1a_CNT_BLK f, PM1b_CNT := facp_PM1b_CNT_BLK f,
                    PM1_CNT_LEN := facp_PM1_CNT_LEN f, SLP_EN := push_bit 13 1, SCI_EN := 1\<rparr>)
              else st\<lparr>SCI_EN := 0\<rparr>)
      in st1\<lparr>reset_flag := drop_bit 10 (facp_Flags f AND push_bit 10 1)\<rparr>)"

text \<open>Both operations end in \<open>__unreachable_code\<close>, a panic, when the machine is still running.\<close>

definition Shutdown :: "facp_state \<Rightarrow> trace \<Rightarrow> kpanic \<times> trace" where
  "Shutdown st tr =
     (let tr1 = (if SCI_EN st = 1 then
            (let tr0 = outw (ucast (PM1a_CNT st)) (SLP_TYPa st OR SLP_EN st) tr in
             if PM1b_CNT st \<noteq> 0 then outw (ucast (PM1b_CNT st)) (SLP_TYPb st OR SLP_EN st) tr0
             else tr0)
          else tr);
          tr2 = outw 0xB004 0x2000 tr1;
          tr3 = outw 0x604 0x2000 tr2
      in (Panic ''Unreachable code hit'', outw 0x4004 0x3400 tr3))"

definition Reboot :: "mem \<Rightarrow> facp_state \<Rightarrow> trace \<Rightarrow> kpanic \<times> mem \<times> trace" where
  "Reboot m st tr =
     (let f = FACPHeader_at m (g_FACPHeader st); r = facp_RESET_REG f;
          (m1, tr1) =
            (if reset_flag st \<noteq> 0 then
               (if AddressSpace r = AddressSpaceEnum_value IO
                then (m, outb (ucast (Address r)) (facp_RESET_VALUE f) tr)
                else if AddressSpace r = AddressSpaceEnum_value MMIO
                then (m(Address r := facp_RESET_VALUE f), tr)
                else (m, tr))
             else (m, tr))
      in (Panic ''Unreachable code hit'', m1, tr1))"

subsection \<open>Root tables\<close>

definition signature_matches :: "mem \<Rightarrow> u64 \<Rightarrow> u64 \<Rightarrow> bool" where
  "signature_matches m signature h \<longleftrightarrow> k_strncmp m signature h 4 = 0"

lemma find_table_find:
  "find_table tab m sig n t =
     (case find (\<lambda>k. signature_matches m sig (tab k)) [t..<t + n] of None \<Rightarrow> NULL | Some k \<Rightarrow> tab k)"
proof (induction n arbitrary: t)
  case (Suc n)
  have "[t..<t + Suc n] = t # [Suc t..<Suc t + n]" by (simp add: upt_conv_Cons del: upt_Suc)
  with Suc show ?case by (simp add: SDTHeader_at_def signature_matches_def Let_def del: upt_Suc)
qed simp

lemma strncmp_loop_0:
  "k_strncmp_loop n m l r = 0 \<longleftrightarrow>
     (\<forall>i < n. (\<forall>j \<le> i. m (l + of_nat j) \<noteq> 0 \<and> m (r + of_nat j) \<noteq> 0) \<longrightarrow> m (l + of_nat i) = m (r + of_nat i))"
proof (induction n arbitrary: l r)
  case (Suc n)
  have le: "(\<forall>j \<le> Suc i. P j) \<longleftrightarrow> P 0 \<and> (\<forall>j \<le> i. P (Suc j))" for i and P :: "nat \<Rightarrow> bool"
    by (metis Suc_le_mono le0 not0_implies_Suc)
  have lt: "(\<forall>i < Suc n. Q i) \<longleftrightarrow> Q 0 \<and> (\<forall>i < n. Q (Suc i))" for Q :: "nat \<Rightarrow> bool"
    by (metis Suc_less_eq less_Suc_eq_0_disj zero_less_Suc)
  have d: "sint (x :: u8) = sint y \<longleftrightarrow> x = y" for x y by (auto simp: signed_word_eqI)
  show ?case
    using Suc.IH [of "l + 1" "r + 1"] unfolding lt le by (auto simp: d algebra_simps)
qed simp

text \<open>
  A table matches a signature of four characters if its own signature, up to its first NUL, is
  a prefix of it.
\<close>

lemma signature_matches_prefix:
  assumes "get_bytes m signature 4 = [a, b, c, d]" "0 \<notin> set [a, b, c, d]"
  shows "signature_matches m signature h \<longleftrightarrow>
    (\<exists>k \<le> 4. takeWhile (\<lambda>x. x \<noteq> 0) (get_bytes m h 4) = take k [a, b, c, d])"
proof -
  have h: "get_bytes m x 4 = [m x, m (x + 1), m (x + 2), m (x + 3)]" for x
    by (simp add: eval_nat_numeral get_bytes_Suc add.assoc)
  have s: "m signature = a" "m (signature + 1) = b" "m (signature + 2) = c" "m (signature + 3) = d"
    using assms(1) unfolding h by simp_all
  have all4: "(\<forall>i < 4. P i) \<longleftrightarrow> P 0 \<and> P 1 \<and> P 2 \<and> P (3 :: nat)" for P
    by (auto simp: numeral_eq_Suc less_Suc_eq)
  have ex4: "(\<exists>i \<le> 4. P i) \<longleftrightarrow> P 0 \<or> P 1 \<or> P 2 \<or> P 3 \<or> P (4 :: nat)" for P
    by (auto simp: numeral_eq_Suc le_Suc_eq)
  have up: "(\<forall>j \<le> 0. P j) \<longleftrightarrow> P 0" "(\<forall>j \<le> Suc 0. P j) \<longleftrightarrow> P 0 \<and> P 1"
    "(\<forall>j \<le> 2. P j) \<longleftrightarrow> P 0 \<and> P 1 \<and> P 2" "(\<forall>j \<le> 3. P j) \<longleftrightarrow> P 0 \<and> P 1 \<and> P 2 \<and> P 3" for P :: "nat \<Rightarrow> bool"
    by (auto simp: numeral_eq_Suc le_Suc_eq)
  show ?thesis
    unfolding signature_matches_def k_strncmp_def strncmp_loop_0 h
    using assms(2) s by (simp add: all4 ex4 up) auto
qed

text \<open>
  \<open>FindXSDTTable\<close> and \<open>FindRSDTTable\<close> return the first table of the root table whose
  signature matches, and NULL when none does. A table matches as soon as its signature up to its
  first NUL is a prefix of the one looked for, so memory that starts with a NUL matches always.
\<close>

theorem FindTable_first:
  assumes sig: "get_bytes m signature 4 = [a, b, c, d]" "0 \<notin> set [a, b, c, d]"
  defines "hit h \<equiv> \<exists>k \<le> 4. takeWhile (\<lambda>x. x \<noteq> 0) (get_bytes m h 4) = take k [a, b, c, d]"
  shows "FindXSDTTable m root signature =
      (case find (\<lambda>t. hit (xsdt_entry m root t)) [0..<nat (xsdt_entries m root)] of
         None \<Rightarrow> NULL | Some t \<Rightarrow> xsdt_entry m root t)
    \<and> FindRSDTTable m root signature =
      (case find (\<lambda>t. hit (rsdt_entry m root t)) [0..<nat (rsdt_entries m root)] of
         None \<Rightarrow> NULL | Some t \<Rightarrow> rsdt_entry m root t)"
  using signature_matches_prefix [OF sig]
  by (simp add: FindXSDTTable_def FindRSDTTable_def find_table_find hit_def)

text \<open>
  When no signature of a listed table has a NUL in it, a search finds the first listed table of the signature.
\<close>

definition listed_tables :: "bool \<Rightarrow> mem \<Rightarrow> u64 \<Rightarrow> u64 list" where
  "listed_tables extended m root =
     (if extended then map (xsdt_entry m root) [0..<nat (xsdt_entries m root)]
      else map (rsdt_entry m root) [0..<nat (rsdt_entries m root)])"

definition find_listed :: "bool \<Rightarrow> mem \<Rightarrow> u64 \<Rightarrow> u64 \<Rightarrow> u64" where
  "find_listed extended = (if extended then FindXSDTTable else FindRSDTTable)"

lemma full_signature:
  assumes "get_bytes m signature 4 = [a, b, c, d]" "0 \<notin> set [a, b, c, d]" "0 \<notin> set (get_bytes m h 4)"
  shows "signature_matches m signature h \<longleftrightarrow> get_bytes m h 4 = [a, b, c, d]"
proof -
  have t: "takeWhile (\<lambda>x. x \<noteq> 0) (get_bytes m h 4) = get_bytes m h 4"
    using assms(3) by (intro takeWhile_eq_all_conv [THEN iffD2]) auto
  have l: "length (get_bytes m h 4) = 4" by (simp add: get_bytes_def)
  have "get_bytes m h 4 = take k [a, b, c, d] \<Longrightarrow> k \<le> 4 \<Longrightarrow> get_bytes m h 4 = [a, b, c, d]" for k
    using l by (cases "k = 4") auto
  moreover have "take 4 [a, b, c, d] = [a, b, c, d]" by simp
  ultimately show ?thesis unfolding signature_matches_prefix [OF assms(1,2)] t by (metis order_refl)
qed

lemma find_map_entries: "find P (map f xs) = map_option f (find (\<lambda>x. P (f x)) xs)"
  by (induction xs) simp_all

lemma find_cong_set: "(\<And>x. x \<in> set xs \<Longrightarrow> P x = Q x) \<Longrightarrow> find P xs = find Q xs"
  by (induction xs) simp_all

lemma find_listed_named:
  assumes sig: "get_bytes m signature 4 = [a, b, c, d]" "0 \<notin> set [a, b, c, d]"
    and full: "\<forall>t \<in> set (listed_tables ext m root). 0 \<notin> set (get_bytes m t 4)"
  shows "find_listed ext m root signature =
    (case find (\<lambda>t. get_bytes m t 4 = [a, b, c, d]) (listed_tables ext m root) of None \<Rightarrow> NULL | Some t \<Rightarrow> t)"
proof -
  have "find (\<lambda>t. get_bytes m t 4 = [a, b, c, d]) (listed_tables ext m root)
      = find (signature_matches m signature) (listed_tables ext m root)"
    using full full_signature [OF sig] by (intro find_cong_set) simp
  then show ?thesis
    by (cases ext) (simp_all add: find_listed_def listed_tables_def FindXSDTTable_def FindRSDTTable_def find_table_find
      find_map_entries split: option.splits)
qed

lemma mod_in_block: "k * M \<le> q \<Longrightarrow> q < k * M + M \<Longrightarrow> q mod M = q - k * M" for q :: nat
proof -
  assume "k * M \<le> q" "q < k * M + M"
  then obtain c where "q = k * M + c" "c < M" by (metis add_less_cancel_left le_Suc_ex)
  then show ?thesis by simp
qed

text \<open>A root table shorter than a header has no entries.\<close>

lemma short_root_table:
  assumes "unat (sdt_Length (SDTHeader_at m h)) < 36"
  shows "xsdt_entries m h \<le> 0" "rsdt_entries m h \<le> 0"
proof -
  let ?L = "unat (sdt_Length (SDTHeader_at m h))"
  have u: "unat (ucast (sdt_Length (SDTHeader_at m h)) - 36 :: u64) = 2 ^ 64 + ?L - 36"
    using assms by (subst unat_sub_wrap) (simp_all add: unat_ucast_up)
  have neg: "sint (ucast (w :: u64) :: u32) \<le> 0"
    if "unat w mod 4294967296 \<ge> 2147483648" for w
  proof -
    let ?v = "ucast w :: u32"
    have "unat ?v = unat w mod 4294967296" by (simp add: unsigned_ucast_eq take_bit_eq_mod)
    then have ge: "2147483648 \<le> unat ?v" using that by simp
    show ?thesis
    proof (rule ccontr)
      assume "\<not> sint ?v \<le> 0"
      then have "0 \<le> sint ?v" by simp
      have "sint ?v < 2147483648" using sint_lt [of ?v] by simp
      with sint_nonneg_unat [OF \<open>0 \<le> sint ?v\<close>] ge show False by linarith
    qed
  qed
  have L: "?L < 36" using assms .
  have "536870911 * 4294967296 + 2147483648 \<le> (2 ^ 64 + ?L - 36) div 8"
    "(2 ^ 64 + ?L - 36) div 8 < 536870911 * 4294967296 + 4294967296"
    using L by simp_all
  then have "(2 ^ 64 + ?L - 36) div 8 mod 4294967296 \<ge> 2147483648"
    by (subst mod_in_block [of 536870911]) linarith+
  then show "xsdt_entries m h \<le> 0"
    unfolding xsdt_entries_def by (intro neg) (simp add: unat_div u)
  have "1073741823 * 4294967296 + 2147483648 \<le> (2 ^ 64 + ?L - 36) div 4"
    "(2 ^ 64 + ?L - 36) div 4 < 1073741823 * 4294967296 + 4294967296"
    using L by simp_all
  then have "(2 ^ 64 + ?L - 36) div 4 mod 4294967296 \<ge> 2147483648"
    by (subst mod_in_block [of 1073741823]) linarith+
  then show "rsdt_entries m h \<le> 0"
    unfolding rsdt_entries_def by (intro neg) (simp add: unat_div u)
qed

lemma xsdt_entries_unat:
  assumes "36 \<le> unat (sdt_Length (SDTHeader_at m h))"
  shows "xsdt_entries m h = int ((unat (sdt_Length (SDTHeader_at m h)) - 36) div 8)"
    "rsdt_entries m h = int ((unat (sdt_Length (SDTHeader_at m h)) - 36) div 4)"
proof -
  let ?L = "unat (sdt_Length (SDTHeader_at m h))"
  have l: "?L < 4294967296" by (rule unat32_lt)
  have u: "unat (ucast (sdt_Length (SDTHeader_at m h)) - 36 :: u64) = ?L - 36"
    using assms by (subst unat_sub_no_wrap) (simp_all add: unat_ucast_up)
  have s: "sint (ucast (w :: u64) :: u32) = int (unat w)" if "unat w < 2147483648" for w
  proof -
    have "unat (ucast w :: u32) = unat w"
      using that by (simp add: unsigned_ucast_eq take_bit_nat_eq_self)
    with that show ?thesis by (subst sint_small) simp_all
  qed
  show "xsdt_entries m h = int ((?L - 36) div 8)"
    unfolding xsdt_entries_def using l by (subst s) (simp_all add: unat_div u)
  show "rsdt_entries m h = int ((?L - 36) div 4)"
    unfolding rsdt_entries_def using l by (subst s) (simp_all add: unat_div u)
qed

definition table_ok :: "mem \<Rightarrow> u64 \<Rightarrow> bool" where
  "table_ok m h \<longleftrightarrow> 36 \<le> unat (sdt_Length (SDTHeader_at m h))
     \<and> k_checksum m h (ucast (sdt_Length (SDTHeader_at m h))) = 0"

lemma check_sdt_ok: "check_sdt m h suffix = Inr () \<longleftrightarrow> table_ok m h"
proof -
  have "ucast (sdt_Length (SDTHeader_at m h)) < (36 :: u64) \<longleftrightarrow> unat (sdt_Length (SDTHeader_at m h)) < 36"
    by (simp add: word_less_nat_alt unat_ucast_up)
  then show ?thesis by (auto simp: check_sdt_def table_ok_def)
qed

lemma enum_tables_ok: "enum_tables tab m n t = Inr () \<longleftrightarrow> (\<forall>k. t \<le> k \<and> k < t + n \<longrightarrow> table_ok m (tab k))"
proof (induction n arbitrary: t)
  case (Suc n)
  have "(\<forall>k. t \<le> k \<and> k < t + Suc n \<longrightarrow> table_ok m (tab k)) \<longleftrightarrow>
      table_ok m (tab t) \<and> (\<forall>k. Suc t \<le> k \<and> k < Suc t + n \<longrightarrow> table_ok m (tab k))"
    by (metis Suc_le_eq add_Suc_right add_Suc order_le_less lessI less_add_Suc1)
  with Suc check_sdt_ok [of m "tab t" "[]"] show ?case by (auto split: sum.splits)
qed auto

text \<open>
  \<open>EnumXSDT\<close> accepts a root table exactly when the table itself and all tables it names
  are at least as long as a header and their bytes add up to zero, and it then returns the
  number of entries that fit into the length.
\<close>

theorem EnumXSDT_accepts:
  "(\<exists>n. EnumXSDT m h = Inr n) \<longleftrightarrow>
     table_ok m h \<and> (\<forall>t < (unat (sdt_Length (SDTHeader_at m h)) - 36) div 8. table_ok m (xsdt_entry m h t))"
proof (cases "table_ok m h")
  case True
  then have n: "nat (xsdt_entries m h) = (unat (sdt_Length (SDTHeader_at m h)) - 36) div 8"
    by (simp add: xsdt_entries_unat table_ok_def)
  have "check_sdt m h '' (XSDT)'' = Inr ()" using True by (simp add: check_sdt_ok)
  then have "(\<exists>n. EnumXSDT m h = Inr n) \<longleftrightarrow>
      enum_tables (xsdt_entry m h) m (nat (xsdt_entries m h)) 0 = Inr ()"
    by (auto simp: EnumXSDT_def Let_def split: sum.splits)
  with True show ?thesis by (simp add: enum_tables_ok n)
next
  case False
  then have "check_sdt m h '' (XSDT)'' \<noteq> Inr ()" by (simp add: check_sdt_ok)
  then have "\<nexists>n. EnumXSDT m h = Inr n"
    by (cases "check_sdt m h '' (XSDT)''") (simp_all add: EnumXSDT_def)
  with False show ?thesis by simp
qed

subsection \<open>Sleep types and shutdown\<close>

definition S5_at :: "mem \<Rightarrow> u64 \<Rightarrow> bool" where
  "S5_at m a \<longleftrightarrow> get_bytes m a 4 = S5_name"

lemma scan_S5_first:
  "(\<forall>j < k. \<not> S5_at m (a + of_nat j)) \<Longrightarrow> S5_at m (a + of_nat k) \<Longrightarrow> int k < n \<Longrightarrow>
     scan_S5 m a n = (a + of_nat k, n - int k - 1)"
proof (induction k arbitrary: a n)
  case 0
  then show ?case by (simp add: scan_S5.simps [of m a n] S5_at_def)
next
  case (Suc k)
  have "\<not> S5_at m a" using Suc.prems(1) [rule_format, of 0] by simp
  then have "scan_S5 m a n = scan_S5 m (a + 1) (n - 1)"
    using Suc.prems(3) by (simp add: scan_S5.simps [of m a n] S5_at_def)
  moreover have "\<forall>j < k. \<not> S5_at m (a + 1 + of_nat j)"
  proof (intro allI impI)
    fix j assume "j < k"
    with Suc.prems(1) have "\<not> S5_at m (a + of_nat (Suc j))" by blast
    then show "\<not> S5_at m (a + 1 + of_nat j)" by (simp add: algebra_simps)
  qed
  then have "scan_S5 m (a + 1) (n - 1) = (a + 1 + of_nat k, n - 1 - int k - 1)"
    using Suc.prems(2,3) by (intro Suc.IH) (simp_all add: algebra_simps)
  ultimately show ?case by (simp add: algebra_simps)
qed

lemma scan_S5_none:
  "(\<forall>j. int j < n \<longrightarrow> \<not> S5_at m (a + of_nat j)) \<Longrightarrow> 0 \<le> n \<Longrightarrow> snd (scan_S5 m a n) = -1"
proof (induction m a n rule: scan_S5.induct)
  case (1 m a n)
  show ?case
  proof (cases "0 < n")
    case True
    have "\<not> S5_at m (a + of_nat 0)" using "1.prems"(1) [rule_format, of 0] True by simp
    moreover have "\<forall>j. int j < n - 1 \<longrightarrow> \<not> S5_at m (a + 1 + of_nat j)"
    proof (intro allI impI)
      fix j assume "int j < n - 1"
      then have "int (Suc j) < n" by simp
      then have "\<not> S5_at m (a + of_nat (Suc j))" using "1.prems"(1) by blast
      then show "\<not> S5_at m (a + 1 + of_nat j)" by (simp add: algebra_simps)
    qed
    ultimately show ?thesis
      using "1.IH" True by (simp add: scan_S5.simps [of m a n] S5_at_def)
  next
    case False
    with "1.prems"(2) show ?thesis by (simp add: scan_S5.simps)
  qed
qed

lemma dsdt_bound:
  assumes "unat L < 2 ^ 30"
  shows "sint (L * 2 :: u32) = 2 * int (unat L)"
proof -
  have u: "unat (L * 2) = unat L * 2" using assms by (subst unat_mult_no_wrap) simp_all
  then have "sint (L * 2) = int (unat (L * 2))" using assms by (intro sint_small) simp
  then show ?thesis by (simp only: u)
qed

text \<open>
  The sleep package as ACPI describes it in AML: a package operator, a package length (a lead byte whose
  two high bits count the bytes that follow it), the number of the elements, and the elements. A small
  constant is a byte behind the byte prefix, or the operator of zero or one.
\<close>

definition aml_const :: "u8 \<Rightarrow> u8 list \<Rightarrow> bool" where
  "aml_const v bs \<longleftrightarrow> bs = [0x0A, v] \<or> (v = 0 \<and> bs = [0x00]) \<or> (v = 1 \<and> bs = [0x01])"

definition S5_package :: "u8 \<Rightarrow> u8 \<Rightarrow> u8 list \<Rightarrow> bool" where
  "S5_package ta tb bs \<longleftrightarrow> (\<exists>lead follow n ea eb.
     bs = S5_name @ [0x12] @ [lead] @ follow @ [n] @ ea @ eb \<and> length follow = unat lead div 64 \<and>
     aml_const ta ea \<and> aml_const tb eb)"

text \<open>A name operator is in front of the name, which may start at the root.\<close>

definition named :: "mem \<Rightarrow> u64 \<Rightarrow> bool" where
  "named m a \<longleftrightarrow> m (a - 1) = 0x08 \<or> (m (a - 2) = 0x08 \<and> m (a - 1) = 0x5C)"

lemma pkg_length_bytes: "unat (ucast (drop_bit 6 (lead AND 0xC0)) :: u64) = unat (lead :: u8) div 64"
proof -
  have "list_all (\<lambda>n. unat (ucast (drop_bit 6 ((of_nat n :: u8) AND 0xC0)) :: u64) = n div 64) [0..<256]" by code_simp
  moreover have "unat lead \<in> set [0..<256]" using unat8_lt [of lead] by simp
  ultimately have "unat (ucast (drop_bit 6 ((of_nat (unat lead) :: u8) AND 0xC0)) :: u64) = unat lead div 64"
    by (simp only: list_all_iff)
  then show ?thesis by simp
qed

lemma get_bytes_at: "get_bytes m a (length bs) = bs \<Longrightarrow> i < length bs \<Longrightarrow> m (a + of_nat i) = bs ! i"
  by (metis get_bytes_nth)

lemma S5_package_length: "S5_package ta tb bs \<Longrightarrow> 4 \<le> length bs"
  by (auto simp: S5_package_def S5_name_def)

lemma take_get_bytes:
  assumes "get_bytes m a (length bs) = bs" "n \<le> length bs"
  shows "get_bytes m a n = take n bs"
  by (rule nth_equalityI) (use assms in \<open>auto simp: get_bytes_nth get_bytes_at\<close>)

lemma parse_S5_package:
  assumes "get_bytes m a (length bs) = bs" "S5_package ta tb bs"
  shows "parse_S5 m a = (push_bit 10 (ucast ta), push_bit 10 (ucast tb))" "m (a + 4) = 0x12"
proof -
  from assms(2) obtain lead follow n ea eb where bs: "bs = S5_name @ [0x12] @ [lead] @ follow @ [n] @ ea @ eb"
    and l: "length follow = unat lead div 64" and e: "aml_const ta ea" "aml_const tb eb"
    unfolding S5_package_def by blast
  have at: "m (a + of_nat i) = bs ! i" if "i < length bs" for i using get_bytes_at [OF assms(1) that] .
  have S: "length S5_name = 4" by (simp add: S5_name_def)
  have ne: "ea \<noteq> []" "eb \<noteq> []" using e by (auto simp: aml_const_def)
  show "m (a + 4) = 0x12" using at [of 4] by (simp add: bs nth_append S)
  have lead: "m (a + 5) = lead" using at [of 5] by (simp add: bs nth_append S)
  define p where "p = a + of_nat (7 + length follow)"
  have a2: "a + 5 + (ucast (drop_bit 6 (m (a + 5) AND 0xC0)) + 2) = p"
  proof -
    have "(ucast (drop_bit 6 (lead AND 0xC0)) :: u64) = of_nat (length follow)"
      using pkg_length_bytes [of lead] l by (metis of_nat_unat ucast_id)
    then show ?thesis by (simp add: lead p_def)
  qed
  have pi: "m (p + of_nat i) = (ea @ eb) ! i" if "i < length (ea @ eb)" for i
    using at [of "7 + length follow + i"] that by (simp add: p_def bs nth_append S add.assoc)
  have p0: "m p = ea ! 0" using pi [of 0] ne by (simp add: nth_append)
  define q where "q = p + of_nat (length ea)"
  have q0: "m q = eb ! 0" using pi [of "length ea"] ne by (simp add: q_def nth_append)
  have q1: "m (q + 1) = eb ! 1" if "length eb = 2"
    using pi [of "Suc (length ea)"] that by (simp add: q_def nth_append algebra_simps)
  have pa: "(if m p = 0x0A then p + 1 else p) + 1 = q \<and> m (if m p = 0x0A then p + 1 else p) = ta"
  proof (cases "ea = [0x0A, ta]")
    case True
    then show ?thesis using p0 pi [of 1] by (simp add: q_def nth_append add.assoc)
  next
    case False
    then have "ea = [ta]" "ta \<noteq> 0x0A" using e(1) by (auto simp: aml_const_def)
    then show ?thesis using p0 by (simp add: q_def)
  qed
  have qb: "m (if m q = 0x0A then q + 1 else q) = tb"
  proof (cases "eb = [0x0A, tb]")
    case True
    then show ?thesis using q0 q1 by simp
  next
    case False
    then have "eb = [tb]" "tb \<noteq> 0x0A" using e(2) by (auto simp: aml_const_def)
    then show ?thesis using q0 by simp
  qed
  show "parse_S5 m a = (push_bit 10 (ucast ta), push_bit 10 (ucast tb))"
    using pa qb by (simp only: parse_S5_def Let_def a2)
qed

text \<open>
  C31. With a sleep package in the DSDT, \<open>InitFACP\<close> and \<open>Shutdown\<close> together write the package's
  two sleep types with the sleep enable bit to the two power management ports of the FACP, the
  second one only when it exists, and then fall back to the emulators' ports and panic.
\<close>

theorem InitFACP_Shutdown:
  assumes dsdt: "d = ucast (facp_DSDT (FACPHeader_at m facp))"
      "get_bytes m d 4 = [0x44, 0x53, 0x44, 0x54]"
    and len: "unat (sdt_Length (SDTHeader_at m d)) < 2 ^ 30"
      "k + 1 < 2 * unat (sdt_Length (SDTHeader_at m d))"
    and first: "\<forall>j < k. get_bytes m (d + 36 + of_nat j) 4 \<noteq> [0x5F, 0x53, 0x35, 0x5F]"
    and package: "named m (d + 36 + of_nat k)" "get_bytes m (d + 36 + of_nat k) (length bs) = bs" "S5_package ta tb bs"
  shows "Shutdown (InitFACP m facp st) tr = (Panic ''Unreachable code hit'',
    tr @ Out16 (ucast (facp_PM1a_CNT_BLK (FACPHeader_at m facp))) (push_bit 10 (ucast ta) OR 0x2000) #
      (if facp_PM1b_CNT_BLK (FACPHeader_at m facp) = 0 then []
       else [Out16 (ucast (facp_PM1b_CNT_BLK (FACPHeader_at m facp))) (push_bit 10 (ucast tb) OR 0x2000)]) @
      [Out16 0xB004 0x2000, Out16 0x604 0x2000, Out16 0x4004 0x3400])"
proof -
  let ?n = "2 * int (unat (sdt_Length (SDTHeader_at m d)))"
  have D: "get32 m d = bake 0x44 0x53 0x44 0x54" unfolding get32_def dsdt(2) by code_simp
  note parse = parse_S5_package [OF package(2,3)]
  have "get_bytes m (d + 36 + of_nat k) 4 = take 4 bs"
    by (rule take_get_bytes [OF package(2) S5_package_length [OF package(3)]])
  also have "\<dots> = S5_name" using package(3) by (auto simp: S5_package_def S5_name_def)
  finally have at: "S5_at m (d + 36 + of_nat k)" by (simp add: S5_at_def)
  have no: "\<forall>j < k. \<not> S5_at m (d + 36 + of_nat j)" using first by (simp add: S5_at_def S5_name_def)
  have "scan_S5 m (d + 36) ?n = (d + 36 + of_nat k, ?n - int k - 1)"
    using len(2) by (intro scan_S5_first no at) linarith
  moreover have "sint (sdt_Length (SDTHeader_at m d) * 2) = ?n" using len(1) by (rule dsdt_bound)
  moreover have "\<not> ?n - int k - 1 \<le> 0" using len(2) by linarith
  moreover have "valid_S5 m (d + 36 + of_nat k)" using package(1) parse(2) by (simp add: valid_S5_def named_def)
  ultimately show ?thesis
    using D dsdt(1) parse(1)
    by (simp add: InitFACP_def Let_def Shutdown_def outw_def push_bit_eq_mult)
qed

text \<open>Without a sleep package nothing is set up, and only the emulators' ports are tried.\<close>

lemma InitFACP_no_S5:
  assumes "d = ucast (facp_DSDT (FACPHeader_at m facp))"
    and "unat (sdt_Length (SDTHeader_at m d)) < 2 ^ 30"
    and "\<forall>j < 2 * unat (sdt_Length (SDTHeader_at m d)). \<not> S5_at m (d + 36 + of_nat j)"
  shows "InitFACP m facp st = st\<lparr>g_FACPHeader := facp\<rparr>"
proof -
  let ?n = "2 * int (unat (sdt_Length (SDTHeader_at m d)))"
  have "\<not> S5_at m (d + 36 + of_nat j)" if "int j < ?n" for j
  proof -
    have "j < 2 * unat (sdt_Length (SDTHeader_at m d))" using that by linarith
    with assms(3) show ?thesis by blast
  qed
  then have "snd (scan_S5 m (d + 36) (sint (sdt_Length (SDTHeader_at m d) * 2))) = -1"
    unfolding dsdt_bound [OF assms(2)] by (intro scan_S5_none) simp_all
  then show ?thesis
    unfolding InitFACP_def Let_def assms(1) [symmetric] by (simp add: case_prod_beta)
qed

subsection \<open>Examples\<close>

text \<open>
  A FACP at 0x1000 whose DSDT lies at 0x2000 and holds a sleep package, and a root table at
  0x3000 that names the FACP.
\<close>

definition example_acpi :: mem where
  "example_acpi =
     (poke 0x1000 [0x46, 0x41, 0x43, 0x50] \<circ> poke 0x1029 [0x20] \<circ> poke 0x1040 [0x04, 0xB0] \<circ>
      poke 0x2000 [0x44, 0x53, 0x44, 0x54, 60] \<circ>
      poke 0x2028 [0x08, 0x5F, 0x53, 0x35, 0x5F, 0x12, 0x47, 0x00, 0x02, 0x0A, 0x05, 0x0A, 0x07] \<circ>
      poke 0x3000 [0x58, 0x53, 0x44, 0x54, 44] \<circ> poke 0x3025 [0x10] \<circ>
      poke 0x4000 [0x46, 0x41, 0x43, 0x50]) (\<lambda>_. 0)"

lemma example_FACP:
  "facp_DSDT (FACPHeader_at example_acpi 0x1000) = 0x2000"
  "facp_PM1a_CNT_BLK (FACPHeader_at example_acpi 0x1000) = 0xB004"
  "facp_PM1b_CNT_BLK (FACPHeader_at example_acpi 0x1000) = 0"
  "sdt_Length (SDTHeader_at example_acpi 0x2000) = 60"
  "sdt_Length (SDTHeader_at example_acpi 0x3000) = 44"
  by (simp_all only: FACPHeader_at_def FACPHeader.select_convs SDTHeader_at_def SDTHeader.select_convs)
     code_simp+

lemma example_S5:
  "get_bytes example_acpi 0x2000 4 = [0x44, 0x53, 0x44, 0x54]"
  "list_all (\<lambda>j. get_bytes example_acpi (0x2024 + of_nat j) 4 \<noteq> [0x5F, 0x53, 0x35, 0x5F]) [0..<5]"
  "named example_acpi 0x2029"
  "get_bytes example_acpi 0x2029 12 = [0x5F, 0x53, 0x35, 0x5F, 0x12, 0x47, 0x00, 0x02, 0x0A, 0x05, 0x0A, 0x07]"
  by code_simp+

theorem InitFACP_Shutdown_witness:
  "\<forall>st. hd (snd (Shutdown (InitFACP example_acpi 0x1000 st) [])) = Out16 0xB004 0x3400"
proof -
  let ?bs = "[0x5F, 0x53, 0x35, 0x5F, 0x12, 0x47, 0x00, 0x02, 0x0A, 0x05, 0x0A, 0x07] :: u8 list"
  have "?bs = S5_name @ [0x12] @ [0x47] @ [0x00] @ [0x02] @ [0x0A, 0x05] @ [0x0A, 0x07]"
    by (simp add: S5_name_def)
  then have "S5_package 5 7 ?bs" unfolding S5_package_def aml_const_def by fastforce
  moreover have "\<forall>j < 5. get_bytes example_acpi (0x2000 + 36 + of_nat j) 4 \<noteq> [0x5F, 0x53, 0x35, 0x5F]"
    using example_S5(2) by (simp add: list_all_iff del: upt_rec_numeral)
  moreover have "length ?bs = 12" by simp
  then have "get_bytes example_acpi (0x2000 + 36 + of_nat 5) (length ?bs) = ?bs" using example_S5(4) by (simp only: ) simp
  ultimately show ?thesis
    using InitFACP_Shutdown [of "0x2000" example_acpi "0x1000" 5 ?bs 5 7 _ "[]"] example_S5(1,3)
    by (simp add: example_FACP del: list.size)
qed

theorem FindTable_first_witness:
  "FindXSDTTable example_acpi 0x3000 0x4000 = 0x1000"
proof -
  have "get_bytes example_acpi 0x4000 4 = [0x46, 0x41, 0x43, 0x50]"
    "xsdt_entry example_acpi 0x3000 0 = 0x1000"
    "takeWhile (\<lambda>x. x \<noteq> 0) (get_bytes example_acpi 0x1000 4) = [0x46, 0x41, 0x43, 0x50]"
    by code_simp+
  moreover have "nat (xsdt_entries example_acpi 0x3000) = 1"
    by (simp add: xsdt_entries_unat example_FACP)
  ultimately show ?thesis
    using FindTable_first [of example_acpi "0x4000" "0x46" "0x41" "0x43" "0x50" "0x3000"]
    by (auto split: option.splits)
qed

text \<open>Zeroed memory is taken for any table.\<close>

lemma zeroed_matches:
  "m h = 0 \<Longrightarrow> signature_matches m signature h"
  by (auto simp: signature_matches_def k_strncmp_def strncmp_loop_0 dest: spec [where x = "0 :: nat"])

text \<open>An empty root table with a valid checksum.\<close>

definition example_root :: mem where
  "example_root = (poke 0x5004 [36] \<circ> poke 0x5009 [0xDC]) (\<lambda>_. 0)"

theorem EnumXSDT_accepts_witness: "\<exists>n. EnumXSDT example_root 0x5000 = Inr n"
proof -
  have l: "sdt_Length (SDTHeader_at example_root 0x5000) = 36"
    by (simp only: SDTHeader_at_def SDTHeader.select_convs) code_simp
  have "k_checksum example_root 0x5000 36 = 0" by code_simp
  then have "table_ok example_root 0x5000" by (simp add: table_ok_def l)
  then show ?thesis using EnumXSDT_accepts [of example_root "0x5000"] by (simp add: l)
qed

end
