(* ===== verification/Drivers.thy ===== *)
theory Drivers
  imports Prelude
begin

section \<open>The driver manager (kernel/src/utils/driver.cpp)\<close>

text \<open>
  An array of 512 driver pointers and their number. The array is not initialised, so its content
  above the number is arbitrary; \<open>None\<close> is a NULL pointer. Drivers are values of a type
  parameter, and what the virtual \<open>activate\<close> of a driver does to the rest of the kernel is an
  argument of \<open>activate_all\<close>.
\<close>

abbreviation (input) DRIVER_NUM :: u64 where "DRIVER_NUM \<equiv> 512"

record 'd DriverManager =
  drivers :: "u64 \<Rightarrow> 'd option"
  num_of_drivers :: u64

definition DriverManager_new :: "'d DriverManager \<Rightarrow> 'd DriverManager" where
  "DriverManager_new uninitialised = uninitialised\<lparr>num_of_drivers := 0\<rparr>"

definition add_driver :: "'d DriverManager \<Rightarrow> 'd \<Rightarrow> 'd DriverManager" where
  "add_driver dm driver =
     (if num_of_drivers dm = DRIVER_NUM then dm
      else dm\<lparr>drivers := (drivers dm)(num_of_drivers dm := Some driver),
              num_of_drivers := num_of_drivers dm + 1\<rparr>)"

definition get_by_index :: "'d DriverManager \<Rightarrow> u64 \<Rightarrow> 'd option" where
  "get_by_index dm index = (if index > num_of_drivers dm - 1 then None else drivers dm index)"

definition get_num_of_drivers :: "'d DriverManager \<Rightarrow> u64" where
  "get_num_of_drivers dm = num_of_drivers dm"

definition Driver_activate :: "'s \<Rightarrow> bool \<times> 's" where
  "Driver_activate s = (False, s)"

text \<open>The result is whether all drivers could be loaded.\<close>

definition activate_all :: "('d \<Rightarrow> 's \<Rightarrow> bool \<times> 's) \<Rightarrow> 'd DriverManager \<Rightarrow> 's \<Rightarrow> bool \<times> 's" where
  "activate_all act dm s =
     (case for_upto (num_of_drivers dm)
        (\<lambda>i (failed, s). case drivers dm i of None \<Rightarrow> (failed, s)
           | Some d \<Rightarrow> (case act d s of (ok, s') \<Rightarrow> (failed \<or> \<not> ok, s')))
        (False, s)
      of (failed, s') \<Rightarrow> (\<not> failed, s'))"

subsection \<open>What the manager holds\<close>

text \<open>The manager as a list: its abstraction, of at most 512 drivers.\<close>

definition driver_list :: "'d DriverManager \<Rightarrow> 'd option list" where
  "driver_list dm = map (\<lambda>i. drivers dm (of_nat i)) [0..<unat (num_of_drivers dm)]"

definition manager_ok :: "'d DriverManager \<Rightarrow> bool" where
  "manager_ok dm \<longleftrightarrow> num_of_drivers dm \<le> DRIVER_NUM \<and> (\<forall>i < num_of_drivers dm. drivers dm i \<noteq> None)"

lemma manager_ok_new [simp]: "manager_ok (DriverManager_new u)"
  by (simp add: manager_ok_def DriverManager_new_def)

lemma driver_list_new [simp]: "driver_list (DriverManager_new u) = []"
  by (simp add: driver_list_def DriverManager_new_def)

lemma add_driver_ok:
  assumes "manager_ok dm"
  shows "manager_ok (add_driver dm d)"
    "driver_list (add_driver dm d) = take 512 (driver_list dm @ [Some d])"
proof -
  have n: "unat (num_of_drivers dm) \<le> 512" using assms by (simp add: manager_ok_def word_le_nat_alt)
  show "manager_ok (add_driver dm d)"
  proof (cases "num_of_drivers dm = DRIVER_NUM")
    case True
    then show ?thesis using assms by (simp add: add_driver_def)
  next
    case False
    then have lt: "num_of_drivers dm < DRIVER_NUM" using assms unfolding manager_ok_def by (simp add: order.strict_iff_order)
    then have s: "unat (num_of_drivers dm + 1) = Suc (unat (num_of_drivers dm))" by (rule unat_add_1_less)
    then have "i < num_of_drivers dm + 1 \<longleftrightarrow> i < num_of_drivers dm \<or> i = num_of_drivers dm" for i
      by (auto simp: word_less_nat_alt less_Suc_eq word_unat_eq_iff)
    moreover have "num_of_drivers dm + 1 \<le> DRIVER_NUM" using lt s by (simp add: word_le_nat_alt word_less_nat_alt)
    ultimately show ?thesis using assms False by (auto simp: add_driver_def manager_ok_def)
  qed
  show "driver_list (add_driver dm d) = take 512 (driver_list dm @ [Some d])"
  proof (cases "num_of_drivers dm = DRIVER_NUM")
    case True
    then show ?thesis by (simp add: add_driver_def driver_list_def)
  next
    case False
    then have lt: "num_of_drivers dm < DRIVER_NUM" using assms unfolding manager_ok_def by (simp add: order.strict_iff_order)
    then have s: "unat (num_of_drivers dm + 1) = Suc (unat (num_of_drivers dm))" by (rule unat_add_1_less)
    have ne: "(of_nat i :: u64) \<noteq> num_of_drivers dm" if "i < unat (num_of_drivers dm)" for i
    proof
      assume "of_nat i = num_of_drivers dm"
      then have "unat (of_nat i :: u64) = unat (num_of_drivers dm)" by simp
      with that n show False by (simp add: unat_of_nat_small)
    qed
    show ?thesis using False lt ne
      by (simp add: add_driver_def driver_list_def s word_less_nat_alt)
  qed
qed

lemma add_drivers_list:
  "manager_ok dm \<Longrightarrow> manager_ok (fold (\<lambda>d dm. add_driver dm d) ds dm)
     \<and> driver_list (fold (\<lambda>d dm. add_driver dm d) ds dm) = take 512 (driver_list dm @ map Some ds)"
proof (induction ds arbitrary: dm)
  case Nil
  then have "unat (num_of_drivers dm) \<le> 512" by (simp add: manager_ok_def word_le_nat_alt)
  with Nil show ?case by (simp add: driver_list_def)
next
  case (Cons d ds)
  then have "unat (num_of_drivers dm) \<le> 512" by (simp add: manager_ok_def word_le_nat_alt)
  then have "length (driver_list dm) \<le> 512" by (simp add: driver_list_def)
  then have "take 512 (take 512 (driver_list dm @ [Some d]) @ map Some ds)
      = take 512 (driver_list dm @ Some d # map Some ds)"
    by (cases "length (driver_list dm) = 512") simp_all
  with Cons.IH [OF add_driver_ok(1) [OF Cons.prems], of d] show ?case
    by (simp add: add_driver_ok(2) [OF Cons.prems])
qed

lemma driver_list_nth:
  "index < num_of_drivers dm \<Longrightarrow> driver_list dm ! unat index = drivers dm index"
  by (simp add: driver_list_def word_less_nat_alt)

text \<open>
  The manager is a list of at most 512 drivers: after registering any drivers it holds them
  in order, the 513th and later ones are dropped, every index below their number gives the
  registered driver and every other index gives NULL.
\<close>

theorem add_driver_get_by_index:
  assumes "dm = fold (\<lambda>d dm. add_driver dm d) ds (DriverManager_new u)" "ds \<noteq> []"
  shows "unat (get_num_of_drivers dm) = min 512 (length ds)
    \<and> get_by_index dm i = (if unat i < min 512 (length ds) then Some (ds ! unat i) else None)"
proof -
  have l: "manager_ok dm" "driver_list dm = take 512 (map Some ds)"
    using add_drivers_list [OF manager_ok_new, of ds u] assms(1) by simp_all
  from arg_cong [OF l(2), of length] have n: "unat (num_of_drivers dm) = min 512 (length ds)"
    by (simp add: driver_list_def min.commute)
  have pos: "0 < unat (num_of_drivers dm)" using n assms(2) by (simp add: Suc_leI)
  then have "unat (num_of_drivers dm - 1) = unat (num_of_drivers dm) - 1"
    by (subst unat_sub_no_wrap) simp_all
  then have "i > num_of_drivers dm - 1 \<longleftrightarrow> \<not> unat i < unat (num_of_drivers dm)"
    using pos by (simp add: word_less_nat_alt) linarith
  moreover have "drivers dm i = Some (ds ! unat i)" if "unat i < unat (num_of_drivers dm)"
    using that driver_list_nth [of i dm] l(2) n by (simp add: word_less_nat_alt)
  ultimately show ?thesis using n by (simp add: get_by_index_def get_num_of_drivers_def)
qed

theorem add_driver_get_by_index_witness:
  "get_by_index (fold (\<lambda>d dm. add_driver dm d) [7, 8, 9 :: nat] (DriverManager_new undefined)) 2 = Some 9"
  using add_driver_get_by_index [OF refl, of "[7, 8, 9 :: nat]" undefined 2] by simp

text \<open>Without drivers the last index wraps around, and any slot of the array is returned.\<close>

lemma get_by_index_empty: "get_by_index (DriverManager_new u) i = drivers u i"
  by (simp add: get_by_index_def DriverManager_new_def not_less)

end
