(* ===== verification/Pci.thy ===== *)
theory Pci
  imports StableMem Ahci Acpi Drivers
begin

section \<open>PCI enumeration (kernel/src/PCI/pci.cpp)\<close>

text \<open>
  The walk over the configuration space that the MCFG table describes. Every header is mapped to
  itself before it is read, so the walk changes the page tables; the configuration space itself
  is part of the memory. At most 32 functions are remembered, and an AHCI driver is registered for
  each of them that is a disk controller. Console output is left out.
\<close>

subsection \<open>Layouts\<close>

record PCIDeviceheader =
  VendorID :: u16
  DeviceID :: u16
  Command :: u16
  Status :: u16
  RevisionID :: u8
  ProgIF :: u8
  Subclass :: u8
  Class :: u8
  CacheLineSize :: u8
  LatencyTimer :: u8
  HeaderType :: u8
  BIST :: u8

definition PCIDeviceheader_at :: "mem \<Rightarrow> u64 \<Rightarrow> PCIDeviceheader" where
  "PCIDeviceheader_at m a = \<lparr>VendorID = get16 m a, DeviceID = get16 m (a + 2),
     Command = get16 m (a + 4), Status = get16 m (a + 6), RevisionID = get8 m (a + 8),
     ProgIF = get8 m (a + 9), Subclass = get8 m (a + 10), Class = get8 m (a + 11),
     CacheLineSize = get8 m (a + 12), LatencyTimer = get8 m (a + 13), HeaderType = get8 m (a + 14),
     BIST = get8 m (a + 15)\<rparr>"

record DeviceConfig =
  BaseAddress :: u64
  PCISigGroup :: u16
  StartBus :: u8
  EndBus :: u8
  Reserved :: u32

definition DeviceConfig_at :: "mem \<Rightarrow> u64 \<Rightarrow> DeviceConfig" where
  "DeviceConfig_at m a = \<lparr>BaseAddress = get64 m a, PCISigGroup = get16 m (a + 8),
     StartBus = get8 m (a + 10), EndBus = get8 m (a + 11), Reserved = get32 m (a + 12)\<rparr>"

definition sizeof_MCFGHeader :: u64 where "sizeof_MCFGHeader = 44"
definition sizeof_DeviceConfig :: u64 where "sizeof_DeviceConfig = 16"

subsection \<open>Enumeration\<close>

text \<open>\<open>s_pci_devices\<close> up to \<open>s_pci_devices_num\<close>, with the memory and its allocator.\<close>

record pci_state =
  paging :: PageFrameAllocator
  devices :: "u64 list"

definition MAX_NUMBER_OF_LANES :: nat where "MAX_NUMBER_OF_LANES = 32"

definition map_header :: "u64 \<Rightarrow> u64 \<Rightarrow> pci_state \<Rightarrow> pci_state" where
  "map_header PML4 a st = st\<lparr>paging := fst (MapMemory (paging st) PML4 a a)\<rparr>"

definition EnumerateFunction :: "u64 \<Rightarrow> u64 \<Rightarrow> u64 \<Rightarrow> pci_state \<Rightarrow> pci_state" where
  "EnumerateFunction PML4 deviceAddress function st =
     (let offset = push_bit 12 function;
          functionAddress = deviceAddress + offset;
          st = map_header PML4 functionAddress st;
          pciDeviceHeader = PCIDeviceheader_at (pmem (paging st)) functionAddress in
      if DeviceID pciDeviceHeader = 0 then st
      else if DeviceID pciDeviceHeader = 0xffff then st
      else if length (devices st) \<ge> MAX_NUMBER_OF_LANES then st
      else st\<lparr>devices := devices st @ [functionAddress]\<rparr>)"

definition EnumerateDevice :: "u64 \<Rightarrow> u64 \<Rightarrow> u64 \<Rightarrow> pci_state \<Rightarrow> pci_state" where
  "EnumerateDevice PML4 busAddress device st =
     (let offset = push_bit 15 device;
          deviceAddress = busAddress + offset;
          st = map_header PML4 deviceAddress st;
          pciDeviceHeader = PCIDeviceheader_at (pmem (paging st)) deviceAddress in
      if DeviceID pciDeviceHeader = 0 then st
      else if DeviceID pciDeviceHeader = 0xffff then st
      else fold (\<lambda>function. EnumerateFunction PML4 deviceAddress (of_nat function)) [0..<8] st)"

definition EnumerateBus :: "u64 \<Rightarrow> u64 \<Rightarrow> u64 \<Rightarrow> pci_state \<Rightarrow> pci_state" where
  "EnumerateBus PML4 baseAddress bus st =
     (let offset = push_bit 20 bus;
          busAddress = baseAddress + offset;
          st = map_header PML4 busAddress st;
          pciDeviceHeader = PCIDeviceheader_at (pmem (paging st)) busAddress in
      if DeviceID pciDeviceHeader = 0 then st
      else if DeviceID pciDeviceHeader = 0xffff then st
      else fold (\<lambda>device. EnumerateDevice PML4 busAddress (of_nat device)) [0..<32] st)"

text \<open>The loop over the buses of an entry; its bounds are read from memory in every round.\<close>

function bus_loop :: "u64 \<Rightarrow> u64 \<Rightarrow> u64 \<Rightarrow> pci_state \<Rightarrow> pci_state" where
  "bus_loop PML4 newDeviceConfig bus st =
     (let c = DeviceConfig_at (pmem (paging st)) newDeviceConfig in
      if bus < ucast (EndBus c)
      then bus_loop PML4 newDeviceConfig (bus + 1) (EnumerateBus PML4 (BaseAddress c) bus st)
      else st)"
  by pat_completeness auto
termination
proof (relation "measure (\<lambda>(r, c, bus, st). 256 - unat bus)")
  fix PML4 a bus :: u64 and st :: pci_state and c :: DeviceConfig
  assume "bus < ucast (EndBus c)"
  then have "unat bus < unat (EndBus c)" "unat (bus + 1) = Suc (unat bus)"
    by (simp_all add: word_less_nat_alt unat_ucast_up unat_add_1_less [of bus "ucast (EndBus c)"])
  then show "((PML4, a, bus + 1, EnumerateBus PML4 (BaseAddress c) bus st), PML4, a, bus, st)
      \<in> measure (\<lambda>(r, c, bus, st). 256 - unat bus)"
    using unat8_lt [of "EndBus c"] by simp
qed simp

declare bus_loop.simps [simp del]

definition mcfg_entries :: "mem \<Rightarrow> u64 \<Rightarrow> u64" where
  "mcfg_entries m mcfg = (ucast (sdt_Length (SDTHeader_at m mcfg)) - sizeof_MCFGHeader) div sizeof_DeviceConfig"

definition mcfg_entry :: "u64 \<Rightarrow> u64 \<Rightarrow> u64" where
  "mcfg_entry mcfg t = mcfg + sizeof_MCFGHeader + sizeof_DeviceConfig * t"

definition enumerate_buses :: "u64 \<Rightarrow> u64 \<Rightarrow> u64 \<Rightarrow> pci_state \<Rightarrow> pci_state" where
  "enumerate_buses PML4 mcfg entries st =
     for_upto entries (\<lambda>t st. bus_loop PML4 (mcfg_entry mcfg t)
       (ucast (StartBus (DeviceConfig_at (pmem (paging st)) (mcfg_entry mcfg t)))) st) st"

definition is_ahci :: "PCIDeviceheader \<Rightarrow> bool" where
  "is_ahci h \<longleftrightarrow> Class h = 0x01 \<and> Subclass h = 0x06 \<and> ProgIF h = 0x01"

definition register_device ::
  "u64 \<Rightarrow> u64 \<Rightarrow> PageFrameAllocator \<times> AHCIDriver DriverManager \<Rightarrow> PageFrameAllocator \<times> AHCIDriver DriverManager" where
  "register_device PML4 a s =
     (case s of (p, dm) \<Rightarrow>
      if is_ahci (PCIDeviceheader_at (pmem p) a)
      then (let (d, p) = AHCIDriver_new PML4 a p in (p, add_driver dm d))
      else (p, dm))"

definition EnumeratePCI ::
  "u64 \<Rightarrow> u64 \<Rightarrow> pci_state \<times> AHCIDriver DriverManager \<Rightarrow> (pci_state \<times> AHCIDriver DriverManager) may_panic" where
  "EnumeratePCI PML4 mcfg s =
     (case s of (st, dm) \<Rightarrow>
      let m = pmem (paging st); len = sdt_Length (SDTHeader_at m mcfg) in
      if k_checksum m mcfg (ucast len) \<noteq> 0 then Inl (Panic ''Failed SDT header checksum in MCFG header'')
      else if ucast len < sizeof_SDTHeader then Inl (Panic ''Impossible size of SDT header in MCFG header'')
      else let entries = mcfg_entries m mcfg in
        if entries = 0 then Inr (st, dm)
        else let st = enumerate_buses PML4 mcfg entries st;
                 (p, dm) = fold (register_device PML4) (devices st) (paging st, dm)
             in Inr (st\<lparr>paging := p\<rparr>, dm))"

text \<open>The lookup of a single function.\<close>

definition EnumerateFunction_mcfg ::
  "u64 \<Rightarrow> u64 \<Rightarrow> u64 \<Rightarrow> u64 \<Rightarrow> u64 \<Rightarrow> u64 \<Rightarrow> pci_state \<Rightarrow> u64 \<times> pci_state" where
  "EnumerateFunction_mcfg PML4 mcfg entryIndex busIndex deviceIndex functionIndex st =
     (let m = pmem (paging st); entries = mcfg_entries m mcfg in
      if entries \<le> entryIndex then (NULL, st)
      else if deviceIndex \<ge> 32 then (NULL, st)
      else if functionIndex \<ge> 8 then (NULL, st)
      else let c = DeviceConfig_at m (mcfg_entry mcfg entryIndex);
               bus = ucast (StartBus c) + busIndex in
        if bus \<ge> ucast (EndBus c) then (NULL, st)
        else let busAddress = BaseAddress c + push_bit 20 bus;
                 st = map_header PML4 busAddress st;
                 h = PCIDeviceheader_at (pmem (paging st)) busAddress in
          if DeviceID h = 0 then (NULL, st)
          else if DeviceID h = 0xffff then (NULL, st)
          else let deviceAddress = busAddress + push_bit 15 deviceIndex;
                   st = map_header PML4 deviceAddress st;
                   h = PCIDeviceheader_at (pmem (paging st)) deviceAddress in
            if DeviceID h = 0 then (NULL, st)
            else if DeviceID h = 0xffff then (NULL, st)
            else let functionAddress = deviceAddress + push_bit 12 functionIndex;
                     st = map_header PML4 functionAddress st;
                     h = PCIDeviceheader_at (pmem (paging st)) functionAddress in
              if DeviceID h = 0 then (NULL, st)
              else if DeviceID h = 0xffff then (NULL, st)
              else (functionAddress, st))"

subsection \<open>Scans with a budget\<close>

text \<open>
  A step of a scan uses up some of a budget and appends what it has found to a list of bounded
  length. A scan over many steps then finds everything the steps find, in order, up to the bound.
\<close>

locale budget_scan =
  fixes ready :: "nat \<Rightarrow> 's \<Rightarrow> bool" and found :: "'s \<Rightarrow> 'x list" and cap :: nat
  assumes ready_less: "ready n s \<Longrightarrow> k \<le> n \<Longrightarrow> ready k s"
    and found_cap: "ready n s \<Longrightarrow> length (found s) \<le> cap"
begin

definition scans :: "nat \<Rightarrow> ('s \<Rightarrow> 's) \<Rightarrow> 'x list \<Rightarrow> bool" where
  "scans k f xs \<longleftrightarrow> (\<forall>n s. ready (k + n) s \<longrightarrow> ready n (f s) \<and> found (f s) = take cap (found s @ xs))"

lemma scansI:
  "(\<And>n s. ready (k + n) s \<Longrightarrow> ready n (f s) \<and> found (f s) = take cap (found s @ xs)) \<Longrightarrow> scans k f xs"
  by (simp add: scans_def)

lemma scansD: "scans k f xs \<Longrightarrow> ready (k + n) s \<Longrightarrow> ready n (f s) \<and> found (f s) = take cap (found s @ xs)"
  by (simp add: scans_def)

lemma scans_id: "scans k (\<lambda>s. s) []"
  by (rule scansI) (auto intro: ready_less dest: found_cap)

lemma scans_comp:
  assumes "scans k f xs" "scans l g ys"
  shows "scans (k + l) (\<lambda>s. g (f s)) (xs @ ys)"
proof (rule scansI)
  fix n s assume "ready (k + l + n) s"
  then have f: "ready (l + n) (f s)" "found (f s) = take cap (found s @ xs)"
    using scansD [OF assms(1), of "l + n" s] by (simp_all add: add.assoc)
  have "take cap (take cap (found s @ xs) @ ys) = take cap (found s @ xs @ ys)"
    using take_take_append [of cap "found s @ xs" ys] by simp
  with scansD [OF assms(2) f(1)] f(2) show "ready n (g (f s)) \<and> found (g (f s)) = take cap (found s @ xs @ ys)"
    by simp
qed

lemma scans_weaken: "scans k f xs \<Longrightarrow> k \<le> l \<Longrightarrow> scans l f xs"
proof (rule scansI)
  fix n s assume "scans k f xs" "k \<le> l" "ready (l + n) s"
  moreover have "ready (k + n) s" using calculation by (auto intro: ready_less)
  ultimately show "ready n (f s) \<and> found (f s) = take cap (found s @ xs)" using scansD by blast
qed

lemma scans_fold:
  assumes "\<And>i. i \<in> set is \<Longrightarrow> scans (k i) (f i) (xs i)"
  shows "scans (sum_list (map k is)) (fold f is) (concat (map xs is))"
  using assms
proof (induction "is")
  case Nil
  then show ?case using scans_id [of 0] by (simp add: id_def)
next
  case (Cons i "is")
  then have "scans (k i + sum_list (map k is)) (\<lambda>s. fold f is (f i s)) (xs i @ concat (map xs is))"
    by (intro scans_comp) simp_all
  then show ?case by (simp add: comp_def)
qed

end

text \<open>The budget of the walk is counted in calls of \<open>MapMemory\<close>.\<close>

definition pci_ready :: "u64 \<Rightarrow> mem \<Rightarrow> u64 set \<Rightarrow> nat \<Rightarrow> pci_state \<Rightarrow> bool" where
  "pci_ready root m cfg n st \<longleftrightarrow> pages_ready root m cfg n (paging st) \<and> length (devices st) \<le> 32"

interpretation pci: budget_scan "pci_ready root m cfg" devices 32
  for root :: u64 and m :: mem and cfg :: "u64 set"
  by unfold_locales (auto simp: pci_ready_def intro: pages_ready_less)

subsection \<open>The functions of the described buses\<close>

text \<open>Configuration space of a header, and what is there.\<close>

abbreviation (input) header_in :: "u64 set \<Rightarrow> u64 \<Rightarrow> bool" where
  "header_in cfg a \<equiv> bytes_in cfg a 64"

definition present :: "mem \<Rightarrow> u64 \<Rightarrow> bool" where
  "present m a \<longleftrightarrow> DeviceID (PCIDeviceheader_at m a) \<noteq> 0 \<and> DeviceID (PCIDeviceheader_at m a) \<noteq> 0xffff"

text \<open>What the walk looks at: it asks function 0 of a device and device 0 of a bus before it goes on.\<close>

definition device_functions :: "mem \<Rightarrow> u64 \<Rightarrow> u64 list" where
  "device_functions m a =
     (if present m a then filter (present m) (map (\<lambda>f. a + push_bit 12 (of_nat f)) [0..<8]) else [])"

definition bus_functions :: "mem \<Rightarrow> u64 \<Rightarrow> u64 list" where
  "bus_functions m a =
     (if present m a then concat (map (\<lambda>d. device_functions m (a + push_bit 15 (of_nat d))) [0..<32]) else [])"

lemma header_cong:
  assumes "\<And>x. x \<in> cfg \<Longrightarrow> m' x = m x" "header_in cfg a"
  shows "PCIDeviceheader_at m' a = PCIDeviceheader_at m a"
    "get32 m' (a + BAR5_offset) = get32 m (a + BAR5_offset)"
proof -
  note G = get_bytes_in [OF assms]
  have b: "m' (a + of_nat k) = m (a + of_nat k)" if "k < 64" for k
    using assms that by (auto simp: bytes_in_def)
  show "PCIDeviceheader_at m' a = PCIDeviceheader_at m a"
    using G [where k = 0 and n = 2] G [where k = 2 and n = 2] G [where k = 4 and n = 2] G [where k = 6 and n = 2] b [where k = 8] b [where k = 9] b [where k = 10]
      b [where k = 11] b [where k = 12] b [where k = 13] b [where k = 14] b [where k = 15]
    by (simp add: PCIDeviceheader_at_def get16_def get8_def)
  show "get32 m' (a + BAR5_offset) = get32 m (a + BAR5_offset)"
    using G [where k = 36 and n = 4] by (simp add: get32_def BAR5_offset_def)
qed

lemma map_header_ready:
  assumes "pci_ready root m cfg (Suc n) st"
  shows "pci_ready root m cfg n (map_header root a st)" "devices (map_header root a st) = devices st"
  using assms pages_ready_map by (auto simp: pci_ready_def map_header_def)

lemma header_ready:
  assumes "pci_ready root m cfg n st" "header_in cfg a"
  shows "PCIDeviceheader_at (pmem (paging st)) a = PCIDeviceheader_at m a"
proof (rule header_cong [OF _ assms(2)])
  fix x assume "x \<in> cfg"
  with assms(1) show "pmem (paging st) x = m x" by (auto simp: pci_ready_def intro: pages_ready_mem)
qed

lemma EnumerateFunction_scans:
  assumes "header_in cfg (a + push_bit 12 f)"
  shows "pci.scans root m cfg 1 (EnumerateFunction root a f) (filter (present m) [a + push_bit 12 f])"
proof (rule pci.scansI)
  fix n st
  let ?a = "a + push_bit 12 f" let ?st = "map_header root ?a st"
  assume "pci_ready root m cfg (1 + n) st"
  then have st: "pci_ready root m cfg n ?st" "devices ?st = devices st"
    using map_header_ready [of root m cfg n st ?a] by simp_all
  note h = header_ready [OF st(1) assms]
  have len: "length (devices st) \<le> 32" using st by (simp add: pci_ready_def)
  have take: "take 32 (devices st @ [?a]) = (if length (devices st) \<ge> 32 then devices st else devices st @ [?a])"
    using len by (cases "length (devices st) = 32") simp_all
  have upd: "pci_ready root m cfg n (?st\<lparr>devices := devices ?st @ [?a]\<rparr>)" if "\<not> 32 \<le> length (devices st)"
    using st that by (simp add: pci_ready_def)
  have E: "EnumerateFunction root a f st =
    (if \<not> present m ?a then ?st else if length (devices st) \<ge> 32 then ?st
     else ?st\<lparr>devices := devices st @ [?a]\<rparr>)"
    by (simp add: EnumerateFunction_def Let_def h present_def MAX_NUMBER_OF_LANES_def st(2))
  show "pci_ready root m cfg n (EnumerateFunction root a f st)
    \<and> devices (EnumerateFunction root a f st) = take 32 (devices st @ filter (present m) [?a])"
    using st len take upd by (auto simp: E)
qed

text \<open>The shape that devices and buses share: map, test, scan the parts.\<close>

lemma guarded_scans:
  assumes h: "header_in cfg a" and body: "pci.scans root m cfg k body xs"
    and E: "\<And>st. E st = (let st = map_header root a st; h = PCIDeviceheader_at (pmem (paging st)) a in
        if DeviceID h = 0 then st else if DeviceID h = 0xffff then st else body st)"
  shows "pci.scans root m cfg (1 + k) E (if present m a then xs else [])"
proof (rule pci.scansI)
  fix n st
  let ?st = "map_header root a st"
  assume "pci_ready root m cfg (1 + k + n) st"
  then have st: "pci_ready root m cfg (k + n) ?st" "devices ?st = devices st"
    using map_header_ready [of root m cfg "k + n" st a] by simp_all
  have E': "E st = (if present m a then body ?st else ?st)"
    by (simp add: E Let_def header_ready [OF st(1) h] present_def)
  have "pci_ready root m cfg n ?st" using st(1) by (rule pci.ready_less) simp
  moreover have "length (devices st) \<le> 32" using st by (simp add: pci_ready_def)
  ultimately show "pci_ready root m cfg n (E st) \<and> devices (E st) = take 32 (devices st @ (if present m a then xs else []))"
    using pci.scansD [OF body st(1)] st(2) by (simp add: E')
qed

lemma EnumerateDevice_scans:
  assumes "\<And>f. f < 8 \<Longrightarrow> header_in cfg (b + push_bit 15 d + push_bit 12 (of_nat f))"
  shows "pci.scans root m cfg 9 (EnumerateDevice root b d) (device_functions m (b + push_bit 15 d))"
proof -
  let ?a = "b + push_bit 15 d"
  have "pci.scans root m cfg (sum_list (map (\<lambda>f. 1) [0..<8])) (fold (\<lambda>f. EnumerateFunction root ?a (of_nat f)) [0..<8])
      (concat (map (\<lambda>f. filter (present m) [?a + push_bit 12 (of_nat f)]) [0..<8]))"
    by (rule pci.scans_fold, rule EnumerateFunction_scans, rule assms) simp
  moreover have "concat (map (\<lambda>f. filter P [g f]) ns) = filter P (map g ns)" for P :: "u64 \<Rightarrow> bool" and g and ns :: "nat list"
    by (induction ns) simp_all
  ultimately have "pci.scans root m cfg 8 (fold (\<lambda>f. EnumerateFunction root ?a (of_nat f)) [0..<8])
      (filter (present m) (map (\<lambda>f. ?a + push_bit 12 (of_nat f)) [0..<8]))"
    by (simp only: sum_list_triv length_upt) simp
  then have "pci.scans root m cfg (1 + 8) (EnumerateDevice root b d) (if present m ?a
      then filter (present m) (map (\<lambda>f. ?a + push_bit 12 (of_nat f)) [0..<8]) else [])"
    using assms [of 0] by (intro guarded_scans) (simp_all add: EnumerateDevice_def Let_def)
  then show ?thesis by (simp add: device_functions_def)
qed

definition bus_space :: "u64 set \<Rightarrow> u64 \<Rightarrow> bool" where
  "bus_space cfg a \<longleftrightarrow>
     (\<forall>d < 32. \<forall>f < 8. header_in cfg (a + push_bit 15 (of_nat d) + push_bit 12 (of_nat f)))"

lemma EnumerateBus_scans:
  assumes "bus_space cfg (base + push_bit 20 bus)"
  shows "pci.scans root m cfg 289 (EnumerateBus root base bus) (bus_functions m (base + push_bit 20 bus))"
proof -
  let ?a = "base + push_bit 20 bus"
  have "pci.scans root m cfg (sum_list (map (\<lambda>d. 9) [0..<32])) (fold (\<lambda>d. EnumerateDevice root ?a (of_nat d)) [0..<32])
      (concat (map (\<lambda>d. device_functions m (?a + push_bit 15 (of_nat d))) [0..<32]))"
    by (rule pci.scans_fold, rule EnumerateDevice_scans) (use assms in \<open>simp add: bus_space_def\<close>)
  then have "pci.scans root m cfg 288 (fold (\<lambda>d. EnumerateDevice root ?a (of_nat d)) [0..<32])
      (concat (map (\<lambda>d. device_functions m (?a + push_bit 15 (of_nat d))) [0..<32]))"
    by (simp only: sum_list_triv length_upt) simp
  moreover have "header_in cfg ?a"
  proof -
    have "header_in cfg (?a + push_bit 15 (of_nat 0) + push_bit 12 (of_nat 0))"
      using assms unfolding bus_space_def by (metis zero_less_numeral)
    then show ?thesis by simp
  qed
  ultimately have "pci.scans root m cfg (1 + 288) (EnumerateBus root base bus) (if present m ?a
      then concat (map (\<lambda>d. device_functions m (?a + push_bit 15 (of_nat d))) [0..<32]) else [])"
    by (intro guarded_scans) (simp_all add: EnumerateBus_def Let_def)
  then show ?thesis by (simp add: bus_functions_def)
qed

text \<open>What one entry of the table describes: the buses from the first one up to, but without,
  the last one.\<close>

definition entry_buses :: "DeviceConfig \<Rightarrow> nat list" where
  "entry_buses c = [unat (StartBus c)..<unat (EndBus c)]"

definition entry_functions :: "mem \<Rightarrow> DeviceConfig \<Rightarrow> u64 list" where
  "entry_functions m c = concat (map (\<lambda>b. bus_functions m (BaseAddress c + push_bit 20 (of_nat b))) (entry_buses c))"

lemma config_cong:
  assumes "\<And>x. x \<in> cfg \<Longrightarrow> m' x = m x" "bytes_in cfg a 16"
  shows "DeviceConfig_at m' a = DeviceConfig_at m a"
proof -
  note G = get_bytes_in [OF assms]
  have b: "m' (a + of_nat k) = m (a + of_nat k)" if "k < 16" for k
    using assms that by (auto simp: bytes_in_def)
  show ?thesis
    using G [where k = 0 and n = 8] G [where k = 8 and n = 2] G [where k = 12 and n = 4] b [where k = 10] b [where k = 11]
    by (simp add: DeviceConfig_at_def get64_def get16_def get32_def get8_def)
qed

lemma config_ready:
  assumes "pci_ready root m cfg n st" "bytes_in cfg a 16"
  shows "DeviceConfig_at (pmem (paging st)) a = DeviceConfig_at m a"
proof (rule config_cong [OF _ assms(2)])
  fix x assume "x \<in> cfg"
  with assms(1) show "pmem (paging st) x = m x" by (auto simp: pci_ready_def intro: pages_ready_mem)
qed

lemma bus_loop_scans:
  assumes c: "bytes_in cfg c 16" and C: "C = DeviceConfig_at m c"
    and space: "\<And>b. b \<in> set [unat bus..<unat (EndBus C)] \<Longrightarrow> bus_space cfg (BaseAddress C + push_bit 20 (of_nat b))"
  shows "pci.scans root m cfg (289 * (unat (EndBus C) - unat bus)) (bus_loop root c bus)
    (concat (map (\<lambda>b. bus_functions m (BaseAddress C + push_bit 20 (of_nat b))) [unat bus..<unat (EndBus C)]))"
  using space
proof (induction "unat (EndBus C) - unat bus" arbitrary: bus)
  case 0
  show ?case
  proof (rule pci.scansI)
    fix n st
    assume r: "pci_ready root m cfg (289 * (unat (EndBus C) - unat bus) + n) st"
    have "\<not> bus < ucast (EndBus C)" using 0(1) by (simp add: word_less_nat_alt unat_ucast_up)
    then have "bus_loop root c bus st = st"
      using config_ready [OF r c] by (simp add: bus_loop.simps [of root c bus st] C)
    with r 0(1) show "pci_ready root m cfg n (bus_loop root c bus st) \<and> devices (bus_loop root c bus st)
        = take 32 (devices st @ concat (map (\<lambda>b. bus_functions m (BaseAddress C + push_bit 20 (of_nat b))) [unat bus..<unat (EndBus C)]))"
      by (simp add: pci_ready_def)
  qed
next
  case (Suc j)
  have lt: "unat bus < unat (EndBus C)" using Suc(2) by simp
  then have w: "bus < ucast (EndBus C)" by (simp add: word_less_nat_alt unat_ucast_up)
  then have s: "unat (bus + 1) = Suc (unat bus)" by (rule unat_add_1_less)
  have u: "[unat bus..<unat (EndBus C)] = unat bus # [unat (bus + 1)..<unat (EndBus C)]"
    using lt s by (simp add: upt_conv_Cons)
  have IH: "pci.scans root m cfg (289 * (unat (EndBus C) - unat (bus + 1))) (bus_loop root c (bus + 1))
    (concat (map (\<lambda>b. bus_functions m (BaseAddress C + push_bit 20 (of_nat b))) [unat (bus + 1)..<unat (EndBus C)]))"
    using Suc(2,3) s u by (intro Suc(1)) simp_all
  have "unat bus \<in> set [unat bus..<unat (EndBus C)]" using lt by simp
  from Suc(3) [OF this] have "bus_space cfg (BaseAddress C + push_bit 20 bus)" by simp
  note S = pci.scans_comp [OF EnumerateBus_scans [OF this] IH]
  have k: "289 * (unat (EndBus C) - unat bus) = 289 + 289 * (unat (EndBus C) - unat (bus + 1))"
    using lt s by simp
  show ?case
  proof (rule pci.scansI)
    fix n st
    assume r: "pci_ready root m cfg (289 * (unat (EndBus C) - unat bus) + n) st"
    have "bus_loop root c bus st = bus_loop root c (bus + 1) (EnumerateBus root (BaseAddress C) bus st)"
      using config_ready [OF r c] w by (subst bus_loop.simps) (simp add: C)
    with pci.scansD [OF S r [unfolded k]] show "pci_ready root m cfg n (bus_loop root c bus st) \<and> devices (bus_loop root c bus st)
        = take 32 (devices st @ concat (map (\<lambda>b. bus_functions m (BaseAddress C + push_bit 20 (of_nat b))) [unat bus..<unat (EndBus C)]))"
      by (simp add: u)
  qed
qed

definition mcfg_configs :: "mem \<Rightarrow> u64 \<Rightarrow> nat \<Rightarrow> DeviceConfig list" where
  "mcfg_configs m mcfg n = map (\<lambda>t. DeviceConfig_at m (mcfg_entry mcfg (of_nat t))) [0..<n]"

text \<open>The table and the configuration space it describes keep their content.\<close>

definition mcfg_space :: "u64 set \<Rightarrow> mem \<Rightarrow> u64 \<Rightarrow> nat \<Rightarrow> bool" where
  "mcfg_space cfg m mcfg n \<longleftrightarrow>
     (\<forall>t < n. bytes_in cfg (mcfg_entry mcfg (of_nat t)) 16)
     \<and> (\<forall>c \<in> set (mcfg_configs m mcfg n). \<forall>b \<in> set (entry_buses c).
          bus_space cfg (BaseAddress c + push_bit 20 (of_nat b)))"

definition bus_count :: "DeviceConfig list \<Rightarrow> nat" where
  "bus_count cs = sum_list (map (\<lambda>c. length (entry_buses c)) cs)"

lemma entry_scans:
  assumes "bytes_in cfg e 16" "\<And>b. b \<in> set (entry_buses (DeviceConfig_at m e)) \<Longrightarrow>
      bus_space cfg (BaseAddress (DeviceConfig_at m e) + push_bit 20 (of_nat b))"
  shows "pci.scans root m cfg (289 * length (entry_buses (DeviceConfig_at m e)))
    (\<lambda>st. bus_loop root e (ucast (StartBus (DeviceConfig_at (pmem (paging st)) e))) st)
    (entry_functions m (DeviceConfig_at m e))"
proof (rule pci.scansI)
  fix n st
  let ?c = "DeviceConfig_at m e" let ?b = "ucast (StartBus ?c) :: u64"
  assume r: "pci_ready root m cfg (289 * length (entry_buses ?c) + n) st"
  have u: "unat ?b = unat (StartBus ?c)" by (rule unat_ucast_up) simp
  have "pci.scans root m cfg (289 * (unat (EndBus ?c) - unat ?b)) (bus_loop root e ?b)
    (concat (map (\<lambda>b. bus_functions m (BaseAddress ?c + push_bit 20 (of_nat b))) [unat ?b..<unat (EndBus ?c)]))"
    by (rule bus_loop_scans [OF assms(1) refl]) (use assms(2) u in \<open>simp add: entry_buses_def\<close>)
  then have "pci.scans root m cfg (289 * length (entry_buses ?c)) (bus_loop root e ?b) (entry_functions m ?c)"
    by (simp add: u entry_buses_def entry_functions_def)
  from pci.scansD [OF this r] config_ready [OF r assms(1)]
  show "pci_ready root m cfg n (bus_loop root e (ucast (StartBus (DeviceConfig_at (pmem (paging st)) e))) st)
    \<and> devices (bus_loop root e (ucast (StartBus (DeviceConfig_at (pmem (paging st)) e))) st)
      = take 32 (devices st @ entry_functions m ?c)" by simp
qed

lemma enumerate_buses_scans:
  assumes "mcfg_space cfg m mcfg (unat n)"
  shows "pci.scans root m cfg (289 * bus_count (mcfg_configs m mcfg (unat n))) (enumerate_buses root mcfg n)
    (concat (map (entry_functions m) (mcfg_configs m mcfg (unat n))))"
proof -
  let ?e = "\<lambda>t. mcfg_entry mcfg (of_nat t)" let ?c = "\<lambda>t. DeviceConfig_at m (?e t)"
  let ?step = "\<lambda>t st. bus_loop root (?e t) (ucast (StartBus (DeviceConfig_at (pmem (paging st)) (?e t)))) st"
  have "pci.scans root m cfg (sum_list (map (\<lambda>t. 289 * length (entry_buses (?c t))) [0..<unat n]))
      (fold ?step [0..<unat n]) (concat (map (\<lambda>t. entry_functions m (?c t)) [0..<unat n]))"
  proof (rule pci.scans_fold)
    fix t assume "t \<in> set [0..<unat n]"
    then have t: "t < unat n" by simp
    then have "bytes_in cfg (?e t) 16" "?c t \<in> set (mcfg_configs m mcfg (unat n))"
      using assms by (auto simp: mcfg_space_def mcfg_configs_def)
    with assms show "pci.scans root m cfg (289 * length (entry_buses (?c t))) (?step t) (entry_functions m (?c t))"
      by (intro entry_scans) (auto simp: mcfg_space_def)
  qed
  moreover have "sum_list (map (\<lambda>t. 289 * length (entry_buses (?c t))) [0..<unat n])
      = 289 * bus_count (mcfg_configs m mcfg (unat n))"
    by (simp add: bus_count_def mcfg_configs_def comp_def sum_list_const_mult)
  moreover have "enumerate_buses root mcfg n = fold ?step [0..<unat n]"
    by (simp add: enumerate_buses_def for_upto_def fun_eq_iff)
  ultimately show ?thesis by (simp add: mcfg_configs_def comp_def)
qed

subsection \<open>Registering the disk controllers\<close>

definition ahci_of :: "mem \<Rightarrow> u64 \<Rightarrow> AHCIDriver" where
  "ahci_of m a = \<lparr>PCIBaseAddress = a, ABAR = ucast (get32 m (a + BAR5_offset)), ports = []\<rparr>"

lemma register_devices:
  assumes "\<And>a. a \<in> set as \<Longrightarrow> header_in cfg a" "pages_ready root m cfg (length as + n) p" "manager_ok dm"
  shows "case fold (register_device root) as (p, dm) of (p', dm') \<Rightarrow>
    pages_ready root m cfg n p' \<and> manager_ok dm' \<and> driver_list dm' = take 512 (driver_list dm @
      map (\<lambda>a. Some (ahci_of m a)) (filter (\<lambda>a. is_ahci (PCIDeviceheader_at m a)) as))"
  using assms
proof (induction as arbitrary: p dm)
  case Nil
  then have "length (driver_list dm) \<le> 512" by (simp add: driver_list_def manager_ok_def word_le_nat_alt)
  with Nil show ?case by simp
next
  case (Cons a as)
  have h: "header_in cfg a" using Cons.prems(1) by simp
  have same: "pmem p x = m x" if "x \<in> cfg" for x using Cons.prems(2) that by (rule pages_ready_mem)
  note H = header_cong [OF same h]
  have rest: "\<And>x. x \<in> set as \<Longrightarrow> header_in cfg x" using Cons.prems(1) by simp
  show ?case
  proof (cases "is_ahci (PCIDeviceheader_at m a)")
    case True
    let ?p = "fst (MapMemory p root (ABAR (ahci_of m a)) (ABAR (ahci_of m a)))"
    let ?dm = "add_driver dm (ahci_of m a)"
    have step: "register_device root a (p, dm) = (?p, ?dm)"
      using True H by (simp add: register_device_def AHCIDriver_new_def Let_def ahci_of_def)
    have "pages_ready root m cfg (Suc (length as + n)) p" using Cons.prems(2) by simp
    then have "pages_ready root m cfg (length as + n) ?p" by (rule pages_ready_map)
    note IH = Cons.IH [OF rest this add_driver_ok(1) [OF Cons.prems(3)], of "ahci_of m a"]
    have "take 512 (take 512 (driver_list dm @ [Some (ahci_of m a)]) @ ys)
        = take 512 (driver_list dm @ Some (ahci_of m a) # ys)" for ys
      by (simp only: take_take_append append.assoc append_Cons append_Nil)
    with IH True step show ?thesis
      by (simp add: add_driver_ok(2) [OF Cons.prems(3)] split: prod.splits del: take_append)
  next
    case False
    then have step: "register_device root a (p, dm) = (p, dm)" using H by (simp add: register_device_def)
    have "pages_ready root m cfg (length as + n) p" using Cons.prems(2) by (rule pages_ready_less) simp
    from Cons.IH [OF rest this Cons.prems(3)] False step show ?thesis by simp
  qed
qed

text \<open>Every function that can be found has its header in the space.\<close>

lemma device_functions_in:
  "\<lbrakk>\<And>f. f < 8 \<Longrightarrow> header_in cfg (a + push_bit 12 (of_nat f)); x \<in> set (device_functions m a)\<rbrakk> \<Longrightarrow> header_in cfg x"
  by (auto simp: device_functions_def simp del: upt_rec_numeral split: if_splits)

lemma bus_functions_in:
  assumes "bus_space cfg a" "x \<in> set (bus_functions m a)"
  shows "header_in cfg x"
proof -
  obtain d where "d < 32" "x \<in> set (device_functions m (a + push_bit 15 (of_nat d)))"
    using assms(2) by (auto simp: bus_functions_def simp del: upt_rec_numeral split: if_splits)
  note d = this
  show ?thesis
  proof (rule device_functions_in [OF _ d(2)])
    fix f :: nat assume "f < 8"
    with assms(1) d(1) show "header_in cfg (a + push_bit 15 (of_nat d) + push_bit 12 (of_nat f))"
      unfolding bus_space_def by blast
  qed
qed

lemma mcfg_functions_in:
  assumes "mcfg_space cfg m mcfg n" "x \<in> set (concat (map (entry_functions m) (mcfg_configs m mcfg n)))"
  shows "header_in cfg x"
proof -
  obtain c b where "c \<in> set (mcfg_configs m mcfg n)" "b \<in> set (entry_buses c)"
      "x \<in> set (bus_functions m (BaseAddress c + push_bit 20 (of_nat b)))"
    using assms(2) by (auto simp: entry_functions_def)
  with assms(1) show ?thesis by (auto simp: mcfg_space_def intro: bus_functions_in)
qed

lemma EnumeratePCI_walk:
  assumes m: "m = pmem (paging st)" "devices st = []" "manager_ok dm"
    and len: "len = sdt_Length (SDTHeader_at m mcfg)" "k_checksum m mcfg (ucast len) = 0" "60 \<le> unat len"
    and n: "n = (unat len - 44) div 16" "mcfg_space cfg m mcfg n"
    and ready: "pages_ready root m cfg (289 * bus_count (mcfg_configs m mcfg n) + 32) (paging st)"
  shows "\<exists>st' dm'. EnumeratePCI root mcfg (st, dm) = Inr (st', dm')
    \<and> devices st' = take 32 (concat (map (entry_functions m) (mcfg_configs m mcfg n)))
    \<and> driver_list dm' = take 512 (driver_list dm @
        map (\<lambda>a. Some (ahci_of m a)) (filter (\<lambda>a. is_ahci (PCIDeviceheader_at m a)) (devices st')))"
proof -
  let ?all = "concat (map (entry_functions m) (mcfg_configs m mcfg n))"
  let ?n = "mcfg_entries m mcfg" let ?st1 = "enumerate_buses root mcfg ?n st"
  have ul: "unat (ucast len :: u64) = unat len" by (rule unat_ucast_up) simp
  have "unat (ucast len - 44 :: u64) = unat len - 44" using len(3) ul by (subst unat_sub_no_wrap) simp_all
  then have un: "unat ?n = n"
    by (simp add: mcfg_entries_def len(1) [symmetric] sizeof_MCFGHeader_def sizeof_DeviceConfig_def unat_div n(1))
  have "0 < n" using len(3) by (simp add: n(1) div_greater_zero_iff)
  then have nz: "?n \<noteq> 0" using un by auto
  have sz: "\<not> (ucast len :: u64) < sizeof_SDTHeader"
    using len(3) by (simp add: word_less_nat_alt ul)
  have "pci_ready root m cfg (289 * bus_count (mcfg_configs m mcfg n) + 32) st"
    using ready m(2) by (simp add: pci_ready_def)
  from pci.scansD [OF enumerate_buses_scans [of cfg m mcfg ?n root] this [folded un]] n(2) un m(2)
  have st1: "pci_ready root m cfg 32 ?st1" "devices ?st1 = take 32 ?all" by simp_all
  have "header_in cfg a" if "a \<in> set (devices ?st1)" for a
  proof (rule mcfg_functions_in [OF n(2)])
    show "a \<in> set ?all" using that unfolding st1(2) by (rule in_set_takeD)
  qed
  moreover have "pages_ready root m cfg (length (devices ?st1) + 0) (paging ?st1)"
    using st1 by (auto simp: pci_ready_def intro: pages_ready_less)
  ultimately have R: "case fold (register_device root) (devices ?st1) (paging ?st1, dm) of (p', dm') \<Rightarrow>
    pages_ready root m cfg 0 p' \<and> manager_ok dm' \<and> driver_list dm' = take 512 (driver_list dm @
      map (\<lambda>a. Some (ahci_of m a)) (filter (\<lambda>a. is_ahci (PCIDeviceheader_at m a)) (devices ?st1)))"
    using m(3) by (rule register_devices)
  obtain p' dm' where f: "fold (register_device root) (devices ?st1) (paging ?st1, dm) = (p', dm')" by fastforce
  have "EnumeratePCI root mcfg (st, dm) = Inr (?st1\<lparr>paging := p'\<rparr>, dm')"
    using len(2) nz sz f by (simp add: EnumeratePCI_def Let_def m(1) [symmetric] len(1) [symmetric])
  with R f st1(2) show ?thesis by simp
qed

text \<open>
  The functions of the described buses, by their addresses: 32 devices of 8 functions on each bus. \<open>zero_first\<close> is what
  the walk relies on: a device with a function has function 0, and a bus with a function has one at device 0.
\<close>

definition bus_addresses :: "u64 \<Rightarrow> u64 list" where
  "bus_addresses a =
     concat (map (\<lambda>d. map (\<lambda>f. a + push_bit 15 (of_nat d) + push_bit 12 (of_nat f)) [0..<8]) [0..<32])"

definition entry_addresses :: "DeviceConfig \<Rightarrow> u64 list" where
  "entry_addresses c = concat (map (\<lambda>b. bus_addresses (BaseAddress c + push_bit 20 (of_nat b))) (entry_buses c))"

definition zero_first :: "mem \<Rightarrow> u64 \<Rightarrow> bool" where
  "zero_first m a \<longleftrightarrow> (\<forall>d \<in> set [0..<32]. \<forall>f \<in> set [0..<8].
     present m (a + push_bit 15 (of_nat d) + push_bit 12 (of_nat f)) \<longrightarrow> present m (a + push_bit 15 (of_nat d)) \<and> present m a)"

lemma filter_concat_map: "filter P (concat (map f xs)) = concat (map (\<lambda>x. filter P (f x)) xs)"
  by (induction xs) simp_all

lemma bus_functions_present:
  assumes "zero_first m a"
  shows "bus_functions m a = filter (present m) (bus_addresses a)"
proof -
  have none: "filter (present m) (map (\<lambda>f. a + push_bit 15 (of_nat d) + push_bit 12 (of_nat f)) [0..<8]) = []"
    if "d \<in> set [0..<32]" "\<not> present m (a + push_bit 15 (of_nat d)) \<or> \<not> present m a" for d
    using assms that unfolding zero_first_def filter_empty_conv set_map by blast
  have "device_functions m (a + push_bit 15 (of_nat d))
      = filter (present m) (map (\<lambda>f. a + push_bit 15 (of_nat d) + push_bit 12 (of_nat f)) [0..<8])"
    if "d \<in> set [0..<32]" for d
    using none [OF that] unfolding device_functions_def by presburger
  then have "concat (map (\<lambda>d. device_functions m (a + push_bit 15 (of_nat d))) [0..<32]) = filter (present m) (bus_addresses a)"
    unfolding bus_addresses_def filter_concat_map by (simp only: cong: map_cong)
  moreover have "filter (present m) (bus_addresses a) = []" if "\<not> present m a"
    using none that unfolding bus_addresses_def filter_concat_map concat_eq_Nil_conv set_map by blast
  ultimately show ?thesis unfolding bus_functions_def by presburger
qed

lemma entry_functions_present:
  assumes "\<forall>b \<in> set (entry_buses c). zero_first m (BaseAddress c + push_bit 20 (of_nat b))"
  shows "entry_functions m c = filter (present m) (entry_addresses c)"
  unfolding entry_functions_def entry_addresses_def filter_concat_map
  using assms by (simp add: bus_functions_present cong: map_cong)

text \<open>
  C7. The PCI walk finds, for a correct MCFG table, with enough free pages for the page tables, and when on the described
  buses a device with a function has function 0 and a bus with a function has one at device 0, exactly the functions
  that are present on the described buses in bus, device and function order,
  but only the first 32 of them and never one on the last bus of an entry; and it registers
  an AHCI driver, with the register block of its sixth base address, for each of the found ones
  that is a SATA controller with the AHCI interface. A function is present when its device id is neither 0 nor 0xffff.
\<close>

theorem EnumeratePCI_finds:
  assumes m: "m = pmem (paging st)" "devices st = []" "manager_ok dm"
    and len: "len = sdt_Length (SDTHeader_at m mcfg)" "k_checksum m mcfg (ucast len) = 0" "60 \<le> unat len"
    and n: "n = (unat len - 44) div 16" "mcfg_space cfg m mcfg n"
    and first: "\<forall>c \<in> set (mcfg_configs m mcfg n). \<forall>b \<in> set (entry_buses c). zero_first m (BaseAddress c + push_bit 20 (of_nat b))"
    and ready: "pages_ready root m cfg (289 * bus_count (mcfg_configs m mcfg n) + 32) (paging st)"
  shows "\<exists>st' dm'. EnumeratePCI root mcfg (st, dm) = Inr (st', dm')
    \<and> devices st' = take 32 (filter (present m) (concat (map entry_addresses (mcfg_configs m mcfg n))))
    \<and> driver_list dm' = take 512 (driver_list dm @
        map (\<lambda>a. Some (ahci_of m a)) (filter (\<lambda>a. is_ahci (PCIDeviceheader_at m a)) (devices st')))"
proof -
  have "map (entry_functions m) (mcfg_configs m mcfg n)
      = map (\<lambda>c. filter (present m) (entry_addresses c)) (mcfg_configs m mcfg n)"
    using first by (simp add: entry_functions_present cong: map_cong)
  then show ?thesis using EnumeratePCI_walk [OF m len n ready] by (simp only: filter_concat_map)
qed

subsection \<open>An example machine\<close>

text \<open>An MCFG table for one bus at 0x2000, and a SATA controller as the only function of that bus.\<close>

definition pci_memory :: mem where
  "pci_memory =
     (poke 0x2004 [60] \<circ> poke 0x2009 [0x13] \<circ> poke 0x202F [0xB0] \<circ> poke 0x2037 [1] \<circ> poke 0x3000 [0xFF] \<circ>
      poke 0xB0000000 [0x86, 0x80, 0x22, 0x29] \<circ> poke 0xB0000009 [0x01, 0x06, 0x01] \<circ>
      poke 0xB0000026 [0xBF, 0xFE]) (\<lambda>_. 0)"

lemma pci_memory_ok: "machine_memory pci_memory"
  by (auto simp: machine_memory_def pci_memory_def page_of_def)

definition pci_cfg :: "u64 set" where
  "pci_cfg = {x. page_of x = 2 \<or> 0xB0000 \<le> page_of x}"

lemma pci_pages_ready: "n \<le> 1000 \<Longrightarrow> pages_ready 0x1000 pci_memory pci_cfg n (machine pci_memory)"
  using machine_ready [OF pci_memory_ok]
  by (rule pages_ready_subset) (auto simp: pci_cfg_def machine_stable_def word_le_nat_alt)

lemma pci_config: "DeviceConfig_at pci_memory 0x202C =
    \<lparr>BaseAddress = 0xB0000000, PCISigGroup = 0, StartBus = 0, EndBus = 1, Reserved = 0\<rparr>"
  unfolding DeviceConfig_at_def by code_simp

lemma pci_configs: "mcfg_configs pci_memory 0x2000 1 =
    [\<lparr>BaseAddress = 0xB0000000, PCISigGroup = 0, StartBus = 0, EndBus = 1, Reserved = 0\<rparr>]"
  using pci_config by (simp add: mcfg_configs_def mcfg_entry_def sizeof_MCFGHeader_def)

lemma pci_bus_space: "bus_space pci_cfg 0xB0000000"
  unfolding bus_space_def bytes_in_def
proof (intro allI impI)
  fix d f k :: nat assume b: "d < 32" "f < 8" "k < 64"
  let ?n = "0xB0000000 + 32768 * d + 4096 * f + k"
  have e: "0xB0000000 + push_bit 15 (of_nat d) + push_bit 12 (of_nat f) + of_nat k = (of_nat ?n :: u64)"
    by (simp add: push_bit_eq_mult mult.commute)
  have "unat (of_nat ?n :: u64) = ?n" using b by (intro unat_of_nat_small) simp
  then have "unat (page_of (of_nat ?n)) = ?n div 4096" by (simp add: page_of_def unat_div)
  then have "0xB0000 \<le> page_of (of_nat ?n)" by (simp add: word_le_nat_alt)
  then show "0xB0000000 + push_bit 15 (of_nat d) + push_bit 12 (of_nat f) + of_nat k \<in> pci_cfg"
    unfolding e by (simp add: pci_cfg_def)
qed

lemma pci_space: "mcfg_space pci_cfg pci_memory 0x2000 1"
proof -
  have "bytes_in pci_cfg 0x202C 16"
    unfolding bytes_in_def
  proof (intro allI impI)
    fix k :: nat assume "k < 16"
    then have "unat (of_nat (0x202C + k) :: u64) = 0x202C + k" by (intro unat_of_nat_small) simp
    with \<open>k < 16\<close> have "unat (page_of (of_nat (0x202C + k))) = 2" by (simp add: page_of_def unat_div del: of_nat_add)
    then have "page_of (of_nat (0x202C + k)) = 2" by (simp add: word_unat_eq_iff)
    then show "0x202C + of_nat k \<in> pci_cfg" by (simp add: pci_cfg_def)
  qed
  then show ?thesis
    using pci_bus_space
    by (simp add: mcfg_space_def pci_configs mcfg_entry_def sizeof_MCFGHeader_def entry_buses_def del: One_nat_def)
qed

lemma pci_memory_zero: "0xB0000040 \<le> unat x \<Longrightarrow> pci_memory x = 0"
  by (auto simp: pci_memory_def)

lemma pci_present:
  assumes "d < 32" "f < 8"
  shows "present pci_memory (0xB0000000 + push_bit 15 (of_nat d) + push_bit 12 (of_nat f)) \<longleftrightarrow> d = 0 \<and> f = 0"
proof -
  have p: "present pci_memory a \<longleftrightarrow> get16 pci_memory (a + 2) \<notin> {0, 0xffff}" for a
    by (simp add: present_def PCIDeviceheader_at_def)
  show ?thesis
  proof (cases "d = 0 \<and> f = 0")
    case True
    have "present pci_memory 0xB0000000" unfolding p by code_simp
    with True show ?thesis by simp
  next
    case False
    let ?n = "0xB0000000 + 32768 * d + 4096 * f"
    have e: "0xB0000000 + push_bit 15 (of_nat d) + push_bit 12 (of_nat f) = (of_nat ?n :: u64)"
      by (simp add: push_bit_eq_mult mult.commute)
    have z: "pci_memory (of_nat ?n + 2 + of_nat k) = 0" if "k < 2" for k
    proof (rule pci_memory_zero)
      have "of_nat ?n + 2 + of_nat k = (of_nat (?n + 2 + k) :: u64)" by simp
      moreover have "unat (of_nat (?n + 2 + k) :: u64) = ?n + 2 + k" using assms that by (intro unat_of_nat_small) simp
      ultimately show "0xB0000040 \<le> unat (of_nat ?n + 2 + of_nat k :: u64)" using False by (simp only:) auto
    qed
    have "get_bytes pci_memory (of_nat ?n + 2) 2 = get_bytes (\<lambda>_. 0) 0 2"
      unfolding get_bytes_def using z by (intro map_cong) simp_all
    then have "get16 pci_memory (of_nat ?n + 2) = get16 (\<lambda>_. 0) 0" by (simp only: get16_def)
    also have "\<dots> = 0" by code_simp
    finally show ?thesis unfolding p e using False by simp
  qed
qed

lemma pci_found:
  "filter (present pci_memory) (concat (map entry_addresses (mcfg_configs pci_memory 0x2000 1))) = [0xB0000000]"
  "zero_first pci_memory 0xB0000000"
proof -
  have z: "present pci_memory 0xB0000000" "present pci_memory (0xB0000000 + push_bit 15 (of_nat d)) \<longleftrightarrow> d = 0" if "d < 32" for d
    using pci_present [of 0 0] pci_present [OF that, of 0] by simp_all
  show "zero_first pci_memory 0xB0000000"
    unfolding zero_first_def using pci_present z by auto
  let ?fs = "\<lambda>d. filter (present pci_memory) (map (\<lambda>f. 0xB0000000 + push_bit 15 (of_nat d) + push_bit 12 (of_nat f)) [0..<8])"
  have none: "filter (present pci_memory) (map (\<lambda>f. 0xB0000000 + push_bit 15 (of_nat d) + push_bit 12 (of_nat f)) fs) = []"
    if "d < 32" "\<forall>f \<in> set fs. f < 8 \<and> (d \<noteq> 0 \<or> f \<noteq> 0)" for d and fs :: "nat list"
    using that pci_present by (auto simp: filter_empty_conv)
  have e: "[0..<8] = 0 # [1..<8 :: nat]" "[0..<32] = 0 # [1..<32 :: nat]" by (simp_all add: upt_conv_Cons del: upt_rec_numeral)
  have "?fs 0 = [0xB0000000]" unfolding e using none [of 0 "[1..<8]"] z(1) [of 0] by simp
  moreover have "concat (map ?fs [1..<32]) = []"
    unfolding concat_eq_Nil_conv using none by (auto simp del: upt_rec_numeral)
  ultimately have "filter (present pci_memory) (bus_addresses 0xB0000000) = [0xB0000000]"
    unfolding bus_addresses_def filter_concat_map unfolding e(2) list.map concat.simps by (simp only: append_Nil2)
  moreover have "[0..<1] = [0 :: nat]" by simp
  ultimately show "filter (present pci_memory) (concat (map entry_addresses (mcfg_configs pci_memory 0x2000 1))) = [0xB0000000]"
    unfolding pci_configs entry_addresses_def by (simp add: entry_buses_def del: One_nat_def upt_rec_numeral)
qed

theorem EnumeratePCI_finds_witness:
  "\<exists>st' dm'. EnumeratePCI 0x1000 0x2000 (\<lparr>paging = machine pci_memory, devices = []\<rparr>, DriverManager_new undefined) = Inr (st', dm')
    \<and> devices st' = [0xB0000000]
    \<and> driver_list dm' = [Some \<lparr>PCIBaseAddress = 0xB0000000, ABAR = 0xFEBF0000, ports = []\<rparr>]"
proof -
  let ?st = "\<lparr>paging = machine pci_memory, devices = []\<rparr>"
  have len: "60 = sdt_Length (SDTHeader_at pci_memory 0x2000)"
    by (simp only: SDTHeader_at_def SDTHeader.select_convs) code_simp
  have sum: "k_checksum pci_memory 0x2000 (ucast (60 :: u32)) = 0" by code_simp
  have "bus_count (mcfg_configs pci_memory 0x2000 1) = 1" by (simp add: pci_configs bus_count_def entry_buses_def del: One_nat_def)
  then have ready: "pages_ready 0x1000 pci_memory pci_cfg (289 * bus_count (mcfg_configs pci_memory 0x2000 1) + 32) (paging ?st)"
    using pci_pages_ready by simp
  have one: "1 = (unat (60 :: u32) - 44) div 16" by simp
  have ahci: "is_ahci (PCIDeviceheader_at pci_memory 0xB0000000)"
    unfolding is_ahci_def PCIDeviceheader_at_def PCIDeviceheader.select_convs by code_simp
  have bar: "ahci_of pci_memory 0xB0000000 = \<lparr>PCIBaseAddress = 0xB0000000, ABAR = 0xFEBF0000, ports = []\<rparr>"
    unfolding ahci_of_def BAR5_offset_def by code_simp
  have m: "pci_memory = pmem (paging ?st)" by simp
  have first: "\<forall>c \<in> set (mcfg_configs pci_memory 0x2000 1). \<forall>b \<in> set (entry_buses c). zero_first pci_memory (BaseAddress c + push_bit 20 (of_nat b))"
    using pci_found(2) by (simp add: pci_configs entry_buses_def del: One_nat_def)
  show ?thesis
    using EnumeratePCI_finds [OF m _ manager_ok_new len sum _ one pci_space first ready, of undefined]
    by (auto simp: pci_found ahci bar simp del: One_nat_def)
qed

end
