(* ===== verification/PciNames.thy ===== *)
theory PciNames
  imports Pci
begin

section \<open>The names of PCI devices (kernel/src/PCI/pciDescriptors.cpp, pci_enum.hpp)\<close>

text \<open>
  The enumerations of device classes with their codes, the functions that turn the codes of a
  function into text, and the line that the enumeration prints for a function. A \<open>switch\<close> without
  \<open>break\<close> goes on with the cases that follow it, as in the code.
\<close>

subsection \<open>Enumerations\<close>

datatype DeviceClass =
   DC_Unclassified | DC_MassStorageController | DC_NetworkController | DC_DisplayController
   | DC_MultimediaController | DC_MemoryController | DC_BridgeDevice
   | DC_SimpleCommunicationController | DC_BaseSystemPeripheral | DC_InputDeviceController
   | DC_DockingStation | DC_Processor | DC_SerialBusController | DC_WirelessController
   | DC_InteligentController | DC_SateliteCommunicationController | DC_EncryptionController
   | DC_SignalProcessingController | DC_ProcessingAccelerator
   | DC_NonEssentialInstrumentation | DC_CoProcessor | DC_VendorSpecific

fun DeviceClass_value :: "DeviceClass \<Rightarrow> u8" where
  "DeviceClass_value DC_Unclassified = 0x00"
| "DeviceClass_value DC_MassStorageController = 0x01"
| "DeviceClass_value DC_NetworkController = 0x02"
| "DeviceClass_value DC_DisplayController = 0x03"
| "DeviceClass_value DC_MultimediaController = 0x04"
| "DeviceClass_value DC_MemoryController = 0x05"
| "DeviceClass_value DC_BridgeDevice = 0x06"
| "DeviceClass_value DC_SimpleCommunicationController = 0x07"
| "DeviceClass_value DC_BaseSystemPeripheral = 0x08"
| "DeviceClass_value DC_InputDeviceController = 0x09"
| "DeviceClass_value DC_DockingStation = 0x0A"
| "DeviceClass_value DC_Processor = 0x0B"
| "DeviceClass_value DC_SerialBusController = 0x0C"
| "DeviceClass_value DC_WirelessController = 0x0D"
| "DeviceClass_value DC_InteligentController = 0x0E"
| "DeviceClass_value DC_SateliteCommunicationController = 0x0F"
| "DeviceClass_value DC_EncryptionController = 0x10"
| "DeviceClass_value DC_SignalProcessingController = 0x11"
| "DeviceClass_value DC_ProcessingAccelerator = 0x12"
| "DeviceClass_value DC_NonEssentialInstrumentation = 0x13"
| "DeviceClass_value DC_CoProcessor = 0x40"
| "DeviceClass_value DC_VendorSpecific = 0xFF"

datatype UnclassifiedSubclass =
   UCSC_NonVGACompatibleDevice | UCSC_VGACompatibleDevice

fun UnclassifiedSubclass_value :: "UnclassifiedSubclass \<Rightarrow> u8" where
  "UnclassifiedSubclass_value UCSC_NonVGACompatibleDevice = 0x00"
| "UnclassifiedSubclass_value UCSC_VGACompatibleDevice = 0x01"

datatype MassStorageControllerSubclass =
   MSCSC_SCSIBusController | MSCSC_IDEController | MSCSC_FloppyDiskController
   | MSCSC_IPIBusController | MSCSC_RaidController | MSCSC_ATAController | MSCSC_SATA
   | MSCSC_SerialAttachedSCSI | MSCSC_NonVolatileMemoryController | MSCSC_Other

fun MassStorageControllerSubclass_value :: "MassStorageControllerSubclass \<Rightarrow> u8" where
  "MassStorageControllerSubclass_value MSCSC_SCSIBusController = 0x00"
| "MassStorageControllerSubclass_value MSCSC_IDEController = 0x01"
| "MassStorageControllerSubclass_value MSCSC_FloppyDiskController = 0x02"
| "MassStorageControllerSubclass_value MSCSC_IPIBusController = 0x03"
| "MassStorageControllerSubclass_value MSCSC_RaidController = 0x04"
| "MassStorageControllerSubclass_value MSCSC_ATAController = 0x05"
| "MassStorageControllerSubclass_value MSCSC_SATA = 0x06"
| "MassStorageControllerSubclass_value MSCSC_SerialAttachedSCSI = 0x07"
| "MassStorageControllerSubclass_value MSCSC_NonVolatileMemoryController = 0x08"
| "MassStorageControllerSubclass_value MSCSC_Other = 0x80"

datatype NetworkControllerSubclass =
   NCSC_EthernetController | NCSC_TokenRongController | NCSC_FDDIController
   | NCSC_ATMController | NCSC_ISDNController | NCSC_WorldFlipController
   | NCSC_PICMG_2_14_MultiComputing | NCSC_InfinibandController | NCSC_FabricController
   | NCSC_Other

fun NetworkControllerSubclass_value :: "NetworkControllerSubclass \<Rightarrow> u8" where
  "NetworkControllerSubclass_value NCSC_EthernetController = 0x00"
| "NetworkControllerSubclass_value NCSC_TokenRongController = 0x01"
| "NetworkControllerSubclass_value NCSC_FDDIController = 0x02"
| "NetworkControllerSubclass_value NCSC_ATMController = 0x03"
| "NetworkControllerSubclass_value NCSC_ISDNController = 0x04"
| "NetworkControllerSubclass_value NCSC_WorldFlipController = 0x05"
| "NetworkControllerSubclass_value NCSC_PICMG_2_14_MultiComputing = 0x06"
| "NetworkControllerSubclass_value NCSC_InfinibandController = 0x07"
| "NetworkControllerSubclass_value NCSC_FabricController = 0x08"
| "NetworkControllerSubclass_value NCSC_Other = 0x80"

datatype DisplayControllerSubclass =
   DCSC_VGACompatibleController | DCSC_XGAController | DCSC_3DController | DCSC_Other

fun DisplayControllerSubclass_value :: "DisplayControllerSubclass \<Rightarrow> u8" where
  "DisplayControllerSubclass_value DCSC_VGACompatibleController = 0x00"
| "DisplayControllerSubclass_value DCSC_XGAController = 0x01"
| "DisplayControllerSubclass_value DCSC_3DController = 0x02"
| "DisplayControllerSubclass_value DCSC_Other = 0x80"

datatype MultimediaControllerSubclass =
   MMCSC_MultimediaVideoController | MMCSC_MultimediaAudioController
   | MMCSC_ComputerTelephonyDevice | MMCSC_AudioDevice | MMCSC_Other

fun MultimediaControllerSubclass_value :: "MultimediaControllerSubclass \<Rightarrow> u8" where
  "MultimediaControllerSubclass_value MMCSC_MultimediaVideoController = 0x00"
| "MultimediaControllerSubclass_value MMCSC_MultimediaAudioController = 0x01"
| "MultimediaControllerSubclass_value MMCSC_ComputerTelephonyDevice = 0x02"
| "MultimediaControllerSubclass_value MMCSC_AudioDevice = 0x03"
| "MultimediaControllerSubclass_value MMCSC_Other = 0x08"

datatype MemoryControllerSubclass =
   MCSC_RAMController | MCSC_FlashController | MCSC_Other

fun MemoryControllerSubclass_value :: "MemoryControllerSubclass \<Rightarrow> u8" where
  "MemoryControllerSubclass_value MCSC_RAMController = 0x00"
| "MemoryControllerSubclass_value MCSC_FlashController = 0x01"
| "MemoryControllerSubclass_value MCSC_Other = 0x80"

datatype BridgeDeviceSubclass =
   BDSC_HostBridge | BDSC_ISABridge | BDSC_EISABridge | BDSC_MCABridge
   | BDSC_PCIToPCIBridge1 | BDSC_PCMCIABridge | BDSC_NuBusBridge | BDSC_CardBusBridge
   | BDSC_RACEwayBridge | BDSC_PCIToPCIBridge2 | BDSC_InfiniBandToPCIHostBridge
   | BDSC_Other

fun BridgeDeviceSubclass_value :: "BridgeDeviceSubclass \<Rightarrow> u8" where
  "BridgeDeviceSubclass_value BDSC_HostBridge = 0x00"
| "BridgeDeviceSubclass_value BDSC_ISABridge = 0x01"
| "BridgeDeviceSubclass_value BDSC_EISABridge = 0x02"
| "BridgeDeviceSubclass_value BDSC_MCABridge = 0x03"
| "BridgeDeviceSubclass_value BDSC_PCIToPCIBridge1 = 0x04"
| "BridgeDeviceSubclass_value BDSC_PCMCIABridge = 0x05"
| "BridgeDeviceSubclass_value BDSC_NuBusBridge = 0x06"
| "BridgeDeviceSubclass_value BDSC_CardBusBridge = 0x07"
| "BridgeDeviceSubclass_value BDSC_RACEwayBridge = 0x08"
| "BridgeDeviceSubclass_value BDSC_PCIToPCIBridge2 = 0x09"
| "BridgeDeviceSubclass_value BDSC_InfiniBandToPCIHostBridge = 0x0A"
| "BridgeDeviceSubclass_value BDSC_Other = 0x80"

datatype SimpleCommunicationControllerSubclass =
   SCCSC_SerialController | SCCSC_ParallelController | SCCSC_MultiportSerialController
   | SCCSC_Modem | SCCSC_GPIBController | SCCSC_SmartCard | SCCSC_Other

fun SimpleCommunicationControllerSubclass_value :: "SimpleCommunicationControllerSubclass \<Rightarrow> u8" where
  "SimpleCommunicationControllerSubclass_value SCCSC_SerialController = 0x00"
| "SimpleCommunicationControllerSubclass_value SCCSC_ParallelController = 0x01"
| "SimpleCommunicationControllerSubclass_value SCCSC_MultiportSerialController = 0x02"
| "SimpleCommunicationControllerSubclass_value SCCSC_Modem = 0x03"
| "SimpleCommunicationControllerSubclass_value SCCSC_GPIBController = 0x04"
| "SimpleCommunicationControllerSubclass_value SCCSC_SmartCard = 0x05"
| "SimpleCommunicationControllerSubclass_value SCCSC_Other = 0x80"

datatype BaseSystemPeripheralSubclass =
   BSPSC_PIC | BSPSC_DMAController | BSPSC_Timer | BSPSC_RTCController
   | BSPSC_PCIHotPlugController | BSPSC_SDHostController | BSPSC_IOMMU | BSPSC_Other

fun BaseSystemPeripheralSubclass_value :: "BaseSystemPeripheralSubclass \<Rightarrow> u8" where
  "BaseSystemPeripheralSubclass_value BSPSC_PIC = 0x00"
| "BaseSystemPeripheralSubclass_value BSPSC_DMAController = 0x01"
| "BaseSystemPeripheralSubclass_value BSPSC_Timer = 0x02"
| "BaseSystemPeripheralSubclass_value BSPSC_RTCController = 0x03"
| "BaseSystemPeripheralSubclass_value BSPSC_PCIHotPlugController = 0x04"
| "BaseSystemPeripheralSubclass_value BSPSC_SDHostController = 0x05"
| "BaseSystemPeripheralSubclass_value BSPSC_IOMMU = 0x06"
| "BaseSystemPeripheralSubclass_value BSPSC_Other = 0x80"

datatype InputDeviceControllerSubclass =
   IDCSC_KeyboardController | IDCSC_DigitizerPen | IDCSC_MouseController
   | IDCSC_ScannerController | IDCSC_GameportController | IDCSC_Other

fun InputDeviceControllerSubclass_value :: "InputDeviceControllerSubclass \<Rightarrow> u8" where
  "InputDeviceControllerSubclass_value IDCSC_KeyboardController = 0x00"
| "InputDeviceControllerSubclass_value IDCSC_DigitizerPen = 0x01"
| "InputDeviceControllerSubclass_value IDCSC_MouseController = 0x02"
| "InputDeviceControllerSubclass_value IDCSC_ScannerController = 0x03"
| "InputDeviceControllerSubclass_value IDCSC_GameportController = 0x04"
| "InputDeviceControllerSubclass_value IDCSC_Other = 0x80"

datatype DockingStationSubclass =
   DSSC_Generic | DSSC_Other

fun DockingStationSubclass_value :: "DockingStationSubclass \<Rightarrow> u8" where
  "DockingStationSubclass_value DSSC_Generic = 0x00"
| "DockingStationSubclass_value DSSC_Other = 0x80"

datatype ProcessorSubclass =
   PSC_386 | PSC_486 | PSC_Pentium | PSC_PentiumPro | PSC_Alpha | PSC_PowerPC | PSC_MIPS
   | PSC_CoProcessor | PSC_Other

fun ProcessorSubclass_value :: "ProcessorSubclass \<Rightarrow> u8" where
  "ProcessorSubclass_value PSC_386 = 0x00"
| "ProcessorSubclass_value PSC_486 = 0x01"
| "ProcessorSubclass_value PSC_Pentium = 0x02"
| "ProcessorSubclass_value PSC_PentiumPro = 0x03"
| "ProcessorSubclass_value PSC_Alpha = 0x10"
| "ProcessorSubclass_value PSC_PowerPC = 0x20"
| "ProcessorSubclass_value PSC_MIPS = 0x30"
| "ProcessorSubclass_value PSC_CoProcessor = 0x40"
| "ProcessorSubclass_value PSC_Other = 0x80"

datatype SerialBusControllerSubclass =
   SBCSC_FireWireController | SBCSC_ACCESSBus | SBCSC_SSA | SBCSC_USBController
   | SBCSC_FibreChannel | SBCSC_SMBus | SBCSC_InfiniBand | SBCSC_IPMIInterface
   | SBCSC_SERCOSInterface | SBCSC_CANBus | SBCSC_Other

fun SerialBusControllerSubclass_value :: "SerialBusControllerSubclass \<Rightarrow> u8" where
  "SerialBusControllerSubclass_value SBCSC_FireWireController = 0x00"
| "SerialBusControllerSubclass_value SBCSC_ACCESSBus = 0x01"
| "SerialBusControllerSubclass_value SBCSC_SSA = 0x02"
| "SerialBusControllerSubclass_value SBCSC_USBController = 0x03"
| "SerialBusControllerSubclass_value SBCSC_FibreChannel = 0x04"
| "SerialBusControllerSubclass_value SBCSC_SMBus = 0x05"
| "SerialBusControllerSubclass_value SBCSC_InfiniBand = 0x06"
| "SerialBusControllerSubclass_value SBCSC_IPMIInterface = 0x07"
| "SerialBusControllerSubclass_value SBCSC_SERCOSInterface = 0x08"
| "SerialBusControllerSubclass_value SBCSC_CANBus = 0x09"
| "SerialBusControllerSubclass_value SBCSC_Other = 0x80"

datatype SATAProgramInterface =
   SATAPI_VendorSpecific | SATAPI_AHCI_1_0_Device | SATAPI_SerialStorageBus

fun SATAProgramInterface_value :: "SATAProgramInterface \<Rightarrow> u8" where
  "SATAProgramInterface_value SATAPI_VendorSpecific = 0x00"
| "SATAProgramInterface_value SATAPI_AHCI_1_0_Device = 0x01"
| "SATAProgramInterface_value SATAPI_SerialStorageBus = 0x02"

datatype USBProgramInterface =
   USBPI_UHCIController | USBPI_OHCIController | USBPI_EHCIController_USB2
   | USBPI_XHCIController_USB3 | USBPI_Unspecified | USBPI_USBDevice

fun USBProgramInterface_value :: "USBProgramInterface \<Rightarrow> u8" where
  "USBProgramInterface_value USBPI_UHCIController = 0x00"
| "USBProgramInterface_value USBPI_OHCIController = 0x10"
| "USBProgramInterface_value USBPI_EHCIController_USB2 = 0x20"
| "USBProgramInterface_value USBPI_XHCIController_USB3 = 0x30"
| "USBProgramInterface_value USBPI_Unspecified = 0x80"
| "USBProgramInterface_value USBPI_USBDevice = 0xFE"

subsection \<open>Names\<close>

text \<open>
  A name is a literal or the contents of the static buffer that the number conversion fills; the
  buffers of the conversions for bytes and half words are arguments.
\<close>

datatype char_ptr = Literal string | Output out_buffer

definition DeviceClasses :: "string list" where
  "DeviceClasses =
     [''Unclassified'',
      ''Mass Storage Controller'',
      ''Network Controller'',
      ''Display Controller'',
      ''Multimedia Controller'',
      ''Memory Controller'',
      ''Bridge Device'',
      ''Simple Communication Controller'',
      ''Base System Peripheral'',
      ''Input Device Controller'',
      ''Docking Station'',
      ''Processor'',
      ''Serial Bus Controller'',
      ''Wireless Controller'',
      ''Intelligent Controller'',
      ''Satellite Communication Controller'',
      ''Encryption Controller'',
      ''Signal Processing Controller'',
      ''Processing Accelerator'',
      ''Non Essential Instrumentation'']"

text \<open>A \<open>switch\<close> that returns literals: the name of a case, or nothing.\<close>

definition switch_name :: "('c \<times> string) list \<Rightarrow> 'c \<Rightarrow> char_ptr option" where
  "switch_name cases c = map_option Literal (map_of cases c)"

definition or_else :: "char_ptr option \<Rightarrow> char_ptr \<Rightarrow> char_ptr" where
  "or_else r d = (case r of None \<Rightarrow> d | Some s \<Rightarrow> s)"

definition GetVendorName :: "out_buffer \<Rightarrow> u16 \<Rightarrow> char_ptr" where
  "GetVendorName buf vendorID =
     or_else (switch_name
       [(0x8086, ''Intel Corp''), (0x1022, ''AMD''), (0x10DE, ''Nvidia Corp''), (0x1234, ''Technical Corp'')]
       vendorID) (Output (to_hstring16 vendorID buf))"

definition GetDeviceName :: "out_buffer \<Rightarrow> u16 \<Rightarrow> u16 \<Rightarrow> char_ptr" where
  "GetDeviceName buf vendorID deviceID =
     or_else (if vendorID = 0x8086 then switch_name
         [(0x29c0, ''Express DRAM Controller''), (0x2918, ''LPC Interface Controller''),
          (0x2922, ''6 port SATA Controller [AHCI mode]''), (0x2930, ''SMBus Controller'')] deviceID
       else None) (Output (to_hstring16 deviceID buf))"

definition MassStorageControllerSubclassName :: "out_buffer \<Rightarrow> u8 \<Rightarrow> char_ptr" where
  "MassStorageControllerSubclassName buf subclassCode =
     or_else (switch_name
     [(0x00, ''SCSI Bus Controller''),
      (0x01, ''IDE Controller''),
      (0x02, ''Floppy Disk Controller''),
      (0x03, ''IPI Bus Controller''),
      (0x04, ''RAID Controller''),
      (0x05, ''ATA Controller''),
      (0x06, ''Serial ATA''),
      (0x07, ''Serial Attached SCSI''),
      (0x08, ''Non-Volatile Memory Controller''),
      (0x80, ''Other'')] subclassCode)
       (Output (to_hstring8 subclassCode buf))"

definition SerialBusControllerSubclassName :: "out_buffer \<Rightarrow> u8 \<Rightarrow> char_ptr" where
  "SerialBusControllerSubclassName buf subclassCode =
     or_else (switch_name
     [(0x00, ''FireWire (IEEE 1394) Controller''),
      (0x01, ''ACCESS Bus''),
      (0x02, ''SSA''),
      (0x03, ''USB Controller''),
      (0x04, ''Fibre Channel''),
      (0x05, ''SMBus''),
      (0x06, ''Infiniband''),
      (0x07, ''IPMI Interface''),
      (0x08, ''SERCOS Interface (IEC 61491)''),
      (0x09, ''CANbus''),
      (0x80, ''SerialBusController - Other'')] subclassCode)
       (Output (to_hstring8 subclassCode buf))"

definition BridgeDeviceSubclassName :: "out_buffer \<Rightarrow> u8 \<Rightarrow> char_ptr" where
  "BridgeDeviceSubclassName buf subclassCode =
     or_else (switch_name
     [(0x00, ''Host Bridge''),
      (0x01, ''ISA Bridge''),
      (0x02, ''EISA Bridge''),
      (0x03, ''MCA Bridge''),
      (0x04, ''PCI-to-PCI Bridge''),
      (0x05, ''PCMCIA Bridge''),
      (0x06, ''NuBus Bridge''),
      (0x07, ''CardBus Bridge''),
      (0x08, ''RACEway Bridge''),
      (0x09, ''PCI-to-PCI Bridge''),
      (0x0a, ''InfiniBand-to-PCI Host Bridge''),
      (0x80, ''Other'')] subclassCode)
       (Output (to_hstring8 subclassCode buf))"

definition GetSubclassName :: "out_buffer \<Rightarrow> u8 \<Rightarrow> u8 \<Rightarrow> char_ptr" where
  "GetSubclassName buf classCode subclassCode =
     (if classCode = 0x01 then MassStorageControllerSubclassName buf subclassCode
      else if classCode = 0x03 \<and> subclassCode = 0x00 then Literal ''VGA Compatible Controller''
      else if classCode = 0x03 \<or> classCode = 0x06 then BridgeDeviceSubclassName buf subclassCode
      else if classCode = 0x0C then SerialBusControllerSubclassName buf subclassCode
      else Output (to_hstring8 subclassCode buf))"

text \<open>The three groups of cases of the interface names; each one falls through to the next.\<close>

definition storage_interface :: "u8 \<Rightarrow> u8 \<Rightarrow> char_ptr option" where
  "storage_interface subclassCode progIF =
     (if subclassCode = 0x06 then switch_name
        [(0x00, ''Vendor Specific Interface''), (0x01, ''AHCI 1.0''), (0x02, ''Serial Storage Bus'')] progIF
      else None)"

definition display_interface :: "u8 \<Rightarrow> u8 \<Rightarrow> char_ptr option" where
  "display_interface subclassCode progIF =
     (if subclassCode = 0x00 then switch_name
        [(0x00, ''VGA Controller''), (0x01, ''8514-Compatible Controller'')] progIF
      else None)"

definition serial_interface :: "u8 \<Rightarrow> u8 \<Rightarrow> char_ptr option" where
  "serial_interface subclassCode progIF =
     (if subclassCode = 0x03 then switch_name
        [(0x00, ''UHCI Controller''),
         (0x10, ''OHCI Controller''),
         (0x20, ''EHCI (USB2) Controller''),
         (0x30, ''XHCI (USB3) Controller''),
         (0x80, ''Unspecified''),
         (0xFE, ''USB Device (Not a Host Controller)'')] progIF
      else None)"

definition GetProgramIFName :: "out_buffer \<Rightarrow> u8 \<Rightarrow> u8 \<Rightarrow> u8 \<Rightarrow> char_ptr" where
  "GetProgramIFName buf classCode subclassCode progIF =
     (let hex = Output (to_hstring8 progIF buf);
          from_serial = or_else (serial_interface subclassCode progIF) hex;
          from_display = or_else (display_interface subclassCode progIF) from_serial in
      if classCode = 0x01 then or_else (storage_interface subclassCode progIF) from_display
      else if classCode = 0x03 then from_display
      else if classCode = 0x0C then from_serial
      else hex)"

text \<open>
  The line for a function. The class byte indexes \<open>DeviceClasses\<close> unchecked: behind its end the
  line is not determined.
\<close>

definition device_line :: "out_buffer \<Rightarrow> out_buffer \<Rightarrow> PCIDeviceheader \<Rightarrow> char_ptr list option" where
  "device_line buf16 buf8 h =
     (if unat (Class h) < length DeviceClasses then
        Some [Literal ''   - '', GetVendorName buf16 (VendorID h), Literal '' / '',
          GetDeviceName buf16 (VendorID h) (DeviceID h), Literal '' / '',
          Literal (DeviceClasses ! unat (Class h)), Literal '' / '',
          GetSubclassName buf8 (Class h) (Subclass h), Literal '' / '',
          GetProgramIFName buf8 (Class h) (Subclass h) (ProgIF h)]
      else None)"

subsection \<open>Which codes have names\<close>

lemma or_else_Output [simp]: "or_else r (Output b) = Literal s \<longleftrightarrow> r = Some (Literal s)"
  by (cases r) (simp_all add: or_else_def)

lemma switch_name_Some [simp]: "switch_name cs c = Some (Literal s) \<longleftrightarrow> map_of cs c = Some s"
  by (simp add: switch_name_def)

lemma switch_name_named: "(\<exists>s. switch_name cs c = Some (Literal s)) \<longleftrightarrow> c \<in> fst ` set cs"
  using map_of_eq_None_iff [of cs c] by (auto simp: switch_name_def)

lemma subclass_ranges:
  "range MassStorageControllerSubclass_value = {0, 1, 2, 3, 4, 5, 6, 7, 8, 0x80}"
  "range SerialBusControllerSubclass_value = {0, 1, 2, 3, 4, 5, 6, 7, 8, 9, 0x80}"
  "range BridgeDeviceSubclass_value = {0, 1, 2, 3, 4, 5, 6, 7, 8, 9, 0xA, 0x80}"
proof -
  show "range MassStorageControllerSubclass_value = {0, 1, 2, 3, 4, 5, 6, 7, 8, 0x80}" (is "?r = ?s")
  proof
    show "?r \<subseteq> ?s" by (clarify, rename_tac c, case_tac c) simp_all
    have "MassStorageControllerSubclass_value c \<in> ?r" for c by (rule rangeI)
    from this [of MSCSC_SCSIBusController] this [of MSCSC_IDEController]
      this [of MSCSC_FloppyDiskController] this [of MSCSC_IPIBusController]
      this [of MSCSC_RaidController] this [of MSCSC_ATAController] this [of MSCSC_SATA]
      this [of MSCSC_SerialAttachedSCSI] this [of MSCSC_NonVolatileMemoryController]
      this [of MSCSC_Other] show "?s \<subseteq> ?r" by simp
  qed
  show "range SerialBusControllerSubclass_value = {0, 1, 2, 3, 4, 5, 6, 7, 8, 9, 0x80}" (is "?r = ?s")
  proof
    show "?r \<subseteq> ?s" by (clarify, rename_tac c, case_tac c) simp_all
    have "SerialBusControllerSubclass_value c \<in> ?r" for c by (rule rangeI)
    from this [of SBCSC_FireWireController] this [of SBCSC_ACCESSBus] this [of SBCSC_SSA]
      this [of SBCSC_USBController] this [of SBCSC_FibreChannel] this [of SBCSC_SMBus]
      this [of SBCSC_InfiniBand] this [of SBCSC_IPMIInterface] this [of SBCSC_SERCOSInterface]
      this [of SBCSC_CANBus] this [of SBCSC_Other] show "?s \<subseteq> ?r" by simp
  qed
  show "range BridgeDeviceSubclass_value = {0, 1, 2, 3, 4, 5, 6, 7, 8, 9, 0xA, 0x80}" (is "?r = ?s")
  proof
    show "?r \<subseteq> ?s" by (clarify, rename_tac c, case_tac c) simp_all
    have "BridgeDeviceSubclass_value c \<in> ?r" for c by (rule rangeI)
    from this [of BDSC_HostBridge] this [of BDSC_ISABridge] this [of BDSC_EISABridge]
      this [of BDSC_MCABridge] this [of BDSC_PCIToPCIBridge1] this [of BDSC_PCMCIABridge]
      this [of BDSC_NuBusBridge] this [of BDSC_CardBusBridge] this [of BDSC_RACEwayBridge]
      this [of BDSC_PCIToPCIBridge2] this [of BDSC_InfiniBandToPCIHostBridge]
      this [of BDSC_Other] show "?s \<subseteq> ?r" by simp
  qed
qed

text \<open>
  The subclass of a storage, bridge or serial bus controller is shown by name exactly when its
  code is one of the enumeration of the specification's subclasses; otherwise the code is shown.
\<close>

theorem subclass_names_complete:
  "((\<exists>s. GetSubclassName buf 0x01 c = Literal s) \<longleftrightarrow> c \<in> range MassStorageControllerSubclass_value)
   \<and> ((\<exists>s. GetSubclassName buf 0x06 c = Literal s) \<longleftrightarrow> c \<in> range BridgeDeviceSubclass_value)
   \<and> ((\<exists>s. GetSubclassName buf 0x0C c = Literal s) \<longleftrightarrow> c \<in> range SerialBusControllerSubclass_value)"
  unfolding GetSubclassName_def MassStorageControllerSubclassName_def BridgeDeviceSubclassName_def
    SerialBusControllerSubclassName_def subclass_ranges
  by (simp only: or_else_Output switch_name_named if_True if_False simp_thms refl) simp

text \<open>
  The missing breaks: a display controller other than VGA gets the name of a bridge, and a
  storage controller without an interface name of its own that of a display or a USB controller.
\<close>

theorem names_fall_through:
  assumes "c \<noteq> 0x00"
  shows "GetSubclassName buf 0x03 c = GetSubclassName buf 0x06 c"
    "GetProgramIFName buf 0x01 0x00 p = GetProgramIFName buf 0x03 0x00 p"
    "GetProgramIFName buf 0x01 0x03 p = GetProgramIFName buf 0x0C 0x03 p"
  using assms
  by (simp_all add: GetSubclassName_def GetProgramIFName_def storage_interface_def display_interface_def
      serial_interface_def or_else_def Let_def)

theorem names_fall_through_witness:
  "\<forall>buf. GetSubclassName buf 0x03 0x02 = Literal ''EISA Bridge''
    \<and> GetProgramIFName buf 0x01 0x00 0x00 = Literal ''VGA Controller''"
proof (intro allI conjI)
  fix buf
  have nz: "(0x02 :: u8) \<noteq> 0x00" by simp
  show "GetSubclassName buf 0x03 0x02 = Literal ''EISA Bridge''"
    by (subst names_fall_through (1) [OF nz])
       (simp add: GetSubclassName_def BridgeDeviceSubclassName_def switch_name_def or_else_def)
  show "GetProgramIFName buf 0x01 0x00 0x00 = Literal ''VGA Controller''"
    by (subst names_fall_through (2) [OF nz])
       (simp add: GetProgramIFName_def display_interface_def switch_name_def or_else_def)
qed

text \<open>The array of class names covers the classes but the two with large codes.\<close>

lemma DeviceClasses_covers:
  "unat (DeviceClass_value c) < length DeviceClasses \<longleftrightarrow> c \<noteq> DC_CoProcessor \<and> c \<noteq> DC_VendorSpecific"
  by (cases c) (simp_all add: DeviceClasses_def)

subsection \<open>The line of a disk controller\<close>

lemma class_name_storage:
  "unat (c :: u8) < length DeviceClasses \<and> DeviceClasses ! unat c = ''Mass Storage Controller'' \<longleftrightarrow> c = 1"
proof -
  have "\<forall>i \<in> set [0..<20]. (DeviceClasses ! i = ''Mass Storage Controller'') = (i = 1)" by code_simp
  moreover have "length DeviceClasses = 20" by (simp add: DeviceClasses_def)
  ultimately show ?thesis by (auto simp: word_unat_eq_iff)
qed

text \<open>
  The line that the enumeration prints says Mass Storage Controller, Serial ATA, AHCI 1.0
  exactly for the functions for which it registers a disk driver.
\<close>

theorem device_line_ahci:
  "is_ahci h \<longleftrightarrow> (\<exists>v d. device_line buf16 buf8 h = Some [Literal ''   - '', v, Literal '' / '', d, Literal '' / '',
     Literal ''Mass Storage Controller'', Literal '' / '', Literal ''Serial ATA'', Literal '' / '', Literal ''AHCI 1.0''])"
proof -
  have sub: "GetSubclassName buf8 0x01 c = Literal ''Serial ATA'' \<longleftrightarrow> c = 0x06" for c
    by (simp add: GetSubclassName_def MassStorageControllerSubclassName_def)
  have pif: "GetProgramIFName buf8 0x01 0x06 p = Literal ''AHCI 1.0'' \<longleftrightarrow> p = 0x01" for p
    by (auto simp: GetProgramIFName_def storage_interface_def display_interface_def serial_interface_def
        switch_name_def or_else_def Let_def)
  have "(\<exists>v d. device_line buf16 buf8 h = Some [Literal ''   - '', v, Literal '' / '', d, Literal '' / '',
     Literal ''Mass Storage Controller'', Literal '' / '', Literal ''Serial ATA'', Literal '' / '', Literal ''AHCI 1.0''])
   \<longleftrightarrow> Class h = 1 \<and> GetSubclassName buf8 (Class h) (Subclass h) = Literal ''Serial ATA''
     \<and> GetProgramIFName buf8 (Class h) (Subclass h) (ProgIF h) = Literal ''AHCI 1.0''"
    unfolding class_name_storage [symmetric] by (auto simp: device_line_def)
  also have "\<dots> \<longleftrightarrow> is_ahci h"
    using sub pif by (auto simp: is_ahci_def)
  finally show ?thesis by simp
qed

end
