(* ===== verification/TableBudget.thy ===== *)
theory TableBudget
  imports StableMem
begin

section \<open>How many tables a range needs\<close>

text \<open>
  Mapping an address takes one page for each table that its path still misses, and none
  otherwise: free pages and tables together keep their number. This gives the exact budget of a
  long range, whose addresses share their tables, where three pages for each address would be
  far more than there are.
\<close>

subsection \<open>Paths that have a table\<close>

definition table_paths :: "mem \<Rightarrow> u64 \<Rightarrow> u64 list set" where
  "table_paths m root = {q. q \<noteq> [] \<and> (\<exists>t. is_table m root q t)}"

definition path_prefixes :: "u64 \<Rightarrow> u64 list set" where
  "path_prefixes va = (\<lambda>k. take k (va_path va)) ` {1, 2, 3}"

lemma finite_table_paths [simp]: "finite (table_paths m root)"
proof -
  have "table_paths m root \<subseteq> {xs. set xs \<subseteq> UNIV \<and> length xs \<le> 3}"
    by (auto simp: table_paths_def is_table_def)
  then show ?thesis by (rule finite_subset) (rule finite_lists_length_le, simp)
qed

lemma finite_path_prefixes [simp]: "finite (path_prefixes va)"
  by (simp add: path_prefixes_def)

lemma path_prefixes_eq:
  "path_prefixes va = (let x = PageMapIndexer_new va in
     {[PDP_i x], [PDP_i x, PD_i x], [PDP_i x, PD_i x, PT_i x]})"
  by (simp add: path_prefixes_def va_path_def Let_def numeral_2_eq_2 numeral_3_eq_3)

lemma table_paths_iff:
  "q \<in> table_paths m root \<longleftrightarrow> q \<noteq> [] \<and> indices_ok q \<and> length q \<le> 3 \<and> table_at m root q \<noteq> None"
  by (auto simp: table_paths_def is_table_def)

text \<open>A set of paths that are needed, and the free pages that are left for them and for \<open>d\<close> more uses.\<close>

definition budget :: "nat \<Rightarrow> u64 list set \<Rightarrow> u64 \<Rightarrow> PageFrameAllocator \<Rightarrow> bool" where
  "budget d P root s \<longleftrightarrow> finite P \<and> card (P - table_paths (pmem s) root) + d \<le> card (free_pages s)"

definition tables_grow :: "u64 list set \<Rightarrow> u64 \<Rightarrow> PageFrameAllocator \<Rightarrow> PageFrameAllocator \<Rightarrow> bool" where
  "tables_grow P root s s' \<longleftrightarrow> table_paths (pmem s') root = table_paths (pmem s) root \<union> P
     \<and> card (free_pages s') + card (table_paths (pmem s') root)
        = card (free_pages s) + card (table_paths (pmem s) root)
     \<and> free_pages s' \<subseteq> free_pages s"

lemma tables_grow_trans:
  "tables_grow P root s s1 \<Longrightarrow> tables_grow Q root s1 s2 \<Longrightarrow> tables_grow (P \<union> Q) root s s2"
  by (auto simp: tables_grow_def)

lemma card_split_union:
  assumes "finite P" "finite T"
  shows "card (T \<union> P) = card T + card (P - T)"
proof -
  have "T \<union> P = T \<union> (P - T)" by blast
  also have "card \<dots> = card T + card (P - T)" using assms by (intro card_Un_disjoint) auto
  finally show ?thesis .
qed

lemma budget_after:
  assumes "budget d P root s" "tables_grow Q root s s'" "Q \<subseteq> P"
  shows "budget d P root s'"
proof -
  let ?T = "table_paths (pmem s) root"
  have fin: "finite P" "finite Q" using assms(1,3) finite_subset by (auto simp: budget_def)
  have "card (table_paths (pmem s') root) = card ?T + card (Q - ?T)"
    using assms(2) fin(2) by (simp add: tables_grow_def card_split_union)
  moreover have "card (P - ?T) = card (Q - ?T) + card (P - (?T \<union> Q))"
  proof -
    have "P - ?T = (Q - ?T) \<union> (P - (?T \<union> Q))" using assms(3) by blast
    moreover have "card \<dots> = card (Q - ?T) + card (P - (?T \<union> Q))"
      using fin by (intro card_Un_disjoint) auto
    ultimately show ?thesis by simp
  qed
  ultimately show ?thesis using assms(1,2) fin(1) by (auto simp: budget_def tables_grow_def)
qed

lemma budget_subset:
  assumes "budget d P root s" "Q \<subseteq> P"
  shows "budget d Q root s"
proof -
  have P: "finite P" using assms(1) by (simp add: budget_def)
  then have "finite (P - table_paths (pmem s) root)" by simp
  moreover have "Q - table_paths (pmem s) root \<subseteq> P - table_paths (pmem s) root" using assms(2) by blast
  ultimately have "card (Q - table_paths (pmem s) root) \<le> card (P - table_paths (pmem s) root)"
    by (rule card_mono)
  moreover have "finite Q" using assms(2) P by (rule finite_subset)
  ultimately show ?thesis using assms(1) by (simp add: budget_def)
qed

lemma budget_free: "budget d P root s \<Longrightarrow> q \<in> P \<Longrightarrow> q \<notin> table_paths (pmem s) root \<Longrightarrow> free_pages s \<noteq> {}"
proof
  assume b: "budget d P root s" "q \<in> P" "q \<notin> table_paths (pmem s) root" "free_pages s = {}"
  then have "card (P - table_paths (pmem s) root) = 0" by (simp add: budget_def)
  moreover have "finite (P - table_paths (pmem s) root)" using b(1) by (simp add: budget_def)
  ultimately show False using b(2,3) by auto
qed

subsection \<open>One level, one address, a range\<close>

lemma next_table_exact:
  assumes ok: "paging_ok s root" and t: "is_table (pmem s) root p t" and p: "length p \<le> 2" "i < 512"
    and ex: "budget d P root s" "p @ [i] \<in> P" and n: "next_table s t i = (s', t')"
  shows "paging_ok s' root" "is_table (pmem s') root (p @ [i]) t'"
    "\<And>q. indices_ok q \<Longrightarrow> length q = 4 \<Longrightarrow> table_at (pmem s') root q = table_at (pmem s) root q"
    "keeps_stable root s s'" "tables_grow {p @ [i]} root s s'" "budget d P root s'"
proof -
  have pi: "indices_ok (p @ [i])" "length (p @ [i]) \<le> 3" using t p by (auto simp: is_table_def)
  have "paging_ok s' root \<and> is_table (pmem s') root (p @ [i]) t'
    \<and> (\<forall>q. indices_ok q \<longrightarrow> length q = 4 \<longrightarrow> table_at (pmem s') root q = table_at (pmem s) root q)
    \<and> keeps_stable root s s' \<and> tables_grow {p @ [i]} root s s'"
  proof (cases "GetFlag (entry (pmem s) t i) Present")
    case True
    with n have "s' = s" "t' = push_bit 12 (GetAddress (entry (pmem s) t i))"
      by (auto simp: next_table_present)
    moreover from this have "is_table (pmem s) root (p @ [i]) t'"
      using True t pi by (simp add: is_table_def table_at_snoc)
    moreover from this have "p @ [i] \<in> table_paths (pmem s) root" by (auto simp: table_paths_def)
    ultimately show ?thesis using ok by (simp add: tables_grow_def insert_absorb)
  next
    case False
    have new: "p @ [i] \<notin> table_paths (pmem s) root"
      using False t by (simp add: table_paths_iff table_at_snoc is_table_def)
    have fr: "free_pages s \<noteq> {}" using budget_free [OF ex new] .
    note N = next_table_fresh [OF ok t p fr False n]
    then have f: "free_pages s' = free_pages s - {page_of t'}" "page_of t' \<in> free_pages s" by blast+
    then have "card (free_pages s) = Suc (card (free_pages s'))"
      by (simp only: card.remove [OF finite_free_pages])
    moreover have "table_paths (pmem s') root = insert (p @ [i]) (table_paths (pmem s) root)"
    proof (rule set_eqI)
      fix q
      have "table_at (pmem s') root q = (if q = p @ [i] then Some t' else table_at (pmem s) root q)"
        if "indices_ok q" "length q \<le> 3" using N that by simp
      then show "q \<in> table_paths (pmem s') root \<longleftrightarrow> q \<in> insert (p @ [i]) (table_paths (pmem s) root)"
        using pi by (cases "indices_ok q \<and> length q \<le> 3") (auto simp: table_paths_iff simp del: not_None_eq)
    qed
    ultimately have "tables_grow {p @ [i]} root s s'" using new f(1) by (auto simp: tables_grow_def)
    moreover have "is_table (pmem s') root (p @ [i]) t'" using N pi by (simp add: is_table_def)
    moreover have "\<forall>q. indices_ok q \<longrightarrow> length q = 4 \<longrightarrow> table_at (pmem s') root q = table_at (pmem s) root q"
      using N p by auto
    moreover have "keeps_stable root s s'" by (rule next_table_stable [OF ok t p fr n])
    ultimately show ?thesis using N by blast
  qed
  then show "paging_ok s' root" "is_table (pmem s') root (p @ [i]) t'"
    "\<And>q. indices_ok q \<Longrightarrow> length q = 4 \<Longrightarrow> table_at (pmem s') root q = table_at (pmem s) root q"
    "keeps_stable root s s'" "tables_grow {p @ [i]} root s s'" by blast+
  then show "budget d P root s'" using budget_after [OF ex(1), of "{p @ [i]}" s'] ex(2) by simp
qed

lemma MapMemory_exact:
  assumes ok: "paging_ok s root" and ex: "budget d P root s" "path_prefixes va \<subseteq> P"
    and map: "MapMemory s root va pa = (s', r)"
  shows "paging_ok s' root" "frame_map (pmem s') root = (frame_map (pmem s) root)(va_path va := Some (frame_of pa))"
    "keeps_stable root s s'" "tables_grow (path_prefixes va) root s s'" "budget d P root s'"
proof -
  let ?x = "PageMapIndexer_new va"
  have pre: "path_prefixes va = {[PDP_i ?x], [PDP_i ?x, PD_i ?x], [PDP_i ?x, PD_i ?x, PT_i ?x]}"
    by (simp add: path_prefixes_eq Let_def)
  then have P: "[] @ [PDP_i ?x] \<in> P" "[PDP_i ?x] @ [PD_i ?x] \<in> P" "[PDP_i ?x, PD_i ?x] @ [PT_i ?x] \<in> P"
    using ex(2) by auto
  obtain s1 t1 where n1: "next_table s root (PDP_i ?x) = (s1, t1)" by fastforce
  obtain s2 t2 where n2: "next_table s1 t1 (PD_i ?x) = (s2, t2)" by fastforce
  obtain s3 t3 where n3: "next_table s2 t2 (PT_i ?x) = (s3, t3)" by fastforce
  note N1 = next_table_exact [OF ok root_is_table _ index_less(1) ex(1) P(1) n1, simplified]
  note N2 = next_table_exact [OF N1(1,2) _ index_less(2) N1(6) P(2) n2, simplified]
  note N3 = next_table_exact [OF N2(1,2) _ index_less(3) N2(6) P(3) n3, simplified]
  let ?pde = "link_to (entry (pmem s3) t3 (P_i ?x)) pa"
  have s': "s' = s3\<lparr>pmem := set_entry (pmem s3) t3 (P_i ?x) ?pde\<rparr>"
    using map n1 n2 n3 by (auto simp: MapMemory_def Let_def link_to_def)
  have fm: "frame_map (pmem s3) root = frame_map (pmem s) root"
    using N1(3) N2(3) N3(3) by (auto simp: frame_map_def fun_eq_iff)
  have path: "[PDP_i ?x, PD_i ?x, PT_i ?x] @ [P_i ?x] = va_path va" by (simp add: va_path_def Let_def)
  have W: "paging_ok s' root" "free_pages s' = free_pages s3"
    "frame_map (pmem s') root = (frame_map (pmem s3) root)(va_path va := Some (frame_of pa))"
    using leaf_write [OF N3(1,2) _ index_less(4), of va ?pde] unfolding s' path [symmetric] by simp_all
  show "paging_ok s' root" by (rule W(1))
  show "frame_map (pmem s') root = (frame_map (pmem s) root)(va_path va := Some (frame_of pa))"
    using W(3) fm by simp
  have "keeps_stable root s3 s'" unfolding s' by (rule leaf_stable [OF N3(1,2) _ index_less(4)]) simp
  with N1(4) N2(4) N3(4) show "keeps_stable root s s'" by (blast intro: keeps_stable_trans)
  have "is_table (pmem s') root q u = is_table (pmem s3) root q u" for q u
    unfolding s' by (simp add: leaf_tables [OF N3(1,2) _ index_less(4)])
  then have "table_paths (pmem s') root = table_paths (pmem s3) root" by (simp add: table_paths_def)
  with W(2) have "tables_grow {} root s3 s'" by (simp add: tables_grow_def)
  from tables_grow_trans [OF tables_grow_trans [OF tables_grow_trans [OF N1(5) N2(5)] N3(5)] this]
  show g: "tables_grow (path_prefixes va) root s s'" by (simp add: pre insert_commute)
  show "budget d P root s'" by (rule budget_after [OF ex(1) g ex(2)])
qed

text \<open>A list of addresses that are mapped one after the other.\<close>

fun map_all :: "u64 \<Rightarrow> (u64 \<times> u64) list \<Rightarrow> PageFrameAllocator \<Rightarrow> PageFrameAllocator" where
  "map_all root [] s = s"
| "map_all root ((va, pa) # ms) s = map_all root ms (fst (MapMemory s root va pa))"

lemma map_all_exact:
  assumes "paging_ok s root" "budget d P root s" "\<Union> (path_prefixes ` fst ` set ms) \<subseteq> P"
  shows "paging_ok (map_all root ms s) root \<and> budget d P root (map_all root ms s)
    \<and> keeps_stable root s (map_all root ms s)
    \<and> tables_grow (\<Union> (path_prefixes ` fst ` set ms)) root s (map_all root ms s)
    \<and> frame_map (pmem (map_all root ms s)) root
      = fold (\<lambda>(va, pa) f. f(va_path va := Some (frame_of pa))) ms (frame_map (pmem s) root)"
  using assms
proof (induction ms arbitrary: s)
  case Nil
  then show ?case by (simp add: tables_grow_def)
next
  case (Cons mp ms)
  obtain va pa where mp: "mp = (va, pa)" by (cases mp)
  obtain s1 r where m: "MapMemory s root va pa = (s1, r)" by fastforce
  have pre: "path_prefixes va \<subseteq> P" using Cons.prems(3) by (simp add: mp)
  note M = MapMemory_exact [OF Cons.prems(1,2) pre m]
  have "\<Union> (path_prefixes ` fst ` set ms) \<subseteq> P" using Cons.prems(3) by simp
  note IH = Cons.IH [OF M(1,5) this]
  have "keeps_stable root s (map_all root ms s1)" using M(3) IH by (blast intro: keeps_stable_trans)
  moreover have "tables_grow (path_prefixes va \<union> \<Union> (path_prefixes ` fst ` set ms)) root s (map_all root ms s1)"
    using M(4) IH by (blast intro: tables_grow_trans)
  ultimately show ?case using IH M(2) by (simp add: mp m)
qed

text \<open>The loop that maps a range to itself goes through the pages of the range.\<close>

definition range_pages :: "u64 \<Rightarrow> nat \<Rightarrow> u64 list" where
  "range_pages ptr n = map (\<lambda>k. ptr + of_nat k * 0x1000) [0..<n]"

lemma range_pages_Suc: "range_pages ptr (Suc n) = ptr # range_pages (ptr + 0x1000) n"
proof -
  have "[0..<Suc n] = 0 # map Suc [0..<n]" by (simp add: upt_conv_Cons map_Suc_upt del: upt_Suc)
  then show ?thesis by (simp add: range_pages_def algebra_simps del: upt_Suc)
qed

lemma identity_map_loop_all:
  assumes "unat ptr + 4096 * n < 2 ^ 64"
  shows "identity_map_loop root (ptr + of_nat n * 0x1000) ptr s
    = Some (map_all root (map (\<lambda>a. (a, a)) (range_pages ptr n)) s)"
  using assms
proof (induction n arbitrary: ptr s)
  case 0
  then show ?case by (simp add: identity_map_loop.simps range_pages_def)
next
  case (Suc n)
  have u1: "unat (ptr + 0x1000) = unat ptr + 4096"
    using Suc.prems by (subst unat_add_no_wrap) simp_all
  have lt: "ptr < ptr + of_nat (Suc n) * 0x1000"
    using range_end [OF Suc.prems] by (simp add: word_less_nat_alt)
  have e: "ptr + 0x1000 + of_nat n * 0x1000 = ptr + of_nat (Suc n) * 0x1000" by (simp add: algebra_simps)
  have "identity_map_loop root (ptr + of_nat (Suc n) * 0x1000) ptr s
    = identity_map_loop root (ptr + 0x1000 + of_nat n * 0x1000) (ptr + 0x1000) (fst (MapMemory s root ptr ptr))"
    unfolding e using lt by (simp add: identity_map_loop.simps [of _ _ ptr s])
  also have "\<dots> = Some (map_all root (map (\<lambda>a. (a, a)) (range_pages (ptr + 0x1000) n)) (fst (MapMemory s root ptr ptr)))"
    using u1 Suc.prems by (intro Suc.IH) simp
  finally show ?case by (simp add: range_pages_Suc)
qed

lemma identity_maps_fold:
  "identity_maps ptr n f = fold (\<lambda>(va, pa) f. f(va_path va := Some (frame_of pa))) (map (\<lambda>a. (a, a)) (range_pages ptr n)) f"
  by (simp add: identity_maps_def range_pages_def fold_map o_def)

lemma identity_range_exact:
  assumes ok: "paging_ok s root" and n: "n = (unat sz + 4095) div 4096"
    and wrap: "unat address + 4096 * n < 2 ^ 64"
    and ex: "budget d P root s" "\<Union> (path_prefixes ` set (range_pages address n)) \<subseteq> P"
  shows "\<exists>s'. IndentityMapMemory_range s root address sz = Some s' \<and> paging_ok s' root \<and> budget d P root s'
    \<and> keeps_stable root s s' \<and> tables_grow (\<Union> (path_prefixes ` set (range_pages address n))) root s s'
    \<and> frame_map (pmem s') root = identity_maps address n (frame_map (pmem s) root)"
proof -
  let ?ms = "map (\<lambda>a. (a, a)) (range_pages address n)"
  have "fst ` set ?ms = set (range_pages address n)" by force
  with map_all_exact [OF ok ex(1), of ?ms] ex(2) show ?thesis
    using identity_map_loop_all [OF wrap] ROUND_UP_range [OF n wrap]
    by (simp add: IndentityMapMemory_range_def identity_maps_fold)
qed

subsection \<open>The tables of a range, counted\<close>

text \<open>
  Two addresses with the same 2 MB block share all three tables, with the same GB the first two,
  and so on: a range needs one table of each level for each block it touches.
\<close>

definition tables_bound :: "nat \<Rightarrow> nat \<Rightarrow> nat" where
  "tables_bound a n = (\<Sum>k \<leftarrow> [21, 30, 39]. (a + 4096 * n) div 2 ^ k - a div 2 ^ k + 1)"

lemma card_image_factor:
  assumes "finite B" "\<And>x. x \<in> A \<Longrightarrow> g x \<in> B" "\<And>x y. x \<in> A \<Longrightarrow> y \<in> A \<Longrightarrow> g x = g y \<Longrightarrow> f x = f y"
  shows "card (f ` A) \<le> card B"
proof -
  have "f ` A \<subseteq> (\<lambda>b. f (inv_into A g b)) ` g ` A"
  proof
    fix z assume "z \<in> f ` A"
    then obtain x where x: "x \<in> A" "z = f x" by blast
    have "f (inv_into A g (g x)) = f x"
      using x(1) by (intro assms(3)) (auto intro: inv_into_into f_inv_into_f)
    then show "z \<in> (\<lambda>b. f (inv_into A g b)) ` g ` A" using x by force
  qed
  moreover have fin: "finite (g ` A)" using assms(1,2) by (blast intro: finite_subset)
  ultimately have "card (f ` A) \<le> card (g ` A)"
    by (meson card_image_le card_mono finite_imageI order_trans)
  also have "\<dots> \<le> card B" using assms(1,2) by (intro card_mono) auto
  finally show ?thesis .
qed

lemma same_block:
  fixes a b :: u64
  assumes "unat a div 2 ^ k = unat b div 2 ^ k" "k \<le> n"
  shows "bit a n = bit b n"
proof -
  have "unat (drop_bit k a) = unat (drop_bit k b)"
    using assms(1) by (simp only: unat_drop_bit_eq drop_bit_eq_div [where ?'a = nat])
  then have "drop_bit k a = drop_bit k b" by (rule word_unat_eq_iff [THEN iffD2])
  then have "bit (drop_bit k a) (n - k) = bit (drop_bit k b) (n - k)" by simp
  then show ?thesis using assms(2) by (simp add: bit_drop_bit_eq)
qed

lemma same_indices:
  "unat a div 2 ^ 39 = unat b div 2 ^ 39 \<Longrightarrow> PDP_i (PageMapIndexer_new a) = PDP_i (PageMapIndexer_new b)"
  "unat a div 2 ^ 30 = unat b div 2 ^ 30 \<Longrightarrow> PD_i (PageMapIndexer_new a) = PD_i (PageMapIndexer_new b)"
  "unat a div 2 ^ 21 = unat b div 2 ^ 21 \<Longrightarrow> PT_i (PageMapIndexer_new a) = PT_i (PageMapIndexer_new b)"
proof -
  have B: "bit a (k + n) = bit b (k + n)" if "unat a div 2 ^ k = unat b div 2 ^ k" for k n
    using that by (rule same_block) simp
  show "unat a div 2 ^ 39 = unat b div 2 ^ 39 \<Longrightarrow> PDP_i (PageMapIndexer_new a) = PDP_i (PageMapIndexer_new b)"
    by (rule bit_word_eqI) (simp only: bit_index B)
  show "unat a div 2 ^ 30 = unat b div 2 ^ 30 \<Longrightarrow> PD_i (PageMapIndexer_new a) = PD_i (PageMapIndexer_new b)"
    by (rule bit_word_eqI) (simp only: bit_index B)
  show "unat a div 2 ^ 21 = unat b div 2 ^ 21 \<Longrightarrow> PT_i (PageMapIndexer_new a) = PT_i (PageMapIndexer_new b)"
    by (rule bit_word_eqI) (simp only: bit_index B)
qed

lemma coarser_block: "(a :: nat) div 2 ^ k = b div 2 ^ k \<Longrightarrow> k \<le> l \<Longrightarrow> a div 2 ^ l = b div 2 ^ l"
proof -
  assume "a div 2 ^ k = b div 2 ^ k" "k \<le> l"
  moreover from this(2) have "(2 :: nat) ^ l = 2 ^ k * 2 ^ (l - k)" by (simp flip: power_add)
  ultimately show ?thesis by (simp add: div_mult2_eq)
qed

lemma range_tables:
  assumes "unat a + 4096 * n < 2 ^ 64"
  shows "card (\<Union> (path_prefixes ` set (range_pages a n))) \<le> tables_bound (unat a) n"
proof -
  let ?A = "set (range_pages a n)"
  have u: "x \<in> ?A \<Longrightarrow> unat a \<le> unat x \<and> unat x \<le> unat a + 4096 * n" for x
  proof -
    assume "x \<in> ?A"
    then obtain k where k: "k < n" "x = a + of_nat k * 0x1000" by (auto simp: range_pages_def)
    then have "unat x = unat a + 4096 * k" using assms by (simp only: k(2)) (rule range_end, simp)
    with k(1) show ?thesis by simp
  qed
  have c: "card ((\<lambda>x. take i (va_path x)) ` ?A) \<le> (unat a + 4096 * n) div 2 ^ k - unat a div 2 ^ k + 1"
    if same: "\<And>x y. unat x div 2 ^ k = unat y div 2 ^ k \<Longrightarrow> take i (va_path x) = take i (va_path y)" for i k
  proof -
    have "card ((\<lambda>x. take i (va_path x)) ` ?A) \<le> card {unat a div 2 ^ k .. (unat a + 4096 * n) div 2 ^ k}"
    proof (rule card_image_factor)
      fix x assume "x \<in> ?A"
      from u [OF this] show "unat x div 2 ^ k \<in> {unat a div 2 ^ k .. (unat a + 4096 * n) div 2 ^ k}"
        by (simp add: div_le_mono)
    next
      fix x y :: u64 assume "unat x div 2 ^ k = unat y div 2 ^ k"
      then show "take i (va_path x) = take i (va_path y)" by (rule same)
    qed simp
    then show ?thesis by (simp add: Suc_diff_le div_le_mono)
  qed
  have e: "\<Union> (path_prefixes ` ?A) = (\<lambda>x. take 1 (va_path x)) ` ?A \<union> (\<lambda>x. take 2 (va_path x)) ` ?A
      \<union> (\<lambda>x. take 3 (va_path x)) ` ?A" by (auto simp: path_prefixes_def)
  have "card ((\<lambda>x. take 1 (va_path x)) ` ?A) \<le> (unat a + 4096 * n) div 2 ^ 39 - unat a div 2 ^ 39 + 1"
  proof (rule c)
    fix x y :: u64 assume e: "unat x div 2 ^ 39 = unat y div 2 ^ 39"
    from same_indices(1) [OF e] show "take 1 (va_path x) = take 1 (va_path y)"
      by (simp add: va_path_def Let_def)
  qed
  moreover have "card ((\<lambda>x. take 2 (va_path x)) ` ?A) \<le> (unat a + 4096 * n) div 2 ^ 30 - unat a div 2 ^ 30 + 1"
  proof (rule c)
    fix x y :: u64 assume e: "unat x div 2 ^ 30 = unat y div 2 ^ 30"
    have "unat x div 2 ^ 39 = unat y div 2 ^ 39" by (rule coarser_block [OF e]) simp
    from same_indices(1) [OF this] same_indices(2) [OF e] show "take 2 (va_path x) = take 2 (va_path y)"
      by (simp add: va_path_def Let_def)
  qed
  moreover have "card ((\<lambda>x. take 3 (va_path x)) ` ?A) \<le> (unat a + 4096 * n) div 2 ^ 21 - unat a div 2 ^ 21 + 1"
  proof (rule c)
    fix x y :: u64 assume e: "unat x div 2 ^ 21 = unat y div 2 ^ 21"
    have "unat x div 2 ^ 39 = unat y div 2 ^ 39" "unat x div 2 ^ 30 = unat y div 2 ^ 30"
      by (rule coarser_block [OF e], simp)+
    from same_indices(1) [OF this(1)] same_indices(2) [OF this(2)] same_indices(3) [OF e]
    show "take 3 (va_path x) = take 3 (va_path y)"
      by (simp add: va_path_def Let_def)
  qed
  moreover have "card (\<Union> (path_prefixes ` ?A)) \<le> card ((\<lambda>x. take 1 (va_path x)) ` ?A)
      + card ((\<lambda>x. take 2 (va_path x)) ` ?A) + card ((\<lambda>x. take 3 (va_path x)) ` ?A)"
    unfolding e by (rule order_trans [OF card_Un_le]) (simp add: card_Un_le)
  ultimately show ?thesis unfolding tables_bound_def by simp
qed

end
