(* ===== verification/Heap.thy ===== *)
theory Heap
  imports Prelude
begin

section \<open>The kernel heap (kernel/src/memory_management/heap.cpp)\<close>

text \<open>
  Segment headers form a doubly linked list in memory. \<open>hdrs\<close> is the typed store of headers by
  address; a header is 32 bytes long and the payload follows it. \<open>calloc\<close> clears bytes, which reach the fields
  of every header in their range. Growing the heap asks the
  page allocator for a frame and maps it: the parameter \<open>grow\<close>, instantiated with the
  allocator and the page tables in the theory that models them. Address 0 is NULL and is an
  address like any other in the store, as it is for the code.
\<close>

record HeapSegHdr =
  seg_length :: u64
  seg_next :: u64
  seg_last :: u64
  seg_free :: bool

abbreviation sizeof_HeapSegHdr :: u64 where
  "sizeof_HeapSegHdr \<equiv> 32"

record 'b heap =
  heapStart :: u64
  heapEnd :: u64
  LastHdr :: u64
  usedPages :: u64
  start_page_count :: u64
  hdrs :: "u64 \<Rightarrow> HeapSegHdr"
  backing :: 'b

type_synonym 'b grow = "'b \<Rightarrow> u64 \<Rightarrow> 'b \<times> bool"

text \<open>Assignment to fields of the header at an address.\<close>

definition hupd :: "u64 \<Rightarrow> (HeapSegHdr \<Rightarrow> HeapSegHdr) \<Rightarrow> 'b heap \<Rightarrow> 'b heap" where
  "hupd a f h = h\<lparr>hdrs := (hdrs h)(a := f (hdrs h a))\<rparr>"

subsection \<open>Operations\<close>

fun create_pages :: "'b grow \<Rightarrow> nat \<Rightarrow> u64 \<Rightarrow> 'b heap \<Rightarrow> 'b heap may_panic" where
  "create_pages grow 0 pos h = Inr h"
| "create_pages grow (Suc n) pos h =
     (case grow (backing h) pos of
        (b, False) \<Rightarrow> Inl (Panic ''Cant request heap page'')
      | (b, True) \<Rightarrow> create_pages grow n (pos + 0x1000)
                      (h\<lparr>backing := b, usedPages := usedPages h + 1\<rparr>))"

definition CreateHeap :: "'b grow \<Rightarrow> 'b heap \<Rightarrow> u64 \<Rightarrow> u64 \<Rightarrow> 'b heap may_panic" where
  "CreateHeap grow h heapAddress pageCount =
     (if heapStart h \<noteq> NULL then Inl (Panic ''Heap already initialized'')
      else case create_pages grow (unat pageCount) heapAddress h of
        Inl p \<Rightarrow> Inl p
      | Inr h \<Rightarrow>
          let heapLength = pageCount * 0x1000;
              h = h\<lparr>heapStart := heapAddress, heapEnd := heapAddress + heapLength\<rparr>;
              h = hupd heapAddress (\<lambda>s. s\<lparr>seg_length := heapLength - sizeof_HeapSegHdr\<rparr>) h;
              h = hupd heapAddress (\<lambda>s. s\<lparr>seg_next := NULL\<rparr>) h;
              h = hupd heapAddress (\<lambda>s. s\<lparr>seg_last := NULL\<rparr>) h;
              h = hupd heapAddress (\<lambda>s. s\<lparr>seg_free := True\<rparr>) h
          in Inr (h\<lparr>LastHdr := heapAddress, start_page_count := pageCount\<rparr>))"

definition Split :: "'b heap \<Rightarrow> u64 \<Rightarrow> u64 \<Rightarrow> 'b heap \<times> u64" where
  "Split h this splitLength =
     (if splitLength < 0x10 then (h, NULL)
      else let splitSegLength = seg_length (hdrs h this) - splitLength - sizeof_HeapSegHdr in
      if sint splitSegLength < 0x10 then (h, NULL)
      else let newSplitHdr = this + splitLength + sizeof_HeapSegHdr;
               h = hupd (seg_next (hdrs h this)) (\<lambda>s. s\<lparr>seg_last := newSplitHdr\<rparr>) h;
               h = hupd newSplitHdr (\<lambda>s. s\<lparr>seg_next := seg_next (hdrs h this)\<rparr>) h;
               h = hupd this (\<lambda>s. s\<lparr>seg_next := newSplitHdr\<rparr>) h;
               h = hupd newSplitHdr (\<lambda>s. s\<lparr>seg_last := this\<rparr>) h;
               h = hupd newSplitHdr (\<lambda>s. s\<lparr>seg_length := splitSegLength\<rparr>) h;
               h = hupd newSplitHdr (\<lambda>s. s\<lparr>seg_free := seg_free (hdrs h this)\<rparr>) h;
               h = hupd this (\<lambda>s. s\<lparr>seg_length := splitLength\<rparr>) h;
               h = (if LastHdr h = this then h\<lparr>LastHdr := newSplitHdr\<rparr> else h)
           in (h, newSplitHdr))"

definition CombineForward :: "'b heap \<Rightarrow> u64 \<Rightarrow> 'b heap" where
  "CombineForward h this =
     (if seg_next (hdrs h this) = NULL then h
      else if \<not> seg_free (hdrs h (seg_next (hdrs h this))) then h
      else let h = (if seg_next (hdrs h this) = LastHdr h then h\<lparr>LastHdr := this\<rparr> else h);
               next_next = seg_next (hdrs h (seg_next (hdrs h this)));
               h = (if next_next \<noteq> NULL then hupd next_next (\<lambda>s. s\<lparr>seg_last := this\<rparr>) h else h);
               h = hupd this (\<lambda>s. s\<lparr>seg_length := seg_length s
                     + seg_length (hdrs h (seg_next s)) + sizeof_HeapSegHdr\<rparr>) h
           in hupd this (\<lambda>s. s\<lparr>seg_next := seg_next (hdrs h (seg_next s))\<rparr>) h)"

definition CombineBackward :: "'b heap \<Rightarrow> u64 \<Rightarrow> 'b heap" where
  "CombineBackward h this =
     (if seg_last (hdrs h this) \<noteq> NULL \<and> seg_free (hdrs h (seg_last (hdrs h this)))
      then CombineForward h (seg_last (hdrs h this)) else h)"

fun expand_pages :: "'b grow \<Rightarrow> nat \<Rightarrow> 'b heap \<Rightarrow> 'b heap \<times> bool" where
  "expand_pages grow 0 h = (h, True)"
| "expand_pages grow (Suc n) h =
     (case grow (backing h) (heapEnd h) of
        (b, False) \<Rightarrow> (h\<lparr>backing := b\<rparr>, False)
      | (b, True) \<Rightarrow> expand_pages grow n
           (h\<lparr>backing := b, heapEnd := heapEnd h + 0x1000, usedPages := usedPages h + 1\<rparr>))"

definition round_up_to :: "u64 \<Rightarrow> u64 \<Rightarrow> u64" where
  "round_up_to n x = (if x mod n > 0 then x - x mod n + n else x)"

definition ExpandHeap :: "'b grow \<Rightarrow> 'b heap \<Rightarrow> u64 \<Rightarrow> 'b heap \<times> bool" where
  "ExpandHeap grow h len0 =
     (let len = round_up_to 0x1000 len0;
          pageCount = len div 0x1000;
          newSegment = heapEnd h
      in case expand_pages grow (unat pageCount) h of
           (h, False) \<Rightarrow> (h, False)
         | (h, True) \<Rightarrow>
             let h = hupd newSegment (\<lambda>s. s\<lparr>seg_free := True\<rparr>) h;
                 h = hupd newSegment (\<lambda>s. s\<lparr>seg_last := LastHdr h\<rparr>) h;
                 h = hupd (LastHdr h) (\<lambda>s. s\<lparr>seg_next := newSegment\<rparr>) h;
                 h = h\<lparr>LastHdr := newSegment\<rparr>;
                 h = hupd newSegment (\<lambda>s. s\<lparr>seg_next := NULL\<rparr>) h;
                 h = hupd newSegment (\<lambda>s. s\<lparr>seg_length := len - sizeof_HeapSegHdr\<rparr>) h
             in (CombineBackward h newSegment, True))"

text \<open>
  The search loop of \<open>malloc\<close>: the first free segment whose \<open>curSize\<close> is at least the request,
  or none. Nothing in the code bounds the walk, so it may fail to return.
\<close>

definition curSize :: "'b heap \<Rightarrow> u64 \<Rightarrow> u64" where
  "curSize h seg = seg_length (hdrs h seg) - sizeof_HeapSegHdr"

partial_function (option) find_segment :: "'b heap \<Rightarrow> u64 \<Rightarrow> u64 \<Rightarrow> u64 option option" where
  "find_segment h currentSeg sz =
     (if seg_free (hdrs h currentSeg) \<and> (curSize h currentSeg > sz \<or> curSize h currentSeg = sz)
      then Some (Some currentSeg)
      else if seg_next (hdrs h currentSeg) = NULL then Some None
      else find_segment h (seg_next (hdrs h currentSeg)) sz)"

definition take_segment :: "'b heap \<Rightarrow> u64 \<Rightarrow> u64 \<Rightarrow> 'b heap \<times> u64" where
  "take_segment h currentSeg sz =
     (let h = (if curSize h currentSeg > sz then fst (Split h currentSeg sz) else h)
      in (hupd currentSeg (\<lambda>s. s\<lparr>seg_free := False\<rparr>) h, currentSeg + sizeof_HeapSegHdr))"

partial_function (option) malloc :: "'b grow \<Rightarrow> 'b heap \<Rightarrow> u64 \<Rightarrow> ('b heap \<times> u64) option" where
  "malloc grow h sz0 =
     (if sz0 = 0 then Some (h, NULL)
      else let sz = round_up_to 0x10 sz0 in
        Option.bind (find_segment h (heapStart h) sz)
          (\<lambda>r. case r of
             Some seg \<Rightarrow> Some (take_segment h seg sz)
           | None \<Rightarrow>
               (case ExpandHeap grow h sz of
                  (h', ok) \<Rightarrow> if \<not> ok then Some (h', NULL) else malloc grow h' sz)))"

text \<open>
  \<open>memset(mem, 0, size)\<close> on the store of headers: the bytes of a header that lie in the range become 0. The
  fields of \<open>HeapSegHdr\<close> start at bytes 0, 8, 16 and 24.
\<close>

definition in_range :: "u64 \<Rightarrow> u64 \<Rightarrow> u64 \<Rightarrow> bool" where
  "in_range start n x \<longleftrightarrow> x - start < n"

definition clear_field :: "(u64 \<Rightarrow> bool) \<Rightarrow> u64 \<Rightarrow> u64 \<Rightarrow> u64" where
  "clear_field cleared a v =
     fold (\<lambda>k v. if cleared (a + of_nat k) then v AND NOT (push_bit (8 * k) 0xFF) else v) [0..<8] v"

definition memset_hdrs :: "u64 \<Rightarrow> u64 \<Rightarrow> 'b heap \<Rightarrow> 'b heap" where
  "memset_hdrs start n h = h\<lparr>hdrs := (\<lambda>a. let s = hdrs h a; cleared = in_range start n in
     \<lparr>seg_length = clear_field cleared a (seg_length s), seg_next = clear_field cleared (a + 8) (seg_next s),
      seg_last = clear_field cleared (a + 16) (seg_last s), seg_free = (seg_free s \<and> \<not> cleared (a + 24))\<rparr>)\<rparr>"

definition calloc :: "'b grow \<Rightarrow> 'b heap \<Rightarrow> u64 \<Rightarrow> ('b heap \<times> u64) option" where
  "calloc grow h size0 =
     (if size0 = 0 then Some (h, NULL)
      else let size = round_up_to 0x10 size0 in
        map_option (\<lambda>(h, mem). if mem = NULL then (h, NULL) else (memset_hdrs mem size h, mem))
          (malloc grow h size))"

definition free :: "'b heap \<Rightarrow> u64 \<Rightarrow> 'b heap" where
  "free h address =
     (if address = NULL then h
      else let segment = address - sizeof_HeapSegHdr;
               h = hupd segment (\<lambda>s. s\<lparr>seg_free := True\<rparr>) h;
               h = CombineForward h segment
           in CombineBackward h segment)"

text \<open>The C++ allocation operators: both forms of \<open>new\<close> clear their memory.\<close>

definition operator_new :: "'b grow \<Rightarrow> 'b heap \<Rightarrow> u64 \<Rightarrow> ('b heap \<times> u64) option" where
  "operator_new grow h n = calloc grow h n"

definition operator_delete :: "'b heap \<Rightarrow> u64 \<Rightarrow> 'b heap" where
  "operator_delete h p = free h p"

definition GetHeapPages :: "'b heap \<Rightarrow> u64" where
  "GetHeapPages h = usedPages h"

subsection \<open>The segment list\<close>

text \<open>
  \<open>dseg H p x k as q y e\<close>: from pointer \<open>x\<close>, whose predecessor is \<open>p\<close>, the headers at the
  addresses \<open>as\<close> follow each other in ascending order from byte \<open>k\<close>, without overlap; the list
  is left with predecessor \<open>q\<close>, pointer \<open>y\<close>, and no byte at or above \<open>e\<close> used.
\<close>

fun dseg :: "(u64 \<Rightarrow> HeapSegHdr) \<Rightarrow> u64 \<Rightarrow> u64 \<Rightarrow> nat \<Rightarrow> u64 list \<Rightarrow> u64 \<Rightarrow> u64 \<Rightarrow> nat \<Rightarrow> bool" where
  "dseg H p x k [] q y e \<longleftrightarrow> p = q \<and> x = y \<and> k \<le> e"
| "dseg H p x k (a # as) q y e \<longleftrightarrow>
     a = x \<and> a \<noteq> NULL \<and> k \<le> unat a \<and> seg_last (H a) = p \<and> 16 \<le> unat (seg_length (H a))
     \<and> dseg H a (seg_next (H a)) (unat a + 32 + unat (seg_length (H a))) as q y e"

definition heap_segs :: "'b heap \<Rightarrow> u64 list \<Rightarrow> bool" where
  "heap_segs h as \<longleftrightarrow> as \<noteq> [] \<and>
     dseg (hdrs h) NULL (heapStart h) (unat (heapStart h)) as (LastHdr h) NULL (unat (heapEnd h))"

definition heap_ok :: "'b heap \<Rightarrow> bool" where
  "heap_ok h \<longleftrightarrow> (\<exists>as. heap_segs h as)"

lemma hupd_simps [simp]:
  "hdrs (hupd a f h) = (hdrs h)(a := f (hdrs h a))" "heapStart (hupd a f h) = heapStart h"
  "heapEnd (hupd a f h) = heapEnd h" "LastHdr (hupd a f h) = LastHdr h"
  "backing (hupd a f h) = backing h" "usedPages (hupd a f h) = usedPages h"
  by (simp_all add: hupd_def)

lemma dseg_mono_start: "dseg H p x k as q y e \<Longrightarrow> k' \<le> k \<Longrightarrow> dseg H p x k' as q y e"
  by (cases as) auto

lemma dseg_mono_end: "dseg H p x k as q y e \<Longrightarrow> e \<le> e' \<Longrightarrow> dseg H p x k as q y e'"
  by (induction as arbitrary: p x k) auto

lemma dseg_start_le_end: "dseg H p x k as q y e \<Longrightarrow> k \<le> e"
  by (induction as arbitrary: p x k) fastforce+

lemma dseg_append:
  "dseg H p x k (as @ bs) q y e \<longleftrightarrow>
     (\<exists>q' y' e'. dseg H p x k as q' y' e' \<and> dseg H q' y' e' bs q y e)"
proof (induction as arbitrary: p x k)
  case Nil
  show ?case by (auto intro: dseg_mono_start)
next
  case (Cons a as)
  then show ?case by auto
qed

lemma dseg_mem_bounds:
  "dseg H p x k as q y e \<Longrightarrow> a \<in> set as \<Longrightarrow>
     a \<noteq> NULL \<and> k \<le> unat a \<and> 16 \<le> unat (seg_length (H a))
     \<and> unat a + 32 + unat (seg_length (H a)) \<le> e"
proof (induction as arbitrary: p x k)
  case Nil
  then show ?case by simp
next
  case (Cons b as)
  then show ?case by (fastforce dest: dseg_start_le_end)
qed

lemma dseg_frame:
  assumes "\<And>a. a \<in> set as \<Longrightarrow> H' a = H a"
  shows "dseg H' p x k as q y e = dseg H p x k as q y e"
  using assms by (induction as arbitrary: p x k) auto

lemma dseg_not_in:
  assumes "dseg H p x k as q y e" and "unat a < k \<or> e \<le> unat a \<or> a = NULL"
  shows "a \<notin> set as"
  using dseg_mem_bounds [OF assms(1), of a] assms(2) by force

text \<open>The predecessor left behind is the last address of the list.\<close>

lemma dseg_last: "dseg H p x k as q y e \<Longrightarrow> as \<noteq> [] \<Longrightarrow> q = last as"
proof (induction as arbitrary: p x k)
  case (Cons a as)
  then show ?case by (cases as) auto
qed simp

lemma dseg_hd: "dseg H p x k (a # as) q y e \<Longrightarrow> x = a"
  by simp

text \<open>
  A segment in the middle of the list: what its fields are, and what is around it.
\<close>

lemma heap_segs_split:
  "heap_segs h (xs @ a # ys) \<longleftrightarrow>
     (\<exists>p e'. dseg (hdrs h) NULL (heapStart h) (unat (heapStart h)) xs p a e'
        \<and> a \<noteq> NULL \<and> e' \<le> unat a \<and> seg_last (hdrs h a) = p \<and> 16 \<le> unat (seg_length (hdrs h a))
        \<and> dseg (hdrs h) a (seg_next (hdrs h a)) (unat a + 32 + unat (seg_length (hdrs h a))) ys
            (LastHdr h) NULL (unat (heapEnd h)))"
  by (auto simp: heap_segs_def dseg_append)

lemma heap_segs_last: "heap_segs h as \<Longrightarrow> LastHdr h = last as"
  by (auto simp: heap_segs_def dest: dseg_last)

lemma heap_segs_hd: "heap_segs h as \<Longrightarrow> hd as = heapStart h"
  by (cases as) (auto simp: heap_segs_def)

lemma heap_segs_bounds:
  "heap_segs h as \<Longrightarrow> a \<in> set as \<Longrightarrow>
     a \<noteq> NULL \<and> unat (heapStart h) \<le> unat a \<and> 16 \<le> unat (seg_length (hdrs h a))
     \<and> unat a + 32 + unat (seg_length (hdrs h a)) \<le> unat (heapEnd h)"
  unfolding heap_segs_def by (blast dest: dseg_mem_bounds)

subsection \<open>Abstract view: a list of segments\<close>

text \<open>
  A segment is its header address, its payload length and its free flag. \<open>heap_rep h sg\<close>: the
  linked headers of \<open>h\<close> are exactly the segments \<open>sg\<close>, in address order.
\<close>

type_synonym segment = "u64 \<times> u64 \<times> bool"

definition seg_entry :: "'b heap \<Rightarrow> u64 \<Rightarrow> segment" where
  "seg_entry h a = (a, seg_length (hdrs h a), seg_free (hdrs h a))"

definition heap_rep :: "'b heap \<Rightarrow> segment list \<Rightarrow> bool" where
  "heap_rep h sg \<longleftrightarrow> heap_segs h (map fst sg) \<and> (\<forall>t \<in> set sg. seg_entry h (fst t) = t)"

definition seg_end :: "segment \<Rightarrow> nat" where
  "seg_end s = unat (fst s) + 32 + unat (fst (snd s))"

lemma heap_rep_vals:
  "heap_rep h sg \<Longrightarrow> (a, l, f) \<in> set sg \<Longrightarrow>
     seg_length (hdrs h a) = l \<and> seg_free (hdrs h a) = f"
  by (force simp: heap_rep_def seg_entry_def)

lemma heap_repI:
  assumes "heap_segs h (map fst sg)" and "\<And>t. t \<in> set sg \<Longrightarrow> seg_entry h (fst t) = t"
  shows "heap_rep h sg"
  using assms by (simp add: heap_rep_def)

lemma heap_repI_mid:
  assumes "heap_segs h (map fst (xs @ ms @ ys))"
    and "\<And>t. t \<in> set xs \<union> set ys \<Longrightarrow> seg_entry h (fst t) = t"
    and "\<And>t. t \<in> set ms \<Longrightarrow> seg_entry h (fst t) = t"
  shows "heap_rep h (xs @ ms @ ys)"
  using assms by (intro heap_repI) auto

lemma heap_rep_seg_entry: "heap_rep h sg \<Longrightarrow> t \<in> set sg \<Longrightarrow> seg_entry h (fst t) = t"
  by (simp add: heap_rep_def)

lemma heap_rep_ok: "heap_rep h sg \<Longrightarrow> heap_ok h"
  by (auto simp: heap_rep_def heap_ok_def)

lemma heap_ok_rep: "heap_ok h \<Longrightarrow> \<exists>sg. heap_rep h sg"
proof -
  assume "heap_ok h"
  then obtain as where "heap_segs h as" by (auto simp: heap_ok_def)
  then have "heap_rep h (map (\<lambda>a. (a, seg_length (hdrs h a), seg_free (hdrs h a))) as)"
    by (auto simp: heap_rep_def comp_def seg_entry_def)
  then show ?thesis ..
qed

text \<open>The segment at a position, with the facts about its two sides.\<close>

lemma heap_rep_split:
  assumes "heap_rep h (xs @ (a, l, f) # ys)"
  obtains p e where
    "dseg (hdrs h) NULL (heapStart h) (unat (heapStart h)) (map fst xs) p a e"
    "a \<noteq> NULL" "e \<le> unat a" "seg_last (hdrs h a) = p" "16 \<le> unat l"
    "dseg (hdrs h) a (seg_next (hdrs h a)) (unat a + 32 + unat l) (map fst ys)
        (LastHdr h) NULL (unat (heapEnd h))"
    "seg_length (hdrs h a) = l" "seg_free (hdrs h a) = f"
    "unat a + 32 + unat l \<le> unat (heapEnd h)"
    "\<And>x. x \<in> fst ` set xs \<Longrightarrow> x \<noteq> NULL \<and> unat x + 48 \<le> unat a"
    "\<And>y. y \<in> fst ` set ys \<Longrightarrow> y \<noteq> NULL \<and> unat a + 32 + unat l \<le> unat y"
proof -
  let ?S = "unat (heapStart h)" and ?E = "unat (heapEnd h)"
  from assms have l: "seg_length (hdrs h a) = l" and f: "seg_free (hdrs h a) = f"
    by (auto simp: heap_rep_def seg_entry_def)
  from assms l obtain p e where pe:
    "dseg (hdrs h) NULL (heapStart h) ?S (map fst xs) p a e"
    "a \<noteq> NULL" "e \<le> unat a" "seg_last (hdrs h a) = p" "16 \<le> unat l"
    "dseg (hdrs h) a (seg_next (hdrs h a)) (unat a + 32 + unat l) (map fst ys)
        (LastHdr h) NULL ?E"
    by (auto simp: heap_rep_def heap_segs_split)
  have left: "x \<noteq> NULL \<and> unat x + 48 \<le> unat a" if "x \<in> fst ` set xs" for x
    using dseg_mem_bounds [OF pe(1), of x] that pe(3) by force
  have right: "y \<noteq> NULL \<and> unat a + 32 + unat l \<le> unat y" if "y \<in> fst ` set ys" for y
    using dseg_mem_bounds [OF pe(6), of y] that by force
  show thesis
    by (rule that [OF pe l f dseg_start_le_end [OF pe(6)]]) (use left right in auto)
qed

lemma heap_rep_distinct: "heap_rep h (xs @ (a, l, f) # ys) \<Longrightarrow>
  a \<notin> fst ` set xs \<and> a \<notin> fst ` set ys"
  by (erule heap_rep_split) force

text \<open>The link that leaves a segment: NULL at the end of the list, else the next segment.\<close>

lemma dseg_next_cases:
  assumes "dseg H p x k as q NULL e"
  shows "(as = [] \<and> x = NULL \<and> p = q) \<or> (\<exists>bs. as = x # bs \<and> x \<noteq> NULL)"
  using assms by (cases as) auto

subsection \<open>Split\<close>

lemma Split_eq:
  assumes "16 \<le> unat n" and "16 \<le> sint (seg_length (hdrs h a) - n - 32)"
    and "a + n + 32 = new" and "seg_next (hdrs h a) = nx"
    and "new \<noteq> a" and "nx \<noteq> a" and "nx \<noteq> new"
  shows "Split h a n =
    (h\<lparr>hdrs := (hdrs h)(nx := (hdrs h nx)\<lparr>seg_last := new\<rparr>,
         new := (hdrs h new)\<lparr>seg_next := nx, seg_last := a,
                  seg_length := seg_length (hdrs h a) - n - 32, seg_free := seg_free (hdrs h a)\<rparr>,
         a := (hdrs h a)\<lparr>seg_next := new, seg_length := n\<rparr>),
       LastHdr := (if LastHdr h = a then new else LastHdr h)\<rparr>, new)"
proof -
  have c: "\<not> n < 16" "\<not> sint (seg_length (hdrs h a) - n - 32) < 16"
    using assms(1,2) by (simp_all add: word_less_nat_alt)
  show ?thesis
    unfolding Split_def Let_def if_not_P [OF c(1)] if_not_P [OF c(2)] assms(3)
    using assms(4-7) by (simp add: hupd_def fun_upd_twist)
qed

lemma Split_none:
  assumes "snd (Split h a n) = NULL" and "16 \<le> unat n \<and> 16 \<le> sint (seg_length (hdrs h a) - n - 32)
     \<Longrightarrow> a + n + 32 \<noteq> NULL"
  shows "Split h a n = (h, NULL)"
  using assms by (auto simp: Split_def Let_def word_less_nat_alt not_less split: if_splits)

lemma Split_rep:
  assumes rep: "heap_rep h (xs @ (a, l, f) # ys)"
    and fits: "unat n + 32 \<le> unat l" and n: "16 \<le> unat n" and d: "16 \<le> sint (l - n - 32)"
  shows "heap_rep (fst (Split h a n)) (xs @ (a, n, f) # (a + n + 32, l - n - 32, f) # ys)"
    and "snd (Split h a n) = a + n + 32"
    and "seg_next (hdrs h a) \<noteq> NULL \<Longrightarrow> hdrs (fst (Split h a n)) NULL = hdrs h NULL"
    and "heapEnd (fst (Split h a n)) = heapEnd h"
proof -
  let ?new = "a + n + 32" and ?d = "l - n - 32" and ?H = "hdrs h" and ?nx = "seg_next (hdrs h a)"
  obtain p e where pre: "dseg ?H NULL (heapStart h) (unat (heapStart h)) (map fst xs) p a e"
    and a: "a \<noteq> NULL" "e \<le> unat a" "seg_last (?H a) = p" "16 \<le> unat l"
    and post: "dseg ?H a ?nx (unat a + 32 + unat l) (map fst ys) (LastHdr h) NULL
        (unat (heapEnd h))"
    and fields: "seg_length (?H a) = l" "seg_free (?H a) = f"
    and end_le: "unat a + 32 + unat l \<le> unat (heapEnd h)"
    and left: "\<And>x. x \<in> fst ` set xs \<Longrightarrow> x \<noteq> NULL \<and> unat x + 48 \<le> unat a"
    and right: "\<And>y. y \<in> fst ` set ys \<Longrightarrow> y \<noteq> NULL \<and> unat a + 32 + unat l \<le> unat y"
    by (rule heap_rep_split [OF rep]) (rule that)
  have new: "unat ?new = unat a + unat n + 32"
    using end_le fits unat64_lt [of "heapEnd h"]
    by (simp add: unat_word_ariths)
  have ud: "unat ?d = unat l - unat n - 32"
    using fits by (simp add: unat_sub_no_wrap)
  have ud16: "16 \<le> unat ?d" using d sint_nonneg_unat [of ?d] by linarith
  have new_ne: "?new \<noteq> a" "?new \<noteq> NULL"
    using new by (auto simp: word_unat_eq_iff)
  have left': "x \<noteq> a \<and> x \<noteq> ?new \<and> x \<noteq> ?nx" if "x \<in> fst ` set xs" for x
    using left [OF that] new right dseg_next_cases [OF post] a(1)
    by (fastforce simp: word_unat_eq_iff)
  have right': "y \<noteq> a \<and> y \<noteq> ?new" if "y \<in> fst ` set ys" for y
    using right [OF that] new ud ud16 fits by auto
  have nx: "?nx = NULL \<or> ?nx \<in> fst ` set ys"
    using dseg_next_cases [OF post] by (auto simp: image_iff)
  then have nx_ne: "?nx \<noteq> a" "?nx \<noteq> ?new" using right' new_ne a(1) by auto
  note S = Split_eq [OF n d [folded fields(1)] refl refl new_ne(1) nx_ne]
  define h' where "h' = fst (Split h a n)"
  note h' = h'_def [unfolded S fst_conv]
  have H_other: "hdrs h' x = ?H x" if "x \<noteq> a" "x \<noteq> ?new" "x \<noteq> ?nx" for x
    using that by (simp add: h')
  have H_a: "hdrs h' a = (?H a)\<lparr>seg_next := ?new, seg_length := n\<rparr>"
    using nx_ne new_ne by (simp add: h')
  have H_new: "seg_next (hdrs h' ?new) = ?nx" "seg_last (hdrs h' ?new) = a"
      "seg_length (hdrs h' ?new) = ?d" "seg_free (hdrs h' ?new) = f"
    using nx_ne new_ne fields by (simp_all add: h')
  have H_nx: "hdrs h' ?nx = (?H ?nx)\<lparr>seg_last := ?new\<rparr>"
    using nx_ne new_ne by (simp add: h')
  have pre': "dseg (hdrs h') NULL (heapStart h) (unat (heapStart h)) (map fst xs) p a e"
    by (subst dseg_frame [where H = ?H]) (use pre left' H_other in auto)
  have last: "LastHdr h' = (if ys = [] then ?new else LastHdr h)"
  proof (cases "ys = []")
    case True
    with post show ?thesis by (simp add: h')
  next
    case False
    then have "LastHdr h = last (map fst ys)" using dseg_last [OF post] by simp
    also have "\<dots> \<in> fst ` set ys" using False by (simp add: last_map)
    finally have "LastHdr h \<noteq> a" using right' by blast
    with False show ?thesis by (simp add: h')
  qed
  have post': "dseg (hdrs h') ?new ?nx (unat ?new + 32 + unat ?d) (map fst ys) (LastHdr h') NULL
      (unat (heapEnd h))"
  proof (cases "map fst ys")
    case Nil
    then have "LastHdr h' = ?new" by (simp add: last)
    then show ?thesis using Nil post new ud fits end_le by auto
  next
    case (Cons b bs)
    with post have b: "b = ?nx" and
      bs: "dseg ?H b (seg_next (?H b)) (unat b + 32 + unat (seg_length (?H b))) bs
             (LastHdr h) NULL (unat (heapEnd h))"
      and bb: "b \<noteq> NULL" "unat a + 32 + unat l \<le> unat b" "16 \<le> unat (seg_length (?H b))"
      by auto
    have "x \<noteq> ?nx" if "x \<in> set bs" for x
      using dseg_mem_bounds [OF bs that] b by auto
    moreover have "x \<in> fst ` set ys" if "x \<in> set bs" for x
      using that Cons by (metis list.set_intros(2) set_map)
    ultimately have "dseg (hdrs h') b (seg_next (?H b)) (unat b + 32 + unat (seg_length (?H b))) bs
        (LastHdr h) NULL (unat (heapEnd h))"
      by (subst dseg_frame [where H = ?H]) (use bs H_other right' in auto)
    then show ?thesis
      using Cons b bb H_nx new ud fits last by auto
  qed
  have segs: "heap_segs h' (map fst xs @ a # ?new # map fst ys)"
  proof -
    have se: "heapStart h' = heapStart h" "heapEnd h' = heapEnd h" by (simp_all add: h')
    show ?thesis
      unfolding heap_segs_split se
      by (intro exI [where x = p] exI [where x = e] conjI pre')
         (use a post' H_a H_new n new ud ud16 fits new_ne(2) in auto)
  qed
  have others: "seg_length (hdrs h' x) = seg_length (?H x) \<and> seg_free (hdrs h' x) = seg_free (?H x)"
    if "x \<noteq> a" "x \<noteq> ?new" for x
    using that H_other H_nx by (cases "x = ?nx") auto
  have vals: "seg_entry h' (fst t) = t" if "t \<in> set xs \<union> set ys" for t
  proof -
    have "fst t \<noteq> a \<and> fst t \<noteq> ?new" using that left' right' by blast
    then have "seg_entry h' (fst t) = seg_entry h (fst t)" using others by (simp add: seg_entry_def)
    then show ?thesis using heap_rep_seg_entry [OF rep, of t] that by auto
  qed
  have mid: "seg_entry h' (fst t) = t" if "t \<in> set [(a, n, f), (a + n + 32, l - n - 32, f)]" for t
    using that H_a H_new fields by (auto simp: seg_entry_def)
  show "heap_rep (fst (Split h a n)) (xs @ (a, n, f) # (a + n + 32, l - n - 32, f) # ys)"
    unfolding h'_def [symmetric]
    using heap_repI_mid [of h' xs "[(a, n, f), (a + n + 32, l - n - 32, f)]" ys] vals mid segs
    by simp
  show "snd (Split h a n) = a + n + 32" by (simp add: S)
  show "heapEnd (fst (Split h a n)) = heapEnd h" by (simp add: S)
  assume "?nx \<noteq> NULL"
  then show "hdrs (fst (Split h a n)) NULL = hdrs h NULL"
    using H_other [of NULL] a(1) new_ne(2) by (auto simp: h'_def)
qed

lemma Split_frame:
  "heapStart (fst (Split h a n)) = heapStart h" "heapEnd (fst (Split h a n)) = heapEnd h"
  "backing (fst (Split h a n)) = backing h" "usedPages (fst (Split h a n)) = usedPages h"
  by (simp_all add: Split_def Let_def)

subsection \<open>The free flag\<close>

lemma dseg_fields:
  assumes "\<And>a. a \<in> set as \<Longrightarrow> seg_length (H' a) = seg_length (H a)
      \<and> seg_next (H' a) = seg_next (H a) \<and> seg_last (H' a) = seg_last (H a)"
  shows "dseg H' p x k as q y e = dseg H p x k as q y e"
  using assms by (induction as arbitrary: p x k) auto

lemma set_free_rep:
  assumes rep: "heap_rep h (xs @ (a, l, f) # ys)"
  shows "heap_rep (hupd a (\<lambda>s. s\<lparr>seg_free := g\<rparr>) h) (xs @ (a, l, g) # ys)"
proof -
  have "heap_segs (hupd a (\<lambda>s. s\<lparr>seg_free := g\<rparr>) h) (map fst (xs @ (a, l, g) # ys))"
    using rep unfolding heap_rep_def heap_segs_def
    by (subst dseg_fields [where H = "hdrs h"]) auto
  moreover have "seg_entry (hupd a (\<lambda>s. s\<lparr>seg_free := g\<rparr>) h) (fst t) = t"
    if "t \<in> set xs \<union> set ys" for t
  proof -
    have "fst t \<noteq> a" using heap_rep_distinct [OF rep] that by blast
    then have "seg_entry (hupd a (\<lambda>s. s\<lparr>seg_free := g\<rparr>) h) (fst t) = seg_entry h (fst t)"
      by (simp add: seg_entry_def)
    then show ?thesis using heap_rep_seg_entry [OF rep, of t] that by auto
  qed
  ultimately show ?thesis
    using heap_repI_mid [of "hupd a (\<lambda>s. s\<lparr>seg_free := g\<rparr>) h" xs "[(a, l, g)]" ys]
      heap_rep_vals [OF rep, of a l f] by (simp add: seg_entry_def)
qed

subsection \<open>Combining with a neighbour\<close>

lemma CombineForward_frame:
  "heapStart (CombineForward h a) = heapStart h" "heapEnd (CombineForward h a) = heapEnd h"
  "backing (CombineForward h a) = backing h" "usedPages (CombineForward h a) = usedPages h"
  by (simp_all add: CombineForward_def Let_def)

lemma CombineForward_next:
  assumes "heap_rep h (xs @ (a, l, f) # ys)"
  shows "seg_next (hdrs h a) = (case ys of [] \<Rightarrow> NULL | y # _ \<Rightarrow> fst y)"
  by (rule heap_rep_split [OF assms]) (auto split: list.split)

lemma CombineForward_stop:
  assumes "heap_rep h (xs @ (a, l, f) # ys)" and "ys = [] \<or> \<not> snd (snd (hd ys))"
  shows "CombineForward h a = h"
proof (cases ys)
  case Nil
  then show ?thesis using CombineForward_next [OF assms(1)] by (simp add: CombineForward_def)
next
  case (Cons y zs)
  obtain b lb fb where y: "y = (b, lb, fb)" by (cases y)
  with Cons assms(2) have "\<not> fb" by simp
  moreover have "seg_free (hdrs h b) = fb"
    using heap_rep_vals [OF assms(1), of b lb fb] Cons y by simp
  ultimately show ?thesis
    using CombineForward_next [OF assms(1)] Cons y by (simp add: CombineForward_def)
qed

lemma CombineForward_eq:
  assumes "seg_next (hdrs h a) = b" "b \<noteq> NULL" "seg_free (hdrs h b)" "seg_next (hdrs h b) = c"
    and "b \<noteq> a" "c \<noteq> a" "c \<noteq> b"
  shows "CombineForward h a =
    h\<lparr>hdrs := (if c \<noteq> NULL then (hdrs h)(c := (hdrs h c)\<lparr>seg_last := a\<rparr>) else hdrs h)
         (a := (hdrs h a)\<lparr>seg_length := seg_length (hdrs h a) + seg_length (hdrs h b) + 32,
                          seg_next := c\<rparr>),
      LastHdr := (if b = LastHdr h then a else LastHdr h)\<rparr>"
proof -
  have c: "seg_next (hdrs h a) \<noteq> NULL" "\<not> \<not> seg_free (hdrs h (seg_next (hdrs h a)))"
    using assms by simp_all
  show ?thesis
    unfolding CombineForward_def if_not_P [OF c(1)] if_not_P [OF c(2)] Let_def assms(1,4)
    using assms by (cases "b = LastHdr h"; cases "c = NULL") (simp_all add: hupd_def)
qed

lemma CombineForward_rep:
  assumes rep: "heap_rep h (xs @ (a, l, f) # (b, lb, True) # ys)"
  shows "heap_rep (CombineForward h a) (xs @ (a, l + lb + 32, f) # ys)"
    and "unat (l + lb + 32) = unat l + unat lb + 32"
proof -
  let ?H = "hdrs h" and ?c = "seg_next (hdrs h b)"
  obtain p e where pre: "dseg ?H NULL (heapStart h) (unat (heapStart h)) (map fst xs) p a e"
    and a: "a \<noteq> NULL" "e \<le> unat a" "seg_last (?H a) = p" "16 \<le> unat l"
    and fields: "seg_length (?H a) = l" "seg_free (?H a) = f"
    and left: "\<And>x. x \<in> fst ` set xs \<Longrightarrow> x \<noteq> NULL \<and> unat x + 48 \<le> unat a"
    and ab: "unat a + 32 + unat l \<le> unat b"
    by (rule heap_rep_split [OF rep]) (rule that; simp)
  have rep2: "heap_rep h ((xs @ [(a, l, f)]) @ (b, lb, True) # ys)" using rep by simp
  obtain e2 where b: "b \<noteq> NULL" "16 \<le> unat lb"
    and post: "dseg ?H b ?c (unat b + 32 + unat lb) (map fst ys) (LastHdr h) NULL
        (unat (heapEnd h))"
    and fb: "seg_length (?H b) = lb" "seg_free (?H b)"
    and end_le: "unat b + 32 + unat lb \<le> unat (heapEnd h)"
    and right: "\<And>y. y \<in> fst ` set ys \<Longrightarrow> y \<noteq> NULL \<and> unat b + 32 + unat lb \<le> unat y"
    by (rule heap_rep_split [OF rep2]) (auto intro: that)
  have an: "seg_next (?H a) = b" using CombineForward_next [OF rep] by simp
  show len: "unat (l + lb + 32) = unat l + unat lb + 32"
    using ab end_le unat64_lt [of "heapEnd h"] by (simp add: unat_word_ariths)
  have c: "?c = NULL \<or> ?c \<in> fst ` set ys"
    using dseg_next_cases [OF post] by (auto simp: image_iff)
  have "b \<noteq> a" using ab by auto
  moreover have "?c \<noteq> a \<and> ?c \<noteq> b"
  proof (cases "?c = NULL")
    case False
    with c right have "unat b + 32 + unat lb \<le> unat ?c" by blast
    with ab show ?thesis by auto
  qed (use a(1) b(1) in auto)
  ultimately have ne: "b \<noteq> a" "?c \<noteq> a" "?c \<noteq> b" by simp_all
  note E = CombineForward_eq [OF an b(1) fb(2) refl ne]
  define h' where "h' = CombineForward h a"
  note h' = h'_def [unfolded E]
  have H_other: "hdrs h' x = ?H x" if "x \<noteq> a" "x \<noteq> ?c" for x using that by (simp add: h')
  have H_a: "hdrs h' a = (?H a)\<lparr>seg_length := l + lb + 32, seg_next := ?c\<rparr>"
    by (simp add: h' fields fb)
  have H_c: "?c \<noteq> NULL \<Longrightarrow> hdrs h' ?c = (?H ?c)\<lparr>seg_last := a\<rparr>" using ne by (simp add: h')
  have left': "x \<noteq> a \<and> x \<noteq> ?c" if "x \<in> fst ` set xs" for x
    using left [OF that] c right ab by fastforce
  have right': "y \<noteq> a" if "y \<in> fst ` set ys" for y using right [OF that] ab by auto
  have pre': "dseg (hdrs h') NULL (heapStart h) (unat (heapStart h)) (map fst xs) p a e"
    by (subst dseg_frame [where H = ?H]) (use pre left' H_other in auto)
  have last: "LastHdr h' = (if ys = [] then a else LastHdr h)"
  proof (cases "ys = []")
    case True
    with post show ?thesis by (simp add: h')
  next
    case False
    then have "LastHdr h = last (map fst ys)" using dseg_last [OF post] by simp
    also have "\<dots> \<in> fst ` set ys" using False by (simp add: last_map)
    finally have "LastHdr h \<noteq> b" using right by force
    with False show ?thesis by (simp add: h')
  qed
  have post': "dseg (hdrs h') a ?c (unat a + 32 + unat (l + lb + 32)) (map fst ys) (LastHdr h') NULL
      (unat (heapEnd h))"
  proof (cases "map fst ys")
    case Nil
    then show ?thesis using last post len ab end_le by auto
  next
    case (Cons d ds)
    with post have d: "d = ?c" and
      ds: "dseg ?H d (seg_next (?H d)) (unat d + 32 + unat (seg_length (?H d))) ds
             (LastHdr h) NULL (unat (heapEnd h))"
      and dd: "d \<noteq> NULL" "unat b + 32 + unat lb \<le> unat d" "16 \<le> unat (seg_length (?H d))"
      by auto
    have "x \<noteq> ?c" if "x \<in> set ds" for x using dseg_mem_bounds [OF ds that] d by auto
    moreover have "x \<in> fst ` set ys" if "x \<in> set ds" for x
      using that Cons by (metis list.set_intros(2) set_map)
    ultimately have "dseg (hdrs h') d (seg_next (?H d)) (unat d + 32 + unat (seg_length (?H d))) ds
        (LastHdr h) NULL (unat (heapEnd h))"
      by (subst dseg_frame [where H = ?H]) (use ds H_other right' in auto)
    then show ?thesis using Cons d dd H_c len ab last by auto
  qed
  have "heap_segs h' (map fst xs @ a # map fst ys)"
  proof -
    have se: "heapStart h' = heapStart h" "heapEnd h' = heapEnd h" by (simp_all add: h')
    show ?thesis
      unfolding heap_segs_split se
      by (intro exI [where x = p] exI [where x = e] conjI pre')
         (use a post' H_a len in auto)
  qed
  moreover have "seg_entry h' (fst t) = t" if "t \<in> set xs \<union> set ys" for t
  proof -
    have "fst t \<noteq> a" using that left' right' by blast
    moreover have "fst t \<noteq> NULL" using that left right by blast
    ultimately have "seg_entry h' (fst t) = seg_entry h (fst t)"
      using H_other [of "fst t"] H_c by (cases "fst t = ?c") (auto simp: seg_entry_def)
    then show ?thesis using heap_rep_seg_entry [OF rep, of t] that by auto
  qed
  ultimately show "heap_rep (CombineForward h a) (xs @ (a, l + lb + 32, f) # ys)"
    unfolding h'_def [symmetric] 
    using H_a fields heap_repI_mid [of h' xs "[(a, l + lb + 32, f)]" ys] by (simp add: seg_entry_def)
qed

lemma heap_rep_seg_last:
  assumes "heap_rep h (xs @ (a, l, f) # ys)"
  shows "seg_last (hdrs h a) = (if xs = [] then NULL else fst (last xs))"
proof -
  obtain p e where pre: "dseg (hdrs h) NULL (heapStart h) (unat (heapStart h)) (map fst xs) p a e"
    and p: "seg_last (hdrs h a) = p"
    by (rule heap_rep_split [OF assms]) (rule that)
  show ?thesis
  proof (cases "xs = []")
    case True
    with pre p show ?thesis by simp
  next
    case False
    with dseg_last [OF pre] p show ?thesis by (simp add: last_map)
  qed
qed

text \<open>Merging a free segment with the free segment before it, and with the one behind it.\<close>

definition merge_back :: "segment list \<Rightarrow> u64 \<Rightarrow> u64 \<Rightarrow> segment list \<Rightarrow> segment list" where
  "merge_back xs a l ys =
     (if xs \<noteq> [] \<and> snd (snd (last xs))
      then butlast xs @ (fst (last xs), fst (snd (last xs)) + l + 32, True) # ys
      else xs @ (a, l, True) # ys)"

definition merge_forward :: "u64 \<Rightarrow> segment list \<Rightarrow> u64 \<times> segment list" where
  "merge_forward l ys =
     (case ys of (b, lb, True) # zs \<Rightarrow> (l + lb + 32, zs) | _ \<Rightarrow> (l, ys))"

definition release :: "segment list \<Rightarrow> u64 \<Rightarrow> u64 \<Rightarrow> segment list \<Rightarrow> segment list" where
  "release xs a l ys = (let (l', ys') = merge_forward l ys in merge_back xs a l' ys')"

lemma CombineForward_merge:
  assumes "heap_rep h (xs @ (a, l, f) # ys)"
  shows "heap_rep (CombineForward h a) (xs @ (a, fst (merge_forward l ys), f)
           # snd (merge_forward l ys))"
proof (cases "ys = [] \<or> \<not> snd (snd (hd ys))")
  case True
  then have "merge_forward l ys = (l, ys)"
    by (auto simp: merge_forward_def split: list.split bool.split)
  with CombineForward_stop [OF assms True] assms show ?thesis by simp
next
  case False
  then obtain b lb zs where ys: "ys = (b, lb, True) # zs"
    by (cases ys) auto
  with CombineForward_rep(1) [of h xs a l f b lb zs] assms show ?thesis
    by (simp add: merge_forward_def)
qed

lemma CombineBackward_merge:
  assumes rep: "heap_rep h (xs @ (a, l, True) # ys)"
  shows "heap_rep (CombineBackward h a) (merge_back xs a l ys)"
proof (cases "xs = []")
  case True
  with heap_rep_seg_last [OF rep] rep show ?thesis
    by (simp add: CombineBackward_def merge_back_def)
next
  case False
  then obtain us p lp fp where xs: "xs = us @ [(p, lp, fp)]"
    by (cases xs rule: rev_cases) auto
  have last: "seg_last (hdrs h a) = p" using heap_rep_seg_last [OF rep] xs by simp
  have rep': "heap_rep h (us @ (p, lp, fp) # (a, l, True) # ys)" using rep xs by simp
  have p: "p \<noteq> NULL" by (rule heap_rep_split [OF rep'])
  have fp: "seg_free (hdrs h p) = fp" using heap_rep_vals [OF rep', of p lp fp] by simp
  show ?thesis
  proof (cases fp)
    case True
    with CombineForward_rep(1) [of h us p lp True a l ys] rep' p fp xs last show ?thesis
      by (simp add: CombineBackward_def merge_back_def)
  next
    case False
    with rep fp xs last show ?thesis by (simp add: CombineBackward_def merge_back_def)
  qed
qed

lemma free_rep:
  assumes rep: "heap_rep h (xs @ (a, l, f) # ys)"
  shows "heap_rep (free h (a + 32)) (release xs a l ys)"
proof -
  have "unat a + 32 < 2 ^ 64"
    using unat64_lt [of "heapEnd h"] by (rule_tac heap_rep_split [OF rep]) simp
  then have "unat (a + 32) = unat a + 32" by (subst unat_add_no_wrap) simp_all
  then have nz: "a + 32 \<noteq> NULL" by auto
  have seg: "a + 32 - sizeof_HeapSegHdr = a" by simp
  show ?thesis
    using CombineBackward_merge [OF CombineForward_merge [OF set_free_rep [OF rep, of True]]] nz
    unfolding free_def seg Let_def release_def case_prod_beta by simp
qed

subsection \<open>Searching and taking a segment\<close>

definition fits :: "u64 \<Rightarrow> segment \<Rightarrow> bool" where
  "fits sz t \<longleftrightarrow> snd (snd t) \<and> sz \<le> fst (snd t) - 32"

lemma find_segment_find:
  assumes "heap_rep h (xs @ ys)" and "ys \<noteq> []"
  shows "find_segment h (fst (hd ys)) sz = Some (map_option fst (List.find (fits sz) ys))"
  using assms
proof (induction ys arbitrary: xs)
  case Nil
  then show ?case by simp
next
  case (Cons y ys)
  obtain a l f where y: "y = (a, l, f)" by (cases y)
  have vals: "seg_length (hdrs h a) = l \<and> seg_free (hdrs h a) = f"
    using heap_rep_vals [OF Cons.prems(1), of a l f] y by simp
  have fit: "fits sz y \<longleftrightarrow> seg_free (hdrs h a) \<and> (curSize h a > sz \<or> curSize h a = sz)"
    using vals y by (auto simp: fits_def curSize_def order_le_less)
  have nxt: "seg_next (hdrs h a) = (case ys of [] \<Rightarrow> NULL | y # _ \<Rightarrow> fst y)"
    using CombineForward_next [of h xs a l f ys] Cons.prems(1) y by simp
  show ?case
  proof (cases "fits sz y \<or> ys = []")
    case True
    with fit nxt y show ?thesis by (subst find_segment.simps) auto
  next
    case False
    then obtain b bs where ys: "ys = b # bs" by (cases ys) auto
    have rep': "heap_rep h ((xs @ [y]) @ ys)" using Cons.prems(1) by simp
    obtain p e where "dseg (hdrs h) NULL (heapStart h) (unat (heapStart h)) (map fst (xs @ [y]))
        p (fst b) e" "fst b \<noteq> NULL"
      using heap_rep_split [of h "xs @ [y]" "fst b" "fst (snd b)" "snd (snd b)" bs] rep' ys
      by simp metis
    with False fit nxt y ys Cons.IH [OF rep'] show ?thesis
      by (subst find_segment.simps) auto
  qed
qed

lemma find_segment_rep:
  assumes "heap_rep h sg"
  shows "find_segment h (heapStart h) sz = Some (map_option fst (List.find (fits sz) sg))"
proof -
  from assms have ne: "sg \<noteq> []" by (auto simp: heap_rep_def heap_segs_def)
  moreover from assms have "hd (map fst sg) = heapStart h"
    by (auto simp: heap_rep_def intro: heap_segs_hd)
  ultimately have "fst (hd sg) = heapStart h" by (simp add: hd_map)
  with find_segment_find [of h "[]" sg sz] assms ne show ?thesis by simp
qed

text \<open>
  Taking a segment: the whole of it, or its front with the rest split off as a new free
  segment. A segment shorter than a header is taken whatever the request.
\<close>

definition taken :: "u64 \<Rightarrow> u64 \<Rightarrow> u64 \<Rightarrow> segment list \<Rightarrow> segment list \<Rightarrow> bool" where
  "taken a l sz ys rest \<longleftrightarrow>
     rest = (a, l, False) # ys \<or>
     (unat sz + 48 \<le> unat l \<and> rest = (a, sz, False) # (a + sz + 32, l - sz - 32, True) # ys)"

lemma Split_short:
  assumes "unat l < 32" "16 \<le> unat l" "unat sz \<le> 2 ^ 62" "seg_length (hdrs h a) = l"
  shows "Split h a sz = (h, NULL)"
proof -
  have "sint (l - sz - 32) < 16"
  proof (rule ccontr)
    assume "\<not> sint (l - sz - 32) < 16"
    then have s: "int (unat (l - sz - 32)) = sint (l - sz - 32)" by (intro sint_nonneg_unat) simp
    have "sint (l - sz - 32) < 2 ^ 63" using sint_lt [of "l - sz - 32"] by simp
    moreover have u: "unat (sz + 32) = unat sz + 32"
      using assms(3) by (subst unat_add_no_wrap) simp_all
    moreover have "unat (l - (sz + 32)) = 2 ^ 64 + unat l - unat (sz + 32)"
      using assms(1) u by (subst unat_sub_wrap) simp_all
    moreover have "l - sz - 32 = l - (sz + 32)" by simp
    ultimately have "int (2 ^ 64 + unat l - (unat sz + 32)) < 2 ^ 63" using s by metis
    then show False using assms(1-3) by simp
  qed
  with assms(4) show ?thesis by (simp add: Split_def Let_def)
qed

lemma take_segment_rep:
  assumes rep: "heap_rep h (xs @ (a, l, True) # ys)" and fit: "sz \<le> l - 32"
    and sz: "16 \<le> unat sz" "unat sz \<le> 2 ^ 62"
  shows "\<exists>rest. taken a l sz ys rest \<and> heap_rep (fst (take_segment h a sz)) (xs @ rest)"
    and "snd (take_segment h a sz) = a + 32"
    and "heapEnd (fst (take_segment h a sz)) = heapEnd h"
proof -
  show "snd (take_segment h a sz) = a + 32" by (simp add: take_segment_def Let_def)
  show "heapEnd (fst (take_segment h a sz)) = heapEnd h"
    by (simp add: take_segment_def Let_def Split_frame)
  have la: "seg_length (hdrs h a) = l" using heap_rep_vals [OF rep, of a l True] by simp
  have l16: "16 \<le> unat l" by (rule heap_rep_split [OF rep])
  have whole: "\<exists>rest. taken a l sz ys rest \<and> heap_rep (fst (take_segment h a sz)) (xs @ rest)"
    if "curSize h a > sz \<longrightarrow> fst (Split h a sz) = h"
    using that set_free_rep [OF rep, of False]
    by (intro exI [where x = "(a, l, False) # ys"])
       (auto simp: taken_def take_segment_def Let_def)
  show "\<exists>rest. taken a l sz ys rest \<and> heap_rep (fst (take_segment h a sz)) (xs @ rest)"
  proof (cases "unat l < 32")
    case True
    then show ?thesis using whole Split_short [OF True l16 sz(2) la] by simp
  next
    case False
    then have ul: "unat (l - 32) = unat l - 32" by (simp add: unat_sub_no_wrap)
    show ?thesis
    proof (cases "curSize h a > sz \<and> 16 \<le> sint (l - sz - 32)")
      case True
      have f32: "unat sz + 32 \<le> unat l"
        using fit ul False by (simp add: word_le_nat_alt)
      then have "unat (l - sz - 32) = unat l - unat sz - 32" by (simp add: unat_sub_no_wrap)
      with True sint_nonneg_unat [of "l - sz - 32"] f32 have "unat sz + 48 \<le> unat l" by linarith
      moreover from Split_rep(1) [OF rep f32 sz(1)] True
      have "heap_rep (fst (take_segment h a sz))
          (xs @ (a, sz, False) # (a + sz + 32, l - sz - 32, True) # ys)"
        using set_free_rep [of "fst (Split h a sz)" xs a sz True _ False]
        by (simp add: take_segment_def Let_def)
      ultimately show ?thesis by (auto simp: taken_def)
    next
      case False
      then have "curSize h a > sz \<longrightarrow> fst (Split h a sz) = h"
        using la by (auto simp: Split_def Let_def)
      then show ?thesis by (rule whole)
    qed
  qed
qed


subsection \<open>Creating and growing the heap\<close>

lemma create_pages_frame:
  "create_pages grow n pos h = Inr h' \<Longrightarrow> hdrs h' = hdrs h \<and> heapStart h' = heapStart h
     \<and> heapEnd h' = heapEnd h \<and> LastHdr h' = LastHdr h
     \<and> usedPages h' = usedPages h + of_nat n"
  by (induction n arbitrary: pos h) (auto split: prod.splits bool.splits)

lemma CreateHeap_rep:
  assumes c: "CreateHeap grow h A n = Inr h'" and A: "A \<noteq> NULL"
    and n: "0 < unat n" "unat A + unat n * 4096 < 2 ^ 64"
  shows "heap_rep h' [(A, n * 0x1000 - 32, True)]"
    and "heapStart h' = A" "heapEnd h' = A + n * 0x1000" "LastHdr h' = A"
    and "usedPages h' = usedPages h + n"
proof -
  from c obtain h1 where h1: "create_pages grow (unat n) A h = Inr h1"
    by (auto simp: CreateHeap_def split: if_splits sum.splits)
  note fr = create_pages_frame [OF h1]
  have nm: "unat (n * 0x1000) = unat n * 4096"
    using n(2) by (subst unat_mult_no_wrap) simp_all
  have e: "unat (A + n * 0x1000) = unat A + unat n * 4096"
    using n(2) nm by (subst unat_add_no_wrap) simp_all
  have l: "unat (n * 0x1000 - 32) = unat n * 4096 - 32"
    using n(1) nm by (subst unat_sub_no_wrap) simp_all
  have h': "hdrs h' A = \<lparr>seg_length = n * 0x1000 - 32, seg_next = NULL, seg_last = NULL,
      seg_free = True\<rparr>" "heapStart h' = A" "heapEnd h' = A + n * 0x1000" "LastHdr h' = A"
    "usedPages h' = usedPages h1"
    using c h1 by (auto simp: CreateHeap_def Let_def split: if_splits)
  then show "heapStart h' = A" "heapEnd h' = A + n * 0x1000" "LastHdr h' = A"
    "usedPages h' = usedPages h + n"
    using fr by simp_all
  show "heap_rep h' [(A, n * 0x1000 - 32, True)]"
    using h' A n(1) e l by (intro heap_repI) (auto simp: heap_segs_def seg_entry_def)
qed

lemma expand_pages_frame:
  "expand_pages grow n h = (h', ok) \<Longrightarrow> hdrs h' = hdrs h \<and> heapStart h' = heapStart h
     \<and> LastHdr h' = LastHdr h
     \<and> (\<exists>k \<le> n. heapEnd h' = heapEnd h + of_nat k * 0x1000 \<and> usedPages h' = usedPages h + of_nat k
          \<and> (ok \<longrightarrow> k = n))"
proof (induction n arbitrary: h)
  case 0
  then show ?case by auto
next
  case (Suc n)
  obtain b g where g: "grow (backing h) (heapEnd h) = (b, g)" by (cases "grow (backing h) (heapEnd h)")
  show ?case
  proof (cases g)
    case False
    with Suc.prems g show ?thesis by (auto intro!: exI [where x = 0])
  next
    case True
    let ?h = "h\<lparr>backing := b, heapEnd := heapEnd h + 0x1000, usedPages := usedPages h + 1\<rparr>"
    from Suc.prems g True have "expand_pages grow n ?h = (h', ok)" by simp
    from Suc.IH [OF this] obtain k where "k \<le> n" "hdrs h' = hdrs h" "heapStart h' = heapStart h"
      "LastHdr h' = LastHdr h" "heapEnd h' = heapEnd h + 0x1000 + of_nat k * 0x1000"
      "usedPages h' = usedPages h + 1 + of_nat k" "ok \<longrightarrow> k = n"
      by auto
    then show ?thesis by (auto intro!: exI [where x = "Suc k"] simp: algebra_simps)
  qed
qed

lemma round_up_to_unat:
  assumes "0 < unat n" and "unat x + unat n < 2 ^ 64"
  shows "unat (round_up_to n x) = (unat x + unat n - 1) div unat n * unat n"
    and "unat x \<le> unat (round_up_to n x)" "unat (round_up_to n x) < unat x + unat n"
    and "unat (round_up_to n x) mod unat n = 0"
proof -
  let ?n = "unat n" and ?x = "unat x"
  have xm: "?x mod ?n \<le> ?x" by (rule mod_less_eq_dividend)
  have ml: "?x mod ?n < ?n" using assms(1) by simp
  have val: "unat (round_up_to n x) = (if ?x mod ?n > 0 then ?x - ?x mod ?n + ?n else ?x)"
  proof (cases "x mod n > 0")
    case True
    then have "?x mod ?n > 0" by (simp add: word_less_nat_alt unat_mod_word)
    moreover have "unat (x - x mod n) = ?x - ?x mod ?n"
      using xm by (subst unat_sub_no_wrap) (simp_all add: unat_mod_word)
    ultimately show ?thesis
      using True assms(2) xm by (simp add: round_up_to_def unat_add_no_wrap)
  next
    case False
    then have "?x mod ?n = 0" by (simp add: word_less_nat_alt unat_mod_word)
    with False show ?thesis by (simp add: round_up_to_def)
  qed
  have "?x - ?x mod ?n = ?x div ?n * ?n" by (simp add: minus_mod_eq_div_mult)
  then show *: "unat (round_up_to n x) = (?x + ?n - 1) div ?n * ?n"
  proof (cases "?x mod ?n > 0")
    case True
    have "?x = ?x div ?n * ?n + ?x mod ?n" by simp
    then have "?x + ?n - 1 = (?x mod ?n - 1) + (?x div ?n * ?n + ?n)"
      using True by linarith
    then have "?x + ?n - 1 = (?x mod ?n - 1) + (?x div ?n + 1) * ?n" by simp
    moreover have "(?x mod ?n - 1) div ?n = 0" using ml by simp
    moreover have "((?x mod ?n - 1) + (?x div ?n + 1) * ?n) div ?n
        = (?x div ?n + 1) + (?x mod ?n - 1) div ?n"
      using assms(1) by (intro div_mult_self1) simp
    ultimately have "(?x + ?n - 1) div ?n = ?x div ?n + 1" by (simp only: add_0_right)
    with True val show ?thesis by (simp add: minus_mod_eq_div_mult)
  next
    case False
    then have d: "?x = ?x div ?n * ?n" using div_mult_mod_eq [of ?x ?n] by linarith
    have "?x + ?n - 1 = (?n - 1) + ?x div ?n * ?n" using d assms(1) by simp
    moreover have "(?n - 1) div ?n = 0" using assms(1) by simp
    moreover have "((?n - 1) + ?x div ?n * ?n) div ?n = ?x div ?n + (?n - 1) div ?n"
      using assms(1) by (intro div_mult_self1) simp
    ultimately have "(?x + ?n - 1) div ?n = ?x div ?n" by (simp only: add_0_right)
    with False val d show ?thesis by simp
  qed
  show "unat (round_up_to n x) mod ?n = 0" unfolding * by simp
  show "?x \<le> unat (round_up_to n x)" "unat (round_up_to n x) < ?x + ?n"
    unfolding val using ml xm assms(1)
    by (cases "?x mod ?n > 0"; simp only: if_True if_False; linarith)+
qed

text \<open>A free segment behind the last one, linked to it.\<close>

lemma append_rep:
  assumes rep: "heap_rep h sg" and a: "unat (heapEnd h) \<le> unat a"
    and l: "16 \<le> unat l" "unat a + 32 + unat l \<le> unat (heapEnd h')"
    and h': "heapStart h' = heapStart h" "LastHdr h' = a"
      "hdrs h' = (hdrs h)(LastHdr h := (hdrs h (LastHdr h))\<lparr>seg_next := a\<rparr>,
         a := \<lparr>seg_length = l, seg_next = NULL, seg_last = LastHdr h, seg_free = True\<rparr>)"
  shows "heap_rep h' (sg @ [(a, l, True)])"
proof -
  from rep have "sg \<noteq> []" by (auto simp: heap_rep_def heap_segs_def)
  then obtain us p lp fp where sg: "sg = us @ [(p, lp, fp)]" by (cases sg rule: rev_cases) auto
  have rep': "heap_rep h (us @ (p, lp, fp) # [])" using rep sg by simp
  obtain q e where pre: "dseg (hdrs h) NULL (heapStart h) (unat (heapStart h)) (map fst us) q p e"
    and p: "p \<noteq> NULL" "e \<le> unat p" "seg_last (hdrs h p) = q" "16 \<le> unat lp"
    and post: "dseg (hdrs h) p (seg_next (hdrs h p)) (unat p + 32 + unat lp)
        (map fst ([] :: segment list)) (LastHdr h) NULL (unat (heapEnd h))"
    and fields: "seg_length (hdrs h p) = lp" "seg_free (hdrs h p) = fp"
    and end_le: "unat p + 32 + unat lp \<le> unat (heapEnd h)"
    and left: "\<And>x. x \<in> fst ` set us \<Longrightarrow> x \<noteq> NULL \<and> unat x + 48 \<le> unat p"
    by (rule heap_rep_split [OF rep']) (rule that)
  from post have lh: "LastHdr h = p" by simp
  have pa: "p \<noteq> a" using end_le a by auto
  have us: "x \<noteq> a \<and> x \<noteq> p" if "x \<in> fst ` set us" for x
    using left [OF that] end_le a by auto
  have pre': "dseg (hdrs h') NULL (heapStart h) (unat (heapStart h)) (map fst us) q p e"
    by (subst dseg_frame [where H = "hdrs h"]) (use pre us h'(3) lh in auto)
  have anz: "a \<noteq> NULL" using end_le a by auto
  have "heap_segs h' (map fst us @ p # [a])"
    unfolding heap_segs_split h'(1)
    by (intro exI [where x = q] exI [where x = e] conjI pre')
       (use p h' lh pa fields end_le a l anz in auto)
  moreover have "seg_entry h' (fst t) = t" if "t \<in> set us" for t
  proof -
    have "seg_entry h' (fst t) = seg_entry h (fst t)" using us that h'(3) lh by (auto simp: seg_entry_def)
    then show ?thesis using heap_rep_seg_entry [OF rep, of t] that sg by auto
  qed
  moreover have "seg_entry h' (fst t) = t" if "t \<in> set [(p, lp, fp), (a, l, True)]" for t
    using that pa h'(3) lh fields by (auto simp: seg_entry_def)
  ultimately show ?thesis
    using heap_repI_mid [of h' us "[(p, lp, fp), (a, l, True)]" "[]"] sg by simp
qed

lemma heap_rep_mono_end:
  assumes "heap_rep h sg" "hdrs h' = hdrs h" "heapStart h' = heapStart h" "LastHdr h' = LastHdr h"
    and "unat (heapEnd h) \<le> unat (heapEnd h')"
  shows "heap_rep h' sg"
  using assms by (auto simp: heap_rep_def heap_segs_def seg_entry_def intro: dseg_mono_end)

lemma CombineBackward_frame:
  "heapStart (CombineBackward h a) = heapStart h" "heapEnd (CombineBackward h a) = heapEnd h"
  "usedPages (CombineBackward h a) = usedPages h"
  by (simp_all add: CombineBackward_def CombineForward_frame)

lemma seg_all_fields:
  "s\<lparr>seg_free := f, seg_last := b, seg_next := c, seg_length := l\<rparr>
     = \<lparr>seg_length = l, seg_next = c, seg_last = b, seg_free = f\<rparr>"
  by (cases s) simp

lemma ExpandHeap_rep:
  assumes rep: "heap_rep h sg" and E: "ExpandHeap grow h len = (h', ok)"
    and len: "0 < unat len" and room: "unat (heapEnd h) + unat len + 4096 \<le> 2 ^ 64"
  shows "ok \<Longrightarrow> heap_rep h' (merge_back sg (heapEnd h) (round_up_to 0x1000 len - 32) [])
           \<and> heapEnd h' = heapEnd h + round_up_to 0x1000 len"
    and "\<not> ok \<Longrightarrow> heap_rep h' sg"
    and "unat (heapEnd h) \<le> unat (heapEnd h')"
proof -
  let ?R = "round_up_to 0x1000 len"
  obtain h1 where X: "expand_pages grow (unat (?R div 0x1000)) h = (h1, ok)"
    using E by (auto simp: ExpandHeap_def Let_def split: prod.splits bool.splits)
  have hE: "0 < unat (heapEnd h)"
    using rep heap_segs_bounds [of h "map fst sg" "hd (map fst sg)"]
    by (cases sg) (auto simp: heap_rep_def heap_segs_def)
  have R: "unat len \<le> unat ?R" "unat ?R < unat len + 4096" "unat ?R mod 4096 = 0"
    using round_up_to_unat(2-4) [of "0x1000" len] room hE by simp_all
  have R4: "4096 \<le> unat ?R" using R(1,3) len by (cases "unat ?R < 4096") auto
  have pg: "unat (?R div 0x1000) * 4096 = unat ?R" 
  proof -
    have "unat ?R div 4096 * 4096 = unat ?R"
      using R(3) div_mult_mod_eq [of "unat ?R" 4096] by linarith
    then show ?thesis by (simp add: unat_div_word)
  qed
  obtain k where k: "k \<le> unat (?R div 0x1000)" "ok \<longrightarrow> k = unat (?R div 0x1000)"
    and fr: "hdrs h1 = hdrs h" "heapStart h1 = heapStart h" "LastHdr h1 = LastHdr h"
    and e1: "heapEnd h1 = heapEnd h + of_nat k * 0x1000"
    using expand_pages_frame [OF X] by auto
  have k4: "k * 4096 \<le> unat ?R" using k(1) pg by linarith
  have "of_nat k * (0x1000 :: u64) = of_nat (k * 4096)" by simp
  moreover have uk: "unat (of_nat (k * 4096) :: u64) = k * 4096"
    using k4 unat64_lt [of ?R] by (intro unat_of_nat_small) simp
  ultimately have ue: "unat (heapEnd h1) = unat (heapEnd h) + k * 4096"
    using e1 k4 R(2) room by (simp add: unat_add_no_wrap)
  have rep1: "heap_rep h1 sg" using heap_rep_mono_end [OF rep fr] ue by simp
  have nok: "h' = h1" if "\<not> ok" using E X that by (auto simp: ExpandHeap_def Let_def)
  then show "\<not> ok \<Longrightarrow> heap_rep h' sg" using rep1 by simp
  let ?new = "heapEnd h"
  let ?h2 = "h1\<lparr>LastHdr := ?new,
      hdrs := (hdrs h1)(LastHdr h := (hdrs h1 (LastHdr h))\<lparr>seg_next := ?new\<rparr>,
      ?new := \<lparr>seg_length = ?R - 32, seg_next = NULL, seg_last = LastHdr h, seg_free = True\<rparr>)\<rparr>"
  have lne: "LastHdr h \<noteq> ?new"
  proof -
    have "LastHdr h \<in> set (map fst sg)"
      using rep heap_segs_last [of h "map fst sg"] last_in_set [of "map fst sg"]
      by (auto simp: heap_rep_def heap_segs_def)
    then show ?thesis
      using rep heap_segs_bounds [of h "map fst sg" "LastHdr h"] by (auto simp: heap_rep_def)
  qed
  have okh: "h' = CombineBackward ?h2 ?new" if ok
    using E X that fr lne
    by (auto simp: ExpandHeap_def Let_def hupd_def fun_upd_twist seg_all_fields)
  show "heap_rep h' (merge_back sg ?new (?R - 32) []) \<and> heapEnd h' = heapEnd h + ?R" if ok
  proof -
    have kR: "k * 4096 = unat ?R" using k(2) that pg by simp
    have e1R: "heapEnd h1 = heapEnd h + ?R"
      using ue kR R(2) room by (simp add: word_unat_eq_iff unat_add_no_wrap)
    have ul: "unat (?R - 32) = unat ?R - 32" using R4 by (simp add: unat_sub_no_wrap)
    have "heap_rep ?h2 (sg @ [(?new, ?R - 32, True)])"
      by (rule append_rep [OF rep]) (use fr ue kR R4 ul lne in \<open>simp_all add: fun_upd_twist\<close>)
    then show ?thesis
      using okh that CombineBackward_merge [of ?h2 sg ?new "?R - 32" "[]"] e1R
      by (simp add: CombineBackward_frame)
  qed
  show "unat (heapEnd h) \<le> unat (heapEnd h')"
    using nok okh ue by (cases ok) (auto simp: CombineBackward_frame)
qed


subsection \<open>Allocation over the segment list\<close>

definition used :: "segment list \<Rightarrow> (u64 \<times> u64) set" where
  "used sg = {(a, l). (a, l, False) \<in> set sg}"

definition coalesced :: "segment list \<Rightarrow> bool" where
  "coalesced sg \<longleftrightarrow> successively (\<lambda>s t. \<not> (snd (snd s) \<and> snd (snd t))) sg"

definition no_short :: "segment list \<Rightarrow> bool" where
  "no_short sg \<longleftrightarrow> (\<forall>(a, l, f) \<in> set sg. f \<longrightarrow> 32 \<le> unat l)"

text \<open>What growing the heap may do to the segments: nothing is used or freed by it.\<close>

definition grown :: "segment list \<Rightarrow> segment list \<Rightarrow> bool" where
  "grown sg sg' \<longleftrightarrow> used sg' = used sg \<and> (coalesced sg \<longrightarrow> coalesced sg') \<and> (no_short sg \<longrightarrow> no_short sg')"

lemma grown_refl: "grown sg sg" by (simp add: grown_def)

lemma grown_trans: "grown sg sg' \<Longrightarrow> grown sg' sg'' \<Longrightarrow> grown sg sg''" by (simp add: grown_def)

lemma used_append [simp]: "used (xs @ ys) = used xs \<union> used ys"
  by (auto simp: used_def)

lemma used_Cons [simp]: "used ((a, l, f) # ys) = (if f then used ys else insert (a, l) (used ys))"
  by (auto simp: used_def)

lemma used_Nil [simp]: "used [] = {}"
  by (simp add: used_def)

lemma used_finite: "finite (used sg)"
proof -
  have "used sg \<subseteq> (\<lambda>(a, l, f). (a, l)) ` set sg" by (force simp: used_def)
  then show ?thesis by (rule finite_subset) simp
qed

lemma used_fst: "a \<in> fst ` used sg \<Longrightarrow> a \<in> fst ` set sg"
  by (force simp: used_def)

lemma merge_back_used: "used (merge_back xs a l ys) = used xs \<union> used ys"
  by (cases xs rule: rev_cases) (auto simp: merge_back_def)

lemma coalesced_append:
  "coalesced (xs @ ys) \<longleftrightarrow> coalesced xs \<and> coalesced ys \<and>
     (xs \<noteq> [] \<and> ys \<noteq> [] \<longrightarrow> \<not> (snd (snd (last xs)) \<and> snd (snd (hd ys))))"
  by (auto simp: coalesced_def successively_append_iff)

lemma coalesced_Cons:
  "coalesced (x # ys) \<longleftrightarrow> coalesced ys \<and> (ys \<noteq> [] \<longrightarrow> \<not> (snd (snd x) \<and> snd (snd (hd ys))))"
  by (cases ys) (auto simp: coalesced_def)

lemma coalesced_Nil: "coalesced []"
  by (simp add: coalesced_def)

lemmas coalesced_simps = coalesced_append coalesced_Cons coalesced_Nil

lemma merge_back_coalesced:
  assumes "coalesced xs" "coalesced ys" "ys = [] \<or> \<not> snd (snd (hd ys))"
  shows "coalesced (merge_back xs a l ys)"
  using assms
  by (cases xs rule: rev_cases) (auto simp: merge_back_def coalesced_simps)

lemma merge_forward_cases:
  obtains "merge_forward l ys = (l, ys)" "ys = [] \<or> \<not> snd (snd (hd ys))"
  | b lb zs where "ys = (b, lb, True) # zs" "merge_forward l ys = (l + lb + 32, zs)"
proof (cases "ys = [] \<or> \<not> snd (snd (hd ys))")
  case True
  then show thesis by (intro that(1)) (auto simp: merge_forward_def split: list.split bool.split)
next
  case False
  then obtain b lb zs where ys: "ys = (b, lb, True) # zs" by (auto simp: neq_Nil_conv)
  then show thesis by (intro that(2) [OF ys]) (simp add: merge_forward_def)
qed

lemma release_used: "used (release xs a l ys) = used xs \<union> used ys"
  by (rule merge_forward_cases [of l ys]) (auto simp: release_def merge_back_used)

lemma release_coalesced:
  assumes "coalesced (xs @ (a, l, f) # ys)"
  shows "coalesced (release xs a l ys)"
  using assms
  by (rule_tac merge_forward_cases [of l ys])
     (auto simp: release_def coalesced_simps intro!: merge_back_coalesced)

lemma heap_rep_ne: "heap_rep h sg \<Longrightarrow> sg \<noteq> []"
  by (auto simp: heap_rep_def heap_segs_def)

text \<open>The last segment after an expansion by \<open>R\<close> bytes, and after one more.\<close>

lemma merge_back_last:
  assumes rep: "heap_rep h sg" and R: "64 \<le> unat R" "unat (heapEnd h) + unat R < 2 ^ 64"
  obtains us a L where "merge_back sg (heapEnd h) (R - 32) [] = us @ [(a, L, True)]"
    "unat R - 32 \<le> unat L"
    "snd (snd (last sg)) \<longrightarrow> unat L = unat (fst (snd (last sg))) + unat R"
    "set us \<subseteq> set sg"
proof -
  obtain us p lp fp where sg: "sg = us @ [(p, lp, fp)]"
    using heap_rep_ne [OF rep] by (cases sg rule: rev_cases) auto
  have "unat p + 32 + unat lp \<le> unat (heapEnd h)"
    using rep sg by (rule_tac heap_rep_split [of h us p lp fp "[]"]) auto
  then have "unat (lp + (R - 32) + 32) = unat lp + unat R"
    using R by (simp add: unat_add_no_wrap)
  moreover have "unat (R - 32) = unat R - 32" using R by (simp add: unat_sub_no_wrap)
  ultimately show thesis
    using that [of us p "lp + (R - 32) + 32"] that [of sg "heapEnd h" "R - 32"] sg
    by (cases fp) (auto simp: merge_back_def subset_insertI)
qed

lemma merge_back_grown:
  assumes rep: "heap_rep h sg" and R: "64 \<le> unat R" "unat (heapEnd h) + unat R < 2 ^ 64"
  shows "grown sg (merge_back sg (heapEnd h) (R - 32) [])"
proof -
  obtain us a L where m: "merge_back sg (heapEnd h) (R - 32) [] = us @ [(a, L, True)]"
    "unat R - 32 \<le> unat L" "snd (snd (last sg)) \<longrightarrow> unat L = unat (fst (snd (last sg))) + unat R"
    "set us \<subseteq> set sg"
    by (rule merge_back_last [OF assms])
  then have "no_short sg \<longrightarrow> no_short (merge_back sg (heapEnd h) (R - 32) [])"
    using R(1) m(2,4) unfolding m(1) no_short_def by auto
  then show ?thesis
    by (simp add: grown_def merge_back_used merge_back_coalesced coalesced_simps)
qed

definition malloc_result :: "segment list \<Rightarrow> u64 \<Rightarrow> 'b heap \<Rightarrow> u64 \<Rightarrow> bool" where
  "malloc_result sg sz h p \<longleftrightarrow> (\<exists>xs a l ys rest. sg = xs @ (a, l, True) # ys \<and> sz \<le> l - 32
     \<and> taken a l sz ys rest \<and> heap_rep h (xs @ rest) \<and> p = a + 32)"

lemma malloc_find:
  assumes rep: "heap_rep h sg" and sz: "16 \<le> unat sz" "unat sz \<le> 2 ^ 62" "round_up_to 0x10 sz = sz"
  shows "t \<in> set sg \<Longrightarrow> fits sz t \<Longrightarrow>
           \<exists>h' p. malloc grow h sz = Some (h', p) \<and> malloc_result sg sz h' p"
    and "(\<forall>t \<in> set sg. \<not> fits sz t) \<Longrightarrow> malloc grow h sz =
           (let (h', ok) = ExpandHeap grow h sz in if ok then malloc grow h' sz else Some (h', NULL))"
proof -
  have nz: "sz \<noteq> 0" using sz(1) by auto
  note F = find_segment_rep [OF rep, of sz]
  show "malloc grow h sz =
      (let (h', ok) = ExpandHeap grow h sz in if ok then malloc grow h' sz else Some (h', NULL))"
    if "\<forall>t \<in> set sg. \<not> fits sz t"
  proof -
    have "List.find (fits sz) sg = None" using that by (simp add: find_None_iff)
    then show ?thesis
      using F nz sz(3) by (subst malloc.simps) (simp split: prod.split)
  qed
  show "\<exists>h' p. malloc grow h sz = Some (h', p) \<and> malloc_result sg sz h' p"
    if t: "t \<in> set sg" "fits sz t"
  proof -
    obtain u where u: "List.find (fits sz) sg = Some u"
      using t find_None_iff [of "fits sz" sg] by fastforce
    then obtain i where "i < length sg" "fits sz (sg ! i)" "u = sg ! i"
      by (auto simp: find_Some_iff)
    then have "u \<in> set sg" "fits sz u" by auto
    then obtain a l where ua: "u = (a, l, True)" by (metis fits_def prod.collapse)
    obtain xs ys where sg: "sg = xs @ (a, l, True) # ys"
      using split_list [OF \<open>u \<in> set sg\<close>] ua by blast
    have fit: "sz \<le> l - 32" using \<open>fits sz u\<close> ua by (simp add: fits_def)
    note T = take_segment_rep [OF rep [unfolded sg] fit sz(1,2)]
    have "malloc grow h sz = Some (take_segment h a sz)"
      using F u ua nz sz(3) by (subst malloc.simps) simp
    moreover have "malloc_result sg sz (fst (take_segment h a sz)) (snd (take_segment h a sz))"
      unfolding malloc_result_def using T(1,2) sg fit by blast
    ultimately show ?thesis by (metis prod.collapse)
  qed
qed


lemma round_up_16:
  assumes "0 < unat sz" "unat sz \<le> 2 ^ 61"
  shows "16 \<le> unat (round_up_to 0x10 sz)" "unat (round_up_to 0x10 sz) \<le> unat sz + 15"
    and "unat sz \<le> unat (round_up_to 0x10 sz)"
    and "round_up_to 0x10 (round_up_to 0x10 sz) = round_up_to 0x10 sz"
proof -
  have r: "unat sz \<le> unat (round_up_to 0x10 sz)" "unat (round_up_to 0x10 sz) < unat sz + 16"
    "unat (round_up_to 0x10 sz) mod 16 = 0"
    using round_up_to_unat(2-4) [of "0x10" sz] assms by simp_all
  then show "unat (round_up_to 0x10 sz) \<le> unat sz + 15" "unat sz \<le> unat (round_up_to 0x10 sz)"
    by simp_all
  show "16 \<le> unat (round_up_to 0x10 sz)"
    using r(1,3) assms(1) by (cases "unat (round_up_to 0x10 sz) < 16") auto
  have "round_up_to 0x10 sz mod 0x10 = 0" using r(3) by (simp add: word_unat_eq_iff unat_mod_word)
  then show "round_up_to 0x10 (round_up_to 0x10 sz) = round_up_to 0x10 sz"
    by (subst round_up_to_def) simp
qed

lemma ExpandHeap_grown:
  assumes rep: "heap_rep h sg" and E: "ExpandHeap grow h sz = (h', True)"
    and sz: "0 < unat sz" and room: "unat (heapEnd h) + unat sz + 4096 \<le> 2 ^ 64"
  obtains sg' R t where "heap_rep h' sg'" "grown sg sg'" "unat sz \<le> unat (R :: u64)" "4096 \<le> unat R"
    "unat (heapEnd h') = unat (heapEnd h) + unat R" "unat R < unat sz + 4096"
    "last sg' = t" "t \<in> set sg'" "snd (snd t)" "unat R - 32 \<le> unat (fst (snd t))"
    "snd (snd (last sg)) \<longrightarrow> unat (fst (snd t)) = unat (fst (snd (last sg))) + unat R"
proof -
  let ?R = "round_up_to 0x1000 sz"
  have "0 < unat (heapEnd h)"
    using rep heap_rep_ne [OF rep] heap_segs_bounds [of h "map fst sg" "hd (map fst sg)"]
    by (cases sg) (auto simp: heap_rep_def)
  then have R: "unat sz \<le> unat ?R" "unat ?R < unat sz + 4096" "unat ?R mod 4096 = 0"
    using round_up_to_unat(2-4) [of "0x1000" sz] room by simp_all
  have R4: "4096 \<le> unat ?R" using R(1,3) sz by (cases "unat ?R < 4096") auto
  then have R64: "64 \<le> unat ?R" and Rr: "unat (heapEnd h) + unat ?R < 2 ^ 64"
    using R(2) room by linarith+
  obtain us a L where m: "merge_back sg (heapEnd h) (?R - 32) [] = us @ [(a, L, True)]"
    "unat ?R - 32 \<le> unat L"
    "snd (snd (last sg)) \<longrightarrow> unat L = unat (fst (snd (last sg))) + unat ?R"
    "set us \<subseteq> set sg"
    by (rule merge_back_last [OF rep R64 Rr])
  have X: "heap_rep h' (us @ [(a, L, True)])" "heapEnd h' = heapEnd h + ?R"
    using ExpandHeap_rep(1) [OF rep E sz room] m(1) by simp_all
  have G: "grown sg (us @ [(a, L, True)])" using merge_back_grown [OF rep R64 Rr] m(1) by simp
  show thesis
    by (rule that [of "us @ [(a, L, True)]" ?R "(a, L, True)"])
       (use X G R R4 Rr m(2,3) in \<open>simp_all add: unat_add_no_wrap\<close>)
qed

lemma fits_unat: "snd (snd t) \<Longrightarrow> unat sz + 32 \<le> unat (fst (snd t)) \<Longrightarrow> fits sz t"
  by (simp add: fits_def word_le_nat_alt unat_sub_no_wrap)

text \<open>
  \<open>malloc\<close> returns, after at most two expansions: a new page-rounded segment may be 64 bytes
  too small, but then it is merged with the next one.
\<close>

lemma malloc_rounded:
  assumes rep: "heap_rep h sg"
    and sz: "16 \<le> unat sz" "unat sz \<le> 2 ^ 62" "round_up_to 0x10 sz = sz"
    and room: "unat (heapEnd h) + 2 * unat sz + 8192 \<le> 2 ^ 64"
  shows "\<exists>h' p sg'. malloc grow h sz = Some (h', p) \<and> grown sg sg' \<and>
    (p = NULL \<and> heap_rep h' sg' \<or> malloc_result sg' sz h' p)"
proof (cases "\<exists>t \<in> set sg. fits sz t")
  case True
  with malloc_find(1) [OF rep sz] grown_refl show ?thesis by blast
next
  case nofit: False
  obtain h1 ok1 where E1: "ExpandHeap grow h sz = (h1, ok1)" by (cases "ExpandHeap grow h sz")
  have sz0: "0 < unat sz" and room1: "unat (heapEnd h) + unat sz + 4096 \<le> 2 ^ 64"
    using sz(1) room by simp_all
  note M1 = malloc_find(2) [OF rep sz, of grow]
  show ?thesis
  proof (cases ok1)
    case False
    then show ?thesis
      using M1 E1 nofit ExpandHeap_rep(2) [OF rep E1 sz0 room1] grown_refl by auto
  next
    case True
    with E1 have E1: "ExpandHeap grow h sz = (h1, True)" by simp
    then have M1: "malloc grow h sz = malloc grow h1 sz" using M1 nofit by simp
    obtain sg1 R t where sg1: "heap_rep h1 sg1" "grown sg sg1" "unat sz \<le> unat (R :: u64)" "4096 \<le> unat R"
      "unat (heapEnd h1) = unat (heapEnd h) + unat R" "unat R < unat sz + 4096" "last sg1 = t"
      "t \<in> set sg1" "snd (snd t)" "unat R - 32 \<le> unat (fst (snd t))"
      "snd (snd (last sg)) \<longrightarrow> unat (fst (snd t)) = unat (fst (snd (last sg))) + unat R"
      by (rule ExpandHeap_grown [OF rep E1 sz0 room1])
    note M2 = malloc_find [OF sg1(1) sz, where grow = grow]
    show ?thesis
    proof (cases "\<exists>t \<in> set sg1. fits sz t")
      case True
      with M2(1) M1 sg1(2) show ?thesis by (metis)
    next
      case nofit1: False
      have room2: "unat (heapEnd h1) + unat sz + 4096 \<le> 2 ^ 64" using sg1(5,6) room by simp
      obtain h2 ok2 where E2: "ExpandHeap grow h1 sz = (h2, ok2)" by (cases "ExpandHeap grow h1 sz")
      show ?thesis
      proof (cases ok2)
        case False
        then show ?thesis
          using M1 M2(2) E2 nofit1 ExpandHeap_rep(2) [OF sg1(1) E2 sz0 room2] sg1(2) by auto
      next
        case True
        with E2 have E2: "ExpandHeap grow h1 sz = (h2, True)" by simp
        obtain sg2 R2 u where sg2: "heap_rep h2 sg2" "grown sg1 sg2" "unat sz \<le> unat (R2 :: u64)"
          "4096 \<le> unat R2" "unat (heapEnd h2) = unat (heapEnd h1) + unat R2"
          "unat R2 < unat sz + 4096" "last sg2 = u" "u \<in> set sg2" "snd (snd u)"
          "unat R2 - 32 \<le> unat (fst (snd u))"
          "snd (snd (last sg1)) \<longrightarrow> unat (fst (snd u)) = unat (fst (snd (last sg1))) + unat R2"
          by (rule ExpandHeap_grown [OF sg1(1) E2 sz0 room2])
        have "unat (fst (snd u)) \<ge> unat sz + 32"
          using sg2(3,11) sg1(4,7,9,10) by simp
        then have "fits sz u" using sg2(9) by (intro fits_unat)
        then obtain h' p where "malloc grow h2 sz = Some (h', p)" "malloc_result sg2 sz h' p"
          using malloc_find(1) [OF sg2(1) sz sg2(8), of grow] by blast
        moreover have "malloc grow h sz = malloc grow h2 sz"
          using M1 M2(2) E2 nofit1 by simp
        ultimately show ?thesis using grown_trans [OF sg1(2) sg2(2)] by metis
      qed
    qed
  qed
qed

lemma malloc_round_up:
  assumes "0 < unat sz" "unat sz \<le> 2 ^ 61"
  shows "malloc grow h sz = malloc grow h (round_up_to 0x10 sz)"
proof -
  have "sz \<noteq> 0" "round_up_to 0x10 sz \<noteq> 0"
    using assms round_up_16(1) [OF assms] by auto
  then show ?thesis
    using round_up_16(4) [OF assms] by (subst (1 2) malloc.simps) (simp add: Let_def)
qed


lemma taken_used:
  assumes "taken a l sz ys rest"
  obtains n zs where "rest = (a, n, False) # zs" "used zs = used ys"
    "32 \<le> unat l \<and> sz \<le> l - 32 \<longrightarrow> unat sz \<le> unat n"
proof (cases "rest = (a, l, False) # ys")
  case True
  then show thesis by (rule that) (auto simp: word_le_nat_alt unat_sub_no_wrap)
next
  case False
  with assms show thesis 
    by (intro that [of sz "(a + sz + 32, l - sz - 32, True) # ys"]) (auto simp: taken_def)
qed

lemma taken_coalesced:
  "taken a l sz ys rest \<Longrightarrow> coalesced (xs @ (a, l, True) # ys) \<Longrightarrow> coalesced (xs @ rest)"
  by (auto simp: taken_def coalesced_simps)

lemma heap_rep_distinct_fst: "heap_rep h sg \<Longrightarrow> (a, l, f) \<in> set sg \<Longrightarrow> (a, m, g) \<in> set sg \<Longrightarrow> l = m \<and> f = g"
  using heap_rep_vals by blast

lemma payload_not_null:
  assumes "heap_rep h sg" "(a, l, f) \<in> set sg"
  shows "a + 32 \<noteq> NULL" "unat (a + 32) = unat a + 32"
proof -
  have "unat a + 32 + unat l \<le> unat (heapEnd h)"
    using assms split_list [OF assms(2)] by (metis heap_rep_split)
  then have "unat a + 32 < 2 ^ 64" using unat64_lt [of "heapEnd h"] by simp
  then show "unat (a + 32) = unat a + 32" by (subst unat_add_no_wrap) simp_all
  then show "a + 32 \<noteq> NULL" by auto
qed

lemma malloc_rep:
  assumes rep: "heap_rep h sg" and sz: "0 < unat sz" "unat sz \<le> 2 ^ 61"
    and room: "unat (heapEnd h) + 2 * unat sz + 16384 \<le> 2 ^ 64"
  shows "\<exists>h' p sg'. malloc grow h sz = Some (h', p) \<and> heap_rep h' sg' \<and> (coalesced sg \<longrightarrow> coalesced sg')
    \<and> (p = NULL \<and> used sg' = used sg \<or>
       (\<exists>a l. p = a + 32 \<and> p \<noteq> NULL \<and> (a, l) \<notin> used sg \<and> used sg' = insert (a, l) (used sg)
          \<and> (no_short sg \<longrightarrow> unat sz \<le> unat l)))"
proof -
  let ?sz = "round_up_to 0x10 sz"
  note r = round_up_16 [OF sz]
  have b: "unat ?sz \<le> 2 ^ 62" "unat (heapEnd h) + 2 * unat ?sz + 8192 \<le> 2 ^ 64"
    using r(2) sz(2) room by simp_all
  obtain h' p sg1 where m: "malloc grow h ?sz = Some (h', p)" and g: "grown sg sg1"
    and res: "p = NULL \<and> heap_rep h' sg1 \<or> malloc_result sg1 ?sz h' p"
    using malloc_rounded [OF rep r(1) b(1) r(4) b(2), of grow] by blast
  have M: "malloc grow h sz = Some (h', p)" using m malloc_round_up [OF sz, of grow h] by simp
  show ?thesis
  proof (cases "p = NULL \<and> heap_rep h' sg1")
    case True
    then show ?thesis
      using M g
      by (intro exI [where x = h'] exI [where x = p] exI [where x = sg1]) (simp add: grown_def)
  next
    case False
    with res obtain xs a l ys rest where t: "sg1 = xs @ (a, l, True) # ys" "?sz \<le> l - 32"
      "taken a l ?sz ys rest" "heap_rep h' (xs @ rest)" "p = a + 32"
      by (auto simp: malloc_result_def)
    obtain n zs where r': "rest = (a, n, False) # zs" "used zs = used ys"
      and n: "32 \<le> unat l \<and> ?sz \<le> l - 32 \<longrightarrow> unat ?sz \<le> unat n"
      by (rule taken_used [OF t(3)])
    have u: "used (xs @ rest) = insert (a, n) (used sg)"
      using r' t(1) g by (simp add: grown_def)
    have "(a, n, False) \<in> set (xs @ rest)" using r'(1) by simp
    then have p: "p \<noteq> NULL" using payload_not_null(1) [OF t(4), of a n False] t(5) by simp
    have "(a, n) \<notin> used xs" "(a, n) \<notin> used zs"
      using heap_rep_distinct [of h' xs a n False zs] t(4) r'(1) by (force simp: used_def)+
    then have "(a, n) \<notin> used sg" using g t(1) r'(2) by (auto simp: grown_def)
    moreover have "no_short sg \<longrightarrow> unat sz \<le> unat n"
      using g t(1,2) n r(3) by (auto simp: grown_def no_short_def)
    moreover have "coalesced sg \<longrightarrow> coalesced (xs @ rest)"
      using taken_coalesced [OF t(3)] g t(1) by (simp add: grown_def)
    ultimately show ?thesis
      using M u p t(4,5)
      by (intro exI [where x = h'] exI [where x = p] exI [where x = "xs @ rest"]) auto
  qed
qed

lemma free_used:
  assumes rep: "heap_rep h sg" and a: "(a, l) \<in> used sg"
  shows "\<exists>sg'. heap_rep (free h (a + 32)) sg' \<and> used sg' = used sg - {(a, l)}
           \<and> (coalesced sg \<longrightarrow> coalesced sg')"
proof -
  obtain xs ys where sg: "sg = xs @ (a, l, False) # ys"
    using a by (auto simp: used_def dest: split_list)
  have "a \<notin> fst ` used xs" "a \<notin> fst ` used ys"
    using heap_rep_distinct [of h xs a l False ys] rep sg used_fst by blast+
  then have "used (release xs a l ys) = used sg - {(a, l)}"
    using sg by (force simp: release_used)
  with free_rep [of h xs a l False ys] rep sg show ?thesis
    using release_coalesced by blast
qed

text \<open>Two blocks in use do not overlap, and lie inside the heap.\<close>

definition separate :: "u64 \<times> u64 \<Rightarrow> u64 \<times> u64 \<Rightarrow> bool" where
  "separate b c \<longleftrightarrow> unat (fst b) + 32 + unat (snd b) \<le> unat (fst c)
     \<or> unat (fst c) + 32 + unat (snd c) \<le> unat (fst b)"

lemma heap_rep_separate:
  assumes rep: "heap_rep h sg" and b: "b \<in> used sg" and c: "c \<in> used sg" and ne: "b \<noteq> c"
  shows "separate b c"
proof -
  obtain a l a' l' where bc: "b = (a, l)" "c = (a', l')" by (cases b, cases c)
  obtain xs ys where sg: "sg = xs @ (a, l, False) # ys"
    using b bc by (auto simp: used_def dest: split_list)
  have "(a', l', False) \<in> set xs \<or> (a', l', False) \<in> set ys"
    using c ne bc sg by (auto simp: used_def)
  then show ?thesis
  proof
    assume "(a', l', False) \<in> set ys"
    then have "unat a + 32 + unat l \<le> unat a'"
      using rep sg by (rule_tac heap_rep_split [of h xs a l False ys]) force+
    then show ?thesis by (simp add: separate_def bc)
  next
    assume "(a', l', False) \<in> set xs"
    then obtain us vs where xs: "xs = us @ (a', l', False) # vs" by (auto dest: split_list)
    have "unat a' + 32 + unat l' \<le> unat a"
      using rep sg xs by (rule_tac heap_rep_split [of h us a' l' False "vs @ (a, l, False) # ys"]) force+
    then show ?thesis by (simp add: separate_def bc)
  qed
qed

lemma heap_rep_inside:
  assumes "heap_rep h sg" "(a, l) \<in> used sg"
  shows "unat (heapStart h) \<le> unat a" "unat a + 32 + unat l \<le> unat (heapEnd h)"
  using assms heap_segs_bounds [of h "map fst sg" a] heap_rep_vals [of h sg a l False]
  by (force simp: heap_rep_def used_def)+


subsection \<open>Clearing a block\<close>

lemma clear_field_outside:
  assumes "\<And>k. k < 8 \<Longrightarrow> \<not> cleared (a + of_nat k)"
  shows "clear_field cleared a v = v"
proof -
  have "fold (\<lambda>k v. if cleared (a + of_nat k) then v AND NOT (push_bit (8 * k) 0xFF) else v) ks v = v"
    if "set ks \<subseteq> {..<8}" for ks
    using that assms by (induction ks) auto
  moreover have "set [0..<8] \<subseteq> {..<8 :: nat}" by auto
  ultimately show ?thesis unfolding clear_field_def by blast
qed

lemma clear_field_inside:
  assumes "\<And>k. k < 8 \<Longrightarrow> cleared (a + of_nat k)"
  shows "clear_field cleared a v = 0"
proof -
  have c: "cleared a" "cleared (a + 1)" "cleared (a + 2)" "cleared (a + 3)"
    "cleared (a + 4)" "cleared (a + 5)" "cleared (a + 6)" "cleared (a + 7)"
    using assms [of 0] assms [of 1] assms [of 2] assms [of 3] assms [of 4] assms [of 5] assms [of 6] assms [of 7]
    by simp_all
  have "[0..<8] = [0, 1, 2, 3, 4, 5, 6, 7 :: nat]" by code_simp
  moreover have "v AND - 18446744073709551616 = 0"
  proof -
    have "(- 18446744073709551616 :: u64) = 0" by code_simp
    then show ?thesis by (simp only: and_zero_eq)
  qed
  ultimately show ?thesis by (simp add: clear_field_def c and.assoc push_bit_eq_mult)
qed

text \<open>A header of which no byte lies in the range keeps its fields.\<close>

lemma memset_hdrs_outside:
  assumes "\<And>k. k < 25 \<Longrightarrow> \<not> in_range start n (a + of_nat k)"
  shows "hdrs (memset_hdrs start n h) a = hdrs h a"
proof -
  have f: "clear_field (in_range start n) (a + of_nat b) v = v" if "b \<le> 16" for b v
    using assms [of "b + k" for k] that by (intro clear_field_outside) (simp add: add.assoc)
  have "\<not> in_range start n (a + 24)" using assms [of 24] by simp
  then show ?thesis using f [of 0] f [of 8] f [of 16] by (simp add: memset_hdrs_def Let_def)
qed

lemma memset_hdrs_rep:
  assumes rep: "heap_rep h sg" and u: "(a, l) \<in> used sg" and n: "unat n \<le> unat l"
  shows "heap_rep (memset_hdrs (a + 32) n h) sg"
proof -
  obtain xs ys where sg: "sg = xs @ (a, l, False) # ys" using u by (auto simp: used_def dest: split_list)
  note R = rep [unfolded sg]
  have e: "unat a + 32 + unat l < 2 ^ 64"
    by (rule heap_rep_split [OF R]) (use unat64_lt [of "heapEnd h"] in simp)
  have p: "unat (a + 32) = unat a + 32" using e by (subst unat_add_no_wrap) simp_all
  have same: "hdrs (memset_hdrs (a + 32) n h) x = hdrs h x"
    if x: "unat x + 32 < 2 ^ 64" "unat x \<le> unat a \<or> unat a + 32 + unat l \<le> unat x" for x
  proof (rule memset_hdrs_outside)
    fix k :: nat assume k: "k < 25"
    then have xk: "unat (x + of_nat k) = unat x + k"
      using x(1) by (subst unat_add_no_wrap) (simp_all add: unat_of_nat_small)
    from x(2) show "\<not> in_range (a + 32) n (x + of_nat k)"
    proof
      assume "unat x \<le> unat a"
      then have "unat (x + of_nat k) < unat (a + 32)" using k p xk by linarith
      from unat_sub_wrap [OF this] e n p show ?thesis by (simp add: in_range_def word_less_nat_alt)
    next
      assume "unat a + 32 + unat l \<le> unat x"
      then have "unat (a + 32) \<le> unat (x + of_nat k)" using p xk by linarith
      from unat_sub_no_wrap [OF this] \<open>unat a + 32 + unat l \<le> unat x\<close> n p xk
      show ?thesis by (simp add: in_range_def word_less_nat_alt)
    qed
  qed
  have keep: "hdrs (memset_hdrs (a + 32) n h) x = hdrs h x" if "x \<in> set (map fst sg)" for x
  proof (rule same)
    have "heap_segs h (map fst sg)" using rep by (simp add: heap_rep_def)
    from heap_segs_bounds [OF this that] have "unat x + 32 \<le> unat (heapEnd h)" by simp
    then show "unat x + 32 < 2 ^ 64" using unat64_lt [of "heapEnd h"] by simp
    show "unat x \<le> unat a \<or> unat a + 32 + unat l \<le> unat x"
      using that unfolding sg by (rule_tac heap_rep_split [OF R]) force
  qed
  have "heap_segs (memset_hdrs (a + 32) n h) (map fst sg)"
    using rep dseg_frame [of "map fst sg" "hdrs (memset_hdrs (a + 32) n h)" "hdrs h"] keep
    by (simp add: heap_rep_def heap_segs_def) (simp add: memset_hdrs_def)
  then show ?thesis using rep keep by (simp add: heap_rep_def seg_entry_def)
qed

subsection \<open>The allocator interface\<close>

text \<open>
  What clients of the heap rely on. \<open>owns s B\<close>: the blocks \<open>B\<close> (header address, payload
  length) are in use in state \<open>s\<close>; \<open>room s n\<close>: a request of \<open>n\<close> bytes is in range.
\<close>

locale block_allocator =
  fixes owns :: "'s \<Rightarrow> (u64 \<times> u64) set \<Rightarrow> bool"
    and room :: "'s \<Rightarrow> u64 \<Rightarrow> bool"
    and alloc :: "'s \<Rightarrow> u64 \<Rightarrow> ('s \<times> u64) option"
    and dealloc :: "'s \<Rightarrow> u64 \<Rightarrow> 's"
  assumes owns_separate: "owns s B \<Longrightarrow> b \<in> B \<Longrightarrow> c \<in> B \<Longrightarrow> b \<noteq> c \<Longrightarrow> separate b c"
    and owns_payload: "owns s B \<Longrightarrow> (a, l) \<in> B \<Longrightarrow> a + 32 \<noteq> NULL"
    and alloc_law: "owns s B \<Longrightarrow> room s n \<Longrightarrow> \<exists>s' p. alloc s n = Some (s', p) \<and>
      (p = NULL \<and> owns s' B \<or>
       (\<exists>a l. p = a + 32 \<and> (a, l) \<notin> B \<and> owns s' (insert (a, l) B)))"
    and dealloc_law: "owns s B \<Longrightarrow> (a, l) \<in> B \<Longrightarrow> owns (dealloc s (a + 32)) (B - {(a, l)})"
begin

lemma payload_inj: "owns s B \<Longrightarrow> inj_on (\<lambda>(a, l). a + 32) B"
proof (rule inj_onI, clarify)
  fix a l b m
  assume o: "owns s B" and m: "(a, l) \<in> B" "(b, m) \<in> B" and "a + 32 = b + (32 :: u64)"
  then have "a = b" by simp
  then show "a = b \<and> l = m"
    using owns_separate [OF o m] by (auto simp: separate_def)
qed

lemma alloc_fresh:
  assumes "owns s B" "room s n" "alloc s n = Some (s', p)" "p \<noteq> NULL"
  obtains a l where "p = a + 32" "owns s' (insert (a, l) B)" "(a, l) \<notin> B"
    "\<And>b. b \<in> B \<Longrightarrow> separate (a, l) b"
proof -
  obtain a l where al: "p = a + 32" "(a, l) \<notin> B" "owns s' (insert (a, l) B)"
    using alloc_law [OF assms(1,2)] assms(3,4) by auto
  moreover have "separate (a, l) b" if "b \<in> B" for b
    using owns_separate [OF al(3), of "(a, l)" b] that al(2) by auto
  ultimately show thesis using that by blast
qed

lemma dealloc_alloc:
  assumes "owns s B" "room s n" "alloc s n = Some (s', p)" "p \<noteq> NULL"
  shows "owns (dealloc s' p) B"
proof -
  obtain a l where al: "p = a + 32" "(a, l) \<notin> B" "owns s' (insert (a, l) B)"
    using alloc_law [OF assms(1,2)] assms(3,4) by auto
  then show ?thesis using dealloc_law [OF al(3), of a l] by simp
qed

text \<open>The pointers handed out determine the blocks in use, and follow alloc and dealloc.\<close>

definition live :: "'s \<Rightarrow> u64 set \<Rightarrow> bool" where
  "live s P \<longleftrightarrow> (\<exists>B. owns s B \<and> P = (\<lambda>(a, l). a + 32) ` B)"

lemma live_alloc:
  assumes "live s P" "room s n" "alloc s n = Some (s', p)"
  shows "live s' (if p = NULL then P else insert p P)" and "p \<noteq> NULL \<Longrightarrow> p \<notin> P"
proof -
  obtain B where B: "owns s B" "P = (\<lambda>(a, l). a + 32) ` B" using assms(1) by (auto simp: live_def)
  show "live s' (if p = NULL then P else insert p P)"
    using alloc_law [OF B(1) assms(2)] assms(3) B(2) owns_payload
    by (fastforce simp: live_def)
  assume "p \<noteq> NULL"
  then obtain a l where al: "p = a + 32" "(a, l) \<notin> B" "owns s' (insert (a, l) B)"
    using alloc_law [OF B(1) assms(2)] assms(3) by auto
  show "p \<notin> P"
  proof
    assume "p \<in> P"
    then obtain m where "(a, m) \<in> B" using al(1) B(2) by auto
    then show False
      using payload_inj [OF al(3)] al(2) by (auto simp: inj_on_def)
  qed
qed

lemma live_dealloc:
  assumes "live s P" "p \<in> P"
  shows "live (dealloc s p) (P - {p})"
proof -
  obtain B where B: "owns s B" "P = (\<lambda>(a, l). a + 32) ` B" using assms(1) by (auto simp: live_def)
  with assms(2) obtain a l where al: "(a, l) \<in> B" "p = a + 32" by auto
  have "(\<lambda>(a, l). a + 32) ` (B - {(a, l)}) = P - {p}"
    using inj_on_image_set_diff [OF payload_inj [OF B(1)], of B "{(a, l)}"] B(2) al by auto
  then show ?thesis using dealloc_law [OF B(1) al(1)] al(2) by (auto simp: live_def)
qed

end

text \<open>The model's heap is such an allocator: its segments represent a coalesced list.\<close>

definition heap_owns :: "'b heap \<Rightarrow> (u64 \<times> u64) set \<Rightarrow> bool" where
  "heap_owns h B \<longleftrightarrow> (\<exists>sg. heap_rep h sg \<and> coalesced sg \<and> used sg = B)"

definition malloc_room :: "'b heap \<Rightarrow> u64 \<Rightarrow> bool" where
  "malloc_room h n \<longleftrightarrow> 0 < unat n \<and> unat n \<le> 2 ^ 61 \<and> unat (heapEnd h) + 2 * unat n + 16384 \<le> 2 ^ 64"

interpretation kheap: block_allocator heap_owns malloc_room "malloc grow" free for grow :: "'b grow"
proof unfold_locales
  fix h :: "'b heap" and B :: "(u64 \<times> u64) set" and b c :: "u64 \<times> u64" and a l :: u64
  show "heap_owns h B \<Longrightarrow> b \<in> B \<Longrightarrow> c \<in> B \<Longrightarrow> b \<noteq> c \<Longrightarrow> separate b c"
    by (auto simp: heap_owns_def intro: heap_rep_separate)
  show "heap_owns h B \<Longrightarrow> (a, l) \<in> B \<Longrightarrow> a + 32 \<noteq> NULL"
    using payload_not_null(1) by (fastforce simp: heap_owns_def used_def)
  show "\<exists>h' p. malloc grow h n = Some (h', p) \<and> (p = NULL \<and> heap_owns h' B \<or>
      (\<exists>a l. p = a + 32 \<and> (a, l) \<notin> B \<and> heap_owns h' (insert (a, l) B)))"
    if o: "heap_owns h B" and r: "malloc_room h n" for n
  proof -
    obtain sg where "heap_rep h sg" "coalesced sg" "used sg = B"
      using o by (auto simp: heap_owns_def)
    with malloc_rep [OF this(1), of n grow] r show ?thesis
      unfolding malloc_room_def heap_owns_def by metis
  qed
  show "heap_owns h B \<Longrightarrow> (a, l) \<in> B \<Longrightarrow> heap_owns (free h (a + 32)) (B - {(a, l)})"
    using free_used unfolding heap_owns_def by metis
qed


subsection \<open>Histories of the heap\<close>

text \<open>
  A state is the heap with the set of pointers that were handed out and not given back. Clients
  free only those, or NULL. A cleared block is asked for only where no free segment is shorter than a header:
  \<open>malloc\<close> can answer with such a segment, and clearing it then runs over the header behind it.
\<close>

definition no_short_segments :: "'b heap \<Rightarrow> bool" where
  "no_short_segments h \<longleftrightarrow> (\<forall>sg. heap_rep h sg \<longrightarrow> no_short sg)"

inductive heap_step :: "'b grow \<Rightarrow> 'b heap \<times> u64 set \<Rightarrow> 'b heap \<times> u64 set \<Rightarrow> bool"
  for grow :: "'b grow" where
  malloc_zero: "malloc grow h 0 = Some (h', p) \<Longrightarrow> heap_step grow (h, P) (h', P)"
| malloc_some: "malloc_room h n \<Longrightarrow> malloc grow h n = Some (h', p) \<Longrightarrow>
    heap_step grow (h, P) (h', if p = NULL then P else insert p P)"
| calloc_zero: "calloc grow h 0 = Some (h', p) \<Longrightarrow> heap_step grow (h, P) (h', P)"
| calloc_some: "n \<noteq> 0 \<Longrightarrow> malloc_room h (round_up_to 0x10 n) \<Longrightarrow> no_short_segments h \<Longrightarrow> calloc grow h n = Some (h', p) \<Longrightarrow>
    heap_step grow (h, P) (h', if p = NULL then P else insert p P)"
| free_live: "p \<in> P \<Longrightarrow> heap_step grow (h, P) (free h p, P - {p})"
| free_null: "heap_step grow (h, P) (free h NULL, P)"

inductive_cases heap_stepE: "heap_step grow (h, P) t"

lemma calloc_live:
  assumes "n \<noteq> 0" "malloc_room h (round_up_to 0x10 n)" "no_short_segments h" "calloc grow h n = Some (h', p)"
    and "kheap.live h P"
  shows "kheap.live h' (if p = NULL then P else insert p P)"
proof -
  let ?n = "round_up_to 0x10 n"
  obtain sg where sg: "heap_rep h sg" "coalesced sg" "P = (\<lambda>(a, l). a + 32) ` used sg"
    using assms(5) by (auto simp: kheap.live_def heap_owns_def)
  have ns: "no_short sg" using assms(3) sg(1) by (simp add: no_short_segments_def)
  have room: "0 < unat ?n" "unat ?n \<le> 2 ^ 61" "unat (heapEnd h) + 2 * unat ?n + 16384 \<le> 2 ^ 64"
    using assms(2) unfolding malloc_room_def by blast+
  obtain h1 q sg1 where m: "malloc grow h ?n = Some (h1, q)" "heap_rep h1 sg1" "coalesced sg1"
    and q0: "q = NULL \<and> used sg1 = used sg \<or>
      (\<exists>a l. q = a + 32 \<and> q \<noteq> NULL \<and> (a, l) \<notin> used sg \<and> used sg1 = insert (a, l) (used sg)
        \<and> (no_short sg \<longrightarrow> unat ?n \<le> unat l))"
    using malloc_rep [OF sg(1) room, of grow] sg(2) by blast
  from q0 ns have q: "q = NULL \<and> used sg1 = used sg \<or>
      (\<exists>a l. q = a + 32 \<and> q \<noteq> NULL \<and> used sg1 = insert (a, l) (used sg) \<and> unat ?n \<le> unat l)" by blast
  have c: "p = q" "h' = (if q = NULL then h1 else memset_hdrs q ?n h1)"
    using assms(1,4) m(1) by (auto simp: calloc_def Let_def split: if_splits)
  have "heap_rep h' sg1 \<and> (\<lambda>(a, l). a + 32) ` used sg1 = (if p = NULL then P else insert p P)"
    using q
  proof (elim disjE exE conjE)
    fix a l assume "q = a + 32" "q \<noteq> NULL" "used sg1 = insert (a, l) (used sg)" "unat ?n \<le> unat l"
    then show ?thesis using memset_hdrs_rep [OF m(2), of a l ?n] c sg(3) by simp
  qed (use m(2) c sg(3) in simp)
  then show ?thesis using m(3) unfolding kheap.live_def heap_owns_def by blast
qed

lemma heap_step_live:
  assumes "heap_step grow (h, P) (h', P')" "kheap.live h P"
  shows "kheap.live h' P'"
  using assms
proof (cases rule: heap_step.cases)
  case (malloc_zero p)
  then have "h' = h" by (simp add: malloc.simps)
  with malloc_zero assms(2) show ?thesis by simp
next
  case (malloc_some n p)
  then show ?thesis using kheap.live_alloc(1) [OF assms(2), of n grow] by simp
next
  case (calloc_zero p)
  then show ?thesis using assms(2) by (simp add: calloc_def)
next
  case (calloc_some n p)
  then show ?thesis using calloc_live [OF _ _ _ _ assms(2)] by simp
next
  case (free_live p)
  then show ?thesis using kheap.live_dealloc [OF assms(2), of p] by simp
next
  case free_null
  then show ?thesis using assms(2) by (simp add: free_def)
qed

lemma heap_steps_live:
  assumes "(heap_step grow)\<^sup>*\<^sup>* s t" "kheap.live (fst s) (snd s)"
  shows "kheap.live (fst t) (snd t)"
  using assms
proof (induction rule: rtranclp_induct)
  case (step t u)
  then show ?case using heap_step_live by (metis prod.collapse)
qed simp

lemma heap_live_initial:
  assumes "CreateHeap grow h A n = Inr h'" "A \<noteq> NULL" "0 < unat n" "unat A + unat n * 4096 < 2 ^ 64"
  shows "kheap.live h' {}"
proof -
  have "heap_owns h' {}"
    unfolding heap_owns_def
    by (intro exI conjI, rule CreateHeap_rep(1) [OF assms]) (simp_all add: coalesced_simps)
  then show ?thesis by (auto simp: kheap.live_def)
qed

subsection \<open>Example states\<close>

text \<open>A page source that always delivers, and a heap of one page.\<close>

definition sure_grow :: "unit grow" where
  "sure_grow b a = ((), True)"

definition cold_heap :: "unit heap" where
  "cold_heap = \<lparr>heapStart = 0, heapEnd = 0, LastHdr = 0, usedPages = 0, start_page_count = 0,
     hdrs = (\<lambda>_. \<lparr>seg_length = 0, seg_next = 0, seg_last = 0, seg_free = False\<rparr>), backing = ()\<rparr>"

definition page_heap :: "unit heap" where
  "page_heap = \<lparr>heapStart = 0x100000, heapEnd = 0x101000, LastHdr = 0x100000, usedPages = 1,
     start_page_count = 1,
     hdrs = (\<lambda>_. \<lparr>seg_length = 0, seg_next = 0, seg_last = 0, seg_free = False\<rparr>)
       (0x100000 := \<lparr>seg_length = 4064, seg_next = 0, seg_last = 0, seg_free = True\<rparr>),
     backing = ()\<rparr>"

lemma page_heap_created: "CreateHeap sure_grow cold_heap 0x100000 1 = Inr page_heap"
  by (simp add: CreateHeap_def cold_heap_def page_heap_def sure_grow_def Let_def hupd_def)

lemma page_heap_rep: "heap_rep page_heap [(0x100000, 4064, True)]"
  using CreateHeap_rep(1) [OF page_heap_created] by simp

lemma page_heap_room: "unat n \<le> 2 ^ 20 \<Longrightarrow> 0 < unat n \<Longrightarrow> malloc_room page_heap n"
  by (simp add: malloc_room_def page_heap_def)


subsection \<open>Properties\<close>

text \<open>
  C1. malloc always returns. It either gives NULL and leaves the blocks in use as they were, or a
  pointer 32 bytes behind the header of a block that was not in use, inside the heap and apart
  from every block in use; all other blocks in use stay in use. The block is as long as the
  request when no free segment is shorter than a header.
\<close>

theorem malloc_correct:
  assumes "heap_rep h sg" and "0 < unat n" "unat n \<le> 2 ^ 61"
    and "unat (heapEnd h) + 2 * unat n + 16384 \<le> 2 ^ 64"
  shows "\<exists>h' p sg'. malloc grow h n = Some (h', p) \<and> heap_rep h' sg' \<and>
    (p = NULL \<and> used sg' = used sg \<or>
     (\<exists>a l. p = a + 32 \<and> p \<noteq> NULL \<and> used sg' = insert (a, l) (used sg)
        \<and> (\<forall>b \<in> used sg. separate (a, l) b)
        \<and> unat (heapStart h') \<le> unat a \<and> unat a + 32 + unat l \<le> unat (heapEnd h')
        \<and> (no_short sg \<longrightarrow> unat n \<le> unat l)))"
proof -
  obtain h' p sg' where m: "malloc grow h n = Some (h', p)" "heap_rep h' sg'"
    and r: "p = NULL \<and> used sg' = used sg \<or>
       (\<exists>a l. p = a + 32 \<and> p \<noteq> NULL \<and> (a, l) \<notin> used sg \<and> used sg' = insert (a, l) (used sg)
          \<and> (no_short sg \<longrightarrow> unat n \<le> unat l))"
    using malloc_rep [OF assms] by blast
  have "separate (a, l) b" if "used sg' = insert (a, l) (used sg)" "(a, l) \<notin> used sg" "b \<in> used sg"
    for a l b
    using heap_rep_separate [OF m(2), of "(a, l)" b] that by auto
  moreover have "unat (heapStart h') \<le> unat a \<and> unat a + 32 + unat l \<le> unat (heapEnd h')"
    if "used sg' = insert (a, l) (used sg)" for a l
    using heap_rep_inside [OF m(2), of a l] that by simp
  ultimately show ?thesis
    using m r by (intro exI [where x = h'] exI [where x = p] exI [where x = sg']) blast
qed

theorem malloc_correct_witness:
  "\<exists>h' p sg'. malloc sure_grow page_heap 0x1800 = Some (h', p) \<and> heap_rep h' sg' \<and>
     (p = NULL \<and> used sg' = {} \<or> (\<exists>a l. p = a + 32 \<and> used sg' = {(a, l)} \<and> 0x1800 \<le> unat l))"
  using malloc_correct [OF page_heap_rep, of "0x1800" sure_grow]
  by (fastforce simp: page_heap_def no_short_def)

text \<open>
  C2. Whatever clients allocate and free, in any order, the header list stays a well-formed list of
  disjoint segments without two free neighbours, and the segments in use are exactly the pointers
  that were handed out and not given back. The requests are below 2 to the 61 and leave room at the end of the address
  space, only live pointers and NULL are freed, and calloc is called while no free segment is shorter than a header.
\<close>

theorem heap_reachable_ok:
  assumes "CreateHeap grow h A n = Inr h0" "A \<noteq> NULL" "0 < unat n" "unat A + unat n * 4096 < 2 ^ 64"
    and "(heap_step grow)\<^sup>*\<^sup>* (h0, {}) (h', P)"
  shows "\<exists>sg. heap_rep h' sg \<and> coalesced sg \<and> P = (\<lambda>(a, l). a + 32) ` used sg
    \<and> (\<forall>b \<in> used sg. \<forall>c \<in> used sg. b \<noteq> c \<longrightarrow> separate b c)"
proof -
  have "kheap.live h' P"
    using heap_steps_live [OF assms(5)] heap_live_initial [OF assms(1-4)] by simp
  then obtain sg where "heap_rep h' sg" "coalesced sg" "P = (\<lambda>(a, l). a + 32) ` used sg"
    by (auto simp: kheap.live_def heap_owns_def)
  then show ?thesis using heap_rep_separate by blast
qed

lemma page_heap_malloc:
  "\<exists>h'. malloc sure_grow page_heap 0x64 = Some (h', 0x100020) \<and> seg_length (hdrs h' 0x100000) = 0x70"
proof -
  have f: "find_segment page_heap (heapStart page_heap) 0x70 = Some (Some 0x100000)"
    by (subst find_segment.simps) (simp add: page_heap_def curSize_def)
  have "malloc sure_grow page_heap 0x64 = Some (take_segment page_heap 0x100000 0x70)"
    by (subst malloc.simps) (simp add: f round_up_to_def)
  then show ?thesis
    by (simp add: take_segment_def Split_def curSize_def hupd_def page_heap_def Let_def)
qed

theorem heap_reachable_ok_witness:
  "\<exists>h' sg. (heap_step sure_grow)\<^sup>*\<^sup>* (page_heap, {}) (h', {0x100020}) \<and> heap_rep h' sg
     \<and> coalesced sg \<and> {0x100020} = (\<lambda>(a, l). a + 32) ` used sg"
proof -
  obtain h' where m: "malloc sure_grow page_heap 0x64 = Some (h', 0x100020)"
    using page_heap_malloc by blast
  have "malloc_room page_heap 0x64" by (rule page_heap_room) simp_all
  from heap_step.malloc_some [OF this m, of "{}"]
  have s: "(heap_step sure_grow)\<^sup>*\<^sup>* (page_heap, {}) (h', {0x100020})" by simp
  show ?thesis
    using heap_reachable_ok [OF page_heap_created _ _ _ s] s by auto
qed

text \<open>
  C6. When a free segment fits the rounded request, malloc gives the payload of a segment that was free and now is in
  use, and freeing that pointer at once restores the list of segments: the split-off rest is merged back.
\<close>

theorem free_malloc:
  assumes "heap_rep h sg" "coalesced sg" and "0 < unat n" "unat n \<le> 2 ^ 61"
    and "\<exists>t \<in> set sg. fits (round_up_to 0x10 n) t"
  shows "\<exists>h' a l l' sg'. malloc grow h n = Some (h', a + 32) \<and> a + 32 \<noteq> NULL
    \<and> (a, l, True) \<in> set sg \<and> heap_rep h' sg' \<and> (a, l', False) \<in> set sg' \<and> heap_rep (free h' (a + 32)) sg"
proof -
  let ?n = "round_up_to 0x10 n"
  note r = round_up_16 [OF assms(3,4)]
  have "unat ?n \<le> 2 ^ 62" using r(2) assms(4) by simp
  then obtain h' p where m: "malloc grow h ?n = Some (h', p)" and R: "malloc_result sg ?n h' p"
    using malloc_find(1) [OF assms(1) r(1) _ r(4), where grow = grow] assms(5) by blast
  from R obtain xs a l ys rest where t: "sg = xs @ (a, l, True) # ys"
    "taken a l ?n ys rest" "heap_rep h' (xs @ rest)" "p = a + 32"
    by (auto simp: malloc_result_def)
  have mf: "merge_forward l ys = (l, ys)" and mb: "merge_back xs a l ys = sg"
    using assms(2) t(1)
    by (auto simp: coalesced_simps merge_forward_def merge_back_def split: list.split bool.split)
  from t(2) have "heap_rep (free h' p) (merge_back xs a l ys)"
    unfolding taken_def
  proof (elim disjE conjE)
    assume "rest = (a, l, False) # ys"
    then show ?thesis using free_rep [of h' xs a l False ys] t(3,4) mf by (simp add: release_def)
  next
    assume "rest = (a, ?n, False) # (a + ?n + 32, l - ?n - 32, True) # ys"
    then show ?thesis
      using free_rep [of h' xs a ?n False "(a + ?n + 32, l - ?n - 32, True) # ys"] t(3,4)
      by (simp add: release_def merge_forward_def)
  qed
  moreover have "(a, l, True) \<in> set sg" using t(1) by simp
  moreover have "\<exists>l'. (a, l', False) \<in> set (xs @ rest)" using t(2) by (auto simp: taken_def)
  ultimately show ?thesis
    using m mb malloc_round_up [OF assms(3,4), of grow h] t(3,4) payload_not_null(1) [OF assms(1)] by metis
qed

theorem free_malloc_witness:
  "\<exists>h'. malloc sure_grow page_heap 0x64 = Some (h', 0x100020)
     \<and> heap_rep (free h' 0x100020) [(0x100000, 4064, True)]"
  using free_malloc [OF page_heap_rep, of "0x64" sure_grow]
  by (auto simp: coalesced_simps fits_def round_up_to_def)


lemma malloc_short:
  assumes rep: "heap_rep h (xs @ (a, l, True) # ys)" and l: "unat l < 32"
    and n: "0 < unat n" "unat n \<le> 2 ^ 61"
    and first: "\<forall>t \<in> set xs. \<not> fits (round_up_to 0x10 n) t"
  shows "\<exists>h'. malloc grow h n = Some (h', a + 32) \<and> heap_rep h' (xs @ (a, l, False) # ys)"
proof -
  let ?n = "round_up_to 0x10 n"
  note r = round_up_16 [OF n]
  have n62: "unat ?n \<le> 2 ^ 62" using r(2) n(2) by simp
  have l16: "16 \<le> unat l" by (rule heap_rep_split [OF rep])
  have "unat (l - 32) = 2 ^ 64 + unat l - 32" using l by (subst unat_sub_wrap) simp_all
  then have fit: "fits ?n (a, l, True)" using n62 by (simp add: fits_def word_le_nat_alt)
  have "List.find (fits ?n) (xs @ (a, l, True) # ys) = Some (a, l, True)"
    using first fit by (induction xs) auto
  then have "find_segment h (heapStart h) ?n = Some (Some a)"
    using find_segment_rep [OF rep, of ?n] by simp
  moreover have "?n \<noteq> 0" using r(1) by auto
  ultimately have "malloc grow h ?n = Some (take_segment h a ?n)"
    using r(4) by (subst malloc.simps) simp
  moreover have "take_segment h a ?n = (hupd a (\<lambda>s. s\<lparr>seg_free := False\<rparr>) h, a + 32)"
    using Split_short [OF l l16 n62, of h a] heap_rep_vals [OF rep, of a l True]
    by (simp add: take_segment_def Let_def)
  ultimately show ?thesis
    using set_free_rep [OF rep, of False] malloc_round_up [OF n, of grow h] by simp
qed

text \<open>
  C17. A free segment shorter than a header (Split leaves such rests of 16 bytes) satisfies every
  request: its length minus the header size wraps around, so malloc hands it out whole although it
  is shorter than what was asked for.
\<close>

theorem malloc_short_segment:
  assumes rep: "heap_rep h (xs @ (a, l, True) # ys)" and l: "unat l < 32"
    and n: "0 < unat n" "unat n \<le> 2 ^ 61"
    and first: "\<forall>t \<in> set xs. \<not> fits (round_up_to 0x10 n) t"
  shows "\<exists>h'. malloc grow h n = Some (h', a + 32) \<and> heap_rep h' (xs @ (a, l, False) # ys)"
  by (rule malloc_short [OF assms])

definition short_heap :: "unit heap" where
  "short_heap = fst (take_segment page_heap 0x100000 4016)"

lemma short_heap_rep:
  "heap_rep short_heap [(0x100000, 4016, False), (0x100fd0, 16, True)]"
proof -
  have "fst (take_segment page_heap 0x100000 4016) =
      hupd 0x100000 (\<lambda>s. s\<lparr>seg_free := False\<rparr>) (fst (Split page_heap 0x100000 4016))"
    by (simp add: take_segment_def curSize_def page_heap_def)
  moreover have "heap_rep (fst (Split page_heap 0x100000 4016))
      ([] @ (0x100000, 4016, True) # [(0x100fd0, 16, True)])"
    using Split_rep(1) [of page_heap "[]" "0x100000" 4064 True "[]" 4016] page_heap_rep by simp
  ultimately show ?thesis
    using set_free_rep [of "fst (Split page_heap 0x100000 4016)" "[]" "0x100000" 4016 True
        "[(0x100fd0, 16, True)]" False]
    by (simp add: short_heap_def)
qed

theorem malloc_short_segment_witness:
  "\<exists>h'. malloc sure_grow short_heap 0x400 = Some (h', 0x100ff0)
     \<and> heap_rep h' [(0x100000, 4016, False), (0x100fd0, 16, False)]"
  using malloc_short_segment [of short_heap "[(0x100000, 4016, False)]" "0x100fd0" 16 "[]" "0x400"
      sure_grow] short_heap_rep
  by (simp add: fits_def)

text \<open>
  C34. A calloc that is served by such a segment clears the header that follows it when that is within the requested
  length: the list then ends there, with a segment of length 0.
\<close>

theorem calloc_short_segment:
  assumes rep: "heap_rep h (xs @ (a, l, True) # (b, m, f) # ys)" and l: "unat l < 32"
    and b: "unat b = unat a + 32 + unat l" and n: "unat n \<le> 2 ^ 61" "unat l + 32 \<le> unat (round_up_to 0x10 n)"
    and first: "\<forall>t \<in> set xs. \<not> fits (round_up_to 0x10 n) t"
  shows "\<exists>h'. calloc grow h n = Some (h', a + 32)
    \<and> hdrs h' b = \<lparr>seg_length = 0, seg_next = NULL, seg_last = NULL, seg_free = False\<rparr>"
proof -
  let ?n = "round_up_to 0x10 n"
  have n0: "n \<noteq> 0" using n(2) by (auto simp: round_up_to_def)
  then have n1: "0 < unat n" by (simp add: unat_gt_0)
  note r = round_up_16 [OF n1 n(1)]
  obtain h1 where h1: "malloc grow h n = Some (h1, a + 32)"
    using malloc_short [OF rep l n1 n(1) first] by blast
  have p: "a + 32 \<noteq> NULL" "unat (a + 32) = unat a + 32" using payload_not_null [OF rep, of a l True] by simp_all
  have "unat b + 32 < 2 ^ 64"
    using payload_not_null(2) [OF rep, of b m f] unat64_lt [of "b + 32"] by simp
  then have R: "in_range (a + 32) ?n (b + of_nat k)" if "k < 25" for k
  proof -
    have bk: "unat (b + of_nat k) = unat b + k"
      using that \<open>unat b + 32 < 2 ^ 64\<close> by (subst unat_add_no_wrap) (simp_all add: unat_of_nat_small)
    have "unat (a + 32) \<le> unat (b + of_nat k)" using bk b p(2) by simp
    from unat_sub_no_wrap [OF this] show ?thesis using that bk b p(2) n(2) by (simp add: in_range_def word_less_nat_alt)
  qed
  have f: "clear_field (in_range (a + 32) ?n) (b + of_nat j) v = 0" if "j \<le> 16" for j v
    using R [of "j + k" for k] that by (intro clear_field_inside) (simp add: add.assoc)
  have "in_range (a + 32) ?n (b + 24)" using R [of 24] by simp
  then have "hdrs (memset_hdrs (a + 32) ?n h1) b = \<lparr>seg_length = 0, seg_next = NULL, seg_last = NULL, seg_free = False\<rparr>"
    using f [of 0] f [of 8] f [of 16] by (simp add: memset_hdrs_def Let_def)
  moreover have "calloc grow h n = Some (memset_hdrs (a + 32) ?n h1, a + 32)"
    using n0 p(1) h1 malloc_round_up [OF n1 n(1), of grow h] by (simp add: calloc_def Let_def)
  ultimately show ?thesis by blast
qed

text \<open>
  One page after allocations of 16 and 3984 bytes of which the first was freed: 16 free bytes before the header of
  a block in use.
\<close>

definition gap_heap :: "unit heap" where
  "gap_heap = page_heap\<lparr>LastHdr := 0x100030, hdrs := (hdrs page_heap)
     (0x100000 := \<lparr>seg_length = 16, seg_next = 0x100030, seg_last = 0, seg_free = True\<rparr>,
      0x100030 := \<lparr>seg_length = 4016, seg_next = 0, seg_last = 0x100000, seg_free = False\<rparr>)\<rparr>"

theorem calloc_short_segment_witness:
  "\<exists>h'. calloc sure_grow gap_heap 0x40 = Some (h', 0x100020) \<and> seg_length (hdrs h' 0x100030) = 0"
proof -
  have "heap_rep gap_heap ([] @ (0x100000, 16, True) # (0x100030, 4016, False) # [])"
    by (simp add: heap_rep_def heap_segs_def gap_heap_def page_heap_def seg_entry_def)
  from calloc_short_segment [OF this, of "0x40" sure_grow] show ?thesis by (auto simp: round_up_to_def)
qed

text \<open>
  Splitting the last segment of the list writes the address of the new segment through the
  NULL next pointer, into the header at address 0.
\<close>

theorem Split_last_writes_null:
  assumes "seg_next (hdrs h a) = NULL" and "snd (Split h a n) \<noteq> NULL"
    and "a \<noteq> NULL" "snd (Split h a n) \<noteq> a"
  shows "seg_last (hdrs (fst (Split h a n)) NULL) = snd (Split h a n)"
proof -
  have c: "16 \<le> unat n" "16 \<le> sint (seg_length (hdrs h a) - n - 32)"
    using assms(2) by (auto simp: Split_def Let_def word_less_nat_alt not_less split: if_splits)
  then have new: "snd (Split h a n) = a + n + 32"
    by (simp add: Split_def Let_def word_less_nat_alt)
  then have "Split h a n =
    (h\<lparr>hdrs := (hdrs h)(NULL := (hdrs h NULL)\<lparr>seg_last := a + n + 32\<rparr>,
         a + n + 32 := (hdrs h (a + n + 32))\<lparr>seg_next := NULL, seg_last := a,
                  seg_length := seg_length (hdrs h a) - n - 32, seg_free := seg_free (hdrs h a)\<rparr>,
         a := (hdrs h a)\<lparr>seg_next := a + n + 32, seg_length := n\<rparr>),
       LastHdr := (if LastHdr h = a then a + n + 32 else LastHdr h)\<rparr>, a + n + 32)"
    by (intro Split_eq [OF c refl assms(1)]) (use assms(2-4) in auto)
  then show ?thesis using assms(2,3) new by simp
qed

theorem Split_last_writes_null_witness:
  "seg_last (hdrs (fst (Split page_heap 0x100000 0x70)) NULL) = 0x100090"
proof -
  have "snd (Split page_heap 0x100000 0x70) = 0x100090"
    by (simp add: Split_def page_heap_def Let_def hupd_def)
  then show ?thesis
    using Split_last_writes_null [of page_heap "0x100000" "0x70"] by (simp add: page_heap_def)
qed

end
