(* ===== verification/KernelMemory.thy ===== *)
theory KernelMemory
  imports TableBudget Heap
begin

section \<open>Setting up the memory of the kernel (kernel/src/utils/kernelUtil.cpp, heap.cpp)\<close>

text \<open>
  \<open>PrepareMemory\<close> builds the allocator from the firmware map, locks the kernel, and builds page
  tables that map all memory and the frame buffer to themselves. The heap grows on frames of that
  allocator, mapped by those tables: the parameter of the heap's theory gets its value here.
\<close>

subsection \<open>PrepareMemory\<close>

text \<open>The information the boot loader hands over, with the frame buffer it points to.\<close>

record KBootInfo =
  kb_fbBase :: u64
  kb_fbSize :: u64
  kb_mMap :: u64
  kb_mMapSize :: u64
  kb_mMapDescSize :: u64

text \<open>
  A new allocator object; the file-level variables and the memory keep their contents. The result is
  \<open>None\<close> when the function does not return: the number of entries is computed by a division
  by the descriptor size, before that is checked, or a mapping loop does not end.
\<close>

definition PageFrameAllocator_new :: "PageFrameAllocator \<Rightarrow> PageFrameAllocator" where
  "PageFrameAllocator_new s = s\<lparr>PageBitmap := \<lparr>Size = 0, Buffer = NULL\<rparr>, totalMemory := 0, freeMemory := 0,
     reservedMemory := 0, usedMemory := 0\<rparr>"

definition PrepareMemory ::
  "desc_store \<Rightarrow> u64 \<Rightarrow> u64 \<Rightarrow> KBootInfo \<Rightarrow> PageFrameAllocator \<Rightarrow> (u64 \<times> PageFrameAllocator) may_panic option" where
  "PrepareMemory ds KernelStart KernelEnd boot s0 =
     (if kb_mMapDescSize boot = 0 then None
      else let mMapEntries = kb_mMapSize boot div kb_mMapDescSize boot in
      case ReadEFIMemoryMap ds (PageFrameAllocator_new s0) (kb_mMap boot) (kb_mMapSize boot) (kb_mMapDescSize boot) of
        Inl p \<Rightarrow> Some (Inl p)
      | Inr s \<Rightarrow>
        let kernelSize = KernelEnd - KernelStart;
            kernelPages = kernelSize div 4096 + 1;
            s = LockPages s KernelStart kernelPages;
            (s, PML4) = RequestPage s in
        if PML4 = NULL then Some (Inl (Panic ''Failed to alocate PML4 memory page''))
        else
          let s = s\<lparr>pmem := k_memset (pmem s) PML4 0 0x1000\<rparr>;
              (memorySize, cache) =
                GetMemorySize ds (memorySizeBytes s) (kb_mMap boot) mMapEntries (kb_mMapDescSize boot);
              s = s\<lparr>memorySizeBytes := cache\<rparr> in
          case IndentityMapMemory_range s PML4 (physAddr (ds (kb_mMap boot))) memorySize of None \<Rightarrow> None
          | Some s \<Rightarrow>
            let fbSize = kb_fbSize boot + 0x1000;
                s = LockPages s (kb_fbBase boot) (fbSize div 0x1000 + 1) in
            case IndentityMapMemory_range s PML4 (kb_fbBase boot) fbSize of None \<Rightarrow> None
            | Some s \<Rightarrow> Some (Inr (PML4, s)))"

subsection \<open>The pages of the heap\<close>

definition heap_grow :: "u64 \<Rightarrow> PageFrameAllocator grow" where
  "heap_grow PML4 s pos =
     (let (s, temp) = RequestPage s in
      if temp = NULL then (s, False) else (fst (MapMemory s PML4 pos temp), True))"

subsection \<open>Locking pages keeps the tables\<close>

lemma LockPage_keeps:
  assumes ok: "paging_ok s root"
  shows "paging_ok (LockPage s a) root" "frame_map (pmem (LockPage s a)) root = frame_map (pmem s) root"
    "table_paths (pmem (LockPage s a)) root = table_paths (pmem s) root"
    "keeps_stable root s (LockPage s a)" "card (free_pages s) \<le> Suc (card (free_pages (LockPage s a)))"
    "free_pages (LockPage s a) = free_pages s - {page_of a}"
    "is_table (pmem (LockPage s a)) root q t = is_table (pmem s) root q t"
proof -
  let ?s = "LockPage s a"
  note D = paging_okD [OF ok]
  have bm: "PageBitmap ?s = PageBitmap s" by (rule lock.claim_bitmap)
  have bp: "bitmap_page ?s = bitmap_page s" using bm by (rule bitmap_page_cong)
  have cap: "capacity ?s = capacity s" by (simp add: capacity_def bm)
  have lck: "page_locked ?s i \<longleftrightarrow> page_locked s i \<or> (i = page_of a \<and> i \<le> capacity s)" for i
    by (simp add: lock.claim_locked capacity_def)
  have ent: "entry (pmem ?s) t i = entry (pmem s) t i" if "is_table (pmem s) root p t" "i < 512" for p t i
  proof (rule entry_cong [OF table_tree_aligned [OF D(5) that(1)] that(2)])
    fix x assume "page_of x = page_of t"
    with D(7) [OF that(1)] show "pmem ?s x = pmem s x" by (intro LockPage_frame) simp
  qed
  have tab: "table_at (pmem ?s) root q = table_at (pmem s) root q" if "indices_ok q" "length q \<le> 4" for q
    using that
  proof (induction q rule: rev_induct)
    case (snoc i q)
    then have IH: "table_at (pmem ?s) root q = table_at (pmem s) root q" by simp
    show ?case
    proof (cases "table_at (pmem s) root q")
      case (Some t)
      then have "is_table (pmem s) root q t" using snoc.prems by (simp add: is_table_def)
      from ent [OF this, of i] IH Some snoc.prems show ?thesis by (simp add: table_at_snoc)
    qed (simp add: IH table_at_snoc)
  qed simp
  then show ist: "is_table (pmem ?s) root q t = is_table (pmem s) root q t" for q t
    by (auto simp: is_table_def)
  show "table_paths (pmem ?s) root = table_paths (pmem s) root" by (simp add: table_paths_def ist)
  show "frame_map (pmem ?s) root = frame_map (pmem s) root" using tab by (auto simp: frame_map_def fun_eq_iff)
  have "low_locked ?s" using D(1) by (rule lock.claim_low_locked)
  then show "paging_ok ?s root"
    unfolding paging_ok_def table_tree_def ist cap bp lck using D(2-7) unfolding table_tree_def by blast
  show f: "free_pages ?s = free_pages s - {page_of a}"
    by (auto simp: free_pages_def cap lck)
  then show "card (free_pages s) \<le> Suc (card (free_pages ?s))"
    by (cases "page_of a \<in> free_pages s") (simp_all add: card_Diff_singleton_if)
  show "keeps_stable root s ?s"
    unfolding keeps_stable_def stable_page_def by (auto simp: f bp ist LockPage_frame)
qed

lemma LockPages_keeps:
  assumes "paging_ok s root"
  shows "paging_ok (LockPages s a n) root \<and> frame_map (pmem (LockPages s a n)) root = frame_map (pmem s) root
    \<and> table_paths (pmem (LockPages s a n)) root = table_paths (pmem s) root
    \<and> keeps_stable root s (LockPages s a n)
    \<and> card (free_pages s) \<le> card (free_pages (LockPages s a n)) + unat n
    \<and> free_pages (LockPages s a n) \<subseteq> free_pages s"
  unfolding LockPages_def
proof (rule for_upto_indexed [where P = "\<lambda>k t. paging_ok t root
    \<and> frame_map (pmem t) root = frame_map (pmem s) root
    \<and> table_paths (pmem t) root = table_paths (pmem s) root \<and> keeps_stable root s t
    \<and> card (free_pages s) \<le> card (free_pages t) + k \<and> free_pages t \<subseteq> free_pages s"])
  show "paging_ok s root \<and> frame_map (pmem s) root = frame_map (pmem s) root
    \<and> table_paths (pmem s) root = table_paths (pmem s) root \<and> keeps_stable root s s
    \<and> card (free_pages s) \<le> card (free_pages s) + 0 \<and> free_pages s \<subseteq> free_pages s"
    using assms by simp
next
  fix k t
  assume t: "paging_ok t root \<and> frame_map (pmem t) root = frame_map (pmem s) root
    \<and> table_paths (pmem t) root = table_paths (pmem s) root \<and> keeps_stable root s t
    \<and> card (free_pages s) \<le> card (free_pages t) + k \<and> free_pages t \<subseteq> free_pages s"
  then have ok: "paging_ok t root" by blast
  note L = LockPage_keeps [OF ok, of "a + of_nat k * 4096"]
  have "keeps_stable root s (LockPage t (a + of_nat k * 4096))"
    using t L(4) by (blast intro: keeps_stable_trans)
  with t L show "paging_ok (LockPage t (a + of_nat k * 4096)) root
    \<and> frame_map (pmem (LockPage t (a + of_nat k * 4096))) root = frame_map (pmem s) root
    \<and> table_paths (pmem (LockPage t (a + of_nat k * 4096))) root = table_paths (pmem s) root
    \<and> keeps_stable root s (LockPage t (a + of_nat k * 4096))
    \<and> card (free_pages s) \<le> card (free_pages (LockPage t (a + of_nat k * 4096))) + Suc k
    \<and> free_pages (LockPage t (a + of_nat k * 4096)) \<subseteq> free_pages s" by auto
qed

subsection \<open>The allocator after the firmware map has been read\<close>

lemma pages_keep_size [simp]:
  "memorySizeBytes (LockPages s a n) = memorySizeBytes s" "memorySizeBytes (ReservePages s a n) = memorySizeBytes s"
  "memorySizeBytes (UnreservePages s a n) = memorySizeBytes s" "memorySizeBytes (InitBitmap s k b) = memorySizeBytes s"
  "memorySizeBytes (unreserve_conventional ds mMap n sz s) = memorySizeBytes s"
proof -
  have inv: "memorySizeBytes (for_upto n body s) = memorySizeBytes s"
    if "\<And>t s. memorySizeBytes (body t s) = memorySizeBytes s" for n and body :: "u64 \<Rightarrow> PageFrameAllocator \<Rightarrow> PageFrameAllocator" and s
    by (rule for_upto_invariant [where P = "\<lambda>t. memorySizeBytes t = memorySizeBytes s"]) (simp_all add: that)
  show l: "memorySizeBytes (LockPages s a n) = memorySizeBytes s" for s a n
    unfolding LockPages_def by (rule inv) (simp add: LockPage_def Let_def case_prod_beta)
  show r: "memorySizeBytes (ReservePages s a n) = memorySizeBytes s" for s a n
    unfolding ReservePages_def by (rule inv) (simp add: ReservePage_def Let_def case_prod_beta)
  show u: "memorySizeBytes (UnreservePages s a n) = memorySizeBytes s" for s a n
    unfolding UnreservePages_def by (rule inv) (simp add: UnreservePage_def Let_def case_prod_beta)
  show "memorySizeBytes (InitBitmap s k b) = memorySizeBytes s"
    unfolding InitBitmap_def Let_def by (subst inv) simp_all
  show "memorySizeBytes (unreserve_conventional ds mMap n sz s) = memorySizeBytes s"
    unfolding unreserve_conventional_def by (rule inv) (simp add: Let_def u)
qed

lemma unreserve_map_low_locked: "low_locked s \<Longrightarrow> low_locked (unreserve_conventional ds mMap n sz s)"
  unfolding unreserve_conventional_def
  by (rule for_upto_invariant [where P = low_locked])
     (simp_all add: Let_def pages_ops unreserve.releases_low_locked)

lemma ReadEFIMemoryMap_kept:
  assumes R: "ReadEFIMemoryMap ds s0 mMap mapSize descSize = Inr s" and "\<not> Initialized s0" "pageBitmapIndex s0 = 0"
  shows "low_locked s"
    "memorySizeBytes s = snd (GetMemorySize ds (memorySizeBytes s0) mMap (mapSize div descSize) descSize)"
proof -
  obtain s1 n b tp where s: "s = (let s2 = InitBitmap s1 n b;
      s3 = ReservePages s2 0 tp;
      s4 = unreserve_conventional ds mMap (mapSize div descSize) descSize s3;
      s5 = ReservePages s4 0 0x100
      in LockPages s5 (Buffer (PageBitmap s5)) (Size (PageBitmap s5) div 4096 + 1))"
    and s1: "pageBitmapIndex s1 = 0"
      "memorySizeBytes s1 = snd (GetMemorySize ds (memorySizeBytes s0) mMap (mapSize div descSize) descSize)"
    using R assms(2,3)
    by (auto simp: ReadEFIMemoryMap_def Let_def case_prod_beta split: if_splits)
  have "low_locked (InitBitmap s1 n b)" using s1(1) by (simp add: low_locked_def InitBitmap_frame)
  then show "low_locked s"
    by (simp add: s Let_def pages_ops lock.claims_low_locked reserve.claims_low_locked unreserve_map_low_locked)
  show "memorySizeBytes s = snd (GetMemorySize ds (memorySizeBytes s0) mMap (mapSize div descSize) descSize)"
    by (simp add: s Let_def s1(2))
qed

lemma GetMemorySize_again:
  assumes "GetMemorySize ds 0 mMap n sz = (tot, c)"
  shows "c = tot" "GetMemorySize ds tot mMap n sz = (tot, tot)"
proof -
  show "c = tot" using assms by (auto simp: GetMemorySize_def Let_def)
  with assms show "GetMemorySize ds tot mMap n sz = (tot, tot)"
    by (cases "tot = 0") (auto simp: GetMemorySize_def word_gt_0)
qed

lemma allocator_ok_boot:
  assumes R: "ReadEFIMemoryMap ds s0 mMap mapSize descSize = Inr s" and "\<not> Initialized s0" "pageBitmapIndex s0 = 0"
    and tot: "fst (GetMemorySize ds (memorySizeBytes s0) mMap (mapSize div descSize) descSize) = tot" "unat tot < 2 ^ 51"
    and seg: "fst (largest_free_segment ds mMap (mapSize div descSize) descSize) = seg" "page_aligned seg"
      "unat seg + unat tot div 32768 + 1 \<le> unat tot"
  shows "allocator_ok s"
proof -
  note L = ReadEFIMemoryMap_locked [OF R assms(2) tot(1) seg(1)]
  note bd = bitmap_bound [of tot]
  have "capacity s = (tot div 4096 div 8 + 1) * 8" by (simp add: capacity_def L(1))
  then have cap: "unat (capacity s) = (unat tot div 32768 + 1) * 8" by (simp only: bd)
  have sz: "unat (Size (PageBitmap s)) = unat tot div 32768 + 1" by (simp add: L(1) bd)
  have "unat tot div 32768 < 2 ^ 36" using tot(2) by simp
  then have c40: "unat (capacity s) \<le> 2 ^ 40" unfolding cap by simp
  have "0 < capacity s" using cap by (simp add: word_less_nat_alt)
  then have z: "page_locked s 0" using L(2) [of 0] by simp
  have "page_locked s i" if bp: "bitmap_page s i" for i
  proof -
    obtain k where k: "k \<le> Size (PageBitmap s)" "i = page_of (seg + k)" using bp by (auto simp: bitmap_page_def L(1))
    have uk: "unat k \<le> unat tot div 32768 + 1" using k(1) sz by (simp add: word_le_nat_alt)
    obtain q where q: "unat seg = 4096 * q" using seg(2) by (auto simp: page_aligned_unat mod_eq_0_iff_dvd)
    have small: "unat seg + unat k < 2 ^ 64" using uk seg(3) tot(2) by simp
    then have ui: "unat i = q + unat k div 4096"
      unfolding k(2) page_of_def using q by (simp add: unat_div unat_add_no_wrap)
    have "4096 * unat i \<le> unat tot" using ui q uk seg(3) by linarith
    then have "unat i \<le> unat tot div 4096" by (simp add: less_eq_div_iff_mult_less_eq mult.commute)
    then have "unat i div 8 \<le> unat tot div 4096 div 8" by (rule div_le_mono)
    then have "unat i div 8 \<le> unat tot div 32768" by (simp add: div_mult2_eq [symmetric])
    then have "8 + unat i div 8 * 8 \<le> (unat tot div 32768 + 1) * 8" by simp
    moreover have "unat i < 8 + unat i div 8 * 8" by (rule dividend_less_div_times) simp
    ultimately have "unat i < (unat tot div 32768 + 1) * 8" by (rule less_le_trans [rotated])
    then have "unat i < unat (capacity s)" unfolding cap .
    then have ic: "i < capacity s" by (simp add: word_less_nat_alt)
    let ?j = "unat k div 4096"
    have "?j < unat (Size (PageBitmap s) div 4096 + 1)"
    proof -
      have "unat (Size (PageBitmap s)) < 2 ^ 50" unfolding sz using tot(2) by simp
      then have "unat (Size (PageBitmap s) div 4096 + 1) = unat (Size (PageBitmap s)) div 4096 + 1"
        by (subst unat_add_no_wrap) (simp_all add: unat_div)
      moreover have "?j \<le> unat (Size (PageBitmap s)) div 4096" using uk sz by (simp add: div_le_mono)
      ultimately show ?thesis by simp
    qed
    moreover have "i = page_of (seg + of_nat ?j * 4096)"
    proof -
      have "unat seg + 4096 * ?j < 2 ^ 64" using small by linarith
      from range_end [OF this] q have "unat (page_of (seg + of_nat ?j * 4096)) = q + ?j"
        by (simp add: page_of_def unat_div)
      with ui show ?thesis by (simp add: word_unat_eq_iff)
    qed
    ultimately show ?thesis using L(2) [OF ic] by blast
  qed
  with ReadEFIMemoryMap_kept(1) [OF R assms(2,3)] z c40 show ?thesis by (simp add: allocator_ok_def)
qed

lemma allocator_ok_lock: "allocator_ok s \<Longrightarrow> allocator_ok (LockPages s a n)"
proof -
  assume "allocator_ok s"
  moreover have bm: "PageBitmap (LockPages s a n) = PageBitmap s" by (simp add: LockPages_claims lock.claims_bitmap)
  moreover have "bitmap_page (LockPages s a n) = bitmap_page s" using bm by (rule bitmap_page_cong)
  ultimately show ?thesis
    by (auto simp: allocator_ok_def capacity_def LockPages_claims lock.claims_low_locked lock.claims_locked)
qed

text \<open>The first table: a fresh page without entries.\<close>

lemma empty_root:
  assumes ok: "allocator_ok s" and ex: "free_pages s \<noteq> {}" and req: "RequestPage s = (s1, root)"
  defines "s2 \<equiv> s1\<lparr>pmem := k_memset (pmem s1) root 0 0x1000\<rparr>"
  shows "paging_ok s2 root" "frame_map (pmem s2) root = (\<lambda>_. None)" "table_paths (pmem s2) root = {}"
    "free_pages s2 = free_pages s - {page_of root}" "page_of root \<in> free_pages s" "root \<noteq> NULL"
proof -
  note F = RequestPage_fresh [OF ok ex req]
  have A: "\<And>i. bitmap_page s i \<Longrightarrow> page_locked s i" "page_locked s 0" "unat (capacity s) \<le> 2 ^ 40"
    using ok by (simp_all add: allocator_ok_def)
  have bp: "bitmap_page s1 = bitmap_page s" "bitmap_page s2 = bitmap_page s"
    by (rule bitmap_page_cong, simp add: F(6) s2_def)+
  have nb: "\<not> bitmap_page s (page_of root)" using F(1) A(1) by (auto simp: free_pages_def)
  have "entry (pmem s2) root i = \<lparr>Value = 0\<rparr>" if "i < 512" for i
    using zeroed_page(2) [OF F(2) that] by (simp add: s2_def)
  then have tab: "indices_ok q \<Longrightarrow> table_at (pmem s2) root q = (if q = [] then Some root else None)" for q
    by (cases q) auto
  then have ist: "is_table (pmem s2) root q t \<longleftrightarrow> q = [] \<and> t = root" for q t
    by (cases "q = []") (auto simp: is_table_def)
  have lck: "page_locked s2 i = page_locked s1 i" for i
    unfolding s2_def using nb bp(1) zeroed_page(1) [OF F(2)] by (intro page_locked_mem_upd) metis
  have cap: "capacity s2 = capacity s" using F(6) by (simp add: capacity_def s2_def)
  have idx: "pageBitmapIndex s2 = pageBitmapIndex s1" "capacity s1 = capacity s"
    using F(6) by (simp_all add: s2_def capacity_def)
  have "low_locked s2" using F(7) unfolding low_locked_def lck cap idx .
  then show "paging_ok s2 root"
    using A nb F(2,5) by (auto simp: paging_ok_def cap lck bp ist table_tree_def)
  show "frame_map (pmem s2) root = (\<lambda>_. None)" using tab by (auto simp: frame_map_def fun_eq_iff)
  show "table_paths (pmem s2) root = {}" by (simp add: table_paths_def ist)
  show "free_pages s2 = free_pages s - {page_of root}" by (auto simp: free_pages_def cap lck F(5))
  show "page_of root \<in> free_pages s" "root \<noteq> NULL" by (rule F)+
qed

subsection \<open>What is mapped\<close>

lemma identity_maps_keeps:
  assumes "unat ptr + 4096 * n \<le> 2 ^ 48" "unat x < 2 ^ 48" "f (va_path x) = Some (frame_of x)"
  shows "identity_maps ptr n f (va_path x) = Some (frame_of x)"
  using assms(1)
proof (induction n)
  case (Suc n)
  let ?a = "ptr + of_nat n * 0x1000"
  have ua: "unat ?a < 2 ^ 48" using Suc.prems by (subst range_end) simp_all
  have "identity_maps ptr (Suc n) f = (identity_maps ptr n f)(va_path ?a := Some (frame_of ?a))"
    by (simp add: identity_maps_def)
  then show ?case
    using Suc frame_of_same_page [of ?a x] va_path_page [OF ua assms(2)] by auto
qed (simp add: assms(3))

lemma identity_maps_in:
  assumes "unat ptr + 4096 * n \<le> 2 ^ 48" "page_aligned ptr" "unat ptr \<le> unat x" "unat x < unat ptr + 4096 * n"
  shows "identity_maps ptr n f (va_path x) = Some (frame_of x)"
  using assms(1,4)
proof (induction n)
  case 0
  with assms(3) show ?case by simp
next
  case (Suc n)
  let ?a = "ptr + of_nat n * 0x1000"
  have ux: "unat x < 2 ^ 48" using Suc.prems by simp
  have ea: "unat ?a = unat ptr + 4096 * n" using Suc.prems by (intro range_end) simp
  then have ua: "unat ?a < 2 ^ 48" using Suc.prems by simp
  have step: "identity_maps ptr (Suc n) f = (identity_maps ptr n f)(va_path ?a := Some (frame_of ?a))"
    by (simp add: identity_maps_def)
  show ?case
  proof (cases "page_of ?a = page_of x")
    case True
    with step show ?thesis using va_path_page [OF ua ux] frame_of_same_page [OF True] by simp
  next
    case False
    obtain q where q: "unat ptr = 4096 * q" using assms(2) by (auto simp: page_aligned_unat mod_eq_0_iff_dvd)
    have "unat x < unat ptr + 4096 * n"
    proof (rule ccontr)
      assume "\<not> ?thesis"
      with Suc.prems(2) q have "unat x div 4096 = q + n" by simp
      moreover have "unat ?a div 4096 = q + n" using ea q by simp
      ultimately have "page_of ?a = page_of x" by (simp add: page_of_def word_unat_eq_iff unat_div)
      with False show False by contradiction
    qed
    then have "identity_maps ptr n f (va_path x) = Some (frame_of x)" using Suc.prems by (intro Suc.IH) simp_all
    with step False show ?thesis using va_path_page [OF ua ux] by auto
  qed
qed

text \<open>
  C5. From a firmware map whose memory fits into the address space and whose largest free segment holds the page
  bitmap, and with enough free pages for one table of each level for each block that memory and
  frame buffer touch, \<open>PrepareMemory\<close> succeeds: the root table is a page of its own, every address of
  memory and of the frame buffer translates to itself and nothing else is mapped, tables, bitmap and
  allocator are consistent, and no page of the kernel is left free.
\<close>

theorem PrepareMemory_identity:
  assumes R: "ReadEFIMemoryMap ds (PageFrameAllocator_new s0) (kb_mMap boot) (kb_mMapSize boot) (kb_mMapDescSize boot) = Inr s1"
    and s0: "\<not> Initialized s0" "pageBitmapIndex s0 = 0" "memorySizeBytes s0 = 0" "kb_mMapDescSize boot \<noteq> 0"
    and tot: "fst (GetMemorySize ds 0 (kb_mMap boot) (kb_mMapSize boot div kb_mMapDescSize boot) (kb_mMapDescSize boot)) = tot"
    and seg: "fst (largest_free_segment ds (kb_mMap boot) (kb_mMapSize boot div kb_mMapDescSize boot) (kb_mMapDescSize boot)) = seg"
      "page_aligned seg" "unat seg + unat tot div 32768 + 1 \<le> unat tot"
    and mem: "start = physAddr (ds (kb_mMap boot))" "page_aligned start" "n = (unat tot + 4095) div 4096"
      "unat start + 4096 * n \<le> 2 ^ 48"
    and fb: "fb = kb_fbBase boot" "page_aligned fb" "fbSize = kb_fbSize boot + 0x1000" "k = (unat fbSize + 4095) div 4096"
      "unat fb + 4096 * k \<le> 2 ^ 48"
    and s2: "s2 = LockPages s1 KernelStart ((KernelEnd - KernelStart) div 4096 + 1)"
    and room: "1 + tables_bound (unat start) n + tables_bound (unat fb) k + unat (fbSize div 0x1000 + 1) \<le> card (free_pages s2)"
  shows "\<exists>root s'. PrepareMemory ds KernelStart KernelEnd boot s0 = Some (Inr (root, s')) \<and> root \<noteq> NULL \<and> paging_ok s' root
    \<and> (\<forall>x. unat start \<le> unat x \<and> unat x < unat start + unat tot \<longrightarrow> WalkMemory (pmem s') root x = frame_of x)
    \<and> (\<forall>x. unat fb \<le> unat x \<and> unat x < unat fb + unat fbSize \<longrightarrow> WalkMemory (pmem s') root x = frame_of x)
    \<and> frame_map (pmem s') root = identity_maps fb k (identity_maps start n (\<lambda>_. None))
    \<and> page_of root \<notin> free_pages s' \<and> free_pages s' \<subseteq> free_pages s2"
proof -
  have "unat tot < 2 ^ 51"
  proof -
    have "unat tot \<le> 4096 * n" unfolding mem(3) by linarith
    also have "\<dots> \<le> 2 ^ 48" using mem(4) by simp
    finally show ?thesis by simp
  qed
  then have a1: "allocator_ok s1"
    using allocator_ok_boot [OF R, of tot seg] s0 tot seg by (simp add: PageFrameAllocator_new_def)
  then have a2: "allocator_ok s2" unfolding s2 by (rule allocator_ok_lock)
  obtain s3 root where req: "RequestPage s2 = (s3, root)" by fastforce
  have ex: "free_pages s2 \<noteq> {}" using room by auto
  let ?s4 = "s3\<lparr>pmem := k_memset (pmem s3) root 0 0x1000\<rparr>"
  note E = empty_root [OF a2 ex req]
  have "memorySizeBytes s1 = tot"
    using ReadEFIMemoryMap_kept(2) [OF R] s0 tot GetMemorySize_again(1) [of ds] 
    by (simp add: PageFrameAllocator_new_def) (metis prod.collapse)
  moreover have "memorySizeBytes s3 = memorySizeBytes s2"
    using req by (cases s2 rule: RequestPage_cases) (auto simp: LockPage_def Let_def case_prod_beta)
  ultimately have ms: "memorySizeBytes ?s4 = tot" by (simp add: s2)
  have again: "GetMemorySize ds tot (kb_mMap boot) (kb_mMapSize boot div kb_mMapDescSize boot) (kb_mMapDescSize boot) = (tot, tot)"
    using GetMemorySize_again(2) tot by (metis prod.collapse)
  let ?s4' = "?s4\<lparr>memorySizeBytes := tot\<rparr>"
  have s4': "?s4' = ?s4" using ms by simp
  let ?P1 = "\<Union> (path_prefixes ` set (range_pages start n))" and ?P2 = "\<Union> (path_prefixes ` set (range_pages fb k))"
  let ?P = "?P1 \<union> ?P2"
  have wrap: "unat start + 4096 * n < 2 ^ 64" "unat fb + 4096 * k < 2 ^ 64" using mem(4) fb(5) by simp_all
  have c12: "card ?P1 \<le> tables_bound (unat start) n" "card ?P2 \<le> tables_bound (unat fb) k"
    by (rule range_tables [OF wrap(1)], rule range_tables [OF wrap(2)])
  have cP: "card ?P + unat (fbSize div 0x1000 + 1) \<le> card (free_pages ?s4)"
  proof -
    have "card (free_pages s2) = Suc (card (free_pages ?s4))"
      unfolding E(4) using E(5) by (intro card.remove) simp_all
    moreover have "card ?P \<le> card ?P1 + card ?P2" by (rule card_Un_le)
    ultimately show ?thesis using c12 room by linarith
  qed
  have fin: "finite ?P" by simp
  then have b4: "budget 0 ?P root ?s4" using cP E(3) by (simp add: budget_def)
  from identity_range_exact [OF E(1) mem(3) wrap(1) b4] obtain s5 where
    s5: "IndentityMapMemory_range ?s4 root start tot = Some s5" "paging_ok s5 root"
      "tables_grow ?P1 root ?s4 s5" "frame_map (pmem s5) root = identity_maps start n (\<lambda>_. None)"
      "keeps_stable root ?s4 s5"
    by (auto simp: E(2) [simplified])
  let ?s6 = "LockPages s5 fb (fbSize div 0x1000 + 1)"
  note L = LockPages_keeps [OF s5(2), of fb "fbSize div 0x1000 + 1"]
  have t5: "table_paths (pmem s5) root = ?P1" "card (free_pages s5) + card ?P1 = card (free_pages ?s4)"
  proof -
    show p: "table_paths (pmem s5) root = ?P1" using s5(3) E(3) by (simp add: tables_grow_def)
    show "card (free_pages s5) + card ?P1 = card (free_pages ?s4)"
      using s5(3) E(3) unfolding tables_grow_def p by simp
  qed
  have b6: "budget 0 ?P root ?s6"
  proof -
    have "card ?P = card ?P1 + card (?P - ?P1)"
      using card_split_union [of ?P ?P1] fin by (simp add: Un_commute Un_left_commute)
    then have "card (?P - ?P1) \<le> card (free_pages ?s6)" using cP t5(2) L by linarith
    then show ?thesis using fin L t5(1) by (simp add: budget_def)
  qed
  from identity_range_exact [OF _ fb(4) wrap(2) b6] L obtain s7 where
    s7: "IndentityMapMemory_range ?s6 root fb fbSize = Some s7" "paging_ok s7 root"
      "frame_map (pmem s7) root = identity_maps fb k (identity_maps start n (\<lambda>_. None))"
      "tables_grow ?P2 root ?s6 s7"
    by (auto simp: s5(4))
  have "PrepareMemory ds KernelStart KernelEnd boot s0 = Some (Inr (root, s7))"
    using R s0(4) E(6) s5(1) s7(1)
    by (simp add: PrepareMemory_def Let_def s2 [symmetric] req ms [simplified] again s4' [simplified ms, simplified]
        mem(1) [symmetric] fb(1,3) [symmetric])
  moreover have walk: "WalkMemory (pmem s7) root x = frame_of x"
    if "unat start \<le> unat x" "unat x < unat start + unat tot" for x
  proof -
    have "unat tot \<le> 4096 * n" unfolding mem(3) by linarith
    then have x: "unat x < unat start + 4096 * n" "unat x < 2 ^ 48" using that(2) mem(4) by simp_all
    have "frame_map (pmem s7) root (va_path x) = Some (frame_of x)"
      unfolding s7(3) using identity_maps_in [OF mem(4,2) that(1) x(1)] by (rule identity_maps_keeps [OF fb(5) x(2)])
    then show ?thesis by (rule WalkMemory_frame_map)
  qed
  moreover have "WalkMemory (pmem s7) root x = frame_of x"
    if "unat fb \<le> unat x" "unat x < unat fb + unat fbSize" for x
  proof -
    have "unat fbSize \<le> 4096 * k" unfolding fb(4) by linarith
    then have "unat x < unat fb + 4096 * k" using that(2) by simp
    then have "frame_map (pmem s7) root (va_path x) = Some (frame_of x)"
      unfolding s7(3) by (rule identity_maps_in [OF fb(5,2) that(1)])
    then show ?thesis by (rule WalkMemory_frame_map)
  qed
  moreover have sub: "free_pages s7 \<subseteq> free_pages ?s4"
    using s7(4) s5(3) L by (auto simp: tables_grow_def)
  then have "page_of root \<notin> free_pages s7" "free_pages s7 \<subseteq> free_pages s2" unfolding E(4) by blast+
  ultimately show ?thesis using E(6) s7(2,3) by blast
qed

subsection \<open>Frames behind the heap\<close>

text \<open>Pages from an address on, each on a frame of its own that nothing else uses.\<close>

definition backed :: "u64 \<Rightarrow> PageFrameAllocator \<Rightarrow> u64 \<Rightarrow> nat \<Rightarrow> bool" where
  "backed root s a n \<longleftrightarrow> (\<exists>fs. length fs = n \<and> distinct (map page_of fs)
     \<and> (\<forall>f \<in> set fs. stable_page s root (page_of f))
     \<and> (\<forall>k < n. frame_map (pmem s) root (va_path (a + of_nat k * 0x1000)) = Some (fs ! k)))"

lemma RequestPage_keeps:
  assumes ok: "paging_ok s root" and ex: "free_pages s \<noteq> {}" and req: "RequestPage s = (s1, f)"
  shows "paging_ok s1 root" "frame_map (pmem s1) root = frame_map (pmem s) root"
    "table_paths (pmem s1) root = table_paths (pmem s) root" "keeps_stable root s s1"
    "free_pages s1 = free_pages s - {page_of f}" "stable_page s1 root (page_of f)"
    "page_of f \<in> free_pages s" "frame_of f = f" "f \<noteq> NULL"
proof -
  have al: "allocator_ok s" using ok by (simp add: paging_ok_split)
  note F = RequestPage_fresh [OF al ex req]
  note D = paging_okD [OF ok]
  from req F(4) obtain i where i: "s1 = LockPage (s\<lparr>pageBitmapIndex := i\<rparr>) (i * 4096)" "f = i * 4096"
    "\<forall>j. pageBitmapIndex s \<le> j \<and> j < capacity s \<and> j < i \<longrightarrow> page_locked s j"
    by (cases s rule: RequestPage_cases) auto
  let ?s = "s\<lparr>pageBitmapIndex := i\<rparr>"
  have low: "low_locked ?s" by (rule low_locked_index_upd [OF D(1) i(3)])
  have bp: "bitmap_page ?s = bitmap_page s" by (rule bitmap_page_cong) simp
  have "paging_ok ?s root" using ok low by (simp add: paging_ok_def bp)
  note L = LockPage_keeps [OF this, of "i * 4096", folded i(1)]
  have fp: "free_pages ?s = free_pages s" by (simp add: free_pages_def)
  have "keeps_stable root s ?s" by (simp add: keeps_stable_def stable_page_def fp bp)
  with L(4) show "keeps_stable root s s1" by (blast intro: keeps_stable_trans)
  show "paging_ok s1 root" "frame_map (pmem s1) root = frame_map (pmem s) root"
    "table_paths (pmem s1) root = table_paths (pmem s) root" using L by simp_all
  show fr: "free_pages s1 = free_pages s - {page_of f}" using L(6) fp i(2) by simp
  show "page_of f \<in> free_pages s" "frame_of f = f" "f \<noteq> NULL" by (rule F)+
  have "bitmap_page s1 = bitmap_page s" using F(6) by (rule bitmap_page_cong)
  moreover have nl: "\<not> page_locked s (page_of f)" using F(1) by (simp add: free_pages_def)
  moreover have "page_of t \<noteq> page_of f" if "is_table (pmem s) root p t" for p t
    using D(6) [OF that] nl by metis
  ultimately show "stable_page s1 root (page_of f)"
    using fr L(7) D(4) by (auto simp: stable_page_def)
qed

text \<open>One more page: the frame is new, so it differs from all that are in use.\<close>

lemma heap_grow_step:
  assumes ok: "paging_ok s root" and b: "budget (Suc d) P root s" "path_prefixes pos \<subseteq> P"
  shows "\<exists>s' f. heap_grow root s pos = (s', True) \<and> paging_ok s' root \<and> budget d P root s'
    \<and> keeps_stable root s s' \<and> page_of f \<in> free_pages s \<and> stable_page s' root (page_of f)
    \<and> frame_map (pmem s') root = (frame_map (pmem s) root)(va_path pos := Some f)"
proof -
  have ex: "free_pages s \<noteq> {}" using b(1) by (auto simp: budget_def)
  obtain s1 f where req: "RequestPage s = (s1, f)" by fastforce
  note R = RequestPage_keeps [OF ok ex req]
  have "card (free_pages s) = Suc (card (free_pages s1))"
    unfolding R(5) using R(7) by (intro card.remove) simp_all
  then have b1: "budget d P root s1" using b(1) R(3) by (simp add: budget_def)
  obtain s2 r where map: "MapMemory s1 root pos f = (s2, r)" by fastforce
  note M = MapMemory_exact [OF R(1) b1 b(2) map]
  have "stable_page s2 root (page_of f)" using M(3) R(6) by (auto simp: keeps_stable_def)
  moreover have "keeps_stable root s s2" using R(4) M(3) by (rule keeps_stable_trans)
  moreover have "heap_grow root s pos = (s2, True)" using R(9) by (simp add: heap_grow_def req map)
  ultimately show ?thesis using M R(2,7,8) by auto
qed

lemma backed_Suc:
  assumes a: "unat a + 4096 * Suc n \<le> 2 ^ 48" "page_aligned a" and old: "backed root s a n"
    and s': "keeps_stable root s s'" "page_of f \<in> free_pages s" "stable_page s' root (page_of f)"
      "frame_map (pmem s') root = (frame_map (pmem s) root)(va_path (a + of_nat n * 0x1000) := Some f)"
  shows "backed root s' a (Suc n)"
proof -
  from old obtain fs where fs: "length fs = n" "distinct (map page_of fs)"
    "\<forall>f \<in> set fs. stable_page s root (page_of f)"
    "\<forall>k < n. frame_map (pmem s) root (va_path (a + of_nat k * 0x1000)) = Some (fs ! k)"
    by (auto simp: backed_def)
  have u: "unat (a + of_nat k * 0x1000) = unat a + 4096 * k" if "k \<le> n" for k
    using that a(1) by (intro range_end) simp
  obtain q where q: "unat a = 4096 * q" using a(2) by (auto simp: page_aligned_unat mod_eq_0_iff_dvd)
  have p: "unat (page_of (a + of_nat k * 0x1000)) = q + k" if "k \<le> n" for k
    using u [OF that] q by (simp add: page_of_def unat_div)
  have ne: "va_path (a + of_nat k * 0x1000) \<noteq> va_path (a + of_nat n * 0x1000)" if "k < n" for k
  proof -
    have "page_of (a + of_nat k * 0x1000) \<noteq> page_of (a + of_nat n * 0x1000)"
      using p [of k] p [of n] that by auto
    then show ?thesis using u [of k] u [of n] a(1) that by (subst va_path_page) simp_all
  qed
  have new: "page_of f \<notin> set (map page_of fs)" using fs(3) s'(2) by (auto simp: stable_page_def)
  have "frame_map (pmem s') root (va_path (a + of_nat k * 0x1000)) = Some ((fs @ [f]) ! k)" if "k < Suc n" for k
    using that fs(1,4) ne s'(4) by (cases "k = n") (simp_all add: nth_append)
  moreover have "\<forall>g \<in> set (fs @ [f]). stable_page s' root (page_of g)"
    using fs(3) s'(1,3) by (auto simp: keeps_stable_def)
  moreover have "length (fs @ [f]) = Suc n" "distinct (map page_of (fs @ [f]))" using fs(1,2) new by simp_all
  ultimately show ?thesis unfolding backed_def by blast
qed

lemma create_pages_backed:
  assumes "paging_ok (backing h) root" "budget (d + n) P root (backing h)" "backed root (backing h) a m"
    and "\<forall>k < m + n. path_prefixes (a + of_nat k * 0x1000) \<subseteq> P"
    and "unat a + 4096 * (m + n) \<le> 2 ^ 48" "page_aligned a"
  shows "\<exists>h'. create_pages (heap_grow root) n (a + of_nat m * 0x1000) h = Inr h' \<and> paging_ok (backing h') root
    \<and> budget d P root (backing h') \<and> backed root (backing h') a (m + n) \<and> keeps_stable root (backing h) (backing h')"
  using assms
proof (induction n arbitrary: h m)
  case 0
  then show ?case by simp
next
  case (Suc n)
  have "budget (Suc (d + n)) P root (backing h)" using Suc.prems(2) by simp
  moreover have "path_prefixes (a + of_nat m * 0x1000) \<subseteq> P" using Suc.prems(4) by simp
  ultimately obtain s' f where g: "heap_grow root (backing h) (a + of_nat m * 0x1000) = (s', True)"
    "paging_ok s' root" "budget (d + n) P root s'" "keeps_stable root (backing h) s'"
    "page_of f \<in> free_pages (backing h)" "stable_page s' root (page_of f)"
    "frame_map (pmem s') root = (frame_map (pmem (backing h)) root)(va_path (a + of_nat m * 0x1000) := Some f)"
    using heap_grow_step [OF Suc.prems(1)] by blast
  have "unat a + 4096 * Suc m \<le> 2 ^ 48" using Suc.prems(5) by simp
  then have bk: "backed root s' a (Suc m)"
    using Suc.prems(3,6) g(4-7) by (intro backed_Suc)
  let ?h = "h\<lparr>backing := s', usedPages := usedPages h + 1\<rparr>"
  have pos: "a + of_nat (Suc m) * 0x1000 = a + of_nat m * 0x1000 + 0x1000" by (simp add: algebra_simps)
  have "\<exists>h'. create_pages (heap_grow root) n (a + of_nat (Suc m) * 0x1000) ?h = Inr h' \<and> paging_ok (backing h') root
    \<and> budget d P root (backing h') \<and> backed root (backing h') a (Suc m + n) \<and> keeps_stable root (backing ?h) (backing h')"
    using Suc.prems(4-6) g(2,3) bk by (intro Suc.IH) simp_all
  then obtain h' where "create_pages (heap_grow root) n (a + of_nat (Suc m) * 0x1000) ?h = Inr h'" "paging_ok (backing h') root"
    "budget d P root (backing h')" "backed root (backing h') a (Suc m + n)" "keeps_stable root s' (backing h')" by auto
  with g(1,4) show ?case
    unfolding pos by (auto intro: keeps_stable_trans)
qed

text \<open>
  C8. Creating the heap on prepared page tables succeeds when the free pages suffice for its pages
  and their tables: the heap is one free segment over the whole range, its pages are mapped to
  pairwise different frames that are neither free nor tables nor part of the bitmap, tables and
  allocator stay consistent, and all other memory in use keeps its contents.
\<close>

theorem CreateHeap_backed:
  assumes h: "heapStart h = NULL" "paging_ok (backing h) root"
    and a: "a \<noteq> NULL" "page_aligned a" "0 < unat n" "unat a + 4096 * unat n \<le> 2 ^ 48"
    and room: "unat n + tables_bound (unat a) (unat n) \<le> card (free_pages (backing h))"
  shows "\<exists>h'. CreateHeap (heap_grow root) h a n = Inr h' \<and> heap_rep h' [(a, n * 0x1000 - 32, True)]
    \<and> backed root (backing h') a (unat n) \<and> paging_ok (backing h') root
    \<and> keeps_stable root (backing h) (backing h')"
proof -
  let ?P = "\<Union> (path_prefixes ` set (range_pages a (unat n)))"
  have wrap: "unat a + 4096 * unat n < 2 ^ 64" using a(4) by simp
  have "card (?P - table_paths (pmem (backing h)) root) \<le> card ?P" by (intro card_mono) auto
  also note range_tables [OF wrap]
  finally have b: "budget (0 + unat n) ?P root (backing h)" using room by (simp add: budget_def)
  have pre: "\<forall>k < 0 + unat n. path_prefixes (a + of_nat k * 0x1000) \<subseteq> ?P" by (auto simp: range_pages_def)
  have z: "backed root (backing h) a 0" by (simp add: backed_def)
  have len: "unat a + 4096 * (0 + unat n) \<le> 2 ^ 48" using a(4) by simp
  from create_pages_backed [OF h(2) b z pre len a(2)] obtain h1 where
    h1: "create_pages (heap_grow root) (unat n) a h = Inr h1" "paging_ok (backing h1) root"
      "backed root (backing h1) a (unat n)" "keeps_stable root (backing h) (backing h1)" by auto
  obtain h' where h': "CreateHeap (heap_grow root) h a n = Inr h'" "backing h' = backing h1"
    using h(1) h1(1) by (simp add: CreateHeap_def Let_def)
  have "unat a + unat n * 4096 < 2 ^ 64" using wrap by (simp add: mult.commute)
  from CreateHeap_rep(1) [OF h'(1) a(1,3) this] h' h1 show ?thesis by auto
qed

subsection \<open>An example machine\<close>

text \<open>
  The machine of the example map, with the kernel in 17 pages from 0x110000 on and a small frame
  buffer behind the memory.
\<close>

definition example_boot :: KBootInfo where
  "example_boot = \<lparr>kb_fbBase = 0x80000000, kb_fbSize = 0x1000, kb_mMap = 0x1000, kb_mMapSize = 0x90,
     kb_mMapDescSize = 0x30\<rparr>"

lemma example_conventional:
  assumes "0x100 \<le> k" "k < 0x260"
  shows "conventional_page example_map 0x1000 3 0x30 (of_nat k)"
proof -
  let ?d = "example_map (0x1000 + of_nat 1 * 0x30)"
  have "of_nat (4096 * k) = (of_nat k * 4096 :: u64)" by (simp only: of_nat_mult) simp
  moreover have "unat (of_nat (4096 * k) :: u64) = 4096 * k" using assms by (intro unat_of_nat_small) simp
  moreover have "unat (of_nat k :: u64) = k" using assms by (intro unat_of_nat_small) simp
  ultimately have "page_of (of_nat k * 4096 :: u64) = of_nat k" by (simp add: page_of_def word_unat_eq_iff unat_div)
  moreover have "0x100000 + of_nat (k - 0x100) * 4096 = (of_nat k * 4096 :: u64)"
    using assms(1) by (simp add: of_nat_diff left_diff_distrib)
  moreover have d: "physAddr ?d = 0x100000" "numPages ?d = 352" "conventional example_map (0x1000 + of_nat 1 * 0x30)"
    by (simp_all add: example_map_def conventional_def)
  ultimately have "of_nat k = page_of (physAddr ?d + of_nat (k - 0x100) * 4096)" by simp
  moreover have "k - 0x100 < unat (numPages ?d)" using assms d(2) by simp
  ultimately have "\<exists>j < unat (numPages ?d). of_nat k = page_of (physAddr ?d + of_nat j * 4096)" by blast
  moreover have "1 < unat (3 :: u64)" by simp
  ultimately show ?thesis unfolding conventional_page_def Let_def using d(3) by blast
qed

lemma example_free:
  "11 \<le> card (free_pages (LockPages example_allocator 0x110000 17))"
proof -
  let ?s = "LockPages example_allocator 0x110000 17"
  let ?F = "(\<lambda>k. of_nat k :: u64) ` {0x130..<0x13B}"
  have u: "unat (of_nat k :: u64) = k" if "k < 4096" for k using that by (simp add: unat_of_nat_small)
  have inj: "inj_on (\<lambda>k. of_nat k :: u64) {0x130..<0x13B}"
    by (rule inj_on_inverseI [where g = unat]) (simp add: u)
  have "?F \<subseteq> free_pages ?s"
  proof
    fix x assume "x \<in> ?F"
    then obtain k where k: "x = of_nat k" "0x130 \<le> k" "k < 0x13B" by auto
    have ux: "unat x = k" using u [of k] k by simp
    have "\<not> page_locked example_allocator x"
      using example_locked [of x] example_conventional [of k] k ux
      by (auto simp: word_less_nat_alt word_le_nat_alt word_unat_eq_iff)
    moreover have "x \<noteq> page_of (0x110000 + of_nat j * 4096)" if "j < 17" for j
    proof -
      have "unat (0x110000 + of_nat j * 0x1000 :: u64) = 0x110000 + 4096 * j"
        using range_end [of "0x110000" j] that by simp
      then have "unat (page_of (0x110000 + of_nat j * 4096)) = 0x110 + j" by (simp add: page_of_def unat_div)
      then show ?thesis using ux k(2) that by auto
    qed
    ultimately have "\<not> page_locked ?s x" by (simp add: LockPages_claims lock.claims_locked)
    moreover have "x < capacity ?s"
      using k ux by (simp add: capacity_def LockPages_claims lock.claims_bitmap example_bitmap word_less_nat_alt)
    ultimately show "x \<in> free_pages ?s" by (simp add: free_pages_def)
  qed
  from card_mono [OF finite_free_pages this] inj show ?thesis by (simp add: card_image)
qed

theorem PrepareMemory_identity_witness:
  "\<exists>root s'. PrepareMemory example_map 0x110000 0x120000 example_boot boot_allocator = Some (Inr (root, s'))
    \<and> paging_ok s' root \<and> WalkMemory (pmem s') root 0x123456 = 0x123000"
proof -
  have new: "PageFrameAllocator_new boot_allocator = boot_allocator"
    by (simp add: PageFrameAllocator_new_def boot_allocator_def)
  have f: "frame_of 0x123456 = 0x123000" unfolding frame_of_def by code_simp
  have R: "ReadEFIMemoryMap example_map (PageFrameAllocator_new boot_allocator) (kb_mMap example_boot)
      (kb_mMapSize example_boot) (kb_mMapDescSize example_boot) = Inr example_allocator"
    by (simp add: new example_boot_def example_reads)
  have s0: "\<not> Initialized boot_allocator" "pageBitmapIndex boot_allocator = 0" "memorySizeBytes boot_allocator = 0"
      "kb_mMapDescSize example_boot \<noteq> 0" by (simp_all add: boot_allocator_def example_boot_def)
  have tot: "fst (GetMemorySize example_map 0 (kb_mMap example_boot)
      (kb_mMapSize example_boot div kb_mMapDescSize example_boot) (kb_mMapDescSize example_boot)) = 2490368"
    and seg: "fst (largest_free_segment example_map (kb_mMap example_boot)
      (kb_mMapSize example_boot div kb_mMapDescSize example_boot) (kb_mMapDescSize example_boot)) = 0x100000"
    by (simp_all add: example_boot_def example_map_size example_map_segment)
  have st: "0 = physAddr (example_map (kb_mMap example_boot))" by (simp add: example_boot_def example_map_def)
  have fb: "0x80000000 = kb_fbBase example_boot" "0x2000 = kb_fbSize example_boot + 0x1000"
    by (simp_all add: example_boot_def)
  have s2: "LockPages example_allocator 0x110000 17
      = LockPages example_allocator 0x110000 ((0x120000 - 0x110000) div 4096 + 1)" by simp
  have n: "608 = (unat (2490368 :: u64) + 4095) div 4096" "2 = (unat (0x2000 :: u64) + 4095) div 4096" by simp_all
  have room: "1 + tables_bound (unat (0 :: u64)) 608 + tables_bound (unat (0x80000000 :: u64)) 2
      + unat ((0x2000 :: u64) div 0x1000 + 1) \<le> card (free_pages (LockPages example_allocator 0x110000 17))"
    using example_free by (simp add: tables_bound_def)
  from PrepareMemory_identity [OF R s0 tot seg _ _ st _ n(1) _ fb(1) _ fb(2) n(2) _ s2 room]
  show ?thesis using f by (auto simp: page_aligned_def)
qed

text \<open>The heap of the kernel: 16 pages at 0x100000000000.\<close>

definition cold_kernel_heap :: "PageFrameAllocator heap" where
  "cold_kernel_heap = \<lparr>heapStart = NULL, heapEnd = NULL, LastHdr = NULL, usedPages = 0, start_page_count = 0,
     hdrs = (\<lambda>_. \<lparr>seg_length = 0, seg_next = NULL, seg_last = NULL, seg_free = False\<rparr>),
     backing = machine (poke 0x3000 [0xFF] (\<lambda>_. 0))\<rparr>"

theorem CreateHeap_backed_witness:
  "\<exists>h'. CreateHeap (heap_grow 0x1000) cold_kernel_heap 0x0000100000000000 0x10 = Inr h'
    \<and> heap_rep h' [(0x0000100000000000, 0xFFE0, True)] \<and> backed 0x1000 (backing h') 0x0000100000000000 16"
proof -
  have m: "machine_memory (poke 0x3000 [0xFF] (\<lambda>_. 0))" by (auto simp: machine_memory_def page_of_def)
  have h: "heapStart cold_kernel_heap = NULL" "paging_ok (backing cold_kernel_heap) 0x1000"
    using machine_paging_ok [OF m] by (simp_all add: cold_kernel_heap_def del: poke.simps)
  have room: "unat (0x10 :: u64) + tables_bound (unat (0x0000100000000000 :: u64)) (unat (0x10 :: u64))
      \<le> card (free_pages (backing cold_kernel_heap))"
    using machine_free_pages [OF m] by (simp add: cold_kernel_heap_def tables_bound_def del: poke.simps)
  from CreateHeap_backed [OF h _ _ _ _ room] show ?thesis by (auto simp: page_aligned_def)
qed

end
