(* ===== verification/Renderer.thy ===== *)
theory Renderer
  imports KernelLib
begin

section \<open>The text renderer (kernel/src/renderer)\<close>

text \<open>
  The frame buffer renderer: pixels, characters of a bitmap font, scrolling and the overlay of
  the mouse cursor. The frame buffer memory is a map from pixel numbers to colours; coordinates
  of type \<open>long\<close> are integers (they stay far below 64 bits), all others words of their width. A
  NULL frame buffer or font is \<open>None\<close>; code that follows the pointer without a test is \<open>the\<close>.
\<close>

subsection \<open>Colours\<close>

record Color =
  col_r :: u8
  col_g :: u8
  col_b :: u8

definition rgb :: "u8 \<Rightarrow> u8 \<Rightarrow> u8 \<Rightarrow> Color" where
  "rgb r g b = \<lparr>col_r = r, col_g = g, col_b = b\<rparr>"

definition fromColor :: "Color \<Rightarrow> u32" where
  "fromColor c = push_bit 16 (ucast (col_r c) AND 0xff) + push_bit 8 (ucast (col_g c) AND 0xff)
     + (ucast (col_b c) AND 0xff)"

definition CURSOR_COLOR :: Color where "CURSOR_COLOR = rgb 240 240 240"
definition BACKGROUND_COLOR :: Color where "BACKGROUND_COLOR = rgb 5 0 40"
definition BR_WHITE :: Color where "BR_WHITE = rgb 255 255 255"
definition BR_BLACK :: Color where "BR_BLACK = rgb 0 0 0"
definition BR_GRAY :: Color where "BR_GRAY = rgb 200 200 200"
definition BR_DARK_GRAY :: Color where "BR_DARK_GRAY = rgb 100 100 100"
definition BR_RED :: Color where "BR_RED = rgb 255 0 0"
definition BR_DARK_RED :: Color where "BR_DARK_RED = rgb 127 0 0"
definition BR_GREEN :: Color where "BR_GREEN = rgb 0 255 0"
definition BR_DARK_GREEN :: Color where "BR_DARK_GREEN = rgb 0 127 0"
definition BR_BLUE :: Color where "BR_BLUE = rgb 0 0 255"
definition BR_DARK_BLUE :: Color where "BR_DARK_BLUE = rgb 0 0 127"
definition BR_CYAN :: Color where "BR_CYAN = rgb 0 255 255"
definition BR_DARK_CYAN :: Color where "BR_DARK_CYAN = rgb 0 127 127"
definition BR_YELLOW :: Color where "BR_YELLOW = rgb 255 255 0"
definition BR_DARK_YELLOW :: Color where "BR_DARK_YELLOW = rgb 127 127 0"
definition BR_PURPLE :: Color where "BR_PURPLE = rgb 255 0 255"
definition BR_DARK_PURPLE :: Color where "BR_DARK_PURPLE = rgb 127 0 127"

subsection \<open>State\<close>

record KFrameBuffer =
  kfb_BaseAddress :: u64
  kfb_BufferSize :: u64
  kfb_Width :: u32
  kfb_Height :: u32
  kfb_PixelsPerScanline :: u32

record Renderer =
  fontWidth :: u32
  fontHeight :: u32
  font :: "u64 option"
  frameBuffer :: "KFrameBuffer option"
  xGridMax :: u32
  yGridMax :: u32
  mouseCursorBuffer :: "nat \<Rightarrow> u32"
  mouseCursorBufferAfter :: "nat \<Rightarrow> u32"
  MouseDrawn :: bool
  baseXOff :: u32
  textX :: int
  textY :: int
  color :: Color
  clearColor :: Color
  vram :: "u64 \<Rightarrow> u32"

abbreviation (input) fb :: "Renderer \<Rightarrow> KFrameBuffer" where
  "fb r \<equiv> the (frameBuffer r)"

text \<open>The pixel number of a coordinate: 32-bit arithmetic.\<close>

definition pix_index :: "KFrameBuffer \<Rightarrow> u32 \<Rightarrow> u32 \<Rightarrow> u64" where
  "pix_index f x y = ucast (x + y * kfb_PixelsPerScanline f)"

subsection \<open>Getters and setters\<close>

definition GetCursorX :: "Renderer \<Rightarrow> u32" where "GetCursorX r = word_of_int (textX r)"
definition GetCursorY :: "Renderer \<Rightarrow> u32" where "GetCursorY r = word_of_int (textY r)"
definition GetHeight :: "Renderer \<Rightarrow> u64" where "GetHeight r = ucast (kfb_Height (fb r))"
definition GetWidth :: "Renderer \<Rightarrow> u64" where "GetWidth r = ucast (kfb_Width (fb r))"
definition GetColor :: "Renderer \<Rightarrow> Color" where "GetColor r = color r"
definition GetBackColor :: "Renderer \<Rightarrow> Color" where "GetBackColor r = clearColor r"
definition GetFramebuffer :: "Renderer \<Rightarrow> KFrameBuffer" where "GetFramebuffer r = fb r"

definition GetPix :: "Renderer \<Rightarrow> u32 \<Rightarrow> u32 \<Rightarrow> u32" where
  "GetPix r x y =
     (if x > kfb_Width (fb r) \<or> y > kfb_Height (fb r) then fromColor BR_BLACK
      else vram r (pix_index (fb r) x y))"

definition GetGrid :: "Renderer \<Rightarrow> int \<times> int" where
  "GetGrid r = (uint (xGridMax r), uint (yGridMax r))"

definition SetPix :: "Renderer \<Rightarrow> u32 \<Rightarrow> u32 \<Rightarrow> u32 \<Rightarrow> Renderer" where
  "SetPix r x y c =
     (if x \<ge> kfb_Width (fb r) \<or> y \<ge> kfb_Height (fb r) then r
      else r\<lparr>vram := (vram r)(pix_index (fb r) x y := c)\<rparr>)"

definition SetPix_long :: "Renderer \<Rightarrow> int \<Rightarrow> int \<Rightarrow> u32 \<Rightarrow> Renderer" where
  "SetPix_long r x y c = (if x < 0 \<or> y < 0 then r else SetPix r (word_of_int x) (word_of_int y) c)"

definition SetPix_color :: "Renderer \<Rightarrow> u32 \<Rightarrow> u32 \<Rightarrow> Color \<Rightarrow> Renderer" where
  "SetPix_color r x y c = SetPix r x y (fromColor c)"

definition SetFont :: "Renderer \<Rightarrow> u64 option \<Rightarrow> u32 \<Rightarrow> u32 \<Rightarrow> Renderer" where
  "SetFont r new_font new_width new_height =
     (if new_font = None then r
      else if new_width > kfb_Width (fb r) \<or> new_height > kfb_Height (fb r) then r
      else let r1 = r\<lparr>font := new_font, fontWidth := new_width, fontHeight := new_height\<rparr> in
        if frameBuffer r1 \<noteq> None
        then r1\<lparr>xGridMax := kfb_Width (fb r1) div fontWidth r1,
                yGridMax := kfb_Height (fb r1) div fontHeight r1\<rparr>
        else r1)"

definition SetColor :: "Renderer \<Rightarrow> Color \<Rightarrow> Renderer" where
  "SetColor r c = r\<lparr>color := c\<rparr>"

definition SetBackColor :: "Renderer \<Rightarrow> Color \<Rightarrow> Renderer" where
  "SetBackColor r c = r\<lparr>clearColor := c\<rparr>"

definition SetFramebuffer :: "Renderer \<Rightarrow> KFrameBuffer option \<Rightarrow> Renderer" where
  "SetFramebuffer r new_fb =
     (if new_fb = None then r
      else let r1 = r\<lparr>frameBuffer := new_fb\<rparr> in
        if font r1 \<noteq> None
        then r1\<lparr>xGridMax := kfb_Width (fb r1) div fontWidth r1,
                yGridMax := kfb_Height (fb r1) div fontHeight r1\<rparr>
        else r1)"

definition SetCursor :: "Renderer \<Rightarrow> u32 \<Rightarrow> u32 \<Rightarrow> Renderer" where
  "SetCursor r x y =
     (if x \<ge> xGridMax r \<or> y \<ge> yGridMax r then r
      else r\<lparr>textX := uint x, textY := uint y, baseXOff := x\<rparr>)"

definition SetCursor_point :: "Renderer \<Rightarrow> int \<Rightarrow> int \<Rightarrow> Renderer" where
  "SetCursor_point r X Y = SetCursor r (word_of_int X) (word_of_int Y)"

definition InitGlobalBasicRenderer ::
  "Renderer \<Rightarrow> KFrameBuffer option \<Rightarrow> int \<Rightarrow> int \<Rightarrow> u64 option \<Rightarrow> u32 \<Rightarrow> u32 \<Rightarrow> Color \<Rightarrow> Color \<Rightarrow> Renderer" where
  "InitGlobalBasicRenderer g new_fb X Y new_font w h front back =
     SetCursor_point (SetBackColor (SetColor (SetFont (SetFramebuffer g new_fb) new_font w h) front) back) X Y"

text \<open>The constructor, on an object whose fields have not been set yet.\<close>

definition Renderer_new ::
  "Renderer \<Rightarrow> KFrameBuffer option \<Rightarrow> int \<Rightarrow> int \<Rightarrow> u64 option \<Rightarrow> u32 \<Rightarrow> u32 \<Rightarrow> Color \<Rightarrow> Color \<Rightarrow> Renderer" where
  "Renderer_new g new_fb X Y new_font w h front back =
     SetCursor_point (SetBackColor (SetColor (SetFont (SetFramebuffer g new_fb) new_font w h) front) back) X Y"

subsection \<open>Drawing\<close>

definition ClearScreen_color :: "Renderer \<Rightarrow> Color \<Rightarrow> Renderer" where
  "ClearScreen_color r c =
     (if frameBuffer r = None then r
      else fold (\<lambda>x r. fold (\<lambda>y r. SetPix_color r (of_nat x) (of_nat y) c)
                         [0..<unat (kfb_Height (fb r))] r)
             [0..<unat (kfb_Width (fb r))] r)"

definition ClearScreen :: "Renderer \<Rightarrow> Renderer" where
  "ClearScreen r = ClearScreen_color r (clearColor r)"

text \<open>One row back from the first column, as \<open>ClearChar\<close> does it twice.\<close>

definition row_back :: "Renderer \<Rightarrow> Renderer" where
  "row_back r = (let Y = textY r - 1 in
     r\<lparr>textX := uint (xGridMax r), textY := (if Y < 0 then 0 else Y)\<rparr>)"

definition ClearChar :: "Renderer \<Rightarrow> Renderer" where
  "ClearChar r =
     (if font r = None \<or> frameBuffer r = None then r
      else let r1 = (if textX r \<le> uint (baseXOff r) then row_back r else r);
               xOff = word_of_int (textX r1) * fontWidth r1 :: u32;
               yOff = word_of_int (textY r1) * fontHeight r1 :: u32;
               r2 = fold (\<lambda>y r. fold (\<lambda>x r. SetPix_color r (of_nat x) (of_nat y) (clearColor r))
                                 [unat (xOff - fontWidth r1)..<unat xOff] r)
                      [unat yOff..<unat (yOff + fontHeight r1)] r1;
               r3 = r2\<lparr>textX := textX r2 - 1\<rparr>
           in if textX r3 < uint (baseXOff r3) then row_back r3 else r3)"

definition Scroll :: "Renderer \<Rightarrow> Renderer" where
  "Scroll r =
     (if frameBuffer r = None \<or> font r = None then r
      else let rowSize = ucast (kfb_PixelsPerScanline (fb r) * fontHeight r) :: u64;
               screenSize = rowSize * ucast (yGridMax r);
               v1 = for_upto (screenSize - rowSize) (\<lambda>i v. v(i := v (i + rowSize))) (vram r);
               v2 = for_upto rowSize (\<lambda>j v. v(screenSize - rowSize + j := fromColor (clearColor r))) v1
           in r\<lparr>textY := textY r - 1, vram := v2\<rparr>)"

lemma Scroll_textY: "frameBuffer r \<noteq> None \<Longrightarrow> font r \<noteq> None \<Longrightarrow> textY (Scroll r) = textY r - 1"
  by (simp add: Scroll_def Let_def)

lemma Scroll_grid [simp]:
  "yGridMax (Scroll r) = yGridMax r" "xGridMax (Scroll r) = xGridMax r" "textX (Scroll r) = textX r"
  "baseXOff (Scroll r) = baseXOff r" "frameBuffer (Scroll r) = frameBuffer r" "font (Scroll r) = font r"
  by (simp_all add: Scroll_def Let_def)

text \<open>The loop at the end of \<open>PutChar\<close>, which has tested both pointers.\<close>

function scroll_loop :: "Renderer \<Rightarrow> Renderer" where
  "scroll_loop r =
     (if frameBuffer r \<noteq> None \<and> font r \<noteq> None \<and> textY r \<ge> uint (yGridMax r)
      then scroll_loop (Scroll r) else r)"
  by pat_completeness auto
termination
  by (relation "measure (\<lambda>r. nat (textY r - uint (yGridMax r) + 1))") (auto simp: Scroll_textY)

declare scroll_loop.simps [simp del]

definition newline :: "Renderer \<Rightarrow> Renderer" where
  "newline r = r\<lparr>textY := textY r + 1, textX := uint (baseXOff r)\<rparr>"

text \<open>The pixels of a character: row \<open>j\<close> of the glyph, column \<open>k\<close>.\<close>

definition draw_glyph :: "mem \<Rightarrow> Renderer \<Rightarrow> u8 \<Rightarrow> Renderer" where
  "draw_glyph m r chr =
     (let x0 = textX r * uint (fontWidth r); y0 = textY r * uint (fontHeight r);
          fontPtr = the (font r) + ucast (scast chr * fontHeight r :: u32)
      in fold (\<lambda>j r. fold (\<lambda>k r.
            SetPix_color r (word_of_int (x0 + int k)) (word_of_int (y0 + int j))
              (if m (fontPtr + of_nat j) AND drop_bit k 0b10000000 > 0 then color r else clearColor r))
            [0..<unat (fontWidth r)] r)
          [0..<unat (fontHeight r)] r)"

definition PutChar :: "mem \<Rightarrow> Renderer \<Rightarrow> u8 \<Rightarrow> Renderer" where
  "PutChar m r chr =
     (if font r = None \<or> frameBuffer r = None then r
      else let r1 = (if chr = 0x0A then newline r
                     else let r0 = draw_glyph m r chr; r0 = r0\<lparr>textX := textX r0 + 1\<rparr>
                          in if textX r0 + 1 > uint (xGridMax r0) then newline r0 else r0)
           in scroll_loop r1)"

definition NewLine :: "mem \<Rightarrow> Renderer \<Rightarrow> Renderer" where
  "NewLine m r = PutChar m r 0x0A"

text \<open>\<open>Print\<close> of the characters of a string in front of its NUL.\<close>

definition Print :: "mem \<Rightarrow> Renderer \<Rightarrow> u8 list \<Rightarrow> Renderer" where
  "Print m r str =
     (if font r = None \<or> frameBuffer r = None then r else fold (\<lambda>c r. PutChar m r c) str r)"

text \<open>What \<open>Panic\<close> does before it halts: a red screen with the message.\<close>

definition Panic_screen :: "mem \<Rightarrow> string \<Rightarrow> Renderer \<Rightarrow> Renderer" where
  "Panic_screen m message r =
     (let r = SetBackColor r BR_RED;
          r = ClearScreen r;
          r = SetCursor r 20 10;
          r = SetColor r BR_BLACK;
          r = Print m r (map of_char ''Kernel Panic'');
          r = NewLine m r;
          r = NewLine m r
      in Print m r (map of_char message))"

subsection \<open>The mouse cursor\<close>

text \<open>The size of the visible part of the cursor along one axis.\<close>

definition cursor_max :: "u32 \<Rightarrow> int \<Rightarrow> nat" where
  "cursor_max extent pos =
     (let difference = signed_take_bit 31 (uint extent - pos)
      in nat (if difference < 16 then difference else 16))"

definition cursor_bit :: "u8 list \<Rightarrow> nat \<Rightarrow> nat \<Rightarrow> bool" where
  "cursor_bit mouseCursor x y = (mouseCursor ! ((y * 16 + x) div 8) AND drop_bit (x mod 8) 0b10000000 \<noteq> 0)"

definition clear_cursor_pixel :: "u8 list \<Rightarrow> int \<Rightarrow> int \<Rightarrow> nat \<times> nat \<Rightarrow> Renderer \<Rightarrow> Renderer" where
  "clear_cursor_pixel mouseCursor X Y p r =
     (case p of (x, y) \<Rightarrow>
       if cursor_bit mouseCursor x y
          \<and> GetPix r (word_of_int (X + int x)) (word_of_int (Y + int y)) = mouseCursorBufferAfter r (x + y * 16)
       then SetPix_long r (X + int x) (Y + int y) (mouseCursorBuffer r (x + y * 16)) else r)"

definition ClearMouseCursor :: "u8 list \<Rightarrow> int \<Rightarrow> int \<Rightarrow> Renderer \<Rightarrow> Renderer" where
  "ClearMouseCursor mouseCursor X Y r =
     (if \<not> MouseDrawn r then r
      else let xMax = cursor_max (kfb_Width (fb r)) X; yMax = cursor_max (kfb_Height (fb r)) Y
           in fold (clear_cursor_pixel mouseCursor X Y)
                (concat (map (\<lambda>y. map (\<lambda>x. (x, y)) [0..<xMax]) [0..<yMax])) r)"

definition draw_cursor_pixel :: "u8 list \<Rightarrow> int \<Rightarrow> int \<Rightarrow> Color \<Rightarrow> nat \<times> nat \<Rightarrow> Renderer \<Rightarrow> Renderer" where
  "draw_cursor_pixel mouseCursor X Y c p r =
     (case p of (x, y) \<Rightarrow>
       if cursor_bit mouseCursor x y
       then let wx = word_of_int (X + int x); wy = word_of_int (Y + int y);
                r1 = r\<lparr>mouseCursorBuffer := (mouseCursorBuffer r)(x + y * 16 := GetPix r wx wy)\<rparr>;
                r2 = SetPix_color r1 wx wy c
            in r2\<lparr>mouseCursorBufferAfter := (mouseCursorBufferAfter r2)(x + y * 16 := GetPix r2 wx wy)\<rparr>
       else r)"

definition DrawOverlayMouseCursor :: "u8 list \<Rightarrow> int \<Rightarrow> int \<Rightarrow> Color \<Rightarrow> Renderer \<Rightarrow> Renderer" where
  "DrawOverlayMouseCursor mouseCursor X Y c r =
     (let xMax = cursor_max (kfb_Width (fb r)) X; yMax = cursor_max (kfb_Height (fb r)) Y
      in (fold (draw_cursor_pixel mouseCursor X Y c)
           (concat (map (\<lambda>y. map (\<lambda>x. (x, y)) [0..<xMax]) [0..<yMax])) r)\<lparr>MouseDrawn := True\<rparr>)"

subsection \<open>Pixels\<close>

lemma SetPix_frame [simp]:
  "frameBuffer (SetPix r x y c) = frameBuffer r" "font (SetPix r x y c) = font r"
  "textX (SetPix r x y c) = textX r" "textY (SetPix r x y c) = textY r"
  "xGridMax (SetPix r x y c) = xGridMax r" "yGridMax (SetPix r x y c) = yGridMax r"
  "baseXOff (SetPix r x y c) = baseXOff r" "fontWidth (SetPix r x y c) = fontWidth r"
  "mouseCursorBuffer (SetPix r x y c) = mouseCursorBuffer r"
  "mouseCursorBufferAfter (SetPix r x y c) = mouseCursorBufferAfter r"
  "MouseDrawn (SetPix r x y c) = MouseDrawn r"
  by (simp_all add: SetPix_def)

lemma SetPix_color_frame [simp]:
  "frameBuffer (SetPix_color r x y c) = frameBuffer r" "font (SetPix_color r x y c) = font r"
  "textX (SetPix_color r x y c) = textX r" "textY (SetPix_color r x y c) = textY r"
  "xGridMax (SetPix_color r x y c) = xGridMax r" "yGridMax (SetPix_color r x y c) = yGridMax r"
  "baseXOff (SetPix_color r x y c) = baseXOff r" "fontWidth (SetPix_color r x y c) = fontWidth r"
  by (simp_all add: SetPix_color_def)

text \<open>A frame buffer whose lines do not overlap and whose pixels can be numbered with 32 bits.\<close>

definition fb_ok :: "KFrameBuffer \<Rightarrow> bool" where
  "fb_ok f \<longleftrightarrow> kfb_Width f \<le> kfb_PixelsPerScanline f
     \<and> unat (kfb_PixelsPerScanline f) * unat (kfb_Height f) < 2 ^ 32"

lemma pix_index_unat:
  assumes "fb_ok f" "x < kfb_Width f" "y < kfb_Height f"
  shows "unat (pix_index f x y) = unat y * unat (kfb_PixelsPerScanline f) + unat x"
proof -
  let ?p = "unat (kfb_PixelsPerScanline f)" let ?h = "unat (kfb_Height f)"
  have b: "unat x < ?p" "unat y < ?h" "?p * ?h < 2 ^ 32"
    using assms by (auto simp: fb_ok_def word_less_nat_alt word_le_nat_alt)
  have "Suc (unat y) * ?p \<le> ?h * ?p" using b(2) by (intro mult_le_mono1) simp
  then have le: "unat y * ?p + ?p < 2 ^ 32" using b(3) by (simp add: mult.commute)
  have m: "unat (y * kfb_PixelsPerScanline f) = unat y * ?p"
    using le by (intro unat_mult_no_wrap) simp
  have "unat (x + y * kfb_PixelsPerScanline f) = unat x + unat y * ?p"
    using le b(1) m by (subst unat_add_no_wrap) simp_all
  then show ?thesis by (simp add: pix_index_def unat_ucast_up)
qed

lemma pix_index_inj:
  assumes "fb_ok f" "x < kfb_Width f" "y < kfb_Height f" "x' < kfb_Width f" "y' < kfb_Height f"
    and "pix_index f x y = pix_index f x' y'"
  shows "x = x' \<and> y = y'"
proof -
  let ?p = "unat (kfb_PixelsPerScanline f)"
  have x: "unat x < ?p" "unat x' < ?p"
    using assms(1,2,4) by (auto simp: fb_ok_def word_less_nat_alt word_le_nat_alt)
  have e: "unat y * ?p + unat x = unat y' * ?p + unat x'"
    using pix_index_unat [OF assms(1-3)] pix_index_unat [OF assms(1,4,5)] assms(6) by simp
  have "unat y = (unat y * ?p + unat x) div ?p" using x(1) by simp
  also have "\<dots> = unat y'" unfolding e using x(2) by simp
  finally have "unat y = unat y'" .
  with e show ?thesis by (simp add: word_unat_eq_iff)
qed

subsection \<open>The text cursor stays in the grid\<close>

definition cursor_ok :: "Renderer \<Rightarrow> bool" where
  "cursor_ok r \<longleftrightarrow> 0 < yGridMax r \<and> baseXOff r < xGridMax r
     \<and> uint (baseXOff r) \<le> textX r \<and> textX r < uint (xGridMax r)
     \<and> 0 \<le> textY r \<and> textY r < uint (yGridMax r)"

lemma scroll_loop_grid:
  "yGridMax (scroll_loop r) = yGridMax r \<and> xGridMax (scroll_loop r) = xGridMax r
     \<and> textX (scroll_loop r) = textX r \<and> baseXOff (scroll_loop r) = baseXOff r
     \<and> frameBuffer (scroll_loop r) = frameBuffer r \<and> font (scroll_loop r) = font r"
proof (induction r rule: scroll_loop.induct)
  case (1 r)
  then show ?case by (simp add: scroll_loop.simps [of r])
qed

lemma scroll_loop_textY:
  "frameBuffer r \<noteq> None \<Longrightarrow> font r \<noteq> None \<Longrightarrow>
     textY (scroll_loop r) = (if textY r \<ge> uint (yGridMax r) then uint (yGridMax r) - 1 else textY r)"
proof (induction r rule: scroll_loop.induct)
  case (1 r)
  show ?case
  proof (cases "textY r \<ge> uint (yGridMax r)")
    case True
    then have "scroll_loop r = scroll_loop (Scroll r)" using "1.prems" by (simp add: scroll_loop.simps [of r])
    moreover have "textY (scroll_loop (Scroll r)) =
        (if textY (Scroll r) \<ge> uint (yGridMax (Scroll r)) then uint (yGridMax (Scroll r)) - 1 else textY (Scroll r))"
      using "1.IH" "1.prems" True by simp
    ultimately show ?thesis using True "1.prems" by (simp add: Scroll_textY)
  next
    case False
    then show ?thesis by (simp add: scroll_loop.simps [of r])
  qed
qed

lemma fold_frame:
  assumes "\<And>x r. g (f x r) = g r"
  shows "g (fold f xs r) = g r"
  using assms by (induction xs arbitrary: r) auto

lemma draw_glyph_frame:
  "textX (draw_glyph m r c) = textX r" "textY (draw_glyph m r c) = textY r"
  "xGridMax (draw_glyph m r c) = xGridMax r" "yGridMax (draw_glyph m r c) = yGridMax r"
  "baseXOff (draw_glyph m r c) = baseXOff r" "frameBuffer (draw_glyph m r c) = frameBuffer r"
  "font (draw_glyph m r c) = font r"
  unfolding draw_glyph_def Let_def
  by ((rule fold_frame [where g = textX] fold_frame [where g = textY] fold_frame [where g = xGridMax]
        fold_frame [where g = yGridMax] fold_frame [where g = baseXOff] fold_frame [where g = frameBuffer]
        fold_frame [where g = font])+; simp)+

text \<open>A screen of 32 by 16 pixels, 4 by 2 characters.\<close>

definition small_screen :: KFrameBuffer where
  "small_screen = \<lparr>kfb_BaseAddress = 0x80000000, kfb_BufferSize = 2048, kfb_Width = 32,
     kfb_Height = 16, kfb_PixelsPerScanline = 32\<rparr>"

definition small_renderer :: Renderer where
  "small_renderer = \<lparr>fontWidth = 8, fontHeight = 8, font = Some 0x1000, frameBuffer = Some small_screen,
     xGridMax = 4, yGridMax = 2, mouseCursorBuffer = (\<lambda>_. 0), mouseCursorBufferAfter = (\<lambda>_. 0),
     MouseDrawn = False, baseXOff = 1, textX = 1, textY = 0, color = BR_WHITE, clearColor = BR_BLACK,
     vram = (\<lambda>_. 0)\<rparr>"

lemma small_renderer_ok: "cursor_ok small_renderer" "frameBuffer small_renderer = Some small_screen"
    "font small_renderer \<noteq> None" "fb_ok small_screen"
  by (simp_all add: small_renderer_def small_screen_def cursor_ok_def fb_ok_def)

lemma Print_keeps_cursor:
  assumes "cursor_ok r"
  shows "cursor_ok (Print m r str)"
proof -
  have put: "cursor_ok (PutChar m r c)" if ok: "cursor_ok r" for r c
  proof (cases "font r = None \<or> frameBuffer r = None")
    case True
    with ok show ?thesis by (simp add: PutChar_def)
  next
    case False
    let ?d = "(draw_glyph m r c)\<lparr>textX := textX r + 1\<rparr>"
    define r1 where "r1 = (if c = 0x0A then newline r
      else if textX r + 1 + 1 > uint (xGridMax r) then newline ?d else ?d)"
    have p: "PutChar m r c = scroll_loop r1"
      using False by (auto simp: PutChar_def r1_def draw_glyph_frame)
    have r1: "xGridMax r1 = xGridMax r" "yGridMax r1 = yGridMax r" "baseXOff r1 = baseXOff r"
      "frameBuffer r1 = frameBuffer r" "font r1 = font r" "0 \<le> textY r1"
      "uint (baseXOff r) \<le> textX r1" "textX r1 < uint (xGridMax r)"
      using ok by (auto simp: r1_def newline_def draw_glyph_frame cursor_ok_def word_less_def)
    have "0 < uint (yGridMax r)" using ok by (simp add: cursor_ok_def word_less_def)
    then show ?thesis
      using ok r1 False scroll_loop_grid [of r1] scroll_loop_textY [of r1]
      unfolding p by (auto simp: cursor_ok_def)
  qed
  have "cursor_ok (fold (\<lambda>c r. PutChar m r c) str r)"
    by (rule fold_invariant_upt [where P = cursor_ok]) (use assms put in auto)
  with assms show ?thesis by (simp add: Print_def)
qed

text \<open>
  C27. Printing text keeps the cursor inside the character grid: after any string it is again in
  a valid row and in a column between the left margin and the right edge, however often lines
  wrap or the screen scrolls.
\<close>

theorem Print_cursor_ok:
  assumes "cursor_ok r"
  shows "cursor_ok (Print m r str)"
  by (rule Print_keeps_cursor [OF assms])

theorem Print_cursor_ok_witness:
  "cursor_ok small_renderer \<and> cursor_ok (Print (\<lambda>_. 0xff) small_renderer [0x41, 0x42, 0x43, 0x0A, 0x0A, 0x44])"
  using Print_cursor_ok [OF small_renderer_ok(1)] small_renderer_ok(1) by blast

subsection \<open>Scrolling\<close>

lemma shift_loop:
  fixes v :: "u64 \<Rightarrow> u32"
  assumes "unat n + unat R < 2 ^ 64"
  shows "for_upto n (\<lambda>i v. v(i := v (i + R))) v = (\<lambda>i. if i < n then v (i + R) else v i)"
proof -
  have "for_upto n (\<lambda>i v. v(i := v (i + R))) v = (\<lambda>i. if unat i < unat n then v (i + R) else v i)"
  proof (rule for_upto_indexed [where P = "\<lambda>k v'. v' = (\<lambda>i. if unat i < k then v (i + R) else v i)"])
    fix k and v' :: "u64 \<Rightarrow> u32"
    assume k: "k < unat n" and v': "v' = (\<lambda>i. if unat i < k then v (i + R) else v i)"
    have uk: "unat (of_nat k :: u64) = k" using k unat64_lt [of n] by (intro unat_of_nat_small) simp
    have "unat (of_nat k + R) = k + unat R" using assms k uk by (subst unat_add_no_wrap) simp_all
    then have "v' (of_nat k + R) = v (of_nat k + R)" by (simp add: v')
    moreover have "i = of_nat k \<longleftrightarrow> unat i = k" for i :: u64 using uk by (metis of_nat_unat ucast_id)
    ultimately show "v'(of_nat k := v' (of_nat k + R)) = (\<lambda>i. if unat i < Suc k then v (i + R) else v i)"
      by (auto simp: v' less_Suc_eq fun_eq_iff)
  qed simp
  then show ?thesis by (simp add: word_less_nat_alt)
qed

lemma fill_loop:
  fixes v :: "u64 \<Rightarrow> u32"
  shows "for_upto n (\<lambda>j v. v(a + j := c)) v = (\<lambda>i. if i - a < n then c else v i)"
proof -
  have "for_upto n (\<lambda>j v. v(a + j := c)) v = (\<lambda>i. if unat (i - a) < unat n then c else v i)"
  proof (rule for_upto_indexed [where P = "\<lambda>k v'. v' = (\<lambda>i. if unat (i - a) < k then c else v i)"])
    fix k and v' :: "u64 \<Rightarrow> u32"
    assume k: "k < unat n" and v': "v' = (\<lambda>i. if unat (i - a) < k then c else v i)"
    have "i = a + of_nat k \<longleftrightarrow> unat (i - a) = k" for i
      using offset_eq_iff [of k i a] k unat64_lt [of n] by simp
    then show "v'(a + of_nat k := c) = (\<lambda>i. if unat (i - a) < Suc k then c else v i)"
      by (auto simp: v' less_Suc_eq fun_eq_iff)
  qed simp
  then show ?thesis by (simp add: word_less_nat_alt)
qed

text \<open>
  \<open>Scroll\<close> moves the text up by exactly one line: every pixel of the lines above the last one
  gets the pixel one text line below it, the last text line is cleared, all memory behind the
  text lines stays as it is, and the cursor moves up with the text.
\<close>

theorem Scroll_moves:
  assumes fb: "frameBuffer r = Some f" "font r \<noteq> None" and grid: "0 < yGridMax r"
    and small: "unat (kfb_PixelsPerScanline f) * unat (fontHeight r) < 2 ^ 32"
  defines "row \<equiv> unat (kfb_PixelsPerScanline f) * unat (fontHeight r)"
  defines "low \<equiv> row * (unat (yGridMax r) - 1)"
  shows "textY (Scroll r) = textY r - 1 \<and> vram (Scroll r) = (\<lambda>i.
     if unat i < low then vram r (i + of_nat row)
     else if unat i < low + row then fromColor (clearColor r) else vram r i)"
proof -
  let ?R = "ucast (kfb_PixelsPerScanline f * fontHeight r) :: u64"
  let ?g = "ucast (yGridMax r) :: u64"
  let ?g' = "unat (yGridMax r)"
  have row: "unat ?R = row"
    unfolding row_def using small by (simp add: unat_ucast_up unat_mult_no_wrap)
  have Rr: "?R = of_nat row" unfolding row [symmetric] by simp
  have g: "unat ?g = ?g'" by (rule unat_ucast_up) simp
  have gp: "0 < ?g'" using grid by (simp add: word_less_nat_alt)
  have rl: "row < 2 ^ 32" using small by (simp add: row_def)
  have gl: "?g' < 2 ^ 32" using unat32_lt [of "yGridMax r"] by simp
  have tot: "row * ?g' < 2 ^ 64"
  proof -
    have "row * ?g' \<le> row * 2 ^ 32" using gl by (intro mult_le_mono2) simp
    also have "\<dots> < 2 ^ 32 * 2 ^ 32" using rl by simp
    finally show ?thesis by simp
  qed
  have lr: "low + row = row * ?g'" unfolding low_def using gp by (cases ?g') (simp_all add: algebra_simps)
  have s: "unat (?R * ?g) = row * ?g'" using tot row g by (subst unat_mult_no_wrap) simp_all
  have n: "unat (?R * ?g - ?R) = low" using s row lr gp by (subst unat_sub_no_wrap) simp_all
  have nw: "unat (?R * ?g - ?R) + unat ?R < 2 ^ 64" using n row lr tot by simp
  have near: "i - (?R * ?g - ?R) < ?R \<longleftrightarrow> low \<le> unat i \<and> unat i < low + row" for i
  proof (cases "low \<le> unat i")
    case True
    then have "unat (i - (?R * ?g - ?R)) = unat i - low" using n by (subst unat_sub_no_wrap) simp_all
    with True row show ?thesis by (auto simp: word_less_nat_alt)
  next
    case False
    then have "unat (i - (?R * ?g - ?R)) = 2 ^ 64 + unat i - low" using n by (subst unat_sub_wrap) simp_all
    moreover have "\<not> 2 ^ 64 + unat i - low < row" using lr tot by linarith
    ultimately show ?thesis using False row by (simp add: word_less_nat_alt)
  qed
  have "vram (Scroll r) = for_upto ?R (\<lambda>j v. v(?R * ?g - ?R + j := fromColor (clearColor r)))
      (for_upto (?R * ?g - ?R) (\<lambda>i v. v(i := v (i + ?R))) (vram r))"
    using fb by (auto simp: Scroll_def Let_def)
  also have "\<dots> = (\<lambda>i. if i - (?R * ?g - ?R) < ?R then fromColor (clearColor r)
      else if i < ?R * ?g - ?R then vram r (i + ?R) else vram r i)"
    unfolding shift_loop [OF nw] fill_loop ..
  also have "\<dots> = (\<lambda>i. if unat i < low then vram r (i + of_nat row)
     else if unat i < low + row then fromColor (clearColor r) else vram r i)"
    unfolding near using n by (auto simp: fun_eq_iff word_less_nat_alt Rr)
  finally show ?thesis using fb by (simp add: Scroll_textY)
qed

theorem Scroll_moves_witness:
  "textY (Scroll small_renderer) = -1 \<and> vram (Scroll (small_renderer\<lparr>vram := (\<lambda>i. if i = 300 then 7 else 9)\<rparr>)) 44 = 7"
  using Scroll_moves [of small_renderer small_screen]
    Scroll_moves [of "small_renderer\<lparr>vram := (\<lambda>i. if i = 300 then 7 else 9)\<rparr>" small_screen]
  by (simp add: small_renderer_def small_screen_def)

subsection \<open>The mouse cursor overlay\<close>

text \<open>The pixel under position \<open>p\<close> of the cursor drawn at \<open>X\<close>, \<open>Y\<close>.\<close>

definition cursor_pix :: "KFrameBuffer \<Rightarrow> int \<Rightarrow> int \<Rightarrow> nat \<times> nat \<Rightarrow> u64" where
  "cursor_pix f X Y p = pix_index f (word_of_int (X + int (fst p))) (word_of_int (Y + int (snd p)))"

definition cursor_positions :: "KFrameBuffer \<Rightarrow> int \<Rightarrow> int \<Rightarrow> (nat \<times> nat) list" where
  "cursor_positions f X Y = concat (map (\<lambda>y. map (\<lambda>x. (x, y)) [0..<cursor_max (kfb_Width f) X])
     [0..<cursor_max (kfb_Height f) Y])"

lemma cursor_positions_distinct: "distinct (cursor_positions f X Y)"
proof -
  have "cursor_positions f X Y = map prod.swap
      (List.product [0..<cursor_max (kfb_Height f) Y] [0..<cursor_max (kfb_Width f) X])"
    by (simp add: cursor_positions_def product_concat_map map_concat o_def)
  then show ?thesis by (simp add: distinct_map distinct_product)
qed

lemma cursor_max_inside:
  assumes "0 \<le> X" "X < uint (w :: u32)" "uint w < 2 ^ 31" "x < cursor_max w X"
  shows "X + int x < uint w" "x < 16"
proof -
  have "signed_take_bit 31 (uint w - X) = uint w - X"
    using assms(1-3) by (intro signed_take_bit_int_eq_self) simp_all
  with assms(4) show "X + int x < uint w" "x < 16"
    by (auto simp: cursor_max_def Let_def split: if_splits)
qed

lemma uint_small: "0 \<le> i \<Longrightarrow> i < 2 ^ 31 \<Longrightarrow> uint (word_of_int i :: u32) = i"
  unfolding uint_word_of_int_eq by (rule take_bit_int_eq_self) simp_all

lemma cursor_positions_set:
  assumes "p \<in> set (cursor_positions f X Y)"
    and X: "0 \<le> X" "X < uint (kfb_Width f)" "uint (kfb_Width f) < 2 ^ 31"
    and Y: "0 \<le> Y" "Y < uint (kfb_Height f)" "uint (kfb_Height f) < 2 ^ 31"
  shows "fst p < 16" "snd p < 16"
    "uint (word_of_int (X + int (fst p)) :: u32) = X + int (fst p)"
    "uint (word_of_int (Y + int (snd p)) :: u32) = Y + int (snd p)"
    "word_of_int (X + int (fst p)) < kfb_Width f" "word_of_int (Y + int (snd p)) < kfb_Height f"
proof -
  have p: "fst p < cursor_max (kfb_Width f) X" "snd p < cursor_max (kfb_Height f) Y"
    using assms(1) by (auto simp: cursor_positions_def)
  note x = cursor_max_inside [OF X p(1)] and y = cursor_max_inside [OF Y p(2)]
  show "fst p < 16" "snd p < 16" by (rule x y)+
  show ux: "uint (word_of_int (X + int (fst p)) :: u32) = X + int (fst p)"
    using x(1) X by (intro uint_small) simp_all
  show uy: "uint (word_of_int (Y + int (snd p)) :: u32) = Y + int (snd p)"
    using y(1) Y by (intro uint_small) simp_all
  show "word_of_int (X + int (fst p)) < kfb_Width f" using x(1) ux by (simp add: word_less_def)
  show "word_of_int (Y + int (snd p)) < kfb_Height f" using y(1) uy by (simp add: word_less_def)
qed

definition cursor_area :: "KFrameBuffer \<Rightarrow> int \<Rightarrow> int \<Rightarrow> bool" where
  "cursor_area f X Y \<longleftrightarrow> fb_ok f
     \<and> 0 \<le> X \<and> X < uint (kfb_Width f) \<and> uint (kfb_Width f) < 2 ^ 31
     \<and> 0 \<le> Y \<and> Y < uint (kfb_Height f) \<and> uint (kfb_Height f) < 2 ^ 31"

definition slot :: "nat \<times> nat \<Rightarrow> nat" where
  "slot p = fst p + snd p * 16"

definition hit :: "u8 list \<Rightarrow> nat \<times> nat \<Rightarrow> bool" where
  "hit shape p = cursor_bit shape (fst p) (snd p)"

lemma inside:
  assumes "cursor_area f X Y" "p \<in> set (cursor_positions f X Y)"
  shows "fst p < 16" "snd p < 16"
    "uint (word_of_int (X + int (fst p)) :: u32) = X + int (fst p)"
    "uint (word_of_int (Y + int (snd p)) :: u32) = Y + int (snd p)"
    "word_of_int (X + int (fst p)) < kfb_Width f" "word_of_int (Y + int (snd p)) < kfb_Height f"
  using cursor_positions_set [of p f X Y] assms by (auto simp: cursor_area_def)

lemma cursor_pix_inj: "cursor_area f X Y \<Longrightarrow> p \<in> set (cursor_positions f X Y) \<Longrightarrow> q \<in> set (cursor_positions f X Y) \<Longrightarrow> cursor_pix f X Y p = cursor_pix f X Y q \<Longrightarrow> p = q"
proof -
  assume area: "cursor_area f X Y" and p: "p \<in> set (cursor_positions f X Y)" and q: "q \<in> set (cursor_positions f X Y)" and e: "cursor_pix f X Y p = cursor_pix f X Y q"
  have "word_of_int (X + int (fst p)) = (word_of_int (X + int (fst q)) :: u32)"
    "word_of_int (Y + int (snd p)) = (word_of_int (Y + int (snd q)) :: u32)"
    using pix_index_inj [OF _ inside(5,6) [OF area p] inside(5,6) [OF area q]] e area by (simp_all add: cursor_pix_def cursor_area_def)
  then have "X + int (fst p) = X + int (fst q)" "Y + int (snd p) = Y + int (snd q)"
    using inside(3,4) [OF area p] inside(3,4) [OF area q] by metis+
  then show "p = q" by (simp add: prod_eq_iff)
qed

lemma slot_inj: "cursor_area f X Y \<Longrightarrow> p \<in> set (cursor_positions f X Y) \<Longrightarrow> q \<in> set (cursor_positions f X Y) \<Longrightarrow> slot p = slot q \<Longrightarrow> p = q"
proof -
  assume area: "cursor_area f X Y" and p: "p \<in> set (cursor_positions f X Y)" and q: "q \<in> set (cursor_positions f X Y)" and e: "slot p = slot q"
  have "fst p < 16" "fst q < 16" using inside(1) [OF area] p q by blast+
  with e have "fst p = fst q \<and> snd p = snd q" by (simp add: slot_def) presburger
  then show "p = q" by (simp add: prod_eq_iff)
qed

lemma draw_pixel:
  assumes area: "cursor_area f X Y" and "p \<in> set (cursor_positions f X Y)" "frameBuffer r = Some f"
  shows "draw_cursor_pixel shape X Y c p r =
    (if hit shape p then r\<lparr>vram := (vram r)(cursor_pix f X Y p := fromColor c),
       mouseCursorBuffer := (mouseCursorBuffer r)(slot p := vram r (cursor_pix f X Y p)),
       mouseCursorBufferAfter := (mouseCursorBufferAfter r)(slot p := fromColor c)\<rparr> else r)"
proof -
  obtain x y where p: "p = (x, y)" by (cases p)
  note i = inside(5,6) [OF assms(1,2)]
  have n: "\<not> kfb_Width f \<le> word_of_int (X + int x)" "\<not> kfb_Height f \<le> word_of_int (Y + int y)"
    "\<not> kfb_Width f < word_of_int (X + int x)" "\<not> kfb_Height f < word_of_int (Y + int y)"
    using i by (auto simp: p not_le not_less)
  show ?thesis
    using assms(3) n
    by (simp add: draw_cursor_pixel_def p hit_def cursor_pix_def slot_def Let_def
        GetPix_def SetPix_color_def SetPix_def del: of_int_add)
qed

lemma draw_fold:
  fixes c :: Color and shape :: "u8 list"
  assumes area: "cursor_area f X Y" and "set qs \<subseteq> set (cursor_positions f X Y)" "distinct qs" "frameBuffer r = Some f"
  defines "r' \<equiv> fold (draw_cursor_pixel shape X Y c) qs r"
  shows "frameBuffer r' = Some f
    \<and> vram r' = (\<lambda>i. if \<exists>q \<in> set qs. hit shape q \<and> i = cursor_pix f X Y q then fromColor c else vram r i)
    \<and> (\<forall>q \<in> set qs. hit shape q \<longrightarrow> mouseCursorBuffer r' (slot q) = vram r (cursor_pix f X Y q)
        \<and> mouseCursorBufferAfter r' (slot q) = fromColor c)"
  unfolding r'_def using assms(2,3)
proof (induction qs rule: rev_induct)
  case Nil
  then show ?case using assms(4) by simp
next
  case (snoc p qs)
  let ?r1 = "fold (draw_cursor_pixel shape X Y c) qs r"
  from snoc have IH: "frameBuffer ?r1 = Some f"
    "vram ?r1 = (\<lambda>i. if \<exists>q \<in> set qs. hit shape q \<and> i = cursor_pix f X Y q then fromColor c else vram r i)"
    "\<forall>q \<in> set qs. hit shape q \<longrightarrow> mouseCursorBuffer ?r1 (slot q) = vram r (cursor_pix f X Y q)
        \<and> mouseCursorBufferAfter ?r1 (slot q) = fromColor c" by simp_all
  have p: "p \<in> set (cursor_positions f X Y)" "p \<notin> set qs" using snoc.prems by auto
  have "vram ?r1 (cursor_pix f X Y p) = vram r (cursor_pix f X Y p)"
    using p snoc.prems(1) cursor_pix_inj [OF area, of p] by (auto simp: IH(2))
  moreover have "slot q \<noteq> slot p" if "q \<in> set qs" for q
    using slot_inj [OF area, of q p] p that snoc.prems(1) by auto
  ultimately show ?case
    using IH by (auto simp: draw_pixel [OF area p(1) IH(1)] fun_eq_iff)
qed

lemma clear_pixel:
  assumes area: "cursor_area f X Y" and "p \<in> set (cursor_positions f X Y)" "frameBuffer r = Some f"
  shows "clear_cursor_pixel shape X Y p r =
    (if hit shape p \<and> vram r (cursor_pix f X Y p) = mouseCursorBufferAfter r (slot p)
     then r\<lparr>vram := (vram r)(cursor_pix f X Y p := mouseCursorBuffer r (slot p))\<rparr> else r)"
proof -
  obtain x y where p: "p = (x, y)" by (cases p)
  note i = inside(5,6) [OF assms(1,2)]
  have n: "\<not> kfb_Width f \<le> word_of_int (X + int x)" "\<not> kfb_Height f \<le> word_of_int (Y + int y)"
    "\<not> kfb_Width f < word_of_int (X + int x)" "\<not> kfb_Height f < word_of_int (Y + int y)"
    using i by (auto simp: p not_le not_less)
  have "\<not> X + int x < 0" "\<not> Y + int y < 0" using area by (auto simp: cursor_area_def)
  then show ?thesis
    using assms(3) n
    by (simp add: clear_cursor_pixel_def p hit_def cursor_pix_def slot_def Let_def
        GetPix_def SetPix_long_def SetPix_def del: of_int_add)
qed

lemma clear_fold:
  fixes shape :: "u8 list"
  assumes area: "cursor_area f X Y" and "set qs \<subseteq> set (cursor_positions f X Y)" "distinct qs" "frameBuffer r = Some f"
    and "\<forall>q \<in> set qs. hit shape q \<longrightarrow> vram r (cursor_pix f X Y q) = mouseCursorBufferAfter r (slot q)"
  defines "r' \<equiv> fold (clear_cursor_pixel shape X Y) qs r"
  shows "frameBuffer r' = Some f \<and> mouseCursorBuffer r' = mouseCursorBuffer r
    \<and> mouseCursorBufferAfter r' = mouseCursorBufferAfter r
    \<and> (\<forall>q \<in> set qs. hit shape q \<longrightarrow> vram r' (cursor_pix f X Y q) = mouseCursorBuffer r (slot q))
    \<and> (\<forall>i. (\<forall>q \<in> set qs. hit shape q \<longrightarrow> i \<noteq> cursor_pix f X Y q) \<longrightarrow> vram r' i = vram r i)"
  unfolding r'_def using assms(2,3,5)
proof (induction qs rule: rev_induct)
  case Nil
  then show ?case using assms(4) by simp
next
  case (snoc p qs)
  let ?r1 = "fold (clear_cursor_pixel shape X Y) qs r"
  from snoc have IH: "frameBuffer ?r1 = Some f" "mouseCursorBuffer ?r1 = mouseCursorBuffer r"
    "mouseCursorBufferAfter ?r1 = mouseCursorBufferAfter r"
    "\<forall>q \<in> set qs. hit shape q \<longrightarrow> vram ?r1 (cursor_pix f X Y q) = mouseCursorBuffer r (slot q)"
    "\<forall>i. (\<forall>q \<in> set qs. hit shape q \<longrightarrow> i \<noteq> cursor_pix f X Y q) \<longrightarrow> vram ?r1 i = vram r i" by simp_all
  have p: "p \<in> set (cursor_positions f X Y)" "p \<notin> set qs" using snoc.prems by auto
  have ne: "cursor_pix f X Y p \<noteq> cursor_pix f X Y q" if "q \<in> set qs" for q using cursor_pix_inj [OF area, of p q] p that snoc.prems(1) by auto
  have "vram ?r1 (cursor_pix f X Y p) = vram r (cursor_pix f X Y p)" using IH(5) ne by blast
  with snoc.prems(3) have "hit shape p \<longrightarrow> vram ?r1 (cursor_pix f X Y p) = mouseCursorBufferAfter ?r1 (slot p)"
    by (simp add: IH(3))
  then show ?case
    using IH ne ne [symmetric] by (auto simp: clear_pixel [OF area p(1) IH(1)])
qed

lemma overlay_restores:
  assumes r: "frameBuffer r = Some f" and area: "cursor_area f X Y"
  shows "vram (ClearMouseCursor shape X Y (DrawOverlayMouseCursor shape X Y c r)) = vram r"
proof -
  let ?d = "fold (draw_cursor_pixel shape X Y c) (cursor_positions f X Y) r"
  note D = draw_fold [OF area subset_refl _ r, of shape c]
  have dist: "distinct (cursor_positions f X Y)" by (rule cursor_positions_distinct)
  let ?r1 = "?d\<lparr>MouseDrawn := True\<rparr>"
  have D': "frameBuffer ?r1 = Some f"
    "vram ?r1 = (\<lambda>i. if \<exists>q \<in> set (cursor_positions f X Y). hit shape q \<and> i = cursor_pix f X Y q then fromColor c else vram r i)"
    "\<forall>q \<in> set (cursor_positions f X Y). hit shape q \<longrightarrow> mouseCursorBuffer ?r1 (slot q) = vram r (cursor_pix f X Y q)
        \<and> mouseCursorBufferAfter ?r1 (slot q) = fromColor c"
    using D [OF dist] by simp_all
  have draw: "DrawOverlayMouseCursor shape X Y c r = ?r1"
    using r by (simp add: DrawOverlayMouseCursor_def cursor_positions_def Let_def)
  have clear: "ClearMouseCursor shape X Y ?r1 = fold (clear_cursor_pixel shape X Y) (cursor_positions f X Y) ?r1"
    using D'(1) by (simp add: ClearMouseCursor_def cursor_positions_def Let_def)
  have "\<forall>q \<in> set (cursor_positions f X Y). hit shape q \<longrightarrow> vram ?r1 (cursor_pix f X Y q) = mouseCursorBufferAfter ?r1 (slot q)"
    using D'(2,3) by auto
  from clear_fold [OF area subset_refl dist D'(1) this]
  have restored: "\<forall>q \<in> set (cursor_positions f X Y). hit shape q \<longrightarrow>
      vram (ClearMouseCursor shape X Y ?r1) (cursor_pix f X Y q) = vram r (cursor_pix f X Y q)"
    and rest: "\<And>i. \<forall>q \<in> set (cursor_positions f X Y). hit shape q \<longrightarrow> i \<noteq> cursor_pix f X Y q \<Longrightarrow>
      vram (ClearMouseCursor shape X Y ?r1) i = vram ?r1 i"
    using D'(3) by (simp_all add: clear)
  show ?thesis
  proof
    fix i
    show "vram (ClearMouseCursor shape X Y (DrawOverlayMouseCursor shape X Y c r)) i = vram r i"
      unfolding draw using restored rest [of i] D'(2)
      by (cases "\<exists>q \<in> set (cursor_positions f X Y). hit shape q \<and> i = cursor_pix f X Y q") auto
  qed
qed

text \<open>
  C28. Taking the mouse cursor off the screen restores the picture: drawing the overlay at a
  position on the screen and clearing it there again gives back every pixel.
\<close>

theorem ClearMouseCursor_restores:
  assumes "frameBuffer r = Some f" and "cursor_area f X Y"
  shows "vram (ClearMouseCursor shape X Y (DrawOverlayMouseCursor shape X Y c r)) = vram r"
  by (rule overlay_restores [OF assms])

theorem ClearMouseCursor_restores_witness:
  "cursor_area small_screen 30 3
   \<and> vram (ClearMouseCursor (replicate 32 0xff) 30 3
        (DrawOverlayMouseCursor (replicate 32 0xff) 30 3 CURSOR_COLOR small_renderer)) = (\<lambda>_. 0)"
proof -
  have area: "cursor_area small_screen 30 3"
    by (simp add: cursor_area_def fb_ok_def small_screen_def)
  show ?thesis
    using ClearMouseCursor_restores [OF small_renderer_ok(2) area] area by (simp add: small_renderer_def)
qed

end
