(* ===== verification/Console.thy ===== *)
theory Console
  imports Renderer KernelLib PageFrames Heap
begin

section \<open>Messages and statistics on the screen (kernel/src/renderer/stat_logger.cpp)\<close>

text \<open>
  The functions with which the kernel reports. Their state is the renderer and the static buffers
  into which numbers are converted before they are printed; \<open>m\<close> is the memory that holds the
  glyphs of the font.
\<close>

subsection \<open>State and single steps\<close>

record console =
  screen :: Renderer
  uintTo_StringOutput :: out_buffer
  intTo_StringOutput :: out_buffer
  hexTo_StringOutput :: out_buffer

definition with_screen :: "(Renderer \<Rightarrow> Renderer) \<Rightarrow> console \<Rightarrow> console" where
  "with_screen f c = c\<lparr>screen := f (screen c)\<rparr>"

definition put_chars :: "mem \<Rightarrow> u8 list \<Rightarrow> console \<Rightarrow> console" where
  "put_chars m str = with_screen (\<lambda>r. Print m r str)"

definition text_bytes :: "string \<Rightarrow> u8 list" where
  "text_bytes s = map of_char s"

definition put_text :: "mem \<Rightarrow> string \<Rightarrow> console \<Rightarrow> console" where
  "put_text m s = put_chars m (text_bytes s)"

definition put_color :: "Color \<Rightarrow> console \<Rightarrow> console" where
  "put_color col = with_screen (\<lambda>r. SetColor r col)"

definition statNewLine :: "mem \<Rightarrow> console \<Rightarrow> console" where
  "statNewLine m = with_screen (NewLine m)"

text \<open>Printing a number: the conversion fills its buffer, then the buffer is printed.\<close>

definition put_u64 :: "mem \<Rightarrow> u64 \<Rightarrow> console \<Rightarrow> console" where
  "put_u64 m v c = (let buf = to_string_u64 v (uintTo_StringOutput c)
     in put_chars m (c_str buf) (c\<lparr>uintTo_StringOutput := buf\<rparr>))"

definition put_i64 :: "mem \<Rightarrow> u64 \<Rightarrow> console \<Rightarrow> console" where
  "put_i64 m v c = (let buf = to_string_i64 v (intTo_StringOutput c)
     in put_chars m (c_str buf) (c\<lparr>intTo_StringOutput := buf\<rparr>))"

definition put_hex :: "mem \<Rightarrow> u64 \<Rightarrow> console \<Rightarrow> console" where
  "put_hex m v c = (let buf = to_hstring64 v (hexTo_StringOutput c)
     in put_chars m (c_str buf) (c\<lparr>hexTo_StringOutput := buf\<rparr>))"

text \<open>Statements one after the other.\<close>

primrec in_order :: "('c \<Rightarrow> 'c) list \<Rightarrow> 'c \<Rightarrow> 'c" where
  "in_order [] c = c"
| "in_order (f # fs) c = in_order fs (f c)"

subsection \<open>Messages\<close>

definition showSuccess :: "mem \<Rightarrow> u8 list \<Rightarrow> console \<Rightarrow> console" where
  "showSuccess m message = in_order
     [put_color BR_WHITE, put_text m ''[ '',
      put_color BR_GREEN, put_text m ''OK'',
      put_color BR_WHITE, put_text m '' ] '',
      put_chars m message, statNewLine m]"

definition showFailed :: "mem \<Rightarrow> u8 list \<Rightarrow> console \<Rightarrow> console" where
  "showFailed m message = in_order
     [put_color BR_WHITE, put_text m ''[ '',
      put_color BR_RED, put_text m ''NOK'',
      put_color BR_WHITE, put_text m '' ] '',
      put_chars m message, statNewLine m]"

definition showWarning :: "mem \<Rightarrow> u8 list \<Rightarrow> console \<Rightarrow> console" where
  "showWarning m message = in_order
     [put_color BR_WHITE, put_text m ''[ '',
      put_color BR_YELLOW, put_text m ''WARN'',
      put_color BR_WHITE, put_text m '' ] '',
      put_chars m message, statNewLine m]"

definition showInfo :: "mem \<Rightarrow> u8 list \<Rightarrow> console \<Rightarrow> console" where
  "showInfo m message = in_order
     [put_color BR_WHITE, put_text m ''[ * ] '', put_chars m message, statNewLine m]"

text \<open>The colour is a default argument.\<close>

definition printStats :: "mem \<Rightarrow> u8 list \<Rightarrow> Color \<Rightarrow> console \<Rightarrow> console" where
  "printStats m message col = in_order [put_color col, put_chars m message]"

definition printStatsSpacing :: "mem \<Rightarrow> Color \<Rightarrow> console \<Rightarrow> console" where
  "printStatsSpacing m col = in_order [put_color col, put_text m ''   - '']"

subsection \<open>Statistics\<close>

definition sizePrint :: "mem \<Rightarrow> u64 \<Rightarrow> console \<Rightarrow> console" where
  "sizePrint m sz =
     (if sz div 1099511627776 > 1 then in_order [put_u64 m (sz div 1099511627776), put_text m '' TB'']
      else if sz div 1073741824 > 1 then in_order [put_u64 m (sz div 1073741824), put_text m '' GB'']
      else if sz div 1048576 > 1 then in_order [put_u64 m (sz div 1048576), put_text m '' MB'']
      else if sz div 1024 > 1 then in_order [put_u64 m (sz div 1024), put_text m '' KB'']
      else in_order [put_u64 m sz, put_text m '' B''])"

text \<open>A caption in dark cyan, then what follows in cyan.\<close>

definition caption :: "mem \<Rightarrow> string \<Rightarrow> console \<Rightarrow> console" where
  "caption m s = in_order [put_color BR_DARK_CYAN, put_text m s, put_color BR_CYAN]"

definition ShowBasicFrameBuffer :: "mem \<Rightarrow> console \<Rightarrow> console" where
  "ShowBasicFrameBuffer m c = (let fbuff = GetFramebuffer (screen c);
     c = in_order
      [caption m ''   Frame resolution:     '',
       put_u64 m (ucast (kfb_Width fbuff)), put_text m ''x'', put_u64 m (ucast (kfb_Height fbuff)),
       statNewLine m,
       caption m ''   Frame buffer address: '',
       put_text m ''0x'', put_hex m (kfb_BaseAddress fbuff),
       statNewLine m,
       caption m ''   Frame buffer size:    '',
       sizePrint m (kfb_BufferSize fbuff),
       statNewLine m] c;
     grid = GetGrid (screen c)
   in in_order
      [caption m ''   Frame grid:           '',
       put_i64 m (word_of_int (fst grid)), put_text m ''x'', put_i64 m (word_of_int (snd grid))] c)"

definition ShowHeap :: "mem \<Rightarrow> 'b heap \<Rightarrow> console \<Rightarrow> console" where
  "ShowHeap m h = in_order
     [caption m ''   Heap pages:           '', put_u64 m (GetHeapPages h), statNewLine m,
      caption m ''   Heap size:            '', sizePrint m (GetHeapPages h * 4096), statNewLine m]"

definition ShowRAM :: "mem \<Rightarrow> PageFrameAllocator \<Rightarrow> console \<Rightarrow> console" where
  "ShowRAM m s = in_order
     [caption m ''   Total RAM:            '', sizePrint m (totalMemory s), statNewLine m,
      caption m ''   Free RAM:             '', sizePrint m (freeMemory s), statNewLine m,
      caption m ''   Used RAM:             '', sizePrint m (usedMemory s), statNewLine m,
      caption m ''   Reserved RAM:         '', sizePrint m (reservedMemory s), statNewLine m]"

definition ShowOSStats :: "mem \<Rightarrow> PageFrameAllocator \<Rightarrow> 'b heap \<Rightarrow> console \<Rightarrow> console" where
  "ShowOSStats m s h = in_order
     [put_color BR_WHITE, put_text m ''OS Stats:'', statNewLine m,
      ShowRAM m s, ShowHeap m h, ShowBasicFrameBuffer m, put_color BR_WHITE]"

definition ShowOSStats_at :: "mem \<Rightarrow> PageFrameAllocator \<Rightarrow> 'b heap \<Rightarrow> u32 \<Rightarrow> u32 \<Rightarrow> console \<Rightarrow> console" where
  "ShowOSStats_at m s h x y c = (let
     tmpColor = GetColor (screen c); tmpX = GetCursorX (screen c); tmpY = GetCursorY (screen c)
   in in_order
     [with_screen (\<lambda>r. SetCursor r x y),
      put_color BR_WHITE, put_text m ''OS Stats:'', statNewLine m,
      ShowRAM m s, ShowHeap m h, ShowBasicFrameBuffer m, put_color BR_WHITE,
      put_color tmpColor, with_screen (\<lambda>r. SetCursor r tmpX tmpY)] c)"

text \<open>The walk over the heap's segments (\<open>heap.cpp\<close>): the line of a segment, and the loop.\<close>

definition walk_line :: "mem \<Rightarrow> 'b heap \<Rightarrow> u64 \<Rightarrow> u64 \<Rightarrow> console \<Rightarrow> console" where
  "walk_line m h k hdr = in_order
     [printStatsSpacing m BR_DARK_CYAN, printStats m (text_bytes ''['') BR_DARK_CYAN,
      put_color BR_DARK_CYAN, put_u64 m k,
      printStats m (text_bytes ''] Base: 0x'') BR_DARK_CYAN,
      put_color BR_DARK_CYAN, put_hex m (hdr + sizeof_HeapSegHdr),
      printStats m (text_bytes '', Size: '') BR_DARK_CYAN,
      put_color BR_DARK_CYAN, put_u64 m (seg_length (hdrs h hdr)),
      printStats m (text_bytes '', Free: '') BR_DARK_CYAN,
      printStats m (text_bytes (if seg_free (hdrs h hdr) then ''True'' else ''False'')) BR_DARK_CYAN,
      printStats m (text_bytes '', Next: 0x'') BR_DARK_CYAN,
      put_color BR_DARK_CYAN, put_hex m (seg_next (hdrs h hdr)),
      statNewLine m]"

partial_function (option) WalkHeap_loop :: "mem \<Rightarrow> 'b heap \<Rightarrow> u64 \<Rightarrow> u64 \<Rightarrow> console \<Rightarrow> console option" where
  "WalkHeap_loop m h hdr k c =
     (if hdr = NULL then Some c
      else WalkHeap_loop m h (seg_next (hdrs h hdr)) (k + 1) (walk_line m h k hdr c))"

definition WalkHeap :: "mem \<Rightarrow> 'b heap \<Rightarrow> console \<Rightarrow> console option" where
  "WalkHeap m h c = WalkHeap_loop m h (heapStart h) 0 (showInfo m (text_bytes ''Heap walkthru'') c)"

subsection \<open>What printing leaves alone\<close>

lemma SetPix_color_color [simp]: "color (SetPix_color r x y c) = color r"
  by (simp add: SetPix_color_def SetPix_def)

lemma draw_glyph_color: "color (draw_glyph m r c) = color r"
  unfolding draw_glyph_def Let_def by (rule fold_frame, rule fold_frame) simp

lemma scroll_loop_color: "color (scroll_loop r) = color r"
proof (induction r rule: scroll_loop.induct)
  case (1 r)
  have "color (Scroll r) = color r" by (simp add: Scroll_def Let_def)
  with 1 show ?case by (simp add: scroll_loop.simps [of r])
qed

lemma PutChar_step:
  assumes "font r \<noteq> None" "frameBuffer r \<noteq> None"
  obtains r1 where "PutChar m r c = scroll_loop r1"
    and "font r1 = font r" "frameBuffer r1 = frameBuffer r" "xGridMax r1 = xGridMax r"
    "yGridMax r1 = yGridMax r" "color r1 = color r" "baseXOff r1 = baseXOff r"
proof -
  let ?d = "(draw_glyph m r c)\<lparr>textX := textX r + 1\<rparr>"
  define r1 where "r1 = (if c = 0x0A then newline r
    else if textX r + 1 + 1 > uint (xGridMax r) then newline ?d else ?d)"
  have p: "PutChar m r c = scroll_loop r1"
    using assms by (auto simp: PutChar_def Let_def r1_def draw_glyph_frame)
  show ?thesis
    by (rule that [of r1]) (unfold p, simp_all add: r1_def newline_def draw_glyph_frame draw_glyph_color)
qed

lemma PutChar_frame [frame_simps]:
  "font (PutChar m r c) = font r" "frameBuffer (PutChar m r c) = frameBuffer r"
  "xGridMax (PutChar m r c) = xGridMax r" "yGridMax (PutChar m r c) = yGridMax r"
  "color (PutChar m r c) = color r" "baseXOff (PutChar m r c) = baseXOff r"
proof -
  have "font (PutChar m r c) = font r \<and> frameBuffer (PutChar m r c) = frameBuffer r \<and>
    xGridMax (PutChar m r c) = xGridMax r \<and> yGridMax (PutChar m r c) = yGridMax r \<and>
    color (PutChar m r c) = color r \<and> baseXOff (PutChar m r c) = baseXOff r"
  proof (cases "font r = None \<or> frameBuffer r = None")
    case True
    then show ?thesis by (simp add: PutChar_def)
  next
    case False
    then obtain r1 where p: "PutChar m r c = scroll_loop r1"
      and f: "font r1 = font r" "frameBuffer r1 = frameBuffer r" "xGridMax r1 = xGridMax r"
        "yGridMax r1 = yGridMax r" "color r1 = color r" "baseXOff r1 = baseXOff r"
      using PutChar_step by blast
    show ?thesis unfolding p using f scroll_loop_grid [of r1] scroll_loop_color [of r1] by simp
  qed
  then show "font (PutChar m r c) = font r" "frameBuffer (PutChar m r c) = frameBuffer r"
    "xGridMax (PutChar m r c) = xGridMax r" "yGridMax (PutChar m r c) = yGridMax r"
    "color (PutChar m r c) = color r" "baseXOff (PutChar m r c) = baseXOff r" by simp_all
qed

lemma fold_PutChar_frame [frame_simps]:
  "font (fold (\<lambda>c r. PutChar m r c) str r) = font r"
  "frameBuffer (fold (\<lambda>c r. PutChar m r c) str r) = frameBuffer r"
  "xGridMax (fold (\<lambda>c r. PutChar m r c) str r) = xGridMax r"
  "yGridMax (fold (\<lambda>c r. PutChar m r c) str r) = yGridMax r"
  "color (fold (\<lambda>c r. PutChar m r c) str r) = color r"
  "baseXOff (fold (\<lambda>c r. PutChar m r c) str r) = baseXOff r"
  by (induction str arbitrary: r) (simp_all add: frame_simps)

lemma Print_frame [frame_simps]:
  "font (Print m r str) = font r" "frameBuffer (Print m r str) = frameBuffer r"
  "xGridMax (Print m r str) = xGridMax r" "yGridMax (Print m r str) = yGridMax r"
  "color (Print m r str) = color r" "baseXOff (Print m r str) = baseXOff r"
  by (simp_all add: Print_def frame_simps)

lemma Print_append: "Print m (Print m r a) b = Print m r (a @ b)"
  by (simp add: Print_def frame_simps)

lemma NewLine_Print: "NewLine m r = Print m r [0x0A]"
  by (simp add: NewLine_def Print_def PutChar_def)

subsection \<open>Sizes\<close>

lemma with_screen_simps [simp]:
  "screen (with_screen f c) = f (screen c)" "screen (put_chars m str c) = Print m (screen c) str"
  "screen (put_text m s c) = Print m (screen c) (text_bytes s)"
  "screen (put_color col c) = SetColor (screen c) col" "screen (statNewLine m c) = NewLine m (screen c)"
  by (simp_all add: with_screen_def put_chars_def put_text_def put_color_def statNewLine_def)

lemma put_u64_screen:
  "length (uintTo_StringOutput c) = 128 \<Longrightarrow>
     screen (put_u64 m v c) = Print m (screen c) (decimal (unat v))"
  using to_string_u64_text [of "uintTo_StringOutput c" v] by (simp add: put_u64_def Let_def)

definition size_units :: "(string \<times> nat) list" where
  "size_units = [('' TB'', 1024 ^ 4), ('' GB'', 1024 ^ 3), ('' MB'', 1024 ^ 2), ('' KB'', 1024), ('' B'', 1)]"

lemma shown_quotient:
  fixes v :: u64
  assumes "length (uintTo_StringOutput c) = 128"
  shows "screen (in_order [put_u64 m (v div u), put_text m name] c) =
      Print m (screen c) (decimal (unat v div unat u) @ text_bytes name)"
  using assms by (simp add: put_u64_screen Print_append unat_div)

lemma quotient_bounds: "0 < u \<Longrightarrow> n = v div u \<Longrightarrow> n * u \<le> v \<and> v < (n + 1) * u" for n u v :: nat
  using div_times_less_eq_dividend [of v u] dividend_less_times_div [of u v] by (simp add: algebra_simps)

text \<open>
  A size is shown as a whole number of the unit it is rounded down to. The number is below 2048
  except for terabytes, and at least 2 except for bytes: no unit is used for less than two of it.
\<close>

theorem sizePrint_shows:
  assumes "length (uintTo_StringOutput c) = 128"
  shows "\<exists>n name u. (name, u) \<in> set size_units \<and>
     screen (sizePrint m v c) = Print m (screen c) (decimal n @ text_bytes name) \<and>
     n * u \<le> unat v \<and> unat v < (n + 1) * u \<and> (u = 1 \<or> 2 \<le> n) \<and> (u = 1024 ^ 4 \<or> n < 2048)"
proof -
  have gt: "v div u > 1 \<longleftrightarrow> 2 \<le> unat v div unat u" for u :: u64
    by (auto simp: word_less_nat_alt unat_div)
  have small: "\<not> 2 \<le> unat v div unat u \<Longrightarrow> unat u = w * 1024 \<Longrightarrow> 0 < w \<Longrightarrow> unat v div w < 2048" for u :: u64 and w
    by (simp add: div_less_iff_less_mult algebra_simps not_le)
  have pick: ?thesis
    if "(name, unat u) \<in> set size_units"
      "sizePrint m v c = in_order [put_u64 m (v div u), put_text m name] c"
      "unat u = 1 \<or> 2 \<le> unat v div unat u" "unat u = 1024 ^ 4 \<or> unat v div unat u < 2048" "0 < unat u"
    for name and u :: u64
    using that quotient_bounds [of "unat u" _ "unat v"] shown_quotient [OF assms, of m v u name]
    by (intro exI [of _ "unat v div unat u"] exI [of _ name] exI [of _ "unat u"]) simp
  consider (tb) "2 \<le> unat v div unat (1099511627776 :: u64)"
    | (gb) "\<not> 2 \<le> unat v div unat (1099511627776 :: u64)" "2 \<le> unat v div unat (1073741824 :: u64)"
    | (mb) "\<not> 2 \<le> unat v div unat (1099511627776 :: u64)" "\<not> 2 \<le> unat v div unat (1073741824 :: u64)"
        "2 \<le> unat v div unat (1048576 :: u64)"
    | (kb) "\<not> 2 \<le> unat v div unat (1099511627776 :: u64)" "\<not> 2 \<le> unat v div unat (1073741824 :: u64)"
        "\<not> 2 \<le> unat v div unat (1048576 :: u64)" "2 \<le> unat v div unat (1024 :: u64)"
    | (b) "\<not> 2 \<le> unat v div unat (1099511627776 :: u64)" "\<not> 2 \<le> unat v div unat (1073741824 :: u64)"
        "\<not> 2 \<le> unat v div unat (1048576 :: u64)" "\<not> 2 \<le> unat v div unat (1024 :: u64)"
    by blast
  then show ?thesis
  proof cases
    case tb
    then show ?thesis by (intro pick [of "'' TB''" 1099511627776]) (simp_all add: size_units_def sizePrint_def gt)
  next
    case gb
    then show ?thesis using small [OF gb(1), of 1073741824]
      by (intro pick [of "'' GB''" 1073741824]) (simp_all add: size_units_def sizePrint_def gt)
  next
    case mb
    then show ?thesis using small [OF mb(2), of 1048576]
      by (intro pick [of "'' MB''" 1048576]) (simp_all add: size_units_def sizePrint_def gt)
  next
    case kb
    then show ?thesis using small [OF kb(3), of 1024]
      by (intro pick [of "'' KB''" 1024]) (simp_all add: size_units_def sizePrint_def gt)
  next
    case b
    then show ?thesis using small [OF b(4), of 1]
      by (intro pick [of "'' B''" 1]) (simp_all add: size_units_def sizePrint_def gt)
  qed
qed

definition example_console :: console where
  "example_console = \<lparr>screen = small_renderer, uintTo_StringOutput = replicate 128 0,
     intTo_StringOutput = replicate 128 0, hexTo_StringOutput = replicate 128 0\<rparr>"

theorem sizePrint_shows_witness:
  "\<exists>n name u. (name, u) \<in> set size_units \<and> n * u \<le> 4096 \<and> 4096 < (n + 1) * u \<and>
     screen (sizePrint (\<lambda>_. 0) 4096 example_console) =
       Print (\<lambda>_. 0) small_renderer (decimal n @ text_bytes name)"
proof -
  have "length (uintTo_StringOutput example_console) = 128" "screen example_console = small_renderer"
    by (simp_all add: example_console_def)
  then show ?thesis using sizePrint_shows [of example_console "\<lambda>_. 0" 4096] by auto
qed

subsection \<open>The cursor and the colour around the statistics\<close>

text \<open>What a report keeps: the size of the grid, the left margin, and the cursor inside the grid.\<close>

definition prints :: "console \<Rightarrow> console \<Rightarrow> bool" where
  "prints c c' \<longleftrightarrow> xGridMax (screen c') = xGridMax (screen c) \<and> yGridMax (screen c') = yGridMax (screen c) \<and>
     baseXOff (screen c') = baseXOff (screen c) \<and> (cursor_ok (screen c) \<longrightarrow> cursor_ok (screen c'))"

named_theorems reports \<open>operations that only print\<close>

lemma prints_refl: "prints c c"
  by (simp add: prints_def)

lemma prints_trans: "prints a b \<Longrightarrow> prints b c \<Longrightarrow> prints a c"
  by (simp add: prints_def)

lemma prints_in_order: "(\<And>f c. f \<in> set fs \<Longrightarrow> prints c (f c)) \<Longrightarrow> prints c (in_order fs c)"
proof (induction fs arbitrary: c)
  case (Cons f fs)
  then have "prints c (f c)" "prints (f c) (in_order fs (f c))" by simp_all
  then show ?case by (simp add: prints_trans [of c "f c"])
qed (simp add: prints_refl)

lemma prints_chars [reports]: "prints c (put_chars m str c)"
  by (simp add: prints_def Print_frame Print_keeps_cursor)

lemma prints_text [reports]: "prints c (put_text m s c)"
  by (simp add: put_text_def reports)

lemma prints_newline [reports]: "prints c (statNewLine m c)"
  by (simp add: prints_def NewLine_Print Print_frame Print_keeps_cursor)

lemma prints_color [reports]: "prints c (put_color col c)"
  by (simp add: prints_def SetColor_def cursor_ok_def)

lemma prints_numbers [reports]: "prints c (put_u64 m v c)" "prints c (put_i64 m v c)" "prints c (put_hex m v c)"
  by (simp_all add: put_u64_def put_i64_def put_hex_def Let_def prints_def Print_frame Print_keeps_cursor)

lemma prints_two: "(\<And>c. prints c (f c)) \<Longrightarrow> (\<And>c. prints c (g c)) \<Longrightarrow> prints c (in_order [f, g] c)"
  by (rule prints_in_order) auto

lemma prints_size [reports]: "prints c (sizePrint m v c)"
  unfolding sizePrint_def by (simp del: in_order.simps add: prints_two reports)

lemma prints_caption [reports]: "prints c (caption m s c)"
  unfolding caption_def by (rule prints_in_order) (auto simp: reports)

lemma prints_statistics [reports]:
  "prints c (ShowRAM m s c)" "prints c (ShowHeap m h c)" "prints c (ShowBasicFrameBuffer m c)"
proof -
  show "prints c (ShowRAM m s c)" unfolding ShowRAM_def by (rule prints_in_order) (auto simp: reports)
  show "prints c (ShowHeap m h c)" unfolding ShowHeap_def by (rule prints_in_order) (auto simp: reports)
  show "prints c (ShowBasicFrameBuffer m c)"
    unfolding ShowBasicFrameBuffer_def Let_def
    by (rule prints_trans; rule prints_in_order) (auto simp: reports)
qed

lemma cursor_ok_SetCursor: "cursor_ok r \<Longrightarrow> cursor_ok (SetCursor r x y)"
  by (auto simp: SetCursor_def cursor_ok_def word_less_def word_le_def)

lemma SetCursor_grid [simp]: "xGridMax (SetCursor r x y) = xGridMax r" "yGridMax (SetCursor r x y) = yGridMax r"
  by (simp_all add: SetCursor_def)

lemma uint_word_of_int_in: "0 \<le> k \<Longrightarrow> k < uint (w :: u32) \<Longrightarrow> uint (word_of_int k :: u32) = k"
  using uint_lt2p [of w] by (simp add: uint_word_of_int)

text \<open>
  Showing the statistics somewhere else on the screen puts the colour and the cursor back, and
  makes the cursor's column the new left margin.
\<close>

theorem ShowOSStats_at_returns:
  assumes "cursor_ok (screen c)" and "r = screen (ShowOSStats_at m s h x y c)"
  shows "color r = color (screen c) \<and> textX r = textX (screen c) \<and> textY r = textY (screen c) \<and>
    uint (baseXOff r) = textX (screen c) \<and> cursor_ok r"
proof -
  let ?c0 = "with_screen (\<lambda>r. SetCursor r x y) c"
  define c1 where "c1 = in_order [put_color BR_WHITE, put_text m ''OS Stats:'', statNewLine m,
      ShowRAM m s, ShowHeap m h, ShowBasicFrameBuffer m, put_color BR_WHITE] ?c0"
  have "prints ?c0 c1" unfolding c1_def by (rule prints_in_order) (auto simp: reports)
  moreover have "cursor_ok (screen ?c0)" using assms(1) by (simp add: cursor_ok_SetCursor)
  ultimately have c1: "cursor_ok (screen c1)" "xGridMax (screen c1) = xGridMax (screen c)"
      "yGridMax (screen c1) = yGridMax (screen c)"
    by (simp_all add: prints_def)
  have r: "r = SetCursor (SetColor (screen c1) (color (screen c)))
      (word_of_int (textX (screen c))) (word_of_int (textY (screen c)))"
    by (simp add: assms(2) ShowOSStats_at_def c1_def GetColor_def GetCursorX_def GetCursorY_def)
  have b: "0 \<le> textX (screen c)" "textX (screen c) < uint (xGridMax (screen c))"
      "0 \<le> textY (screen c)" "textY (screen c) < uint (yGridMax (screen c))"
    using assms(1) uint_lt2p uint_ge_0 [of "baseXOff (screen c)"] unfolding cursor_ok_def by linarith+
  note same = uint_word_of_int_in [OF b(1,2)] uint_word_of_int_in [OF b(3,4)]
  have "cursor_ok r"
    unfolding r by (rule cursor_ok_SetCursor) (use c1(1) in \<open>simp add: SetColor_def cursor_ok_def\<close>)
  then show ?thesis
    using b same c1 by (simp add: r SetCursor_def SetColor_def word_less_def word_le_def)
qed

theorem ShowOSStats_at_returns_witness:
  "cursor_ok (screen (ShowOSStats_at (\<lambda>_. 0) small_allocator page_heap 2 1 example_console))"
proof -
  have "cursor_ok (screen example_console)" by (simp add: example_console_def small_renderer_ok)
  then show ?thesis using ShowOSStats_at_returns [OF _ refl, of example_console "\<lambda>_. 0" small_allocator page_heap "2" "1"] by blast
qed

subsection \<open>The walk over the heap ends\<close>

primrec walk_lines :: "mem \<Rightarrow> 'b heap \<Rightarrow> u64 \<Rightarrow> u64 list \<Rightarrow> console \<Rightarrow> console" where
  "walk_lines m h k [] c = c"
| "walk_lines m h k (a # as) c = walk_lines m h (k + 1) as (walk_line m h k a c)"

lemma WalkHeap_loop_lines:
  "dseg (hdrs h) p x k as q NULL e \<Longrightarrow> WalkHeap_loop m h x n c = Some (walk_lines m h n as c)"
proof (induction as arbitrary: p x k n c)
  case Nil
  then show ?case by (simp add: WalkHeap_loop.simps)
next
  case (Cons a as)
  then show ?case by (auto simp: WalkHeap_loop.simps [of m h x])
qed

text \<open>
  On a well-formed heap the walk ends, and prints one line for each segment in address order,
  numbered from 0.
\<close>

theorem WalkHeap_ends:
  assumes "heap_rep h sg"
  shows "WalkHeap m h c = Some (walk_lines m h 0 (map fst sg) (showInfo m (text_bytes ''Heap walkthru'') c))"
  using assms WalkHeap_loop_lines unfolding heap_rep_def heap_segs_def WalkHeap_def by blast

theorem WalkHeap_ends_witness:
  "WalkHeap (\<lambda>_. 0) page_heap example_console =
     Some (walk_line (\<lambda>_. 0) page_heap 0 0x100000 (showInfo (\<lambda>_. 0) (text_bytes ''Heap walkthru'') example_console))"
  using WalkHeap_ends [OF page_heap_rep, of "\<lambda>_. 0" example_console] by simp

end
