(* ===== verification/Cpu.thy ===== *)
theory Cpu
  imports ByteMem
begin

section \<open>The processor (kernel/src/cpu/)\<close>

text \<open>
  The feature bits that the kernel knows, the assembly routines that ask the processor for its
  vendor, brand and features, the stored description, and the tests of one feature each.
\<close>

subsection \<open>Enumerations (cpuid.hpp)\<close>

datatype CPUIDVendorID =
  CPUID_VENDOR_OLDAMD | CPUID_VENDOR_AMD | CPUID_VENDOR_INTEL | CPUID_VENDOR_OLDTRANSMETA |
  CPUID_VENDOR_TRANSMETA | CPUID_VENDOR_CYRIX | CPUID_VENDOR_CENTAUR | CPUID_VENDOR_NEXGEN |
  CPUID_VENDOR_UMC | CPUID_VENDOR_SIS | CPUID_VENDOR_NSC | CPUID_VENDOR_RISE |
  CPUID_VENDOR_VORTEX | CPUID_VENDOR_VIA | CPUID_VENDOR_VMWARE | CPUID_VENDOR_XENHVM |
  CPUID_VENDOR_MICROSOFT_HV | CPUID_VENDOR_PARALLELS

fun CPUIDVendorID_value :: "CPUIDVendorID \<Rightarrow> u32" where
  "CPUIDVendorID_value CPUID_VENDOR_OLDAMD = 0x21726574"
| "CPUIDVendorID_value CPUID_VENDOR_AMD = 0x444d4163"
| "CPUIDVendorID_value CPUID_VENDOR_INTEL = 0x6c65746e"
| "CPUIDVendorID_value CPUID_VENDOR_OLDTRANSMETA = 0x55504361"
| "CPUIDVendorID_value CPUID_VENDOR_TRANSMETA = 0x3638784d"
| "CPUIDVendorID_value CPUID_VENDOR_CYRIX = 0x64616574"
| "CPUIDVendorID_value CPUID_VENDOR_CENTAUR = 0x736c7561"
| "CPUIDVendorID_value CPUID_VENDOR_NEXGEN = 0x6e657669"
| "CPUIDVendorID_value CPUID_VENDOR_UMC = 0x20434d55"
| "CPUIDVendorID_value CPUID_VENDOR_SIS = 0x20536953"
| "CPUIDVendorID_value CPUID_VENDOR_NSC = 0x43534e20"
| "CPUIDVendorID_value CPUID_VENDOR_RISE = 0x65736952"
| "CPUIDVendorID_value CPUID_VENDOR_VORTEX = 0x436f5320"
| "CPUIDVendorID_value CPUID_VENDOR_VIA = 0x20414956"
| "CPUIDVendorID_value CPUID_VENDOR_VMWARE = 0x65726177"
| "CPUIDVendorID_value CPUID_VENDOR_XENHVM = 0x4d4d566e"
| "CPUIDVendorID_value CPUID_VENDOR_MICROSOFT_HV = 0x76482074"
| "CPUIDVendorID_value CPUID_VENDOR_PARALLELS = 0x72762068"

datatype CPUIDFeatureSet1 =
  CPUID_FPU | CPUID_VME | CPUID_DE | CPUID_PSE | CPUID_TSC | CPUID_MSR | CPUID_PAE |
  CPUID_MCE | CPUID_CX8 | CPUID_APIC | CPUID_SEP | CPUID_MTRR | CPUID_PGE | CPUID_MCA |
  CPUID_CMOV | CPUID_PAT | CPUID_PSE36 | CPUID_PSN | CPUID_CLF | CPUID_DTES | CPUID_ACPI |
  CPUID_MMX | CPUID_FXSR | CPUID_SSE | CPUID_SSE2 | CPUID_SS | CPUID_HTT | CPUID_TM1 |
  CPUID_IA64 | CPUID_PBE

fun CPUIDFeatureSet1_value :: "CPUIDFeatureSet1 \<Rightarrow> u32" where
  "CPUIDFeatureSet1_value CPUID_FPU = push_bit 0 1"
| "CPUIDFeatureSet1_value CPUID_VME = push_bit 1 1"
| "CPUIDFeatureSet1_value CPUID_DE = push_bit 2 1"
| "CPUIDFeatureSet1_value CPUID_PSE = push_bit 3 1"
| "CPUIDFeatureSet1_value CPUID_TSC = push_bit 4 1"
| "CPUIDFeatureSet1_value CPUID_MSR = push_bit 5 1"
| "CPUIDFeatureSet1_value CPUID_PAE = push_bit 6 1"
| "CPUIDFeatureSet1_value CPUID_MCE = push_bit 7 1"
| "CPUIDFeatureSet1_value CPUID_CX8 = push_bit 8 1"
| "CPUIDFeatureSet1_value CPUID_APIC = push_bit 9 1"
| "CPUIDFeatureSet1_value CPUID_SEP = push_bit 11 1"
| "CPUIDFeatureSet1_value CPUID_MTRR = push_bit 12 1"
| "CPUIDFeatureSet1_value CPUID_PGE = push_bit 13 1"
| "CPUIDFeatureSet1_value CPUID_MCA = push_bit 14 1"
| "CPUIDFeatureSet1_value CPUID_CMOV = push_bit 15 1"
| "CPUIDFeatureSet1_value CPUID_PAT = push_bit 16 1"
| "CPUIDFeatureSet1_value CPUID_PSE36 = push_bit 17 1"
| "CPUIDFeatureSet1_value CPUID_PSN = push_bit 18 1"
| "CPUIDFeatureSet1_value CPUID_CLF = push_bit 19 1"
| "CPUIDFeatureSet1_value CPUID_DTES = push_bit 21 1"
| "CPUIDFeatureSet1_value CPUID_ACPI = push_bit 22 1"
| "CPUIDFeatureSet1_value CPUID_MMX = push_bit 23 1"
| "CPUIDFeatureSet1_value CPUID_FXSR = push_bit 24 1"
| "CPUIDFeatureSet1_value CPUID_SSE = push_bit 25 1"
| "CPUIDFeatureSet1_value CPUID_SSE2 = push_bit 26 1"
| "CPUIDFeatureSet1_value CPUID_SS = push_bit 27 1"
| "CPUIDFeatureSet1_value CPUID_HTT = push_bit 28 1"
| "CPUIDFeatureSet1_value CPUID_TM1 = push_bit 29 1"
| "CPUIDFeatureSet1_value CPUID_IA64 = push_bit 30 1"
| "CPUIDFeatureSet1_value CPUID_PBE = push_bit 31 1"

datatype CPUIDValueShifts =
  CPUID_VALUE_BRAND_INDEX | CPUID_VALUE_CLFLUSH_SIZE | CPUID_VALUE_MAX_LOGICAL_PROCESSORS |
  CPUID_VALUE_LOCAL_APIC_ID

fun CPUIDValueShifts_value :: "CPUIDValueShifts \<Rightarrow> u32" where
  "CPUIDValueShifts_value CPUID_VALUE_BRAND_INDEX = 0"
| "CPUIDValueShifts_value CPUID_VALUE_CLFLUSH_SIZE = 8"
| "CPUIDValueShifts_value CPUID_VALUE_MAX_LOGICAL_PROCESSORS = 16"
| "CPUIDValueShifts_value CPUID_VALUE_LOCAL_APIC_ID = 24"

datatype CPUIDFeatureSet2 =
  CPUID_SSE3 | CPUID_PCLMUL | CPUID_DTES64 | CPUID_MONITOR | CPUID_DS_CPL | CPUID_VMX |
  CPUID_SMX | CPUID_EST | CPUID_TM2 | CPUID_SSSE3 | CPUID_CID | CPUID_FMA | CPUID_CX16 |
  CPUID_ETPRD | CPUID_PDCM | CPUID_PCID | CPUID_DCA | CPUID_SSE4_1 | CPUID_SSE4_2 |
  CPUID_X2APIC | CPUID_MOVBE | CPUID_POPCNT | CPUID_AES | CPUID_XSAVE | CPUID_OSXSAVE |
  CPUID_AVX | CPUID_F16C | CPUID_RDRAND | CPUID_HYPERV

fun CPUIDFeatureSet2_value :: "CPUIDFeatureSet2 \<Rightarrow> u32" where
  "CPUIDFeatureSet2_value CPUID_SSE3 = push_bit 0 1"
| "CPUIDFeatureSet2_value CPUID_PCLMUL = push_bit 1 1"
| "CPUIDFeatureSet2_value CPUID_DTES64 = push_bit 2 1"
| "CPUIDFeatureSet2_value CPUID_MONITOR = push_bit 3 1"
| "CPUIDFeatureSet2_value CPUID_DS_CPL = push_bit 4 1"
| "CPUIDFeatureSet2_value CPUID_VMX = push_bit 5 1"
| "CPUIDFeatureSet2_value CPUID_SMX = push_bit 6 1"
| "CPUIDFeatureSet2_value CPUID_EST = push_bit 7 1"
| "CPUIDFeatureSet2_value CPUID_TM2 = push_bit 8 1"
| "CPUIDFeatureSet2_value CPUID_SSSE3 = push_bit 9 1"
| "CPUIDFeatureSet2_value CPUID_CID = push_bit 10 1"
| "CPUIDFeatureSet2_value CPUID_FMA = push_bit 12 1"
| "CPUIDFeatureSet2_value CPUID_CX16 = push_bit 13 1"
| "CPUIDFeatureSet2_value CPUID_ETPRD = push_bit 14 1"
| "CPUIDFeatureSet2_value CPUID_PDCM = push_bit 15 1"
| "CPUIDFeatureSet2_value CPUID_PCID = push_bit 17 1"
| "CPUIDFeatureSet2_value CPUID_DCA = push_bit 18 1"
| "CPUIDFeatureSet2_value CPUID_SSE4_1 = push_bit 19 1"
| "CPUIDFeatureSet2_value CPUID_SSE4_2 = push_bit 20 1"
| "CPUIDFeatureSet2_value CPUID_X2APIC = push_bit 21 1"
| "CPUIDFeatureSet2_value CPUID_MOVBE = push_bit 22 1"
| "CPUIDFeatureSet2_value CPUID_POPCNT = push_bit 23 1"
| "CPUIDFeatureSet2_value CPUID_AES = push_bit 25 1"
| "CPUIDFeatureSet2_value CPUID_XSAVE = push_bit 26 1"
| "CPUIDFeatureSet2_value CPUID_OSXSAVE = push_bit 27 1"
| "CPUIDFeatureSet2_value CPUID_AVX = push_bit 28 1"
| "CPUIDFeatureSet2_value CPUID_F16C = push_bit 29 1"
| "CPUIDFeatureSet2_value CPUID_RDRAND = push_bit 30 1"
| "CPUIDFeatureSet2_value CPUID_HYPERV = push_bit 31 1"

datatype CPUIDFeatureSet3 =
  CPUID_FSGSBASE | CPUID_SGX | CPUID_BMI1 | CPUID_HLE | CPUID_AVX2 | CPUID_SMEP | CPUID_BMI2
  | CPUID_ERMS | CPUID_INVPCID | CPUID_RTM | CPUID_PQM | CPUID_MPX | CPUID_PQE |
  CPUID_AVX512_F | CPUID_AVX512_DQ | CPUID_RDSEED | CPUID_ADX | CPUID_SMAP |
  CPUID_AVX512_IFMA | CPUID_PCOMMIT | CPUID_CLFLUSHOPT | CPUID_CLWB | CPUID_INTEL_PT |
  CPUID_AVX512_PF | CPUID_AVX512_ER | CPUID_AVX512_CD | CPUID_SHA | CPUID_AVX512_BW |
  CPUID_AVX512_VL

fun CPUIDFeatureSet3_value :: "CPUIDFeatureSet3 \<Rightarrow> u32" where
  "CPUIDFeatureSet3_value CPUID_FSGSBASE = push_bit 0 1"
| "CPUIDFeatureSet3_value CPUID_SGX = push_bit 2 1"
| "CPUIDFeatureSet3_value CPUID_BMI1 = push_bit 3 1"
| "CPUIDFeatureSet3_value CPUID_HLE = push_bit 4 1"
| "CPUIDFeatureSet3_value CPUID_AVX2 = push_bit 5 1"
| "CPUIDFeatureSet3_value CPUID_SMEP = push_bit 7 1"
| "CPUIDFeatureSet3_value CPUID_BMI2 = push_bit 8 1"
| "CPUIDFeatureSet3_value CPUID_ERMS = push_bit 9 1"
| "CPUIDFeatureSet3_value CPUID_INVPCID = push_bit 10 1"
| "CPUIDFeatureSet3_value CPUID_RTM = push_bit 11 1"
| "CPUIDFeatureSet3_value CPUID_PQM = push_bit 12 1"
| "CPUIDFeatureSet3_value CPUID_MPX = push_bit 14 1"
| "CPUIDFeatureSet3_value CPUID_PQE = push_bit 15 1"
| "CPUIDFeatureSet3_value CPUID_AVX512_F = push_bit 16 1"
| "CPUIDFeatureSet3_value CPUID_AVX512_DQ = push_bit 17 1"
| "CPUIDFeatureSet3_value CPUID_RDSEED = push_bit 18 1"
| "CPUIDFeatureSet3_value CPUID_ADX = push_bit 19 1"
| "CPUIDFeatureSet3_value CPUID_SMAP = push_bit 20 1"
| "CPUIDFeatureSet3_value CPUID_AVX512_IFMA = push_bit 21 1"
| "CPUIDFeatureSet3_value CPUID_PCOMMIT = push_bit 22 1"
| "CPUIDFeatureSet3_value CPUID_CLFLUSHOPT = push_bit 23 1"
| "CPUIDFeatureSet3_value CPUID_CLWB = push_bit 24 1"
| "CPUIDFeatureSet3_value CPUID_INTEL_PT = push_bit 25 1"
| "CPUIDFeatureSet3_value CPUID_AVX512_PF = push_bit 26 1"
| "CPUIDFeatureSet3_value CPUID_AVX512_ER = push_bit 27 1"
| "CPUIDFeatureSet3_value CPUID_AVX512_CD = push_bit 28 1"
| "CPUIDFeatureSet3_value CPUID_SHA = push_bit 29 1"
| "CPUIDFeatureSet3_value CPUID_AVX512_BW = push_bit 30 1"
| "CPUIDFeatureSet3_value CPUID_AVX512_VL = push_bit 31 1"

datatype CPUIDFeatureSet4 =
  CPUID_PREFETCHWT1 | CPUID_AVX512_VBMI | CPUID_UMIP | CPUID_PKU | CPUID_OSPKE |
  CPUID_WAITPKG | CPUID_AVX512_VBMI2 | CPUID_CET_SS | CPUID_GFNI | CPUID_VAES |
  CPUID_VPCLMULQDQ | CPUID_AVX512_VNNI | CPUID_AVX512_BITALG | CPUID_AVX512_VPOPCNTDQ |
  CPUID_RDPID | CPUID_CLDEMOTE | CPUID_MOVDIRI | CPUID_MOVDIR64B | CPUID_ENQCMD |
  CPUID_SGX_LC | CPUID_PKS

fun CPUIDFeatureSet4_value :: "CPUIDFeatureSet4 \<Rightarrow> u32" where
  "CPUIDFeatureSet4_value CPUID_PREFETCHWT1 = push_bit 0 1"
| "CPUIDFeatureSet4_value CPUID_AVX512_VBMI = push_bit 1 1"
| "CPUIDFeatureSet4_value CPUID_UMIP = push_bit 2 1"
| "CPUIDFeatureSet4_value CPUID_PKU = push_bit 3 1"
| "CPUIDFeatureSet4_value CPUID_OSPKE = push_bit 4 1"
| "CPUIDFeatureSet4_value CPUID_WAITPKG = push_bit 5 1"
| "CPUIDFeatureSet4_value CPUID_AVX512_VBMI2 = push_bit 6 1"
| "CPUIDFeatureSet4_value CPUID_CET_SS = push_bit 7 1"
| "CPUIDFeatureSet4_value CPUID_GFNI = push_bit 8 1"
| "CPUIDFeatureSet4_value CPUID_VAES = push_bit 9 1"
| "CPUIDFeatureSet4_value CPUID_VPCLMULQDQ = push_bit 10 1"
| "CPUIDFeatureSet4_value CPUID_AVX512_VNNI = push_bit 11 1"
| "CPUIDFeatureSet4_value CPUID_AVX512_BITALG = push_bit 12 1"
| "CPUIDFeatureSet4_value CPUID_AVX512_VPOPCNTDQ = push_bit 14 1"
| "CPUIDFeatureSet4_value CPUID_RDPID = push_bit 22 1"
| "CPUIDFeatureSet4_value CPUID_CLDEMOTE = push_bit 25 1"
| "CPUIDFeatureSet4_value CPUID_MOVDIRI = push_bit 27 1"
| "CPUIDFeatureSet4_value CPUID_MOVDIR64B = push_bit 28 1"
| "CPUIDFeatureSet4_value CPUID_ENQCMD = push_bit 29 1"
| "CPUIDFeatureSet4_value CPUID_SGX_LC = push_bit 30 1"
| "CPUIDFeatureSet4_value CPUID_PKS = push_bit 31 1"

datatype CPUIDFeatureSet5 =
  CPUID_AVX512_4VNNIW | CPUID_AVX512_4FMAPS | CPUID_FSRM | CPUID_AVX512_VP2INTERSECT |
  CPUID_SRBDS_CTRL | CPUID_MD_CLEAR | CPUID_TSX_FORCE_ABORT | CPUID_SERIALIZE | CPUID_HYBRID
  | CPUID_TSXLDTRK | CPUID_PCONFIG | CPUID_LBR | CPUID_CET_IBT | CPUID_AMX_BF16 |
  CPUID_AMX_TILE | CPUID_AMX_INT8 | CPUID_IBRS_IBPB | CPUID_STIBP | CPUID_L1D_FLUSH |
  CPUID_SSBD

fun CPUIDFeatureSet5_value :: "CPUIDFeatureSet5 \<Rightarrow> u32" where
  "CPUIDFeatureSet5_value CPUID_AVX512_4VNNIW = push_bit 2 1"
| "CPUIDFeatureSet5_value CPUID_AVX512_4FMAPS = push_bit 3 1"
| "CPUIDFeatureSet5_value CPUID_FSRM = push_bit 4 1"
| "CPUIDFeatureSet5_value CPUID_AVX512_VP2INTERSECT = push_bit 8 1"
| "CPUIDFeatureSet5_value CPUID_SRBDS_CTRL = push_bit 9 1"
| "CPUIDFeatureSet5_value CPUID_MD_CLEAR = push_bit 10 1"
| "CPUIDFeatureSet5_value CPUID_TSX_FORCE_ABORT = push_bit 13 1"
| "CPUIDFeatureSet5_value CPUID_SERIALIZE = push_bit 14 1"
| "CPUIDFeatureSet5_value CPUID_HYBRID = push_bit 15 1"
| "CPUIDFeatureSet5_value CPUID_TSXLDTRK = push_bit 16 1"
| "CPUIDFeatureSet5_value CPUID_PCONFIG = push_bit 18 1"
| "CPUIDFeatureSet5_value CPUID_LBR = push_bit 19 1"
| "CPUIDFeatureSet5_value CPUID_CET_IBT = push_bit 20 1"
| "CPUIDFeatureSet5_value CPUID_AMX_BF16 = push_bit 22 1"
| "CPUIDFeatureSet5_value CPUID_AMX_TILE = push_bit 24 1"
| "CPUIDFeatureSet5_value CPUID_AMX_INT8 = push_bit 25 1"
| "CPUIDFeatureSet5_value CPUID_IBRS_IBPB = push_bit 26 1"
| "CPUIDFeatureSet5_value CPUID_STIBP = push_bit 27 1"
| "CPUIDFeatureSet5_value CPUID_L1D_FLUSH = push_bit 28 1"
| "CPUIDFeatureSet5_value CPUID_SSBD = push_bit 31 1"

datatype CPUIDFeatureSet6 =
  CPUID_AVX512_BF16

fun CPUIDFeatureSet6_value :: "CPUIDFeatureSet6 \<Rightarrow> u32" where
  "CPUIDFeatureSet6_value CPUID_AVX512_BF16 = push_bit 5 1"

datatype CPUIDFeatureSetAMD1 =
  CPUID_MP | CPUID_NX | CPUID_MMXEXT | CPUID_FXSR_OPT | CPUID_PDPE1GB | CPUID_RDTSCP |
  CPUID_LM | CPUID_3DNOWEXT | CPUID_3DNOW

fun CPUIDFeatureSetAMD1_value :: "CPUIDFeatureSetAMD1 \<Rightarrow> u32" where
  "CPUIDFeatureSetAMD1_value CPUID_MP = push_bit 19 1"
| "CPUIDFeatureSetAMD1_value CPUID_NX = push_bit 20 1"
| "CPUIDFeatureSetAMD1_value CPUID_MMXEXT = push_bit 22 1"
| "CPUIDFeatureSetAMD1_value CPUID_FXSR_OPT = push_bit 25 1"
| "CPUIDFeatureSetAMD1_value CPUID_PDPE1GB = push_bit 26 1"
| "CPUIDFeatureSetAMD1_value CPUID_RDTSCP = push_bit 27 1"
| "CPUIDFeatureSetAMD1_value CPUID_LM = push_bit 29 1"
| "CPUIDFeatureSetAMD1_value CPUID_3DNOWEXT = push_bit 30 1"
| "CPUIDFeatureSetAMD1_value CPUID_3DNOW = push_bit 31 1"

datatype CPUIDFeatureSetAMD2 =
  CPUID_LAHF_LM | CPUID_CMP_LEGACY | CPUID_SVM | CPUID_EXTAPIC | CPUID_CR8_LEGACY |
  CPUID_ABM | CPUID_SSE4A | CPUID_MISALIGNSSE | CPUID_3DNOWPREFETCH | CPUID_OSVW | CPUID_IBS
  | CPUID_XOP | CPUID_SKINIT | CPUID_WDT | CPUID_LWP | CPUID_FMA4 | CPUID_TCE |
  CPUID_NODEID_MSR | CPUID_TBM | CPUID_TOPOEXT | CPUID_PERFCTR_CORE | CPUID_PERFCTR_NB |
  CPUID_DBX | CPUID_PERFTSC | CPUID_PCX_L2I

fun CPUIDFeatureSetAMD2_value :: "CPUIDFeatureSetAMD2 \<Rightarrow> u32" where
  "CPUIDFeatureSetAMD2_value CPUID_LAHF_LM = push_bit 0 1"
| "CPUIDFeatureSetAMD2_value CPUID_CMP_LEGACY = push_bit 1 1"
| "CPUIDFeatureSetAMD2_value CPUID_SVM = push_bit 2 1"
| "CPUIDFeatureSetAMD2_value CPUID_EXTAPIC = push_bit 3 1"
| "CPUIDFeatureSetAMD2_value CPUID_CR8_LEGACY = push_bit 4 1"
| "CPUIDFeatureSetAMD2_value CPUID_ABM = push_bit 5 1"
| "CPUIDFeatureSetAMD2_value CPUID_SSE4A = push_bit 6 1"
| "CPUIDFeatureSetAMD2_value CPUID_MISALIGNSSE = push_bit 7 1"
| "CPUIDFeatureSetAMD2_value CPUID_3DNOWPREFETCH = push_bit 8 1"
| "CPUIDFeatureSetAMD2_value CPUID_OSVW = push_bit 9 1"
| "CPUIDFeatureSetAMD2_value CPUID_IBS = push_bit 10 1"
| "CPUIDFeatureSetAMD2_value CPUID_XOP = push_bit 11 1"
| "CPUIDFeatureSetAMD2_value CPUID_SKINIT = push_bit 12 1"
| "CPUIDFeatureSetAMD2_value CPUID_WDT = push_bit 13 1"
| "CPUIDFeatureSetAMD2_value CPUID_LWP = push_bit 15 1"
| "CPUIDFeatureSetAMD2_value CPUID_FMA4 = push_bit 16 1"
| "CPUIDFeatureSetAMD2_value CPUID_TCE = push_bit 17 1"
| "CPUIDFeatureSetAMD2_value CPUID_NODEID_MSR = push_bit 19 1"
| "CPUIDFeatureSetAMD2_value CPUID_TBM = push_bit 21 1"
| "CPUIDFeatureSetAMD2_value CPUID_TOPOEXT = push_bit 22 1"
| "CPUIDFeatureSetAMD2_value CPUID_PERFCTR_CORE = push_bit 23 1"
| "CPUIDFeatureSetAMD2_value CPUID_PERFCTR_NB = push_bit 24 1"
| "CPUIDFeatureSetAMD2_value CPUID_DBX = push_bit 26 1"
| "CPUIDFeatureSetAMD2_value CPUID_PERFTSC = push_bit 27 1"
| "CPUIDFeatureSetAMD2_value CPUID_PCX_L2I = push_bit 28 1"

subsection \<open>What the CPUID instruction reports (cpuid.asm)\<close>

text \<open>
  The instruction itself is the machine's: a parameter that gives the four registers for a leaf
  (EAX) and a sub-leaf (ECX). The assembly routines are written out with the registers they leave;
  \<open>rcx\<close> is what ECX holds when a routine is entered, which leaves without sub-leaves ignore.
\<close>

record cpuid_regs =
  reg_eax :: u32
  reg_ebx :: u32
  reg_ecx :: u32
  reg_edx :: u32

type_synonym cpuid_insn = "u32 \<Rightarrow> u32 \<Rightarrow> cpuid_regs"

record CPUIDFeatures =
  set1 :: u32
  cpu_values :: u32
  set2 :: u32
  set3 :: u32
  set4 :: u32
  set5 :: u32
  set6 :: u32
  amd1 :: u32
  amd2 :: u32

definition cpuid_get_local_apic_id :: "cpuid_insn \<Rightarrow> u32 \<Rightarrow> u8" where
  "cpuid_get_local_apic_id cpuid rcx = ucast (drop_bit 24 (reg_ebx (cpuid 1 rcx)) AND 0xff)"

definition cpuid_get_vendor :: "cpuid_insn \<Rightarrow> u32 \<Rightarrow> u32" where
  "cpuid_get_vendor cpuid rcx = reg_ecx (cpuid 0 rcx)"

text \<open>A store of a register into an array of characters, at a byte offset.\<close>

definition store_reg :: "nat \<Rightarrow> u32 \<Rightarrow> u8 list \<Rightarrow> u8 list" where
  "store_reg i w str = take i str @ le_bytes 4 w @ drop (i + 4) str"

definition cpuid_get_vendor_str :: "cpuid_insn \<Rightarrow> u32 \<Rightarrow> u8 list \<Rightarrow> u8 list" where
  "cpuid_get_vendor_str cpuid rcx str = (let r = cpuid 0 rcx in
     store_reg 8 (reg_ecx r) (store_reg 4 (reg_edx r) (store_reg 0 (reg_ebx r) str)))"

text \<open>The comparison \<open>jl\<close> is signed.\<close>

definition cpuid_get_brand_str :: "cpuid_insn \<Rightarrow> u32 \<Rightarrow> u8 list \<Rightarrow> u8 list" where
  "cpuid_get_brand_str cpuid rcx str = (let r = cpuid 0x80000000 rcx in
     if reg_eax r <s 0x80000004 then str
     else let r2 = cpuid 0x80000002 (reg_ecx r);
              str = store_reg 12 (reg_edx r2) (store_reg 8 (reg_ecx r2)
                      (store_reg 4 (reg_ebx r2) (store_reg 0 (reg_eax r2) str)));
              r3 = cpuid 0x80000003 (reg_ecx r2);
              str = store_reg 28 (reg_edx r3) (store_reg 24 (reg_ecx r3)
                      (store_reg 20 (reg_ebx r3) (store_reg 16 (reg_eax r3) str)));
              r4 = cpuid 0x80000004 (reg_ecx r3)
          in store_reg 44 (reg_edx r4) (store_reg 40 (reg_ecx r4)
               (store_reg 36 (reg_ebx r4) (store_reg 32 (reg_eax r4) str))))"

text \<open>
  Before the leaf of set 6 only ECX is loaded: EAX still holds what leaf 7 left in it. The last
  two instructions add the bits of the AMD leaf that mean the same to set 1.
\<close>

definition cpuid_get_features :: "cpuid_insn \<Rightarrow> u32 \<Rightarrow> CPUIDFeatures" where
  "cpuid_get_features cpuid rcx = (let
     r1 = cpuid 1 rcx;
     r7 = cpuid 7 0;
     r6 = cpuid (reg_eax r7) 1;
     ra = cpuid 0x80000001 (reg_ecx r6)
   in \<lparr>set1 = reg_edx r1 OR (reg_edx ra AND 0x183FFFF), cpu_values = reg_ebx r1,
       set2 = reg_ecx r1, set3 = reg_ebx r7, set4 = reg_ecx r7, set5 = reg_edx r7,
       set6 = reg_eax r6, amd1 = reg_edx ra, amd2 = reg_ecx ra\<rparr>)"

text \<open>\<open>cpu_enable_features\<close> (features.asm): the control registers it leaves.\<close>

definition cpu_enable_features :: "u64 \<times> u64 \<Rightarrow> u64 \<times> u64" where
  "cpu_enable_features cr = ((fst cr AND 0xfffffffffffffffb) OR 0x22, snd cr OR 0x0406b0)"

subsection \<open>The processor's description (cpuInfo.cpp)\<close>

record CPUInfo =
  cpu_VendorID :: u32
  VendorString :: "u8 list"
  BrandString :: "u8 list"
  cpu_features :: CPUIDFeatures

text \<open>The global object before any code has run.\<close>

definition g_CPUInfo_boot :: CPUInfo where
  "g_CPUInfo_boot = \<lparr>cpu_VendorID = 0, VendorString = replicate 13 0, BrandString = replicate 49 0,
     cpu_features = \<lparr>set1 = 0, cpu_values = 0, set2 = 0, set3 = 0, set4 = 0, set5 = 0, set6 = 0,
       amd1 = 0, amd2 = 0\<rparr>\<rparr>"

definition GetCPUInfo :: "cpuid_insn \<Rightarrow> u32 \<Rightarrow> CPUInfo \<Rightarrow> CPUInfo" where
  "GetCPUInfo cpuid rcx g = (let
     g = g\<lparr>cpu_VendorID := cpuid_get_vendor cpuid rcx\<rparr>;
     g = g\<lparr>VendorString := cpuid_get_vendor_str cpuid rcx (VendorString g)\<rparr>;
     g = g\<lparr>BrandString := cpuid_get_brand_str cpuid rcx (BrandString g)\<rparr>
   in g\<lparr>cpu_features := cpuid_get_features cpuid rcx\<rparr>)"

subsection \<open>Feature tests (features.cpp)\<close>

text \<open>
  Every test reads the processor again and returns with the description it stored. The first
  compares an unsigned value with 0, the others convert it to \<open>bool\<close>.
\<close>

definition CPUFeature1 :: "cpuid_insn \<Rightarrow> u32 \<Rightarrow> CPUIDFeatureSet1 \<Rightarrow> CPUInfo \<Rightarrow> bool \<times> CPUInfo" where
  "CPUFeature1 cpuid rcx feature g = (let info = GetCPUInfo cpuid rcx g in
     if set1 (cpu_features info) = 0 then (False, info)
     else (0 < set1 (cpu_features info) AND CPUIDFeatureSet1_value feature, info))"

definition CPUFeature2 :: "cpuid_insn \<Rightarrow> u32 \<Rightarrow> CPUIDFeatureSet2 \<Rightarrow> CPUInfo \<Rightarrow> bool \<times> CPUInfo" where
  "CPUFeature2 cpuid rcx feature g = (let info = GetCPUInfo cpuid rcx g in
     if set2 (cpu_features info) = 0 then (False, info)
     else (set2 (cpu_features info) AND CPUIDFeatureSet2_value feature \<noteq> 0, info))"

definition CPUFeature3 :: "cpuid_insn \<Rightarrow> u32 \<Rightarrow> CPUIDFeatureSet3 \<Rightarrow> CPUInfo \<Rightarrow> bool \<times> CPUInfo" where
  "CPUFeature3 cpuid rcx feature g = (let info = GetCPUInfo cpuid rcx g in
     if set3 (cpu_features info) = 0 then (False, info)
     else (set3 (cpu_features info) AND CPUIDFeatureSet3_value feature \<noteq> 0, info))"

definition CPUFeature4 :: "cpuid_insn \<Rightarrow> u32 \<Rightarrow> CPUIDFeatureSet4 \<Rightarrow> CPUInfo \<Rightarrow> bool \<times> CPUInfo" where
  "CPUFeature4 cpuid rcx feature g = (let info = GetCPUInfo cpuid rcx g in
     if set4 (cpu_features info) = 0 then (False, info)
     else (set4 (cpu_features info) AND CPUIDFeatureSet4_value feature \<noteq> 0, info))"

definition CPUFeature5 :: "cpuid_insn \<Rightarrow> u32 \<Rightarrow> CPUIDFeatureSet5 \<Rightarrow> CPUInfo \<Rightarrow> bool \<times> CPUInfo" where
  "CPUFeature5 cpuid rcx feature g = (let info = GetCPUInfo cpuid rcx g in
     if set5 (cpu_features info) = 0 then (False, info)
     else (set5 (cpu_features info) AND CPUIDFeatureSet5_value feature \<noteq> 0, info))"

definition CPUFeature6 :: "cpuid_insn \<Rightarrow> u32 \<Rightarrow> CPUIDFeatureSet6 \<Rightarrow> CPUInfo \<Rightarrow> bool \<times> CPUInfo" where
  "CPUFeature6 cpuid rcx feature g = (let info = GetCPUInfo cpuid rcx g in
     if set6 (cpu_features info) = 0 then (False, info)
     else (set6 (cpu_features info) AND CPUIDFeatureSet6_value feature \<noteq> 0, info))"

definition CPUFeatureAMD1 :: "cpuid_insn \<Rightarrow> u32 \<Rightarrow> CPUIDFeatureSetAMD1 \<Rightarrow> CPUInfo \<Rightarrow> bool \<times> CPUInfo" where
  "CPUFeatureAMD1 cpuid rcx feature g = (let info = GetCPUInfo cpuid rcx g in
     if amd1 (cpu_features info) = 0 then (False, info)
     else (amd1 (cpu_features info) AND CPUIDFeatureSetAMD1_value feature \<noteq> 0, info))"

definition CPUFeatureAMD2 :: "cpuid_insn \<Rightarrow> u32 \<Rightarrow> CPUIDFeatureSetAMD2 \<Rightarrow> CPUInfo \<Rightarrow> bool \<times> CPUInfo" where
  "CPUFeatureAMD2 cpuid rcx feature g = (let info = GetCPUInfo cpuid rcx g in
     if amd2 (cpu_features info) = 0 then (False, info)
     else (amd2 (cpu_features info) AND CPUIDFeatureSetAMD2_value feature \<noteq> 0, info))"

definition CPU_FPU :: "cpuid_insn \<Rightarrow> u32 \<Rightarrow> CPUInfo \<Rightarrow> bool \<times> CPUInfo" where
  "CPU_FPU cpuid rcx = CPUFeature1 cpuid rcx CPUID_FPU"

definition CPU_APIC :: "cpuid_insn \<Rightarrow> u32 \<Rightarrow> CPUInfo \<Rightarrow> bool \<times> CPUInfo" where
  "CPU_APIC cpuid rcx = CPUFeature1 cpuid rcx CPUID_APIC"

definition CPU_SSE :: "cpuid_insn \<Rightarrow> u32 \<Rightarrow> CPUInfo \<Rightarrow> bool \<times> CPUInfo" where
  "CPU_SSE cpuid rcx = CPUFeature1 cpuid rcx CPUID_SSE"

definition CPU_X2APIC :: "cpuid_insn \<Rightarrow> u32 \<Rightarrow> CPUInfo \<Rightarrow> bool \<times> CPUInfo" where
  "CPU_X2APIC cpuid rcx = CPUFeature2 cpuid rcx CPUID_X2APIC"

subsection \<open>What the tests decide\<close>

lemma and_push_bit_iff: "x AND push_bit k 1 \<noteq> 0 \<longleftrightarrow> bit x k" if "k < LENGTH('a)" for x :: "'a::len word"
proof
  assume "x AND push_bit k 1 \<noteq> 0"
  then obtain n where "bit (x AND push_bit k 1) n" by (auto simp: bit_eq_iff)
  then show "bit x k" by (auto simp: bit_simps)
next
  assume "bit x k"
  then have "bit (x AND push_bit k 1) k" using that by (simp add: bit_simps)
  then show "x AND push_bit k 1 \<noteq> 0" by auto
qed

lemma bit_zero_test: "(if x = 0 then (False, i) else (bit x k, i)) = (bit x k, i)" for x :: "'a::len word"
  by simp

lemma CPUFeature1_bit:
  "CPUIDFeatureSet1_value f = push_bit k 1 \<Longrightarrow> k < 32 \<Longrightarrow>
   CPUFeature1 cpuid rcx f g =
     (bit (set1 (cpuid_get_features cpuid rcx)) k, GetCPUInfo cpuid rcx g)"
  using and_push_bit_iff [where x = "set1 (cpuid_get_features cpuid rcx)" and k = k]
  by (simp add: CPUFeature1_def GetCPUInfo_def Let_def word_neq_0_conv bit_zero_test)

lemma CPUFeature2_bit:
  "CPUIDFeatureSet2_value f = push_bit k 1 \<Longrightarrow> k < 32 \<Longrightarrow>
   CPUFeature2 cpuid rcx f g =
     (bit (set2 (cpuid_get_features cpuid rcx)) k, GetCPUInfo cpuid rcx g)"
  using and_push_bit_iff [where x = "set2 (cpuid_get_features cpuid rcx)" and k = k]
  by (simp add: CPUFeature2_def GetCPUInfo_def Let_def bit_zero_test)

lemma CPUFeature6_bit:
  "CPUIDFeatureSet6_value f = push_bit k 1 \<Longrightarrow> k < 32 \<Longrightarrow>
   CPUFeature6 cpuid rcx f g =
     (bit (set6 (cpuid_get_features cpuid rcx)) k, GetCPUInfo cpuid rcx g)"
  using and_push_bit_iff [where x = "set6 (cpuid_get_features cpuid rcx)" and k = k]
  by (simp add: CPUFeature6_def GetCPUInfo_def Let_def bit_zero_test)

lemma CPUIDFeatureSet1_single: "\<exists>k<32. CPUIDFeatureSet1_value f = push_bit k 1"
proof (cases f)
qed (simp only: CPUIDFeatureSet1_value.simps, rule exI, rule conjI [rotated], rule refl, simp)+

definition amd_leaf :: "cpuid_insn \<Rightarrow> cpuid_regs" where
  "amd_leaf cpuid = cpuid 0x80000001 (reg_ecx (cpuid (reg_eax (cpuid 7 0)) 1))"

lemma set1_bit:
  "bit (set1 (cpuid_get_features cpuid rcx)) k \<longleftrightarrow>
     bit (reg_edx (cpuid 1 rcx)) k \<or> bit (0x183FFFF :: u32) k \<and> bit (reg_edx (amd_leaf cpuid)) k"
  by (auto simp: cpuid_get_features_def amd_leaf_def Let_def bit_simps)

lemma set2_bit: "set2 (cpuid_get_features cpuid rcx) = reg_ecx (cpuid 1 rcx)"
  by (simp add: cpuid_get_features_def Let_def)

lemma CPU_APIC_bit:
  "CPU_APIC cpuid rcx g =
     (bit (reg_edx (cpuid 1 rcx)) 9 \<or> bit (reg_edx (amd_leaf cpuid)) 9, GetCPUInfo cpuid rcx g)"
  using CPUFeature1_bit [of CPUID_APIC 9] by (simp add: CPU_APIC_def set1_bit)

text \<open>
  Each test that the kernel offers decides one bit of what the processor reports: FPU and APIC in
  leaf 1 or in the extended leaf that repeats them, SSE and X2APIC in leaf 1 alone. It leaves the
  fresh description of the processor behind.
\<close>

theorem CPU_features_tested:
  "CPU_FPU cpuid rcx g =
     (bit (reg_edx (cpuid 1 rcx)) 0 \<or> bit (reg_edx (amd_leaf cpuid)) 0, GetCPUInfo cpuid rcx g) \<and>
   CPU_APIC cpuid rcx g =
     (bit (reg_edx (cpuid 1 rcx)) 9 \<or> bit (reg_edx (amd_leaf cpuid)) 9, GetCPUInfo cpuid rcx g) \<and>
   CPU_SSE cpuid rcx g = (bit (reg_edx (cpuid 1 rcx)) 25, GetCPUInfo cpuid rcx g) \<and>
   CPU_X2APIC cpuid rcx g = (bit (reg_ecx (cpuid 1 rcx)) 21, GetCPUInfo cpuid rcx g)"
proof (intro conjI)
  show "CPU_FPU cpuid rcx g =
     (bit (reg_edx (cpuid 1 rcx)) 0 \<or> bit (reg_edx (amd_leaf cpuid)) 0, GetCPUInfo cpuid rcx g)"
    using CPUFeature1_bit [of CPUID_FPU 0] by (simp add: CPU_FPU_def set1_bit)
  show "CPU_APIC cpuid rcx g =
     (bit (reg_edx (cpuid 1 rcx)) 9 \<or> bit (reg_edx (amd_leaf cpuid)) 9, GetCPUInfo cpuid rcx g)"
    by (rule CPU_APIC_bit)
  show "CPU_SSE cpuid rcx g = (bit (reg_edx (cpuid 1 rcx)) 25, GetCPUInfo cpuid rcx g)"
    using CPUFeature1_bit [of CPUID_SSE 25] by (simp add: CPU_SSE_def set1_bit)
  show "CPU_X2APIC cpuid rcx g = (bit (reg_ecx (cpuid 1 rcx)) 21, GetCPUInfo cpuid rcx g)"
    using CPUFeature2_bit [of CPUID_X2APIC 21] by (simp add: CPU_X2APIC_def set2_bit)
qed

text \<open>
  On a processor whose leaf 7 has no further sub-leaf, the test of AVX512_BF16 looks at bit 5 of
  the highest leaf number instead.
\<close>

theorem CPUFeature6_reads_leaf:
  assumes "reg_eax (cpuid 7 0) = 0"
  shows "fst (CPUFeature6 cpuid rcx CPUID_AVX512_BF16 g) \<longleftrightarrow> bit (reg_eax (cpuid 0 1)) 5"
  using CPUFeature6_bit [of CPUID_AVX512_BF16 5] assms by (simp add: cpuid_get_features_def Let_def)

definition old_processor :: cpuid_insn where
  "old_processor leaf subleaf =
     \<lparr>reg_eax = (if leaf = 0 then 0x20 else 0), reg_ebx = 0, reg_ecx = 0, reg_edx = 0\<rparr>"

theorem CPUFeature6_reads_leaf_witness:
  "fst (CPUFeature6 old_processor 0 CPUID_AVX512_BF16 g_CPUInfo_boot)"
proof -
  have "reg_eax (old_processor 7 0) = 0" "bit (reg_eax (old_processor 0 1)) 5"
    by (simp_all add: old_processor_def)
  then show ?thesis using CPUFeature6_reads_leaf [of old_processor] by simp
qed

subsection \<open>The strings\<close>

text \<open>What a string function reads: the characters up to the first zero.\<close>

definition terminated :: "u8 list \<Rightarrow> bool" where
  "terminated str \<longleftrightarrow> str \<noteq> [] \<and> last str = 0"

definition CPUInfo_ok :: "CPUInfo \<Rightarrow> bool" where
  "CPUInfo_ok g \<longleftrightarrow> length (VendorString g) = 13 \<and> terminated (VendorString g) \<and>
     length (BrandString g) = 49 \<and> terminated (BrandString g)"

lemma store_reg_length [simp]: "i + 4 \<le> length str \<Longrightarrow> length (store_reg i w str) = length str"
  by (simp add: store_reg_def)

lemma store_reg_terminated [simp]:
  "i + 4 < length str \<Longrightarrow> terminated (store_reg i w str) = terminated str"
  by (auto simp: store_reg_def terminated_def)

lemma vendor_str_take:
  "12 \<le> length str \<Longrightarrow> cpuid_get_vendor_str cpuid rcx str =
     le_bytes 4 (reg_ebx (cpuid 0 rcx)) @ le_bytes 4 (reg_edx (cpuid 0 rcx)) @
     le_bytes 4 (reg_ecx (cpuid 0 rcx)) @ drop 12 str"
  by (simp add: cpuid_get_vendor_str_def store_reg_def Let_def)

lemma g_CPUInfo_boot_ok: "CPUInfo_ok g_CPUInfo_boot"
  by (simp add: CPUInfo_ok_def g_CPUInfo_boot_def terminated_def)

text \<open>
  Reading the processor keeps both strings at their size and terminated, the vendor string is the
  three registers of leaf 0 in the order EBX, EDX, ECX, and the vendor number is its last four
  characters.
\<close>

theorem GetCPUInfo_strings:
  assumes "CPUInfo_ok g"
  shows "CPUInfo_ok (GetCPUInfo cpuid rcx g) \<and>
    VendorString (GetCPUInfo cpuid rcx g) =
      le_bytes 4 (reg_ebx (cpuid 0 rcx)) @ le_bytes 4 (reg_edx (cpuid 0 rcx)) @
      le_bytes 4 (reg_ecx (cpuid 0 rcx)) @ [0] \<and>
    cpu_VendorID (GetCPUInfo cpuid rcx g) =
      le_word (take 4 (drop 8 (VendorString (GetCPUInfo cpuid rcx g))))"
proof (intro conjI)
  have l: "length (VendorString g) = 13" "length (BrandString g) = 49" 
    and t: "terminated (VendorString g)" "terminated (BrandString g)"
    using assms by (auto simp: CPUInfo_ok_def)
  have "drop 12 (VendorString g) = [0]"
    using l t by (cases "VendorString g" rule: rev_cases) (auto simp: terminated_def)
  then show v: "VendorString (GetCPUInfo cpuid rcx g) =
      le_bytes 4 (reg_ebx (cpuid 0 rcx)) @ le_bytes 4 (reg_edx (cpuid 0 rcx)) @
      le_bytes 4 (reg_ecx (cpuid 0 rcx)) @ [0]"
    using l by (simp add: GetCPUInfo_def Let_def vendor_str_take)
  show "CPUInfo_ok (GetCPUInfo cpuid rcx g)"
    using l t v by (simp add: CPUInfo_ok_def terminated_def [of "_ @ _"] GetCPUInfo_def Let_def
        cpuid_get_brand_str_def)
  show "cpu_VendorID (GetCPUInfo cpuid rcx g) =
      le_word (take 4 (drop 8 (VendorString (GetCPUInfo cpuid rcx g))))"
    unfolding v by (simp add: GetCPUInfo_def Let_def cpuid_get_vendor_def le_word_le_bytes)
qed

theorem GetCPUInfo_strings_witness:
  "CPUInfo_ok (GetCPUInfo old_processor 0 g_CPUInfo_boot)"
  using GetCPUInfo_strings [OF g_CPUInfo_boot_ok, of old_processor 0] by simp

end
