(* ===== verification/Apic.thy ===== *)
theory Apic
  imports StableMem Ahci Acpi
begin

section \<open>The interrupt controllers of the MADT (kernel/src/apic)\<close>

text \<open>
  The MADT lists the processors, the IO APICs, the interrupt overrides and the non-maskable
  interrupts of the machine. \<open>MADTInit\<close> walks over its entries, remembers where each one is and
  maps the controllers. The registers of the controllers are accesses of a trace, as in the disk
  driver.
\<close>

subsection \<open>Entries and registers\<close>

datatype MADTType =
   MADT_TYPE_LOCAL_PROCESSOR | MADT_TYPE_IOAPIC | MADT_TYPE_INTERRUPT_SOURCE_OVERRIDE
   | MADT_TYPE_NONMASKABLE_INTERRUPT | MADT_TYPE_LOCAL_APIC_ADDRESS_OVERRIDE
   | MADT_TYPE_IO_SAPIC | MADT_TYPE_LOCAL_SAPIC | MADT_TYPE_PLAT_INTERRUPT_SRC
   | MADT_TYPE_PROCESSOR_LOCAL_X2APIC | MADT_TYPE_LOCAL_X2APIC_NMI
   | MADT_TYPE_GIC_CPU_INTERFACE | MADT_TYPE_GIC_DISTRIBUTOR | MADT_TYPE_GIC_MSI_FRAME
   | MADT_TYPE_GIC_REDISTRIBUTOR | MADT_TYPE_GIC_INT_TRANSLATION
   | MADT_TYPE_MULTIPROCESSOR_WAKEUP

fun MADTType_value :: "MADTType \<Rightarrow> u8" where
  "MADTType_value MADT_TYPE_LOCAL_PROCESSOR = 0"
| "MADTType_value MADT_TYPE_IOAPIC = 1"
| "MADTType_value MADT_TYPE_INTERRUPT_SOURCE_OVERRIDE = 2"
| "MADTType_value MADT_TYPE_NONMASKABLE_INTERRUPT = 4"
| "MADTType_value MADT_TYPE_LOCAL_APIC_ADDRESS_OVERRIDE = 5"
| "MADTType_value MADT_TYPE_IO_SAPIC = 6"
| "MADTType_value MADT_TYPE_LOCAL_SAPIC = 7"
| "MADTType_value MADT_TYPE_PLAT_INTERRUPT_SRC = 8"
| "MADTType_value MADT_TYPE_PROCESSOR_LOCAL_X2APIC = 9"
| "MADTType_value MADT_TYPE_LOCAL_X2APIC_NMI = 10"
| "MADTType_value MADT_TYPE_GIC_CPU_INTERFACE = 11"
| "MADTType_value MADT_TYPE_GIC_DISTRIBUTOR = 12"
| "MADTType_value MADT_TYPE_GIC_MSI_FRAME = 13"
| "MADTType_value MADT_TYPE_GIC_REDISTRIBUTOR = 14"
| "MADTType_value MADT_TYPE_GIC_INT_TRANSLATION = 15"
| "MADTType_value MADT_TYPE_MULTIPROCESSOR_WAKEUP = 16"

definition sizeof_MADTHeader :: u64 where "sizeof_MADTHeader = 44"
definition LocalApicAddress_offset :: u64 where "LocalApicAddress_offset = 36"

text \<open>The fields of an entry that are read: its type and its length are its first two bytes.\<close>

definition entry_length_offset :: u64 where "entry_length_offset = 1"
definition ioapic_address_offset :: u64 where "ioapic_address_offset = 4"
definition local_apic_address_offset :: u64 where "local_apic_address_offset = 4"

definition LAPIC_APIC_ID :: u64 where "LAPIC_APIC_ID = 0x20"
definition LAPIC_EOI :: u64 where "LAPIC_EOI = 0xb0"
definition LAPIC_SPURIOUS_IVR :: u64 where "LAPIC_SPURIOUS_IVR = 0xf0"
definition LAPIC_ICR0 :: u64 where "LAPIC_ICR0 = 0x300"
definition LAPIC_ICR1 :: u64 where "LAPIC_ICR1 = 0x310"
definition IOAPIC_IOREGSEL :: u64 where "IOAPIC_IOREGSEL = 0x00"
definition IOAPIC_IOWIN :: u64 where "IOAPIC_IOWIN = 0x10"

definition MADT_MAX_PROCESSORS :: nat where "MADT_MAX_PROCESSORS = 128"
definition MADT_MAX_IO_APICS :: nat where "MADT_MAX_IO_APICS = 8"
definition MADT_MAX_INTERRUPT_SOURCE_OVERRIDES :: nat where "MADT_MAX_INTERRUPT_SOURCE_OVERRIDES = 16"
definition MADT_MAX_NONMASKABLE_INTERRUPTS :: nat where "MADT_MAX_NONMASKABLE_INTERRUPTS = 8"

text \<open>The arrays with their counters are lists of the addresses of the entries.\<close>

record MADTInformation =
  local_apic_ptr :: u64
  processors :: "u64 list"
  ioapics :: "u64 list"
  isos :: "u64 list"
  nmis :: "u64 list"

definition s_madt_info_boot :: MADTInformation where
  "s_madt_info_boot = \<lparr>local_apic_ptr = NULL, processors = [], ioapics = [], isos = [], nmis = []\<rparr>"

text \<open>The variables of the component, with the memory and its allocator.\<close>

record madt_state =
  s_madt :: u64
  s_madt_info :: MADTInformation
  madt_pages :: PageFrameAllocator

definition madt_get :: "madt_state \<Rightarrow> u64" where "madt_get st = s_madt st"
definition madt_get_info :: "madt_state \<Rightarrow> MADTInformation" where "madt_get_info st = s_madt_info st"

subsection \<open>IO APIC and local APIC\<close>

definition ioapic_read :: "hba_device \<Rightarrow> u64 \<Rightarrow> u64 \<Rightarrow> mmio_trace \<Rightarrow> u32 \<times> mmio_trace" where
  "ioapic_read dev ioapic_address reg tr =
     (let tr = tr @ [MWrite (ioapic_address + IOAPIC_IOREGSEL) (ucast reg)];
          v = dev tr (ioapic_address + IOAPIC_IOWIN)
      in (v, tr @ [MRead (ioapic_address + IOAPIC_IOWIN) v]))"

definition ioapic_write :: "u64 \<Rightarrow> u64 \<Rightarrow> u32 \<Rightarrow> mmio_trace \<Rightarrow> mmio_trace" where
  "ioapic_write ioapic_address reg data tr =
     tr @ [MWrite (ioapic_address + IOAPIC_IOREGSEL) (ucast reg), MWrite (ioapic_address + IOAPIC_IOWIN) data]"

definition lapic_read :: "hba_device \<Rightarrow> MADTInformation \<Rightarrow> u64 \<Rightarrow> mmio_trace \<Rightarrow> u32 \<times> mmio_trace" where
  "lapic_read dev info reg tr =
     (let a = local_apic_ptr info + reg; v = dev tr a in (v, tr @ [MRead a v]))"

definition lapic_write :: "MADTInformation \<Rightarrow> u64 \<Rightarrow> u32 \<Rightarrow> mmio_trace \<Rightarrow> mmio_trace" where
  "lapic_write info reg data tr = tr @ [MWrite (local_apic_ptr info + reg) data]"

definition lapic_enable :: "hba_device \<Rightarrow> MADTInformation \<Rightarrow> mmio_trace \<Rightarrow> mmio_trace" where
  "lapic_enable dev info tr =
     (let (v, tr) = lapic_read dev info LAPIC_SPURIOUS_IVR tr
      in lapic_write info LAPIC_SPURIOUS_IVR (v OR push_bit 8 1 OR 0xf0) tr)"

definition lapic_get_id :: "hba_device \<Rightarrow> MADTInformation \<Rightarrow> mmio_trace \<Rightarrow> u8 \<times> mmio_trace" where
  "lapic_get_id dev info tr =
     (let (v, tr) = lapic_read dev info LAPIC_APIC_ID tr in (ucast (drop_bit 24 v), tr))"

definition lapic_ipi :: "MADTInformation \<Rightarrow> u8 \<Rightarrow> u8 \<Rightarrow> mmio_trace \<Rightarrow> mmio_trace" where
  "lapic_ipi info lapic_id vector tr =
     lapic_write info LAPIC_ICR0 (ucast vector) (lapic_write info LAPIC_ICR1 (push_bit 24 (ucast lapic_id)) tr)"

definition lapic_eoi :: "MADTInformation \<Rightarrow> mmio_trace \<Rightarrow> mmio_trace" where
  "lapic_eoi info tr = lapic_write info LAPIC_EOI 0x00 tr"

subsection \<open>The table walk\<close>

text \<open>
  The walk stops with a panic, or where the code writes behind the end of one of its arrays, which
  has no defined outcome.
\<close>

datatype madt_stop = Stopped kpanic | Array_overrun

definition append_entry :: "nat \<Rightarrow> u64 \<Rightarrow> u64 list \<Rightarrow> madt_stop + u64 list" where
  "append_entry bound header xs = (if length xs < bound then Inr (xs @ [header]) else Inl Array_overrun)"

text \<open>The switch over the type of an entry; \<open>lap\<close> is the local APIC's address so far.\<close>

definition madt_entry :: "u64 \<Rightarrow> u64 \<Rightarrow> madt_state \<Rightarrow> u64 \<Rightarrow> madt_stop + madt_state \<times> u64" where
  "madt_entry PML4 header st lap =
     (let m = pmem (madt_pages st); info = s_madt_info st; type = get8 m header in
      if type = MADTType_value MADT_TYPE_LOCAL_PROCESSOR then
        (case append_entry MADT_MAX_PROCESSORS header (processors info) of Inl e \<Rightarrow> Inl e
         | Inr xs \<Rightarrow> Inr (st\<lparr>s_madt_info := info\<lparr>processors := xs\<rparr>\<rparr>, lap))
      else if type = MADTType_value MADT_TYPE_IOAPIC then
        (let ioapic_ptr = ucast (get32 m (header + ioapic_address_offset));
             pages = fst (IndentityMapMemory (madt_pages st) PML4 ioapic_ptr) in
         case append_entry MADT_MAX_IO_APICS header (ioapics info) of Inl e \<Rightarrow> Inl e
         | Inr xs \<Rightarrow> Inr (st\<lparr>madt_pages := pages, s_madt_info := info\<lparr>ioapics := xs\<rparr>\<rparr>, lap))
      else if type = MADTType_value MADT_TYPE_INTERRUPT_SOURCE_OVERRIDE then
        (case append_entry MADT_MAX_INTERRUPT_SOURCE_OVERRIDES header (isos info) of Inl e \<Rightarrow> Inl e
         | Inr xs \<Rightarrow> Inr (st\<lparr>s_madt_info := info\<lparr>isos := xs\<rparr>\<rparr>, lap))
      else if type = MADTType_value MADT_TYPE_NONMASKABLE_INTERRUPT then
        (case append_entry MADT_MAX_NONMASKABLE_INTERRUPTS header (nmis info) of Inl e \<Rightarrow> Inl e
         | Inr xs \<Rightarrow> Inr (st\<lparr>s_madt_info := info\<lparr>nmis := xs\<rparr>\<rparr>, lap))
      else if type = MADTType_value MADT_TYPE_LOCAL_APIC_ADDRESS_OVERRIDE then
        Inr (st, get64 m (header + local_apic_address_offset))
      else Inr (st, lap))"

definition madt_end :: "mem \<Rightarrow> u64 \<Rightarrow> u64" where
  "madt_end m madt = ucast (sdt_Length (SDTHeader_at m madt)) - sizeof_MADTHeader"

text \<open>The loop over the entries: it does not return when an entry of length 0 keeps it in place.\<close>

partial_function (option) madt_loop ::
  "u64 \<Rightarrow> u64 \<Rightarrow> u64 \<Rightarrow> madt_state \<Rightarrow> u64 \<Rightarrow> (madt_stop + madt_state \<times> u64) option" where
  "madt_loop PML4 madt t st lap =
     (let m = pmem (madt_pages st) in
      if t < madt_end m madt then
        let header = madt + sizeof_MADTHeader + t;
            t = t + ucast (get8 m (header + entry_length_offset)) in
        case madt_entry PML4 header st lap of Inl e \<Rightarrow> Some (Inl e)
        | Inr s \<Rightarrow> (case s of (st, lap) \<Rightarrow> madt_loop PML4 madt t st lap)
      else Some (Inr (st, lap)))"

definition MADTInit ::
  "hba_device \<Rightarrow> u64 \<Rightarrow> u64 \<Rightarrow> madt_state \<Rightarrow> mmio_trace \<Rightarrow> (madt_stop + bool \<times> madt_state \<times> mmio_trace) option" where
  "MADTInit dev PML4 madt st tr =
     (let m = pmem (madt_pages st); len = sdt_Length (SDTHeader_at m madt) in
      if k_checksum m madt (ucast len) \<noteq> 0
      then Some (Inl (Stopped (Panic ''Failed SDT header checksum in MADT header'')))
      else if ucast len < sizeof_SDTHeader
      then Some (Inl (Stopped (Panic ''Impossible size of SDT header in MADT header'')))
      else case IndentityMapMemory_range (madt_pages st) PML4 madt (ucast len) of None \<Rightarrow> None
      | Some pages \<Rightarrow>
        let st = st\<lparr>s_madt := madt, madt_pages := pages\<rparr>;
            lap = ucast (get32 (pmem pages) (madt + LocalApicAddress_offset)) in
        case madt_loop PML4 madt 0 st lap of None \<Rightarrow> None
        | Some (Inl e) \<Rightarrow> Some (Inl e)
        | Some (Inr (st, lap)) \<Rightarrow>
          let st = st\<lparr>madt_pages := fst (IndentityMapMemory (madt_pages st) PML4 lap),
                s_madt_info := (s_madt_info st)\<lparr>local_apic_ptr := lap\<rparr>\<rparr> in
          if lap \<noteq> NULL then Some (Inr (True, st, snd (lapic_get_id dev (s_madt_info st) tr)))
          else Some (Inr (False, st, tr)))"

subsection \<open>IO APIC registers\<close>

text \<open>
  The documented behaviour of an IO APIC: the window shows the register that was selected last,
  with the value that was written to it last.
\<close>

definition ioapic_step :: "u64 \<Rightarrow> mmio_event \<Rightarrow> u32 \<times> (u32 \<Rightarrow> u32) \<Rightarrow> u32 \<times> (u32 \<Rightarrow> u32)" where
  "ioapic_step base e s =
     (case s of (sel, regs) \<Rightarrow>
      case e of MRead a v \<Rightarrow> s
      | MWrite a v \<Rightarrow> if a = base + IOAPIC_IOREGSEL then (v, regs)
          else if a = base + IOAPIC_IOWIN then (sel, regs(sel := v)) else s)"

definition ioapic_regs :: "(u32 \<Rightarrow> u32) \<Rightarrow> u64 \<Rightarrow> mmio_trace \<Rightarrow> u32 \<times> (u32 \<Rightarrow> u32)" where
  "ioapic_regs init base tr = fold (ioapic_step base) tr (0, init)"

definition is_ioapic :: "(u32 \<Rightarrow> u32) \<Rightarrow> hba_device \<Rightarrow> u64 \<Rightarrow> bool" where
  "is_ioapic init dev base \<longleftrightarrow>
     (\<forall>tr. dev tr (base + IOAPIC_IOWIN) = (case ioapic_regs init base tr of (sel, regs) \<Rightarrow> regs sel))"

lemma ioapic_select:
  "ioapic_regs init base (tr @ [MWrite (base + IOAPIC_IOREGSEL) v]) = (v, snd (ioapic_regs init base tr))"
  by (simp add: ioapic_regs_def ioapic_step_def case_prod_beta)

lemma ioapic_window:
  "ioapic_regs init base (tr @ [MWrite (base + IOAPIC_IOREGSEL) v, MWrite (base + IOAPIC_IOWIN) d])
     = (v, (snd (ioapic_regs init base tr))(v := d))"
  by (simp add: ioapic_regs_def ioapic_step_def case_prod_beta IOAPIC_IOREGSEL_def IOAPIC_IOWIN_def)

text \<open>
  On a device that behaves as an IO APIC, a register reads back what was written to it last,
  and writing it leaves what the other registers read as alone.
\<close>

theorem ioapic_read_write:
  assumes "is_ioapic init dev base"
  shows "fst (ioapic_read dev base r (ioapic_write base r' d tr))
    = (if ucast r = (ucast r' :: u32) then d else fst (ioapic_read dev base r tr))"
proof -
  have "fst (ioapic_read dev base r t) = snd (ioapic_regs init base t) (ucast r)" for t
    using assms by (simp add: ioapic_read_def Let_def is_ioapic_def ioapic_select)
  then show ?thesis by (simp add: ioapic_write_def ioapic_window)
qed

theorem ioapic_read_write_witness:
  "fst (ioapic_read (\<lambda>tr a. (case ioapic_regs (\<lambda>_. 0) 0xFEC00000 tr of (sel, regs) \<Rightarrow> regs sel)) 0xFEC00000 0x10
    (ioapic_write 0xFEC00000 0x10 0x31 [])) = 0x31"
  by (subst ioapic_read_write [of "\<lambda>_. 0"]) (simp_all add: is_ioapic_def)

subsection \<open>What the walk collects\<close>

text \<open>The entries of a table as a list of addresses: each length is positive, and they fill the rest of the table.\<close>

primrec madt_chain :: "mem \<Rightarrow> u64 \<Rightarrow> nat \<Rightarrow> u64 list \<Rightarrow> bool" where
  "madt_chain m a n [] \<longleftrightarrow> n = 0"
| "madt_chain m a n (e # es) \<longleftrightarrow> 0 < n \<and> e = a \<and> 0 < get8 m (a + entry_length_offset)
     \<and> madt_chain m (a + ucast (get8 m (a + entry_length_offset))) (n - unat (get8 m (a + entry_length_offset))) es"

definition entries_of :: "mem \<Rightarrow> MADTType \<Rightarrow> u64 list \<Rightarrow> u64 list" where
  "entries_of m ty es = filter (\<lambda>e. get8 m e = MADTType_value ty) es"

definition collect_entries :: "mem \<Rightarrow> u64 list \<Rightarrow> MADTInformation \<Rightarrow> MADTInformation" where
  "collect_entries m es info = info\<lparr>
     processors := processors info @ entries_of m MADT_TYPE_LOCAL_PROCESSOR es,
     ioapics := ioapics info @ entries_of m MADT_TYPE_IOAPIC es,
     isos := isos info @ entries_of m MADT_TYPE_INTERRUPT_SOURCE_OVERRIDE es,
     nmis := nmis info @ entries_of m MADT_TYPE_NONMASKABLE_INTERRUPT es\<rparr>"

definition madt_room :: "MADTInformation \<Rightarrow> bool" where
  "madt_room info \<longleftrightarrow> length (processors info) \<le> 128 \<and> length (ioapics info) \<le> 8
     \<and> length (isos info) \<le> 16 \<and> length (nmis info) \<le> 8"

definition local_apic_address :: "mem \<Rightarrow> u64 list \<Rightarrow> u64 \<Rightarrow> u64" where
  "local_apic_address m es lap =
     (case entries_of m MADT_TYPE_LOCAL_APIC_ADDRESS_OVERRIDE es of [] \<Rightarrow> lap
      | e # es' \<Rightarrow> get64 m (last (e # es') + local_apic_address_offset))"

definition ioapic_at :: "mem \<Rightarrow> u64 \<Rightarrow> u64" where
  "ioapic_at m e = ucast (get32 m (e + ioapic_address_offset))"

text \<open>Address maps with some pages mapped to themselves.\<close>

definition map_to_self :: "u64 list \<Rightarrow> (u64 list \<Rightarrow> u64 option) \<Rightarrow> u64 list \<Rightarrow> u64 option" where
  "map_to_self as f = fold (\<lambda>a f. f(va_path a := Some (frame_of a))) as f"

lemmas madt_sizes = MADT_MAX_PROCESSORS_def MADT_MAX_IO_APICS_def
  MADT_MAX_INTERRUPT_SOURCE_OVERRIDES_def MADT_MAX_NONMASKABLE_INTERRUPTS_def

lemma entries_of_simps [simp]:
  "entries_of m ty [] = []"
  "entries_of m ty (e # es) = (if get8 m e = MADTType_value ty then e # entries_of m ty es else entries_of m ty es)"
  by (simp_all add: entries_of_def)

lemma collect_entries_Nil [simp]: "collect_entries m [] info = info"
  by (simp add: collect_entries_def)

lemma collect_entries_Cons: "collect_entries m (e # es) info = collect_entries m es (collect_entries m [e] info)"
  by (simp add: collect_entries_def)

lemma local_apic_address_Cons:
  "local_apic_address m (e # es) lap = local_apic_address m es (local_apic_address m [e] lap)"
  by (simp add: local_apic_address_def split: list.split)

lemma madt_room_prefix: "madt_room (collect_entries m (e # es) info) \<Longrightarrow> madt_room (collect_entries m [e] info)"
  by (auto simp: madt_room_def collect_entries_def split: if_splits)

lemma madt_entry_cong:
  assumes "\<And>x. x \<in> cfg \<Longrightarrow> m' x = m x" "bytes_in cfg e 12"
  shows "get8 m' e = get8 m e" "get8 m' (e + entry_length_offset) = get8 m (e + entry_length_offset)"
    "get32 m' (e + ioapic_address_offset) = get32 m (e + ioapic_address_offset)"
    "get64 m' (e + local_apic_address_offset) = get64 m (e + local_apic_address_offset)"
proof -
  have b: "m' (e + of_nat k) = m (e + of_nat k)" if "k < 12" for k
    using assms that by (auto simp: bytes_in_def)
  show "get8 m' e = get8 m e" "get8 m' (e + entry_length_offset) = get8 m (e + entry_length_offset)"
    using b [of 0] b [of 1] by (simp_all add: get8_def entry_length_offset_def)
  note G = get_bytes_in [OF assms, where k = 4]
  show "get32 m' (e + ioapic_address_offset) = get32 m (e + ioapic_address_offset)"
    "get64 m' (e + local_apic_address_offset) = get64 m (e + local_apic_address_offset)"
    using G [where n = 4] G [where n = 8]
    by (simp_all add: get32_def get64_def ioapic_address_offset_def local_apic_address_offset_def)
qed

text \<open>One entry: an IO APIC uses one mapping of the budget.\<close>

lemma madt_entry_collects:
  assumes ready: "pages_ready root m cfg (k + length (entries_of m MADT_TYPE_IOAPIC [e])) (madt_pages st)"
    and e: "bytes_in cfg e 12" and room: "madt_room (collect_entries m [e] (s_madt_info st))"
  shows "\<exists>st'. madt_entry root e st lap = Inr (st', local_apic_address m [e] lap)
    \<and> s_madt st' = s_madt st \<and> s_madt_info st' = collect_entries m [e] (s_madt_info st)
    \<and> pages_ready root m cfg k (madt_pages st')
    \<and> frame_map (pmem (madt_pages st')) root
      = map_to_self (map (ioapic_at m) (entries_of m MADT_TYPE_IOAPIC [e])) (frame_map (pmem (madt_pages st)) root)"
proof -
  let ?m = "pmem (madt_pages st)" let ?t = "get8 m e"
  have agree: "x \<in> cfg \<Longrightarrow> ?m x = m x" for x using ready by (rule pages_ready_mem)
  note C = madt_entry_cong [OF agree e]
  show ?thesis
  proof (cases "?t = 1")
    case True
    then have r: "pages_ready root m cfg (Suc k) (madt_pages st)" using ready by simp
    from room have "length (ioapics (s_madt_info st)) < 8"
      using True by (simp add: madt_room_def collect_entries_def)
    then show ?thesis
      using True pages_ready_map [OF r] pages_ready_frames [OF r]
      by (simp add: madt_entry_def C append_entry_def madt_sizes collect_entries_def Let_def IndentityMapMemory_def
          local_apic_address_def map_to_self_def ioapic_at_def)
  next
    case False
    then have r: "pages_ready root m cfg k (madt_pages st)" using ready by simp
    show ?thesis
      using False r room
      by (auto simp: madt_entry_def C append_entry_def madt_sizes collect_entries_def Let_def madt_room_def
          local_apic_address_def map_to_self_def)
  qed
qed

lemma map_to_self_append: "map_to_self (as @ bs) f = map_to_self bs (map_to_self as f)"
  by (simp add: map_to_self_def)

lemma map_to_self_Cons: "map_to_self (a # as) f = map_to_self as (f(va_path a := Some (frame_of a)))"
  by (simp add: map_to_self_def)

lemma entries_of_Cons: "entries_of m ty (e # es) = entries_of m ty [e] @ entries_of m ty es"
  by simp

lemma madt_loop_collects:
  assumes "madt_chain m (madt + 44 + t) (unat (madt_end m madt) - unat t) es"
    and "pages_ready root m cfg (k + length (entries_of m MADT_TYPE_IOAPIC es)) (madt_pages st)"
    and "bytes_in cfg madt 44" "\<forall>e \<in> set es. bytes_in cfg e 12"
    and "madt_room (collect_entries m es (s_madt_info st))" and "unat (madt_end m madt) < 2 ^ 32"
  shows "\<exists>st'. madt_loop root madt t st lap = Some (Inr (st', local_apic_address m es lap))
    \<and> s_madt st' = s_madt st \<and> s_madt_info st' = collect_entries m es (s_madt_info st)
    \<and> pages_ready root m cfg k (madt_pages st')
    \<and> frame_map (pmem (madt_pages st')) root
      = map_to_self (map (ioapic_at m) (entries_of m MADT_TYPE_IOAPIC es)) (frame_map (pmem (madt_pages st)) root)"
  using assms
proof (induction es arbitrary: t st lap)
  case (Nil t st lap)
  let ?m = "pmem (madt_pages st)"
  have agree: "x \<in> cfg \<Longrightarrow> ?m x = m x" for x using Nil.prems(2) by (rule pages_ready_mem)
  have "get32 ?m (madt + 4) = get32 m (madt + 4)"
    using get_bytes_in [OF agree Nil.prems(3), where k = 4 and n = 4] by (simp add: get32_def)
  then have "madt_end ?m madt = madt_end m madt" by (simp add: madt_end_def SDTHeader_at_def)
  moreover have "\<not> t < madt_end m madt" using Nil.prems(1) by (simp add: word_less_nat_alt)
  ultimately show ?case
    using Nil.prems(2) by (simp add: madt_loop.simps local_apic_address_def map_to_self_def)
next
  case (Cons e es t st lap)
  let ?m = "pmem (madt_pages st)" let ?l = "get8 m (e + entry_length_offset)" let ?t = "t + ucast ?l"
  have agree: "x \<in> cfg \<Longrightarrow> ?m x = m x" for x using Cons.prems(2) by (rule pages_ready_mem)
  have "get32 ?m (madt + 4) = get32 m (madt + 4)"
    using get_bytes_in [OF agree Cons.prems(3), where k = 4 and n = 4] by (simp add: get32_def)
  then have en: "madt_end ?m madt = madt_end m madt" by (simp add: madt_end_def SDTHeader_at_def)
  have he: "madt + 44 + t = e" and lt: "t < madt_end m madt"
    using Cons.prems(1) by (simp_all add: word_less_nat_alt)
  have h: "madt + sizeof_MADTHeader + t = e" using he by (simp add: sizeof_MADTHeader_def)
  have "unat t < 2 ^ 32" using lt Cons.prems(6) by (simp add: word_less_nat_alt)
  then have ut: "unat ?t = unat t + unat ?l"
    using unat8_lt [of ?l] by (subst unat_add_no_wrap) (simp_all add: unat_ucast_up)
  have chain: "madt_chain m (madt + 44 + ?t) (unat (madt_end m madt) - unat ?t) es"
  proof -
    have a: "madt + 44 + ?t = e + ucast ?l" using he by (simp add: add.assoc [symmetric])
    have "madt_chain m e (unat (madt_end m madt) - unat t) (e # es)" using Cons.prems(1) unfolding he .
    then show ?thesis unfolding a ut by simp
  qed
  have be: "bytes_in cfg e 12" using Cons.prems(4) by simp
  have "k + length (entries_of m MADT_TYPE_IOAPIC (e # es))
      = k + length (entries_of m MADT_TYPE_IOAPIC es) + length (entries_of m MADT_TYPE_IOAPIC [e])"
    by (subst entries_of_Cons) simp
  with Cons.prems(2) have r: "pages_ready root m cfg
      (k + length (entries_of m MADT_TYPE_IOAPIC es) + length (entries_of m MADT_TYPE_IOAPIC [e])) (madt_pages st)"
    by (simp only:)
  from madt_entry_collects [OF r be madt_room_prefix [OF Cons.prems(5)], of lap] obtain st1 where
    st1: "madt_entry root e st lap = Inr (st1, local_apic_address m [e] lap)" "s_madt st1 = s_madt st"
      "s_madt_info st1 = collect_entries m [e] (s_madt_info st)"
      "pages_ready root m cfg (k + length (entries_of m MADT_TYPE_IOAPIC es)) (madt_pages st1)"
      "frame_map (pmem (madt_pages st1)) root
        = map_to_self (map (ioapic_at m) (entries_of m MADT_TYPE_IOAPIC [e])) (frame_map (pmem (madt_pages st)) root)"
    by blast
  have "madt_room (collect_entries m es (s_madt_info st1))"
    using Cons.prems(5) unfolding st1(3) by (subst (asm) collect_entries_Cons)
  from Cons.IH [OF chain st1(4) Cons.prems(3) _ this Cons.prems(6), of "local_apic_address m [e] lap"] Cons.prems(4)
  obtain st' where st': "madt_loop root madt ?t st1 (local_apic_address m [e] lap)
        = Some (Inr (st', local_apic_address m es (local_apic_address m [e] lap)))"
      "s_madt st' = s_madt st1" "s_madt_info st' = collect_entries m es (s_madt_info st1)"
      "pages_ready root m cfg k (madt_pages st')"
      "frame_map (pmem (madt_pages st')) root
        = map_to_self (map (ioapic_at m) (entries_of m MADT_TYPE_IOAPIC es)) (frame_map (pmem (madt_pages st1)) root)"
    by auto
  have "madt_loop root madt t st lap = madt_loop root madt ?t st1 (local_apic_address m [e] lap)"
    using lt madt_entry_cong(2) [OF agree be] st1(1) by (subst madt_loop.simps) (simp add: en h Let_def)
  with st' st1(2,3,5) show ?case
    unfolding collect_entries_Cons [of m e es] local_apic_address_Cons [of m e es]
      entries_of_Cons [of m _ e es] map_append map_to_self_append
    by simp
qed

lemma MADTInit_walk:
  assumes m: "m = pmem (madt_pages st)"
    and len: "len = sdt_Length (SDTHeader_at m madt)" "k_checksum m madt (ucast len) = 0" "44 \<le> unat len"
    and es: "madt_chain m (madt + 44) (unat len - 44) es" "madt_room (collect_entries m es (s_madt_info st))"
    and bytes: "bytes_in cfg madt 44" "\<forall>e \<in> set es. bytes_in cfg e 12"
    and n: "n = (unat len + 4095) div 4096" "unat madt + 4096 * n < 2 ^ 64"
    and ready: "pages_ready root m cfg (1 + length (entries_of m MADT_TYPE_IOAPIC es) + n) (madt_pages st)"
    and lap: "lap = local_apic_address m es (ucast (get32 m (madt + 36)))"
  shows "\<exists>st'. MADTInit dev root madt st tr = Some (Inr (lap \<noteq> NULL, st',
      if lap = NULL then tr else tr @ [MRead (lap + 0x20) (dev tr (lap + 0x20))]))
    \<and> s_madt st' = madt \<and> s_madt_info st' = (collect_entries m es (s_madt_info st))\<lparr>local_apic_ptr := lap\<rparr>
    \<and> frame_map (pmem (madt_pages st')) root
      = map_to_self (map (ioapic_at m) (entries_of m MADT_TYPE_IOAPIC es) @ [lap])
          (identity_maps madt n (frame_map m root))"
proof -
  have ul: "unat (ucast len :: u64) = unat len" by (rule unat_ucast_up) simp
  have "unat (madt_end m madt) = unat len - 44"
    using len(3) ul unfolding madt_end_def len(1) [symmetric] sizeof_MADTHeader_def
    by (subst unat_sub_no_wrap) simp_all
  then have e: "madt_chain m (madt + 44 + 0) (unat (madt_end m madt) - unat (0 :: u64)) es"
    "unat (madt_end m madt) < 2 ^ 32"
    using es(1) unsigned_less [of len, where ?'a = nat] by simp_all
  have sz: "\<not> (ucast len :: u64) < sizeof_SDTHeader"
    using len(3) by (simp add: word_less_nat_alt ul)
  from pages_ready_map_range [where sz = "ucast len", unfolded ul, OF ready [unfolded n(1)] n(2) [unfolded n(1)]]
  obtain pages where p: "IndentityMapMemory_range (madt_pages st) root madt (ucast len) = Some pages"
    "pages_ready root m cfg (1 + length (entries_of m MADT_TYPE_IOAPIC es)) pages"
    "frame_map (pmem pages) root = identity_maps madt n (frame_map m root)"
    by (auto simp: n(1) m)
  let ?st = "st\<lparr>s_madt := madt, madt_pages := pages\<rparr>"
  have agree: "x \<in> cfg \<Longrightarrow> pmem pages x = m x" for x using p(2) by (rule pages_ready_mem)
  have l0: "get32 (pmem pages) (madt + LocalApicAddress_offset) = get32 m (madt + 36)"
    using get_bytes_in [OF agree bytes(1), where k = 36 and n = 4]
    by (simp add: get32_def LocalApicAddress_offset_def)
  from madt_loop_collects [OF e(1) _ bytes _ e(2), where k = 1 and st = ?st and root = root and
      lap = "ucast (get32 m (madt + 36))"] p(2) es(2)
  obtain st1 where st1: "madt_loop root madt 0 ?st (ucast (get32 m (madt + 36))) = Some (Inr (st1, lap))"
    "s_madt st1 = madt" "s_madt_info st1 = collect_entries m es (s_madt_info st)"
    "pages_ready root m cfg 1 (madt_pages st1)"
    "frame_map (pmem (madt_pages st1)) root = map_to_self (map (ioapic_at m) (entries_of m MADT_TYPE_IOAPIC es))
        (identity_maps madt n (frame_map m root))"
    by (auto simp: lap p(3))
  have f: "frame_map (pmem (fst (MapMemory (madt_pages st1) root lap lap))) root
      = map_to_self (map (ioapic_at m) (entries_of m MADT_TYPE_IOAPIC es) @ [lap])
          (identity_maps madt n (frame_map m root))"
    using pages_ready_frames [of root m cfg 0 "madt_pages st1" lap lap] st1(4,5)
    by (simp add: map_to_self_append) (simp add: map_to_self_def)
  show ?thesis
    using len(2) sz p(1) st1 f
    by (cases "lap = NULL") (simp_all add: MADTInit_def m [symmetric] len(1) [symmetric] l0 Let_def IndentityMapMemory_def lapic_get_id_def
        lapic_read_def case_prod_beta LAPIC_APIC_ID_def)
qed

lemma map_to_self_maps:
  assumes "set as \<subseteq> low48"
  shows "self_mapped (set as) f (map_to_self as f)"
  using assms
proof (induction as arbitrary: f)
  case Nil
  then show ?case by (simp add: map_to_self_def self_mapped_empty)
next
  case (Cons a as)
  have "self_mapped ({a} \<union> set as) f (map_to_self (a # as) f)"
    using Cons by (intro self_mapped_Un [OF self_mapped_single Cons.IH [of "f(va_path a := Some (frame_of a))", folded map_to_self_Cons]])
      simp_all
  then show ?case by simp
qed

text \<open>
  C22. For a MADT with a correct checksum whose entries have positive lengths, fill the table and
  fit into the arrays, the initialisation remembers the address of every processor, IO APIC,
  override and interrupt entry in table order, takes the local APIC's address from the last address override or
  else from the table, and succeeds exactly when that address is not NULL. When the table touches no page more than
  its length needs, and all addresses are below 2 to the 48, every byte of the table, every IO APIC and the local APIC
  are mapped to themselves and every page of another address is translated as before.
\<close>

theorem MADTInit_collects:
  assumes m: "m = pmem (madt_pages st)"
    and len: "len = sdt_Length (SDTHeader_at m madt)" "k_checksum m madt (ucast len) = 0" "44 \<le> unat len"
    and es: "madt_chain m (madt + 44) (unat len - 44) es" "madt_room (collect_entries m es (s_madt_info st))"
    and bytes: "bytes_in cfg madt 44" "\<forall>e \<in> set es. bytes_in cfg e 12"
    and n: "n = (unat len + 4095) div 4096" "unat madt + 4096 * n \<le> 2 ^ 48"
    and fits: "unat madt mod 4096 + unat len \<le> 4096 * n"
    and ready: "pages_ready root m cfg (1 + length (entries_of m MADT_TYPE_IOAPIC es) + n) (madt_pages st)"
    and lap: "lap = local_apic_address m es (ucast (get32 m (madt + 36)))" "unat lap < 2 ^ 48"
  shows "\<exists>st'. MADTInit dev root madt st tr = Some (Inr (lap \<noteq> NULL, st',
      if lap = NULL then tr else tr @ [MRead (lap + 0x20) (dev tr (lap + 0x20))]))
    \<and> s_madt st' = madt \<and> s_madt_info st' = (collect_entries m es (s_madt_info st))\<lparr>local_apic_ptr := lap\<rparr>
    \<and> self_mapped (bytes_from madt (unat len) \<union> (ioapic_at m ` set (entries_of m MADT_TYPE_IOAPIC es) \<union> {lap}))
        (frame_map m root) (frame_map (pmem (madt_pages st')) root)"
proof -
  have "unat (ioapic_at m e) < 2 ^ 48" for e
  proof -
    have "unat (get32 m (e + ioapic_address_offset)) < 2 ^ LENGTH(32)" by (rule unsigned_less)
    then show ?thesis by (simp add: ioapic_at_def unat_ucast_up)
  qed
  then have "set (map (ioapic_at m) (entries_of m MADT_TYPE_IOAPIC es) @ [lap]) \<subseteq> low48"
    using lap(2) by (auto simp: low48_def)
  note controllers = map_to_self_maps [OF this] this
  note table = identity_maps_range [OF n fits]
  from self_mapped_Un [OF table(1) controllers(1) table(2) controllers(2), of "frame_map m root"]
    MADTInit_walk [OF m len es bytes n(1) _ ready lap(1), of dev tr] n(2)
  show ?thesis by force
qed

subsection \<open>Broken tables\<close>

text \<open>
  An entry of length 0 whose type is none of the remembered ones keeps the walk in place for
  ever: the initialisation never returns.
\<close>

theorem madt_zero_length_stuck:
  assumes "t < madt_end (pmem (madt_pages st)) madt" "h = madt + 44 + t"
    and "get8 (pmem (madt_pages st)) (h + 1) = 0" "get8 (pmem (madt_pages st)) h \<ge> 5"
  shows "madt_loop root madt t st lap = None"
proof (cases "madt_loop root madt t st lap")
  case (Some r)
  then have "\<not> (t < madt_end (pmem (madt_pages st)) madt \<and> get8 (pmem (madt_pages st)) (madt + 44 + t + 1) = 0
      \<and> 5 \<le> get8 (pmem (madt_pages st)) (madt + 44 + t))"
  proof (induction rule: madt_loop.raw_induct [rotated 1, consumes 1])
    case (1 madt_loop PML4 madt t st lap y)
    show ?case
    proof
      assume a: "t < madt_end (pmem (madt_pages st)) madt \<and> get8 (pmem (madt_pages st)) (madt + 44 + t + 1) = 0
        \<and> 5 \<le> get8 (pmem (madt_pages st)) (madt + 44 + t)"
      define ty where "ty = get8 (pmem (madt_pages st)) (madt + 44 + t)"
      have "ty \<noteq> 0" "ty \<noteq> 1" "ty \<noteq> 2" "ty \<noteq> 4" using a by (auto simp: ty_def [symmetric] word_le_nat_alt)
      then obtain lap' where "madt_entry PML4 (madt + 44 + t) st lap = Inr (st, lap')"
        by (cases "ty = 5") (simp_all add: madt_entry_def ty_def [symmetric] Let_def)
      with 1(2) a have "madt_loop PML4 madt t st lap' = Some y"
        by (simp add: sizeof_MADTHeader_def entry_length_offset_def Let_def add.assoc)
      from 1(1) [OF this] a show False by blast
    qed
  qed
  with assms show ?thesis by (simp add: add.assoc)
qed

theorem madt_zero_length_stuck_witness:
  "madt_loop 0x1000 0x2000 0
     \<lparr>s_madt = 0x2000, s_madt_info = s_madt_info_boot, madt_pages = machine (poke 0x2004 [52, 0, 0, 0, 0, 0xAB] (poke 0x202C [9] (\<lambda>_. 0)))\<rparr> 0
   = None"
proof (rule madt_zero_length_stuck [OF _ refl])
  let ?m = "poke 0x2004 [52, 0, 0, 0, 0, 0xAB] (poke 0x202C [9] (\<lambda>_. 0))"
  have l: "sdt_Length (SDTHeader_at ?m 0x2000) = 52"
    by (simp only: SDTHeader_at_def SDTHeader.select_convs) code_simp
  have "get8 ?m 0x202D = 0" "get8 ?m 0x202C = 9" by code_simp+
  then show "0 < madt_end (pmem (madt_pages \<lparr>s_madt = 0x2000, s_madt_info = s_madt_info_boot, madt_pages = machine ?m\<rparr>)) 0x2000"
    "get8 (pmem (madt_pages \<lparr>s_madt = 0x2000, s_madt_info = s_madt_info_boot, madt_pages = machine ?m\<rparr>)) (0x2000 + 44 + 0 + 1) = 0"
    "5 \<le> get8 (pmem (madt_pages \<lparr>s_madt = 0x2000, s_madt_info = s_madt_info_boot, madt_pages = machine ?m\<rparr>)) (0x2000 + 44 + 0)"
    by (simp_all add: madt_end_def l sizeof_MADTHeader_def del: poke.simps)
qed

subsection \<open>An example table\<close>

text \<open>
  A table of 72 bytes at 0x2000 with the local APIC at 0xFEE00000, a processor, an IO APIC at
  0xFEC00000 and an unknown entry of eight bytes.
\<close>

definition madt_memory :: mem where
  "madt_memory =
     (poke 0x2004 [72] \<circ> poke 0x2024 [0, 0, 0xE0, 0xFE] \<circ> poke 0x202C [0, 8] \<circ> poke 0x2034 [1, 12] \<circ>
      poke 0x2038 [0, 0, 0xC0, 0xFE] \<circ> poke 0x2040 [9, 8] \<circ> poke 0x2009 [0xF6] \<circ> poke 0x3000 [0xFF]) (\<lambda>_. 0)"

lemma madt_example:
  "sdt_Length (SDTHeader_at madt_memory 0x2000) = 72" "k_checksum madt_memory 0x2000 (ucast (72 :: u32)) = 0"
  "get32 madt_memory 0x2024 = 0xFEE00000"
  "get8 madt_memory 0x202C = 0" "get8 madt_memory 0x202D = 8" "get8 madt_memory 0x2034 = 1"
  "get8 madt_memory 0x2035 = 12" "get8 madt_memory 0x2040 = 9" "get8 madt_memory 0x2041 = 8"
proof -
  show "sdt_Length (SDTHeader_at madt_memory 0x2000) = 72"
    by (simp only: SDTHeader_at_def SDTHeader.select_convs) code_simp
qed code_simp+

lemma madt_example_ok: "machine_memory madt_memory"
  by (auto simp: machine_memory_def madt_memory_def page_of_def)

lemma page_2_bytes: "unat a + N \<le> 0x3000 \<Longrightarrow> 0x2000 \<le> unat a \<Longrightarrow> bytes_in machine_stable a N"
  unfolding bytes_in_def
proof (intro allI impI)
  fix k assume a: "unat a + N \<le> 0x3000" "0x2000 \<le> unat a" "k < N"
  then have "unat (a + of_nat k) = unat a + k"
    by (subst unat_add_no_wrap) (simp_all add: unat_of_nat_small)
  with a have "unat (page_of (a + of_nat k)) = 2" by (simp add: page_of_def unat_div)
  then show "a + of_nat k \<in> machine_stable" by (simp add: machine_stable_def word_unat_eq_iff)
qed

theorem MADTInit_collects_witness:
  "\<exists>st'. MADTInit (\<lambda>_ _. 0) 0x1000 0x2000 \<lparr>s_madt = 0, s_madt_info = s_madt_info_boot, madt_pages = machine madt_memory\<rparr> []
      = Some (Inr (True, st', [MRead 0xFEE00020 0]))
    \<and> s_madt_info st' = \<lparr>local_apic_ptr = 0xFEE00000, processors = [0x202C], ioapics = [0x2034], isos = [], nmis = []\<rparr>
    \<and> frame_map (pmem (madt_pages st')) 0x1000 (va_path 0xFEC00000) = Some 0xFEC00000
    \<and> frame_map (pmem (madt_pages st')) 0x1000 (va_path 0x2047) = Some 0x2000"
proof -
  let ?st = "\<lparr>s_madt = 0, s_madt_info = s_madt_info_boot, madt_pages = machine madt_memory\<rparr>"
  let ?es = "[0x202C, 0x2034, 0x2040] :: u64 list"
  note E = madt_example
  have chain: "madt_chain madt_memory (0x2000 + 44) (unat (72 :: u32) - 44) ?es"
    by (simp add: entry_length_offset_def E)
  have col: "collect_entries madt_memory ?es (s_madt_info ?st)
      = \<lparr>local_apic_ptr = 0, processors = [0x202C], ioapics = [0x2034], isos = [], nmis = []\<rparr>"
    by (simp add: collect_entries_def s_madt_info_boot_def E)
  have lap: "0xFEE00000 = local_apic_address madt_memory ?es (ucast (get32 madt_memory (0x2000 + 36)))"
    by (simp add: local_apic_address_def E)
  have ready: "pages_ready 0x1000 madt_memory machine_stable
      (1 + length (entries_of madt_memory MADT_TYPE_IOAPIC ?es) + 1) (madt_pages ?st)"
    using machine_ready [OF madt_example_ok, of 3] by (simp add: E numeral_3_eq_3)
  have b: "bytes_in machine_stable 0x2000 44" "\<forall>e \<in> set ?es. bytes_in machine_stable e 12"
    by (auto intro!: page_2_bytes)
  have m: "madt_memory = pmem (madt_pages ?st)" by simp
  have room: "madt_room (collect_entries madt_memory ?es (s_madt_info ?st))" unfolding col by (simp add: madt_room_def)
  have io: "ioapic_at madt_memory 0x2034 = 0xFEC00000" "frame_of 0xFEC00000 = 0xFEC00000" "frame_of 0x2047 = 0x2000"
    by code_simp+
  have "0x2047 \<in> bytes_from 0x2000 (unat (72 :: u32))" by (simp add: bytes_from_def)
  moreover have "0xFEC00000 \<in> ioapic_at madt_memory ` set (entries_of madt_memory MADT_TYPE_IOAPIC ?es)"
    by (simp add: E io)
  ultimately show ?thesis
    using MADTInit_collects [OF m E(1) [symmetric] E(2) _ chain room b _ _ _ ready lap, of "\<lambda>_ _. 0" "[]"]
    unfolding col by (auto simp: self_mapped_def io)
qed

end
