(* ===== verification/Input.thy ===== *)
theory Input
  imports Acpi Renderer
begin

section \<open>Keyboard and mouse (kernel/src/userinput) and the interrupt handlers\<close>

text \<open>
  The keyboard translation and its handler, the PS/2 mouse: bring-up over the controller's
  ports, the state machine that collects a packet of three bytes, and the movement of the
  pointer; then the interrupt handlers of kernel/src/interrupts/interrupts.cpp that read a byte
  and run them. A handler that panics gives \<open>Inl\<close> of the panic and the trace so far.
\<close>

subsection \<open>Keyboard\<close>

abbreviation (input) LeftShift :: u8 where "LeftShift \<equiv> 0x2A"
abbreviation (input) RightShift :: u8 where "RightShift \<equiv> 0x36"
abbreviation (input) Enter :: u8 where "Enter \<equiv> 0x1C"
abbreviation (input) BackSpace :: u8 where "BackSpace \<equiv> 0x0E"
abbreviation (input) Spacebar :: u8 where "Spacebar \<equiv> 0x39"
abbreviation (input) Escape :: u8 where "Escape \<equiv> 0x01"

definition ASCIITable :: "u8 list" where
  "ASCIITable =
     [0, 0, 0x31, 0x32,
      0x33, 0x34, 0x35, 0x36,
      0x37, 0x38, 0x39, 0x30,
      0x2D, 0x3D, 0, 0,
      0x71, 0x77, 0x65, 0x72,
      0x74, 0x79, 0x75, 0x69,
      0x6F, 0x70, 0x5B, 0x5D,
      0, 0, 0x61, 0x73,
      0x64, 0x66, 0x67, 0x68,
      0x6A, 0x6B, 0x6C, 0x3B,
      0x27, 0x60, 0, 0x5C,
      0x7A, 0x78, 0x63, 0x76,
      0x62, 0x6E, 0x6D, 0x2C,
      0x2E, 0x2F, 0, 0x2A,
      0, 0x20]"

text \<open>\<open>None\<close>: the table is read behind its end.\<close>

definition Translate :: "u8 \<Rightarrow> bool \<Rightarrow> u8 option" where
  "Translate scancode uppercase =
     (if scancode > 58 then Some 0
      else if unat scancode \<ge> length ASCIITable then None
      else let retChar = ASCIITable ! unat scancode in
        Some (if uppercase then
                (if retChar \<ge> 0x61 \<and> retChar \<le> 0x7A then retChar - 32
                 else if retChar \<ge> 0x30 \<and> retChar \<le> 0x39 then retChar - 16
                 else retChar)
              else retChar))"

record keyboard =
  isLeftShiftPressed :: bool
  isRightShiftPressed :: bool

text \<open>
  The translated character is not used: the calls that would print it are commented out, as
  are those of Enter, space and backspace.
\<close>

definition HandleKeyboard ::
  "facp_state \<Rightarrow> u8 \<Rightarrow> keyboard \<Rightarrow> trace \<Rightarrow> (kpanic \<times> trace) + (keyboard \<times> trace)" where
  "HandleKeyboard fs scancode k tr =
     (if scancode = LeftShift then Inr (k\<lparr>isLeftShiftPressed := True\<rparr>, tr)
      else if scancode = LeftShift + 0x80 then Inr (k\<lparr>isLeftShiftPressed := False\<rparr>, tr)
      else if scancode = RightShift then Inr (k\<lparr>isRightShiftPressed := True\<rparr>, tr)
      else if scancode = RightShift + 0x80 then Inr (k\<lparr>isRightShiftPressed := False\<rparr>, tr)
      else if scancode = Escape then Inl (Shutdown fs tr)
      else Inr (k, tr))"

text \<open>
  Every scan code translates to a character of the table or to 0, with one exception:
  the code 58 of the Caps Lock key passes the range check and reads behind the table.
\<close>

theorem Translate_bounds: "Translate scancode uppercase = None \<longleftrightarrow> scancode = 58"
proof -
  have l: "length ASCIITable = 58" by (simp add: ASCIITable_def)
  have "\<not> scancode > 58 \<and> 58 \<le> unat scancode \<longleftrightarrow> scancode = 58"
    by (auto simp: word_less_nat_alt word_unat_eq_iff)
  then show ?thesis by (auto simp: Translate_def l Let_def)
qed

subsection \<open>Talking to the mouse\<close>

definition MousePointer :: "u8 list" where
  "MousePointer =
     [0b11111111, 0b11100000,
      0b11111111, 0b10000000,
      0b11111110, 0b00000000,
      0b11111100, 0b00000000,
      0b11111000, 0b00000000,
      0b11110000, 0b00000000,
      0b11100000, 0b00000000,
      0b11000000, 0b00000000,
      0b11000000, 0b00000000,
      0b10000000, 0b00000000,
      0b10000000, 0b00000000,
      0b00000000, 0b00000000,
      0b00000000, 0b00000000,
      0b00000000, 0b00000000,
      0b00000000, 0b00000000,
      0b00000000, 0b00000000]"

text \<open>The polling loops, with the number of rounds left.\<close>

fun mouse_wait_loop :: "device \<Rightarrow> nat \<Rightarrow> trace \<Rightarrow> trace" where
  "mouse_wait_loop dev 0 tr = tr"
| "mouse_wait_loop dev (Suc timeout) tr =
     (let (v, tr1) = inb dev 0x64 tr in
      if v AND 0b10 = 0 then tr1 else mouse_wait_loop dev timeout tr1)"

definition MouseWait :: "device \<Rightarrow> trace \<Rightarrow> trace" where
  "MouseWait dev tr = mouse_wait_loop dev 100000 tr"

fun mouse_wait_input_loop :: "device \<Rightarrow> nat \<Rightarrow> trace \<Rightarrow> trace" where
  "mouse_wait_input_loop dev 0 tr = tr"
| "mouse_wait_input_loop dev (Suc timeout) tr =
     (let (v, tr1) = inb dev 0x64 tr in
      if v AND 0b1 \<noteq> 0 then tr1 else mouse_wait_input_loop dev timeout tr1)"

definition MouseWaitInput :: "device \<Rightarrow> trace \<Rightarrow> trace" where
  "MouseWaitInput dev tr = mouse_wait_input_loop dev 100000 tr"

definition MouseWrite :: "device \<Rightarrow> u8 \<Rightarrow> trace \<Rightarrow> trace" where
  "MouseWrite dev v tr =
     (let tr = MouseWait dev tr; tr = outb 0x64 0xD4 tr; tr = MouseWait dev tr in outb 0x60 v tr)"

definition MouseRead :: "device \<Rightarrow> trace \<Rightarrow> u8 \<times> trace" where
  "MouseRead dev tr = inb dev 0x60 (MouseWaitInput dev tr)"

definition InitPS2Mouse :: "device \<Rightarrow> trace \<Rightarrow> trace" where
  "InitPS2Mouse dev tr =
     (let tr = outb 0x64 0xA8 tr;
          tr = MouseWait dev tr;
          tr = outb 0x64 0x20 tr;
          tr = MouseWaitInput dev tr;
          (status, tr) = inb dev 0x60 tr;
          status = status OR 0b10;
          tr = MouseWait dev tr;
          tr = outb 0x64 0x60 tr;
          tr = MouseWait dev tr;
          tr = outb 0x60 status tr;
          tr = MouseWrite dev 0xF6 tr;
          (_, tr) = MouseRead dev tr;
          tr = MouseWrite dev 0xF3 tr;
          (_, tr) = MouseRead dev tr;
          tr = MouseWrite dev 0xC8 tr;
          (_, tr) = MouseRead dev tr;
          tr = MouseWrite dev 0xF4 tr;
          (_, tr) = MouseRead dev tr
      in tr)"

subsection \<open>Packets and movement\<close>

record Point =
  pt_X :: int
  pt_Y :: int

record mouse =
  mouseCycle :: u8
  mousePacket :: "u8 list"
  mousePacketReady :: bool
  skip :: bool
  MousePosition :: Point
  MousePositionOld :: Point

abbreviation (input) PS2XSign :: u8 where "PS2XSign \<equiv> 0b00010000"
abbreviation (input) PS2YSign :: u8 where "PS2YSign \<equiv> 0b00100000"
abbreviation (input) PS2XOverflow :: u8 where "PS2XOverflow \<equiv> 0b01000000"
abbreviation (input) PS2YOverflow :: u8 where "PS2YOverflow \<equiv> 0b10000000"

text \<open>One coordinate of the pointer, cut to the screen.\<close>

definition clamp_axis :: "int \<Rightarrow> u64 \<Rightarrow> int" where
  "clamp_axis pos extent =
     (let p = (if pos < 0 then 0 else pos) in
      if p > sint extent - 1 then sint extent - 1 else p)"

text \<open>
  The new position a packet gives, before it is cut to the screen. The byte of a negative
  movement is stored negated; its value is subtracted.
\<close>

definition move_mouse :: "mouse \<Rightarrow> mouse" where
  "move_mouse ms =
     (let b0 = mousePacket ms ! 0;
          xNegative = (b0 AND PS2XSign \<noteq> 0); yNegative = (b0 AND PS2YSign \<noteq> 0);
          xOverflow = (b0 AND PS2XOverflow \<noteq> 0); yOverflow = (b0 AND PS2YOverflow \<noteq> 0);
          p1 = (if \<not> xNegative then mousePacket ms
                else (mousePacket ms)[1 := word_of_int (256 - uint (mousePacket ms ! 1))]);
          x1 = (if \<not> xNegative
                then pt_X (MousePosition ms) + uint (p1 ! 1) + (if xOverflow then 255 else 0)
                else pt_X (MousePosition ms) - uint (p1 ! 1) - (if xOverflow then 255 else 0));
          p2 = (if \<not> yNegative then p1 else p1[2 := word_of_int (256 - uint (p1 ! 2))]);
          y1 = (if \<not> yNegative
                then pt_Y (MousePosition ms) - uint (p2 ! 2) - (if yOverflow then 255 else 0)
                else pt_Y (MousePosition ms) + uint (p2 ! 2) + (if yOverflow then 255 else 0))
      in ms\<lparr>mousePacket := p2, mousePacketReady := False, MousePosition := \<lparr>pt_X = x1, pt_Y = y1\<rparr>\<rparr>)"

definition ProcessMousePacket :: "mouse \<times> Renderer \<Rightarrow> mouse \<times> Renderer" where
  "ProcessMousePacket s =
     (case s of (ms, r) \<Rightarrow>
      if \<not> mousePacketReady ms then (ms, r)
      else let ms1 = move_mouse ms in
        if GetWidth r \<le> 0 \<and> GetHeight r \<le> 0 then (ms1, r)
        else let pos = \<lparr>pt_X = clamp_axis (pt_X (MousePosition ms1)) (GetWidth r),
                       pt_Y = clamp_axis (pt_Y (MousePosition ms1)) (GetHeight r)\<rparr>;
            old = MousePositionOld ms1;
            r1 = ClearMouseCursor MousePointer (pt_X old) (pt_Y old) r;
            r2 = DrawOverlayMouseCursor MousePointer (pt_X pos) (pt_Y pos) CURSOR_COLOR r1
          in (ms1\<lparr>MousePosition := pos, MousePositionOld := pos\<rparr>, r2))"

definition HandlePS2Mouse :: "u8 \<Rightarrow> mouse \<times> Renderer \<Rightarrow> mouse \<times> Renderer" where
  "HandlePS2Mouse data s =
     (case ProcessMousePacket s of (ms, r) \<Rightarrow>
      if skip ms then (ms\<lparr>skip := False\<rparr>, r)
      else if mouseCycle ms = 0 then
        (if data AND 0b00001000 = 0 then (ms, r)
         else (ms\<lparr>mousePacket := (mousePacket ms)[0 := data], mouseCycle := mouseCycle ms + 1\<rparr>, r))
      else if mouseCycle ms = 1 then
        (ms\<lparr>mousePacket := (mousePacket ms)[1 := data], mouseCycle := mouseCycle ms + 1\<rparr>, r)
      else if mouseCycle ms = 2 then
        (ms\<lparr>mousePacket := (mousePacket ms)[2 := data], mousePacketReady := True, mouseCycle := 0\<rparr>, r)
      else (ms, r))"

text \<open>The state after loading: zeroed variables, and \<open>skip\<close>, which is initialised to true.\<close>

definition mouse_boot :: mouse where
  "mouse_boot = \<lparr>mouseCycle = 0, mousePacket = [0, 0, 0, 0], mousePacketReady = False, skip = True,
     MousePosition = \<lparr>pt_X = 0, pt_Y = 0\<rparr>, MousePositionOld = \<lparr>pt_X = 0, pt_Y = 0\<rparr>\<rparr>"

subsection \<open>Interrupt handlers\<close>

definition PageFault :: kpanic where "PageFault = Panic ''Page Fault Detected''"
definition DoubleFault :: kpanic where "DoubleFault = Panic ''Double Fault Detected''"
definition GPFault :: kpanic where "GPFault = Panic ''General Protection Fault Detected''"

definition KeyboardInt ::
  "device \<Rightarrow> facp_state \<Rightarrow> keyboard \<Rightarrow> trace \<Rightarrow> (kpanic \<times> trace) + (keyboard \<times> trace)" where
  "KeyboardInt dev fs k tr =
     (let (scanCode, tr1) = inb dev 0x60 tr in
      case HandleKeyboard fs scanCode k tr1 of
        Inl p \<Rightarrow> Inl p
      | Inr (k', tr2) \<Rightarrow> Inr (k', PIC_EndMaster tr2))"

definition MouseInt :: "device \<Rightarrow> mouse \<times> Renderer \<Rightarrow> trace \<Rightarrow> (mouse \<times> Renderer) \<times> trace" where
  "MouseInt dev s tr =
     (let (mouseData, tr1) = inb dev 0x60 tr in (HandlePS2Mouse mouseData s, PIC_EndSlave tr1))"

subsection \<open>The bring-up always completes\<close>

text \<open>A trace without the polls of the status port.\<close>

definition is_poll :: "io_event \<Rightarrow> bool" where
  "is_poll e = (case e of In8 p v \<Rightarrow> p = 0x64 | _ \<Rightarrow> False)"

definition protocol :: "trace \<Rightarrow> trace" where
  "protocol tr = filter (\<lambda>e. \<not> is_poll e) tr"

lemma protocol_simps [simp]:
  "protocol (outb p v tr) = protocol tr @ [Out8 p v]" "protocol [] = []"
  by (simp_all add: protocol_def outb_def is_poll_def)

lemma protocol_inb:
  "protocol (snd (inb dev p tr)) = protocol tr @ (if p = 0x64 then [] else [In8 p (fst (inb dev p tr))])"
  by (simp add: protocol_def inb_def is_poll_def Let_def)

lemma length_ports [simp]: "length (outb p v tr) = length tr + 1" "length (snd (inb dev p tr)) = length tr + 1"
  by (simp_all add: outb_def inb_def Let_def)

lemma mouse_wait_loop_props:
  "protocol (mouse_wait_loop dev n tr) = protocol tr \<and> length (mouse_wait_loop dev n tr) \<le> length tr + n"
proof (induction n arbitrary: tr)
  case (Suc n)
  obtain v tr1 where i: "inb dev 0x64 tr = (v, tr1)" by fastforce
  then have "protocol tr1 = protocol tr" "length tr1 = length tr + 1"
    using protocol_inb [of dev "0x64" tr] length_ports(2) [of dev "0x64" tr] by simp_all
  with Suc.IH [of tr1] show ?case by (simp add: i)
qed simp

lemma mouse_wait_input_loop_props:
  "protocol (mouse_wait_input_loop dev n tr) = protocol tr
     \<and> length (mouse_wait_input_loop dev n tr) \<le> length tr + n"
proof (induction n arbitrary: tr)
  case (Suc n)
  obtain v tr1 where i: "inb dev 0x64 tr = (v, tr1)" by fastforce
  then have "protocol tr1 = protocol tr" "length tr1 = length tr + 1"
    using protocol_inb [of dev "0x64" tr] length_ports(2) [of dev "0x64" tr] by simp_all
  with Suc.IH [of tr1] show ?case by (simp add: i)
qed simp

lemma MouseWait_protocol [simp]:
  "protocol (MouseWait dev tr) = protocol tr" "protocol (MouseWaitInput dev tr) = protocol tr"
  by (simp_all only: MouseWait_def MouseWaitInput_def mouse_wait_loop_props mouse_wait_input_loop_props)

lemma MouseWait_length:
  "length (MouseWait dev tr) \<le> length tr + 100000" "length (MouseWaitInput dev tr) \<le> length tr + 100000"
  unfolding MouseWait_def MouseWaitInput_def
  by (rule conjunct2 [OF mouse_wait_loop_props] conjunct2 [OF mouse_wait_input_loop_props])+

lemma MouseWrite_props:
  "protocol (MouseWrite dev v tr) = protocol tr @ [Out8 0x64 0xD4, Out8 0x60 v]"
  "length (MouseWrite dev v tr) \<le> length tr + 200002"
  using MouseWait_length(1) [of dev tr] MouseWait_length(1) [of dev "outb 0x64 0xD4 (MouseWait dev tr)"]
  by (simp_all add: MouseWrite_def Let_def)

lemma MouseRead_props:
  "\<exists>a. protocol (snd (MouseRead dev tr)) = protocol tr @ [In8 0x60 a]"
  "length (snd (MouseRead dev tr)) \<le> length tr + 100001"
  using protocol_inb [of dev "0x60" "MouseWaitInput dev tr"] MouseWait_length(2) [of dev tr]
  by (simp_all add: MouseRead_def)

lemma mouse_command:
  "\<exists>a. protocol (snd (MouseRead dev (MouseWrite dev v tr))) = protocol tr @ [Out8 0x64 0xD4, Out8 0x60 v, In8 0x60 a]"
  "length (snd (MouseRead dev (MouseWrite dev v tr))) \<le> length tr + 300003"
  using MouseRead_props(1) [of dev "MouseWrite dev v tr"] MouseRead_props(2) [of dev "MouseWrite dev v tr"]
    MouseWrite_props(1) [of dev v tr] MouseWrite_props(2) [of dev v tr] by auto

text \<open>
  C25. The bring-up of the mouse returns after a bounded number of port accesses whatever the
  controller answers, even when it never becomes ready. Apart from polling it enables the mouse
  port, sets bit 1 of the status byte it has read, and sends the four commands, each through
  the controller's prefix 0xD4 and followed by one read of the answer.
\<close>

theorem InitPS2Mouse_completes:
  "length (InitPS2Mouse dev tr) \<le> length tr + 1600017
   \<and> (\<exists>status a b c d. protocol (InitPS2Mouse dev tr) = protocol tr @
        [Out8 0x64 0xA8, Out8 0x64 0x20, In8 0x60 status, Out8 0x64 0x60, Out8 0x60 (status OR 0b10),
         Out8 0x64 0xD4, Out8 0x60 0xF6, In8 0x60 a, Out8 0x64 0xD4, Out8 0x60 0xF3, In8 0x60 b,
         Out8 0x64 0xD4, Out8 0x60 0xC8, In8 0x60 c, Out8 0x64 0xD4, Out8 0x60 0xF4, In8 0x60 d])"
proof -
  define t1 where "t1 = MouseWaitInput dev (outb 0x64 0x20 (MouseWait dev (outb 0x64 0xA8 tr)))"
  obtain st t2 where i: "inb dev 0x60 t1 = (st, t2)" by fastforce
  define t3 where "t3 = outb 0x60 (st OR 0b10) (MouseWait dev (outb 0x64 0x60 (MouseWait dev t2)))"
  define t4 where "t4 = snd (MouseRead dev (MouseWrite dev 0xF6 t3))"
  define t5 where "t5 = snd (MouseRead dev (MouseWrite dev 0xF3 t4))"
  define t6 where "t6 = snd (MouseRead dev (MouseWrite dev 0xC8 t5))"
  define t7 where "t7 = snd (MouseRead dev (MouseWrite dev 0xF4 t6))"
  have init: "InitPS2Mouse dev tr = t7"
    by (simp add: InitPS2Mouse_def Let_def case_prod_beta i t1_def [symmetric] t3_def [symmetric] t4_def t5_def t6_def t7_def)
  have "length t1 \<le> length tr + 200002"
    using MouseWait_length(1) [of dev "outb 0x64 0xA8 tr"]
      MouseWait_length(2) [of dev "outb 0x64 0x20 (MouseWait dev (outb 0x64 0xA8 tr))"]
    by (simp add: t1_def)
  moreover have "length t2 = length t1 + 1" using length_ports(2) [of dev "0x60" t1] by (simp add: i)
  moreover have "length t3 \<le> length t2 + 200002"
    using MouseWait_length(1) [of dev t2] MouseWait_length(1) [of dev "outb 0x64 0x60 (MouseWait dev t2)"]
    by (simp add: t3_def)
  moreover note mouse_command(2) [of dev "0xF6" t3, folded t4_def]
    mouse_command(2) [of dev "0xF3" t4, folded t5_def] mouse_command(2) [of dev "0xC8" t5, folded t6_def]
    mouse_command(2) [of dev "0xF4" t6, folded t7_def]
  ultimately have len: "length t7 \<le> length tr + 1600017" by linarith
  have "protocol t1 = protocol tr @ [Out8 0x64 0xA8, Out8 0x64 0x20]" by (simp add: t1_def)
  then have "protocol t3 = protocol tr @ [Out8 0x64 0xA8, Out8 0x64 0x20, In8 0x60 st, Out8 0x64 0x60, Out8 0x60 (st OR 0b10)]"
    using protocol_inb [of dev "0x60" t1] by (simp add: t3_def i)
  moreover obtain a where "protocol t4 = protocol t3 @ [Out8 0x64 0xD4, Out8 0x60 0xF6, In8 0x60 a]"
    using mouse_command(1) [of dev "0xF6" t3] by (auto simp: t4_def)
  moreover obtain b where "protocol t5 = protocol t4 @ [Out8 0x64 0xD4, Out8 0x60 0xF3, In8 0x60 b]"
    using mouse_command(1) [of dev "0xF3" t4] by (auto simp: t5_def)
  moreover obtain c where "protocol t6 = protocol t5 @ [Out8 0x64 0xD4, Out8 0x60 0xC8, In8 0x60 c]"
    using mouse_command(1) [of dev "0xC8" t5] by (auto simp: t6_def)
  moreover obtain d where "protocol t7 = protocol t6 @ [Out8 0x64 0xD4, Out8 0x60 0xF4, In8 0x60 d]"
    using mouse_command(1) [of dev "0xF4" t6] by (auto simp: t7_def)
  ultimately show ?thesis using len by (auto simp: init)
qed

subsection \<open>The pointer and the picture\<close>

lemma ClearMouseCursor_frame [simp]:
  "frameBuffer (ClearMouseCursor shape X Y r) = frameBuffer r"
  "MouseDrawn (ClearMouseCursor shape X Y r) = MouseDrawn r"
  by (simp_all add: ClearMouseCursor_def Let_def fold_frame [where g = frameBuffer] fold_frame [where g = MouseDrawn]
      clear_cursor_pixel_def SetPix_long_def split: prod.split)

lemma DrawOverlayMouseCursor_frame [simp]:
  "frameBuffer (DrawOverlayMouseCursor shape X Y c r) = frameBuffer r"
  "MouseDrawn (DrawOverlayMouseCursor shape X Y c r)"
  unfolding DrawOverlayMouseCursor_def Let_def
  by (auto intro!: fold_frame [where g = frameBuffer]
      simp: draw_cursor_pixel_def Let_def split: prod.splits)

text \<open>The picture without the pointer, and the state the overlay is in.\<close>

definition picture :: "mouse \<Rightarrow> Renderer \<Rightarrow> u64 \<Rightarrow> u32" where
  "picture ms r =
     vram (ClearMouseCursor MousePointer (pt_X (MousePositionOld ms)) (pt_Y (MousePositionOld ms)) r)"

definition overlay_ok :: "mouse \<Rightarrow> Renderer \<Rightarrow> bool" where
  "overlay_ok ms r \<longleftrightarrow> (MouseDrawn r \<longrightarrow> (\<exists>r0. frameBuffer r0 = frameBuffer r \<and>
     r = DrawOverlayMouseCursor MousePointer (pt_X (MousePositionOld ms)) (pt_Y (MousePositionOld ms))
           CURSOR_COLOR r0))"

definition on_screen :: "KFrameBuffer \<Rightarrow> Point \<Rightarrow> bool" where
  "on_screen f p \<longleftrightarrow> cursor_area f (pt_X p) (pt_Y p)"

definition mouse_ok :: "KFrameBuffer \<Rightarrow> mouse \<Rightarrow> bool" where
  "mouse_ok f ms \<longleftrightarrow> mouseCycle ms \<le> 2 \<and> length (mousePacket ms) = 4
     \<and> (mousePacketReady ms \<longrightarrow> mouseCycle ms = 0)
     \<and> on_screen f (MousePosition ms) \<and> on_screen f (MousePositionOld ms)"

lemma picture_off: "\<not> MouseDrawn r \<Longrightarrow> picture ms r = vram r"
  by (simp add: picture_def ClearMouseCursor_def)

lemma picture_drawn:
  assumes "frameBuffer r = Some f" "on_screen f (MousePositionOld ms)"
  shows "picture ms (DrawOverlayMouseCursor MousePointer (pt_X (MousePositionOld ms))
           (pt_Y (MousePositionOld ms)) CURSOR_COLOR r) = vram r"
  using overlay_restores [OF assms(1)] assms(2) by (simp add: picture_def on_screen_def)

lemma uint_ucast64: "uint (ucast (w :: u32) :: u64) = uint w"
proof -
  have "unat (ucast w :: u64) = unat w" by (rule unat_ucast_up) simp
  then have "int (unat (ucast w :: u64)) = int (unat w)" by simp
  then show ?thesis by simp
qed

lemma extent_sint:
  assumes "uint (w :: u32) < 2 ^ 31"
  shows "sint (ucast w :: u64) = uint w"
proof -
  have u: "unat (ucast w :: u64) = unat w" by (rule unat_ucast_up) simp
  have "int (unat w) < 2147483648" using assms by simp
  then have "unat w < 2147483648" by linarith
  then show ?thesis by (simp add: sint_small u)
qed

lemma clamp_axis_bounds:
  assumes "0 < uint (w :: u32)" "uint w < 2 ^ 31"
  shows "0 \<le> clamp_axis x (ucast w)" "clamp_axis x (ucast w) < uint w"
    "0 \<le> x \<Longrightarrow> x < uint w \<Longrightarrow> clamp_axis x (ucast w) = x"
  using assms(1) extent_sint [OF assms(2)] by (auto simp: clamp_axis_def Let_def)

text \<open>A complete packet moves the pointer: the old one is cleared, the new one drawn.\<close>

definition move_to :: "mouse \<Rightarrow> Renderer \<Rightarrow> u8 list \<Rightarrow> Point \<Rightarrow> mouse \<times> Renderer" where
  "move_to ms r p pos =
     (ms\<lparr>mousePacket := p, mousePacketReady := False, MousePosition := pos, MousePositionOld := pos\<rparr>,
      DrawOverlayMouseCursor MousePointer (pt_X pos) (pt_Y pos) CURSOR_COLOR
        (ClearMouseCursor MousePointer (pt_X (MousePositionOld ms)) (pt_Y (MousePositionOld ms)) r))"

lemma move_mouse_frame [simp]:
  "length (mousePacket (move_mouse ms)) = length (mousePacket ms)"
  "MousePositionOld (move_mouse ms) = MousePositionOld ms"
  "(move_mouse ms)\<lparr>MousePosition := a, MousePositionOld := b\<rparr> =
     ms\<lparr>mousePacket := mousePacket (move_mouse ms), mousePacketReady := False,
        MousePosition := a, MousePositionOld := b\<rparr>"
  by (simp_all add: move_mouse_def Let_def)

lemma ProcessMousePacket_move:
  assumes "mousePacketReady ms" and "0 < GetWidth r"
  shows "ProcessMousePacket (ms, r) = move_to ms r (mousePacket (move_mouse ms))
    \<lparr>pt_X = clamp_axis (pt_X (MousePosition (move_mouse ms))) (GetWidth r),
     pt_Y = clamp_axis (pt_Y (MousePosition (move_mouse ms))) (GetHeight r)\<rparr>"
  using assms by (auto simp: ProcessMousePacket_def move_to_def Let_def)

lemma on_screen_clamp:
  assumes "on_screen f p" "frameBuffer r = Some f"
  shows "on_screen f \<lparr>pt_X = clamp_axis x (GetWidth r), pt_Y = clamp_axis y (GetHeight r)\<rparr>"
    and "0 < GetWidth r"
  using assms clamp_axis_bounds [of "kfb_Width f" x] clamp_axis_bounds [of "kfb_Height f" y]
  by (auto simp: on_screen_def cursor_area_def GetWidth_def GetHeight_def word_less_def uint_ucast64)

text \<open>One packet: the picture stays, and the pointer stays on the screen.\<close>

lemma move_to_ok:
  assumes f: "frameBuffer r = Some f" and ok: "mouse_ok f ms" "overlay_ok ms r"
    and pos: "on_screen f pos" "length p = 4"
    and move: "move_to ms r p pos = (ms', r')"
  shows "frameBuffer r' = Some f \<and> mouse_ok f ms' \<and> overlay_ok ms' r' \<and> picture ms' r' = picture ms r"
proof -
  let ?c = "ClearMouseCursor MousePointer (pt_X (MousePositionOld ms)) (pt_Y (MousePositionOld ms)) r"
  have s: "ms' = ms\<lparr>mousePacket := p, mousePacketReady := False, MousePosition := pos, MousePositionOld := pos\<rparr>"
    "r' = DrawOverlayMouseCursor MousePointer (pt_X pos) (pt_Y pos) CURSOR_COLOR ?c"
    using move by (simp_all add: move_to_def)
  have "picture ms' r' = vram ?c"
    using picture_drawn [of ?c f ms'] f pos(1) by (simp add: s)
  moreover have "overlay_ok ms' r'" unfolding overlay_ok_def s by (intro impI exI [of _ ?c]) simp
  ultimately show ?thesis using f ok(1) pos by (simp add: s mouse_ok_def picture_def)
qed

lemma ProcessMousePacket_ok:
  assumes f: "frameBuffer r = Some f" and ok: "mouse_ok f ms" "overlay_ok ms r"
    and step: "ProcessMousePacket (ms, r) = (ms', r')"
  shows "frameBuffer r' = Some f \<and> mouse_ok f ms' \<and> overlay_ok ms' r' \<and> picture ms' r' = picture ms r
    \<and> \<not> mousePacketReady ms'"
proof (cases "mousePacketReady ms")
  case False
  then show ?thesis using assms by (simp add: ProcessMousePacket_def)
next
  case True
  have scr: "on_screen f (MousePosition ms)" and len: "length (mousePacket ms) = 4"
    using ok(1) by (simp_all add: mouse_ok_def)
  note move = ProcessMousePacket_move [OF True on_screen_clamp(2) [OF scr f]]
  from move_to_ok [OF f ok on_screen_clamp(1) [OF scr f] _ trans [OF move [symmetric] step]] len
  show ?thesis using move step by (auto simp: move_to_def move_mouse_frame(1))
qed

lemma HandlePS2Mouse_ok:
  assumes "frameBuffer r = Some f" "mouse_ok f ms" "overlay_ok ms r"
    and "HandlePS2Mouse d (ms, r) = (ms', r')"
  shows "frameBuffer r' = Some f \<and> mouse_ok f ms' \<and> overlay_ok ms' r' \<and> picture ms' r' = picture ms r"
proof -
  obtain ms1 r1 where s: "ProcessMousePacket (ms, r) = (ms1, r1)" by fastforce
  note P = ProcessMousePacket_ok [OF assms(1-3) s]
  have r: "r' = r1" and old: "MousePositionOld ms' = MousePositionOld ms1" and ok: "mouse_ok f ms'"
    using assms(4) P by (auto simp: HandlePS2Mouse_def s mouse_ok_def split: if_splits)
  have "overlay_ok ms' r' = overlay_ok ms1 r1" by (simp add: overlay_ok_def r old)
  then show ?thesis using P ok by (simp add: r old picture_def)
qed

text \<open>
  C20. Whatever bytes the mouse sends, from the first one after booting on: the packet counter
  stays at most 2 and a packet is complete only when the counter is back at 0, the pointer stays
  on the screen, and taking the pointer away always gives back the picture that was on the
  screen before.
\<close>

theorem HandlePS2Mouse_invariant:
  assumes "frameBuffer r = Some f" "cursor_area f 0 0" "\<not> MouseDrawn r"
  shows "case fold HandlePS2Mouse ds (mouse_boot, r) of (ms, r') \<Rightarrow>
    mouseCycle ms \<le> 2 \<and> (mouseCycle ms = 0 \<or> \<not> mousePacketReady ms)
    \<and> 0 \<le> pt_X (MousePosition ms) \<and> pt_X (MousePosition ms) < uint (kfb_Width f)
    \<and> 0 \<le> pt_Y (MousePosition ms) \<and> pt_Y (MousePosition ms) < uint (kfb_Height f)
    \<and> picture ms r' = vram r"
proof -
  define I where "I = (\<lambda>(ms, r'). frameBuffer r' = Some f \<and> mouse_ok f ms \<and> overlay_ok ms r' \<and> picture ms r' = vram r)"
  have "I (mouse_boot, r)"
    using assms by (simp add: I_def mouse_ok_def mouse_boot_def overlay_ok_def on_screen_def picture_off)
  moreover have "I (HandlePS2Mouse d s)" if "I s" for d s
  proof (cases s)
    case (Pair ms r1)
    obtain ms' r' where "HandlePS2Mouse d (ms, r1) = (ms', r')" by fastforce
    with HandlePS2Mouse_ok [of r1 f ms d ms' r'] that Pair show ?thesis by (simp add: I_def)
  qed
  ultimately have "I (fold HandlePS2Mouse ds (mouse_boot, r))"
    using fold_invariant_upt [where P = I and f = HandlePS2Mouse] by blast
  then show ?thesis by (auto simp: I_def mouse_ok_def on_screen_def cursor_area_def split: prod.splits)
qed

theorem HandlePS2Mouse_invariant_witness:
  "case fold HandlePS2Mouse [0, 0x18, 0xF6, 5, 8] (mouse_boot, small_renderer) of (ms, r') \<Rightarrow>
     pt_X (MousePosition ms) < 32 \<and> picture ms r' = (\<lambda>_. 0)"
proof -
  have a: "cursor_area small_screen 0 0" "\<not> MouseDrawn small_renderer"
    by (simp_all add: cursor_area_def fb_ok_def small_screen_def small_renderer_def)
  have w: "uint (kfb_Width small_screen) = 32" "vram small_renderer = (\<lambda>_. 0)"
    by (simp_all add: small_screen_def small_renderer_def)
  show ?thesis
    using HandlePS2Mouse_invariant [OF small_renderer_ok(2) a, of "[0, 0x18, 0xF6, 5, 8]"]
    unfolding w by (simp only: split_beta)
qed

subsection \<open>Movement\<close>

text \<open>The nine-bit signed movement of the PS/2 protocol.\<close>

definition ps2_delta :: "bool \<Rightarrow> u8 \<Rightarrow> int" where
  "ps2_delta negative b = uint b - (if negative then 256 else 0)"

lemma negated_byte: "b \<noteq> 0 \<Longrightarrow> uint (256 - b :: u8) = 256 - uint b"
proof -
  assume "b \<noteq> 0"
  then have "0 < b" by (simp add: word_neq_0_conv)
  then have "0 < uint b" by (simp add: word_less_def)
  moreover have "uint b < 256" using uint_lt2p [of b] by simp
  ultimately have "take_bit 8 (256 - uint b) = 256 - uint b" by (intro take_bit_int_eq_self) simp_all
  moreover have "256 - b = word_of_int (256 - uint b)" by simp
  ultimately show ?thesis by (simp only: uint_word_of_int_eq) simp
qed

lemma move_mouse_delta:
  assumes p: "mousePacket ms = [b0, b1, b2, b3]"
    and "b0 AND PS2XOverflow = 0" "b0 AND PS2YOverflow = 0"
    and "b0 AND PS2XSign \<noteq> 0 \<longrightarrow> b1 \<noteq> 0" "b0 AND PS2YSign \<noteq> 0 \<longrightarrow> b2 \<noteq> 0"
  shows "MousePosition (move_mouse ms) =
    \<lparr>pt_X = pt_X (MousePosition ms) + ps2_delta (b0 AND PS2XSign \<noteq> 0) b1,
     pt_Y = pt_Y (MousePosition ms) - ps2_delta (b0 AND PS2YSign \<noteq> 0) b2\<rparr>"
  using assms by (simp add: move_mouse_def Let_def ps2_delta_def negated_byte)

lemma HandlePS2Mouse_position:
  "MousePosition (fst (HandlePS2Mouse d s)) = MousePosition (fst (ProcessMousePacket s))"
  by (simp add: HandlePS2Mouse_def split: prod.split)

lemma collect_packet:
  assumes "mouseCycle ms = 0" "\<not> skip ms" "\<not> mousePacketReady ms" "mousePacket ms = [x0, x1, x2, x3]"
    and "b0 AND 0b00001000 \<noteq> 0"
  shows "fold HandlePS2Mouse [b0, b1, b2] (ms, r) =
    (ms\<lparr>mousePacket := [b0, b1, b2, x3], mousePacketReady := True\<rparr>, r)"
  using assms by (simp add: HandlePS2Mouse_def ProcessMousePacket_def)

text \<open>
  C33. Between packets, three bytes whose first has bit 3 set and no overflow bit, and whose amounts are not -256,
  move the pointer, when the next byte arrives, by the nine-bit signed amounts of the PS/2 protocol, to the right and
  upwards, cut to the screen. Packets with an overflow bit are not covered, and an amount of -256 moves nothing.
\<close>

theorem HandlePS2Mouse_moves:
  assumes start: "mouseCycle ms = 0" "\<not> skip ms" "\<not> mousePacketReady ms" "mousePacket ms = [x0, x1, x2, x3]"
    and b0: "b0 AND 0b00001000 \<noteq> 0" "b0 AND PS2XOverflow = 0" "b0 AND PS2YOverflow = 0"
    and neg: "b0 AND PS2XSign \<noteq> 0 \<longrightarrow> b1 \<noteq> 0" "b0 AND PS2YSign \<noteq> 0 \<longrightarrow> b2 \<noteq> 0"
    and screen: "0 < GetWidth r"
  shows "MousePosition (fst (fold HandlePS2Mouse [b0, b1, b2, d] (ms, r))) =
    \<lparr>pt_X = clamp_axis (pt_X (MousePosition ms) + ps2_delta (b0 AND PS2XSign \<noteq> 0) b1) (GetWidth r),
     pt_Y = clamp_axis (pt_Y (MousePosition ms) - ps2_delta (b0 AND PS2YSign \<noteq> 0) b2) (GetHeight r)\<rparr>"
proof -
  let ?ms = "ms\<lparr>mousePacket := [b0, b1, b2, x3], mousePacketReady := True\<rparr>"
  have "fold HandlePS2Mouse [b0, b1, b2, d] (ms, r) = HandlePS2Mouse d (fold HandlePS2Mouse [b0, b1, b2] (ms, r))"
    by simp
  then have "MousePosition (fst (fold HandlePS2Mouse [b0, b1, b2, d] (ms, r))) =
      MousePosition (fst (ProcessMousePacket (?ms, r)))"
    by (simp only: collect_packet [OF start b0(1)] HandlePS2Mouse_position)
  also have "\<dots> = \<lparr>pt_X = clamp_axis (pt_X (MousePosition (move_mouse ?ms))) (GetWidth r),
      pt_Y = clamp_axis (pt_Y (MousePosition (move_mouse ?ms))) (GetHeight r)\<rparr>"
    by (subst ProcessMousePacket_move) (simp_all add: move_to_def screen)
  also have "MousePosition (move_mouse ?ms) =
    \<lparr>pt_X = pt_X (MousePosition ?ms) + ps2_delta (b0 AND PS2XSign \<noteq> 0) b1,
     pt_Y = pt_Y (MousePosition ?ms) - ps2_delta (b0 AND PS2YSign \<noteq> 0) b2\<rparr>"
    by (rule move_mouse_delta [OF _ b0(2,3) neg]) simp
  finally show ?thesis by simp
qed

theorem HandlePS2Mouse_moves_witness:
  "MousePosition (fst (fold HandlePS2Mouse [0x18, 0xF6, 3, 8]
     (mouse_boot\<lparr>skip := False, MousePosition := \<lparr>pt_X = 20, pt_Y = 9\<rparr>\<rparr>, small_renderer))) = \<lparr>pt_X = 10, pt_Y = 6\<rparr>"
  by (subst HandlePS2Mouse_moves)
     (simp_all add: mouse_boot_def small_renderer_def small_screen_def GetWidth_def GetHeight_def
        ps2_delta_def clamp_axis_def)

subsection \<open>Interrupts\<close>

text \<open>
  The documented behaviour of the two interrupt controllers: the lines in service as bits, for the master and the
  slave. A line of the slave is in service at the master too, as line 2. An end-of-interrupt command ends the
  line of highest priority, the lowest bit, of the controller it is written to; a line of lower or the same priority is blocked until then.
\<close>

type_synonym pic_pair = "u8 \<times> u8"

definition pic_raise :: "nat \<Rightarrow> pic_pair \<Rightarrow> pic_pair" where
  "pic_raise line p = (case p of (m, s) \<Rightarrow>
     if line < 8 then (m OR push_bit line 1, s) else (m OR push_bit 2 1, s OR push_bit (line - 8) 1))"

definition pic_eoi :: "u8 \<Rightarrow> u8" where
  "pic_eoi v = v AND (v - 1)"

definition pic_write :: "io_event \<Rightarrow> pic_pair \<Rightarrow> pic_pair" where
  "pic_write e p = (case p of (m, s) \<Rightarrow>
     if e = Out8 PIC1_COMMAND PIC_EOI then (pic_eoi m, s)
     else if e = Out8 PIC2_COMMAND PIC_EOI then (m, pic_eoi s) else (m, s))"

definition pic_run :: "trace \<Rightarrow> pic_pair \<Rightarrow> pic_pair" where
  "pic_run evs p = fold pic_write evs p"

text \<open>
  The kernel after booting is driven by keyboard interrupts, line 1, and mouse interrupts, line 12, in any order;
  a handler runs with interrupts off.
\<close>

type_synonym input_state = "keyboard \<times> mouse \<times> Renderer \<times> trace \<times> pic_pair"

inductive irq_step :: "device \<Rightarrow> facp_state \<Rightarrow> input_state \<Rightarrow> input_state \<Rightarrow> bool"
  for dev :: device and fs :: facp_state where
  key: "KeyboardInt dev fs k tr = Inr (k', tr @ evs) \<Longrightarrow>
    irq_step dev fs (k, ms, r, tr, p) (k', ms, r, tr @ evs, pic_run evs (pic_raise 1 p))"
| move: "MouseInt dev (ms, r) tr = ((ms', r'), tr @ evs) \<Longrightarrow>
    irq_step dev fs (k, ms, r, tr, p) (k, ms', r', tr @ evs, pic_run evs (pic_raise 12 p))"

inductive_cases irq_stepE: "irq_step dev fs (k, ms, r, tr, p) t"

text \<open>Bytes taken from the controller, and interrupts acknowledged at the master.\<close>

definition taken :: "trace \<Rightarrow> nat" where
  "taken tr = length (filter (\<lambda>e. case e of In8 p v \<Rightarrow> p = 0x60 | _ \<Rightarrow> False) tr)"

definition acknowledged :: "trace \<Rightarrow> nat" where
  "acknowledged tr = length (filter (\<lambda>e. e = Out8 PIC1_COMMAND PIC_EOI) tr)"

lemma KeyboardInt_acknowledges:
  "KeyboardInt dev fs k tr = Inr (k', tr @ evs) \<Longrightarrow>
     taken evs = 1 \<and> acknowledged evs = 1 \<and> pic_run evs (pic_raise 1 (0, 0)) = (0, 0)"
  by (auto simp: KeyboardInt_def HandleKeyboard_def inb_def PIC_EndMaster_def outb_def Let_def
      taken_def acknowledged_def pic_run_def pic_raise_def pic_write_def pic_eoi_def split: if_splits)

lemma MouseInt_acknowledges:
  "MouseInt dev s tr = (s', tr @ evs) \<Longrightarrow>
     taken evs = 1 \<and> acknowledged evs = 1 \<and> pic_run evs (pic_raise 12 (0, 0)) = (0, 0)"
  by (auto simp: MouseInt_def inb_def PIC_EndSlave_def outb_def Let_def taken_def acknowledged_def
      pic_run_def pic_raise_def pic_write_def pic_eoi_def)

definition input_ok :: "int \<Rightarrow> input_state \<Rightarrow> bool" where
  "input_ok d s = (case s of (k, ms, r, tr, p) \<Rightarrow> p = (0, 0) \<and> int (taken tr) - int (acknowledged tr) = d)"

lemma irq_step_ok:
  assumes "irq_step dev fs s t" "input_ok d s"
  shows "input_ok d t"
  using assms
proof (cases rule: irq_step.cases)
  case (key k tr k' evs ms r p)
  with assms(2) KeyboardInt_acknowledges [OF key(3)] show ?thesis
    by (simp add: input_ok_def taken_def acknowledged_def)
next
  case (move ms r tr ms' r' evs k p)
  with assms(2) MouseInt_acknowledges [OF move(3)] show ?thesis
    by (simp add: input_ok_def taken_def acknowledged_def)
qed

text \<open>
  C12. Under any sequence of keyboard and mouse interrupts that does not end in a shutdown, and
  for any bytes the controller delivers, no interrupt stays in service at the master or at the slave interrupt
  controller, so that no line is blocked, and every byte taken has been acknowledged exactly once at
  the master.
\<close>

theorem irq_reachable_ok:
  assumes "(irq_step dev fs)\<^sup>*\<^sup>* (k, ms, r, tr, (0, 0)) (k', ms', r', tr', p)"
  shows "p = (0, 0) \<and> taken tr' + acknowledged tr = taken tr + acknowledged tr'"
proof -
  let ?d = "int (taken tr) - int (acknowledged tr)"
  have "input_ok ?d (k, ms, r, tr, (0, 0))" by (simp add: input_ok_def)
  with assms have "input_ok ?d (k', ms', r', tr', p)"
    by (induction rule: rtranclp_induct) (auto intro: irq_step_ok)
  then show ?thesis by (simp add: input_ok_def)
qed

theorem irq_reachable_ok_witness:
  "\<exists>k ms r tr p. (irq_step (\<lambda>_ _. 0x2A) undefined)\<^sup>*\<^sup>*
       (\<lparr>isLeftShiftPressed = False, isRightShiftPressed = False\<rparr>, mouse_boot, small_renderer, [], (0, 0)) (k, ms, r, tr, p)
     \<and> isLeftShiftPressed k \<and> length tr = 5 \<and> p = (0, 0) \<and> acknowledged tr = taken tr"
proof -
  let ?dev = "\<lambda>_ _. 0x2A" and ?k = "\<lparr>isLeftShiftPressed = False, isRightShiftPressed = False\<rparr>"
  obtain k1 t1 where k: "KeyboardInt ?dev undefined ?k [] = Inr (k1, [] @ t1)" "isLeftShiftPressed k1" "length t1 = 2"
    by (simp add: KeyboardInt_def HandleKeyboard_def inb_def Let_def PIC_EndMaster_def outb_def)
  obtain ms r t2 where m: "MouseInt ?dev (mouse_boot, small_renderer) ([] @ t1) = ((ms, r), ([] @ t1) @ t2)" "length t2 = 3"
    by (cases "HandlePS2Mouse 0x2A (mouse_boot, small_renderer)")
       (simp add: MouseInt_def inb_def Let_def PIC_EndSlave_def outb_def)
  let ?p = "pic_run t2 (pic_raise 12 (pic_run t1 (pic_raise 1 (0, 0))))"
  have steps: "(irq_step ?dev undefined)\<^sup>*\<^sup>* (?k, mouse_boot, small_renderer, [], (0, 0)) (k1, ms, r, ([] @ t1) @ t2, ?p)"
    using irq_step.key [OF k(1)] irq_step.move [OF m(1)] by (meson converse_rtranclp_into_rtranclp r_into_rtranclp)
  have n: "taken [] = 0" "acknowledged [] = 0" by (simp_all add: taken_def acknowledged_def)
  from irq_reachable_ok [OF steps] steps k(2,3) m(2) n show ?thesis
    by (intro exI [of _ k1] exI [of _ ms] exI [of _ r] exI [of _ "([] @ t1) @ t2"] exI [of _ ?p]) simp
qed

end
