(* ===== verification/KernelInit.thy ===== *)
theory KernelInit
  imports Console Cpu Apic Input PciNames
begin

section \<open>Starting the kernel (kernel/src/utils/kernelUtil.cpp, kernel/src/gdt)\<close>

text \<open>
  The steps of the start-up that bring components together: the segment descriptors, the interrupt
  controllers behind the gates that lead to the handlers, the report on the processor, and the
  search for the ACPI tables with what is initialised from them.
\<close>

subsection \<open>Segment descriptors (gdt.cpp, gdt.asm)\<close>

record GDTDescriptor =
  gdtr_Size :: u16
  gdtr_Offset :: u64

record GDTEntry =
  Limit0 :: u16
  Base0 :: u16
  Base1 :: u8
  AccessByte :: u8
  Limit1_Flags :: u8
  Base2 :: u8

record GDT =
  gdt_Null :: GDTEntry
  gdt_KernelCode :: GDTEntry
  gdt_KernelData :: GDTEntry
  gdt_UserNull :: GDTEntry
  gdt_UserCode :: GDTEntry
  gdt_UserData :: GDTEntry

definition gdt_entry :: "u8 \<Rightarrow> u8 \<Rightarrow> GDTEntry" where
  "gdt_entry access flags = \<lparr>Limit0 = 0, Base0 = 0, Base1 = 0, AccessByte = access,
     Limit1_Flags = flags, Base2 = 0\<rparr>"

definition DefaultGDT :: GDT where
  "DefaultGDT = \<lparr>
     gdt_Null = gdt_entry 0x00 0x00,
     gdt_KernelCode = gdt_entry 0x9a 0xa0,
     gdt_KernelData = gdt_entry 0x92 0xa0,
     gdt_UserNull = gdt_entry 0x00 0x00,
     gdt_UserCode = gdt_entry 0x9a 0xa0,
     gdt_UserData = gdt_entry 0x92 0xa0\<rparr>"

text \<open>
  The layout in memory: both structures are packed; the alignment of the table makes its size a
  whole page.
\<close>

definition GDTEntry_bytes :: "GDTEntry \<Rightarrow> u8 list" where
  "GDTEntry_bytes e = le_bytes 2 (Limit0 e) @ le_bytes 2 (Base0 e) @
     [Base1 e, AccessByte e, Limit1_Flags e, Base2 e]"

definition GDT_bytes :: "GDT \<Rightarrow> u8 list" where
  "GDT_bytes g = GDTEntry_bytes (gdt_Null g) @ GDTEntry_bytes (gdt_KernelCode g) @
     GDTEntry_bytes (gdt_KernelData g) @ GDTEntry_bytes (gdt_UserNull g) @
     GDTEntry_bytes (gdt_UserCode g) @ GDTEntry_bytes (gdt_UserData g)"

definition sizeof_GDT :: u64 where "sizeof_GDT = 0x1000"

definition gdtDescriptor_for :: "u64 \<Rightarrow> GDTDescriptor" where
  "gdtDescriptor_for gdt = \<lparr>gdtr_Size = ucast (sizeof_GDT - 1), gdtr_Offset = gdt\<rparr>"

text \<open>The segment registers that \<open>LoadGDT\<close> sets.\<close>

record segment_registers =
  gdtr :: GDTDescriptor
  seg_cs :: u16
  seg_ds :: u16
  seg_es :: u16
  seg_fs :: u16
  seg_gs :: u16
  seg_ss :: u16

definition LoadGDT :: "GDTDescriptor \<Rightarrow> segment_registers \<Rightarrow> segment_registers" where
  "LoadGDT d s = s\<lparr>gdtr := d, seg_ds := 0x10, seg_es := 0x10, seg_fs := 0x10, seg_gs := 0x10,
     seg_ss := 0x10, seg_cs := 0x08\<rparr>"

subsection \<open>Interrupts\<close>

definition PIC1_open :: u8 where "PIC1_open = 0b11111000"
definition PIC2_open :: u8 where "PIC2_open = 0b11101111"

text \<open>The part of \<open>InitializeKernel\<close> from the gates to the masks of the controllers.\<close>

definition start_interrupts :: "handlers \<Rightarrow> device \<Rightarrow> idt \<Rightarrow> trace \<Rightarrow> idt \<times> trace" where
  "start_interrupts h dev t tr =
     (let (t, tr) = PrepareInterrupts h dev t tr;
          tr = InitPS2Mouse dev tr;
          tr = outb PIC1_DATA PIC1_open tr;
          tr = outb PIC2_DATA PIC2_open tr
      in (t, tr))"

subsection \<open>The report on the processor\<close>

text \<open>A word of the list of features, for one test.\<close>

definition print_feature ::
  "mem \<Rightarrow> (CPUInfo \<Rightarrow> bool \<times> CPUInfo) \<Rightarrow> string \<Rightarrow> CPUInfo \<times> console \<Rightarrow> CPUInfo \<times> console" where
  "print_feature m test name s = (case s of (g, c) \<Rightarrow> (case test g of (has, g) \<Rightarrow>
     (g, if has then printStats m (text_bytes name) BR_DARK_CYAN c else c)))"

definition printCPUInfo :: "mem \<Rightarrow> cpuid_insn \<Rightarrow> u32 \<Rightarrow> CPUInfo \<times> console \<Rightarrow> CPUInfo \<times> console" where
  "printCPUInfo m cpuid rcx s = (let
     cpuInfo = GetCPUInfo cpuid rcx (fst s);
     c = in_order
      [printStatsSpacing m BR_DARK_CYAN,
       printStats m (text_bytes ''Vendor: '') BR_DARK_CYAN,
       printStats m (c_str (VendorString cpuInfo)) BR_DARK_CYAN,
       printStats m (text_bytes '' ('') BR_DARK_CYAN,
       put_color BR_DARK_CYAN, put_u64 m (ucast (cpu_VendorID cpuInfo)),
       printStats m (text_bytes '')'') BR_DARK_CYAN,
       statNewLine m,
       printStatsSpacing m BR_DARK_CYAN,
       printStats m (text_bytes ''Brand: '') BR_DARK_CYAN,
       printStats m (c_str (BrandString cpuInfo)) BR_DARK_CYAN,
       statNewLine m,
       printStatsSpacing m BR_DARK_CYAN,
       printStats m (text_bytes ''Features: '') BR_DARK_CYAN] (snd s);
     s = in_order
      [print_feature m (CPU_APIC cpuid rcx) ''APIC '',
       print_feature m (CPU_FPU cpuid rcx) ''FPU '',
       print_feature m (CPU_X2APIC cpuid rcx) ''X2APIC '',
       print_feature m (CPU_SSE cpuid rcx) ''SSE ''] (cpuInfo, c)
   in (fst s, statNewLine m (snd s)))"

subsection \<open>The ACPI tables\<close>

text \<open>
  What the search changes: the PCI devices with the page tables, the drivers, the power
  management, the interrupt controllers, the stored processor description, the trace of device
  registers, and the messages of the function itself in order.
\<close>

datatype message = Info string | Warning string | Revision u8

record acpi_kernel =
  ak_pci :: pci_state
  ak_drivers :: "AHCIDriver DriverManager"
  ak_facp :: facp_state
  ak_madt :: u64
  ak_madt_info :: MADTInformation
  ak_cpu :: CPUInfo
  ak_mmio :: mmio_trace
  ak_messages :: "message list"

abbreviation (input) ak_mem :: "acpi_kernel \<Rightarrow> mem" where
  "ak_mem st \<equiv> pmem (paging (ak_pci st))"

definition say :: "message \<Rightarrow> acpi_kernel \<Rightarrow> acpi_kernel" where
  "say msg st = st\<lparr>ak_messages := ak_messages st @ [msg]\<rparr>"

text \<open>Where the linker put the three signatures the function searches for.\<close>

record acpi_names =
  name_MCFG :: u64
  name_FACP :: u64
  name_APIC :: u64

text \<open>\<open>InitAPIC\<close> ends in the same way whether the initialisation succeeded or not.\<close>

definition InitAPIC ::
  "hba_device \<Rightarrow> u64 \<Rightarrow> u64 \<Rightarrow> acpi_kernel \<Rightarrow> (madt_stop + acpi_kernel) option" where
  "InitAPIC dev PML4 madt st =
     (case MADTInit dev PML4 madt \<lparr>s_madt = ak_madt st, s_madt_info = ak_madt_info st,
         madt_pages = paging (ak_pci st)\<rparr> (ak_mmio st) of
        None \<Rightarrow> None
      | Some (Inl e) \<Rightarrow> Some (Inl e)
      | Some (Inr (ok, ms, tr)) \<Rightarrow> Some (Inr (st\<lparr>ak_madt := s_madt ms, ak_madt_info := s_madt_info ms,
          ak_pci := (ak_pci st)\<lparr>paging := madt_pages ms\<rparr>, ak_mmio := tr\<rparr>)))"

abbreviation (input) panics :: "string \<Rightarrow> (madt_stop + 'a) option" where
  "panics message \<equiv> Some (Inl (Stopped (Panic message)))"

text \<open>
  The parts that are the same for both kinds of root table: the PCI devices, then power management
  and interrupt controllers.
\<close>

definition init_pci :: "u64 \<Rightarrow> u64 \<Rightarrow> acpi_kernel \<Rightarrow> acpi_kernel may_panic" where
  "init_pci PML4 mcfg st =
     (if mcfg = NULL
      then Inr (say (Warning ''MCFG Table not found - skipping initialization of PCI driver'') st)
      else case EnumeratePCI PML4 mcfg (ak_pci st, ak_drivers st) of Inl p \<Rightarrow> Inl p
        | Inr (pci, dm) \<Rightarrow> Inr (st\<lparr>ak_pci := pci, ak_drivers := dm\<rparr>))"

definition init_power_and_apic ::
  "cpuid_insn \<Rightarrow> u32 \<Rightarrow> hba_device \<Rightarrow> u64 \<Rightarrow> acpi_names \<Rightarrow> (mem \<Rightarrow> u64 \<Rightarrow> u64 \<Rightarrow> u64) \<Rightarrow> u64 \<Rightarrow>
     acpi_kernel \<Rightarrow> (madt_stop + acpi_kernel) option" where
  "init_power_and_apic cpuid rcx dev PML4 names FindTable rootHeader st =
     (let facp = FindTable (ak_mem st) rootHeader (name_FACP names) in
      if facp = NULL then panics ''FACP Table not found''
      else let st = st\<lparr>ak_facp := InitFACP (ak_mem st) facp (ak_facp st)\<rparr>;
               (has, g) = CPU_APIC cpuid rcx (ak_cpu st);
               st = st\<lparr>ak_cpu := g\<rparr> in
      if \<not> has then panics ''APIC not supported''
      else let madt = FindTable (ak_mem st) rootHeader (name_APIC names) in
      if madt = NULL then panics ''MADT Table not found - no APIC support!''
      else InitAPIC dev PML4 madt st)"

definition init_from_tables ::
  "cpuid_insn \<Rightarrow> u32 \<Rightarrow> hba_device \<Rightarrow> u64 \<Rightarrow> acpi_names \<Rightarrow> (mem \<Rightarrow> u64 \<Rightarrow> u64 \<Rightarrow> u64) \<Rightarrow> u64 \<Rightarrow>
     acpi_kernel \<Rightarrow> (madt_stop + acpi_kernel) option" where
  "init_from_tables cpuid rcx dev PML4 names FindTable rootHeader st =
     (if rootHeader = NULL then panics ''Root ACPI header not found''
      else case init_pci PML4 (FindTable (ak_mem st) rootHeader (name_MCFG names)) st of
        Inl p \<Rightarrow> Some (Inl (Stopped p))
      | Inr st \<Rightarrow> init_power_and_apic cpuid rcx dev PML4 names FindTable rootHeader st)"

definition PrepareACPI ::
  "cpuid_insn \<Rightarrow> u32 \<Rightarrow> hba_device \<Rightarrow> u64 \<Rightarrow> acpi_names \<Rightarrow> u64 \<Rightarrow> acpi_kernel \<Rightarrow>
     (madt_stop + acpi_kernel) option" where
  "PrepareACPI cpuid rcx dev PML4 names rsdp st =
     (if rsdp = NULL then panics ''RSDP header not found''
      else let r = RSDP2_at (ak_mem st) rsdp;
               st = say (Revision (rsdp_Revision r)) (say (Info ''RSDP Header found'') st) in
      if rsdp_Revision r \<ge> 2 then
        (let st = say (Info ''Using XSDT'') st; rootHeader = rsdp_XSDTAddress r in
         case EnumXSDT (ak_mem st) rootHeader of Inl p \<Rightarrow> Some (Inl (Stopped p))
         | Inr _ \<Rightarrow> init_from_tables cpuid rcx dev PML4 names FindXSDTTable rootHeader st)
      else
        (let st = say (Info ''Using RSDT'') st; rootHeader = ucast (rsdp_RSDTAddress r) in
         case EnumRSDT (ak_mem st) rootHeader of Inl p \<Rightarrow> Some (Inl (Stopped p))
         | Inr _ \<Rightarrow> init_from_tables cpuid rcx dev PML4 names FindRSDTTable rootHeader st))"

subsection \<open>The segments the kernel runs in\<close>

text \<open>
  The processor's reading of a selector: the eight bytes behind the table's address, when they lie
  within its limit. The documented meaning of the bits that the kernel sets: present, privilege,
  code or data segment, executable, writable, 64-bit.
\<close>

definition descriptor_at :: "mem \<Rightarrow> GDTDescriptor \<Rightarrow> u16 \<Rightarrow> u8 list option" where
  "descriptor_at m d sel = (let i = sel AND 0xFFF8 in
     if i + 7 \<le> gdtr_Size d then Some (get_bytes m (gdtr_Offset d + ucast i) 8) else None)"

definition present_segment :: "u8 list \<Rightarrow> bool" where
  "present_segment e \<longleftrightarrow> bit (e ! 5) 7 \<and> bit (e ! 5) 4"

definition privilege :: "u8 list \<Rightarrow> u8" where "privilege e = drop_bit 5 (e ! 5) AND 3"

definition code_segment :: "u8 list \<Rightarrow> bool" where "code_segment e \<longleftrightarrow> bit (e ! 5) 3 \<and> bit (e ! 6) 5"

definition data_segment :: "u8 list \<Rightarrow> bool" where "data_segment e \<longleftrightarrow> \<not> bit (e ! 5) 3 \<and> bit (e ! 5) 1"

lemma get_bytes_slice:
  "get_bytes m a n = bs \<Longrightarrow> i + k \<le> n \<Longrightarrow> get_bytes m (a + of_nat i) k = take k (drop i bs)"
  by (rule nth_equalityI) (auto simp: get_bytes_def add.assoc)

lemma GDT_slices:
  assumes "get_bytes m gdt 48 = GDT_bytes DefaultGDT"
  shows "descriptor_at m (gdtDescriptor_for gdt) 0x08 = Some (GDTEntry_bytes (gdt_entry 0x9a 0xa0))"
    "descriptor_at m (gdtDescriptor_for gdt) 0x10 = Some (GDTEntry_bytes (gdt_entry 0x92 0xa0))"
    "descriptor_at m (gdtDescriptor_for gdt) 0x23 = Some (GDTEntry_bytes (gdt_entry 0x9a 0xa0))"
    "descriptor_at m (gdtDescriptor_for gdt) 0x2B = Some (GDTEntry_bytes (gdt_entry 0x92 0xa0))"
  using get_bytes_slice [OF assms, of 8 8] get_bytes_slice [OF assms, of 16 8]
    get_bytes_slice [OF assms, of 32 8] get_bytes_slice [OF assms, of 40 8]
  by (simp_all add: descriptor_at_def gdtDescriptor_for_def sizeof_GDT_def GDT_bytes_def
      DefaultGDT_def GDTEntry_bytes_def Let_def)

lemma segment_bits:
  "present_segment (GDTEntry_bytes (gdt_entry 0x9a 0xa0))" "code_segment (GDTEntry_bytes (gdt_entry 0x9a 0xa0))"
  "privilege (GDTEntry_bytes (gdt_entry 0x9a 0xa0)) = 0"
  "present_segment (GDTEntry_bytes (gdt_entry 0x92 0xa0))" "data_segment (GDTEntry_bytes (gdt_entry 0x92 0xa0))"
  "privilege (GDTEntry_bytes (gdt_entry 0x92 0xa0)) = 0"
  by (simp_all add: present_segment_def code_segment_def data_segment_def privilege_def
      GDTEntry_bytes_def gdt_entry_def nth_append)

text \<open>
  After the table has been loaded the code segment is a present 64-bit code segment and all data
  segment registers select a present writable data segment, both of the kernel's privilege 0. The
  segments that are there for user programs have privilege 0 as well.
\<close>

theorem LoadGDT_segments:
  assumes "get_bytes m gdt 48 = GDT_bytes DefaultGDT" and "r = LoadGDT (gdtDescriptor_for gdt) r0"
  shows "(\<exists>e. descriptor_at m (gdtr r) (seg_cs r) = Some e \<and> present_segment e \<and> code_segment e \<and> privilege e = 0) \<and>
    (\<forall>sel \<in> {seg_ds r, seg_es r, seg_fs r, seg_gs r, seg_ss r}.
       \<exists>e. descriptor_at m (gdtr r) sel = Some e \<and> present_segment e \<and> data_segment e \<and> privilege e = 0) \<and>
    (\<forall>sel \<in> {0x23, 0x2B}. \<exists>e. descriptor_at m (gdtr r) sel = Some e \<and> present_segment e \<and> privilege e = 0)"
  by (simp add: assms(2) LoadGDT_def GDT_slices [OF assms(1)] segment_bits)

definition gdt_memory :: mem where
  "gdt_memory = poke 0x108008 [0, 0, 0, 0, 0, 0x9a, 0xa0, 0, 0, 0, 0, 0, 0, 0x92, 0xa0, 0, 0, 0, 0, 0, 0, 0, 0, 0,
     0, 0, 0, 0, 0, 0x9a, 0xa0, 0, 0, 0, 0, 0, 0, 0x92, 0xa0, 0] (\<lambda>_. 0)"

theorem LoadGDT_segments_witness:
  "\<exists>e. descriptor_at gdt_memory (gdtDescriptor_for 0x108000) 0x08 = Some e \<and> present_segment e \<and> code_segment e"
proof -
  have "get_bytes gdt_memory 0x108000 48 = GDT_bytes DefaultGDT" by code_simp
  from LoadGDT_segments [OF this refl, of undefined] show ?thesis by (auto simp: LoadGDT_def)
qed

subsection \<open>Open interrupt lines\<close>

text \<open>
  An interrupt controller as its data sheet describes it: a command with bit 4 starts an
  initialisation of three or four bytes that also clears the mask, and a byte to the data port outside
  of one is the new mask.
\<close>

record pic =
  pic_base :: u8
  pic_mask :: u8
  pic_next :: nat
  pic_icw4 :: bool

definition pic_step :: "u16 \<Rightarrow> u16 \<Rightarrow> io_event \<Rightarrow> pic \<Rightarrow> pic" where
  "pic_step command_port data_port e p = (case e of
     Out8 port v \<Rightarrow>
       if port = command_port then
         (if bit v 4 then p\<lparr>pic_mask := 0, pic_next := 2, pic_icw4 := bit v 0\<rparr> else p)
       else if port = data_port then
         (if pic_next p = 2 then p\<lparr>pic_base := v AND 0xF8, pic_next := 3\<rparr>
          else if pic_next p = 3 then p\<lparr>pic_next := (if pic_icw4 p then 4 else 0)\<rparr>
          else if pic_next p = 4 then p\<lparr>pic_next := 0\<rparr>
          else p\<lparr>pic_mask := v\<rparr>)
       else p
   | _ \<Rightarrow> p)"

definition pic_after :: "u16 \<Rightarrow> u16 \<Rightarrow> trace \<Rightarrow> pic \<Rightarrow> pic" where
  "pic_after command_port data_port tr p = fold (pic_step command_port data_port) tr p"

lemma pic_after_append: "pic_after c d (a @ b) p = pic_after c d b (pic_after c d a p)"
  by (simp add: pic_after_def)

text \<open>Events on other ports do not reach a controller.\<close>

definition mouse_ports :: "trace \<Rightarrow> bool" where
  "mouse_ports tr \<longleftrightarrow> (\<forall>e \<in> set tr. (\<exists>v. e = Out8 0x60 v) \<or> (\<exists>v. e = Out8 0x64 v) \<or>
     (\<exists>v. e = In8 0x60 v) \<or> (\<exists>v. e = In8 0x64 v))"

definition only_mouse :: "trace \<Rightarrow> trace \<Rightarrow> bool" where
  "only_mouse tr tr' \<longleftrightarrow> (\<exists>ev. tr' = tr @ ev \<and> mouse_ports ev)"

lemma only_mouse_refl: "only_mouse tr tr"
  by (simp add: only_mouse_def mouse_ports_def)

lemma only_mouse_trans: "only_mouse a b \<Longrightarrow> only_mouse b c \<Longrightarrow> only_mouse a c"
  unfolding only_mouse_def mouse_ports_def by (metis Un_iff append.assoc set_append)

lemma only_mouse_snoc:
  "only_mouse tr a \<Longrightarrow> mouse_ports [e] \<Longrightarrow> only_mouse tr (a @ [e])"
  by (erule only_mouse_trans) (auto simp: only_mouse_def)

lemma pic_ignores_mouse:
  "only_mouse tr tr' \<Longrightarrow> pic_after PIC1_COMMAND PIC1_DATA tr' p = pic_after PIC1_COMMAND PIC1_DATA tr p \<and>
     pic_after PIC2_COMMAND PIC2_DATA tr' p = pic_after PIC2_COMMAND PIC2_DATA tr p"
proof -
  have "mouse_ports ev \<Longrightarrow> pic_after PIC1_COMMAND PIC1_DATA ev p = p \<and> pic_after PIC2_COMMAND PIC2_DATA ev p = p" for ev p
    by (induction ev arbitrary: p) (auto simp: mouse_ports_def pic_after_def pic_step_def)
  then show "only_mouse tr tr' \<Longrightarrow> ?thesis" by (auto simp: only_mouse_def pic_after_append)
qed

lemma only_mouse_ports [intro]:
  "only_mouse tr a \<Longrightarrow> only_mouse tr (outb 0x60 v a)" "only_mouse tr a \<Longrightarrow> only_mouse tr (outb 0x64 v a)"
  "only_mouse tr a \<Longrightarrow> only_mouse tr (snd (inb dev 0x60 a))" "only_mouse tr a \<Longrightarrow> only_mouse tr (snd (inb dev 0x64 a))"
  by (simp_all add: outb_def inb_def Let_def only_mouse_snoc mouse_ports_def)

lemma only_mouse_wait: "only_mouse tr a \<Longrightarrow> only_mouse tr (mouse_wait_loop dev n a)"
proof (induction n arbitrary: a)
  case (Suc n)
  then have "only_mouse tr (a @ [In8 0x64 (ucast (dev a 0x64))])"
    by (simp add: only_mouse_snoc mouse_ports_def)
  then show ?case using Suc.IH by (simp add: inb_def Let_def)
qed simp

lemma only_mouse_wait_input: "only_mouse tr a \<Longrightarrow> only_mouse tr (mouse_wait_input_loop dev n a)"
proof (induction n arbitrary: a)
  case (Suc n)
  then have "only_mouse tr (a @ [In8 0x64 (ucast (dev a 0x64))])"
    by (simp add: only_mouse_snoc mouse_ports_def)
  then show ?case using Suc.IH by (simp add: inb_def Let_def)
qed simp

lemma only_mouse_operations [intro]:
  "only_mouse tr a \<Longrightarrow> only_mouse tr (MouseWait dev a)"
  "only_mouse tr a \<Longrightarrow> only_mouse tr (MouseWaitInput dev a)"
  "only_mouse tr a \<Longrightarrow> only_mouse tr (MouseWrite dev v a)"
  "only_mouse tr a \<Longrightarrow> only_mouse tr (snd (MouseRead dev a))"
  unfolding MouseWait_def MouseWaitInput_def MouseWrite_def MouseRead_def Let_def
  by (auto intro!: only_mouse_ports only_mouse_wait only_mouse_wait_input)

lemma InitPS2Mouse_only_mouse: "only_mouse tr (InitPS2Mouse dev tr)"
  unfolding InitPS2Mouse_def Let_def case_prod_beta snd_conv
  by (intro only_mouse_ports only_mouse_operations only_mouse_refl)

text \<open>An open line of the two controllers, and the vector it raises.\<close>

definition line_open :: "pic \<Rightarrow> pic \<Rightarrow> nat \<Rightarrow> bool" where
  "line_open master slave n \<longleftrightarrow> (if n < 8 then \<not> bit (pic_mask master) n
     else \<not> bit (pic_mask master) 2 \<and> \<not> bit (pic_mask slave) (n - 8))"

definition line_vector :: "pic \<Rightarrow> pic \<Rightarrow> nat \<Rightarrow> u8" where
  "line_vector master slave n = (if n < 8 then pic_base master + of_nat n else pic_base slave + of_nat (n - 8))"

lemma pic_after_remap:
  "pic_base (pic_after PIC1_COMMAND PIC1_DATA (RemapPIC dev tr) p) = 0x20"
  "pic_next (pic_after PIC1_COMMAND PIC1_DATA (RemapPIC dev tr) p) = 0"
  "pic_base (pic_after PIC2_COMMAND PIC2_DATA (RemapPIC dev tr) p) = 0x28"
  "pic_next (pic_after PIC2_COMMAND PIC2_DATA (RemapPIC dev tr) p) = 0"
proof -
  define p1 where "p1 = pic_after PIC1_COMMAND PIC1_DATA tr p"
  define p2 where "p2 = pic_after PIC2_COMMAND PIC2_DATA tr p"
  show "pic_base (pic_after PIC1_COMMAND PIC1_DATA (RemapPIC dev tr) p) = 0x20"
    "pic_next (pic_after PIC1_COMMAND PIC1_DATA (RemapPIC dev tr) p) = 0"
    by (simp_all add: RemapPIC_def inb_def outb_def waitb_def Let_def pic_after_append p1_def [symmetric])
       (simp_all add: pic_after_def pic_step_def)
  show "pic_base (pic_after PIC2_COMMAND PIC2_DATA (RemapPIC dev tr) p) = 0x28"
    "pic_next (pic_after PIC2_COMMAND PIC2_DATA (RemapPIC dev tr) p) = 0"
    by (simp_all add: RemapPIC_def inb_def outb_def waitb_def Let_def pic_after_append p2_def [symmetric])
       (simp_all add: pic_after_def pic_step_def)
qed

lemma prepared_gates:
  "gate_to (fst (PrepareInterrupts h dev t tr) 0x20) (PITInt_Handler h)"
  "gate_to (fst (PrepareInterrupts h dev t tr) 0x21) (KeyboardInt_Handler h)"
  "gate_to (fst (PrepareInterrupts h dev t tr) 0x2C) (MouseInt_Handler h)"
  "snd (PrepareInterrupts h dev t tr) = RemapPIC dev tr"
  by (simp_all add: PrepareInterrupts_def SetIDTGate_same SetIDTGate_other)

lemma less_16: "n < 16 \<longleftrightarrow> n \<in> {0, 1, 2, 3, 4, 5, 6, 7, 8, 9, 10, 11, 12, 13, 14, 15}" for n :: nat
  by simp presburger

text \<open>
  C10. Whatever state the interrupt controllers were in, after the start-up exactly the lines of the timer, the
  keyboard, the second controller and the mouse are open, and the vector that each of the three
  devices raises leads through an interrupt gate to its handler.
\<close>

theorem start_interrupts_lines:
  assumes "start_interrupts h dev t tr = (t', tr')"
    and "master = pic_after PIC1_COMMAND PIC1_DATA tr' p1" "slave = pic_after PIC2_COMMAND PIC2_DATA tr' p2"
  shows "{n. n < 16 \<and> line_open master slave n} = {0, 1, 2, 12} \<and>
    gate_to (t' (line_vector master slave 0)) (PITInt_Handler h) \<and>
    gate_to (t' (line_vector master slave 1)) (KeyboardInt_Handler h) \<and>
    gate_to (t' (line_vector master slave 12)) (MouseInt_Handler h)"
proof -
  let ?r = "RemapPIC dev tr"
  have t: "t' = fst (PrepareInterrupts h dev t tr)"
    and tr': "tr' = InitPS2Mouse dev ?r @ [Out8 PIC1_DATA PIC1_open, Out8 PIC2_DATA PIC2_open]"
    using assms(1) prepared_gates(4) [of h dev t tr]
    by (auto simp: start_interrupts_def Let_def outb_def case_prod_beta)
  note same = pic_ignores_mouse [OF InitPS2Mouse_only_mouse [of ?r dev]]
  have m: "pic_base master = 0x20" "pic_mask master = PIC1_open"
    using pic_after_remap(1,2) [of dev tr p1] same [of p1]
    by (simp_all add: assms(2) tr' pic_after_append) (simp_all add: pic_after_def pic_step_def)
  have s: "pic_base slave = 0x28" "pic_mask slave = PIC2_open"
    using pic_after_remap(3,4) [of dev tr p2] same [of p2]
    by (simp_all add: assms(3) tr' pic_after_append) (simp_all add: pic_after_def pic_step_def)
  have "n < 16 \<and> line_open master slave n \<longleftrightarrow> n \<in> {0, 1, 2, 12}" for n
    unfolding less_16 by (auto simp: line_open_def m s PIC1_open_def PIC2_open_def)
  then have "{n. n < 16 \<and> line_open master slave n} = {0, 1, 2, 12}" by blast
  then show ?thesis using prepared_gates [of h dev t tr] by (simp add: t line_vector_def m s)
qed

definition cold_pic :: pic where
  "cold_pic = \<lparr>pic_base = 0, pic_mask = 0xFF, pic_next = 0, pic_icw4 = False\<rparr>"

definition cold_gate :: IDTDescEntry where
  "cold_gate = \<lparr>Offset0 = 0, Selector = 0, Ist = 0, Type_Attr = 0, Offset1 = 0, Offset2 = 0, Ignore = 0\<rparr>"

theorem start_interrupts_lines_witness:
  "\<exists>t' tr'. start_interrupts \<lparr>PageFault_Handler = 1, DoubleFault_Handler = 2, GPFault_Handler = 3,
       KeyboardInt_Handler = 4, MouseInt_Handler = 5, PITInt_Handler = 6\<rparr> (\<lambda>_ _. 0) (\<lambda>_. cold_gate) [] = (t', tr') \<and>
     line_open (pic_after PIC1_COMMAND PIC1_DATA tr' cold_pic) (pic_after PIC2_COMMAND PIC2_DATA tr' cold_pic) 12"
proof -
  obtain t' tr' where r: "start_interrupts \<lparr>PageFault_Handler = 1, DoubleFault_Handler = 2, GPFault_Handler = 3,
       KeyboardInt_Handler = 4, MouseInt_Handler = 5, PITInt_Handler = 6\<rparr> (\<lambda>_ _. 0) (\<lambda>_. cold_gate) [] = (t', tr')"
    by fastforce
  from start_interrupts_lines [OF r refl refl, of cold_pic cold_pic]
  have "12 \<in> {n. n < 16 \<and> line_open (pic_after PIC1_COMMAND PIC1_DATA tr' cold_pic)
      (pic_after PIC2_COMMAND PIC2_DATA tr' cold_pic) n}" by simp
  with r show ?thesis by blast
qed

subsection \<open>What the search for the tables requires\<close>

text \<open>The checks on the root table, and on every table it names.\<close>

lemma accepted_root:
  "EnumXSDT m h = Inr n \<Longrightarrow> table_ok m h \<and> (\<forall>k < nat (xsdt_entries m h). table_ok m (xsdt_entry m h k))"
  "EnumRSDT m h = Inr n \<Longrightarrow> table_ok m h \<and> (\<forall>k < nat (rsdt_entries m h). table_ok m (rsdt_entry m h k))"
  using check_sdt_ok [of m h "'' (XSDT)''"] check_sdt_ok [of m h "'' (RSDT)''"]
    enum_tables_ok [of "xsdt_entry m h" m _ 0] enum_tables_ok [of "rsdt_entry m h" m _ 0]
  by (auto simp: EnumXSDT_def EnumRSDT_def Let_def split: sum.splits)

definition root_accepted :: "mem \<Rightarrow> u64 \<Rightarrow> bool" where
  "root_accepted m rsdp = (let r = RSDP2_at m rsdp in
     if rsdp_Revision r \<ge> 2
     then table_ok m (rsdp_XSDTAddress r) \<and>
       (\<forall>k < nat (xsdt_entries m (rsdp_XSDTAddress r)). table_ok m (xsdt_entry m (rsdp_XSDTAddress r) k))
     else table_ok m (ucast (rsdp_RSDTAddress r)) \<and>
       (\<forall>k < nat (rsdt_entries m (ucast (rsdp_RSDTAddress r))).
          table_ok m (rsdt_entry m (ucast (rsdp_RSDTAddress r)) k)))"

definition root_address :: "mem \<Rightarrow> u64 \<Rightarrow> u64" where
  "root_address m rsdp = (let r = RSDP2_at m rsdp in
     if rsdp_Revision r \<ge> 2 then rsdp_XSDTAddress r else ucast (rsdp_RSDTAddress r))"

lemma say_simps [simp]:
  "ak_pci (say msg st) = ak_pci st" "ak_cpu (say msg st) = ak_cpu st" "ak_drivers (say msg st) = ak_drivers st"
  "ak_madt (say msg st) = ak_madt st" "ak_madt_info (say msg st) = ak_madt_info st"
  "ak_mmio (say msg st) = ak_mmio st" "ak_facp (say msg st) = ak_facp st"
  by (simp_all add: say_def)

definition extended_root :: "mem \<Rightarrow> u64 \<Rightarrow> bool" where
  "extended_root m rsdp \<longleftrightarrow> 2 \<le> rsdp_Revision (RSDP2_at m rsdp)"

lemma PrepareACPI_cases:
  assumes "PrepareACPI cpuid rcx dev PML4 names rsdp st = Some (Inr st')"
  obtains msgs where "rsdp \<noteq> NULL" "root_accepted (ak_mem st) rsdp"
    "init_from_tables cpuid rcx dev PML4 names (find_listed (extended_root (ak_mem st) rsdp)) (root_address (ak_mem st) rsdp)
       (st\<lparr>ak_messages := msgs\<rparr>) = Some (Inr st')"
proof (cases "rsdp_Revision (RSDP2_at (ak_mem st) rsdp) \<ge> 2")
  case True
  with assms that accepted_root(1) show ?thesis
    by (fastforce simp: PrepareACPI_def Let_def say_def root_accepted_def root_address_def extended_root_def find_listed_def
        split: if_splits sum.splits)
next
  case False
  with assms that accepted_root(2) show ?thesis
    by (fastforce simp: PrepareACPI_def Let_def say_def root_accepted_def root_address_def extended_root_def find_listed_def
        split: if_splits sum.splits)
qed

text \<open>Messages do not change what happens to the devices.\<close>

lemma init_pci_messages:
  assumes "init_pci PML4 mcfg st = Inr st1" "init_pci PML4 mcfg (st\<lparr>ak_messages := msgs\<rparr>) = Inr st2"
  shows "ak_pci st2 = ak_pci st1"
  using assms by (auto simp: init_pci_def split: if_splits sum.splits)

lemma MADTInit_checks:
  assumes "MADTInit dev PML4 madt ms tr = Some (Inr (ok, ms', tr'))"
  shows "k_checksum (pmem (madt_pages ms)) madt (ucast (sdt_Length (SDTHeader_at (pmem (madt_pages ms)) madt))) = 0 \<and>
    table_ok (pmem (madt_pages ms)) madt"
  using assms check_sdt_ok [of "pmem (madt_pages ms)" madt "[]"]
  by (auto simp: MADTInit_def Let_def check_sdt_def split: if_splits)

lemma madt_entry_s_madt: "madt_entry PML4 header st lap = Inr (st', lap') \<Longrightarrow> s_madt st' = s_madt st"
  by (auto simp: madt_entry_def Let_def split: if_splits sum.splits)

lemma madt_loop_s_madt:
  "madt_loop PML4 madt t st lap = Some r \<Longrightarrow> (\<forall>st' lap'. r = Inr (st', lap') \<longrightarrow> s_madt st' = s_madt st)"
proof (induction rule: madt_loop.raw_induct [rotated 1, consumes 1])
  case (1 loop PML4 madt t st lap r)
  show ?case
  proof (intro allI impI)
    fix st' lap' assume r: "r = Inr (st', lap')"
    show "s_madt st' = s_madt st"
    proof (cases "t < madt_end (pmem (madt_pages st)) madt")
      case True
      with 1(2) r obtain st1 lap1 t1 where e: "madt_entry PML4 (madt + sizeof_MADTHeader + t) st lap = Inr (st1, lap1)"
        "loop PML4 madt t1 st1 lap1 = Some r"
        by (auto simp: Let_def split: sum.splits prod.splits)
      from 1(1) [OF e(2)] r madt_entry_s_madt [OF e(1)] show ?thesis by simp
    next
      case False
      with 1(2) r show ?thesis by (simp add: Let_def)
    qed
  qed
qed

lemma InitAPIC_madt:
  assumes "InitAPIC dev PML4 madt st = Some (Inr st')"
  shows "ak_madt st' = madt" "ak_facp st' = ak_facp st" "ak_cpu st' = ak_cpu st" "ak_drivers st' = ak_drivers st"
proof -
  obtain ok ms tr where m: "MADTInit dev PML4 madt \<lparr>s_madt = ak_madt st, s_madt_info = ak_madt_info st,
         madt_pages = paging (ak_pci st)\<rparr> (ak_mmio st) = Some (Inr (ok, ms, tr))"
    and st': "st' = st\<lparr>ak_madt := s_madt ms, ak_madt_info := s_madt_info ms,
          ak_pci := (ak_pci st)\<lparr>paging := madt_pages ms\<rparr>, ak_mmio := tr\<rparr>"
    using assms by (auto simp: InitAPIC_def split: option.splits sum.splits)
  have "s_madt ms = madt" using m
    by (auto simp: MADTInit_def Let_def split: if_splits option.splits sum.splits dest!: madt_loop_s_madt)
  then show "ak_madt st' = madt" "ak_facp st' = ak_facp st" "ak_cpu st' = ak_cpu st" "ak_drivers st' = ak_drivers st"
    by (simp_all add: st')
qed

lemma InitFACP_header: "g_FACPHeader (InitFACP m facp st) = facp"
  by (auto simp: InitFACP_def Let_def case_prod_beta)

lemma init_power_and_apic_requires:
  assumes "init_power_and_apic cpuid rcx dev PML4 names FindTable root st = Some (Inr st')"
  shows "fst (CPU_APIC cpuid rcx (ak_cpu st)) \<and> g_FACPHeader (ak_facp st') \<noteq> NULL \<and> ak_madt st' \<noteq> NULL \<and>
    g_FACPHeader (ak_facp st') = FindTable (ak_mem st) root (name_FACP names) \<and>
    ak_madt st' = FindTable (ak_mem st) root (name_APIC names)"
  using assms
  by (auto simp: init_power_and_apic_def Let_def case_prod_beta InitFACP_header InitAPIC_madt split: if_splits)

lemma init_from_tables_requires:
  assumes "init_from_tables cpuid rcx dev PML4 names FindTable root st = Some (Inr st')"
  obtains st1 where "root \<noteq> NULL" "bit (reg_edx (cpuid 1 rcx)) 9 \<or> bit (reg_edx (amd_leaf cpuid)) 9"
    "init_pci PML4 (FindTable (ak_mem st) root (name_MCFG names)) st = Inr st1"
    "g_FACPHeader (ak_facp st') \<noteq> NULL" "ak_madt st' \<noteq> NULL"
    "g_FACPHeader (ak_facp st') = FindTable (ak_mem st1) root (name_FACP names)"
    "ak_madt st' = FindTable (ak_mem st1) root (name_APIC names)"
proof -
  obtain st1 where "root \<noteq> NULL" "init_pci PML4 (FindTable (ak_mem st) root (name_MCFG names)) st = Inr st1"
    and i: "init_power_and_apic cpuid rcx dev PML4 names FindTable root st1 = Some (Inr st')"
    using assms by (auto simp: init_from_tables_def split: if_splits sum.splits)
  from init_power_and_apic_requires [OF i]
  have "bit (reg_edx (cpuid 1 rcx)) 9 \<or> bit (reg_edx (amd_leaf cpuid)) 9" by (simp add: CPU_APIC_bit)
  with \<open>root \<noteq> NULL\<close> \<open>init_pci PML4 _ st = Inr st1\<close> init_power_and_apic_requires [OF i] show thesis by (intro that) blast+
qed

text \<open>
  C16. The kernel goes on behind the search for the tables only when the boot loader passed a root pointer,
  the root table and every table it names passed their checks, the processor reports an APIC, and
  the root table lists a table with the signature FACP and one with the signature APIC. The stored headers are
  the first listed tables of these signatures, in the memory as the set-up of the PCI devices leaves it. The names
  searched for are those strings, and no listed signature has a NUL in it, at which the comparison would stop.
\<close>

theorem PrepareACPI_requires:
  assumes prepared: "PrepareACPI cpuid rcx dev PML4 names rsdp st = Some (Inr st')"
    and root: "root = root_address (ak_mem st) rsdp" "ext = extended_root (ak_mem st) rsdp"
    and pci: "init_pci PML4 (find_listed ext (ak_mem st) root (name_MCFG names)) st = Inr st1" "m = ak_mem st1"
    and names: "get_bytes m (name_FACP names) 4 = [0x46, 0x41, 0x43, 0x50]"
      "get_bytes m (name_APIC names) 4 = [0x41, 0x50, 0x49, 0x43]"
    and full: "\<forall>t \<in> set (listed_tables ext m root). 0 \<notin> set (get_bytes m t 4)"
  shows "rsdp \<noteq> NULL \<and> root \<noteq> NULL \<and> root_accepted (ak_mem st) rsdp \<and>
    (bit (reg_edx (cpuid 1 rcx)) 9 \<or> bit (reg_edx (amd_leaf cpuid)) 9) \<and>
    g_FACPHeader (ak_facp st') \<noteq> NULL \<and> ak_madt st' \<noteq> NULL \<and>
    find (\<lambda>t. get_bytes m t 4 = [0x46, 0x41, 0x43, 0x50]) (listed_tables ext m root) = Some (g_FACPHeader (ak_facp st')) \<and>
    find (\<lambda>t. get_bytes m t 4 = [0x41, 0x50, 0x49, 0x43]) (listed_tables ext m root) = Some (ak_madt st')"
proof -
  obtain msgs where c: "rsdp \<noteq> NULL" "root_accepted (ak_mem st) rsdp"
    and i: "init_from_tables cpuid rcx dev PML4 names (find_listed ext) root (st\<lparr>ak_messages := msgs\<rparr>) = Some (Inr st')"
    using PrepareACPI_cases [OF prepared, folded root] by blast
  obtain st2 where f: "root \<noteq> NULL" "bit (reg_edx (cpuid 1 rcx)) 9 \<or> bit (reg_edx (amd_leaf cpuid)) 9"
    "init_pci PML4 (find_listed ext (ak_mem st) root (name_MCFG names)) (st\<lparr>ak_messages := msgs\<rparr>) = Inr st2"
    "g_FACPHeader (ak_facp st') \<noteq> NULL" "ak_madt st' \<noteq> NULL"
    "g_FACPHeader (ak_facp st') = find_listed ext (ak_mem st2) root (name_FACP names)"
    "ak_madt st' = find_listed ext (ak_mem st2) root (name_APIC names)"
    using init_from_tables_requires [OF i] by auto
  have m: "ak_mem st2 = m" using init_pci_messages [OF pci(1) f(3)] pci(2) by simp
  have n: "0 \<notin> set [0x46, 0x41, 0x43, 0x50 :: u8]" "0 \<notin> set [0x41, 0x50, 0x49, 0x43 :: u8]" by simp_all
  have facp: "find (\<lambda>t. get_bytes m t 4 = [0x46, 0x41, 0x43, 0x50]) (listed_tables ext m root) = Some (g_FACPHeader (ak_facp st'))"
    using f(4,6) unfolding m find_listed_named [OF names(1) n(1) full] by (auto split: option.splits)
  have madt: "find (\<lambda>t. get_bytes m t 4 = [0x41, 0x50, 0x49, 0x43]) (listed_tables ext m root) = Some (ak_madt st')"
    using f(5,7) unfolding m find_listed_named [OF names(2) n(2) full] by (auto split: option.splits)
  from c f(1,2,4,5) facp madt show ?thesis by blast
qed

lemma late_message:
  "EnumXSDT m h = Inl (Panic ''Root ACPI header not found'') \<Longrightarrow> table_ok m h"
  "EnumRSDT m h = Inl (Panic ''Root ACPI header not found'') \<Longrightarrow> table_ok m h"
  using check_sdt_ok [of m h "'' (XSDT)''"] check_sdt_ok [of m h "'' (RSDT)''"]
  by (auto simp: EnumXSDT_def EnumRSDT_def check_sdt_def split: if_splits)

text \<open>
  The root table's address is tested for NULL only after the table was read: the message for a
  missing root table appears only when the memory at address 0 passes for a table.
\<close>

theorem root_check_late:
  assumes "PrepareACPI cpuid rcx dev PML4 names rsdp st = panics ''Root ACPI header not found''"
    and "root_address (ak_mem st) rsdp = NULL"
  shows "table_ok (ak_mem st) NULL"
proof (cases "rsdp_Revision (RSDP2_at (ak_mem st) rsdp) \<ge> 2")
  case True
  with assms show ?thesis using late_message(1) [of "ak_mem st" NULL] accepted_root(1) [of "ak_mem st" NULL]
    by (cases "EnumXSDT (ak_mem st) NULL") (auto simp: PrepareACPI_def Let_def root_address_def split: if_splits)
next
  case False
  with assms show ?thesis using late_message(2) [of "ak_mem st" NULL] accepted_root(2) [of "ak_mem st" NULL]
    by (cases "EnumRSDT (ak_mem st) NULL") (auto simp: PrepareACPI_def Let_def root_address_def split: if_splits)
qed

subsection \<open>Two machines\<close>

definition acpi_start :: "mem \<Rightarrow> acpi_kernel" where
  "acpi_start m = \<lparr>ak_pci = \<lparr>paging = machine m, devices = []\<rparr>,
     ak_drivers = \<lparr>drivers = (\<lambda>_. None), num_of_drivers = 0\<rparr>,
     ak_facp = \<lparr>SMI_CMD = 0, ACPI_ENABLE = 0, ACPI_DISABLE = 0, PM1a_CNT = 0, PM1b_CNT = 0, SLP_TYPa = 0,
       SLP_TYPb = 0, PM1_CNT_LEN = 0, SLP_EN = 0, SCI_EN = 0, reset_flag = 0, g_FACPHeader = 0\<rparr>,
     ak_madt = 0, ak_madt_info = s_madt_info_boot, ak_cpu = g_CPUInfo_boot, ak_mmio = [], ak_messages = []\<rparr>"

lemma acpi_start_mem: "ak_mem (acpi_start m) = m"
  by (simp add: acpi_start_def)

definition apic_processor :: cpuid_insn where
  "apic_processor leaf subleaf =
     \<lparr>reg_eax = 0, reg_ebx = 0, reg_ecx = 0, reg_edx = (if leaf = 1 then 0x200 else 0)\<rparr>"

text \<open>
  The first has a root pointer at 0x2300 to a root table at 0x2200, which names a fixed description
  table at 0x2100 and a table without entries of interrupt controllers at 0x2000. The names to search
  for are at 0x2400.
\<close>

definition acpi_memory :: mem where
  "acpi_memory =
     (poke 0x2000 [0x41, 0x50, 0x49, 0x43, 44] \<circ> poke 0x2009 [0xD9] \<circ> poke 0x2026 [0xE0, 0xFE] \<circ>
      poke 0x2100 [0x46, 0x41, 0x43, 0x50, 36] \<circ> poke 0x2109 [0xC2] \<circ>
      poke 0x2200 [0x58, 0x53, 0x44, 0x54, 52] \<circ> poke 0x2209 [0x48] \<circ> poke 0x2225 [0x21] \<circ> poke 0x222D [0x20] \<circ>
      poke 0x230F [2] \<circ> poke 0x2319 [0x22] \<circ>
      poke 0x2400 [0x4D, 0x43, 0x46, 0x47] \<circ> poke 0x2410 [0x46, 0x41, 0x43, 0x50] \<circ>
      poke 0x2420 [0x41, 0x50, 0x49, 0x43] \<circ> poke 0x3000 [0xFF]) (\<lambda>_. 0)"

definition acpi_example_names :: acpi_names where
  "acpi_example_names = \<lparr>name_MCFG = 0x2400, name_FACP = 0x2410, name_APIC = 0x2420\<rparr>"

lemma acpi_memory_machine: "machine_memory acpi_memory"
  by (auto simp: machine_memory_def acpi_memory_def page_of_def)

lemma acpi_memory_headers:
  "sdt_Length (SDTHeader_at acpi_memory 0x2000) = 44" "sdt_Length (SDTHeader_at acpi_memory 0x2100) = 36"
  "sdt_Length (SDTHeader_at acpi_memory 0x2200) = 52"
  "rsdp_Revision (RSDP2_at acpi_memory 0x2300) = 2" "rsdp_XSDTAddress (RSDP2_at acpi_memory 0x2300) = 0x2200"
  by (simp_all only: SDTHeader_at_def SDTHeader.select_convs RSDP2_at_def RSDP2.select_convs) code_simp+

lemma acpi_memory_tables:
  "k_checksum acpi_memory 0x2000 44 = 0" "k_checksum acpi_memory 0x2100 36 = 0"
  "k_checksum acpi_memory 0x2200 52 = 0"
  "xsdt_entry acpi_memory 0x2200 0 = 0x2100" "xsdt_entry acpi_memory 0x2200 1 = 0x2000"
  "get32 acpi_memory 0x2024 = 0xFEE00000"
  by code_simp+

lemma acpi_memory_names:
  "k_strncmp acpi_memory 0x2400 (sdt_Signature (SDTHeader_at acpi_memory 0x2100)) 4 \<noteq> 0"
  "k_strncmp acpi_memory 0x2400 (sdt_Signature (SDTHeader_at acpi_memory 0x2000)) 4 \<noteq> 0"
  "k_strncmp acpi_memory 0x2410 (sdt_Signature (SDTHeader_at acpi_memory 0x2100)) 4 = 0"
  "k_strncmp acpi_memory 0x2420 (sdt_Signature (SDTHeader_at acpi_memory 0x2100)) 4 \<noteq> 0"
  "k_strncmp acpi_memory 0x2420 (sdt_Signature (SDTHeader_at acpi_memory 0x2000)) 4 = 0"
  by (simp_all only: SDTHeader_at_def SDTHeader.select_convs) code_simp+

lemma acpi_memory_search:
  "xsdt_entries acpi_memory 0x2200 = 2"
  "FindXSDTTable acpi_memory 0x2200 0x2400 = NULL" "FindXSDTTable acpi_memory 0x2200 0x2410 = 0x2100"
  "FindXSDTTable acpi_memory 0x2200 0x2420 = 0x2000"
  "EnumXSDT acpi_memory 0x2200 = Inr 2"
proof -
  show n: "xsdt_entries acpi_memory 0x2200 = 2" by (simp add: xsdt_entries_unat acpi_memory_headers)
  show "FindXSDTTable acpi_memory 0x2200 0x2400 = NULL" "FindXSDTTable acpi_memory 0x2200 0x2410 = 0x2100"
    "FindXSDTTable acpi_memory 0x2200 0x2420 = 0x2000"
    by (simp_all add: FindXSDTTable_def n numeral_2_eq_2 acpi_memory_names
        acpi_memory_tables(4,5) [unfolded One_nat_def])
  have "table_ok acpi_memory 0x2200" "table_ok acpi_memory 0x2100" "table_ok acpi_memory 0x2000"
    by (simp_all add: table_ok_def acpi_memory_headers acpi_memory_tables)
  then have "check_sdt acpi_memory 0x2200 '' (XSDT)'' = Inr ()"
    "check_sdt acpi_memory 0x2100 [] = Inr ()" "check_sdt acpi_memory 0x2000 [] = Inr ()"
    by (simp_all add: check_sdt_ok)
  then show "EnumXSDT acpi_memory 0x2200 = Inr 2"
    by (simp add: EnumXSDT_def Let_def n numeral_2_eq_2 acpi_memory_tables(4,5) [unfolded One_nat_def])
qed

lemma acpi_memory_madt:
  "\<exists>ms tr. MADTInit (\<lambda>_ _. 0) 0x1000 0x2000
     \<lparr>s_madt = 0, s_madt_info = s_madt_info_boot, madt_pages = machine acpi_memory\<rparr> [] = Some (Inr (True, ms, tr))"
proof -
  let ?st = "\<lparr>s_madt = 0, s_madt_info = s_madt_info_boot, madt_pages = machine acpi_memory\<rparr>"
  have m: "acpi_memory = pmem (madt_pages ?st)" by simp
  have len: "44 = sdt_Length (SDTHeader_at acpi_memory 0x2000)" "k_checksum acpi_memory 0x2000 (ucast (44 :: u32)) = 0"
    by (simp_all add: acpi_memory_headers acpi_memory_tables)
  have chain: "madt_chain acpi_memory (0x2000 + 44) (unat (44 :: u32) - 44) []" by simp
  have room: "madt_room (collect_entries acpi_memory [] (s_madt_info ?st))"
    by (simp add: madt_room_def s_madt_info_boot_def)
  have b: "bytes_in machine_stable 0x2000 44" "\<forall>e \<in> set ([] :: u64 list). bytes_in machine_stable e 12"
    by (auto intro!: page_2_bytes)
  have ready: "pages_ready 0x1000 acpi_memory machine_stable
      (1 + length (entries_of acpi_memory MADT_TYPE_IOAPIC []) + 1) (madt_pages ?st)"
    using machine_ready [OF acpi_memory_machine, of 2] by (simp add: numeral_2_eq_2)
  have lap: "0xFEE00000 = local_apic_address acpi_memory [] (ucast (get32 acpi_memory (0x2000 + 36)))"
    by (simp add: local_apic_address_def acpi_memory_tables)
  from MADTInit_walk [OF m len(1) len(2) _ chain room b _ _ ready lap, of "\<lambda>_ _. 0" "[]"] show ?thesis by auto
qed

lemma acpi_memory_starts:
  "\<exists>st'. PrepareACPI apic_processor 0 (\<lambda>_ _. 0) 0x1000 acpi_example_names 0x2300 (acpi_start acpi_memory)
     = Some (Inr st')"
proof -
  obtain ms tr where m: "MADTInit (\<lambda>_ _. 0) 0x1000 0x2000
     \<lparr>s_madt = 0, s_madt_info = s_madt_info_boot, madt_pages = machine acpi_memory\<rparr> [] = Some (Inr (True, ms, tr))"
    using acpi_memory_madt by blast
  have has: "fst (CPU_APIC apic_processor 0 g)" for g
    by (simp add: CPU_APIC_bit apic_processor_def)
  show ?thesis
    using m by (simp add: PrepareACPI_def init_from_tables_def init_pci_def init_power_and_apic_def Let_def
        acpi_start_mem acpi_memory_headers acpi_memory_search acpi_example_names_def case_prod_beta has InitAPIC_def
        say_def) (simp add: acpi_start_def)
qed

theorem PrepareACPI_requires_witness:
  "\<exists>st'. PrepareACPI apic_processor 0 (\<lambda>_ _. 0) 0x1000 acpi_example_names 0x2300 (acpi_start acpi_memory)
     = Some (Inr st') \<and> g_FACPHeader (ak_facp st') = 0x2100 \<and> ak_madt st' = 0x2000"
proof -
  let ?st = "acpi_start acpi_memory"
  obtain st' where st': "PrepareACPI apic_processor 0 (\<lambda>_ _. 0) 0x1000 acpi_example_names 0x2300 ?st
     = Some (Inr st')" using acpi_memory_starts by blast
  have root: "0x2200 = root_address (ak_mem ?st) 0x2300" "True = extended_root (ak_mem ?st) 0x2300"
    by (simp_all add: root_address_def extended_root_def acpi_start_mem acpi_memory_headers)
  obtain st1 where pci: "init_pci 0x1000 (find_listed True (ak_mem ?st) 0x2200 (name_MCFG acpi_example_names)) ?st = Inr st1"
    "acpi_memory = ak_mem st1"
    by (simp add: init_pci_def find_listed_def acpi_start_mem acpi_memory_search acpi_example_names_def)
  have names: "get_bytes acpi_memory (name_FACP acpi_example_names) 4 = [0x46, 0x41, 0x43, 0x50]"
    "get_bytes acpi_memory (name_APIC acpi_example_names) 4 = [0x41, 0x50, 0x49, 0x43]"
    unfolding acpi_example_names_def acpi_names.select_convs by code_simp+
  have listed: "listed_tables True acpi_memory 0x2200 = [0x2100, 0x2000]"
    by (simp add: listed_tables_def acpi_memory_search(1) numeral_2_eq_2 acpi_memory_tables(4,5) [unfolded One_nat_def])
  have sigs: "get_bytes acpi_memory 0x2100 4 = [0x46, 0x41, 0x43, 0x50]" "get_bytes acpi_memory 0x2000 4 = [0x41, 0x50, 0x49, 0x43]"
    by code_simp+
  have full: "\<forall>t \<in> set (listed_tables True acpi_memory 0x2200). 0 \<notin> set (get_bytes acpi_memory t 4)"
    by (simp add: listed sigs)
  from PrepareACPI_requires [OF st' root pci names full] st' show ?thesis
    by (intro exI [of _ st']) (simp add: listed sigs)
qed

text \<open>The second has a table without entries at address 0 and a root pointer that names it.\<close>

definition null_memory :: mem where
  "null_memory = (poke 4 [36] \<circ> poke 9 [0xDC] \<circ> poke 0x230F [2]) (\<lambda>_. 0)"

lemma null_memory_root:
  "sdt_Length (SDTHeader_at null_memory 0) = 36"
  "rsdp_Revision (RSDP2_at null_memory 0x2300) = 2" "rsdp_XSDTAddress (RSDP2_at null_memory 0x2300) = 0"
  by (simp_all only: SDTHeader_at_def SDTHeader.select_convs RSDP2_at_def RSDP2.select_convs) code_simp+

lemma null_memory_table: "k_checksum null_memory 0 36 = 0"
  by code_simp

theorem root_check_late_witness:
  "table_ok null_memory NULL \<and> root_address null_memory 0x2300 = NULL"
proof -
  have "table_ok null_memory 0" by (simp add: table_ok_def null_memory_root null_memory_table)
  then have "check_sdt null_memory 0 '' (XSDT)'' = Inr ()" by (simp add: check_sdt_ok)
  then have e: "EnumXSDT null_memory 0 = Inr 0"
    by (simp add: EnumXSDT_def Let_def xsdt_entries_unat null_memory_root)
  have root: "root_address null_memory 0x2300 = NULL" by (simp add: root_address_def Let_def null_memory_root)
  have p: "PrepareACPI apic_processor 0 (\<lambda>_ _. 0) 0x1000 acpi_example_names 0x2300 (acpi_start null_memory)
      = panics ''Root ACPI header not found''"
    by (simp add: PrepareACPI_def Let_def acpi_start_mem null_memory_root e init_from_tables_def)
  from root_check_late [OF p] root show ?thesis by (simp add: acpi_start_mem)
qed

end
