(* ===== verification/EfiFormat.thy ===== *)
theory EfiFormat
  imports EfiStrings EfiMath
begin

section \<open>Numbers as text (gnu-efi/lib/print.c)\<close>

text \<open>
  The conversions of \<open>_Print\<close> for integers. The text that a conversion leaves in its buffer is the
  list of the characters in front of the NUL. The digits are first collected in an array of
  characters from the lowest on and then copied out in reverse order.
\<close>

subsection \<open>Conversions\<close>

definition Hex :: "u8 list" where
  "Hex = [0x30, 0x31, 0x32, 0x33, 0x34, 0x35, 0x36, 0x37, 0x38, 0x39, 0x41, 0x42, 0x43, 0x44, 0x45, 0x46]"

text \<open>The loops that fill the array \<open>str\<close>; \<open>RShiftU64\<close> and \<open>DivU64x32\<close> have fixed operands here.\<close>

function hex_low :: "u64 \<Rightarrow> u8 list" where
  "hex_low v = (if v = 0 then [] else Hex ! unat (v AND 0xf) # hex_low (the (RShiftU64 v 4)))"
  by pat_completeness auto
termination
  by (relation "measure unat")
     (auto simp: RShiftU64_def drop_bit_eq_div unat_div intro!: div_less_dividend simp flip: unat_gt_0)

declare hex_low.simps [simp del]

definition ValueToHex :: "u64 \<Rightarrow> u16 list" where
  "ValueToHex v = (if v = 0 then [0x30] else map ucast (rev (hex_low v)))"

function dec_low :: "u64 \<Rightarrow> u8 list" where
  "dec_low v = (if v = 0 then []
     else case the (DivU64x32 v 10 True) of (q, r) \<Rightarrow> (ucast (the r) + 0x30) # dec_low q)"
  by pat_completeness auto
termination
  by (relation "measure unat")
     (auto simp: DivU64x32_def unat_div intro!: div_less_dividend simp flip: unat_gt_0)

declare dec_low.simps [simp del]

text \<open>The copy with commas: \<open>c\<close> is counted down before each digit.\<close>

fun comma_copy :: "nat \<Rightarrow> u8 list \<Rightarrow> u16 list" where
  "comma_copy c [] = []"
| "comma_copy c (d # ds) =
     (if c - 1 = 0 then 0x2C # ucast d # comma_copy 3 ds else ucast d # comma_copy (c - 1) ds)"

definition ca :: "nat list" where "ca = [3, 1, 2]"

definition ValueToString :: "bool \<Rightarrow> u64 \<Rightarrow> u16 list" where
  "ValueToString Comma v =
     (if v = 0 then [0x30]
      else let w = (if v <s 0 then - v else v);
               str = dec_low w;
               c = (if Comma then ca ! (length str mod 3) else 999) + 1
           in (if v <s 0 then [0x2D] else []) @ comma_copy c (rev str))"

subsection \<open>Hexadecimal text\<close>

lemma Hex_digit: "k < 16 \<Longrightarrow> hex_digit (ucast (Hex ! k)) \<and> hex_value (ucast (Hex ! k)) = k"
proof -
  have "list_all (\<lambda>k. hex_digit (ucast (Hex ! k)) \<and> hex_value (ucast (Hex ! k)) = k) [0..<16]" by code_simp
  then show "k < 16 \<Longrightarrow> ?thesis" by (simp add: list_all_iff del: upt_rec_numeral)
qed

lemma digits_value_append:
  "digits_value b f u (xs @ ys) = digits_value b f (digits_value b f u xs) ys"
  by (simp add: digits_value_def)

lemma unat_and_15: "unat (v AND 0xf) = unat v mod 16" for v :: u64
proof -
  have "v AND 0xf = take_bit 4 v" by (simp add: take_bit_eq_mask mask_eq_exp_minus_1)
  then show ?thesis by (simp add: unsigned_take_bit_eq take_bit_nat_def)
qed

lemma hex_low_facts:
  "digits_value 16 hex_value 0 (map ucast (rev (hex_low v))) = unat v \<and>
   (\<forall>d \<in> set (hex_low v). hex_digit (ucast d)) \<and> (\<forall>n. unat v < 16 ^ n \<longrightarrow> length (hex_low v) \<le> n)"
proof (induction v rule: hex_low.induct)
  case (1 v)
  show ?case
  proof (cases "v = 0")
    case False
    let ?q = "the (RShiftU64 v 4)"
    have q: "unat ?q = unat v div 16" by (simp add: RShiftU64_def drop_bit_eq_div unat_div)
    have s: "hex_low v = Hex ! (unat v mod 16) # hex_low ?q"
      using False by (simp add: hex_low.simps [of v] unat_and_15)
    have len: "length (hex_low v) \<le> n" if "unat v < 16 ^ n" for n
    proof (cases n)
      case 0
      with that False show ?thesis by (simp add: unat_eq_zero)
    next
      case (Suc k)
      with that have "unat ?q < 16 ^ k" by (simp add: q div_less_iff_less_mult mult.commute)
      with "1.IH" False Suc s show ?thesis by simp
    qed
    from "1.IH" False s q len Hex_digit [of "unat v mod 16"] show ?thesis
      by (simp add: digits_value_append)
  qed (simp add: hex_low.simps)
qed

lemma hex_low_value:
  "digits_value 16 hex_value 0 (map ucast (rev (hex_low v))) = unat v \<and>
   (\<forall>d \<in> set (hex_low v). hex_digit (ucast d)) \<and> length (hex_low v) \<le> 16"
proof -
  have "unat v < 16 ^ 16" using unat64_lt [of v] by simp
  with hex_low_facts [of v] show ?thesis by blast
qed

lemma ValueToHex_length: "unat v < 16 ^ n \<Longrightarrow> 0 < n \<Longrightarrow> length (ValueToHex v) \<le> n"
  using hex_low_facts [of v] by (simp add: ValueToHex_def)

lemma ValueToHex_digits:
  "digits_value 16 hex_value 0 (ValueToHex v) = unat v" "\<forall>d \<in> set (ValueToHex v). hex_digit d"
  "length (ValueToHex v) \<le> 16" "ValueToHex v \<noteq> []"
proof -
  have z: "hex_digit 0x30" "hex_value 0x30 = 0" by code_simp+
  have ne: "v \<noteq> 0 \<Longrightarrow> hex_low v \<noteq> []" by (simp add: hex_low.simps)
  show "digits_value 16 hex_value 0 (ValueToHex v) = unat v" "\<forall>d \<in> set (ValueToHex v). hex_digit d"
    "length (ValueToHex v) \<le> 16" "ValueToHex v \<noteq> []"
    using hex_low_value [of v] z ne by (auto simp: ValueToHex_def)
qed

text \<open>
  What \<open>ValueToHex\<close> writes \<open>xtoi\<close> reads back, for every 64-bit value and at any place in memory; it is
  at most 16 characters.
\<close>

theorem ValueToHex_xtoi:
  assumes "cstr m p (ValueToHex v)"
  shows "xtoi m p = Some v \<and> length (ValueToHex v) \<le> 16"
  using xtoi_cstr [of m p 0 "ValueToHex v" "[]"] assms ValueToHex_digits [of v] by simp

theorem ValueToHex_xtoi_witness: "xtoi (cells_of [0x43, 0x41, 0x46, 0x45]) 0 = Some 0xCAFE"
proof -
  have "cstr (cells_of [0x43, 0x41, 0x46, 0x45]) 0 (ValueToHex 0xCAFE)" by code_simp
  then show ?thesis using ValueToHex_xtoi by blast
qed

subsection \<open>Decimal text\<close>

text \<open>The reference: decimal digits of a number, and the grouping of digits by three from the right.\<close>

fun dec_text :: "nat \<Rightarrow> u16 list" where
  "dec_text n = (if n < 10 then [of_nat n + 0x30] else dec_text (n div 10) @ [of_nat (n mod 10) + 0x30])"

declare dec_text.simps [simp del]

function thousands :: "u16 list \<Rightarrow> u16 list" where
  "thousands ds = (if length ds \<le> 3 then ds
     else thousands (take (length ds - 3) ds) @ 0x2C # drop (length ds - 3) ds)"
  by pat_completeness auto
termination by (relation "measure length") auto

declare thousands.simps [simp del]

lemma dec_char: "n < 10 \<Longrightarrow> (ucast (of_nat n + 0x30 :: u8) :: u16) = of_nat n + 0x30"
proof -
  have "list_all (\<lambda>n. (ucast (of_nat n + 0x30 :: u8) :: u16) = of_nat n + 0x30) [0..<10]" by code_simp
  then show "n < 10 \<Longrightarrow> ?thesis" by (simp add: list_all_iff del: upt_rec_numeral)
qed

lemma dec_low_text: "v \<noteq> 0 \<Longrightarrow> map ucast (rev (dec_low v)) = dec_text (unat v)"
proof (induction v rule: dec_low.induct)
  case (1 v)
  have q: "the (DivU64x32 v 10 True) = (v div 10, Some (v mod 10))" by (simp add: DivU64x32_def)
  have r: "(ucast (v mod 10) :: u8) = of_nat (unat v mod 10)"
    by (simp add: word_unat_eq_iff unsigned_ucast_eq unat_mod take_bit_nat_eq_self unat_of_nat)
  have s: "dec_low v = (of_nat (unat v mod 10) + 0x30) # dec_low (v div 10)"
    using "1.prems" q r by (simp add: dec_low.simps [of v])
  show ?case
  proof (cases "v div 10 = 0")
    case True
    then have "unat v div 10 = 0" by (simp flip: unat_div_word [of v 10, simplified])
    then have "unat v < 10" by simp
    then have "unat v mod 10 = unat v" by simp
    with \<open>unat v < 10\<close> True s dec_char [of "unat v"] show ?thesis
      by (simp add: dec_low.simps [of 0] dec_text.simps [of "unat v"] del: of_nat_unat)
  next
    case False
    then have "\<not> unat v < 10" by (auto simp: unat_div word_unat_eq_iff)
    with "1.IH" [OF "1.prems" q [symmetric] False] s show ?thesis
      by (simp add: dec_text.simps [of "unat v"] dec_char unat_div)
  qed
qed

lemma dec_text_length: "0 < k \<Longrightarrow> n < 10 ^ k \<Longrightarrow> length (dec_text n) \<le> k"
proof (induction n arbitrary: k rule: dec_text.induct)
  case (1 n)
  show ?case
  proof (cases "n < 10")
    case False
    then obtain j where j: "k = Suc j" "0 < j" using "1.prems" by (cases k; cases "k - 1") auto
    with "1.prems" have "n div 10 < 10 ^ j" by (simp add: div_less_iff_less_mult mult.commute)
    with "1.IH" [OF False j(2)] False j show ?thesis by (simp add: dec_text.simps [of n])
  qed (use "1.prems" in \<open>simp add: dec_text.simps [of n]\<close>)
qed

lemma comma_copy_plain: "length ds < c \<Longrightarrow> comma_copy c ds = map ucast ds"
  by (induction c ds rule: comma_copy.induct) auto

lemma comma_copy_run:
  "length xs < c \<Longrightarrow> comma_copy c (xs @ ys) = map ucast xs @ comma_copy (c - length xs) ys"
  by (induction xs arbitrary: c) auto

lemma comma_copy_1: "ys \<noteq> [] \<Longrightarrow> comma_copy 1 ys = 0x2C # comma_copy 4 ys"
  by (cases ys) simp_all

lemma comma_copy_group:
  "length xs = Suc r + 3 * k \<Longrightarrow> length ys = 3 \<Longrightarrow>
     comma_copy (Suc (Suc r)) (xs @ ys) = comma_copy (Suc (Suc r)) xs @ 0x2C # map ucast ys"
proof (induction k arbitrary: r xs)
  case 0
  then have "ys \<noteq> []" by auto
  from 0 show ?case using comma_copy_run [of xs "Suc (Suc r)" ys] comma_copy_run [of xs "Suc (Suc r)" "[]"]
    comma_copy_1 [OF \<open>ys \<noteq> []\<close>] comma_copy_plain [of ys 4] by simp
next
  case (Suc k)
  define a where "a = take (Suc r) xs"
  define b where "b = drop (Suc r) xs"
  have x: "xs = a @ b" "length a = Suc r" "length b = 3 + 3 * k"
    using Suc.prems by (simp_all add: a_def b_def)
  then have "b \<noteq> []" "b @ ys \<noteq> []" by auto
  with x Suc.IH [of b 2] Suc.prems(2) show ?case
    using comma_copy_run [of a "Suc (Suc r)" "b @ ys"] comma_copy_run [of a "Suc (Suc r)" b]
      comma_copy_1 [of "b @ ys"] comma_copy_1 [of b] by (simp add: numeral_eq_Suc)
qed

lemma comma_copy_thousands:
  "length ds = Suc r + 3 * k \<Longrightarrow> r < 3 \<Longrightarrow> comma_copy (Suc (Suc r)) ds = thousands (map ucast ds)"
proof (induction k arbitrary: ds)
  case 0
  then show ?case by (simp add: thousands.simps comma_copy_plain)
next
  case (Suc k)
  define xs where "xs = take (length ds - 3) ds"
  define ys where "ys = drop (length ds - 3) ds"
  have d: "ds = xs @ ys" "length xs = Suc r + 3 * k" "length ys = 3"
    using Suc.prems by (simp_all add: xs_def ys_def)
  then have "comma_copy (Suc (Suc r)) ds = thousands (map ucast xs) @ 0x2C # map ucast ys"
    using comma_copy_group [of xs r k ys] Suc.IH [of xs] Suc.prems(2) by simp
  moreover have "thousands (map ucast ds) = thousands (map ucast xs) @ 0x2C # map ucast ys"
    using d by (subst thousands.simps) simp
  ultimately show ?case by simp
qed

lemma negative_value:
  fixes v :: u64
  shows "unat (if v <s 0 then - v else v) = nat \<bar>sint v\<bar>"
proof (cases "v <s 0")
  case True
  then have n: "sint v < 0" by (simp add: word_sless_alt)
  have l: "- sint v \<le> 2 ^ 63" using sint_ge [of v] by simp
  have "- v = word_of_int (- sint v)" by simp
  then have "uint (- v) = take_bit 64 (- sint v)" by (simp add: uint_word_of_int_eq del: of_int_minus)
  also have "\<dots> = - sint v" using n l by (intro take_bit_int_eq_self) simp_all
  finally have "unat (- v) = nat (- sint v)" by (simp add: unat_eq_nat_uint)
  with True n show ?thesis by simp
next
  case False
  then have "0 \<le> sint v" by (simp add: word_sless_alt)
  then have "unat v = nat (sint v)" using sint_nonneg_unat [of v] by linarith
  with False \<open>0 \<le> sint v\<close> show ?thesis by simp
qed

lemma ca_group: "0 < n \<Longrightarrow> \<exists>r k. n = Suc r + 3 * k \<and> r < 3 \<and> ca ! (n mod 3) = Suc r"
proof -
  assume "0 < n"
  then obtain m where n: "n = Suc m" by (cases n) auto
  define r where "r = m mod 3"
  have r: "r = 0 \<or> r = 1 \<or> r = 2" unfolding r_def by presburger
  have "n mod 3 = Suc r mod 3" unfolding n r_def by presburger
  with r have "ca ! (n mod 3) = Suc r" by (auto simp: ca_def)
  moreover have "n = Suc r + 3 * (m div 3)" unfolding n r_def by simp
  moreover have "r < 3" using r by auto
  ultimately show "\<exists>r k. n = Suc r + 3 * k \<and> r < 3 \<and> ca ! (n mod 3) = Suc r" by blast
qed

lemma thousands_length: "length (thousands ds) = length ds + (length ds - 1) div 3"
proof (induction ds rule: thousands.induct)
  case (1 ds)
  show ?case
  proof (cases "length ds \<le> 3")
    case True
    then show ?thesis by (simp add: thousands.simps [of ds])
  next
    case False
    then have "(length ds - 1) div 3 = Suc ((length ds - 3 - 1) div 3)" by presburger
    with False 1 show ?thesis by (simp add: thousands.simps [of ds])
  qed
qed

lemma ValueToString_text:
  "ValueToString comma v = (if sint v < 0 then [0x2D] else []) @
     (if comma then thousands (dec_text (nat \<bar>sint v\<bar>)) else dec_text (nat \<bar>sint v\<bar>)) \<and>
   length (ValueToString comma v) \<le> 26"
proof -
  let ?w = "if v <s 0 then - v else v" let ?t = "dec_text (nat \<bar>sint v\<bar>)"
  have "nat \<bar>sint v\<bar> < 10 ^ 19" using sint_ge [of v] sint_lt [of v] by simp
  then have len: "length ?t \<le> 19" using dec_text_length [of 19 "nat \<bar>sint v\<bar>"] by simp
  have tlen: "length (thousands ?t) \<le> 25" using len by (simp add: thousands_length)
  have "ValueToString comma v = (if sint v < 0 then [0x2D] else []) @ (if comma then thousands ?t else ?t)"
  proof (cases "v = 0")
    case True
    then show ?thesis by (simp add: ValueToString_def dec_text.simps [of 0] thousands.simps)
  next
    case False
    then have w: "?w \<noteq> 0" by simp
    let ?str = "dec_low ?w"
    have t: "map ucast (rev ?str) = ?t" using dec_low_text [OF w] negative_value [of v] by simp
    then have n: "length ?str = length ?t" by (metis length_map length_rev)
    have "0 < length ?str" using w by (simp add: dec_low.simps [of ?w] split: prod.splits)
    then obtain r k where r: "length ?str = Suc r + 3 * k" "r < 3" "ca ! (length ?str mod 3) = Suc r"
      using ca_group by blast
    have "comma_copy (Suc (Suc r)) (rev ?str) = thousands ?t"
      using comma_copy_thousands [of "rev ?str" r k] r t by simp
    moreover have "comma_copy 1000 (rev ?str) = ?t" using comma_copy_plain [of "rev ?str" 1000] n len t by simp
    ultimately show ?thesis using False r(3) by (simp add: ValueToString_def Let_def word_sless_alt)
  qed
  with len tlen show ?thesis
    by (cases comma; cases "sint v < 0") (simp_all del: abs_of_neg abs_of_nonneg)
qed

text \<open>
  C35. \<open>ValueToString\<close> writes the decimal notation of every signed value, the most negative one included,
  with commas between groups of three digits when they are asked for, and never more than 26
  characters.
\<close>

theorem ValueToString_decimal:
  "ValueToString comma v = (if sint v < 0 then [0x2D] else []) @
     (if comma then thousands (dec_text (nat \<bar>sint v\<bar>)) else dec_text (nat \<bar>sint v\<bar>)) \<and>
   length (ValueToString comma v) \<le> 26"
  by (rule ValueToString_text)

lemma dec_text_digits:
  "(\<forall>d \<in> set (dec_text n). dec_digit d) \<and> digits_value 10 dec_value 0 (dec_text n) = n \<and> dec_text n \<noteq> []"
proof (induction n rule: dec_text.induct)
  case (1 n)
  have c: "dec_digit (of_nat k + 0x30) \<and> dec_value (of_nat k + 0x30) = k" if "k < 10" for k
  proof -
    have "list_all (\<lambda>k. dec_digit (of_nat k + 0x30) \<and> dec_value (of_nat k + 0x30) = k) [0..<10]" by code_simp
    with that show ?thesis by (simp add: list_all_iff del: upt_rec_numeral)
  qed
  show ?case
  proof (cases "n < 10")
    case True
    with c [of n] show ?thesis by (simp add: dec_text.simps [of n])
  next
    case False
    with 1 c [of "n mod 10"] show ?thesis by (auto simp: dec_text.simps [of n] digits_value_append)
  qed
qed

text \<open>What is printed for a value that is not negative, without commas, \<open>Atoi\<close> reads back.\<close>

theorem ValueToString_Atoi:
  assumes "0 \<le> sint v" and "cstr m p (ValueToString False v)"
  shows "Atoi m p = Some v"
proof -
  let ?t = "dec_text (nat \<bar>sint v\<bar>)"
  have s: "ValueToString False v = ?t" using ValueToString_text [of False v] assms(1) by simp
  have "Atoi m p = Some (of_nat (digits_value 10 dec_value 0 ?t))"
    using Atoi_cstr [of m p 0 ?t "[]"] assms(2) dec_text_digits [of "nat \<bar>sint v\<bar>"] by (simp add: s)
  also have "digits_value 10 dec_value 0 ?t = nat \<bar>sint v\<bar>" using dec_text_digits by blast
  also have "nat \<bar>sint v\<bar> = unat v" using sint_nonneg_unat [OF assms(1)] by linarith
  also have "of_nat (unat v) = v" by simp
  finally show ?thesis .
qed

theorem ValueToString_Atoi_witness: "Atoi (cells_of [0x34, 0x32]) 0 = Some 42"
proof -
  have "cstr (cells_of [0x34, 0x32]) 0 (ValueToString False 42)" by code_simp
  then show ?thesis using ValueToString_Atoi [of 42] by simp
qed

end
