(* ===== verification/EfiPrint.thy ===== *)
theory EfiPrint
  imports EfiFormat ByteMem
begin

section \<open>Formatted output (gnu-efi/lib/print.c)\<close>

text \<open>
  The interpreter of format strings and the functions that print into a buffer or into allocated
  memory. A format is read character by character behind a pointer (\<open>fmt\<close> gives the character at an
  index, also behind the terminator), arguments are the 8-byte slots of the argument list, and an
  item is a pointer to text as well. The text in the interpreter's own buffer \<open>Buffer\<close> is a list.
\<close>

subsection \<open>State\<close>

text \<open>The conversions that need other parts of the library, for an argument slot.\<close>

record conversions =
  conv_Guid :: "u64 \<Rightarrow> u16 list"
  conv_DevicePath :: "u64 \<Rightarrow> u16 list"
  conv_Float :: "bool \<Rightarrow> u64 \<Rightarrow> u16 list"
  conv_Time :: "u64 \<Rightarrow> u16 list"
  conv_Status :: "u64 \<Rightarrow> u16 list"

record 'o penv =
  fmt :: "nat \<Rightarrow> u16"
  arg_slots :: "nat \<Rightarrow> u64"
  arg_mem :: mem
  conv :: conversions
  Output :: "u16 list \<Rightarrow> 'o \<Rightarrow> 'o"
  SetAttr :: "(u64 \<Rightarrow> 'o \<Rightarrow> 'o) option"
  AttrNorm :: u64
  AttrHighlight :: u64
  AttrError :: u64

record 'o pstate =
  fmt_Index :: nat
  arg_Index :: nat
  Buffer :: "u16 list"
  Len :: nat
  Attr :: u64
  RestoreAttr :: u64
  Context :: "'o"

definition PRINT_STRING_LEN :: nat where "PRINT_STRING_LEN = 200"
definition PRINT_ITEM_BUFFER_LEN :: nat where "PRINT_ITEM_BUFFER_LEN = 100"

record pitem =
  Item :: "(nat \<Rightarrow> u16) option"
  Width :: u64
  FieldWidth :: u64
  WidthParse_Field :: bool
  Pad :: u16
  PadBefore :: bool
  Comma :: bool
  Long :: bool

text \<open>Text behind a pointer, and a text that was put into the item's scratch array.\<close>

definition wide_text :: "mem \<Rightarrow> u64 \<Rightarrow> nat \<Rightarrow> u16" where
  "wide_text m p i = get16 m (p + 2 * of_nat i)"

definition ascii_text :: "mem \<Rightarrow> u64 \<Rightarrow> nat \<Rightarrow> u16" where
  "ascii_text m p i = ucast (m (p + of_nat i))"

definition scratch_text :: "u16 list \<Rightarrow> nat \<Rightarrow> u16" where
  "scratch_text xs i = (if i < length xs then xs ! i else 0)"

definition null_text :: "u16 list" where "null_text = [0x28, 0x6E, 0x75, 0x6C, 0x6C, 0x29]"

subsection \<open>Output of single characters\<close>

definition PFLUSH :: "'o penv \<Rightarrow> 'o pstate \<Rightarrow> 'o pstate" where
  "PFLUSH e ps = ps\<lparr>Context := Output e (Buffer ps) (Context ps), Buffer := []\<rparr>"

definition PSETATTR :: "'o penv \<Rightarrow> u64 \<Rightarrow> 'o pstate \<Rightarrow> 'o pstate" where
  "PSETATTR e a ps =
     (let ps = PFLUSH e ps;
          ps = ps\<lparr>RestoreAttr := Attr ps\<rparr>;
          ps = (case SetAttr e of None \<Rightarrow> ps | Some f \<Rightarrow> ps\<lparr>Context := f a (Context ps)\<rparr>)
      in ps\<lparr>Attr := a\<rparr>)"

definition put_one :: "'o penv \<Rightarrow> u16 \<Rightarrow> 'o pstate \<Rightarrow> 'o pstate" where
  "put_one e c ps =
     (let ps = ps\<lparr>Buffer := Buffer ps @ [c], Len := Len ps + 1\<rparr> in
      if length (Buffer ps) \<ge> PRINT_STRING_LEN - 1 then PFLUSH e ps else ps)"

definition PPUTC :: "'o penv \<Rightarrow> u16 \<Rightarrow> 'o pstate \<Rightarrow> 'o pstate" where
  "PPUTC e c ps = (let ps = (if c = 0x0A then put_one e 0x0D ps else ps) in put_one e c ps)"

definition put_all :: "'o penv \<Rightarrow> u16 list \<Rightarrow> 'o pstate \<Rightarrow> 'o pstate" where
  "put_all e cs ps = fold (PPUTC e) cs ps"

subsection \<open>Items\<close>

function item_length :: "(nat \<Rightarrow> u16) \<Rightarrow> u64 \<Rightarrow> u64 \<Rightarrow> u64" where
  "item_length t w i = (if i < w then if t (unat i) = 0 then i else item_length t w (i + 1) else i)"
  by pat_completeness auto
termination
  by (relation "measure (\<lambda>(t, w, i). unat w - unat i)")
     (auto simp: word_less_nat_alt unat_add_1_less)

declare item_length.simps [simp del]

text \<open>The text that an item becomes: what \<open>PITEM\<close> passes to \<open>PPUTC\<close> one by one.\<close>

definition item_output :: "pitem \<Rightarrow> (nat \<Rightarrow> u16) \<Rightarrow> u16 list" where
  "item_output it t =
     (let len = item_length t (FieldWidth it) 0;
          field = (if FieldWidth it = - 1 then len else FieldWidth it);
          width = (if len > Width it then len else Width it);
          blanks = replicate (unat field - unat width) 0x20
      in (if PadBefore it then blanks else []) @ replicate (unat width - unat len) (Pad it) @
         map t [0..<unat len] @ (if \<not> PadBefore it then blanks else []))"

definition PITEM :: "'o penv \<Rightarrow> pitem \<Rightarrow> (nat \<Rightarrow> u16) \<Rightarrow> 'o pstate \<Rightarrow> 'o pstate" where
  "PITEM e it t ps = put_all e (item_output it t) ps"

definition new_item :: pitem where
  "new_item = \<lparr>Item = None, Width = 0, FieldWidth = - 1, WidthParse_Field = False, Pad = 0x20,
     PadBefore = True, Comma = False, Long = False\<rparr>"

text \<open>\<open>*Item.WidthParse\<close>.\<close>

definition set_width :: "u64 \<Rightarrow> pitem \<Rightarrow> pitem" where
  "set_width w it = (if WidthParse_Field it then it\<lparr>FieldWidth := w\<rparr> else it\<lparr>Width := w\<rparr>)"

text \<open>The digits of a width: the value, and the index of the first character behind them.\<close>

definition is_digit :: "u16 \<Rightarrow> bool" where
  "is_digit c \<longleftrightarrow> 0x30 \<le> c \<and> c \<le> 0x39"

partial_function (option) parse_width :: "(nat \<Rightarrow> u16) \<Rightarrow> nat \<Rightarrow> u64 \<Rightarrow> u16 \<Rightarrow> (u64 \<times> nat) option" where
  "parse_width f i w c =
     (let w = w * 10 + ucast c - 0x30; c = f i in
      if is_digit c then parse_width f (i + 1) w c else Some (w, i))"

definition scratch :: "u16 list \<Rightarrow> pitem \<Rightarrow> pitem" where
  "scratch xs it = it\<lparr>Item := Some (scratch_text xs)\<rparr>"

text \<open>
  The switch over a character behind a percent sign, without the attributes: the item, and the
  next character and argument. \<open>X\<close> falls through to \<open>x\<close>.
\<close>

definition parse_char ::
  "'o penv \<Rightarrow> u16 \<Rightarrow> pitem \<Rightarrow> nat \<Rightarrow> nat \<Rightarrow> (pitem \<times> nat \<times> nat) option" where
  "parse_char e c it i a =
     (let v = arg_slots e a;
          short = (if Long it then v else ucast (ucast v :: u32));
          signed = (if Long it then v else scast (ucast v :: u32)) in
      if c = 0x25 then Some (scratch [0x25] it, i, a)
      else if c = 0x30 then Some (it\<lparr>Pad := 0x30\<rparr>, i, a)
      else if c = 0x2D then Some (it\<lparr>PadBefore := False\<rparr>, i, a)
      else if c = 0x2C then Some (it\<lparr>Comma := True\<rparr>, i, a)
      else if c = 0x2E then Some (it\<lparr>WidthParse_Field := True\<rparr>, i, a)
      else if c = 0x2A then Some (set_width v it, i, a + 1)
      else if 0x31 \<le> c \<and> c \<le> 0x39 then
        (case parse_width (fmt e) i 0 c of None \<Rightarrow> None | Some (w, i) \<Rightarrow> Some (set_width w it, i, a))
      else if c = 0x61 then
        Some (it\<lparr>Item := Some (if v = 0 then scratch_text null_text else ascii_text (arg_mem e) v)\<rparr>, i, a + 1)
      else if c = 0x73 then
        Some (it\<lparr>Item := Some (if v = 0 then scratch_text null_text else wide_text (arg_mem e) v)\<rparr>, i, a + 1)
      else if c = 0x63 then Some (scratch [ucast v] it, i, a + 1)
      else if c = 0x6C then Some (it\<lparr>Long := True\<rparr>, i, a)
      else if c = 0x58 then
        Some (scratch (ValueToHex short) (it\<lparr>Width := (if Long it then 16 else 8), Pad := 0x30\<rparr>), i, a + 1)
      else if c = 0x78 then Some (scratch (ValueToHex short) it, i, a + 1)
      else if c = 0x67 then Some (scratch (conv_Guid (conv e) v) it, i, a + 1)
      else if c = 0x75 then Some (scratch (ValueToString (Comma it) short) it, i, a + 1)
      else if c = 0x64 then Some (scratch (ValueToString (Comma it) signed) it, i, a + 1)
      else if c = 0x44 then
        Some (scratch (take (PRINT_ITEM_BUFFER_LEN - 1) (conv_DevicePath (conv e) v)) it, i, a + 1)
      else if c = 0x66 then Some (scratch (conv_Float (conv e) (Comma it) v) it, i, a + 1)
      else if c = 0x74 then Some (scratch (conv_Time (conv e) v) it, i, a + 1)
      else if c = 0x72 then Some (scratch (conv_Status (conv e) v) it, i, a + 1)
      else if c \<in> {0x6E, 0x68, 0x65, 0x4E, 0x48, 0x45} then Some (it, i, a)
      else Some (scratch [0x3F] it, i, a))"

text \<open>The attributes: \<open>n\<close>, \<open>h\<close>, \<open>e\<close> at once and for this item, \<open>N\<close>, \<open>H\<close>, \<open>E\<close> from now on.\<close>

definition item_attr :: "'o penv \<Rightarrow> u16 \<Rightarrow> u64 option" where
  "item_attr e c = (if c = 0x6E then Some (AttrNorm e) else if c = 0x68 then Some (AttrHighlight e)
     else if c = 0x65 then Some (AttrError e) else None)"

definition field_attr :: "'o penv \<Rightarrow> u16 \<Rightarrow> u64 option" where
  "field_attr e c = (if c = 0x4E then Some (AttrNorm e) else if c = 0x48 then Some (AttrHighlight e)
     else if c = 0x45 then Some (AttrError e) else None)"

subsection \<open>The interpreter\<close>

text \<open>The inner loop: from behind a percent sign to behind its conversion.\<close>

partial_function (option) item_loop ::
  "'o penv \<Rightarrow> pitem \<Rightarrow> u64 \<Rightarrow> 'o pstate \<Rightarrow> 'o pstate option" where
  "item_loop e it attr ps =
     (let c = fmt e (fmt_Index ps); ps = ps\<lparr>fmt_Index := fmt_Index ps + 1\<rparr> in
      if c = 0 then Some ps
      else case parse_char e c it (fmt_Index ps) (arg_Index ps) of None \<Rightarrow> None
      | Some r \<Rightarrow> (case r of (it, i, a) \<Rightarrow>
        let ps = ps\<lparr>fmt_Index := i, arg_Index := a\<rparr>;
            ps = (case item_attr e c of None \<Rightarrow> ps | Some at \<Rightarrow> PSETATTR e at ps);
            attr = (case field_attr e c of None \<Rightarrow> attr | Some at \<Rightarrow> at) in
        case Item it of Some t \<Rightarrow> Some (PITEM e it t ps)
        | None \<Rightarrow> if attr \<noteq> 0 then Some ((PSETATTR e attr ps)\<lparr>RestoreAttr := 0\<rparr>)
                  else item_loop e it attr ps))"

definition restore_attr :: "'o penv \<Rightarrow> 'o pstate \<Rightarrow> 'o pstate" where
  "restore_attr e ps = (if RestoreAttr ps \<noteq> 0 then PSETATTR e (RestoreAttr ps) ps else ps)"

partial_function (option) print_loop :: "'o penv \<Rightarrow> 'o pstate \<Rightarrow> 'o pstate option" where
  "print_loop e ps =
     (let c = fmt e (fmt_Index ps); ps = ps\<lparr>fmt_Index := fmt_Index ps + 1\<rparr> in
      if c = 0 then Some ps
      else if c \<noteq> 0x25 then print_loop e (PPUTC e c ps)
      else case item_loop e new_item 0 (ps\<lparr>RestoreAttr := 0\<rparr>) of None \<Rightarrow> None
      | Some ps \<Rightarrow> print_loop e (restore_attr e ps))"

definition print_start :: "u64 \<Rightarrow> 'o \<Rightarrow> 'o pstate" where
  "print_start attr ctx = \<lparr>fmt_Index = 0, arg_Index = 0, Buffer = [], Len = 0, Attr = attr,
     RestoreAttr = 0, Context = ctx\<rparr>"

text \<open>The result is the number of characters written and the context.\<close>

definition Print_core :: "'o penv \<Rightarrow> u64 \<Rightarrow> 'o \<Rightarrow> (nat \<times> 'o) option" where
  "Print_core e attr ctx =
     map_option (\<lambda>ps. (Len ps, Context (PFLUSH e ps))) (print_loop e (print_start attr ctx))"

subsection \<open>Printing into memory\<close>

text \<open>
  A buffer of CHAR16 cells: pointers are numbers of cells, 0 is NULL. \<open>pool_calls\<close> counts the requests
  for memory, which the firmware answers.
\<close>

record pool_print =
  pp_str :: nat
  pp_len :: nat
  pp_maxlen :: nat
  pp_cells :: cells16
  pool_calls :: nat

definition write_cells :: "cells16 \<Rightarrow> nat \<Rightarrow> u16 list \<Rightarrow> cells16" where
  "write_cells m p xs = (\<lambda>q. if p \<le> q \<and> q < p + length xs then xs ! (q - p) else m q)"

definition SPrint_out :: "u16 list \<Rightarrow> pool_print \<Rightarrow> pool_print" where
  "SPrint_out buf spc =
     (let len = length buf;
          len = (if pp_len spc + len > pp_maxlen spc then pp_maxlen spc - pp_len spc else len);
          spc = spc\<lparr>pp_cells := write_cells (pp_cells spc) (pp_str spc + pp_len spc) (take len buf)\<rparr>;
          spc = spc\<lparr>pp_len := pp_len spc + len\<rparr> in
      if pp_len spc < pp_maxlen spc then spc\<lparr>pp_cells := (pp_cells spc)(pp_str spc + pp_len spc := 0)\<rparr>
      else if pp_maxlen spc \<noteq> 0 then spc\<lparr>pp_cells := (pp_cells spc)(pp_str spc + pp_maxlen spc := 0)\<rparr>
      else spc)"

text \<open>
  \<open>ReallocatePool\<close> of \<open>misc.c\<close> on cells: a new block, with the old content as far as both are long.
  The answer to the \<open>k\<close>-th request for a number of cells is an address, or NULL.
\<close>

type_synonym pool = "nat \<Rightarrow> nat \<Rightarrow> nat"

definition ReallocatePool :: "pool \<Rightarrow> nat \<Rightarrow> nat \<Rightarrow> pool_print \<Rightarrow> pool_print" where
  "ReallocatePool pool oldsize newsize spc =
     (let newpool = (if newsize \<noteq> 0 then pool (pool_calls spc) newsize else 0);
          spc = (if newsize \<noteq> 0 then spc\<lparr>pool_calls := pool_calls spc + 1\<rparr> else spc);
          old = pp_str spc;
          m = (if old \<noteq> 0 \<and> newpool \<noteq> 0
               then write_cells (pp_cells spc) newpool (map (pp_cells spc) [old..<old + min oldsize newsize])
               else pp_cells spc)
      in spc\<lparr>pp_str := newpool, pp_cells := m\<rparr>)"

definition PoolPrint_out :: "pool \<Rightarrow> u16 list \<Rightarrow> pool_print \<Rightarrow> pool_print" where
  "PoolPrint_out pool buf spc =
     (let newlen = pp_len spc + length buf + 1;
          spc = (if newlen > pp_maxlen spc then
             (let newlen = newlen + PRINT_STRING_LEN;
                  spc = spc\<lparr>pp_maxlen := newlen\<rparr>;
                  spc = ReallocatePool pool (pp_len spc) (pp_maxlen spc) spc
              in if pp_str spc = 0 then spc\<lparr>pp_len := 0, pp_maxlen := 0\<rparr> else spc)
            else spc)
      in SPrint_out buf spc)"

text \<open>The state of the interpreter is cleared: no attributes.\<close>

definition pool_env ::
  "(u16 list \<Rightarrow> pool_print \<Rightarrow> pool_print) \<Rightarrow> (nat \<Rightarrow> u16) \<Rightarrow> (nat \<Rightarrow> u64) \<Rightarrow> mem \<Rightarrow> conversions \<Rightarrow>
     pool_print penv" where
  "pool_env output f as m cv = \<lparr>fmt = f, arg_slots = as, arg_mem = m, conv = cv, Output = output,
     SetAttr = None, AttrNorm = 0, AttrHighlight = 0, AttrError = 0\<rparr>"

definition PoolCatPrint ::
  "(u16 list \<Rightarrow> pool_print \<Rightarrow> pool_print) \<Rightarrow> (nat \<Rightarrow> u16) \<Rightarrow> (nat \<Rightarrow> u64) \<Rightarrow> mem \<Rightarrow> conversions \<Rightarrow>
     pool_print \<Rightarrow> pool_print option" where
  "PoolCatPrint output f as m cv spc = map_option snd (Print_core (pool_env output f as m cv) 0 spc)"

text \<open>\<open>SPrint\<close> passes its arguments on. The number of cells is computed in 64-bit arithmetic.\<close>

definition VSPrint ::
  "nat \<Rightarrow> u64 \<Rightarrow> (nat \<Rightarrow> u16) \<Rightarrow> (nat \<Rightarrow> u64) \<Rightarrow> mem \<Rightarrow> conversions \<Rightarrow> cells16 \<Rightarrow> (nat \<times> cells16) option" where
  "VSPrint Str StrBytes f as m cv cells =
     map_option (\<lambda>spc. (pp_len spc, pp_cells spc))
       (PoolCatPrint SPrint_out f as m cv \<lparr>pp_str = Str, pp_len = 0,
          pp_maxlen = unat (StrBytes div 2 - 1), pp_cells = cells, pool_calls = 0\<rparr>)"

definition SPrint ::
  "nat \<Rightarrow> u64 \<Rightarrow> (nat \<Rightarrow> u16) \<Rightarrow> (nat \<Rightarrow> u64) \<Rightarrow> mem \<Rightarrow> conversions \<Rightarrow> cells16 \<Rightarrow> (nat \<times> cells16) option" where
  "SPrint Str StrBytes f as m cv cells = VSPrint Str StrBytes f as m cv cells"

definition VPoolPrint ::
  "pool \<Rightarrow> (nat \<Rightarrow> u16) \<Rightarrow> (nat \<Rightarrow> u64) \<Rightarrow> mem \<Rightarrow> conversions \<Rightarrow> cells16 \<Rightarrow> pool_print option" where
  "VPoolPrint pool f as m cv cells =
     PoolCatPrint (PoolPrint_out pool) f as m cv
       \<lparr>pp_str = 0, pp_len = 0, pp_maxlen = 0, pp_cells = cells, pool_calls = 0\<rparr>"

definition PoolPrint ::
  "pool \<Rightarrow> (nat \<Rightarrow> u16) \<Rightarrow> (nat \<Rightarrow> u64) \<Rightarrow> mem \<Rightarrow> conversions \<Rightarrow> cells16 \<Rightarrow> pool_print option" where
  "PoolPrint pool f as m cv cells = VPoolPrint pool f as m cv cells"

definition CatPrint ::
  "pool \<Rightarrow> pool_print \<Rightarrow> (nat \<Rightarrow> u16) \<Rightarrow> (nat \<Rightarrow> u64) \<Rightarrow> mem \<Rightarrow> conversions \<Rightarrow> pool_print option" where
  "CatPrint pool spc f as m cv = PoolCatPrint (PoolPrint_out pool) f as m cv spc"

subsection \<open>The text of a format\<close>

text \<open>
  The specification: the text a format describes, without buffers and flushes, read from a character
  and an argument on. A new line becomes a carriage return and a new line.
\<close>

definition newlines :: "u16 list \<Rightarrow> u16 list" where
  "newlines xs = concat (map (\<lambda>c. if c = 0x0A then [0x0D, 0x0A] else [c]) xs)"

partial_function (option) item_text ::
  "'o penv \<Rightarrow> pitem \<Rightarrow> nat \<Rightarrow> nat \<Rightarrow> (u16 list \<times> nat \<times> nat) option" where
  "item_text e it i a =
     (let c = fmt e i in
      if c = 0 then Some ([], i + 1, a)
      else case parse_char e c it (i + 1) a of None \<Rightarrow> None
      | Some r \<Rightarrow> (case r of (it, i, a) \<Rightarrow>
        case Item it of Some t \<Rightarrow> Some (item_output it t, i, a)
        | None \<Rightarrow> if field_attr e c \<in> {None, Some 0} then item_text e it i a else Some ([], i, a)))"

partial_function (option) format_text :: "'o penv \<Rightarrow> nat \<Rightarrow> nat \<Rightarrow> u16 list option" where
  "format_text e i a =
     (let c = fmt e i in
      if c = 0 then Some []
      else if c \<noteq> 0x25 then Option.bind (format_text e (i + 1) a) (\<lambda>ys. Some (c # ys))
      else case item_text e new_item (i + 1) a of None \<Rightarrow> None
      | Some r \<Rightarrow> (case r of (xs, i, a) \<Rightarrow> Option.bind (format_text e i a) (\<lambda>ys. Some (xs @ ys))))"

lemma newlines_simps [simp]:
  "newlines [] = []" "newlines (xs @ ys) = newlines xs @ newlines ys"
  "newlines (c # xs) = (if c = 0x0A then [0x0D, 0x0A] else [c]) @ newlines xs"
  by (simp_all add: newlines_def)

text \<open>
  The interface between the interpreter and what it attached to: a relation between the state of the
  printed-to object and the text in it, which every output extends by what is put out and which a
  change of the attribute, if there is one, keeps.
\<close>

locale text_sink =
  fixes out :: "u16 list \<Rightarrow> 'o \<Rightarrow> 'o"
    and set_attr :: "(u64 \<Rightarrow> 'o \<Rightarrow> 'o) option"
    and rep :: "'o \<Rightarrow> u16 list \<Rightarrow> bool"
  assumes rep_out: "rep s t \<Longrightarrow> rep (out xs s) (t @ xs)"
    and rep_attr: "set_attr = Some f \<Longrightarrow> rep s t \<Longrightarrow> rep (f a s) t"
begin

definition attached :: "'o penv \<Rightarrow> bool" where
  "attached e \<longleftrightarrow> Output e = out \<and> SetAttr e = set_attr"

definition pends :: "'o pstate \<Rightarrow> u16 list \<Rightarrow> bool" where
  "pends ps t \<longleftrightarrow> (\<exists>t0. rep (Context ps) t0 \<and> t = t0 @ Buffer ps)"

definition follows :: "'o pstate \<Rightarrow> u16 list \<Rightarrow> 'o pstate \<Rightarrow> bool" where
  "follows ps xs ps' \<longleftrightarrow> (\<forall>t. pends ps t \<longrightarrow> pends ps' (t @ xs)) \<and> Len ps' = Len ps + length xs \<and>
     fmt_Index ps' = fmt_Index ps \<and> arg_Index ps' = arg_Index ps"

lemma follows_refl: "follows ps [] ps"
  by (simp add: follows_def)

lemma follows_trans: "follows ps xs ps1 \<Longrightarrow> follows ps1 ys ps2 \<Longrightarrow> follows ps (xs @ ys) ps2"
  by (auto simp: follows_def)

lemma follows_flush:
  assumes e: "attached e"
  shows "follows ps [] (PFLUSH e ps)"
  using rep_out e unfolding follows_def pends_def PFLUSH_def attached_def by auto

lemma follows_put_one: "attached e \<Longrightarrow> follows ps [c] (put_one e c ps)"
proof -
  assume e: "attached e"
  let ?ps = "ps\<lparr>Buffer := Buffer ps @ [c], Len := Len ps + 1\<rparr>"
  have "follows ps [c] ?ps" by (auto simp: follows_def pends_def)
  from follows_trans [OF this follows_flush [OF e]] this show ?thesis by (simp add: put_one_def Let_def)
qed

lemma follows_put: "attached e \<Longrightarrow> follows ps (newlines [c]) (PPUTC e c ps)"
  using follows_put_one [where c = c] follows_trans [OF follows_put_one [where c = "0x0D"] follows_put_one [where c = "0x0A"]]
  by (simp add: PPUTC_def Let_def)

lemma follows_put_all: "attached e \<Longrightarrow> follows ps (newlines cs) (put_all e cs ps)"
proof (induction cs arbitrary: ps)
  case Nil
  then show ?case by (simp add: put_all_def follows_refl)
next
  case (Cons c cs)
  have "follows ps (newlines [c] @ newlines cs) (put_all e cs (PPUTC e c ps))"
    by (rule follows_trans [OF follows_put Cons.IH]) (use Cons.prems in simp_all)
  then show ?case by (simp add: put_all_def)
qed

lemma follows_attr:
  assumes "attached e"
  shows "follows ps [] (PSETATTR e a ps)"
proof -
  have "follows (PFLUSH e ps) [] (PSETATTR e a ps)"
    using assms rep_attr by (auto simp: PSETATTR_def Let_def attached_def follows_def pends_def split: option.splits)
  from follows_trans [OF follows_flush [OF assms] this] show ?thesis by simp
qed

lemma follows_record: "follows ps xs ps' \<Longrightarrow> follows ps xs (ps'\<lparr>RestoreAttr := r\<rparr>)"
  by (simp add: follows_def pends_def)

lemma follows_index:
  "follows (ps\<lparr>fmt_Index := i, arg_Index := a\<rparr>) [] ps1 \<Longrightarrow>
   follows (ps1\<lparr>fmt_Index := j, arg_Index := b\<rparr>) xs ps2 \<Longrightarrow> follows (ps\<lparr>fmt_Index := j, arg_Index := b\<rparr>) xs ps2"
  by (auto simp: follows_def pends_def)

lemma item_loop_follows:
  "item_text e it i a = Some r \<Longrightarrow> attached e \<Longrightarrow>
   (\<forall>ps. fmt_Index ps = i \<and> arg_Index ps = a \<longrightarrow>
     (\<exists>ps'. item_loop e it 0 ps = Some ps' \<and>
        follows (ps\<lparr>fmt_Index := fst (snd r), arg_Index := snd (snd r)\<rparr>) (newlines (fst r)) ps'))"
proof (induction rule: item_text.raw_induct [rotated 1, consumes 1])
  case (1 loop e it i a r)
  note e = 1(3)
  show ?case
  proof (intro allI impI, elim conjE)
    fix ps :: "'o pstate"
    assume ps: "fmt_Index ps = i" "arg_Index ps = a"
    let ?goal = "\<exists>ps'. item_loop e it 0 ps = Some ps' \<and>
        follows (ps\<lparr>fmt_Index := fst (snd r), arg_Index := snd (snd r)\<rparr>) (newlines (fst r)) ps'"
    show ?goal
    proof (cases "fmt e i = 0")
      case True
      with 1(2) ps show ?thesis
        by (auto simp: Let_def item_loop.simps [of e it] follows_def pends_def)
    next
      case False
      with 1(2) obtain it1 i1 a1 where p: "parse_char e (fmt e i) it (i + 1) a = Some (it1, i1, a1)"
        and t: "(case Item it1 of Some t \<Rightarrow> Some (item_output it1 t, i1, a1) | None \<Rightarrow>
          if field_attr e (fmt e i) \<in> {None, Some 0} then loop e it1 i1 a1 else Some ([], i1, a1)) = Some r"
        by (auto simp: Let_def split: option.splits)
      define ps1 where "ps1 = ps\<lparr>fmt_Index := i1, arg_Index := a1\<rparr>"
      define ps2 where "ps2 = (case item_attr e (fmt e i) of None \<Rightarrow> ps1 | Some at \<Rightarrow> PSETATTR e at ps1)"
      define at where "at = (case field_attr e (fmt e i) of None \<Rightarrow> 0 | Some at \<Rightarrow> at)"
      have f2: "follows ps1 [] ps2"
        using follows_attr [OF e] follows_refl [of ps1] by (simp add: ps2_def split: option.splits)
      have step: "item_loop e it 0 ps = (case Item it1 of Some t \<Rightarrow> Some (PITEM e it1 t ps2)
          | None \<Rightarrow> if at \<noteq> 0 then Some ((PSETATTR e at ps2)\<lparr>RestoreAttr := 0\<rparr>) else item_loop e it1 0 ps2)"
        using False p ps
        by (subst item_loop.simps)
           (simp add: Let_def ps1_def [symmetric] ps2_def at_def [symmetric] split: option.splits)
      have a0: "field_attr e (fmt e i) \<in> {None, Some 0} \<longleftrightarrow> at = 0" by (auto simp: at_def split: option.splits)
      show ?thesis
      proof (cases "Item it1")
        case (Some t0)
        with t have r: "r = (item_output it1 t0, i1, a1)" by simp
        have "follows ps1 ([] @ newlines (item_output it1 t0)) (PITEM e it1 t0 ps2)"
          unfolding PITEM_def by (rule follows_trans [OF f2 follows_put_all]) (rule e)
        then show ?thesis using step Some r by (simp add: ps1_def)
      next
        case None
        note N = this
        show ?thesis
        proof (cases "at = 0")
          case True
          with None t a0 have l: "loop e it1 i1 a1 = Some r" by simp
          have s2: "fmt_Index ps2 = i1" "arg_Index ps2 = a1" using f2 by (auto simp: follows_def ps1_def)
          with 1(1) [OF l e] obtain ps' where ps': "item_loop e it1 0 ps2 = Some ps'"
            "follows (ps2\<lparr>fmt_Index := fst (snd r), arg_Index := snd (snd r)\<rparr>) (newlines (fst r)) ps'" by blast
          from follows_index [OF f2 [unfolded ps1_def] ps'(2)] ps'(1) step N True show ?thesis by simp
        next
          case False
          with a0 have "field_attr e (fmt e i) \<notin> {None, Some 0}" by blast
          with None t have r: "r = ([], i1, a1)" by (simp del: insert_iff)
          from follows_record [OF follows_trans [OF f2 follows_attr [OF e]], of 0 at] step N False r
          show ?thesis by (simp add: ps1_def)
        qed
      qed
    qed
  qed
qed

lemma restore_follows: "attached e \<Longrightarrow> follows ps [] (restore_attr e ps)"
  by (simp add: restore_attr_def follows_refl follows_attr)

lemma print_loop_follows:
  "format_text e i a = Some xs \<Longrightarrow> attached e \<Longrightarrow>
   (\<forall>ps. fmt_Index ps = i \<and> arg_Index ps = a \<longrightarrow>
     (\<exists>ps'. print_loop e ps = Some ps' \<and> Len ps' = Len ps + length (newlines xs) \<and>
        (\<forall>t. pends ps t \<longrightarrow> pends ps' (t @ newlines xs))))"
proof (induction rule: format_text.raw_induct [rotated 1, consumes 1])
  case (1 loop e i a xs)
  note e = 1(3)
  show ?case
  proof (intro allI impI, elim conjE)
    fix ps :: "'o pstate"
    assume ps: "fmt_Index ps = i" "arg_Index ps = a"
    let ?ps = "ps\<lparr>fmt_Index := i + 1\<rparr>"
    have go: "\<exists>ps'. print_loop e ps = Some ps' \<and> Len ps' = Len ps + length (newlines (zs @ ys)) \<and>
        (\<forall>t. pends ps t \<longrightarrow> pends ps' (t @ newlines (zs @ ys)))"
      if "print_loop e ps = print_loop e ps1" "loop e j b = Some ys" "fmt_Index ps1 = j" "arg_Index ps1 = b"
        "Len ps1 = Len ps + length (newlines zs)" "\<And>t. pends ps t \<Longrightarrow> pends ps1 (t @ newlines zs)" for ps1 j b zs ys
    proof -
      from 1(1) [OF that(2) e] that(3,4) obtain ps' where ps': "print_loop e ps1 = Some ps'"
        "Len ps' = Len ps1 + length (newlines ys)" "\<forall>t. pends ps1 t \<longrightarrow> pends ps' (t @ newlines ys)" by blast
      then show ?thesis using that(1,5,6) by (intro exI [of _ ps']) (fastforce simp: add.assoc)
    qed
    show "\<exists>ps'. print_loop e ps = Some ps' \<and> Len ps' = Len ps + length (newlines xs) \<and>
        (\<forall>t. pends ps t \<longrightarrow> pends ps' (t @ newlines xs))"
    proof (cases "fmt e i = 0x25")
      case False
      show ?thesis
      proof (cases "fmt e i = 0")
        case True
        with 1(2) ps show ?thesis by (auto simp: Let_def print_loop.simps [of e ps] pends_def)
      next
        case c: False
        with False 1(2) obtain ys where ys: "loop e (i + 1) a = Some ys" "xs = [fmt e i] @ ys"
          by (auto simp: Let_def bind_eq_Some_conv)
        let ?ps1 = "PPUTC e (fmt e i) ?ps"
        have f: "follows ?ps (newlines [fmt e i]) ?ps1" by (rule follows_put) (rule e)
        then have "pends ?ps1 (t @ newlines [fmt e i])" if "pends ps t" for t
          using that by (simp add: follows_def pends_def)
        moreover have "print_loop e ps = print_loop e ?ps1"
          using c False ps by (subst print_loop.simps) (simp add: Let_def)
        moreover have "fmt_Index ?ps1 = i + 1" "arg_Index ?ps1 = a" "Len ?ps1 = Len ps + length (newlines [fmt e i])"
          using f ps by (simp_all add: follows_def)
        ultimately show ?thesis unfolding ys(2) by (intro go [OF _ ys(1)]) assumption+
      qed
    next
      case c: True
      with 1(2) obtain zs i1 a1 ys where t: "item_text e new_item (i + 1) a = Some (zs, i1, a1)"
        "loop e i1 a1 = Some ys" "xs = zs @ ys"
        by (auto simp: Let_def bind_eq_Some_conv split: option.splits)
      have "fmt_Index (?ps\<lparr>RestoreAttr := 0\<rparr>) = i + 1 \<and> arg_Index (?ps\<lparr>RestoreAttr := 0\<rparr>) = a" using ps by simp
      with item_loop_follows [OF t(1) e] obtain ps1 where ps1: "item_loop e new_item 0 (?ps\<lparr>RestoreAttr := 0\<rparr>) = Some ps1"
        "follows (?ps\<lparr>RestoreAttr := 0, fmt_Index := i1, arg_Index := a1\<rparr>) (newlines zs) ps1"
        by fastforce
      let ?ps2 = "restore_attr e ps1"
      have f: "follows (?ps\<lparr>RestoreAttr := 0, fmt_Index := i1, arg_Index := a1\<rparr>) (newlines zs) ?ps2"
        using follows_trans [OF ps1(2) restore_follows [OF e]] by simp
      then have "pends ?ps2 (t @ newlines zs)" if "pends ps t" for t
        using that by (simp add: follows_def pends_def)
      moreover have "print_loop e ps = print_loop e ?ps2"
        using c ps ps1(1) by (subst print_loop.simps) (simp add: Let_def)
      moreover have "fmt_Index ?ps2 = i1" "arg_Index ?ps2 = a1" "Len ?ps2 = Len ps + length (newlines zs)"
        using f ps by (simp_all add: follows_def)
      ultimately show ?thesis unfolding t(3) by (intro go [OF _ t(2)]) assumption+
    qed
  qed
qed

text \<open>What is printed in the end: the text, in pieces that arrive one after the other.\<close>

lemma Print_core_text:
  assumes "format_text e 0 0 = Some xs" "attached e" "rep ctx t"
  shows "\<exists>t0 B ctx1. Print_core e attr ctx = Some (length (newlines xs), out B ctx1) \<and>
    rep ctx1 t0 \<and> t @ newlines xs = t0 @ B"
proof -
  let ?ps = "print_start attr ctx"
  have "fmt_Index ?ps = 0 \<and> arg_Index ?ps = 0" by (simp add: print_start_def)
  with print_loop_follows [OF assms(1,2)] obtain ps' where ps': "print_loop e ?ps = Some ps'"
    "Len ps' = Len ?ps + length (newlines xs)" "\<forall>t. pends ?ps t \<longrightarrow> pends ps' (t @ newlines xs)" by blast
  have "pends ?ps t" using assms(3) by (simp add: pends_def print_start_def)
  with ps'(3) have "pends ps' (t @ newlines xs)" by blast
  then obtain t0 where t0: "rep (Context ps') t0 \<and> t @ newlines xs = t0 @ Buffer ps'"
    unfolding pends_def by blast
  have "Print_core e attr ctx = Some (length (newlines xs), out (Buffer ps') (Context ps'))"
    using ps'(1,2) assms(2) by (simp add: Print_core_def PFLUSH_def print_start_def attached_def)
  with t0 show ?thesis by blast
qed

end

subsection \<open>Buffers of a given size\<close>

text \<open>What is in the buffer depends on the text alone, not on the pieces it arrives in.\<close>

lemma write_cells_at: "write_cells m p xs q = (if p \<le> q \<and> q < p + length xs then xs ! (q - p) else m q)"
  by (simp add: write_cells_def)

lemma write_cells_Nil [simp]: "write_cells m p [] = m"
  by (auto simp: write_cells_def fun_eq_iff)

lemma SPrint_out_str [simp]: "pp_str (SPrint_out xs s) = pp_str s"
  "pp_maxlen (SPrint_out xs s) = pp_maxlen s" "pool_calls (SPrint_out xs s) = pool_calls s"
  by (simp_all add: SPrint_out_def Let_def)

lemma SPrint_out_len:
  "pp_len (SPrint_out xs s) = (if pp_len s \<le> pp_maxlen s then min (pp_maxlen s) (pp_len s + length xs) else pp_len s)"
  by (auto simp: SPrint_out_def Let_def)

lemma SPrint_out_full:
  "pp_maxlen s < pp_len s + length xs \<Longrightarrow> SPrint_out xs s = SPrint_out (take (pp_maxlen s - pp_len s) xs) s"
  by (cases "pp_len s \<le> pp_maxlen s") (simp_all add: SPrint_out_def Let_def)

lemma SPrint_out_cells:
  "pp_len s + length xs \<le> pp_maxlen s \<Longrightarrow> pp_cells (SPrint_out xs s) =
     (if pp_maxlen s = 0 then pp_cells s
      else (write_cells (pp_cells s) (pp_str s + pp_len s) xs)(pp_str s + (pp_len s + length xs) := 0))"
  by (auto simp: SPrint_out_def Let_def)

lemma write_cells_append:
  "write_cells ((write_cells m p xs)(p + length xs := z)) (p + length xs) ys =
     (if ys = [] then (write_cells m p xs)(p + length xs := z) else write_cells m p (xs @ ys))"
proof (cases "ys = []")
  case False
  then have "0 < length ys" by simp
  then show ?thesis by (auto simp: fun_eq_iff write_cells_def nth_append)
qed simp

lemma SPrint_out_append_fits:
  assumes "pp_len s + length (xs @ ys) \<le> pp_maxlen s"
  shows "SPrint_out ys (SPrint_out xs s) = SPrint_out (xs @ ys) s"
proof (intro pool_print.equality)
  have l: "pp_len (SPrint_out xs s) = pp_len s + length xs" using assms by (simp add: SPrint_out_len)
  have "pp_cells (SPrint_out ys (SPrint_out xs s)) = (if pp_maxlen s = 0 then pp_cells s else
      (write_cells ((write_cells (pp_cells s) (pp_str s + pp_len s) xs)(pp_str s + pp_len s + length xs := 0))
        (pp_str s + pp_len s + length xs) ys)(pp_str s + (pp_len s + length xs + length ys) := 0))"
    using assms l by (auto simp: SPrint_out_cells add.assoc)
  also have "\<dots> = pp_cells (SPrint_out (xs @ ys) s)"
    using assms write_cells_append [of "pp_cells s" "pp_str s + pp_len s" xs 0 ys]
    by (auto simp: SPrint_out_cells add.assoc)
  finally show "pp_cells (SPrint_out ys (SPrint_out xs s)) = pp_cells (SPrint_out (xs @ ys) s)" .
qed (use assms in \<open>simp_all add: SPrint_out_len\<close>)

lemma SPrint_out_none:
  "pp_maxlen s < pp_len s \<or> pp_maxlen s = 0 \<Longrightarrow> SPrint_out xs s =
     (if pp_maxlen s = 0 then s else s\<lparr>pp_cells := (pp_cells s)(pp_str s + pp_maxlen s := 0)\<rparr>)"
  by (auto simp: SPrint_out_def Let_def)

lemma SPrint_out_append: "SPrint_out ys (SPrint_out xs s) = SPrint_out (xs @ ys) s"
proof (cases "pp_maxlen s < pp_len s")
  case True
  then show ?thesis by (simp add: SPrint_out_none)
next
  case False
  define k where "k = pp_maxlen s - pp_len s"
  have t: "SPrint_out zs s = SPrint_out (take k zs) s" for zs
    by (cases "pp_maxlen s < pp_len s + length zs") (use False in \<open>simp_all add: SPrint_out_full [of s zs] k_def\<close>)
  have l: "pp_len (SPrint_out xs s) = pp_len s + length (take k xs)"
    using False by (auto simp: SPrint_out_len k_def min_def)
  have "SPrint_out ys (SPrint_out xs s) = SPrint_out (take (k - length xs) ys) (SPrint_out (take k xs) s)"
  proof (cases "pp_maxlen s < pp_len (SPrint_out xs s) + length ys")
    case True
    have "pp_maxlen s - pp_len (SPrint_out xs s) = k - length xs"
      using l False by (auto simp: k_def min_def)
    with SPrint_out_full [of "SPrint_out xs s" ys] True t [of xs] show ?thesis by simp
  next
    case False
    moreover have "pp_len s + k = pp_maxlen s" using \<open>\<not> pp_maxlen s < pp_len s\<close> by (simp add: k_def)
    ultimately have "length ys \<le> k - length xs" using l by (cases "length xs \<le> k") simp_all
    with t [of xs] show ?thesis by simp
  qed
  also have "\<dots> = SPrint_out (take k (xs @ ys)) s"
    using False by (subst SPrint_out_append_fits) (auto simp: k_def min_def)
  finally show ?thesis using t [of "xs @ ys"] by simp
qed

definition sprint_rep :: "pool_print \<Rightarrow> pool_print \<Rightarrow> u16 list \<Rightarrow> bool" where
  "sprint_rep s0 s t \<longleftrightarrow> (t = [] \<and> s = s0) \<or> s = SPrint_out t s0"

interpretation sprint: text_sink SPrint_out None "sprint_rep s0" for s0
  by unfold_locales (auto simp: sprint_rep_def SPrint_out_append)

subsection \<open>Allocated memory\<close>

text \<open>
  The memory that the firmware hands out lies from cell \<open>base\<close> on; a buffer holds the text and its
  terminator, and the cells below \<open>base\<close> are as they were.
\<close>

definition held :: "cells16 \<Rightarrow> nat \<Rightarrow> u16 list \<Rightarrow> bool" where
  "held m p t \<longleftrightarrow> (\<forall>i<length t. m (p + i) = t ! i) \<and> m (p + length t) = 0"

definition pool_rep :: "pool \<Rightarrow> nat \<Rightarrow> cells16 \<Rightarrow> pool_print \<Rightarrow> u16 list \<Rightarrow> bool" where
  "pool_rep pool base m0 s t \<longleftrightarrow> 0 < base \<and> (\<forall>k n. base \<le> pool k n) \<and> (\<forall>q<base. pp_cells s q = m0 q) \<and>
     pp_len s = length t \<and>
     (if pp_str s = 0 then t = [] \<and> pp_maxlen s = 0
      else base \<le> pp_str s \<and> length t < pp_maxlen s \<and> held (pp_cells s) (pp_str s) t)"

lemma SPrint_out_held:
  assumes "held (pp_cells s) (pp_str s) t \<or> t = []" "pp_len s = length t" "length t + length xs < pp_maxlen s"
  shows "held (pp_cells (SPrint_out xs s)) (pp_str s) (t @ xs)"
  using assms by (auto simp: held_def SPrint_out_cells write_cells_at nth_append)

lemma SPrint_out_below:
  assumes "pp_len s + length xs < pp_maxlen s" "q < pp_str s"
  shows "pp_cells (SPrint_out xs s) q = pp_cells s q"
  using assms by (simp add: SPrint_out_cells write_cells_at)

definition regrown :: "pool \<Rightarrow> u16 list \<Rightarrow> pool_print \<Rightarrow> pool_print" where
  "regrown pool buf s = ReallocatePool pool (pp_len s) (pp_len s + length buf + 1 + PRINT_STRING_LEN)
     (s\<lparr>pp_maxlen := pp_len s + length buf + 1 + PRINT_STRING_LEN\<rparr>)"

lemma PoolPrint_out_cases:
  "pool (pool_calls s) (pp_len s + length buf + 1 + PRINT_STRING_LEN) \<noteq> 0 \<Longrightarrow> PoolPrint_out pool buf s =
     SPrint_out buf (if pp_len s + length buf < pp_maxlen s then s else regrown pool buf s)"
  by (simp add: PoolPrint_out_def regrown_def Let_def ReallocatePool_def not_less)

lemma regrown_fields:
  "pp_str (regrown pool buf s) = pool (pool_calls s) (pp_len s + length buf + 1 + PRINT_STRING_LEN)"
  "pp_len (regrown pool buf s) = pp_len s" "pp_maxlen (regrown pool buf s) = pp_len s + length buf + 1 + PRINT_STRING_LEN"
  by (simp_all add: regrown_def ReallocatePool_def Let_def)

lemma regrown_cells:
  "pp_cells (regrown pool buf s) q =
     (let p = pool (pool_calls s) (pp_len s + length buf + 1 + PRINT_STRING_LEN) in
      if pp_str s \<noteq> 0 \<and> p \<noteq> 0 \<and> p \<le> q \<and> q < p + pp_len s then pp_cells s (pp_str s + (q - p)) else pp_cells s q)"
  by (auto simp: regrown_def ReallocatePool_def Let_def write_cells_at)

lemma pool_rep_out:
  assumes r: "pool_rep pool base m0 s t"
  shows "pool_rep pool base m0 (PoolPrint_out pool xs s) (t @ xs) \<and> pp_str (PoolPrint_out pool xs s) \<noteq> 0"
proof -
  let ?p = "pool (pool_calls s) (pp_len s + length xs + 1 + PRINT_STRING_LEN)"
  have b: "0 < base" "base \<le> ?p" using r by (auto simp: pool_rep_def)
  have p0: "?p \<noteq> 0" using b by simp
  define s1 where "s1 = (if pp_len s + length xs < pp_maxlen s then s else regrown pool xs s)"
  have out: "PoolPrint_out pool xs s = SPrint_out xs s1"
    unfolding s1_def using b by (intro PoolPrint_out_cases) simp
  have s1: "base \<le> pp_str s1" "pp_len s1 = length t" "length t + length xs < pp_maxlen s1"
    using r b by (auto simp: s1_def pool_rep_def regrown_fields split: if_splits)
  have q1: "pp_cells s1 q = m0 q" if "q < base" for q
  proof -
    have "\<not> ?p \<le> q" using that b(2) by simp
    then show ?thesis using r that by (simp add: s1_def pool_rep_def regrown_cells Let_def)
  qed
  have h: "held (pp_cells s1) (pp_str s1) t \<or> t = []" if "pp_len s + length xs < pp_maxlen s"
    using r that by (auto simp: s1_def pool_rep_def split: if_splits)
  have "held (pp_cells (SPrint_out xs s1)) (pp_str s1) (t @ xs)"
  proof (cases "pp_len s + length xs < pp_maxlen s")
    case True
    with SPrint_out_held [OF h s1(2,3)] show ?thesis by simp
  next
    case False
    have "\<forall>i<length t. pp_cells s1 (pp_str s1 + i) = t ! i"
      using r p0 False by (auto simp: s1_def regrown_fields regrown_cells Let_def pool_rep_def held_def split: if_splits)
    with s1 show ?thesis by (auto simp: held_def SPrint_out_cells write_cells_at nth_append)
  qed
  moreover have "\<forall>q<base. pp_cells (SPrint_out xs s1) q = m0 q"
    using s1 q1 by (simp add: SPrint_out_below)
  ultimately show ?thesis using r s1 b by (auto simp: out pool_rep_def SPrint_out_len)
qed

interpretation poolprint: text_sink "PoolPrint_out pool" None "pool_rep pool base m0" for pool base m0
  by unfold_locales (use pool_rep_out in blast)+

subsection \<open>What the printing functions do\<close>

text \<open>An environment without attributes, as \<open>_PoolCatPrint\<close> makes it.\<close>

definition plain_env :: "'o penv \<Rightarrow> bool" where
  "plain_env e \<longleftrightarrow> SetAttr e = None \<and> AttrNorm e = 0 \<and> AttrHighlight e = 0 \<and> AttrError e = 0"

lemma pool_env_attached:
  "text_sink.attached SPrint_out None (pool_env SPrint_out f as m cv)"
  "text_sink.attached (PoolPrint_out pool) None (pool_env (PoolPrint_out pool) f as m cv)"
  by (simp_all add: pool_env_def sprint.attached_def poolprint.attached_def)

definition store_text :: "cells16 \<Rightarrow> nat \<Rightarrow> u16 list \<Rightarrow> cells16" where
  "store_text m p xs = (write_cells m p xs)(p + length xs := 0)"

lemma store_text_holds: "held (store_text m p xs) p xs"
  by (auto simp: held_def store_text_def write_cells_at)

lemma store_text_frame: "q < p \<or> p + length xs < q \<Longrightarrow> store_text m p xs q = m q"
  by (auto simp: store_text_def write_cells_at)

lemma VSPrint_cells:
  assumes "format_text (pool_env SPrint_out f as m cv) 0 0 = Some xs" "unat (StrBytes div 2 - 1) = M" "M \<noteq> 0"
  shows "VSPrint Str StrBytes f as m cv cells =
    Some (min M (length (newlines xs)), store_text cells Str (take M (newlines xs)))"
proof -
  let ?s0 = "\<lparr>pp_str = Str, pp_len = 0, pp_maxlen = M, pp_cells = cells, pool_calls = 0\<rparr>"
  have "sprint_rep ?s0 ?s0 []" by (simp add: sprint_rep_def)
  from sprint.Print_core_text [OF assms(1) pool_env_attached(1) this]
  obtain t0 B ctx1 where p: "Print_core (pool_env SPrint_out f as m cv) 0 ?s0 =
      Some (length (newlines xs), SPrint_out B ctx1)"
    and c: "sprint_rep ?s0 ctx1 t0" "[] @ newlines xs = t0 @ B" by blast
  have o: "SPrint_out B ctx1 = SPrint_out (newlines xs) ?s0"
    using c by (auto simp: sprint_rep_def SPrint_out_append)
  let ?t = "take M (newlines xs)"
  have t: "SPrint_out (newlines xs) ?s0 = SPrint_out ?t ?s0"
    by (cases "M < length (newlines xs)") (simp_all add: SPrint_out_full [of ?s0 "newlines xs"])
  have cells: "pp_cells (SPrint_out ?t ?s0) = store_text cells Str ?t"
    using assms(3) by (simp add: SPrint_out_cells store_text_def)
  show ?thesis
    by (simp add: VSPrint_def PoolCatPrint_def assms(2) p o t cells SPrint_out_len min.commute)
qed

text \<open>The witnesses print a character and the number 42.\<close>

definition no_conv :: conversions where
  "no_conv = \<lparr>conv_Guid = (\<lambda>_. []), conv_DevicePath = (\<lambda>_. []), conv_Float = (\<lambda>_ _. []),
     conv_Time = (\<lambda>_. []), conv_Status = (\<lambda>_. [])\<rparr>"

definition sample_format :: "nat \<Rightarrow> u16" where
  "sample_format = scratch_text [0x41, 0x25, 0x64, 0x0A]"

declare format_text.simps [code] item_text.simps [code] parse_width.simps [code]

definition empty_print :: pool_print where
  "empty_print = \<lparr>pp_str = 0, pp_len = 0, pp_maxlen = 0, pp_cells = (\<lambda>_. 7), pool_calls = 0\<rparr>"

lemma sample_text:
  "format_text (pool_env SPrint_out sample_format (\<lambda>_. 42) (\<lambda>_. 0) no_conv) 0 0 = Some [0x41, 0x34, 0x32, 0x0A]"
  "format_text (pool_env (PoolPrint_out (\<lambda>k n. 100)) sample_format (\<lambda>_. 42) (\<lambda>_. 0) no_conv) 0 0 =
     Some [0x41, 0x34, 0x32, 0x0A]"
  by code_simp+

lemma CatPrint_holds:
  assumes "format_text (pool_env (PoolPrint_out pool) f as m cv) 0 0 = Some xs" "pool_rep pool base m0 spc t"
  shows "\<exists>spc'. CatPrint pool spc f as m cv = Some spc' \<and> pool_rep pool base m0 spc' (t @ newlines xs) \<and>
    pp_str spc' \<noteq> 0"
proof -
  from poolprint.Print_core_text [OF assms(1) pool_env_attached(2) assms(2)]
  obtain t0 B ctx1 where p: "Print_core (pool_env (PoolPrint_out pool) f as m cv) 0 spc =
      Some (length (newlines xs), PoolPrint_out pool B ctx1)"
    and c: "pool_rep pool base m0 ctx1 t0" "t @ newlines xs = t0 @ B" by blast
  from pool_rep_out [OF c(1), of B] c(2) show ?thesis by (simp add: CatPrint_def PoolCatPrint_def p)
qed

text \<open>
  \<open>VPoolPrint\<close> never cuts the text: the block it returns holds all of it with its terminator, and no
  cell below the pool is written.
\<close>

theorem VPoolPrint_whole:
  assumes "format_text (pool_env (PoolPrint_out pool) f as m cv) 0 0 = Some xs"
    and "0 < base" "\<forall>k n. base \<le> pool k n"
  shows "\<exists>spc. VPoolPrint pool f as m cv cells = Some spc \<and> base \<le> pp_str spc \<and>
    pp_len spc = length (newlines xs) \<and> pp_len spc < pp_maxlen spc \<and>
    held (pp_cells spc) (pp_str spc) (newlines xs) \<and> (\<forall>q<base. pp_cells spc q = cells q)"
proof -
  let ?s0 = "\<lparr>pp_str = 0, pp_len = 0, pp_maxlen = 0, pp_cells = cells, pool_calls = 0\<rparr>"
  have r: "pool_rep pool base cells ?s0 []" using assms(2,3) by (simp add: pool_rep_def)
  from CatPrint_holds [OF assms(1) r] show ?thesis
    by (auto simp: VPoolPrint_def CatPrint_def pool_rep_def split: if_splits)
qed

theorem VPoolPrint_whole_witness:
  "\<exists>spc. VPoolPrint (\<lambda>k n. 100) sample_format (\<lambda>_. 42) (\<lambda>_. 0) no_conv (\<lambda>_. 7) = Some spc \<and>
    held (pp_cells spc) (pp_str spc) [0x41, 0x34, 0x32, 0x0D, 0x0A] \<and> (\<forall>q<100. pp_cells spc q = 7)"
  using VPoolPrint_whole [OF sample_text(2), of 100 "\<lambda>_. 7"] by auto

text \<open>
  A percent sign at the end of a format is not the end of the reading: the terminator ends the item
  only, and the interpreter goes on with the character behind it.
\<close>

theorem format_percent_end:
  assumes "fmt e (fmt_Index ps) = 0x25" "fmt e (fmt_Index ps + 1) = 0"
  shows "print_loop e ps = print_loop e (ps\<lparr>fmt_Index := fmt_Index ps + 2, RestoreAttr := 0\<rparr>)"
proof -
  have "item_loop e new_item 0 (ps\<lparr>fmt_Index := fmt_Index ps + 1, RestoreAttr := 0\<rparr>) =
      Some (ps\<lparr>fmt_Index := fmt_Index ps + 2, RestoreAttr := 0\<rparr>)"
    using assms(2) by (subst item_loop.simps) (simp add: Let_def)
  then show ?thesis using assms by (subst print_loop.simps) (simp add: Let_def restore_attr_def)
qed

theorem format_percent_end_witness:
  "print_loop (pool_env SPrint_out (scratch_text [0x25]) (\<lambda>_. 0) (\<lambda>_. 0) no_conv) (print_start 0 empty_print) =
   print_loop (pool_env SPrint_out (scratch_text [0x25]) (\<lambda>_. 0) (\<lambda>_. 0) no_conv)
     ((print_start 0 empty_print)\<lparr>fmt_Index := 2\<rparr>)"
proof -
  let ?e = "pool_env SPrint_out (scratch_text [0x25]) (\<lambda>_. 0) (\<lambda>_. 0) no_conv"
  have "fmt ?e (fmt_Index (print_start 0 empty_print)) = 0x25" "fmt ?e (fmt_Index (print_start 0 empty_print) + 1) = 0"
    by (simp_all add: pool_env_def print_start_def scratch_text_def)
  from format_percent_end [OF this] show ?thesis by (simp add: print_start_def numeral_2_eq_2)
qed

text \<open>An attribute of zero is not seen as one: \<open>N\<close>, \<open>H\<close> and \<open>E\<close> do not end their item then.\<close>

lemma attribute_zero_goes_on:
  assumes "plain_env e" "fmt e (fmt_Index ps) \<in> {0x4E, 0x48, 0x45}"
  shows "item_loop e new_item 0 ps = item_loop e new_item 0 (ps\<lparr>fmt_Index := fmt_Index ps + 1\<rparr>)"
proof -
  have "parse_char e 0x4E new_item i a = Some (new_item, i, a) \<and> parse_char e 0x48 new_item i a = Some (new_item, i, a) \<and>
      parse_char e 0x45 new_item i a = Some (new_item, i, a)" for i a
    by (simp add: parse_char_def)
  with assms(2) have "parse_char e (fmt e (fmt_Index ps)) new_item i a = Some (new_item, i, a)" for i a by auto
  moreover have "item_attr e (fmt e (fmt_Index ps)) = None" "fmt e (fmt_Index ps) \<noteq> 0"
    using assms(2) by (auto simp: item_attr_def)
  moreover have "(case field_attr e (fmt e (fmt_Index ps)) of None \<Rightarrow> 0 | Some at \<Rightarrow> at) = 0"
    using assms(1) by (auto simp: field_attr_def plain_env_def)
  moreover have "Item new_item = None" by (simp add: new_item_def)
  moreover have "ps\<lparr>fmt_Index := i, arg_Index := arg_Index ps\<rparr> = ps\<lparr>fmt_Index := i\<rparr>" for i by (cases ps) simp
  ultimately show ?thesis unfolding item_loop.simps [of e new_item 0 ps] by (simp add: Let_def)
qed

text \<open>An unsigned argument of 64 bits is printed as a signed one.\<close>

lemma unsigned_long_as_signed:
  assumes "Long it" "sint (arg_slots e a) < 0" "\<not> Comma it"
  shows "\<exists>ys. parse_char e 0x75 it i a = Some (scratch (0x2D # ys) it, i, a + 1)"
  using assms ValueToString_text [of False "arg_slots e a"] by (auto simp: parse_char_def Let_def)

end
