(* ===== verification/EfiText.thy ===== *)
theory EfiText
  imports EfiPrint
begin

section \<open>Times, status codes and GUIDs as text (gnu-efi/lib: print.c, error.c, guid.c)\<close>

text \<open>
  The library's own users of the format interpreter. Formats made of literal characters and padded
  numbers are described by pieces, and a theorem gives the text of every such format; the texts of
  times, status codes and GUIDs follow from it.
\<close>

subsection \<open>Formats made of pieces\<close>

datatype piece = Lit u16 | Chr | ZDec nat | ZHex nat | FixHex

definition width_char :: "nat \<Rightarrow> u16" where "width_char w = 0x30 + of_nat w"

fun piece_format :: "piece \<Rightarrow> u16 list" where
  "piece_format (Lit c) = [c]"
| "piece_format Chr = [0x25, 0x63]"
| "piece_format (ZDec w) = [0x25, 0x30, width_char w, 0x64]"
| "piece_format (ZHex w) = [0x25, 0x30, width_char w, 0x78]"
| "piece_format FixHex = [0x25, 0x58]"

fun piece_ok :: "piece \<Rightarrow> bool" where
  "piece_ok (Lit c) \<longleftrightarrow> c \<noteq> 0 \<and> c \<noteq> 0x25"
| "piece_ok (ZDec w) \<longleftrightarrow> 0 < w \<and> w < 10"
| "piece_ok (ZHex w) \<longleftrightarrow> 0 < w \<and> w < 10"
| "piece_ok _ \<longleftrightarrow> True"

fun piece_args :: "piece \<Rightarrow> nat" where
  "piece_args (Lit c) = 0"
| "piece_args _ = 1"

definition zeros :: "nat \<Rightarrow> u16 list \<Rightarrow> u16 list" where
  "zeros w xs = replicate (w - length xs) 0x30 @ xs"

fun piece_text :: "u64 \<Rightarrow> piece \<Rightarrow> u16 list" where
  "piece_text v (Lit c) = [c]"
| "piece_text v Chr = (if (ucast v :: u16) = 0 then [] else [ucast v])"
| "piece_text v (ZDec w) = zeros w (ValueToString False (scast (ucast v :: u32)))"
| "piece_text v (ZHex w) = zeros w (ValueToHex (ucast (ucast v :: u32)))"
| "piece_text v FixHex = zeros 8 (ValueToHex (ucast (ucast v :: u32)))"

fun pieces_text :: "(nat \<Rightarrow> u64) \<Rightarrow> nat \<Rightarrow> piece list \<Rightarrow> u16 list" where
  "pieces_text as a [] = []"
| "pieces_text as a (p # ps) = piece_text (as a) p @ pieces_text as (a + piece_args p) ps"

definition pieces_format :: "piece list \<Rightarrow> nat \<Rightarrow> u16" where
  "pieces_format ps = scratch_text (concat (map piece_format ps))"

text \<open>Items out of the scratch array.\<close>

lemma unat_minus_one_u64: "unat (- 1 :: u64) = 18446744073709551615"
  by (simp add: unsigned_minus_1_eq_mask mask_eq_exp_minus_1)

lemma item_length_scratch:
  assumes "0 \<notin> set xs" "length xs < 2 ^ 64 - 1" "unat i \<le> length xs"
  shows "unat (item_length (scratch_text xs) (- 1) i) = length xs"
  using assms
proof (induction "length xs - unat i" arbitrary: i)
  case 0
  then have i: "unat i = length xs" by simp
  with "0.prems" have "i < - 1" by (simp add: word_less_nat_alt unat_minus_one_u64)
  with i show ?case by (simp add: item_length.simps [of _ _ i] scratch_text_def)
next
  case (Suc n)
  then have i: "unat i < length xs" by simp
  with Suc.prems have l: "i < - 1" by (simp add: word_less_nat_alt unat_minus_one_u64)
  then have s: "unat (i + 1) = Suc (unat i)" by (rule unat_add_1_less)
  have "xs ! unat i \<noteq> 0" using i Suc.prems(1) by (metis nth_mem)
  then have "item_length (scratch_text xs) (- 1) i = item_length (scratch_text xs) (- 1) (i + 1)"
    using l i by (simp add: item_length.simps [of _ _ i] scratch_text_def)
  moreover have "unat (item_length (scratch_text xs) (- 1) (i + 1)) = length xs"
    using Suc i s by (intro Suc.hyps(1)) simp_all
  ultimately show ?case by simp
qed

lemma item_output_Item [simp]: "item_output (it\<lparr>Item := t\<rparr>) f = item_output it f"
  by (simp add: item_output_def cong: if_cong)

lemma item_output_scratch:
  assumes "0 \<notin> set xs" "length xs < 100" "FieldWidth it = - 1" "PadBefore it"
  shows "item_output it (scratch_text xs) = replicate (unat (Width it) - length xs) (Pad it) @ xs"
proof -
  let ?l = "item_length (scratch_text xs) (- 1) 0"
  have l: "unat ?l = length xs" using assms(1,2) by (intro item_length_scratch) simp_all
  have m: "map (scratch_text xs) [0..<length xs] = xs" by (rule nth_equalityI) (simp_all add: scratch_text_def)
  have w: "unat (if ?l > Width it then ?l else Width it) - length xs = unat (Width it) - length xs"
    using l by (simp add: word_less_nat_alt)
  show ?thesis
  proof (cases "?l > Width it")
    case True
    with l have "unat (Width it) - length xs = 0" by (simp add: word_less_nat_alt)
    with True show ?thesis by (simp add: item_output_def Let_def assms l m)
  next
    case False
    with l show ?thesis by (simp add: item_output_def Let_def assms m word_less_nat_alt)
  qed
qed

lemma ValueToHex_nonzero: "0 \<notin> set (ValueToHex v)"
proof -
  have "\<not> hex_digit 0" by code_simp
  then show ?thesis using ValueToHex_digits(2) [of v] by auto
qed

lemma ValueToString_nonzero: "0 \<notin> set (ValueToString False v)"
  using ValueToString_text [of False v] dec_text_digits [of "nat \<bar>sint v\<bar>"] by (auto simp: dec_digit_def)

lemma conversion_lengths: "length (ValueToHex v) < 100" "length (ValueToString c v) < 100"
  using ValueToHex_digits(3) [of v] ValueToString_text [of c v] by linarith+

text \<open>The interpreter on a piece.\<close>

definition fmt_at :: "'o penv \<Rightarrow> nat \<Rightarrow> u16 list \<Rightarrow> bool" where
  "fmt_at e i xs \<longleftrightarrow> (\<forall>k<length xs. fmt e (i + k) = xs ! k) \<and> fmt e (i + length xs) = 0"

lemma fmt_at_simps [simp]:
  "fmt_at e i [] \<longleftrightarrow> fmt e i = 0"
  "fmt_at e i (x # xs) \<longleftrightarrow> fmt e i = x \<and> fmt_at e (Suc i) xs"
  by (auto simp: fmt_at_def nth_Cons less_Suc_eq_0_disj split: nat.splits)

lemma no_attr: "c \<notin> {0x4E, 0x48, 0x45} \<Longrightarrow> field_attr e c = None"
  by (simp add: field_attr_def)

lemma item_text_step:
  assumes "fmt e i = c" "c \<noteq> 0" "parse_char e c it (i + 1) a = Some (it1, j, b)" "c \<notin> {0x4E, 0x48, 0x45}"
  shows "item_text e it i a = (case Item it1 of Some t \<Rightarrow> Some (item_output it1 t, j, b) | None \<Rightarrow> item_text e it1 j b)"
  using assms no_attr [OF assms(4), of e] by (subst item_text.simps) (simp add: Let_def)

lemma parse_zero: "parse_char e 0x30 it i a = Some (it\<lparr>Pad := 0x30\<rparr>, i, a)"
  by (simp add: parse_char_def)

lemma width_char_props:
  assumes "0 < w" "w < 10"
  shows "0x31 \<le> width_char w" "width_char w \<le> 0x39" "ucast (width_char w) - 0x30 = (of_nat w :: u64)"
proof -
  have "list_all (\<lambda>w. 0x31 \<le> width_char w \<and> width_char w \<le> 0x39 \<and> ucast (width_char w) - 0x30 = (of_nat w :: u64)) [1..<10]"
    by code_simp
  moreover have "w \<in> set [1..<10]" using assms by simp
  ultimately show "0x31 \<le> width_char w" "width_char w \<le> 0x39" "ucast (width_char w) - 0x30 = (of_nat w :: u64)"
    by (simp_all only: list_all_iff)
qed

lemma parse_digit:
  assumes "0 < w" "w < 10" "\<not> is_digit (fmt e i)"
  shows "parse_char e (width_char w) it i a = Some (set_width (of_nat w) it, i, a)"
proof -
  note d = width_char_props [OF assms(1,2)]
  have c: "parse_width (fmt e) i 0 (width_char w) = Some (of_nat w, i)"
    using assms(3) d(3) by (subst parse_width.simps) (simp add: Let_def)
  have "width_char w \<notin> {0x25, 0x30, 0x2D, 0x2C, 0x2E, 0x2A}" using d(1) by auto
  with d c show ?thesis by (simp add: parse_char_def)
qed

lemma zeros_item:
  assumes "0 \<notin> set xs" "length xs < 100" "w < 10"
  shows "item_output (new_item\<lparr>Pad := 0x30, Width := of_nat w\<rparr>) (scratch_text xs) = zeros w xs"
proof -
  have "unat (of_nat w :: u64) = w" using assms(3) by (simp add: unat_of_nat take_bit_nat_eq_self)
  then show ?thesis using item_output_scratch [OF assms(1,2), of "new_item\<lparr>Pad := 0x30, Width := of_nat w\<rparr>"]
    by (simp add: new_item_def zeros_def)
qed

text \<open>A number with a width: zero, digit, conversion.\<close>

lemma item_text_number:
  assumes "fmt e i = 0x30" "fmt e (Suc i) = width_char w" "fmt e (Suc (Suc i)) = c" "0 < w" "w < 10"
    and "c = 0x64 \<and> xs = ValueToString False (scast (ucast (arg_slots e a) :: u32)) \<or>
         c = 0x78 \<and> xs = ValueToHex (ucast (ucast (arg_slots e a) :: u32))"
  shows "item_text e new_item i a = Some (zeros w xs, Suc (Suc (Suc i)), a + 1)"
proof -
  let ?it = "new_item\<lparr>Pad := 0x30, Width := of_nat w\<rparr>"
  have nd: "\<not> is_digit c" using assms(6) by (auto simp: is_digit_def)
  have c0: "width_char w \<noteq> 0" "width_char w \<notin> {0x4E, 0x48, 0x45}" using width_char_props [OF assms(4,5)] by auto
  have p: "parse_char e c ?it j a = Some (scratch xs ?it, j, a + 1)" for j
    using assms(6) by (auto simp: parse_char_def Let_def new_item_def)
  have x: "0 \<notin> set xs" "length xs < 100"
    using assms(6) by (auto simp: ValueToHex_nonzero ValueToString_nonzero conversion_lengths)
  have "item_text e new_item i a = item_text e (new_item\<lparr>Pad := 0x30\<rparr>) (Suc i) a"
    using item_text_step [OF assms(1) _ parse_zero] by (simp add: new_item_def)
  also have "\<dots> = item_text e ?it (Suc (Suc i)) a"
    using item_text_step [OF assms(2) c0(1) parse_digit [OF assms(4,5)] c0(2)] nd assms(3)
    by (simp add: new_item_def set_width_def)
  also have "\<dots> = Some (item_output ?it (scratch_text xs), Suc (Suc (Suc i)), a + 1)"
    using item_text_step [OF assms(3) _ p] assms(6) by (auto simp: scratch_def)
  finally show ?thesis using zeros_item [OF x assms(5)] by simp
qed

lemma item_text_fixhex:
  assumes "fmt e i = 0x58"
  shows "item_text e new_item i a = Some (zeros 8 (ValueToHex (ucast (ucast (arg_slots e a) :: u32))), Suc i, a + 1)"
proof -
  let ?xs = "ValueToHex (ucast (ucast (arg_slots e a) :: u32))"
  have p: "parse_char e 0x58 new_item j a = Some (scratch ?xs (new_item\<lparr>Pad := 0x30, Width := of_nat 8\<rparr>), j, a + 1)" for j
    by (simp add: parse_char_def Let_def new_item_def)
  have "item_text e new_item i a =
      Some (item_output (new_item\<lparr>Pad := 0x30, Width := of_nat 8\<rparr>) (scratch_text ?xs), Suc i, a + 1)"
    using item_text_step [OF assms _ p] by (simp add: scratch_def)
  then show ?thesis using zeros_item [OF ValueToHex_nonzero conversion_lengths(1), of 8] by simp
qed

lemma item_text_char:
  assumes "fmt e i = 0x63"
  shows "item_text e new_item i a = Some (piece_text (arg_slots e a) Chr, Suc i, a + 1)"
proof -
  let ?c = "ucast (arg_slots e a) :: u16"
  have p: "parse_char e 0x63 new_item j a = Some (scratch [?c] new_item, j, a + 1)" for j
    by (simp add: parse_char_def Let_def new_item_def)
  have "scratch_text [?c] = scratch_text (piece_text (arg_slots e a) Chr)"
    by (auto simp: scratch_text_def fun_eq_iff)
  moreover have "item_output new_item (scratch_text (piece_text (arg_slots e a) Chr)) = piece_text (arg_slots e a) Chr"
    by (subst item_output_scratch) (auto simp: new_item_def)
  ultimately show ?thesis
    using item_text_step [OF assms _ p] by (simp add: scratch_def del: piece_text.simps)
qed

text \<open>
  The text of a format made of pieces is the texts of its pieces one after the other, each made of the
  next arguments.
\<close>

lemma format_text_pieces:
  "list_all piece_ok ps \<Longrightarrow> fmt_at e i (concat (map piece_format ps)) \<Longrightarrow>
     format_text e i a = Some (pieces_text (arg_slots e) a ps)"
proof (induction ps arbitrary: i a)
  case Nil
  then show ?case by (subst format_text.simps) simp
next
  case (Cons p ps)
  have item: "format_text e i a = Some (xs @ pieces_text (arg_slots e) b ps)"
    if "fmt e i = 0x25" "item_text e new_item (Suc i) a = Some (xs, j, b)"
      "fmt_at e j (concat (map piece_format ps))" for xs j b
    using that Cons.IH [OF _ that(3), of b] Cons.prems(1) by (subst format_text.simps) (simp add: Let_def)
  show ?case
  proof (cases p)
    case (Lit c)
    with Cons show ?thesis by (subst format_text.simps) (simp add: Let_def)
  next
    case Chr
    with Cons.prems(2) have "fmt e (Suc i) = 0x63" by simp
    from item [OF _ item_text_char [OF this]] Chr Cons.prems(2) show ?thesis by simp
  next
    case (ZDec w)
    let ?xs = "ValueToString False (scast (ucast (arg_slots e a) :: u32))"
    have "item_text e new_item (Suc i) a = Some (zeros w ?xs, Suc (Suc (Suc (Suc i))), a + 1)"
      using Cons.prems ZDec by (intro item_text_number [where c = "0x64"]) simp_all
    from item [OF _ this] ZDec Cons.prems(2) show ?thesis by simp
  next
    case (ZHex w)
    let ?xs = "ValueToHex (ucast (ucast (arg_slots e a) :: u32))"
    have "item_text e new_item (Suc i) a = Some (zeros w ?xs, Suc (Suc (Suc (Suc i))), a + 1)"
      using Cons.prems ZHex by (intro item_text_number [where c = "0x78"]) simp_all
    from item [OF _ this] ZHex Cons.prems(2) show ?thesis by simp
  next
    case FixHex
    with Cons.prems(2) have "fmt e (Suc i) = 0x58" by simp
    from item [OF _ item_text_fixhex [OF this]] FixHex Cons.prems(2) show ?thesis by simp
  qed
qed

lemma scratch_text_at: "fmt e = scratch_text xs \<Longrightarrow> fmt_at e 0 xs"
  by (simp add: fmt_at_def scratch_text_def)

theorem format_of_pieces:
  assumes "list_all piece_ok ps" "fmt e = pieces_format ps"
  shows "format_text e 0 0 = Some (pieces_text (arg_slots e) 0 ps)"
  by (rule format_text_pieces [OF assms(1)]) (rule scratch_text_at, simp add: assms(2) pieces_format_def)

text \<open>Printing such a format into a buffer without a limit, as the conversions of the library do.\<close>

lemma newlines_id: "0x0A \<notin> set xs \<Longrightarrow> newlines xs = xs"
  by (induction xs) auto

definition arg_list :: "u64 list \<Rightarrow> nat \<Rightarrow> u64" where
  "arg_list vs i = (if i < length vs then vs ! i else 0)"

lemma SPrint_pieces:
  assumes "list_all piece_ok ps" "f = pieces_format ps" "pieces_text as 0 ps = xs" "0x0A \<notin> set xs" "length xs < 1000"
  shows "SPrint Str 0 f as m cv cells = Some (length xs, store_text cells Str xs)"
proof -
  have "format_text (pool_env SPrint_out f as m cv) 0 0 = Some xs"
    using format_text_pieces [OF assms(1), of "pool_env SPrint_out f as m cv" 0 0] assms(2,3)
      scratch_text_at [of "pool_env SPrint_out f as m cv" "concat (map piece_format ps)"]
    by (simp add: pieces_format_def pool_env_def)
  moreover have "unat ((0 :: u64) div 2 - 1) = 18446744073709551615" by (simp add: unat_minus_one_u64)
  ultimately show ?thesis
    using VSPrint_cells [of f as m cv xs 0 18446744073709551615 Str cells] newlines_id [OF assms(4)] assms(5)
    by (simp add: SPrint_def min_def)
qed

subsection \<open>Times\<close>

record EFI_TIME =
  Year :: u16
  Month :: u8
  Day :: u8
  Hour :: u8
  Minute :: u8
  Second :: u8
  Pad1 :: u8
  Nanosecond :: u32
  TimeZone :: u16
  Daylight :: u8
  Pad2 :: u8

definition wide :: "string \<Rightarrow> u16 list" where "wide cs = map of_char cs"

definition TimeToString ::
  "nat \<Rightarrow> EFI_TIME \<Rightarrow> mem \<Rightarrow> conversions \<Rightarrow> cells16 \<Rightarrow> cells16 option" where
  "TimeToString buf Time m cv cells =
     (let AmPm = 0x61 :: u64;
          h = ucast (Hour Time) :: u64;
          (h, AmPm) = (if Hour Time = 0 then (12, AmPm)
            else if Hour Time \<ge> 12 then (if Hour Time \<ge> 13 then h - 12 else h, 0x70) else (h, AmPm));
          y = ucast (Year Time) mod 100 :: u64
      in map_option snd (SPrint buf 0 (scratch_text (wide ''%02d/%02d/%02d  %02d:%02d%c''))
           (arg_list [ucast (Month Time), ucast (Day Time), y, h, ucast (Minute Time), AmPm]) m cv cells))"

definition time_pieces :: "piece list" where
  "time_pieces = [ZDec 2, Lit 0x2F, ZDec 2, Lit 0x2F, ZDec 2, Lit 0x20, Lit 0x20, ZDec 2, Lit 0x3A, ZDec 2, Chr]"

lemma time_pieces_text:
  "pieces_text as 0 time_pieces = piece_text (as 0) (ZDec 2) @ [0x2F] @ piece_text (as 1) (ZDec 2) @ [0x2F] @
     piece_text (as 2) (ZDec 2) @ [0x20, 0x20] @ piece_text (as 3) (ZDec 2) @ [0x3A] @
     piece_text (as 4) (ZDec 2) @ piece_text (as 5) Chr"
  by (simp add: time_pieces_def numeral_eq_Suc del: piece_text.simps(2-5))

lemma time_format: "scratch_text (wide ''%02d/%02d/%02d  %02d:%02d%c'') = pieces_format time_pieces"
proof -
  have "wide ''%02d/%02d/%02d  %02d:%02d%c'' = concat (map piece_format time_pieces)" by code_simp
  then show ?thesis by (simp add: pieces_format_def)
qed

text \<open>Two digits, and more when they are needed.\<close>

definition two :: "nat \<Rightarrow> u16 list" where "two n = zeros 2 (dec_text n)"

lemma small_decimal:
  assumes "unat v < 1000"
  shows "piece_text v (ZDec 2) = two (unat v)"
proof -
  have u: "unat (ucast v :: u32) = unat v" using assms by (simp add: unsigned_ucast_eq take_bit_nat_eq_self)
  then have i: "uint (ucast v :: u32) = int (unat v)" by (metis uint_nat)
  have b: "- (2 ^ (LENGTH(32) - Suc 0)) \<le> int n \<and> int n < 2 ^ (LENGTH(32) - Suc 0)" if "n < 1000" for n
    using that by simp
  have "sint (ucast v :: u32) = int (unat v)"
    unfolding sint_uint i using b [OF assms] by (intro signed_take_bit_int_eq_self) blast+
  then have "sint (scast (ucast v :: u32) :: u64) = int (unat v)" by (subst sint_up_scast) (simp_all add: is_up)
  then show ?thesis using ValueToString_text [of False "scast (ucast v :: u32)"] by (simp add: two_def)
qed

lemma two_chars:
  assumes "n < 100"
  shows "length (two n) = 2" "0x0A \<notin> set (two n)" "list_all dec_digit (two n)"
proof -
  have l: "length (dec_text n) \<le> 2" using assms dec_text_length [of 2 n] by simp
  have z: "dec_digit 0x30" "\<not> dec_digit 0x0A" by (simp_all add: dec_digit_def)
  show d: "list_all dec_digit (two n)" using dec_text_digits [of n] z by (auto simp: two_def zeros_def list_all_iff)
  show "length (two n) = 2" using l by (simp add: two_def zeros_def)
  show "0x0A \<notin> set (two n)" using d z by (auto simp: list_all_iff)
qed

definition hour12 :: "nat \<Rightarrow> nat" where "hour12 h = (if h mod 12 = 0 then 12 else h mod 12)"

definition time_text :: "EFI_TIME \<Rightarrow> u16 list" where
  "time_text Time = two (unat (Month Time)) @ [0x2F] @ two (unat (Day Time)) @ [0x2F] @
     two (unat (Year Time) mod 100) @ [0x20, 0x20] @ two (hour12 (unat (Hour Time))) @ [0x3A] @
     two (unat (Minute Time)) @ [if unat (Hour Time) < 12 then 0x61 else 0x70]"

definition valid_time :: "EFI_TIME \<Rightarrow> bool" where
  "valid_time Time \<longleftrightarrow> unat (Month Time) < 100 \<and> unat (Day Time) < 100 \<and> unat (Hour Time) < 24 \<and> unat (Minute Time) < 100"

lemma TimeToString_put:
  assumes "valid_time Time"
  shows "TimeToString buf Time m cv cells = Some (store_text cells buf (time_text Time))"
proof -
  let ?h = "unat (Hour Time)"
  let ?slot = "if Hour Time = 0 then 12 else if Hour Time \<ge> 13 then ucast (Hour Time) - 12 else ucast (Hour Time) :: u64"
  let ?ap = "if Hour Time \<ge> 12 then 0x70 else 0x61 :: u64"
  let ?as = "arg_list [ucast (Month Time), ucast (Day Time), ucast (Year Time) mod 100, ?slot, ucast (Minute Time), ?ap]"
  have u8: "unat (ucast b :: u64) = unat b" for b :: u8 by (rule unat_ucast_up) simp
  have u16: "unat (ucast b :: u64) = unat b" for b :: u16 by (rule unat_ucast_up) simp
  have h: "?h < 24" using assms by (simp add: valid_time_def)
  have slot: "unat ?slot = hour12 ?h"
  proof (cases "Hour Time \<ge> 13")
    case True
    then have "13 \<le> ?h" by (simp add: word_le_nat_alt)
    moreover from True have "Hour Time \<noteq> 0" by auto
    moreover have "unat (ucast (Hour Time) - 12 :: u64) = ?h - 12"
      using \<open>13 \<le> ?h\<close> u8 [of "Hour Time"] by (subst unat_sub) (simp_all add: word_le_nat_alt)
    moreover have "?h mod 12 = ?h - 12" using h \<open>13 \<le> ?h\<close> by (simp add: mod_if)
    ultimately show ?thesis using True by (simp add: hour12_def)
  next
    case False
    then have "?h < 13" by (simp add: word_le_nat_alt)
    moreover have "?h = 0 \<longleftrightarrow> Hour Time = 0" by (simp add: unat_eq_zero)
    ultimately show ?thesis using False u8 [of "Hour Time"] by (auto simp: hour12_def mod_if)
  qed
  have y: "unat (ucast (Year Time) mod 100 :: u64) = unat (Year Time) mod 100" by (simp add: unat_mod u16)
  have h12: "hour12 ?h < 100" using mod_less_divisor [of 12 ?h] unfolding hour12_def by (simp del: mod_less_divisor)
  have ap: "(ucast ?ap :: u16) = (if ?h < 12 then 0x61 else 0x70)" by (simp add: word_le_nat_alt)
  have t: "pieces_text ?as 0 time_pieces = time_text Time"
  proof -
    have a: "?as 0 = ucast (Month Time)" "?as 1 = ucast (Day Time)" "?as 2 = ucast (Year Time) mod 100"
      "?as 3 = ?slot" "?as 4 = ucast (Minute Time)" "?as 5 = ?ap"
      by (simp_all only: arg_list_def) simp_all
    have "piece_text (ucast b) (ZDec 2) = two (unat b)" for b :: u8
    proof -
      have "unat (ucast b :: u64) < 1000" using unat8_lt [of b] unfolding u8 by linarith
      from small_decimal [OF this] show ?thesis unfolding u8 .
    qed
    moreover have "piece_text (ucast (Year Time) mod 100) (ZDec 2) = two (unat (Year Time) mod 100)"
      using small_decimal [of "ucast (Year Time) mod 100"] unfolding y by simp
    moreover have "piece_text ?slot (ZDec 2) = two (hour12 ?h)"
      using small_decimal [of ?slot] h12 unfolding slot by simp
    moreover have "piece_text ?ap Chr = [if ?h < 12 then 0x61 else 0x70]" unfolding piece_text.simps ap by simp
    ultimately show ?thesis unfolding time_pieces_text a time_text_def by simp
  qed
  have "0x0A \<notin> set (time_text Time)" "length (time_text Time) < 1000"
    using assms h12 by (simp_all add: time_text_def valid_time_def two_chars)
  from SPrint_pieces [OF _ time_format t this, of buf m cv cells]
  have "SPrint buf 0 (scratch_text (wide ''%02d/%02d/%02d  %02d:%02d%c'')) ?as m cv cells =
      Some (length (time_text Time), store_text cells buf (time_text Time))"
    by (simp add: time_pieces_def)
  moreover have "13 \<le> Hour Time \<longrightarrow> 12 \<le> Hour Time" "12 \<le> Hour Time \<longrightarrow> Hour Time \<noteq> 0"
    by (auto simp: word_le_nat_alt)
  then have "(if Hour Time = 0 then (12, 0x61) else if Hour Time \<ge> 12
      then (if Hour Time \<ge> 13 then ucast (Hour Time) - 12 else ucast (Hour Time), 0x70)
      else (ucast (Hour Time), 0x61)) = (?slot, ?ap)" by auto
  ultimately show ?thesis unfolding TimeToString_def Let_def by simp
qed

text \<open>
  A valid time is printed as month, day, year of the century, hour on a clock of twelve hours, minute and
  \<open>a\<close> or \<open>p\<close>, with a terminator behind it.
\<close>

theorem TimeToString_text:
  assumes "valid_time Time"
  shows "TimeToString buf Time m cv cells = Some (store_text cells buf (time_text Time)) \<and>
    held (store_text cells buf (time_text Time)) buf (time_text Time) \<and> length (time_text Time) = 16"
proof -
  have "hour12 (unat (Hour Time)) < 100" by (simp add: hour12_def less_trans [OF mod_less_divisor])
  with assms TimeToString_put [OF assms] store_text_holds show ?thesis
    by (simp add: time_text_def valid_time_def two_chars)
qed

theorem TimeToString_text_witness:
  "TimeToString 5 \<lparr>Year = 2021, Month = 7, Day = 4, Hour = 15, Minute = 30, Second = 0, Pad1 = 0,
      Nanosecond = 0, TimeZone = 0, Daylight = 0, Pad2 = 0\<rparr> (\<lambda>_. 0) no_conv (\<lambda>_. 9) =
    Some (store_text (\<lambda>_. 9) 5 (wide ''07/04/21  03:30p''))"
proof -
  let ?t = "\<lparr>Year = 2021, Month = 7, Day = 4, Hour = 15, Minute = 30, Second = 0, Pad1 = 0,
      Nanosecond = 0, TimeZone = 0, Daylight = 0, Pad2 = 0\<rparr>"
  have "valid_time ?t" "time_text ?t = wide ''07/04/21  03:30p''" by code_simp+
  with TimeToString_text [of ?t 5 "\<lambda>_. 0" no_conv "\<lambda>_. 9"] show ?thesis by simp
qed

lemma digits_value_zeros: "f 0x30 = 0 \<Longrightarrow> digits_value b f 0 (zeros w xs) = digits_value b f 0 xs"
proof -
  assume "f 0x30 = 0"
  then have "digits_value b f 0 (replicate k 0x30) = 0" for k by (induction k) (simp_all add: digits_value_def)
  then show ?thesis by (simp add: zeros_def digits_value_append)
qed

lemma two_inj: "two a = two b \<Longrightarrow> a = b"
proof -
  have z: "dec_value 0x30 = 0" by code_simp
  have "digits_value 10 dec_value 0 (two n) = n" for n
    using dec_text_digits [of n] by (simp add: two_def digits_value_zeros [of dec_value, OF z])
  then show "two a = two b \<Longrightarrow> a = b" by metis
qed

lemma two_append: "a < 100 \<Longrightarrow> b < 100 \<Longrightarrow> two a @ xs = two b @ ys \<longleftrightarrow> a = b \<and> xs = ys"
  using two_inj [of a b] two_chars(1) by (auto simp: append_eq_append_conv)

lemma hour12_inj:
  "h < 24 \<Longrightarrow> k < 24 \<Longrightarrow> hour12 h = hour12 k \<Longrightarrow> (h < 12) = (k < 12) \<Longrightarrow> h = k"
proof -
  have "list_all (\<lambda>h. list_all (\<lambda>k. hour12 h = hour12 k \<and> (h < 12) = (k < 12) \<longrightarrow> h = k) [0..<24]) [0..<24]"
    by code_simp
  then show "h < 24 \<Longrightarrow> k < 24 \<Longrightarrow> hour12 h = hour12 k \<Longrightarrow> (h < 12) = (k < 12) \<Longrightarrow> h = k"
    by (simp add: list_all_iff del: upt_rec_numeral)
qed

text \<open>Times with the same text differ at most in the century, the seconds and what is below.\<close>

lemma time_text_inj:
  assumes "valid_time s" "valid_time t" "time_text s = time_text t"
  shows "Month s = Month t \<and> Day s = Day t \<and> unat (Year s) mod 100 = unat (Year t) mod 100 \<and>
    Hour s = Hour t \<and> Minute s = Minute t"
proof -
  have h: "hour12 h < 100" for h by (simp add: hour12_def less_trans [OF mod_less_divisor])
  note v = assms(1,2) [unfolded valid_time_def]
  have m: "unat (Year s) mod 100 < 100" "unat (Year t) mod 100 < 100" by simp_all
  have e: "unat (Month s) = unat (Month t) \<and> unat (Day s) = unat (Day t) \<and>
    unat (Year s) mod 100 = unat (Year t) mod 100 \<and> hour12 (unat (Hour s)) = hour12 (unat (Hour t)) \<and>
    unat (Minute s) = unat (Minute t) \<and>
    (if unat (Hour s) < 12 then 0x61 else 0x70 :: u16) = (if unat (Hour t) < 12 then 0x61 else 0x70)"
    using assms(3) v h m unfolding time_text_def by (simp only: two_append append_Cons append_Nil list.inject simp_thms)
  from e have "(if unat (Hour s) < 12 then 0x61 else 0x70 :: u16) = (if unat (Hour t) < 12 then 0x61 else 0x70)"
    by blast
  then have ap: "(unat (Hour s) < 12) = (unat (Hour t) < 12)"
    by (cases "unat (Hour s) < 12"; cases "unat (Hour t) < 12") simp_all
  from v have b: "unat (Hour s) < 24" "unat (Hour t) < 24" by blast+
  from e have "hour12 (unat (Hour s)) = hour12 (unat (Hour t))" by blast
  from hour12_inj [OF b this ap] have "Hour s = Hour t" by (simp add: word_unat_eq_iff)
  moreover from e have "Month s = Month t" "Day s = Day t" "Minute s = Minute t"
    unfolding word_unat_eq_iff by blast+
  moreover from e have "unat (Year s) mod 100 = unat (Year t) mod 100" by blast
  ultimately show ?thesis by blast
qed

end
