(* ===== verification/EfiGuid.thy ===== *)
theory EfiGuid
  imports EfiText EfiReloc
begin

section \<open>Status codes and GUIDs as text (gnu-efi/lib: error.c, guid.c)\<close>

text \<open>
  The tables of the status codes and of the GUIDs that the library knows, the text of what is in them,
  and the text of what is not.
\<close>

subsection \<open>Status codes\<close>

definition ErrorCodeTable :: "(u64 \<times> u16 list) list" where
  "ErrorCodeTable = [
   (0, wide ''Success''), (EFIERR 1, wide ''Load Error''), (EFIERR 2, wide ''Invalid Parameter''),
   (EFIERR 3, wide ''Unsupported''), (EFIERR 4, wide ''Bad Buffer Size''),
   (EFIERR 5, wide ''Buffer Too Small''), (EFIERR 6, wide ''Not Ready''),
   (EFIERR 7, wide ''Device Error''), (EFIERR 8, wide ''Write Protected''),
   (EFIERR 9, wide ''Out of Resources''), (EFIERR 10, wide ''Volume Corrupt''),
   (EFIERR 11, wide ''Volume Full''), (EFIERR 12, wide ''No Media''),
   (EFIERR 13, wide ''Media changed''), (EFIERR 14, wide ''Not Found''),
   (EFIERR 15, wide ''Access Denied''), (EFIERR 16, wide ''No Response''),
   (EFIERR 17, wide ''No mapping''), (EFIERR 18, wide ''Time out''), (EFIERR 19, wide ''Not started''),
   (EFIERR 20, wide ''Already started''), (EFIERR 21, wide ''Aborted''),
   (EFIERR 22, wide ''ICMP Error''), (EFIERR 23, wide ''TFTP Error''),
   (EFIERR 24, wide ''Protocol Error''), (EFIERR 25, wide ''Incompatible Version''),
   (EFIERR 26, wide ''Security Policy Violation''), (EFIERR 27, wide ''CRC Error''),
   (EFIERR 28, wide ''End of Media''), (EFIERR 31, wide ''End of File''),
   (EFIERR 32, wide ''Invalid Languages''), (EFIERR 33, wide ''Compromised Data''),
   (1, wide ''Warning Unknown Glyph''), (2, wide ''Warning Delete Failure''),
   (3, wide ''Warning Write Failure''), (4, wide ''Warning Buffer Too Small'')]"

text \<open>A known code is copied with \<open>StrCpy\<close>, an unknown one is printed.\<close>

definition StatusToString ::
  "nat \<Rightarrow> u64 \<Rightarrow> mem \<Rightarrow> conversions \<Rightarrow> cells16 \<Rightarrow> cells16 option" where
  "StatusToString buf Status m cv cells =
     (case List.find (\<lambda>r. fst r = Status) ErrorCodeTable of
        Some r \<Rightarrow> Some (store_text cells buf (snd r))
      | None \<Rightarrow> map_option snd (SPrint buf 0 (scratch_text (wide ''%X'')) (arg_list [Status]) m cv cells))"

subsection \<open>GUIDs\<close>

text \<open>\<open>Data4\<close> has 8 bytes. \<open>RtCompareGuid\<close> reads a GUID as four 32-bit words of little-endian bytes.\<close>

datatype EFI_GUID = Guid (Data1: u32) (Data2: u16) (Data3: u16) (Data4: "u8 list")

definition guid_ok :: "EFI_GUID \<Rightarrow> bool" where "guid_ok g \<longleftrightarrow> length (Data4 g) = 8"

definition guid_words :: "EFI_GUID \<Rightarrow> u32 \<times> u32 \<times> u32 \<times> u32" where
  "guid_words g = (Data1 g, or (ucast (Data2 g)) (push_bit 16 (ucast (Data3 g))),
     le_word (take 4 (Data4 g)), le_word (drop 4 (Data4 g)))"

definition CompareGuid :: "EFI_GUID \<Rightarrow> EFI_GUID \<Rightarrow> int" where
  "CompareGuid g1 g2 = RtCompareGuid (guid_words g1) (guid_words g2)"

definition KnownGuids :: "(EFI_GUID \<times> u16 list) list" where
  "KnownGuids = [
   (Guid 0x00000000 0x0000 0x0000 [0x00, 0x00, 0x00, 0x00, 0x00, 0x00, 0x00, 0x00], wide ''G0''),
   (Guid 0x8BE4DF61 0x93CA 0x11D2 [0xAA, 0x0D, 0x00, 0xE0, 0x98, 0x03, 0x2B, 0x8C], wide ''EfiVar''),
   (Guid 0xF088CD91 0xA046 0x11D2 [0x8E, 0x42, 0x00, 0xA0, 0xC9, 0x69, 0x72, 0x3B], wide ''VarStore''),
   (Guid 0x09576E91 0x6D3F 0x11D2 [0x8E, 0x39, 0x00, 0xA0, 0xC9, 0x69, 0x72, 0x3B], wide ''DevPath''),
   (Guid 0x5B1B31A1 0x9562 0x11D2 [0x8E, 0x3F, 0x00, 0xA0, 0xC9, 0x69, 0x72, 0x3B], wide ''LdImg''),
   (Guid 0x387477C1 0x69C7 0x11D2 [0x8E, 0x39, 0x00, 0xA0, 0xC9, 0x69, 0x72, 0x3B], wide ''TxtIn''),
   (Guid 0x387477C2 0x69C7 0x11D2 [0x8E, 0x39, 0x00, 0xA0, 0xC9, 0x69, 0x72, 0x3B], wide ''TxtOut''),
   (Guid 0x964E5B21 0x6459 0x11D2 [0x8E, 0x39, 0x00, 0xA0, 0xC9, 0x69, 0x72, 0x3B], wide ''BlkIo''),
   (Guid 0xA77B2472 0xE282 0x4E9F [0xA2, 0x45, 0xC2, 0xC0, 0xE2, 0x7B, 0xBC, 0xC1], wide ''BlkIo2''),
   (Guid 0xCE345171 0xBA0B 0x11D2 [0x8E, 0x4F, 0x00, 0xA0, 0xC9, 0x69, 0x72, 0x3B], wide ''DskIo''),
   (Guid 0x151C8EAE 0x7F2C 0x472C [0x9E, 0x54, 0x98, 0x28, 0x19, 0x4F, 0x6A, 0x88], wide ''DskIo2''),
   (Guid 0x964E5B22 0x6459 0x11D2 [0x8E, 0x39, 0x00, 0xA0, 0xC9, 0x69, 0x72, 0x3B], wide ''Fs''),
   (Guid 0x56EC3091 0x954C 0x11D2 [0x8E, 0x3F, 0x00, 0xA0, 0xC9, 0x69, 0x72, 0x3B], wide ''LdFile''),
   (Guid 0xAF6AC311 0x84C3 0x11D2 [0x8E, 0x3C, 0x00, 0xA0, 0xC9, 0x69, 0x72, 0x3B], wide ''DevIo''),
   (Guid 0x107A772C 0xD5E1 0x11D4 [0x9A, 0x46, 0x00, 0x90, 0x27, 0x3F, 0xC1, 0x4D], wide ''CName''),
   (Guid 0x6A7A5CFF 0xE8D9 0x4F70 [0xBA, 0xDA, 0x75, 0xAB, 0x30, 0x25, 0xCE, 0x14], wide ''CName2''),
   (Guid 0x09576E92 0x6D3F 0x11D2 [0x8E, 0x39, 0x00, 0xA0, 0xC9, 0x69, 0x72, 0x3B], wide ''FileInfo''),
   (Guid 0x09576E93 0x6D3F 0x11D2 [0x8E, 0x39, 0x00, 0xA0, 0xC9, 0x69, 0x72, 0x3B], wide ''FsInfo''),
   (Guid 0xDB47D7D3 0xFE81 0x11D3 [0x9A, 0x35, 0x00, 0x90, 0x27, 0x3F, 0xC1, 0x4D], wide ''FsVolInfo''),
   (Guid 0x1D85CD7F 0xF43D 0x11D2 [0x9A, 0x0C, 0x00, 0x90, 0x27, 0x3F, 0xC1, 0x4D], wide ''Unicode''),
   (Guid 0x376E5EB2 0x30E4 0x11D3 [0xBA, 0xE5, 0x00, 0x80, 0xC7, 0x3C, 0x88, 0x81], wide ''LegacyBoot''),
   (Guid 0xBB25CF6F 0xF1D4 0x11D2 [0x9A, 0x0C, 0x00, 0x90, 0x27, 0x3F, 0xC1, 0xFD], wide ''SerIo''),
   (Guid 0x0E3D6310 0x6FE4 0x11D3 [0xBB, 0x81, 0x00, 0x80, 0xC7, 0x3C, 0x88, 0x81], wide ''VgaClass''),
   (Guid 0xA19832B9 0xAC25 0x11D3 [0x9A, 0x2D, 0x00, 0x90, 0x27, 0x3F, 0xC1, 0x4D], wide ''Net''),
   (Guid 0xE18541CD 0xF755 0x4F73 [0x92, 0x8D, 0x64, 0x3C, 0x8A, 0x79, 0xB2, 0x29], wide ''Nii''),
   (Guid 0x03C4E603 0xAC28 0x11D3 [0x9A, 0x2D, 0x00, 0x90, 0x27, 0x3F, 0xC1, 0x4D], wide ''Pxe''),
   (Guid 0x245DCA21 0xFB7B 0x11D3 [0x8F, 0x01, 0x00, 0xA0, 0xC9, 0x69, 0x72, 0x3B], wide ''PxeCb''),
   (Guid 0x56D830A0 0x7E7A 0x11D3 [0xBB, 0xA0, 0x00, 0xA0, 0xC9, 0x69, 0x72, 0x3B], wide ''TxtOutSplit''),
   (Guid 0xF0BA9039 0x68F1 0x425E [0xAA, 0x7F, 0xD9, 0xAA, 0xF9, 0x1B, 0x82, 0xA1], wide ''ErrOutSplit''),
   (Guid 0xF9A3C550 0x7FB5 0x11D3 [0xBB, 0xA0, 0x00, 0xA0, 0xC9, 0x69, 0x72, 0x3B], wide ''TxtInSplit''),
   (Guid 0xE0C14753 0xF9BE 0x11D2 [0x9A, 0x0C, 0x00, 0x90, 0x27, 0x3F, 0xC1, 0x4D], wide ''PcAnsi''),
   (Guid 0xDFA66065 0xB419 0x11D3 [0x9A, 0x2D, 0x00, 0x90, 0x27, 0x3F, 0xC1, 0x4D], wide ''Vt100''),
   (Guid 0x7BAEC70B 0x57E0 0x4C76 [0x8E, 0x87, 0x2F, 0x9E, 0x28, 0x08, 0x83, 0x43], wide ''Vt100Plus''),
   (Guid 0xAD15A0D6 0x8BEC 0x4ACF [0xA0, 0x73, 0xD0, 0x1D, 0xE7, 0x7E, 0x2D, 0x88], wide ''VtUtf8''),
   (Guid 0xCF31FAC5 0xC24E 0x11D2 [0x85, 0xF3, 0x00, 0xA0, 0xC9, 0x3E, 0xC9, 0x3B], wide ''UnknownDev''),
   (Guid 0xC12A7328 0xF81F 0x11D2 [0xBA, 0x4B, 0x00, 0xA0, 0xC9, 0x3E, 0xC9, 0x3B], wide ''ESP''),
   (Guid 0x024DEE41 0x33E7 0x11D3 [0x9D, 0x69, 0x00, 0x08, 0xC7, 0x81, 0xF3, 0x9F], wide ''GPT MBR''),
   (Guid 0x47C7B223 0xC42A 0x11D2 [0x8E, 0x57, 0x00, 0xA0, 0xC9, 0x69, 0x72, 0x3B], wide ''ShellInt''),
   (Guid 0x47C7B224 0xC42A 0x11D2 [0x8E, 0x57, 0x00, 0xA0, 0xC9, 0x69, 0x72, 0x3B], wide ''SEnv''),
   (Guid 0x47C7B226 0xC42A 0x11D2 [0x8E, 0x57, 0x00, 0xA0, 0xC9, 0x69, 0x72, 0x3B], wide ''ShellProtId''),
   (Guid 0x47C7B225 0xC42A 0x11D2 [0x8E, 0x57, 0x00, 0xA0, 0xC9, 0x69, 0x72, 0x3B], wide ''ShellDevPathMap''),
   (Guid 0x47C7B227 0xC42A 0x11D2 [0x8E, 0x57, 0x00, 0xA0, 0xC9, 0x69, 0x72, 0x3B], wide ''ShellAlias'')]"

definition guid_format :: "u16 list" where
  "guid_format = wide ''%08x-%04x-%04x-%02x%02x-%02x%02x%02x%02x%02x%02x''"

definition GuidToString ::
  "nat \<Rightarrow> EFI_GUID \<Rightarrow> mem \<Rightarrow> conversions \<Rightarrow> cells16 \<Rightarrow> cells16 option" where
  "GuidToString buf g m cv cells =
     (case List.find (\<lambda>k. CompareGuid g (fst k) = 0) KnownGuids of
        Some k \<Rightarrow> map_option snd (SPrint buf 0 (scratch_text (snd k)) (arg_list []) m cv cells)
      | None \<Rightarrow> map_option snd (SPrint buf 0 (scratch_text guid_format)
          (arg_list ([ucast (Data1 g), ucast (Data2 g), ucast (Data3 g)] @ map ucast (Data4 g))) m cv cells))"

subsection \<open>The text of a status code\<close>

definition status_text :: "u64 \<Rightarrow> u16 list" where
  "status_text s = (case map_of ErrorCodeTable s of Some d \<Rightarrow> d
     | None \<Rightarrow> zeros 8 (ValueToHex (ucast (ucast s :: u32))))"

lemma find_map_of: "List.find (\<lambda>r. fst r = x) ps = map_option (\<lambda>y. (x, y)) (map_of ps x)"
  by (induction ps) auto

lemma ValueToHex_no_newline: "0x0A \<notin> set (ValueToHex v)"
proof -
  have "\<not> hex_digit 0x0A" by code_simp
  then show ?thesis using ValueToHex_digits(2) [of v] by auto
qed

lemma zeros_props:
  "set (zeros w xs) \<subseteq> insert 0x30 (set xs)" "length (zeros w xs) = max w (length xs)"
  by (auto simp: zeros_def)

lemma StatusToString_put:
  "StatusToString buf s m cv cells = Some (store_text cells buf (status_text s))"
proof (cases "map_of ErrorCodeTable s")
  case None
  let ?t = "zeros 8 (ValueToHex (ucast (ucast s :: u32)))"
  have f: "scratch_text (wide ''%X'') = pieces_format [FixHex]"
  proof -
    have "wide ''%X'' = concat (map piece_format [FixHex])" by code_simp
    then show ?thesis by (simp add: pieces_format_def)
  qed
  have "0x0A \<notin> set ?t" "length ?t < 1000"
    using zeros_props [of 8 "ValueToHex (ucast (ucast s :: u32))"] ValueToHex_no_newline
      conversion_lengths(1) [of "ucast (ucast s :: u32)"] by auto
  from SPrint_pieces [OF _ f _ this, of "arg_list [s]" buf m cv cells] None show ?thesis
    by (simp add: StatusToString_def find_map_of status_text_def arg_list_def)
qed (simp add: StatusToString_def find_map_of status_text_def)

lemma ErrorCodeTable_distinct: "distinct (map fst ErrorCodeTable)" "distinct (map snd ErrorCodeTable)"
  by code_simp+

lemma map_of_inj:
  "distinct (map snd ps) \<Longrightarrow> map_of ps a = Some d \<Longrightarrow> map_of ps b = Some d \<Longrightarrow> a = b"
proof -
  assume d: "distinct (map snd ps)" "map_of ps a = Some d" "map_of ps b = Some d"
  then have "(a, d) \<in> set ps" "(b, d) \<in> set ps" by (simp_all add: map_of_SomeD)
  with d(1) show "a = b" unfolding distinct_map inj_on_def by (metis fst_conv snd_conv)
qed

text \<open>
  Every status code has its text in the buffer; the codes of the table have different texts, and of any
  other code only the low 32 bits are printed.
\<close>

theorem StatusToString_text:
  "StatusToString buf s m cv cells = Some (store_text cells buf (status_text s)) \<and>
   held (store_text cells buf (status_text s)) buf (status_text s) \<and>
   (s \<in> dom (map_of ErrorCodeTable) \<longrightarrow> t \<in> dom (map_of ErrorCodeTable) \<longrightarrow>
     status_text s = status_text t \<longrightarrow> s = t) \<and>
   (s \<notin> dom (map_of ErrorCodeTable) \<longrightarrow> t \<notin> dom (map_of ErrorCodeTable) \<longrightarrow>
     ucast s = (ucast t :: u32) \<longrightarrow> status_text s = status_text t)"
  using StatusToString_put store_text_holds map_of_inj [OF ErrorCodeTable_distinct(2)]
  by (auto simp: status_text_def)

subsection \<open>Comparison of GUIDs\<close>

lemma RtCompareGuid_zero: "RtCompareGuid g h = 0 \<longleftrightarrow> g = h"
proof -
  have s: "sint r = 0 \<longleftrightarrow> r = 0" for r :: u32
    by (metis signed_0 signed_word_eqI)
  show ?thesis by (cases g; cases h) (auto simp: RtCompareGuid_def Let_def s or_eq_0_iff)
qed

lemma le_word_inj:
  assumes "length bs = n" "length cs = n" "8 * n \<le> LENGTH('a)" "le_word bs = (le_word cs :: 'a::len word)"
  shows "bs = cs"
  using le_bytes_le_word [OF assms(1,3)] le_bytes_le_word [OF assms(2,3)] assms(4) by metis

lemma u16_halves:
  fixes a b :: u16
  defines "w \<equiv> or (ucast a) (push_bit 16 (ucast b)) :: u32"
  shows "ucast w = a" "ucast (drop_bit 16 w) = b"
proof -
  have "\<not> bit a (16 + n)" for n by (auto dest: bit_imp_le_length)
  then show "ucast w = a" "ucast (drop_bit 16 w) = b"
    by (auto intro!: bit_word_eqI simp: w_def bit_simps)
qed

lemma CompareGuid_zero:
  assumes "guid_ok g" "guid_ok h"
  shows "CompareGuid g h = 0 \<longleftrightarrow> g = h"
proof
  assume "CompareGuid g h = 0"
  then have e: "guid_words g = guid_words h" by (simp add: CompareGuid_def RtCompareGuid_zero)
  then have "Data1 g = Data1 h" by (simp add: guid_words_def)
  moreover have "Data2 g = Data2 h" "Data3 g = Data3 h"
    using e u16_halves [of "Data2 g" "Data3 g"] u16_halves [of "Data2 h" "Data3 h"] by (simp_all add: guid_words_def)
  moreover have "take 4 (Data4 g) = take 4 (Data4 h)" "drop 4 (Data4 g) = drop 4 (Data4 h)"
    using e assms by (auto simp: guid_words_def guid_ok_def intro: le_word_inj [where 'a = 32 and n = 4])
  then have "Data4 g = Data4 h" by (metis append_take_drop_id)
  ultimately show "g = h" by (simp add: EFI_GUID.expand)
qed (simp add: CompareGuid_def RtCompareGuid_zero)

subsection \<open>The text of a GUID\<close>

definition hexa :: "nat \<Rightarrow> 'a::len word \<Rightarrow> u16 list" where
  "hexa w v = zeros w (ValueToHex (ucast v))"

definition guid_dump :: "EFI_GUID \<Rightarrow> u16 list" where
  "guid_dump g = hexa 8 (Data1 g) @ [0x2D] @ hexa 4 (Data2 g) @ [0x2D] @ hexa 4 (Data3 g) @ [0x2D] @
     concat (map (hexa 2) (take 2 (Data4 g))) @ [0x2D] @ concat (map (hexa 2) (drop 2 (Data4 g)))"

definition guid_text :: "EFI_GUID \<Rightarrow> u16 list" where
  "guid_text g = (case map_of KnownGuids g of Some n \<Rightarrow> n | None \<Rightarrow> guid_dump g)"

lemma KnownGuids_ok: "list_all (\<lambda>k. guid_ok (fst k)) KnownGuids" "distinct (map snd KnownGuids)"
  "list_all (\<lambda>k. list_all (\<lambda>c. c \<notin> {0, 0x25, 0x0A}) (snd k) \<and> length (snd k) < 36) KnownGuids"
  by code_simp+

lemma find_guid:
  assumes "guid_ok g"
  shows "List.find (\<lambda>k. CompareGuid g (fst k) = 0) KnownGuids = map_option (\<lambda>n. (g, n)) (map_of KnownGuids g)"
proof -
  have "List.find (\<lambda>k. CompareGuid g (fst k) = 0) ps = List.find (\<lambda>k. fst k = g) ps"
    if "list_all (\<lambda>k. guid_ok (fst k)) ps" for ps
    using that by (induction ps) (auto simp: CompareGuid_zero [OF assms])
  with KnownGuids_ok(1) show ?thesis by (simp add: find_map_of)
qed

definition guid_pieces :: "piece list" where
  "guid_pieces = [ZHex 8, Lit 0x2D, ZHex 4, Lit 0x2D, ZHex 4, Lit 0x2D, ZHex 2, ZHex 2, Lit 0x2D,
     ZHex 2, ZHex 2, ZHex 2, ZHex 2, ZHex 2, ZHex 2]"

lemma guid_pieces_format: "scratch_text guid_format = pieces_format guid_pieces" "list_all piece_ok guid_pieces"
proof -
  have "guid_format = concat (map piece_format guid_pieces)" by code_simp
  then show "scratch_text guid_format = pieces_format guid_pieces" by (simp add: pieces_format_def)
qed code_simp

lemma hexa_piece:
  fixes b :: "'a::len word"
  assumes "LENGTH('a) \<le> 32"
  shows "piece_text (ucast b) (ZHex w) = hexa w b"
proof -
  have "n < 32" if "bit b n" for n using bit_imp_le_length [OF that] assms by simp
  then have "(ucast (ucast (ucast b :: u64) :: u32) :: u64) = ucast b"
    by (auto intro!: bit_word_eqI simp: bit_simps)
  then show ?thesis by (simp add: hexa_def)
qed

lemma guid_pieces_text:
  assumes "Data4 g = [b0, b1, b2, b3, b4, b5, b6, b7]"
  shows "pieces_text (arg_list ([ucast (Data1 g), ucast (Data2 g), ucast (Data3 g)] @ map ucast (Data4 g))) 0
    guid_pieces = guid_dump g"
  by (simp add: guid_pieces_def arg_list_def numeral_eq_Suc guid_dump_def assms hexa_piece del: piece_text.simps(2-5))

lemma hexa_chars:
  fixes b :: "'a::len word"
  assumes "LENGTH('a) \<le> 4 * w" "0 < w" "w \<le> 16"
  shows "length (hexa w b) = w" "0x0A \<notin> set (hexa w b)" "digits_value 16 hex_value 0 (hexa w b) = unat b"
proof -
  have l: "LENGTH('a) \<le> LENGTH(64)" using assms by simp
  have u: "unat (ucast b :: u64) = unat b" by (rule unat_ucast_up) (rule l)
  have "unat b < 2 ^ LENGTH('a)" by (rule unsigned_less)
  also have "(2 :: nat) ^ LENGTH('a) \<le> 2 ^ (4 * w)" using assms(1) by (rule power_increasing) simp
  finally have "unat (ucast b :: u64) < 16 ^ w" by (simp add: u power_mult)
  from ValueToHex_length [OF this assms(2)] show "length (hexa w b) = w" by (simp add: hexa_def zeros_def)
  show "0x0A \<notin> set (hexa w b)"
    using zeros_props(1) [of w "ValueToHex (ucast b)"] ValueToHex_no_newline [of "ucast b"] by (auto simp: hexa_def)
  have z: "hex_value 0x30 = 0" by code_simp
  show "digits_value 16 hex_value 0 (hexa w b) = unat b"
    using digits_value_zeros [of hex_value, OF z] ValueToHex_digits(1) [of "ucast b"] u by (simp add: hexa_def)
qed

lemma eight_bytes: "guid_ok g \<longleftrightarrow> (\<exists>b0 b1 b2 b3 b4 b5 b6 b7. Data4 g = [b0, b1, b2, b3, b4, b5, b6, b7])"
  by (auto simp: guid_ok_def eval_nat_numeral length_Suc_conv)

lemma guid_dump_chars: "guid_ok g \<Longrightarrow> length (guid_dump g) = 36 \<and> 0x0A \<notin> set (guid_dump g)"
  by (auto simp: eight_bytes guid_dump_def hexa_chars)

lemma pieces_text_literal: "pieces_text as a (map Lit xs) = xs"
  by (induction xs arbitrary: a) simp_all

lemma GuidToString_put:
  assumes "guid_ok g"
  shows "GuidToString buf g m cv cells = Some (store_text cells buf (guid_text g))"
proof (cases "map_of KnownGuids g")
  case None
  then have t: "guid_text g = guid_dump g" by (simp add: guid_text_def)
  from assms obtain b0 b1 b2 b3 b4 b5 b6 b7 where "Data4 g = [b0, b1, b2, b3, b4, b5, b6, b7]"
    unfolding eight_bytes by blast
  note p = guid_pieces_text [OF this]
  have "0x0A \<notin> set (guid_dump g)" "length (guid_dump g) < 1000" using guid_dump_chars [OF assms] by simp_all
  from SPrint_pieces [OF guid_pieces_format(2,1) p this, of buf m cv cells] None t show ?thesis
    by (simp add: GuidToString_def find_guid [OF assms])
next
  case (Some n)
  then have k: "(g, n) \<in> set KnownGuids" by (rule map_of_SomeD)
  with KnownGuids_ok(3) have n: "list_all (\<lambda>c. c \<notin> {0, 0x25, 0x0A}) n \<and> length n < 36"
    by (fastforce simp: list_all_iff)
  have "scratch_text n = pieces_format (map Lit n)" by (simp add: pieces_format_def comp_def)
  moreover have "list_all piece_ok (map Lit n)" "0x0A \<notin> set n" "length n < 1000"
    using n by (auto simp: list_all_iff)
  ultimately show ?thesis
    using SPrint_pieces [of "map Lit n" "scratch_text n" "arg_list []" n buf m cv cells] Some
    by (simp add: GuidToString_def find_guid [OF assms] guid_text_def pieces_text_literal)
qed

lemma guid_text_length:
  assumes "guid_ok g"
  shows "length (guid_text g) \<le> 36" "map_of KnownGuids g \<noteq> None \<Longrightarrow> length (guid_text g) < 36"
proof -
  have n: "length n < 36" if "map_of KnownGuids g = Some n" for n
    using map_of_SomeD [OF that] KnownGuids_ok(3) by (fastforce simp: list_all_iff)
  then show "map_of KnownGuids g \<noteq> None \<Longrightarrow> length (guid_text g) < 36" by (auto simp: guid_text_def)
  then show "length (guid_text g) \<le> 36"
    using guid_dump_chars [OF assms] by (cases "map_of KnownGuids g") (auto simp: guid_text_def)
qed

text \<open>
  C40. The text of a GUID is in the buffer, for every GUID: its name when the library knows it and the digits of
  its fields otherwise, and it fits into the scratch array of the format interpreter.
\<close>

theorem GuidToString_text:
  assumes "guid_ok g"
  shows "GuidToString buf g m cv cells = Some (store_text cells buf (guid_text g)) \<and>
    held (store_text cells buf (guid_text g)) buf (guid_text g) \<and> length (guid_text g) < PRINT_ITEM_BUFFER_LEN"
  using GuidToString_put [OF assms] store_text_holds guid_text_length(1) [OF assms]
  by (simp add: PRINT_ITEM_BUFFER_LEN_def)

theorem GuidToString_text_witness:
  "GuidToString 3 (Guid 0x01234567 0x89AB 0xCDEF [1, 2, 3, 4, 5, 6, 7, 8]) (\<lambda>_. 0) no_conv (\<lambda>_. 9) =
    Some (store_text (\<lambda>_. 9) 3 (wide ''01234567-89AB-CDEF-0102-030405060708''))"
proof -
  let ?g = "Guid 0x01234567 0x89AB 0xCDEF [1, 2, 3, 4, 5, 6, 7, 8]"
  have "guid_ok ?g" "guid_text ?g = wide ''01234567-89AB-CDEF-0102-030405060708''" by code_simp+
  with GuidToString_text [of ?g 3 "\<lambda>_. 0" no_conv "\<lambda>_. 9"] show ?thesis by simp
qed

lemma hexa_append:
  fixes a b :: "'a::len word"
  assumes "LENGTH('a) \<le> 4 * w" "0 < w" "w \<le> 16"
  shows "hexa w a @ xs = hexa w b @ ys \<longleftrightarrow> a = b \<and> xs = ys"
proof -
  have "a = b" if "hexa w a = hexa w b"
    using hexa_chars(3) [OF assms, of a] hexa_chars(3) [OF assms, of b] that by (simp add: word_unat_eq_iff)
  then show ?thesis using hexa_chars(1) [OF assms] by (auto simp: append_eq_append_conv)
qed

lemma guid_dump_inj:
  assumes "guid_ok g" "guid_ok h" "guid_dump g = guid_dump h"
  shows "g = h"
proof -
  from assms(1) obtain b0 b1 b2 b3 b4 b5 b6 b7 where g: "Data4 g = [b0, b1, b2, b3, b4, b5, b6, b7]"
    unfolding eight_bytes by blast
  from assms(2) obtain c0 c1 c2 c3 c4 c5 c6 c7 where h: "Data4 h = [c0, c1, c2, c3, c4, c5, c6, c7]"
    unfolding eight_bytes by blast
  have last: "hexa 2 a = hexa 2 b \<longleftrightarrow> a = b" for a b :: u8 using hexa_append [of 2 a "[]" b "[]"] by simp
  from assms(3) have "Data1 g = Data1 h \<and> Data2 g = Data2 h \<and> Data3 g = Data3 h \<and> Data4 g = Data4 h"
    by (simp add: guid_dump_def g h hexa_append last)
  then show ?thesis by (simp add: EFI_GUID.expand)
qed

text \<open>
  Different GUIDs have different texts, the names of the known ones and the digits of the others alike.
\<close>

theorem GuidToString_injective:
  assumes "guid_ok g" "guid_ok h" "guid_text g = guid_text h"
  shows "g = h"
proof (cases "map_of KnownGuids g")
  case None
  have "map_of KnownGuids h = None"
    using guid_text_length(2) [OF assms(2)] guid_dump_chars [OF assms(1)] assms(3) None
    by (cases "map_of KnownGuids h") (simp_all add: guid_text_def)
  with None assms guid_dump_inj show ?thesis by (simp add: guid_text_def)
next
  case (Some n)
  then have "map_of KnownGuids h \<noteq> None"
    using guid_text_length(2) [OF assms(1)] guid_dump_chars [OF assms(2)] assms(3)
    by (cases "map_of KnownGuids h") (simp_all add: guid_text_def)
  with Some assms(3) have "map_of KnownGuids h = Some n" by (auto simp: guid_text_def)
  with map_of_inj [OF KnownGuids_ok(2) Some] show ?thesis by blast
qed

theorem GuidToString_injective_witness:
  "guid_text (Guid 1 2 3 [4, 5, 6, 7, 8, 9, 10, 11]) \<noteq> guid_text (Guid 1 2 3 [4, 5, 6, 7, 8, 9, 10, 12])"
proof
  have ok: "guid_ok (Guid 1 2 3 [4, 5, 6, 7, 8, 9, 10, 11])" "guid_ok (Guid 1 2 3 [4, 5, 6, 7, 8, 9, 10, 12])"
    by code_simp+
  assume "guid_text (Guid 1 2 3 [4, 5, 6, 7, 8, 9, 10, 11]) = guid_text (Guid 1 2 3 [4, 5, 6, 7, 8, 9, 10, 12])"
  from GuidToString_injective [OF ok this] show False by simp
qed

end
