(* ===== verification/EfiOut.thy ===== *)
theory EfiOut
  imports EfiPrint
begin

section \<open>Printing to consoles (gnu-efi/lib/print.c)\<close>

text \<open>
  The functions that print to a text output of the firmware. The firmware is only called: what is
  modelled is the sequence of the calls, with their arguments; the code does not look at their results.
\<close>

datatype out_call = SetCursorPosition u64 u64 | SetAttribute u64 | OutputString "u16 list"

definition EFI_TEXT_ATTR :: "u64 \<Rightarrow> u64 \<Rightarrow> u64" where "EFI_TEXT_ATTR f b = or f (push_bit 4 b)"

definition EFI_LIGHTGRAY :: u64 where "EFI_LIGHTGRAY = 7"
definition EFI_WHITE :: u64 where "EFI_WHITE = 15"
definition EFI_YELLOW :: u64 where "EFI_YELLOW = 14"
definition EFI_RED :: u64 where "EFI_RED = 4"

definition out_string :: "u16 list \<Rightarrow> out_call list \<Rightarrow> out_call list" where
  "out_string xs log = log @ [OutputString xs]"

definition out_attr :: "u64 \<Rightarrow> out_call list \<Rightarrow> out_call list" where
  "out_attr a log = log @ [SetAttribute a]"

text \<open>The environment of the interpreter: the colours keep the background of the current attribute.\<close>

definition out_env :: "u64 \<Rightarrow> (nat \<Rightarrow> u16) \<Rightarrow> (nat \<Rightarrow> u64) \<Rightarrow> mem \<Rightarrow> conversions \<Rightarrow> out_call list penv" where
  "out_env attr f as m cv =
     (let back = and (drop_bit 4 attr) 0xf in
      \<lparr>fmt = f, arg_slots = as, arg_mem = m, conv = cv, Output = out_string, SetAttr = Some out_attr,
       AttrNorm = EFI_TEXT_ATTR EFI_LIGHTGRAY back, AttrHighlight = EFI_TEXT_ATTR EFI_WHITE back,
       AttrError = EFI_TEXT_ATTR EFI_YELLOW back\<rparr>)"

text \<open>\<open>Mode->Attribute\<close> is an \<open>INT32\<close>. A format is wide characters, or bytes when there is no other.\<close>

definition IPrint_worker ::
  "u64 \<Rightarrow> u64 \<Rightarrow> u32 \<Rightarrow> (nat \<Rightarrow> u16) option \<Rightarrow> (nat \<Rightarrow> u8) \<Rightarrow> (nat \<Rightarrow> u64) \<Rightarrow> mem \<Rightarrow> conversions \<Rightarrow>
     (nat \<times> out_call list) option" where
  "IPrint_worker Column Row mode_attr f fa as m cv =
     (let attr = scast mode_attr :: u64;
          fm = (case f of Some g \<Rightarrow> g | None \<Rightarrow> (\<lambda>i. ucast (fa i)));
          log = (if Column \<noteq> - 1 then [SetCursorPosition Column Row] else [])
      in Print_core (out_env attr fm as m cv) attr log)"

definition Print_console ::
  "u32 \<Rightarrow> (nat \<Rightarrow> u16) \<Rightarrow> (nat \<Rightarrow> u64) \<Rightarrow> mem \<Rightarrow> conversions \<Rightarrow> (nat \<times> out_call list) option" where
  "Print_console mode_attr f as m cv = IPrint_worker (- 1) (- 1) mode_attr (Some f) (\<lambda>_. 0) as m cv"

definition VPrint ::
  "u32 \<Rightarrow> (nat \<Rightarrow> u16) \<Rightarrow> (nat \<Rightarrow> u64) \<Rightarrow> mem \<Rightarrow> conversions \<Rightarrow> (nat \<times> out_call list) option" where
  "VPrint mode_attr f as m cv = IPrint_worker (- 1) (- 1) mode_attr (Some f) (\<lambda>_. 0) as m cv"

definition PrintAt ::
  "u32 \<Rightarrow> u64 \<Rightarrow> u64 \<Rightarrow> (nat \<Rightarrow> u16) \<Rightarrow> (nat \<Rightarrow> u64) \<Rightarrow> mem \<Rightarrow> conversions \<Rightarrow> (nat \<times> out_call list) option" where
  "PrintAt mode_attr Column Row f as m cv = IPrint_worker Column Row mode_attr (Some f) (\<lambda>_. 0) as m cv"

text \<open>The same for a given output: its attribute is the one that counts.\<close>

definition IPrint ::
  "u32 \<Rightarrow> (nat \<Rightarrow> u16) \<Rightarrow> (nat \<Rightarrow> u64) \<Rightarrow> mem \<Rightarrow> conversions \<Rightarrow> (nat \<times> out_call list) option" where
  "IPrint out_mode_attr f as m cv = IPrint_worker (- 1) (- 1) out_mode_attr (Some f) (\<lambda>_. 0) as m cv"

definition IPrintAt ::
  "u32 \<Rightarrow> u64 \<Rightarrow> u64 \<Rightarrow> (nat \<Rightarrow> u16) \<Rightarrow> (nat \<Rightarrow> u64) \<Rightarrow> mem \<Rightarrow> conversions \<Rightarrow> (nat \<times> out_call list) option" where
  "IPrintAt out_mode_attr Column Row f as m cv =
     IPrint_worker Column Row out_mode_attr (Some f) (\<lambda>_. 0) as m cv"

definition APrint ::
  "u32 \<Rightarrow> (nat \<Rightarrow> u8) \<Rightarrow> (nat \<Rightarrow> u64) \<Rightarrow> mem \<Rightarrow> conversions \<Rightarrow> (nat \<times> out_call list) option" where
  "APrint mode_attr fa as m cv = IPrint_worker (- 1) (- 1) mode_attr None fa as m cv"

subsection \<open>Debug output\<close>

definition D_WARN :: u64 where "D_WARN = 2"
definition D_ERROR :: u64 where "D_ERROR = 0x80000000"

text \<open>
  \<open>DbgPrint\<close>: nothing when no bit of the mask is enabled; with an output (its attribute) the colour goes by
  the mask and the attribute is set back in the end; without one the text goes nowhere.
\<close>

definition DbgOut_string :: "bool \<Rightarrow> u16 list \<Rightarrow> out_call list \<Rightarrow> out_call list" where
  "DbgOut_string present xs log = (if present then log @ [OutputString xs] else log)"

definition DbgPrint ::
  "u64 \<Rightarrow> u64 \<Rightarrow> u32 option \<Rightarrow> (nat \<Rightarrow> u8) \<Rightarrow> (nat \<Rightarrow> u64) \<Rightarrow> mem \<Rightarrow> conversions \<Rightarrow> (int \<times> out_call list) option" where
  "DbgPrint EFIDebug msk dbg fa as m cv =
     (if and EFIDebug msk = 0 then Some (0, [])
      else
        let saved = (case dbg of None \<Rightarrow> EFI_TEXT_ATTR EFI_LIGHTGRAY EFI_RED | Some a \<Rightarrow> scast a);
            back = and (drop_bit 4 saved) 0xf;
            norm = EFI_TEXT_ATTR EFI_LIGHTGRAY back;
            high = EFI_TEXT_ATTR EFI_WHITE back;
            err = EFI_TEXT_ATTR EFI_YELLOW back;
            attr = norm;
            attr = (if and msk D_WARN \<noteq> 0 then high else attr);
            attr = (if and msk D_ERROR \<noteq> 0 then err else attr);
            e = \<lparr>fmt = (\<lambda>i. ucast (fa i)), arg_slots = as, arg_mem = m, conv = cv,
                 Output = DbgOut_string (dbg \<noteq> None), SetAttr = (if dbg = None then None else Some out_attr),
                 AttrNorm = norm, AttrHighlight = high, AttrError = err\<rparr>
        in case Print_core e (if dbg = None then saved else attr) (if dbg = None then [] else [SetAttribute attr]) of
             None \<Rightarrow> None
           | Some (n, log) \<Rightarrow> Some (0, if dbg = None then log else log @ [SetAttribute saved]))"

subsection \<open>What reaches the console\<close>

definition console_text :: "out_call list \<Rightarrow> u16 list" where
  "console_text log = concat (map (\<lambda>c. case c of OutputString xs \<Rightarrow> xs | _ \<Rightarrow> []) log)"

lemma console_text_simps [simp]:
  "console_text [] = []" "console_text (xs @ ys) = console_text xs @ console_text ys"
  "console_text (OutputString t # xs) = t @ console_text xs"
  "console_text (SetAttribute a # xs) = console_text xs"
  "console_text (SetCursorPosition c r # xs) = console_text xs"
  by (simp_all add: console_text_def)

text \<open>The calls that came after \<open>log0\<close> show the text.\<close>

definition shown :: "out_call list \<Rightarrow> out_call list \<Rightarrow> u16 list \<Rightarrow> bool" where
  "shown log0 log t \<longleftrightarrow> (\<exists>l. log = log0 @ l \<and> console_text l = t)"

lemma shown_extend: "shown log0 log t \<Longrightarrow> shown log0 (log @ l) (t @ console_text l)"
  unfolding shown_def by (metis append_assoc console_text_simps(2))

interpretation textout: text_sink out_string "Some out_attr" "shown log0" for log0
proof unfold_locales
  fix s t xs assume "shown log0 s t"
  from shown_extend [OF this, of "[OutputString xs]"] show "shown log0 (out_string xs s) (t @ xs)"
    by (simp add: out_string_def)
next
  fix f s t a assume "Some out_attr = Some f" "shown log0 s t"
  with shown_extend [OF this(2), of "[SetAttribute a]"] show "shown log0 (f a s) t" by (auto simp: out_attr_def)
qed

text \<open>
  The text that a console receives is that of the format, whatever attributes are set in between and however
  it is cut into strings; the result is its length, and the cursor is placed first, when it is asked for.
\<close>

theorem IPrint_worker_text:
  assumes "format_text (out_env (scast mode_attr) (case f of Some g \<Rightarrow> g | None \<Rightarrow> (\<lambda>i. ucast (fa i))) as m cv) 0 0 = Some xs"
  shows "\<exists>log. IPrint_worker Column Row mode_attr f fa as m cv = Some (length (newlines xs),
      (if Column \<noteq> - 1 then [SetCursorPosition Column Row] else []) @ log) \<and> console_text log = newlines xs"
proof -
  let ?fm = "case f of Some g \<Rightarrow> g | None \<Rightarrow> (\<lambda>i. ucast (fa i))"
  let ?log = "if Column \<noteq> - 1 then [SetCursorPosition Column Row] else []"
  have p: "textout.attached (out_env (scast mode_attr) ?fm as m cv)"
    by (simp add: textout.attached_def out_env_def Let_def)
  have "shown ?log ?log []" by (simp add: shown_def)
  from textout.Print_core_text [OF assms p this, of "scast mode_attr"] obtain t0 B log
    where "Print_core (out_env (scast mode_attr) ?fm as m cv) (scast mode_attr) ?log =
        Some (length (newlines xs), out_string B log)" "shown ?log log t0" "newlines xs = t0 @ B" by auto
  then show ?thesis by (auto simp: IPrint_worker_def Let_def out_string_def shown_def split del: if_split)
qed

theorem IPrint_worker_text_witness:
  "\<exists>log. PrintAt 0x71 5 6 (scratch_text [0x25, 0x45, 0x41, 0x25, 0x64, 0x0A]) (\<lambda>_. 42) (\<lambda>_. 0) no_conv =
      Some (5, SetCursorPosition 5 6 # log) \<and> console_text log = [0x41, 0x34, 0x32, 0x0D, 0x0A]"
proof -
  let ?f = "scratch_text [0x25, 0x45, 0x41, 0x25, 0x64, 0x0A]"
  have e: "format_text (out_env (scast (0x71 :: u32)) (case Some ?f of Some g \<Rightarrow> g | None \<Rightarrow> (\<lambda>i. ucast ((\<lambda>_. 0 :: u8) i)))
      (\<lambda>_. 42) (\<lambda>_. 0) no_conv) 0 0 = Some [0x41, 0x34, 0x32, 0x0A]" by code_simp
  have t: "newlines [0x41, 0x34, 0x32, 0x0A] = [0x41, 0x34, 0x32, 0x0D, 0x0A]"
    "length [0x41, 0x34, 0x32, 0x0D, 0x0A :: u16] = 5" by code_simp+
  from IPrint_worker_text [OF e, of 5 6] show ?thesis unfolding t PrintAt_def by simp
qed

text \<open>
  \<open>DbgPrint\<close>: nothing for a mask that is not enabled; otherwise the colour of the mask, the text of the
  format, and the attribute as it was before.
\<close>

definition dbg_env :: "u64 \<Rightarrow> (nat \<Rightarrow> u8) \<Rightarrow> (nat \<Rightarrow> u64) \<Rightarrow> mem \<Rightarrow> conversions \<Rightarrow> out_call list penv" where
  "dbg_env saved fa as m cv = out_env saved (\<lambda>i. ucast (fa i)) as m cv"

lemma DbgPrint_off: "and EFIDebug msk = 0 \<Longrightarrow> DbgPrint EFIDebug msk dbg fa as m cv = Some (0, [])"
  by (simp add: DbgPrint_def)

lemma DbgPrint_text:
  assumes "and EFIDebug msk \<noteq> 0" "format_text (dbg_env (scast a) fa as m cv) 0 0 = Some xs"
  shows "\<exists>attr log. DbgPrint EFIDebug msk (Some a) fa as m cv =
      Some (0, SetAttribute attr # log @ [SetAttribute (scast a)]) \<and> console_text log = newlines xs"
proof -
  let ?bg = "and (drop_bit 4 (scast a)) 0xf :: u64"
  define attr where "attr = (if and msk D_ERROR \<noteq> 0 then EFI_TEXT_ATTR EFI_YELLOW ?bg
     else if and msk D_WARN \<noteq> 0 then EFI_TEXT_ATTR EFI_WHITE ?bg else EFI_TEXT_ATTR EFI_LIGHTGRAY ?bg)"
  have p: "textout.attached (dbg_env (scast a) fa as m cv)"
    by (simp add: textout.attached_def dbg_env_def out_env_def Let_def)
  have "shown [SetAttribute attr] [SetAttribute attr] []" by (simp add: shown_def)
  from textout.Print_core_text [OF assms(2) p this, of attr] obtain t0 B log
    where l: "Print_core (dbg_env (scast a) fa as m cv) attr [SetAttribute attr] =
        Some (length (newlines xs), out_string B log)" "shown [SetAttribute attr] log t0" "newlines xs = t0 @ B" by auto
  have o: "DbgOut_string True = out_string" by (simp add: DbgOut_string_def out_string_def fun_eq_iff)
  have e: "DbgPrint EFIDebug msk (Some a) fa as m cv =
    (case Print_core (dbg_env (scast a) fa as m cv) attr [SetAttribute attr] of None \<Rightarrow> None
     | Some (n, log) \<Rightarrow> Some (0, log @ [SetAttribute (scast a)]))"
    using assms(1)
    by (simp add: DbgPrint_def Let_def dbg_env_def out_env_def o attr_def cong: option.case_cong if_cong prod.case_cong)
  show ?thesis using l unfolding e by (auto simp: out_string_def shown_def)
qed

end
