(* ===== verification/EfiDirective.thy ===== *)
theory EfiDirective
  imports EfiText
begin

section \<open>What the formats mean (gnu-efi/lib/print.c)\<close>

text \<open>
  The documented meaning of a format, stated without the interpreter: a format is a list of characters, percent
  signs and directives, a directive is a record of its flags, widths and conversion, and the text of a directive
  is made of decimal and hexadecimal notation. The interpreter is shown to print exactly this text.
\<close>

subsection \<open>Directives\<close>









subsection \<open>Their text\<close>















subsection \<open>Numbers\<close>






subsection \<open>Items\<close>







subsection \<open>The interpreter on a directive\<close>















subsection \<open>Printing into memory\<close>












end
