(* ===== verification/EfiMisc.thy ===== *)
theory EfiMisc
  imports EfiGuid
begin

section \<open>Helpers of the UEFI library (gnu-efi/lib: boxdraw.c, misc.c)\<close>

text \<open>
  Classes of characters for text consoles, the check of a master boot record, and the loop that
  asks the firmware again with a larger buffer as long as it answers that the buffer is too small.
\<close>

subsection \<open>Characters of text consoles (boxdraw.c)\<close>

record UNICODE_TO_CHAR =
  uc_Unicode :: u16
  uc_PcAnsi :: u8
  uc_Ascii :: u8

text \<open>The constants are those of \<open>eficon.h\<close>; the last row ends the table.\<close>

definition UnicodeToPcAnsiOrAscii :: "UNICODE_TO_CHAR list" where
  "UnicodeToPcAnsiOrAscii = map (\<lambda>(u, p, a). \<lparr>uc_Unicode = u, uc_PcAnsi = p, uc_Ascii = a\<rparr>)
   [
    (0x2500, 0xc4, 0x2D), (0x2502, 0xb3, 0x7C), (0x250c, 0xda, 0x2F), (0x2510, 0xbf, 0x5C),
    (0x2514, 0xc0, 0x5C), (0x2518, 0xd9, 0x2F), (0x251c, 0xc3, 0x7C), (0x2524, 0xb4, 0x7C),
    (0x252c, 0xc2, 0x2B), (0x2534, 0xc1, 0x2B), (0x253c, 0xc5, 0x2B), (0x2550, 0xcd, 0x2D),
    (0x2551, 0xba, 0x7C), (0x2552, 0xd5, 0x2F), (0x2553, 0xd6, 0x2F), (0x2554, 0xc9, 0x2F),
    (0x2555, 0xb8, 0x5C), (0x2556, 0xb7, 0x5C), (0x2557, 0xbb, 0x5C), (0x2558, 0xd4, 0x5C),
    (0x2559, 0xd3, 0x5C), (0x255a, 0xc8, 0x5C), (0x255b, 0xbe, 0x2F), (0x255c, 0xbd, 0x2F),
    (0x255d, 0xbc, 0x2F), (0x255e, 0xc6, 0x7C), (0x255f, 0xc7, 0x7C), (0x2560, 0xcc, 0x7C),
    (0x2561, 0xb5, 0x7C), (0x2562, 0xb6, 0x7C), (0x2563, 0xb9, 0x7C), (0x2564, 0xd1, 0x2B),
    (0x2565, 0xd2, 0x2B), (0x2566, 0xcb, 0x2B), (0x2567, 0xcf, 0x2B), (0x2568, 0xd0, 0x2B),
    (0x2569, 0xca, 0x2B), (0x256a, 0xd8, 0x2B), (0x256b, 0xd7, 0x2B), (0x256c, 0xce, 0x2B),
    (0x2588, 0xdb, 0x2A), (0x2591, 0xb0, 0x2B), (0x25b2, 0x1e, 0x5E), (0x25ba, 0x10, 0x3E),
    (0x25bc, 0x1f, 0x76), (0x25c4, 0x11, 0x3C), (0x2191, 0x18, 0x5E), (0x2193, 0x19, 0x76), (0x0000, 0x00, 0x00)]"

text \<open>An optional pointer is \<open>None\<close> for NULL, else the cell it points to.\<close>

fun graphics_loop :: "u16 \<Rightarrow> UNICODE_TO_CHAR list \<Rightarrow> u8 option \<Rightarrow> u8 option \<Rightarrow> bool \<times> u8 option \<times> u8 option" where
  "graphics_loop Graphic [] PcAnsi Ascii = (False, PcAnsi, Ascii)"
| "graphics_loop Graphic (e # Table) PcAnsi Ascii =
     (if uc_Unicode e = 0x0000 then (False, PcAnsi, Ascii)
      else if Graphic = uc_Unicode e
        then (True, map_option (\<lambda>_. uc_PcAnsi e) PcAnsi, map_option (\<lambda>_. uc_Ascii e) Ascii)
      else graphics_loop Graphic Table PcAnsi Ascii)"

definition LibIsValidTextGraphics :: "u16 \<Rightarrow> u8 option \<Rightarrow> u8 option \<Rightarrow> bool \<times> u8 option \<times> u8 option" where
  "LibIsValidTextGraphics Graphic PcAnsi Ascii =
     (if Graphic AND 0xff00 \<noteq> 0x2500 \<and> Graphic AND 0xff00 \<noteq> 0x2100 then (False, PcAnsi, Ascii)
      else graphics_loop Graphic UnicodeToPcAnsiOrAscii PcAnsi Ascii)"

definition IsValidAscii :: "u16 \<Rightarrow> bool" where
  "IsValidAscii Ascii \<longleftrightarrow> Ascii \<ge> 0x20 \<and> Ascii \<le> 0x7f"

definition IsValidEfiCntlChar :: "u16 \<Rightarrow> bool" where
  "IsValidEfiCntlChar c \<longleftrightarrow> c = 0x0000 \<or> c = 0x0008 \<or> c = 0x000A \<or> c = 0x000D"

subsection \<open>Master boot records (misc.c, efipart.h)\<close>

record MBR_PARTITION_RECORD =
  BootIndicator :: u8
  StartHead :: u8
  StartSector :: u8
  StartTrack :: u8
  OSIndicator :: u8
  EndHead :: u8
  EndSector :: u8
  EndTrack :: u8
  StartingLBA :: "u8 list"
  SizeInLBA :: "u8 list"

record MASTER_BOOT_RECORD =
  BootStrapCode :: "u8 list"
  UniqueMbrSignature :: "u8 list"
  mbr_Unknown :: "u8 list"
  Partition :: "MBR_PARTITION_RECORD list"
  mbr_Signature :: u16

definition EXTRACT_UINT32 :: "u8 list \<Rightarrow> u32" where
  "EXTRACT_UINT32 D = ucast (D ! 0) OR push_bit 8 (ucast (D ! 1)) OR push_bit 16 (ucast (D ! 2)) OR push_bit 24 (ucast (D ! 3))"

definition MBR_SIGNATURE :: u16 where "MBR_SIGNATURE = 0xaa55"
definition MIN_MBR_DEVICE_SIZE :: u64 where "MIN_MBR_DEVICE_SIZE = 0x80000"
definition MBR_ERRATA_PAD :: u64 where "MBR_ERRATA_PAD = 0x40000"

definition part_skipped :: "MBR_PARTITION_RECORD \<Rightarrow> bool" where
  "part_skipped p \<longleftrightarrow> OSIndicator p = 0x00 \<or> EXTRACT_UINT32 (SizeInLBA p) = 0"

definition part_end :: "MBR_PARTITION_RECORD \<Rightarrow> u32" where
  "part_end p = EXTRACT_UINT32 (StartingLBA p) + EXTRACT_UINT32 (SizeInLBA p) - 1"

text \<open>Does a later partition start or end in the region of an earlier one?\<close>

definition part_overlaps :: "u32 \<Rightarrow> u32 \<Rightarrow> MBR_PARTITION_RECORD \<Rightarrow> bool" where
  "part_overlaps StartLBA EndLBA p \<longleftrightarrow> \<not> part_skipped p \<and>
     (EXTRACT_UINT32 (StartingLBA p) \<ge> StartLBA \<and> EXTRACT_UINT32 (StartingLBA p) \<le> EndLBA \<or>
      part_end p \<ge> StartLBA \<and> part_end p \<le> EndLBA)"

fun mbr_loop :: "u64 \<Rightarrow> MBR_PARTITION_RECORD list \<Rightarrow> bool \<Rightarrow> bool" where
  "mbr_loop LastBlock [] ValidMbr = ValidMbr"
| "mbr_loop LastBlock (p # ps) ValidMbr =
     (if part_skipped p then mbr_loop LastBlock ps ValidMbr
      else if ucast (part_end p) > LastBlock \<and>
         (LastBlock < MIN_MBR_DEVICE_SIZE \<or> ucast (part_end p) > LastBlock + MBR_ERRATA_PAD) then False
      else if list_ex (part_overlaps (EXTRACT_UINT32 (StartingLBA p)) (part_end p)) ps then False
      else mbr_loop LastBlock ps True)"

definition ValidMBR :: "MASTER_BOOT_RECORD \<Rightarrow> u64 \<Rightarrow> bool" where
  "ValidMBR Mbr LastBlock =
     (if mbr_Signature Mbr \<noteq> MBR_SIGNATURE then False else mbr_loop LastBlock (Partition Mbr) False)"

text \<open>The two rows of a table overlap when a block belongs to both; blocks are counted as numbers.\<close>

definition part_blocks :: "MBR_PARTITION_RECORD \<Rightarrow> nat set" where
  "part_blocks p = {unat (EXTRACT_UINT32 (StartingLBA p)) ..<
     unat (EXTRACT_UINT32 (StartingLBA p)) + unat (EXTRACT_UINT32 (SizeInLBA p))}"

subsection \<open>Buffers that grow (misc.c)\<close>

text \<open>
  The firmware's pool services and the service to be called are parameters over a firmware state; a
  call gets the size and the buffer and answers a status and the size it needs.
\<close>

record 'w pool_services =
  bs_AllocatePool :: "'w \<Rightarrow> u64 \<Rightarrow> 'w \<times> efi_status \<times> u64"
  bs_FreePool :: "'w \<Rightarrow> u64 \<Rightarrow> 'w"

type_synonym 'w sized_call = "'w \<Rightarrow> u64 \<Rightarrow> u64 \<Rightarrow> 'w \<times> efi_status \<times> u64"

definition EFI_BUFFER_TOO_SMALL :: efi_status where "EFI_BUFFER_TOO_SMALL = 0x8000000000000005"
definition EFI_OUT_OF_RESOURCES :: efi_status where "EFI_OUT_OF_RESOURCES = 0x8000000000000009"
definition EFI_NOT_FOUND :: efi_status where "EFI_NOT_FOUND = 0x800000000000000E"

definition AllocatePool :: "'w pool_services \<Rightarrow> 'w \<Rightarrow> u64 \<Rightarrow> 'w \<times> u64" where
  "AllocatePool bs w Size =
     (case bs_AllocatePool bs w Size of (w, Status, p) \<Rightarrow> (w, if EFI_ERROR Status then NULL else p))"

definition FreePool :: "'w pool_services \<Rightarrow> 'w \<Rightarrow> u64 \<Rightarrow> 'w" where
  "FreePool bs w Buf = bs_FreePool bs w Buf"

definition GrowBuffer ::
  "'w pool_services \<Rightarrow> 'w \<Rightarrow> efi_status \<Rightarrow> u64 \<Rightarrow> u64 \<Rightarrow> 'w \<times> efi_status \<times> u64 \<times> bool" where
  "GrowBuffer bs w Status Buf BufferSize =
     (let Status = (if Buf = NULL \<and> BufferSize \<noteq> 0 then EFI_BUFFER_TOO_SMALL else Status);
          (w, Status, Buf, TryAgain) =
            (if Status = EFI_BUFFER_TOO_SMALL
             then let w = (if Buf \<noteq> NULL then FreePool bs w Buf else w);
                      (w, Buf) = AllocatePool bs w BufferSize
                  in if Buf \<noteq> NULL then (w, Status, Buf, True)
                     else (w, EFI_OUT_OF_RESOURCES, Buf, False)
             else (w, Status, Buf, False))
      in if \<not> TryAgain \<and> EFI_ERROR Status \<and> Buf \<noteq> NULL
         then (FreePool bs w Buf, Status, NULL, TryAgain)
         else (w, Status, Buf, TryAgain))"

partial_function (option) grow_loop ::
  "'w pool_services \<Rightarrow> 'w sized_call \<Rightarrow> 'w \<Rightarrow> efi_status \<Rightarrow> u64 \<Rightarrow> u64 \<Rightarrow> ('w \<times> efi_status \<times> u64 \<times> u64) option" where
  "grow_loop bs service w Status Buf BufferSize =
     (case GrowBuffer bs w Status Buf BufferSize of (w, Status, Buf, TryAgain) \<Rightarrow>
        if TryAgain
        then (case service w BufferSize Buf of (w, Status, BufferSize) \<Rightarrow>
                grow_loop bs service w Status Buf BufferSize)
        else Some (w, Status, Buf, BufferSize))"

definition sizeof_EFI_MEMORY_DESCRIPTOR :: u64 where "sizeof_EFI_MEMORY_DESCRIPTOR = 40"

text \<open>
  \<open>DescriptorSize\<close> reads the cell that the service writes beside the map. A status that the code
  leaves uninitialised is an argument.
\<close>

definition LibMemoryMap ::
  "'w pool_services \<Rightarrow> 'w sized_call \<Rightarrow> ('w \<Rightarrow> u64) \<Rightarrow> 'w \<Rightarrow> ('w \<times> u64 \<times> u64 option) option" where
  "LibMemoryMap bs GetMemoryMap DescriptorSize w =
     map_option (\<lambda>(w, Status, Buf, BufferSize).
         (w, Buf, if \<not> EFI_ERROR Status then Some (BufferSize div DescriptorSize w) else None))
       (grow_loop bs GetMemoryMap w EFI_SUCCESS NULL sizeof_EFI_MEMORY_DESCRIPTOR)"

definition LibGetVariableAndSize ::
  "'w pool_services \<Rightarrow> 'w sized_call \<Rightarrow> efi_status \<Rightarrow> 'w \<Rightarrow> ('w \<times> u64 \<times> u64) option" where
  "LibGetVariableAndSize bs GetVariable garbage w =
     map_option (\<lambda>(w, Status, Buf, BufferSize). (w, Buf, if Buf \<noteq> NULL then BufferSize else 0))
       (grow_loop bs GetVariable w garbage NULL 100)"

definition LibGetVariable ::
  "'w pool_services \<Rightarrow> 'w sized_call \<Rightarrow> efi_status \<Rightarrow> 'w \<Rightarrow> ('w \<times> u64) option" where
  "LibGetVariable bs GetVariable garbage w =
     map_option (\<lambda>(w, Buf, VarSize). (w, Buf)) (LibGetVariableAndSize bs GetVariable garbage w)"

text \<open>The result is the new content of the cell \<open>Table\<close>, and the status.\<close>

fun LibGetSystemConfigurationTable :: "EFI_GUID \<Rightarrow> (EFI_GUID \<times> u64) list \<Rightarrow> u64 \<Rightarrow> u64 \<times> efi_status" where
  "LibGetSystemConfigurationTable TableGuid [] Table = (Table, EFI_NOT_FOUND)"
| "LibGetSystemConfigurationTable TableGuid ((VendorGuid, VendorTable) # ts) Table =
     (if CompareGuid TableGuid VendorGuid = 0 then (VendorTable, EFI_SUCCESS)
      else LibGetSystemConfigurationTable TableGuid ts Table)"

subsection \<open>Classes of characters\<close>

lemma graphics_loop_find:
  "graphics_loop g t p a =
     (case List.find (\<lambda>e. uc_Unicode e = g) (takeWhile (\<lambda>e. uc_Unicode e \<noteq> 0) t) of
        None \<Rightarrow> (False, p, a)
      | Some e \<Rightarrow> (True, map_option (\<lambda>_. uc_PcAnsi e) p, map_option (\<lambda>_. uc_Ascii e) a))"
  by (induction t) auto

lemma graphics_rows:
  "takeWhile (\<lambda>e. uc_Unicode e \<noteq> 0) UnicodeToPcAnsiOrAscii = butlast UnicodeToPcAnsiOrAscii"
  by code_simp

lemma graphics_range:
  "list_all (\<lambda>e. (uc_Unicode e AND 0xff00 = 0x2500 \<or> uc_Unicode e AND 0xff00 = 0x2100)
     \<and> IsValidAscii (ucast (uc_Ascii e)) \<and> \<not> IsValidAscii (uc_Unicode e) \<and> \<not> IsValidEfiCntlChar (uc_Unicode e))
     (butlast UnicodeToPcAnsiOrAscii)"
  by code_simp

lemma graphics_distinct: "distinct (map uc_Unicode (butlast UnicodeToPcAnsiOrAscii))"
  "distinct (map uc_PcAnsi (butlast UnicodeToPcAnsiOrAscii))"
  by code_simp+

text \<open>
  Exactly the characters of the table's rows before its last are graphics; each has one row, whose codes
  are stored through the pointers that are not NULL. Another character leaves the cells alone. The
  replacements are printable, and no graphics character is printable or a control character itself.
\<close>

theorem LibIsValidTextGraphics_rows:
  "(case LibIsValidTextGraphics g p a of
      (True, p', a') \<Rightarrow> (\<exists>!e. e \<in> set (butlast UnicodeToPcAnsiOrAscii) \<and> uc_Unicode e = g)
        \<and> (\<exists>e\<in>set (butlast UnicodeToPcAnsiOrAscii). uc_Unicode e = g \<and> IsValidAscii (ucast (uc_Ascii e))
             \<and> p' = map_option (\<lambda>_. uc_PcAnsi e) p \<and> a' = map_option (\<lambda>_. uc_Ascii e) a)
        \<and> \<not> IsValidAscii g \<and> \<not> IsValidEfiCntlChar g
    | (False, p', a') \<Rightarrow> g \<notin> uc_Unicode ` set (butlast UnicodeToPcAnsiOrAscii) \<and> p' = p \<and> a' = a)"
proof -
  let ?rows = "butlast UnicodeToPcAnsiOrAscii"
  have rows: "(g AND 0xff00 = 0x2500 \<or> g AND 0xff00 = 0x2100) \<and> IsValidAscii (ucast (uc_Ascii e))
      \<and> \<not> IsValidAscii g \<and> \<not> IsValidEfiCntlChar g" if "e \<in> set ?rows" "uc_Unicode e = g" for e
    using graphics_range that by (auto simp: list_all_iff)
  show ?thesis
  proof (cases "List.find (\<lambda>e. uc_Unicode e = g) ?rows")
    case None
    then have "g \<notin> uc_Unicode ` set ?rows" by (auto simp: find_None_iff)
    with None show ?thesis
      by (simp add: LibIsValidTextGraphics_def graphics_loop_find graphics_rows)
  next
    case (Some e)
    then have e: "e \<in> set ?rows" "uc_Unicode e = g"
      by (auto simp: find_Some_iff in_set_conv_nth)
    have u: "\<exists>!e. e \<in> set ?rows \<and> uc_Unicode e = g"
      using e graphics_distinct(1) by (auto simp: distinct_map inj_on_def)
    have "LibIsValidTextGraphics g p a =
        (True, map_option (\<lambda>_. uc_PcAnsi e) p, map_option (\<lambda>_. uc_Ascii e) a)"
      using rows [OF e] Some by (auto simp: LibIsValidTextGraphics_def graphics_loop_find graphics_rows)
    with e rows [OF e] u show ?thesis by auto
  qed
qed

subsection \<open>Master boot records\<close>

lemma unat_part_end:
  assumes "\<not> part_skipped p" "unat (EXTRACT_UINT32 (StartingLBA p)) + unat (EXTRACT_UINT32 (SizeInLBA p)) \<le> 2 ^ 32"
  shows "unat (part_end p) + 1 = unat (EXTRACT_UINT32 (StartingLBA p)) + unat (EXTRACT_UINT32 (SizeInLBA p))"
proof -
  let ?s = "EXTRACT_UINT32 (StartingLBA p)" and ?n = "EXTRACT_UINT32 (SizeInLBA p)"
  have n: "?n \<noteq> 0" using assms(1) by (simp add: part_skipped_def)
  then have one: "1 \<le> ?n" by (simp add: word_le_nat_alt Suc_le_eq unat_gt_0)
  then have m: "unat (?n - 1) = unat ?n - 1" by (simp add: unat_sub)
  have pos: "0 < unat ?n" using n by (simp add: unat_gt_0)
  have "part_end p = ?s + (?n - 1)" by (simp add: part_end_def)
  moreover have "unat ?s + unat (?n - 1) < 2 ^ 32" using assms(2) m pos by simp
  ultimately have "unat (part_end p) = unat ?s + unat (?n - 1)"
    by (simp add: unat_word_ariths)
  with m pos show ?thesis by simp
qed

text \<open>What the loops accept: a used partition, ends that fit, and no later start or end inside.\<close>

lemma mbr_loop_iff:
  "mbr_loop lb ps v \<longleftrightarrow> (v \<or> (\<exists>p\<in>set ps. \<not> part_skipped p))
     \<and> (\<forall>p\<in>set ps. part_skipped p \<or> ucast (part_end p) \<le> lb \<or>
          lb \<ge> MIN_MBR_DEVICE_SIZE \<and> ucast (part_end p) \<le> lb + MBR_ERRATA_PAD)
     \<and> sorted_wrt (\<lambda>p q. part_skipped p \<or> \<not> part_overlaps (EXTRACT_UINT32 (StartingLBA p)) (part_end p) q) ps"
proof (induction ps arbitrary: v)
  case Nil
  then show ?case by simp
next
  case (Cons p ps)
  show ?case
    by (cases "part_skipped p") (auto simp: Cons.IH list_ex_iff not_le not_less)
qed

text \<open>
  In an accepted record whose used partitions do not wrap around, two used partitions are disjoint
  unless the later one contains the earlier one with blocks on both sides.
\<close>

theorem ValidMBR_disjoint:
  assumes "ValidMBR mbr lb" "i < j" "j < length (Partition mbr)"
    and "p = Partition mbr ! i" "q = Partition mbr ! j" "\<not> part_skipped p" "\<not> part_skipped q"
    and "unat (EXTRACT_UINT32 (StartingLBA p)) + unat (EXTRACT_UINT32 (SizeInLBA p)) \<le> 2 ^ 32"
    and "unat (EXTRACT_UINT32 (StartingLBA q)) + unat (EXTRACT_UINT32 (SizeInLBA q)) \<le> 2 ^ 32"
  shows "part_blocks p \<inter> part_blocks q = {} \<or>
    unat (EXTRACT_UINT32 (StartingLBA q)) < unat (EXTRACT_UINT32 (StartingLBA p)) \<and>
    unat (part_end p) < unat (part_end q)"
proof -
  have n: "\<not> part_overlaps (EXTRACT_UINT32 (StartingLBA p)) (part_end p) q"
    using assms(1-6) by (auto simp: ValidMBR_def mbr_loop_iff sorted_wrt_iff_nth_less split: if_splits)
  note e = unat_part_end [OF assms(6,8)] unat_part_end [OF assms(7,9)]
  show ?thesis
    using n assms(7) e unfolding part_overlaps_def part_blocks_def word_le_nat_alt
    by (auto simp: disjoint_iff)
qed

definition demo_part :: "u8 \<Rightarrow> u8 \<Rightarrow> u8 \<Rightarrow> MBR_PARTITION_RECORD" where
  "demo_part os start count = \<lparr>BootIndicator = 0, StartHead = 0, StartSector = 0, StartTrack = 0,
     OSIndicator = os, EndHead = 0, EndSector = 0, EndTrack = 0,
     StartingLBA = [start, 0, 0, 0], SizeInLBA = [count, 0, 0, 0]\<rparr>"

definition demo_mbr :: "MBR_PARTITION_RECORD list \<Rightarrow> MASTER_BOOT_RECORD" where
  "demo_mbr ps = \<lparr>BootStrapCode = replicate 440 0, UniqueMbrSignature = [0, 0, 0, 0], mbr_Unknown = [0, 0],
     Partition = ps, mbr_Signature = 0xaa55\<rparr>"

text \<open>The case that is left is really accepted: the second partition contains the first one.\<close>

theorem ValidMBR_accepts_enclosing:
  "ValidMBR (demo_mbr [demo_part 7 20 10, demo_part 7 10 100, demo_part 0 0 0, demo_part 0 0 0]) 0x100000"
  "\<not> ValidMBR (demo_mbr [demo_part 7 10 100, demo_part 7 20 10, demo_part 0 0 0, demo_part 0 0 0]) 0x100000"
  "part_blocks (demo_part 7 20 10) \<subset> part_blocks (demo_part 7 10 100)"
  by (code_simp, code_simp, auto simp: part_blocks_def demo_part_def EXTRACT_UINT32_def)

subsection \<open>The loop over growing buffers\<close>

lemma GrowBuffer_cases:
  assumes "GrowBuffer bs w s b n = (w', s', b', t)" "n \<noteq> 0"
  shows "t \<Longrightarrow> b' \<noteq> NULL \<and> (b = NULL \<or> s = EFI_BUFFER_TOO_SMALL)"
    and "\<not> t \<Longrightarrow> EFI_ERROR s' \<longleftrightarrow> b' = NULL"
  using assms
  by (auto simp: GrowBuffer_def Let_def EFI_ERROR_def EFI_BUFFER_TOO_SMALL_def EFI_OUT_OF_RESOURCES_def
      split: if_splits prod.splits)

text \<open>
  The service answers that the buffer is too small only with a larger size, and asks for at most \<open>M\<close>
  bytes: then the loop ends, whatever the pool answers. The buffer is NULL exactly after an error.
\<close>

theorem grow_loop_returns:
  assumes "\<And>w n b w' m. service w n b = (w', EFI_BUFFER_TOO_SMALL, m) \<Longrightarrow> n < m \<and> m \<le> M"
    and "\<And>w n b w' st m. service w n b = (w', st, m) \<Longrightarrow> m \<noteq> 0"
    and "n \<noteq> 0"
  shows "\<exists>w' s' b' n'. grow_loop bs service w s NULL n = Some (w', s', b', n') \<and> (EFI_ERROR s' \<longleftrightarrow> b' = NULL)"
proof -
  have "\<exists>w' s' b' n'. grow_loop bs service w s b n = Some (w', s', b', n') \<and> (EFI_ERROR s' \<longleftrightarrow> b' = NULL)"
    if "n \<noteq> 0" for w s b n
    using that
  proof (induction "unat M - unat n" arbitrary: w s b n rule: less_induct)
    case less
    obtain w1 s1 b1 t where g: "GrowBuffer bs w s b n = (w1, s1, b1, t)" by (cases "GrowBuffer bs w s b n") auto
    obtain w2 s2 m where c: "service w1 n b1 = (w2, s2, m)" by (cases "service w1 n b1") auto
    have unf: "grow_loop bs service w s b n =
        (if t then grow_loop bs service w2 s2 b1 m else Some (w1, s1, b1, n))"
      by (subst grow_loop.simps) (simp add: g c)
    show ?case
    proof (cases t)
      case False
      then show ?thesis using unf GrowBuffer_cases(2) [OF g less.prems] by simp
    next
      case True
      then have b1: "b1 \<noteq> NULL" using GrowBuffer_cases(1) [OF g less.prems] by simp
      have m0: "m \<noteq> 0" using assms(2) [OF c] .
      show ?thesis
      proof (cases "s2 = EFI_BUFFER_TOO_SMALL")
        case True
        then have "n < m" "m \<le> M" using assms(1) c by blast+
        then have "unat M - unat m < unat M - unat n" by (simp add: word_less_nat_alt word_le_nat_alt)
        with less.hyps [OF this m0] unf \<open>t\<close> show ?thesis by simp
      next
        case False
        obtain w3 s3 b3 t3 where g3: "GrowBuffer bs w2 s2 b1 m = (w3, s3, b3, t3)"
          by (cases "GrowBuffer bs w2 s2 b1 m") auto
        then have "\<not> t3" using GrowBuffer_cases(1) [OF g3 m0] b1 False by blast
        then have "grow_loop bs service w2 s2 b1 m = Some (w3, s3, b3, m)"
          by (subst grow_loop.simps) (simp add: g3)
        with unf \<open>t\<close> GrowBuffer_cases(2) [OF g3 m0 \<open>\<not> t3\<close>] show ?thesis by simp
      qed
    qed
  qed
  then show ?thesis using assms(3) by blast
qed

text \<open>
  A firmware whose state is the number of blocks in use, with a map of \<open>need\<close> bytes in descriptors of
  48 bytes: the map is returned, in one block.
\<close>

definition demo_pool :: "nat pool_services" where
  "demo_pool = \<lparr>bs_AllocatePool = (\<lambda>w n. (w + 1, EFI_SUCCESS, 0x1000)), bs_FreePool = (\<lambda>w b. w - 1)\<rparr>"

definition demo_map :: "u64 \<Rightarrow> nat sized_call" where
  "demo_map need w n b = (w, if n < need then EFI_BUFFER_TOO_SMALL else EFI_SUCCESS, need)"

lemma LibMemoryMap_demo: "LibMemoryMap demo_pool (demo_map 480) (\<lambda>_. 48) 0 = Some (1, 0x1000, Some 10)"
  unfolding LibMemoryMap_def
  by (simp add: grow_loop.simps GrowBuffer_def AllocatePool_def FreePool_def demo_pool_def demo_map_def Let_def
      EFI_ERROR_def EFI_SUCCESS_def EFI_BUFFER_TOO_SMALL_def sizeof_EFI_MEMORY_DESCRIPTOR_def)

subsection \<open>Configuration tables\<close>

text \<open>The first table with the GUID is found; without one the cell keeps its value.\<close>

theorem LibGetSystemConfigurationTable_first:
  assumes "guid_ok g" "\<forall>t\<in>set ts. guid_ok (fst t)"
  shows "LibGetSystemConfigurationTable g ts cell =
    (case map_of ts g of Some t \<Rightarrow> (t, EFI_SUCCESS) | None \<Rightarrow> (cell, EFI_NOT_FOUND))"
  using assms(2) by (induction ts) (auto simp: CompareGuid_zero [OF assms(1)])

end
