(* ===== verification/Spec2Isabelle.thy ===== *)
theory Spec2Isabelle
  imports EfiCrc EfiMath Bootloader PciNames KernelMemory KernelInit EfiGuid EfiOut EfiDirective EfiMisc
begin

text \<open>
  MatesOS: a verification library for the bootloader, the kernel and the UEFI library it is built with.

  \<^bold>\<open>The program.\<close> The firmware starts the UEFI image of \<open>gnu-efi/bootloader/main.c\<close>. The image relocates
  itself (\<open>gnu-efi/gnuefi/reloc_x86_64.c\<close>), loads the kernel and its font through the firmware, looks for the
  root pointer of the ACPI tables, takes the memory map and jumps into the kernel, with all of it in a
  \<open>BootInfo\<close>. The kernel (\<open>kernel/src/kernel.cpp\<close> and \<open>InitializeKernel\<close> in \<open>kernel/src/utils/kernelUtil.cpp\<close>)
  sets up the screen, reads the processor's features, loads its segment descriptors, builds the page frame
  allocator from the memory map and page tables on top of it, creates a heap on pages that these two provide,
  fills the interrupt descriptor table, remaps the interrupt controllers, brings up the mouse, and walks over the
  ACPI tables: MCFG leads to the PCI functions and their disk drivers, FACP to shutdown and reset, MADT to the
  interrupt controllers. From then on it only handles interrupts of the keyboard and the mouse.

  \<^bold>\<open>Conventions.\<close> Integers of fixed width are words, so each wrap-around of the code is one of the model;
  \<open>long\<close> coordinates of the renderer are integers. Structures are records with the fields of the source, enumerations
  are datatypes. Memory has one of three forms, as the component needs it: bytes by address where layouts
  are shared with firmware, devices or page tables (\<open>mem\<close>, theory \<open>ByteMem\<close>); a typed store by address for the
  headers of heap segments and the descriptors of the memory map; cells by number for the strings of the UEFI
  library. Accesses to ports and device registers are events of a trace, and a device is a function that answers
  a read from everything that happened before. A function that can panic returns a sum. A loop that may not
  end is a partial function, whose value is \<open>None\<close> when it does not return; a property of such a loop states that
  it returns, unless it is about a call that did succeed, where a device or a broken table decides (\<open>Read\<close>,
  \<open>PrepareACPI\<close>). No definition has fuel: the other loops recurse over data or have a termination proof.
\<close>

section \<open>The theories and the sources\<close>

text \<open>
  Shared: \<open>Prelude\<close> (types, words, lists, counting loops, the fact collections \<open>frame_simps\<close> and \<open>word_nat\<close>)
  and \<open>ByteMem\<close> (little-endian fields, blocks that lie apart).

  The kernel's memory:
  \<^item> \<open>Bitmap\<close> and \<open>PageFrames\<close>: \<open>kernel/src/utils/Bitmap.cpp\<close>, \<open>utils/efiMemory.cpp\<close> and
    \<open>memory_management/PageFrameAllocator.cpp\<close>. The state is \<open>PageFrameAllocator\<close> with the file-level variables. Locking
    and releasing are the locales \<open>page_claim\<close> and \<open>page_release\<close>, interpreted on the four operations. Shown: the
    least free page is found, the accounts stay in balance in every sequence of operations (\<open>pfa_step\<close>), and no free
    page lies in memory the firmware reserved.
  \<^item> \<open>PageTables\<close>: \<open>memory_management/PageTableManager.cpp\<close>, \<open>PageMapIndexer.cpp\<close>, \<open>paging.cpp\<close>. The tables lie in
    the same byte memory as the bitmap. \<open>frame_map\<close> is the abstract specification, a partial function from
    indices of the four levels to frames; mapping, unmapping and remapping refine its updates, and a range
    of addresses is mapped to itself byte by byte. \<open>StableMem\<close> and \<open>TableBudget\<close> say which bytes mapping leaves
    alone and how many free pages a number of calls or a long range needs.
  \<^item> \<open>Heap\<close>: \<open>memory_management/heap.cpp\<close>. \<open>heap_rep\<close> relates the linked headers to a list of segments. The locale
    \<open>block_allocator\<close> is the contract of an allocator, interpreted on \<open>malloc\<close> and \<open>free\<close>; \<open>heap_step\<close> gives the
    histories of the heap. The clearing of \<open>calloc\<close> is applied to the headers it reaches; where a free segment is
    shorter than a header it destroys the list, which is shown beside the invariant. The page source is the
    parameter \<open>grow\<close>; \<open>KernelMemory\<close> gives it the real allocator and page tables, and composes \<open>PrepareMemory\<close>.
  \<^item> \<open>KernelLib\<close>: \<open>kernel/src/library\<close> and \<open>utils/helpers.cpp\<close>, with the numbers as text.

  Devices and tables:
  \<^item> \<open>Interrupts\<close>: \<open>IO/IO.cpp\<close>, \<open>interrupts/interrupts.cpp\<close>, \<open>interrupts/IDT.cpp\<close>, \<open>scheduling/pit/pit.cpp\<close>.
  \<^item> \<open>Acpi\<close>: \<open>acpi/acpi.cpp\<close> and \<open>facp/facp.cpp\<close>. The sleep package that \<open>Shutdown\<close> uses is specified by its
    encoding in the ACPI machine language, apart from the code that parses it.
  \<^item> \<open>Apic\<close>: \<open>apic/madt.cpp\<close>, \<open>ioapic.cpp\<close>, \<open>locap_apic.cpp\<close>, with the mappings that the walk makes.
  \<^item> \<open>Pci\<close> and \<open>PciNames\<close>: \<open>PCI/pci.cpp\<close> and \<open>PCI/pciDescriptors.cpp\<close>. The locale \<open>budget_scan\<close> is a scan that uses
    up mappings and collects into a bounded list. The specification filters all addresses of the described
    buses; that no bus or device lacks its function 0 is a hypothesis, because the code skips those that do.
  \<^item> \<open>Drivers\<close>: \<open>utils/driver.cpp\<close>. \<open>Ahci\<close>: \<open>ahci/ahci.cpp\<close>, whose command is stated byte for byte with the order of
    the register accesses around it.
  \<^item> \<open>Renderer\<close> and \<open>Console\<close>: \<open>kernel/src/renderer\<close>; the cursor stays in the grid and the mouse picture can be undone.
  \<^item> \<open>Input\<close>: \<open>kernel/src/userinput\<close> and the interrupt handlers. \<open>irq_step\<close> is one interrupt at the pair of
    interrupt controllers, whose lines in service are modelled, so that a missing acknowledgement at either
    controller would block a line.
  \<^item> \<open>Cpu\<close>: \<open>kernel/src/cpu\<close>. \<open>KernelInit\<close>: \<open>kernel/src/gdt\<close>, and the steps of \<open>utils/kernelUtil.cpp\<close> that bring
    components together.

  Before the kernel:
  \<^item> \<open>Bootloader\<close>: \<open>gnu-efi/bootloader/main.c\<close>; \<open>EfiReloc\<close>: \<open>gnu-efi/gnuefi/reloc_x86_64.c\<close> and \<open>reloc_aarch64.c\<close>, two
    interpretations of the locale \<open>relocation\<close>. The dynamic section is specified by its entries' values.
  \<^item> \<open>EfiStrings\<close>: \<open>gnu-efi/lib/runtime/rtstr.c\<close>, \<open>runtime/efirtlib.c\<close>, \<open>lib/str.c\<close>; pattern matching against the
    inductive relation \<open>glob\<close>. \<open>EfiCrc\<close>: \<open>lib/crc.c\<close>, against the polynomial bit by bit. \<open>EfiMath\<close>: \<open>lib/x86_64/math.c\<close>
    and \<open>lib/ia32/math.c\<close>. \<open>EfiMisc\<close>: \<open>lib/boxdraw.c\<close> and parts of \<open>lib/misc.c\<close>.
  \<^item> \<open>EfiFormat\<close>, \<open>EfiPrint\<close>, \<open>EfiOut\<close>: \<open>lib/print.c\<close>. The interpreter prints through an \<open>Output\<close> function; the locale
    \<open>text_sink\<close> is its contract, interpreted on the buffer, on allocated memory and on the firmware's console.
    \<open>EfiDirective\<close> says what a format means without the interpreter, and that the interpreter prints it.
    \<open>EfiText\<close> and \<open>EfiGuid\<close>: the texts of times, status codes (\<open>lib/error.c\<close>) and GUIDs (\<open>lib/guid.c\<close>).
\<close>

section \<open>Bounds\<close>

text \<open>
  The theorems bound their inputs as follows:
  \<^item> A request to the heap is at most 2 to the 61 bytes, with twice its size and 16 KiB of addresses left
    behind the end of the heap: the heap grows by whole pages of the request and its header.
  \<^item> Mapping one address uses at most three pages. A theorem about a range asks for three free pages for each page,
    or, with \<open>TableBudget\<close>, for the number of tables that its paths miss. Addresses of ranges lie below 2 to the 48,
    which four levels of tables can tell apart.
  \<^item> A range that does not start at a page and touches one page more than its size needs is excluded: the loop of the
    code leaves its last page unmapped (a finding).
  \<^item> The port loops of the mouse are bounded by the code's own count of 100000, and so are the waits of the disk
    driver for a drive that is busy (1000000); both end for every device.
\<close>

section \<open>What is not modelled\<close>

text \<open>
  Clients of the heap write inside their blocks only; such writes are not part of the histories. Printing reads its
  arguments from a memory that the output does not change. Stack, code and the objects of the kernel are
  not parts of the byte memory, except where a structure is addressed as bytes. Floating point is left out: the
  timer's counter and sleep, \<open>to_string\<close> of a double, and \<open>FloatToString\<close>, which is a parameter of the format
  interpreter, as is the text of device paths. \<open>InitializeKernel\<close> is proved in its parts and not as one sequence, because the
  screen output of the parts is not in their models. The firmware, the processor's CPUID instruction,
  devices and the content of files are parameters; what is assumed of them is a hypothesis of each theorem, and a
  witness gives an instance. Single instructions (loading table registers, enabling interrupts, halting), the entry
  code in assembler, linker scripts, and the parts of the UEFI library that only pass on calls of the firmware have
  no model. Console output inside the initialisation of components is left out where it does not change their state.
\<close>

end
